(* ===== verification/Prelude.thy ===== *)
theory Prelude
  imports Complex_Main "HOL-Library.Word" "HOL-Library.List_Lexorder"
    "HOL-Library.Char_ord" "HOL-Library.Multiset" "HOL-Library.AList"
begin

text \<open>
  What the components share: Python floats as IEEE values without arithmetic,
  computations that may raise and keep the state they changed, dictionaries as
  association lists in insertion order, the drop-oldest queue that several
  components implement, and transition systems with their runs.
\<close>

named_theorems exec_simps
named_theorems frame_simps
named_theorems raises_intros

section \<open>Floats\<close>

text \<open>
  The safety domain only compares floats and asks whether they are finite. A finite
  double is a rational number and compares as one; NaN compares false against
  everything.
\<close>

datatype pyfloat = Fin rat | PosInf | NegInf | NaN

fun pf_less :: "pyfloat \<Rightarrow> pyfloat \<Rightarrow> bool" where
  "pf_less (Fin a) (Fin b) = (a < b)"
| "pf_less NegInf (Fin _) = True"
| "pf_less NegInf PosInf = True"
| "pf_less (Fin _) PosInf = True"
| "pf_less _ _ = False"

fun pf_le :: "pyfloat \<Rightarrow> pyfloat \<Rightarrow> bool" where
  "pf_le (Fin a) (Fin b) = (a \<le> b)"
| "pf_le NegInf NaN = False"
| "pf_le NegInf _ = True"
| "pf_le (Fin _) PosInf = True"
| "pf_le PosInf PosInf = True"
| "pf_le _ _ = False"

fun isfinite :: "pyfloat \<Rightarrow> bool" where
  "isfinite (Fin _) = True"
| "isfinite _ = False"

lemma isfinite_iff: "isfinite x \<longleftrightarrow> (\<exists>a. x = Fin a)"
  by (cases x) auto

lemma pf_less_trans: "pf_less a b \<Longrightarrow> pf_less b c \<Longrightarrow> pf_less a c"
  by (cases a; cases b; cases c) auto

lemma pf_le_less_trans: "pf_le a b \<Longrightarrow> pf_less b c \<Longrightarrow> pf_less a c"
  by (cases a; cases b; cases c) auto

lemma pf_less_irrefl [simp]: "\<not> pf_less a a"
  by (cases a) auto

lemma pf_less_NaN [simp]: "\<not> pf_less NaN a" "\<not> pf_less a NaN"
  by (cases a; simp)+

lemma map_of_rev_distinct: "distinct (map fst xs) \<Longrightarrow> map_of (rev xs) = map_of xs"
  by (rule map_of_inject_set [THEN iffD2]) (simp_all add: rev_map [symmetric])

section \<open>Computations that raise\<close>

text \<open>
  A pure check returns \<open>'e + 'a\<close>. A method that mutates its object is a function from
  the state to the result and the next state: an exception does not undo the changes made
  before it.
\<close>

definition rbind :: "'e + 'a \<Rightarrow> ('a \<Rightarrow> 'e + 'b) \<Rightarrow> 'e + 'b" where
  "rbind m f = (case m of Inl e \<Rightarrow> Inl e | Inr a \<Rightarrow> f a)"

definition guard :: "bool \<Rightarrow> 'e \<Rightarrow> 'e + unit" where
  "guard b e = (if b then Inr () else Inl e)"

fun ropt :: "('a \<Rightarrow> 'e + 'b) \<Rightarrow> 'a option \<Rightarrow> 'e + 'b option" where
  "ropt f None = Inr None"
| "ropt f (Some a) = rbind (f a) (\<lambda>b. Inr (Some b))"

fun rmap :: "('a \<Rightarrow> 'e + 'b) \<Rightarrow> 'a list \<Rightarrow> 'e + 'b list" where
  "rmap f [] = Inr []"
| "rmap f (x # xs) = rbind (f x) (\<lambda>y. rbind (rmap f xs) (\<lambda>ys. Inr (y # ys)))"

lemma rbind_simps [simp]: "rbind (Inl e) f = Inl e" "rbind (Inr a) f = f a"
  by (simp_all add: rbind_def)

lemma rbind_weak_cong: "m = m' \<Longrightarrow> rbind m f = rbind m' f"
  by simp

lemma rbind_Inr_iff: "rbind m f = Inr b \<longleftrightarrow> (\<exists>a. m = Inr a \<and> f a = Inr b)"
  by (cases m) auto

lemma rbind_Inl_iff: "rbind m f = Inl e \<longleftrightarrow> m = Inl e \<or> (\<exists>a. m = Inr a \<and> f a = Inl e)"
  by (cases m) auto

lemma guard_simps [simp]:
  "guard b e = Inr u \<longleftrightarrow> b" "guard b e = Inl e' \<longleftrightarrow> \<not> b \<and> e' = e"
  "guard True e = Inr ()" "guard False e = Inl e"
  by (auto simp: guard_def)

lemma ropt_Inr_iff:
  "ropt f x = Inr y \<longleftrightarrow>
     (x = None \<and> y = None) \<or> (\<exists>a b. x = Some a \<and> f a = Inr b \<and> y = Some b)"
  by (cases x) (auto simp: rbind_Inr_iff)

lemma ropt_check [simp]:
  "ropt (\<lambda>a. if P a then Inr a else Inl e) x = Inr y \<longleftrightarrow> y = x \<and> pred_option P x"
  by (cases x; cases y) (auto simp: rbind_Inr_iff split: if_splits)

text \<open>The exceptions a check can end in.\<close>

definition raises_only :: "'e set \<Rightarrow> 'e + 'a \<Rightarrow> bool" where
  "raises_only E m \<longleftrightarrow> (case m of Inl e \<Rightarrow> e \<in> E | Inr _ \<Rightarrow> True)"

lemma raises_only_rbind [raises_intros]:
  "raises_only E m \<Longrightarrow> (\<And>a. m = Inr a \<Longrightarrow> raises_only E (f a)) \<Longrightarrow> raises_only E (rbind m f)"
  by (cases m) (auto simp: raises_only_def)

lemma raises_only_guard [raises_intros]: "(\<not> b \<Longrightarrow> e \<in> E) \<Longrightarrow> raises_only E (guard b e)"
  by (auto simp: raises_only_def guard_def)

lemma raises_only_simps [simp]: "raises_only E (Inr a)" "raises_only E (Inl e) \<longleftrightarrow> e \<in> E"
  by (simp_all add: raises_only_def)

lemma raises_only_if [raises_intros]:
  "(b \<Longrightarrow> raises_only E m) \<Longrightarrow> (\<not> b \<Longrightarrow> raises_only E n) \<Longrightarrow> raises_only E (if b then m else n)"
  by simp

lemma raises_only_rmap [raises_intros]:
  "(\<And>x. x \<in> set xs \<Longrightarrow> raises_only E (f x)) \<Longrightarrow> raises_only E (rmap f xs)"
  by (induction xs) (auto intro!: raises_only_rbind)

lemma rmap_Inr_list_all:
  "rmap f xs = Inr ys \<Longrightarrow> (\<And>x y. f x = Inr y \<Longrightarrow> P y) \<Longrightarrow> list_all P ys"
  by (induction xs arbitrary: ys) (auto simp: rbind_Inr_iff)

lemma rmap_cong_Inr: "(\<And>x. x \<in> set xs \<Longrightarrow> f x = Inr (g x)) \<Longrightarrow> rmap f xs = Inr (map g xs)"
  by (induction xs) simp_all

lemma rmap_Inr_mem: "rmap f xs = Inr ys \<Longrightarrow> x \<in> set xs \<Longrightarrow> \<exists>y\<in>set ys. f x = Inr y"
  by (induction xs arbitrary: ys) (auto simp: rbind_Inr_iff)

lemma rmap_map: "rmap f xs = Inr ys \<Longrightarrow> (\<And>x y. x \<in> set xs \<Longrightarrow> f x = Inr y \<Longrightarrow> g y = k x) \<Longrightarrow> map g ys = map k xs"
  by (induction xs arbitrary: ys) (auto simp: rbind_Inr_iff)

type_synonym ('s, 'e, 'a) exec = "'s \<Rightarrow> ('e + 'a) \<times> 's"

definition ret :: "'a \<Rightarrow> ('s, 'e, 'a) exec" where
  "ret a = (\<lambda>s. (Inr a, s))"

definition throw :: "'e \<Rightarrow> ('s, 'e, 'a) exec" where
  "throw e = (\<lambda>s. (Inl e, s))"

definition lift :: "'e + 'a \<Rightarrow> ('s, 'e, 'a) exec" where
  "lift r = (\<lambda>s. (r, s))"

definition get :: "('s \<Rightarrow> 'a) \<Rightarrow> ('s, 'e, 'a) exec" where
  "get f = (\<lambda>s. (Inr (f s), s))"

definition put :: "('s \<Rightarrow> 's) \<Rightarrow> ('s, 'e, unit) exec" where
  "put f = (\<lambda>s. (Inr (), f s))"

definition ebind :: "('s, 'e, 'a) exec \<Rightarrow> ('a \<Rightarrow> ('s, 'e, 'b) exec) \<Rightarrow> ('s, 'e, 'b) exec" where
  "ebind m f = (\<lambda>s. case m s of (Inl e, s') \<Rightarrow> (Inl e, s') | (Inr a, s') \<Rightarrow> f a s')"

definition eseq :: "('s, 'e, 'a) exec \<Rightarrow> ('s, 'e, 'b) exec \<Rightarrow> ('s, 'e, 'b) exec" where
  "eseq m n = ebind m (\<lambda>_. n)"

definition etry :: "('s, 'e, 'a) exec \<Rightarrow> ('e \<Rightarrow> ('s, 'e, 'a) exec) \<Rightarrow> ('s, 'e, 'a) exec" where
  "etry m h = (\<lambda>s. case m s of (Inl e, s') \<Rightarrow> h e s' | (Inr a, s') \<Rightarrow> (Inr a, s'))"

lemma exec_apply [exec_simps]:
  "ret a s = (Inr a, s)" "throw e s = (Inl e, s)" "lift r s = (r, s)"
  "get f s = (Inr (f s), s)" "put g s = (Inr (), g s)"
  by (simp_all add: ret_def throw_def lift_def get_def put_def)

lemma ebind_apply [exec_simps]:
  "ebind m f s = (case m s of (Inl e, s') \<Rightarrow> (Inl e, s') | (Inr a, s') \<Rightarrow> f a s')"
  "eseq m n s = (case m s of (Inl e, s') \<Rightarrow> (Inl e, s') | (Inr a, s') \<Rightarrow> n s')"
  "etry m h s = (case m s of (Inl e, s') \<Rightarrow> h e s' | (Inr a, s') \<Rightarrow> (Inr a, s'))"
  by (simp_all add: ebind_def eseq_def etry_def)

lemma ebind_Inr:
  assumes "ebind m f s = (Inr b, s')"
  obtains a s1 where "m s = (Inr a, s1)" "f a s1 = (Inr b, s')"
  using assms by (auto simp: ebind_apply split: prod.splits sum.splits)

lemma ebind_Inl:
  assumes "ebind m f s = (Inl e, s')"
  obtains (first) "m s = (Inl e, s')"
  | (second) a s1 where "m s = (Inr a, s1)" "f a s1 = (Inl e, s')"
  using assms by (auto simp: ebind_apply split: prod.splits sum.splits)

section \<open>Dictionaries\<close>

text \<open>
  A Python dictionary keeps insertion order and an assignment to a present key keeps its
  place, which is what \<^const>\<open>AList.update\<close> does.
\<close>

lemma distinct_keys_update:
  "distinct (map fst d) \<Longrightarrow> distinct (map fst (AList.update k v d))"
  by (rule distinct_update)

lemma map_of_filter_distinct:
  "distinct (map fst d) \<Longrightarrow> (k, v) \<in> set d \<longleftrightarrow> map_of d k = Some v"
  by (rule map_of_eq_Some_iff [symmetric])

section \<open>The drop-oldest queue\<close>

text \<open>
  Three components bound a queue by evicting its oldest element: the audit trail, a lossy
  frame subscriber and a broker's client queue. The interface is a push, the retained
  elements oldest first, the capacity, and the total weight of the evicted elements.
\<close>

locale drop_oldest =
  fixes push :: "'x \<Rightarrow> 'q \<Rightarrow> 'q"
    and contents :: "'q \<Rightarrow> 'x list"
    and capacity :: "'q \<Rightarrow> nat"
    and evicted :: "'q \<Rightarrow> 'n :: comm_monoid_add"
    and weight :: "'x \<Rightarrow> 'n"
    and invar :: "'q \<Rightarrow> bool"
  assumes capacity_pos: "invar q \<Longrightarrow> 0 < capacity q"
    and bounded: "invar q \<Longrightarrow> length (contents q) \<le> capacity q"
    and invar_push: "invar q \<Longrightarrow> invar (push x q)"
    and capacity_push: "invar q \<Longrightarrow> capacity (push x q) = capacity q"
    and push_room: "invar q \<Longrightarrow> length (contents q) < capacity q \<Longrightarrow>
      contents (push x q) = contents q @ [x] \<and> evicted (push x q) = evicted q"
    and push_full: "invar q \<Longrightarrow> length (contents q) = capacity q \<Longrightarrow>
      contents (push x q) = tl (contents q) @ [x] \<and>
      evicted (push x q) = evicted q + weight (hd (contents q))"
begin

lemma contents_push:
  assumes "invar q"
  shows "contents (push x q)
    = drop (Suc (length (contents q)) - capacity q) (contents q) @ [x]"
proof (cases "length (contents q) = capacity q")
  case True
  then have "drop (Suc (length (contents q)) - capacity q) (contents q) = tl (contents q)"
    by (simp add: Suc_diff_le drop_Suc)
  with push_full [OF assms True, of x] show ?thesis by simp
next
  case False
  with bounded [OF assms] have "length (contents q) < capacity q" by simp
  with push_room [OF assms this, of x] show ?thesis by simp
qed

lemma push_all_invar: "invar q \<Longrightarrow> invar (fold push xs q)"
  by (induction xs arbitrary: q) (auto simp: invar_push)

lemma push_all_capacity: "invar q \<Longrightarrow> capacity (fold push xs q) = capacity q"
  by (induction xs arbitrary: q) (auto simp: invar_push capacity_push)

lemma push_all_contents:
  "invar q \<Longrightarrow> contents (fold push xs q)
     = drop (length (contents q) + length xs - capacity q) (contents q @ xs)"
proof (induction xs arbitrary: q)
  case Nil
  then show ?case using bounded [of q] by simp
next
  case (Cons x xs)
  let ?n = "length (contents q)"
  let ?c = "capacity q"
  have c: "0 < ?c" "?n \<le> ?c" using Cons.prems capacity_pos bounded by auto
  have push: "contents (push x q) = drop (Suc ?n - ?c) (contents q) @ [x]"
    using Cons.prems by (rule contents_push)
  have "contents (fold push xs (push x q))
      = drop (length (contents (push x q)) + length xs - ?c) (contents (push x q) @ xs)"
    using Cons.IH [of "push x q"] Cons.prems by (simp add: invar_push capacity_push)
  also have "\<dots> = drop (?n + length (x # xs) - ?c) (contents q @ x # xs)"
  proof (cases "?n = ?c")
    case True
    with c have "Suc ?n - ?c = 1" by simp
    with c True show ?thesis unfolding push by (cases "contents q") auto
  next
    case False
    with c have "Suc ?n - ?c = 0" by simp
    then show ?thesis unfolding push by simp
  qed
  finally show ?case by simp
qed

lemma push_all_conserves:
  "invar q \<Longrightarrow> evicted (fold push xs q) + sum_list (map weight (contents (fold push xs q)))
     = evicted q + sum_list (map weight (contents q)) + sum_list (map weight xs)"
proof (induction xs arbitrary: q)
  case Nil
  then show ?case by simp
next
  case (Cons x xs)
  have "evicted (push x q) + sum_list (map weight (contents (push x q)))
      = evicted q + sum_list (map weight (contents q)) + weight x"
  proof (cases "length (contents q) = capacity q")
    case True
    then have "contents q \<noteq> []" using capacity_pos [OF Cons.prems] by auto
    then obtain y ys where "contents q = y # ys" by (cases "contents q") auto
    with push_full [OF Cons.prems True, of x] show ?thesis by (simp add: ac_simps)
  next
    case False
    with bounded [OF Cons.prems] have "length (contents q) < capacity q" by simp
    with push_room [OF Cons.prems this, of x] show ?thesis by (simp add: ac_simps)
  qed
  with Cons.IH [of "push x q"] Cons.prems show ?case by (simp add: invar_push ac_simps)
qed

end

section \<open>Runs of a transition system\<close>

text \<open>
  A component whose operations are functions of its state runs over a list of calls. The
  state after a run keeps what every single operation keeps.
\<close>

fun run_calls :: "('c \<Rightarrow> 's \<Rightarrow> 's) \<Rightarrow> 'c list \<Rightarrow> 's \<Rightarrow> 's" where
  "run_calls step [] s = s"
| "run_calls step (c # cs) s = run_calls step cs (step c s)"

lemma run_calls_append: "run_calls step (xs @ ys) s = run_calls step ys (run_calls step xs s)"
  by (induction xs arbitrary: s) auto

locale preserved =
  fixes step :: "'c \<Rightarrow> 's \<Rightarrow> 's"
    and inv :: "'s \<Rightarrow> bool"
    and ok :: "'c \<Rightarrow> bool"
  assumes step_inv: "inv s \<Longrightarrow> ok c \<Longrightarrow> inv (step c s)"
begin

lemma run_inv: "inv s \<Longrightarrow> (\<And>c. c \<in> set cs \<Longrightarrow> ok c) \<Longrightarrow> inv (run_calls step cs s)"
  by (induction cs arbitrary: s) (auto simp: step_inv)

end

end
