(* ===== verification/Safety_Errors.thy ===== *)
theory Safety_Errors
  imports Prelude
begin

text \<open>
  The failures of \<open>canx/safety/errors.py\<close>. Every exception class is a constructor; the
  arguments are the parts of its details that a caller branches on. \<open>Foreign\<close> is an
  exception of another class, named by its type.
\<close>

datatype exn =
    SafetyErrorOf string
  | SafetyStateError string string
  | SafetyEmergencyStopError string
  | SafetyScopeError
  | SafetyUnknownOperationError
  | SafetyPolicyError
  | SafetyCallerError
  | SafetyApprovalError
  | SafetyApprovalExpiredError
  | SafetyApprovalReusedError
  | SafetyApprovalProvenanceError
  | SafetyAuditError string
  | SafetyIdentifierError string
  | SafetyRollbackError string exn exn
  | Foreign string

text \<open>The \<open>code\<close> attribute: every safety exception has one, a foreign exception has none.\<close>

fun error_code :: "exn \<Rightarrow> string option" where
  "error_code (SafetyErrorOf c) = Some c"
| "error_code (SafetyStateError _ _) = Some ''safety.invalid_transition''"
| "error_code (SafetyEmergencyStopError _) = Some ''safety.emergency_stop_active''"
| "error_code SafetyScopeError = Some ''safety.invalid_scope''"
| "error_code SafetyUnknownOperationError = Some ''safety.unknown_operation''"
| "error_code SafetyPolicyError = Some ''safety.policy_failure''"
| "error_code SafetyCallerError = Some ''safety.caller_not_permitted''"
| "error_code SafetyApprovalError = Some ''safety.approval_invalid''"
| "error_code SafetyApprovalExpiredError = Some ''safety.approval_expired''"
| "error_code SafetyApprovalReusedError = Some ''safety.approval_reused''"
| "error_code SafetyApprovalProvenanceError = Some ''safety.approval_provenance''"
| "error_code (SafetyAuditError _) = Some ''safety.audit_failure''"
| "error_code (SafetyIdentifierError _) = Some ''safety.invalid_identifier''"
| "error_code (SafetyRollbackError _ _ _) = Some ''safety.rollback_failure''"
| "error_code (Foreign _) = None"

text \<open>\<open>except SafetyApprovalError\<close> also catches the three subclasses.\<close>

fun is_approval_error :: "exn \<Rightarrow> bool" where
  "is_approval_error SafetyApprovalError = True"
| "is_approval_error SafetyApprovalExpiredError = True"
| "is_approval_error SafetyApprovalReusedError = True"
| "is_approval_error SafetyApprovalProvenanceError = True"
| "is_approval_error _ = False"

fun is_audit_error :: "exn \<Rightarrow> bool" where
  "is_audit_error (SafetyAuditError _) = True"
| "is_audit_error _ = False"

end
