(* ===== verification/Identifiers.thy ===== *)
theory Identifiers
  imports Safety_Errors
begin

text \<open>
  The audit identifier contract of \<open>canx/safety/identifiers.py\<close>. A value of a Python
  \<open>str\<close> is a HOL \<open>string\<close>; a character outside ASCII is outside the alphabet either way.
\<close>

definition MAX_AUDIT_IDENTIFIER_LENGTH :: nat where
  "MAX_AUDIT_IDENTIFIER_LENGTH = 64"

definition AUDIT_IDENTIFIER_ALPHABET :: string where
  "AUDIT_IDENTIFIER_ALPHABET =
     ''abcdefghijklmnopqrstuvwxyz'' @ ''ABCDEFGHIJKLMNOPQRSTUVWXYZ'' @ ''0123456789'' @ ''._:-''"

definition SHA256_HEX_LENGTH :: nat where
  "SHA256_HEX_LENGTH = 64"

definition HEX_DIGITS :: string where
  "HEX_DIGITS = ''0123456789abcdef''"

text \<open>The two regular expressions, matched against the whole value.\<close>

definition identifier_ok :: "string \<Rightarrow> bool" where
  "identifier_ok v \<longleftrightarrow>
     1 \<le> length v \<and> length v \<le> MAX_AUDIT_IDENTIFIER_LENGTH \<and>
     list_all (\<lambda>c. c \<in> set AUDIT_IDENTIFIER_ALPHABET) v"

definition digest_ok :: "string \<Rightarrow> bool" where
  "digest_ok v \<longleftrightarrow> length v = SHA256_HEX_LENGTH \<and> list_all (\<lambda>c. c \<in> set HEX_DIGITS) v"

text \<open>A value handed to a validator is a string or another object, known by its type name.\<close>

datatype pyvalue = StrValue string | OtherValue string

fun type_name :: "pyvalue \<Rightarrow> string" where
  "type_name (StrValue _) = ''str''"
| "type_name (OtherValue t) = t"

definition validate_audit_identifier :: "pyvalue \<Rightarrow> string \<Rightarrow> exn + string" where
  "validate_audit_identifier value role =
     (case value of
        OtherValue _ \<Rightarrow> Inl (SafetyIdentifierError role)
      | StrValue v \<Rightarrow>
          if v = [] then Inl (SafetyIdentifierError role)
          else if \<not> identifier_ok v then Inl (SafetyIdentifierError role)
          else Inr v)"

definition validate_sha256_digest :: "pyvalue \<Rightarrow> string \<Rightarrow> exn + string" where
  "validate_sha256_digest value role =
     (case value of
        OtherValue _ \<Rightarrow> Inl (SafetyIdentifierError role)
      | StrValue v \<Rightarrow> if \<not> digest_ok v then Inl (SafetyIdentifierError role) else Inr v)"

text \<open>The concrete identifier types: one constructor each, differing in the role.\<close>

datatype identifier_type =
  CallerId | OperationId | ApprovalId | DeviceId | ChannelId | CancellerId | AuditEventId

fun role_of :: "identifier_type \<Rightarrow> string" where
  "role_of CallerId = ''caller identifier''"
| "role_of OperationId = ''operation identifier''"
| "role_of ApprovalId = ''approval identifier''"
| "role_of DeviceId = ''device identifier''"
| "role_of ChannelId = ''channel identifier''"
| "role_of CancellerId = ''canceller identifier''"
| "role_of AuditEventId = ''audit event identifier''"

definition PARAMETERS_DIGEST_ROLE :: string where
  "PARAMETERS_DIGEST_ROLE = ''parameters digest''"

definition REASON_DIGEST_ROLE :: string where
  "REASON_DIGEST_ROLE = ''reason digest''"

definition new_identifier :: "identifier_type \<Rightarrow> pyvalue \<Rightarrow> exn + string" where
  "new_identifier ty value = validate_audit_identifier value (role_of ty)"

text \<open>\<open>uuid.UUID.hex\<close>: the 128 bits as 32 lowercase hexadecimal digits, high digit first.\<close>

definition hex_digit :: "nat \<Rightarrow> char" where
  "hex_digit n = HEX_DIGITS ! (n mod 16)"

fun hex_digits :: "nat \<Rightarrow> nat \<Rightarrow> string" where
  "hex_digits 0 n = []"
| "hex_digits (Suc k) n = hex_digits k (n div 16) @ [hex_digit n]"

definition uuid_hex :: "128 word \<Rightarrow> string" where
  "uuid_hex w = hex_digits 32 (unat w)"

definition new_audit_event_id :: "128 word \<Rightarrow> exn + string" where
  "new_audit_event_id w = new_identifier AuditEventId (StrValue (uuid_hex w))"

definition new_operation_id :: "128 word \<Rightarrow> exn + string" where
  "new_operation_id w = new_identifier OperationId (StrValue (''op-'' @ uuid_hex w))"

definition new_approval_id :: "128 word \<Rightarrow> exn + string" where
  "new_approval_id w = new_identifier ApprovalId (StrValue (''approval-'' @ uuid_hex w))"

section \<open>Lemmas\<close>

lemma validate_identifier_Inr [simp]:
  "validate_audit_identifier v role = Inr s \<longleftrightarrow> v = StrValue s \<and> identifier_ok s"
  by (auto simp: validate_audit_identifier_def identifier_ok_def split: pyvalue.splits)

lemma validate_identifier_str [simp]:
  "validate_audit_identifier (StrValue s) role
     = (if identifier_ok s then Inr s else Inl (SafetyIdentifierError role))"
  by (auto simp: validate_audit_identifier_def identifier_ok_def)

lemma validate_identifier_other [simp]:
  "validate_audit_identifier (OtherValue t) role = Inl (SafetyIdentifierError role)"
  by (simp add: validate_audit_identifier_def)

lemma validate_digest_Inr [simp]:
  "validate_sha256_digest v role = Inr s \<longleftrightarrow> v = StrValue s \<and> digest_ok s"
  by (auto simp: validate_sha256_digest_def split: pyvalue.splits)

lemma validate_digest_str [simp]:
  "validate_sha256_digest (StrValue s) role
     = (if digest_ok s then Inr s else Inl (SafetyIdentifierError role))"
  by (simp add: validate_sha256_digest_def)

lemma new_identifier_str [simp]:
  "new_identifier ty (StrValue s)
     = (if identifier_ok s then Inr s else Inl (SafetyIdentifierError (role_of ty)))"
  by (simp add: new_identifier_def)

lemma new_identifier_other [simp]:
  "new_identifier ty (OtherValue t) = Inl (SafetyIdentifierError (role_of ty))"
  by (simp add: new_identifier_def)

lemma identifier_ok_appendI:
  "list_all (\<lambda>c. c \<in> set AUDIT_IDENTIFIER_ALPHABET) a \<Longrightarrow>
   list_all (\<lambda>c. c \<in> set AUDIT_IDENTIFIER_ALPHABET) b \<Longrightarrow>
   1 \<le> length a + length b \<Longrightarrow> length a + length b \<le> 64 \<Longrightarrow> identifier_ok (a @ b)"
  by (simp add: identifier_ok_def MAX_AUDIT_IDENTIFIER_LENGTH_def)

lemma length_HEX_DIGITS: "length HEX_DIGITS = 16"
  by (simp add: HEX_DIGITS_def)

lemma hex_digit_in [simp]: "hex_digit n \<in> set HEX_DIGITS"
  unfolding hex_digit_def by (rule nth_mem) (simp add: length_HEX_DIGITS)

lemma HEX_DIGITS_alphabet: "set HEX_DIGITS \<subseteq> set AUDIT_IDENTIFIER_ALPHABET"
  by (simp add: HEX_DIGITS_def AUDIT_IDENTIFIER_ALPHABET_def)

lemma length_hex_digits [simp]: "length (hex_digits k n) = k"
  by (induction k n rule: hex_digits.induct) auto

lemma hex_digits_hex: "list_all (\<lambda>c. c \<in> set HEX_DIGITS) (hex_digits k n)"
  by (induction k n rule: hex_digits.induct) auto

lemma hex_digits_alphabet:
  "list_all (\<lambda>c. c \<in> set AUDIT_IDENTIFIER_ALPHABET) (hex_digits k n)"
  using hex_digits_hex [of k n] HEX_DIGITS_alphabet by (auto simp: list_all_iff)

lemma uuid_hex_identifier: "identifier_ok (uuid_hex w)"
  using hex_digits_alphabet [of 32 "unat w"]
  by (simp add: identifier_ok_def uuid_hex_def MAX_AUDIT_IDENTIFIER_LENGTH_def)

lemma new_audit_event_id_Inr [simp]: "new_audit_event_id w = Inr (uuid_hex w)"
  by (simp add: new_audit_event_id_def uuid_hex_identifier)

lemma hex_digits_inject:
  "n < 16 ^ k \<Longrightarrow> m < 16 ^ k \<Longrightarrow> hex_digits k n = hex_digits k m \<Longrightarrow> n = m"
proof (induction k arbitrary: n m)
  case 0
  then show ?case by simp
next
  case (Suc k)
  have less: "n div 16 < 16 ^ k" "m div 16 < 16 ^ k"
    using Suc.prems(1,2) by (simp_all add: less_mult_imp_div_less mult.commute)
  from Suc.prems(3) have "hex_digits k (n div 16) = hex_digits k (m div 16)"
    and last: "hex_digit n = hex_digit m" by simp_all
  with Suc.IH less have q: "n div 16 = m div 16" by blast
  have "distinct HEX_DIGITS" by (simp add: HEX_DIGITS_def)
  with last have "n mod 16 = m mod 16"
    by (simp add: hex_digit_def nth_eq_iff_index_eq length_HEX_DIGITS)
  with q show ?case by (metis div_mult_mod_eq)
qed

text \<open>
  Generated identifiers. The three generators succeed for all random bits, return an
  identifier of the audit vocabulary, and different bits give different identifiers.
\<close>

theorem generated_identifiers_are_valid_and_distinct:
  "(case (new_audit_event_id w, new_operation_id w, new_approval_id w) of
      (Inr a, Inr b, Inr c) \<Rightarrow> list_all identifier_ok [a, b, c] | _ \<Rightarrow> False) \<and>
   (new_audit_event_id w = new_audit_event_id v) = (w = v) \<and>
   (new_operation_id w = new_operation_id v) = (w = v) \<and>
   (new_approval_id w = new_approval_id v) = (w = v)"
proof -
  have inj: "uuid_hex w = uuid_hex v \<longleftrightarrow> w = v"
  proof
    assume "uuid_hex w = uuid_hex v"
    moreover have "unat u < 16 ^ 32" for u :: "128 word"
      by (rule order.strict_trans2 [OF unsigned_less]) simp
    ultimately show "w = v" using hex_digits_inject [of "unat w" 32 "unat v"]
      by (simp add: uuid_hex_def word_unat_eq_iff)
  qed simp
  have ok: "identifier_ok (''op-'' @ uuid_hex u)" "identifier_ok (''approval-'' @ uuid_hex u)" for u
    by (rule identifier_ok_appendI;
        simp add: uuid_hex_def hex_digits_alphabet AUDIT_IDENTIFIER_ALPHABET_def [symmetric];
        simp add: AUDIT_IDENTIFIER_ALPHABET_def)+
  show ?thesis using ok [of w] ok [of v]
    by (simp add: new_operation_id_def new_approval_id_def inj uuid_hex_identifier)
qed

end
