(* ===== verification/Caller.thy ===== *)
theory Caller
  imports Identifiers
begin

text \<open>The requester of \<open>canx/safety/caller.py\<close> and the authority its kind carries.\<close>

datatype caller_kind = HUMAN_UI | AGENT | SCRIPT | AUTOMATION | SYSTEM

fun caller_kind_value :: "caller_kind \<Rightarrow> string" where
  "caller_kind_value HUMAN_UI = ''human.ui''"
| "caller_kind_value AGENT = ''agent''"
| "caller_kind_value SCRIPT = ''script''"
| "caller_kind_value AUTOMATION = ''automation''"
| "caller_kind_value SYSTEM = ''system''"

definition AUTHORITY_BEARING_KINDS :: "caller_kind set" where
  "AUTHORITY_BEARING_KINDS = {HUMAN_UI, SYSTEM}"

record caller_identity =
  kind :: caller_kind
  caller_id :: string

definition caller_identity_post_init :: "caller_kind \<Rightarrow> pyvalue \<Rightarrow> exn + caller_identity" where
  "caller_identity_post_init k i =
     (case new_identifier CallerId i of
        Inl _ \<Rightarrow> Inl SafetyCallerError
      | Inr v \<Rightarrow> Inr \<lparr>kind = k, caller_id = v\<rparr>)"

definition may_issue_approval :: "caller_identity \<Rightarrow> bool" where
  "may_issue_approval c \<longleftrightarrow> kind c \<in> AUTHORITY_BEARING_KINDS"

definition may_control_arm :: "caller_identity \<Rightarrow> bool" where
  "may_control_arm c \<longleftrightarrow> kind c \<in> AUTHORITY_BEARING_KINDS"

definition may_release_emergency_stop :: "caller_identity \<Rightarrow> bool" where
  "may_release_emergency_stop c \<longleftrightarrow> kind c \<in> AUTHORITY_BEARING_KINDS"

text \<open>A caller that exists went through the constructor.\<close>

definition valid_caller :: "caller_identity \<Rightarrow> bool" where
  "valid_caller c \<longleftrightarrow> identifier_ok (caller_id c)"

lemma caller_identity_post_init_Inr:
  "caller_identity_post_init k i = Inr c \<longleftrightarrow>
     kind c = k \<and> valid_caller c \<and> i = StrValue (caller_id c)"
  by (cases c; cases i) (auto simp: caller_identity_post_init_def valid_caller_def)

lemma caller_kind_identifier: "identifier_ok (caller_kind_value k)"
  by (cases k) (simp_all add: identifier_ok_def AUDIT_IDENTIFIER_ALPHABET_def
      MAX_AUDIT_IDENTIFIER_LENGTH_def)

lemma authority_agree:
  "may_control_arm c = may_issue_approval c"
  "may_release_emergency_stop c = may_issue_approval c"
  by (simp_all add: may_control_arm_def may_issue_approval_def may_release_emergency_stop_def)

end
