(* ===== verification/Risk.thy ===== *)
theory Risk
  imports Identifiers
begin

text \<open>
  The risk taxonomy of \<open>canx/safety/risk.py\<close>: the effect risk of an operation, the
  capabilities executing it costs, and the closed operation table.
\<close>

datatype risk_level =
  READ | COMPUTE | WRITE_PROJECT | TX | DIAGNOSTIC_MUTATION | ACTUATION | ECU_MUTATION | CRITICAL

fun risk_int :: "risk_level \<Rightarrow> int" where
  "risk_int READ = 1"
| "risk_int COMPUTE = 2"
| "risk_int WRITE_PROJECT = 3"
| "risk_int TX = 4"
| "risk_int DIAGNOSTIC_MUTATION = 5"
| "risk_int ACTUATION = 6"
| "risk_int ECU_MUTATION = 7"
| "risk_int CRITICAL = 8"

text \<open>An \<open>IntEnum\<close> compares as its integer.\<close>

lemma risk_int_inject: "risk_int a = risk_int b \<Longrightarrow> a = b"
  by (cases a; cases b) auto

instantiation risk_level :: linorder
begin

definition less_eq_risk_level :: "risk_level \<Rightarrow> risk_level \<Rightarrow> bool" where
  "less_eq_risk_level a b \<longleftrightarrow> risk_int a \<le> risk_int b"

definition less_risk_level :: "risk_level \<Rightarrow> risk_level \<Rightarrow> bool" where
  "less_risk_level a b \<longleftrightarrow> risk_int a < risk_int b"

instance
  by standard (auto simp: less_eq_risk_level_def less_risk_level_def dest: risk_int_inject)

end

definition is_dangerous :: "risk_level \<Rightarrow> bool" where
  "is_dangerous r \<longleftrightarrow> r > WRITE_PROJECT"

datatype capability =
  READ | COMPUTE | WRITE_PROJECT | CAN_TX | DIAGNOSTIC_MUTATION | ACTUATION | ECU_MUTATION
  | CRITICAL_OPERATION

fun capability_value :: "capability \<Rightarrow> string" where
  "capability_value READ = ''READ''"
| "capability_value COMPUTE = ''COMPUTE''"
| "capability_value WRITE_PROJECT = ''WRITE_PROJECT''"
| "capability_value CAN_TX = ''CAN_TX''"
| "capability_value DIAGNOSTIC_MUTATION = ''DIAGNOSTIC_MUTATION''"
| "capability_value ACTUATION = ''ACTUATION''"
| "capability_value ECU_MUTATION = ''ECU_MUTATION''"
| "capability_value CRITICAL_OPERATION = ''CRITICAL_OPERATION''"

lemma capability_value_inject: "capability_value a = capability_value b \<Longrightarrow> a = b"
  by (cases a; cases b) auto

text \<open>Refusal reports sort capabilities by their value, the order of strings.\<close>

instantiation capability :: linorder
begin

definition less_eq_capability :: "capability \<Rightarrow> capability \<Rightarrow> bool" where
  "less_eq_capability a b \<longleftrightarrow> capability_value a \<le> capability_value b"

definition less_capability :: "capability \<Rightarrow> capability \<Rightarrow> bool" where
  "less_capability a b \<longleftrightarrow> capability_value a < capability_value b"

instance
  by standard (auto simp: less_eq_capability_def less_capability_def dest: capability_value_inject)

end

definition all_capabilities :: "capability list" where
  "all_capabilities = [READ, COMPUTE, WRITE_PROJECT, CAN_TX, DIAGNOSTIC_MUTATION, ACTUATION,
     ECU_MUTATION, CRITICAL_OPERATION]"

lemma set_all_capabilities: "set all_capabilities = UNIV"
proof -
  have "c \<in> set all_capabilities" for c
    by (cases c) (simp_all add: all_capabilities_def)
  then show ?thesis by auto
qed

lemma finite_capabilities [simp]: "finite (C :: capability set)"
  by (metis List.finite_set finite_subset set_all_capabilities subset_UNIV)

definition DANGEROUS_CAPABILITIES :: "capability set" where
  "DANGEROUS_CAPABILITIES =
     {CAN_TX, DIAGNOSTIC_MUTATION, ACTUATION, ECU_MUTATION, CRITICAL_OPERATION}"

datatype operation_class =
  ENGINEERING_READ | ENGINEERING_COMPUTE | PROJECT_WRITE
  | BUS_TRANSMIT | BUS_REPLAY | BUS_INJECTION
  | DIAGNOSTIC_READ | DIAGNOSTIC_MUTATION
  | ACTUATION | ECU_MUTATION | CRITICAL_OPERATION

fun operation_class_value :: "operation_class \<Rightarrow> string" where
  "operation_class_value ENGINEERING_READ = ''engineering.read''"
| "operation_class_value ENGINEERING_COMPUTE = ''engineering.compute''"
| "operation_class_value PROJECT_WRITE = ''project.write''"
| "operation_class_value BUS_TRANSMIT = ''bus.transmit''"
| "operation_class_value BUS_REPLAY = ''bus.replay''"
| "operation_class_value BUS_INJECTION = ''bus.injection''"
| "operation_class_value DIAGNOSTIC_READ = ''diagnostic.read''"
| "operation_class_value DIAGNOSTIC_MUTATION = ''diagnostic.mutation''"
| "operation_class_value ACTUATION = ''actuation''"
| "operation_class_value ECU_MUTATION = ''ecu.mutation''"
| "operation_class_value CRITICAL_OPERATION = ''critical''"

definition all_operation_classes :: "operation_class list" where
  "all_operation_classes =
     [ENGINEERING_READ, ENGINEERING_COMPUTE, PROJECT_WRITE, BUS_TRANSMIT, BUS_REPLAY,
      BUS_INJECTION, DIAGNOSTIC_READ, DIAGNOSTIC_MUTATION, ACTUATION, ECU_MUTATION,
      CRITICAL_OPERATION]"

text \<open>\<open>OperationClass(value)\<close>: the member with that value, or a ValueError.\<close>

definition operation_class_of :: "string \<Rightarrow> operation_class option" where
  "operation_class_of v = List.find (\<lambda>c. operation_class_value c = v) all_operation_classes"

fun effect_capability_of :: "risk_level \<Rightarrow> capability" where
  "effect_capability_of risk_level.READ = capability.READ"
| "effect_capability_of risk_level.COMPUTE = capability.COMPUTE"
| "effect_capability_of risk_level.WRITE_PROJECT = capability.WRITE_PROJECT"
| "effect_capability_of risk_level.TX = CAN_TX"
| "effect_capability_of risk_level.DIAGNOSTIC_MUTATION = capability.DIAGNOSTIC_MUTATION"
| "effect_capability_of risk_level.ACTUATION = capability.ACTUATION"
| "effect_capability_of risk_level.ECU_MUTATION = capability.ECU_MUTATION"
| "effect_capability_of risk_level.CRITICAL = capability.CRITICAL_OPERATION"

record operation_policy_record =
  op_class :: operation_class
  effect_risk :: risk_level
  required_capabilities :: "capability set"

definition operation_policy_post_init :: "operation_policy_record \<Rightarrow> exn + operation_policy_record" where
  "operation_policy_post_init p =
     (if required_capabilities p = {} then Inl SafetyUnknownOperationError
      else if effect_capability_of (effect_risk p) \<notin> required_capabilities p
        then Inl SafetyUnknownOperationError
      else if CAN_TX \<notin> required_capabilities p \<and>
          effect_risk p \<in> {TX, risk_level.DIAGNOSTIC_MUTATION, risk_level.ACTUATION,
            risk_level.ECU_MUTATION, CRITICAL}
        then Inl SafetyUnknownOperationError
      else Inr p)"

definition transmits_to_vehicle :: "operation_policy_record \<Rightarrow> bool" where
  "transmits_to_vehicle p \<longleftrightarrow> CAN_TX \<in> required_capabilities p"

definition requires_arm :: "operation_policy_record \<Rightarrow> bool" where
  "requires_arm p \<longleftrightarrow> is_dangerous (effect_risk p) \<or> transmits_to_vehicle p"

definition effect_capability :: "operation_policy_record \<Rightarrow> capability" where
  "effect_capability p = effect_capability_of (effect_risk p)"

definition policy_row ::
    "operation_class \<Rightarrow> risk_level \<Rightarrow> capability list \<Rightarrow> exn + operation_policy_record" where
  "policy_row c r caps = operation_policy_post_init
     \<lparr>op_class = c, effect_risk = r, required_capabilities = set caps\<rparr>"

fun OPERATION_POLICIES :: "operation_class \<Rightarrow> exn + operation_policy_record" where
  "OPERATION_POLICIES ENGINEERING_READ = policy_row ENGINEERING_READ risk_level.READ [capability.READ]"
| "OPERATION_POLICIES ENGINEERING_COMPUTE =
     policy_row ENGINEERING_COMPUTE risk_level.COMPUTE [capability.COMPUTE]"
| "OPERATION_POLICIES PROJECT_WRITE =
     policy_row PROJECT_WRITE risk_level.WRITE_PROJECT [capability.WRITE_PROJECT]"
| "OPERATION_POLICIES BUS_TRANSMIT = policy_row BUS_TRANSMIT TX [CAN_TX]"
| "OPERATION_POLICIES BUS_REPLAY = policy_row BUS_REPLAY TX [CAN_TX]"
| "OPERATION_POLICIES BUS_INJECTION = policy_row BUS_INJECTION TX [CAN_TX]"
| "OPERATION_POLICIES DIAGNOSTIC_READ =
     policy_row DIAGNOSTIC_READ risk_level.READ [capability.READ, CAN_TX]"
| "OPERATION_POLICIES operation_class.DIAGNOSTIC_MUTATION =
     policy_row operation_class.DIAGNOSTIC_MUTATION risk_level.DIAGNOSTIC_MUTATION
       [CAN_TX, capability.DIAGNOSTIC_MUTATION]"
| "OPERATION_POLICIES operation_class.ACTUATION =
     policy_row operation_class.ACTUATION risk_level.ACTUATION [CAN_TX, capability.ACTUATION]"
| "OPERATION_POLICIES operation_class.ECU_MUTATION =
     policy_row operation_class.ECU_MUTATION risk_level.ECU_MUTATION
       [CAN_TX, capability.ECU_MUTATION]"
| "OPERATION_POLICIES operation_class.CRITICAL_OPERATION =
     policy_row operation_class.CRITICAL_OPERATION CRITICAL [CAN_TX, capability.CRITICAL_OPERATION]"

definition operation_policy :: "string \<Rightarrow> exn + operation_policy_record" where
  "operation_policy cls =
     (case operation_class_of cls of
        None \<Rightarrow> Inl SafetyUnknownOperationError
      | Some c \<Rightarrow> OPERATION_POLICIES c)"

definition classify_operation :: "string \<Rightarrow> exn + risk_level" where
  "classify_operation cls = rbind (operation_policy cls) (\<lambda>p. Inr (effect_risk p))"

definition approval_capability_for :: "risk_level \<Rightarrow> capability" where
  "approval_capability_for r = effect_capability_of r"

definition is_dangerous_capability :: "capability \<Rightarrow> bool" where
  "is_dangerous_capability c \<longleftrightarrow> c \<in> DANGEROUS_CAPABILITIES"

section \<open>Lemmas\<close>

lemma is_dangerous_simps [simp]:
  "\<not> is_dangerous risk_level.READ" "\<not> is_dangerous risk_level.COMPUTE"
  "\<not> is_dangerous risk_level.WRITE_PROJECT" "is_dangerous TX"
  "is_dangerous risk_level.DIAGNOSTIC_MUTATION" "is_dangerous risk_level.ACTUATION"
  "is_dangerous risk_level.ECU_MUTATION" "is_dangerous CRITICAL"
  by (simp_all add: is_dangerous_def less_risk_level_def)

lemma operation_class_of_value: "operation_class_of (operation_class_value c) = Some c"
  by (cases c) (simp_all add: operation_class_of_def all_operation_classes_def)

lemma operation_class_of_Some: "operation_class_of v = Some c \<longleftrightarrow> v = operation_class_value c"
  using operation_class_of_value
  by (auto simp: operation_class_of_def find_Some_iff)

text \<open>Every row passes its own constructor, so importing the module does not raise.\<close>

lemma OPERATION_POLICIES_Inr:
  "\<exists>p. OPERATION_POLICIES c = Inr p \<and> op_class p = c"
  by (cases c) (simp_all add: policy_row_def operation_policy_post_init_def)

lemma operation_policy_Inr:
  "(\<exists>p. operation_policy cls = Inr p) \<longleftrightarrow> operation_class_of cls \<noteq> None"
  using OPERATION_POLICIES_Inr by (auto simp: operation_policy_def split: option.splits)

lemma operation_policy_Inl: "operation_policy cls = Inl e \<Longrightarrow> e = SafetyUnknownOperationError"
  using OPERATION_POLICIES_Inr
  by (auto simp: operation_policy_def split: option.splits) (metis sum.distinct(1))

lemma post_init_Inr:
  "operation_policy_post_init p = Inr q \<Longrightarrow>
     q = p \<and> effect_capability p \<in> required_capabilities p \<and>
     (is_dangerous (effect_risk p) \<longrightarrow> transmits_to_vehicle p)"
  by (cases "effect_risk p")
     (auto simp: operation_policy_post_init_def effect_capability_def transmits_to_vehicle_def
        split: if_splits)

lemma operation_policy_wf:
  assumes "operation_policy cls = Inr p"
  shows "effect_capability p \<in> required_capabilities p"
    and "is_dangerous (effect_risk p) \<Longrightarrow> transmits_to_vehicle p"
    and "cls = operation_class_value (op_class p)"
proof -
  from assms obtain c where c: "operation_class_of cls = Some c" "OPERATION_POLICIES c = Inr p"
    by (auto simp: operation_policy_def split: option.splits)
  then have "operation_policy_post_init p = Inr p"
    by (cases c) (auto simp: policy_row_def operation_policy_post_init_def split: if_splits)
  from post_init_Inr [OF this]
  show "effect_capability p \<in> required_capabilities p"
    and "is_dangerous (effect_risk p) \<Longrightarrow> transmits_to_vehicle p" by auto
  from OPERATION_POLICIES_Inr [of c] c(2) have "op_class p = c" by auto
  with c(1) show "cls = operation_class_value (op_class p)"
    by (simp add: operation_class_of_Some)
qed

lemma requires_arm_iff:
  assumes "operation_policy cls = Inr p"
  shows "requires_arm p \<longleftrightarrow> CAN_TX \<in> required_capabilities p"
  using operation_policy_wf(2) [OF assms]
  by (auto simp: requires_arm_def transmits_to_vehicle_def)

text \<open>The classes whose operation reaches the vehicle bus.\<close>

definition transmits :: "operation_class \<Rightarrow> bool" where
  "transmits cls \<longleftrightarrow> cls \<notin> {ENGINEERING_READ, ENGINEERING_COMPUTE, PROJECT_WRITE}"

lemma transmits_policy:
  "transmits cls \<longleftrightarrow> (\<exists>p. OPERATION_POLICIES cls = Inr p \<and> CAN_TX \<in> required_capabilities p)"
  by (cases cls) (simp_all add: transmits_def policy_row_def operation_policy_post_init_def)

text \<open>
  The operation table is total and consistent. Every class of the taxonomy has one
  row, under its own name; the row names the capability of its effect; it needs an armed
  runtime exactly when it transmits, and it transmits whenever its effect is dangerous; any
  other string is refused as unknown.
\<close>

theorem operation_table_is_consistent:
  "case operation_class_of s of
     None \<Rightarrow> operation_policy s = Inl SafetyUnknownOperationError \<and>
       s \<notin> set (map operation_class_value all_operation_classes)
   | Some cls \<Rightarrow> s = operation_class_value cls \<and>
       (\<exists>p. operation_policy s = Inr p \<and> op_class p = cls \<and>
         effect_capability p \<in> required_capabilities p \<and>
         (requires_arm p \<longleftrightarrow> transmits_to_vehicle p) \<and>
         (if is_dangerous (effect_risk p) then transmits_to_vehicle p else True) \<and>
         classify_operation s = Inr (effect_risk p))"
proof (cases "operation_class_of s")
  case None
  moreover from None have "s \<notin> set (map operation_class_value all_operation_classes)"
    by (auto simp: operation_class_of_def find_None_iff)
  ultimately show ?thesis by (simp add: operation_policy_def)
next
  case (Some cls)
  then have s: "s = operation_class_value cls" by (simp add: operation_class_of_Some)
  with OPERATION_POLICIES_Inr obtain p where p: "operation_policy s = Inr p" "op_class p = cls"
    by (metis Some operation_policy_def option.simps(5))
  with operation_policy_wf [of s p] requires_arm_iff [of s p] Some s show ?thesis
    by (auto simp: classify_operation_def transmits_to_vehicle_def requires_arm_def)
qed

end
