(* ===== verification/Scope.thy ===== *)
theory Scope
  imports Risk
begin

text \<open>
  Targets, expiry and arm scopes of \<open>canx/safety/scope.py\<close>. A frozen dataclass is a
  record; its \<open>__post_init__\<close> is a function that returns the instance or the exception,
  and the validity predicate characterises the instances that exist.
\<close>

definition device_identifier :: "pyvalue \<Rightarrow> exn + string" where
  "device_identifier v =
     (case new_identifier DeviceId v of Inl _ \<Rightarrow> Inl SafetyScopeError | Inr d \<Rightarrow> Inr d)"

definition channel_identifier :: "pyvalue \<Rightarrow> exn + string" where
  "channel_identifier v =
     (case new_identifier ChannelId v of Inl _ \<Rightarrow> Inl SafetyScopeError | Inr d \<Rightarrow> Inr d)"

definition has_lapsed :: "pyfloat \<Rightarrow> pyfloat \<Rightarrow> bool" where
  "has_lapsed now expires \<longleftrightarrow> \<not> pf_less now expires"

record operation_target =
  device_id :: "string option"
  channel :: "string option"
  target_address :: "int option"

definition operation_target_post_init ::
    "pyvalue option \<Rightarrow> pyvalue option \<Rightarrow> int option \<Rightarrow> exn + operation_target" where
  "operation_target_post_init d c a =
     rbind (ropt device_identifier d) (\<lambda>d'.
     rbind (ropt channel_identifier c) (\<lambda>c'.
     rbind (guard (case a of None \<Rightarrow> True | Some x \<Rightarrow> 0 \<le> x \<and> x \<le> 0x1FFFFFFF) SafetyScopeError)
       (\<lambda>_. Inr \<lparr>device_id = d', channel = c', target_address = a\<rparr>)))"

definition valid_target :: "operation_target \<Rightarrow> bool" where
  "valid_target t \<longleftrightarrow>
     pred_option identifier_ok (device_id t) \<and> pred_option identifier_ok (channel t) \<and>
     pred_option (\<lambda>x. 0 \<le> x \<and> x \<le> 0x1FFFFFFF) (target_address t)"

definition is_unstated :: "operation_target \<Rightarrow> bool" where
  "is_unstated t \<longleftrightarrow> device_id t = None \<and> channel t = None \<and> target_address t = None"

definition target_covers :: "operation_target \<Rightarrow> operation_target \<Rightarrow> bool" where
  "target_covers g r =
     (if device_id g \<noteq> None \<and> device_id g \<noteq> device_id r then False
      else if channel g \<noteq> None \<and> channel g \<noteq> channel r then False
      else target_address g = None \<or> target_address g = target_address r)"

record arm_scope =
  capabilities :: "capability set"
  scope_target :: operation_target
  granted_at :: pyfloat
  scope_expires_at :: pyfloat

definition arm_scope_post_init :: "arm_scope \<Rightarrow> exn + arm_scope" where
  "arm_scope_post_init s =
     (if capabilities s = {} then Inl SafetyScopeError
      else if \<not> (isfinite (granted_at s) \<and> isfinite (scope_expires_at s)) then Inl SafetyScopeError
      else if pf_le (scope_expires_at s) (granted_at s) then Inl SafetyScopeError
      else Inr s)"

definition scope_is_expired :: "arm_scope \<Rightarrow> pyfloat \<Rightarrow> bool" where
  "scope_is_expired s now \<longleftrightarrow> has_lapsed now (scope_expires_at s)"

definition scope_covers :: "arm_scope \<Rightarrow> capability \<Rightarrow> operation_target \<Rightarrow> pyfloat \<Rightarrow> bool" where
  "scope_covers s c t now =
     (if scope_is_expired s now then False
      else c \<in> capabilities s \<and> target_covers (scope_target s) t)"

definition valid_scope :: "arm_scope \<Rightarrow> bool" where
  "valid_scope s \<longleftrightarrow> capabilities s \<noteq> {} \<and> isfinite (granted_at s) \<and>
     isfinite (scope_expires_at s) \<and> pf_less (granted_at s) (scope_expires_at s) \<and>
     valid_target (scope_target s)"

section \<open>Expiring authorities\<close>

text \<open>
  An arm scope, a permission grant and an approval all authorise a capability at a target
  up to an expiry. What the policy relies on is the same for the three: the authority is
  gone at its expiry and stays gone, and a clock that reads NaN grants nothing that
  expires.
\<close>

locale expiring_authority =
  fixes covers :: "'a \<Rightarrow> capability \<Rightarrow> operation_target \<Rightarrow> pyfloat \<Rightarrow> bool"
    and expiry :: "'a \<Rightarrow> pyfloat option"
    and reach :: "'a \<Rightarrow> operation_target"
  assumes covers_live: "covers a c t now \<Longrightarrow> expiry a = Some e \<Longrightarrow> pf_less now e"
    and covers_back: "covers a c t now \<Longrightarrow> \<not> pf_less now now' \<Longrightarrow> now' \<noteq> NaN \<Longrightarrow> covers a c t now'"
    and covers_reach: "covers a c t now \<Longrightarrow> target_covers (reach a) t"
begin

lemma lapsed_never_covers:
  assumes "expiry a = Some e" and "\<not> pf_less now e"
  shows "\<not> covers a c t now"
  using covers_live [of a c t now e] assms by blast

lemma broken_clock_never_covers: "expiry a = Some e \<Longrightarrow> \<not> covers a c t NaN"
  by (rule lapsed_never_covers) simp_all

lemma lapse_is_final:
  assumes "\<not> covers a c t now" and "pf_less now later" and "expiry a \<noteq> None"
  shows "\<not> covers a c t later"
proof
  assume cov: "covers a c t later"
  have "now \<noteq> NaN" using assms(2) by auto
  moreover have "\<not> pf_less later now" using assms(2) pf_less_trans by fastforce
  ultimately have "covers a c t now" using covers_back [OF cov] by blast
  with assms(1) show False by contradiction
qed

end

section \<open>Lemmas\<close>

lemma has_lapsed_simps [simp]:
  "has_lapsed NaN e" "has_lapsed now NaN" "has_lapsed e e"
  "has_lapsed (Fin a) (Fin b) \<longleftrightarrow> b \<le> a"
  by (auto simp: has_lapsed_def)

lemma has_lapsed_back:
  "\<not> has_lapsed now e \<Longrightarrow> \<not> pf_less now now' \<Longrightarrow> now' \<noteq> NaN \<Longrightarrow> \<not> has_lapsed now' e"
  by (cases now; cases now'; cases e) (auto simp: has_lapsed_def)

lemma pf_less_back:
  "pf_less now e \<Longrightarrow> \<not> pf_less now now' \<Longrightarrow> now' \<noteq> NaN \<Longrightarrow> pf_less now' e"
  using has_lapsed_back [of now e now'] by (auto simp: has_lapsed_def)

lemma device_identifier_Inr [simp]:
  "device_identifier v = Inr d \<longleftrightarrow> v = StrValue d \<and> identifier_ok d"
  by (auto simp: device_identifier_def new_identifier_def split: sum.splits)

lemma channel_identifier_Inr [simp]:
  "channel_identifier v = Inr d \<longleftrightarrow> v = StrValue d \<and> identifier_ok d"
  by (auto simp: channel_identifier_def new_identifier_def split: sum.splits)

lemma ropt_device [simp]:
  "ropt device_identifier d = Inr d' \<longleftrightarrow>
     d = map_option StrValue d' \<and> pred_option identifier_ok d'"
  by (cases d; cases d') (auto simp: rbind_Inr_iff)

lemma ropt_channel [simp]:
  "ropt channel_identifier d = Inr d' \<longleftrightarrow>
     d = map_option StrValue d' \<and> pred_option identifier_ok d'"
  by (cases d; cases d') (auto simp: rbind_Inr_iff)

lemma operation_target_post_init_Inr:
  "operation_target_post_init d c a = Inr t \<longleftrightarrow>
     valid_target t \<and> d = map_option StrValue (device_id t) \<and>
     c = map_option StrValue (channel t) \<and> a = target_address t"
  by (cases t)
     (auto simp: operation_target_post_init_def valid_target_def rbind_Inr_iff
        split: option.splits)

lemma target_covers_iff:
  "target_covers g r \<longleftrightarrow>
     (\<forall>x. device_id g = Some x \<longrightarrow> device_id r = Some x) \<and>
     (\<forall>x. channel g = Some x \<longrightarrow> channel r = Some x) \<and>
     (\<forall>x. target_address g = Some x \<longrightarrow> target_address r = Some x)"
  by (cases "device_id g"; cases "channel g"; cases "target_address g")
     (auto simp: target_covers_def)

lemma target_covers_refl [simp]: "target_covers t t"
  by (simp add: target_covers_iff)

lemma target_covers_trans: "target_covers a b \<Longrightarrow> target_covers b c \<Longrightarrow> target_covers a c"
  by (simp add: target_covers_iff)

lemma target_covers_antisym: "target_covers a b \<Longrightarrow> target_covers b a \<Longrightarrow> a = b"
  by (cases "device_id a"; cases "device_id b"; cases "channel a"; cases "channel b";
      cases "target_address a"; cases "target_address b")
     (auto simp: target_covers_iff intro: operation_target.equality)

lemma arm_scope_post_init_Inr:
  "valid_target (scope_target s) \<Longrightarrow> arm_scope_post_init s = Inr s' \<longleftrightarrow> s' = s \<and> valid_scope s"
  by (auto simp: arm_scope_post_init_def valid_scope_def isfinite_iff split: if_splits)

interpretation arm_scope_authority:
  expiring_authority scope_covers "\<lambda>s. Some (scope_expires_at s)" scope_target
  by unfold_locales
     (auto simp: scope_covers_def scope_is_expired_def has_lapsed_def split: if_splits
        intro: pf_less_back)

end
