(* ===== verification/Approval.thy ===== *)
theory Approval
  imports Caller Scope
begin

text \<open>
  Approvals and their store, \<open>canx/safety/approval.py\<close>. The store is a dictionary from the
  reference to the approval and its spent mark; every method is one critical section.
\<close>

datatype approval_issuer = HUMAN_OPERATOR | HOST_SYSTEM

fun approval_issuer_value :: "approval_issuer \<Rightarrow> string" where
  "approval_issuer_value HUMAN_OPERATOR = ''human.operator''"
| "approval_issuer_value HOST_SYSTEM = ''host.system''"

fun ISSUER_BY_CALLER_KIND :: "caller_kind \<Rightarrow> approval_issuer option" where
  "ISSUER_BY_CALLER_KIND HUMAN_UI = Some HUMAN_OPERATOR"
| "ISSUER_BY_CALLER_KIND SYSTEM = Some HOST_SYSTEM"
| "ISSUER_BY_CALLER_KIND _ = None"

definition issuer_for :: "caller_identity \<Rightarrow> exn + approval_issuer" where
  "issuer_for c =
     (case ISSUER_BY_CALLER_KIND (kind c) of
        None \<Rightarrow> Inl SafetyApprovalProvenanceError
      | Some i \<Rightarrow> Inr i)"

definition validate_approval_fields :: "pyvalue \<Rightarrow> pyfloat \<Rightarrow> pyfloat \<Rightarrow> exn + string" where
  "validate_approval_fields i issued expires =
     (case new_identifier ApprovalId i of
        Inl _ \<Rightarrow> Inl SafetyApprovalError
      | Inr v \<Rightarrow>
          if \<not> (isfinite issued \<and> isfinite expires) then Inl SafetyApprovalError
          else if pf_le expires issued then Inl SafetyApprovalError
          else Inr v)"

record approval_spec =
  spec_id :: string
  spec_capability :: capability
  spec_target :: operation_target
  spec_issued_at :: pyfloat
  spec_expires_at :: pyfloat
  spec_single_use :: bool

definition approval_spec_post_init :: "approval_spec \<Rightarrow> exn + approval_spec" where
  "approval_spec_post_init s =
     rbind (validate_approval_fields (StrValue (spec_id s)) (spec_issued_at s) (spec_expires_at s))
       (\<lambda>i. Inr (s\<lparr>spec_id := i\<rparr>))"

record approval =
  approval_id :: string
  approval_capability :: capability
  approval_target :: operation_target
  issued_at :: pyfloat
  approval_expires_at :: pyfloat
  issuer :: approval_issuer
  single_use :: bool

definition approval_post_init :: "approval \<Rightarrow> exn + approval" where
  "approval_post_init a =
     rbind (validate_approval_fields (StrValue (approval_id a)) (issued_at a) (approval_expires_at a))
       (\<lambda>i. Inr (a\<lparr>approval_id := i\<rparr>))"

definition approval_is_expired :: "approval \<Rightarrow> pyfloat \<Rightarrow> bool" where
  "approval_is_expired a now \<longleftrightarrow> has_lapsed now (approval_expires_at a)"

definition approval_covers :: "approval \<Rightarrow> capability \<Rightarrow> operation_target \<Rightarrow> bool" where
  "approval_covers a c t \<longleftrightarrow> approval_capability a = c \<and> target_covers (approval_target a) t"

definition exactly_matches :: "approval \<Rightarrow> capability \<Rightarrow> operation_target \<Rightarrow> bool" where
  "exactly_matches a c t \<longleftrightarrow> approval_capability a = c \<and> approval_target a = t"

section \<open>The store\<close>

record stored_approval =
  stored :: approval
  consumed :: bool

type_synonym approval_store = "(string \<times> stored_approval) list"

definition store_grant :: "approval \<Rightarrow> caller_identity \<Rightarrow> (approval_store, exn, unit) exec" where
  "store_grant a granted_by =
     (if \<not> may_issue_approval granted_by then throw SafetyCallerError
      else ebind (lift (issuer_for granted_by)) (\<lambda>expected.
        if issuer a \<noteq> expected then throw SafetyApprovalProvenanceError
        else put (AList.update (approval_id a) \<lparr>stored = a, consumed = False\<rparr>)))"

definition store_lookup :: "string \<Rightarrow> (approval_store, exn, approval) exec" where
  "store_lookup i = (\<lambda>d.
     case map_of d i of
       None \<Rightarrow> throw SafetyApprovalError d
     | Some rec \<Rightarrow> ret (stored rec) d)"

definition store_consume ::
    "string \<Rightarrow> (approval \<Rightarrow> exn + unit) option \<Rightarrow> (approval_store, exn, approval) exec" where
  "store_consume i check = (\<lambda>d.
     case map_of d i of
       None \<Rightarrow> throw SafetyApprovalError d
     | Some rec \<Rightarrow>
         (case (case check of None \<Rightarrow> Inr () | Some f \<Rightarrow> f (stored rec)) of
            Inl e \<Rightarrow> throw e d
          | Inr _ \<Rightarrow>
              if consumed rec then throw SafetyApprovalReusedError d
              else if single_use (stored rec)
                then ret (stored rec) (AList.update i (rec\<lparr>consumed := True\<rparr>) d)
                else ret (stored rec) d))"

definition store_revoke :: "string \<Rightarrow> (approval_store, exn, bool) exec" where
  "store_revoke i = (\<lambda>d. (Inr (map_of d i \<noteq> None), AList.delete i d))"

definition store_clear :: "(approval_store, exn, unit) exec" where
  "store_clear = put (\<lambda>_. [])"

definition store_outstanding :: "approval_store \<Rightarrow> approval list" where
  "store_outstanding d = map stored (filter (\<lambda>r. \<not> consumed r) (map snd d))"

section \<open>Authorities that are spent\<close>

text \<open>
  The number of calls in a run that spend one authority, and the interface under which it
  is at most one: spending needs the authority live, leaves it dead, and only a renewal
  brings it back.
\<close>

fun count_spends :: "('c \<Rightarrow> 's \<Rightarrow> 's) \<Rightarrow> ('c \<Rightarrow> 's \<Rightarrow> bool) \<Rightarrow> 'c list \<Rightarrow> 's \<Rightarrow> nat" where
  "count_spends step spends [] s = 0"
| "count_spends step spends (c # cs) s =
     (if spends c s then 1 else 0) + count_spends step spends cs (step c s)"

locale spend_once = preserved step inv "\<lambda>_. True"
  for step :: "'c \<Rightarrow> 's \<Rightarrow> 's" and inv :: "'s \<Rightarrow> bool" +
  fixes spends :: "'c \<Rightarrow> 's \<Rightarrow> bool"
    and live :: "'s \<Rightarrow> bool"
    and renews :: "'c \<Rightarrow> bool"
  assumes spends_live: "inv s \<Longrightarrow> spends c s \<Longrightarrow> live s"
    and spent: "inv s \<Longrightarrow> spends c s \<Longrightarrow> \<not> live (step c s)"
    and stays_spent: "inv s \<Longrightarrow> \<not> live s \<Longrightarrow> \<not> renews c \<Longrightarrow> \<not> live (step c s)"
begin

lemma dead_spends_nothing:
  "inv s \<Longrightarrow> \<not> live s \<Longrightarrow> \<not> list_ex renews cs \<Longrightarrow> count_spends step spends cs s = 0"
  by (induction cs arbitrary: s) (auto dest: spends_live simp: stays_spent step_inv)

lemma spends_at_most_once:
  "inv s \<Longrightarrow> \<not> list_ex renews cs \<Longrightarrow> count_spends step spends cs s \<le> 1"
  by (induction cs arbitrary: s) (auto simp: dead_spends_nothing spent step_inv)

end

section \<open>Lemmas\<close>

definition valid_approval :: "approval \<Rightarrow> bool" where
  "valid_approval a \<longleftrightarrow> identifier_ok (approval_id a) \<and> isfinite (issued_at a) \<and>
     isfinite (approval_expires_at a) \<and> pf_less (issued_at a) (approval_expires_at a) \<and>
     valid_target (approval_target a)"

definition valid_spec :: "approval_spec \<Rightarrow> bool" where
  "valid_spec s \<longleftrightarrow> identifier_ok (spec_id s) \<and> isfinite (spec_issued_at s) \<and>
     isfinite (spec_expires_at s) \<and> pf_less (spec_issued_at s) (spec_expires_at s) \<and>
     valid_target (spec_target s)"

lemma validate_approval_fields_Inr:
  "validate_approval_fields (StrValue i) a b = Inr v \<longleftrightarrow>
     v = i \<and> identifier_ok i \<and> isfinite a \<and> isfinite b \<and> pf_less a b"
  by (cases a; cases b) (auto simp: validate_approval_fields_def)

lemma approval_spec_post_init_Inr:
  "valid_target (spec_target s) \<Longrightarrow>
     approval_spec_post_init s = Inr s' \<longleftrightarrow> s' = s \<and> valid_spec s"
  by (auto simp: approval_spec_post_init_def rbind_Inr_iff validate_approval_fields_Inr valid_spec_def)

lemma approval_post_init_Inr:
  "valid_target (approval_target a) \<Longrightarrow>
     approval_post_init a = Inr a' \<longleftrightarrow> a' = a \<and> valid_approval a"
  by (auto simp: approval_post_init_def rbind_Inr_iff validate_approval_fields_Inr
        valid_approval_def)

lemma issuer_for_Inr:
  "issuer_for c = Inr i \<longleftrightarrow>
     kind c = HUMAN_UI \<and> i = HUMAN_OPERATOR \<or> kind c = SYSTEM \<and> i = HOST_SYSTEM"
  by (cases "kind c") (auto simp: issuer_for_def)

lemma issuer_for_may_issue: "may_issue_approval c \<longleftrightarrow> (\<exists>i. issuer_for c = Inr i)"
  by (cases "kind c")
     (auto simp: issuer_for_def may_issue_approval_def AUTHORITY_BEARING_KINDS_def)

interpretation approval_authority:
  expiring_authority "\<lambda>a c t now. \<not> approval_is_expired a now \<and> approval_covers a c t"
    "\<lambda>a. Some (approval_expires_at a)" approval_target
  by unfold_locales
     (auto simp: approval_is_expired_def approval_covers_def has_lapsed_def intro: pf_less_back)

lemma store_grant_Inr:
  "store_grant a c d = (Inr u, d') \<longleftrightarrow>
     issuer_for c = Inr (issuer a) \<and>
     d' = AList.update (approval_id a) \<lparr>stored = a, consumed = False\<rparr> d"
  using issuer_for_may_issue [of c]
  by (auto simp: store_grant_def exec_simps split: sum.splits)

lemma store_grant_Inl: "store_grant a c d = (Inl e, d') \<Longrightarrow> d' = d"
  by (auto simp: store_grant_def exec_simps split: sum.splits if_splits)

lemma store_consume_Inr:
  "store_consume i (Some f) d = (Inr a, d') \<longleftrightarrow>
     map_of d i = Some \<lparr>stored = a, consumed = False\<rparr> \<and> f a = Inr () \<and>
     d' = (if single_use a then AList.update i \<lparr>stored = a, consumed = True\<rparr> d else d)"
proof -
  have rec: "rec = \<lparr>stored = a, consumed = b\<rparr> \<longleftrightarrow> stored rec = a \<and> consumed rec = b" for rec a b
    by (cases rec) auto
  have upd: "rec\<lparr>consumed := b\<rparr> = \<lparr>stored = stored rec, consumed = b\<rparr>" for rec :: stored_approval and b
    by (cases rec) auto
  show ?thesis
    by (auto simp: store_consume_def exec_simps rec upd split: option.splits sum.splits)
qed

lemma store_consume_Inl: "store_consume i f d = (Inl e, d') \<Longrightarrow> d' = d"
  by (auto simp: store_consume_def exec_simps split: option.splits sum.splits if_splits)

lemma store_revoke_apply [simp]: "store_revoke i d = (Inr (map_of d i \<noteq> None), AList.delete i d)"
  by (simp add: store_revoke_def)

lemma store_clear_apply [simp]: "store_clear d = (Inr (), [])"
  by (simp add: store_clear_def exec_simps)

text \<open>The store's own calls, and its discipline: a single-use approval is spent once.\<close>

datatype store_call =
    GrantCall approval caller_identity
  | ConsumeCall string "approval \<Rightarrow> exn + unit"
  | RevokeCall string
  | ClearCall

fun store_step :: "store_call \<Rightarrow> approval_store \<Rightarrow> approval_store" where
  "store_step (GrantCall a c) d = snd (store_grant a c d)"
| "store_step (ConsumeCall i f) d = snd (store_consume i (Some f) d)"
| "store_step (RevokeCall i) d = snd (store_revoke i d)"
| "store_step ClearCall d = snd (store_clear d)"

fun store_spends :: "string \<Rightarrow> store_call \<Rightarrow> approval_store \<Rightarrow> bool" where
  "store_spends i (ConsumeCall j f) d =
     (i = j \<and> (case fst (store_consume j (Some f) d) of Inl _ \<Rightarrow> False | Inr a \<Rightarrow> single_use a))"
| "store_spends i _ d = False"

fun store_renews :: "string \<Rightarrow> store_call \<Rightarrow> bool" where
  "store_renews i (GrantCall a c) = (approval_id a = i)"
| "store_renews i _ = False"

definition spendable :: "string \<Rightarrow> approval_store \<Rightarrow> bool" where
  "spendable i d \<longleftrightarrow>
     (\<exists>rec. map_of d i = Some rec \<and> single_use (stored rec) \<and> \<not> consumed rec)"

lemma spendable_update_other [simp]:
  "i \<noteq> j \<Longrightarrow> spendable i (AList.update j rec d) = spendable i d"
  by (simp add: spendable_def update_conv')

lemma not_spendable_consumed [simp]:
  "\<not> spendable i (AList.update i (rec\<lparr>consumed := True\<rparr>) d)"
  by (simp add: spendable_def update_conv')

lemma spendable_delete: "spendable i (AList.delete j d) \<Longrightarrow> spendable i d"
  by (auto simp: spendable_def delete_conv' fun_upd_apply split: if_splits)

lemma not_spendable_Nil [simp]: "\<not> spendable i []"
  by (simp add: spendable_def)

lemma consume_stays_spent:
  "\<not> spendable i d \<Longrightarrow> \<not> spendable i (snd (store_consume j f d))"
  by (cases "i = j")
     (auto simp: store_consume_def exec_simps split: option.splits sum.splits)

interpretation store_ledger:
  spend_once store_step "\<lambda>_. True" "store_spends i" "spendable i" "store_renews i" for i
proof (unfold_locales, goal_cases)
  case 1
  show ?case by simp
next
  case (2 d c)
  then show ?case
    by (cases c) (auto simp: spendable_def store_consume_def exec_simps
        split: option.splits sum.splits if_splits)
next
  case (3 d c)
  then show ?case
    by (cases c) (auto simp: store_consume_def exec_simps split: option.splits sum.splits if_splits)
next
  case (4 d c)
  then have dead: "\<not> spendable i d" and that: "\<not> store_renews i c" by simp_all
  show ?case
  proof (cases c)
    case (GrantCall a by_caller)
    with dead that show ?thesis
      by (auto simp: store_grant_def exec_simps split: sum.splits if_splits)
  next
    case (ConsumeCall j f)
    with dead show ?thesis by (simp add: consume_stays_spent)
  next
    case (RevokeCall j)
    with dead show ?thesis by (auto dest: spendable_delete)
  next
    case ClearCall
    then show ?thesis by simp
  qed
qed

end
