(* ===== verification/Permission.thy ===== *)
theory Permission
  imports Scope
begin

text \<open>Standing grants of \<open>canx/safety/permission.py\<close>. A permission set is a tuple of grants.\<close>

record permission_grant =
  grant_capabilities :: "capability set"
  grant_target :: operation_target
  grant_expires_at :: "pyfloat option"

definition permission_grant_post_init :: "permission_grant \<Rightarrow> exn + permission_grant" where
  "permission_grant_post_init g =
     (if grant_capabilities g = {} then Inl SafetyScopeError
      else let dangerous = grant_capabilities g \<inter> DANGEROUS_CAPABILITIES in
        if dangerous \<noteq> {} then
          (case grant_expires_at g of
             None \<Rightarrow> Inl SafetyScopeError
           | Some e \<Rightarrow> if \<not> isfinite e then Inl SafetyScopeError else Inr g)
        else Inr g)"

definition grant_covers ::
    "permission_grant \<Rightarrow> capability \<Rightarrow> operation_target \<Rightarrow> pyfloat \<Rightarrow> bool" where
  "grant_covers g c t now =
     (if (case grant_expires_at g of None \<Rightarrow> False | Some e \<Rightarrow> has_lapsed now e) then False
      else c \<in> grant_capabilities g \<and> target_covers (grant_target g) t)"

type_synonym permission_set = "permission_grant list"

definition permissions_cover ::
    "permission_set \<Rightarrow> capability \<Rightarrow> operation_target \<Rightarrow> pyfloat \<Rightarrow> bool" where
  "permissions_cover gs c t now \<longleftrightarrow> list_ex (\<lambda>g. grant_covers g c t now) gs"

definition granted_capabilities :: "permission_set \<Rightarrow> capability set" where
  "granted_capabilities gs = \<Union> (set (map grant_capabilities gs))"

definition valid_grant :: "permission_grant \<Rightarrow> bool" where
  "valid_grant g \<longleftrightarrow> grant_capabilities g \<noteq> {} \<and> valid_target (grant_target g) \<and>
     (grant_capabilities g \<inter> DANGEROUS_CAPABILITIES \<noteq> {} \<longrightarrow>
        (\<exists>e. grant_expires_at g = Some e \<and> isfinite e))"

interpretation grant_authority: expiring_authority grant_covers grant_expires_at grant_target
  by unfold_locales
     (auto simp: grant_covers_def has_lapsed_def split: if_splits option.splits
        intro: pf_less_back)

lemma permission_grant_post_init_Inr:
  "valid_target (grant_target g) \<Longrightarrow>
     permission_grant_post_init g = Inr g' \<longleftrightarrow> g' = g \<and> valid_grant g"
  by (auto simp: permission_grant_post_init_def valid_grant_def Let_def split: option.splits if_splits)

lemma permissions_cover_iff:
  "permissions_cover gs c t now \<longleftrightarrow> (\<exists>g \<in> set gs. grant_covers g c t now)"
  by (simp add: permissions_cover_def list_ex_iff)

lemma permissions_cover_granted:
  "permissions_cover gs c t now \<Longrightarrow> c \<in> granted_capabilities gs"
  by (force simp: permissions_cover_iff granted_capabilities_def grant_covers_def split: if_splits)

lemma empty_permissions [simp]: "\<not> permissions_cover [] c t now"
  by (simp add: permissions_cover_def)

end
