(* ===== verification/Digest.thy ===== *)
theory Digest
  imports Identifiers
begin

unbundle bit_operations_syntax

text \<open>
  What the safety domain uses of the standard library to make one-way references:
  \<open>str.encode("utf-8")\<close>, \<open>hashlib.sha256(...).hexdigest()\<close> and \<open>json.dumps\<close>. A Python
  string of arbitrary text is a list of code points here, because the code relies on the
  encoder refusing lone surrogates.
\<close>

type_synonym pystr = "nat list"

definition codes :: "string \<Rightarrow> pystr" where
  "codes s = map of_char s"

text \<open>The characters \<open>str.strip\<close> removes.\<close>

definition py_space :: "nat \<Rightarrow> bool" where
  "py_space c \<longleftrightarrow> (9 \<le> c \<and> c \<le> 13) \<or> (28 \<le> c \<and> c \<le> 32) \<or> c \<in> {0x85, 0xA0, 0x1680} \<or>
     (0x2000 \<le> c \<and> c \<le> 0x200A) \<or> c \<in> {0x2028, 0x2029, 0x202F, 0x205F, 0x3000}"

lemma py_space_code [code]:
  "py_space c = (if c \<le> 32 then 28 \<le> c \<or> 9 \<le> c \<and> c \<le> 13 else if c < 128 then False
     else c \<in> {0x85, 0xA0, 0x1680, 0x2028, 0x2029, 0x202F, 0x205F, 0x3000} \<or> 0x2000 \<le> c \<and> c \<le> 0x200A)"
  by (auto simp: py_space_def)

definition blank :: "pystr \<Rightarrow> bool" where
  "blank s \<longleftrightarrow> list_all py_space s"

definition py_strip :: "pystr \<Rightarrow> pystr" where
  "py_strip s = rev (dropWhile py_space (rev (dropWhile py_space s)))"

definition slash :: nat where "slash = 47"
definition dot :: pystr where "dot = codes ''.''"
definition dotdot :: pystr where "dotdot = codes ''..''"

definition starts_with :: "pystr \<Rightarrow> pystr \<Rightarrow> bool" where
  "starts_with s p \<longleftrightarrow> take (length p) s = p"

text \<open>\<open>split('/')\<close> and \<open>'/'.join\<close>\<close>

fun split_slash :: "pystr \<Rightarrow> pystr list" where
  "split_slash [] = [[]]"
| "split_slash (c # s) =
     (if c = slash then [] # split_slash s
      else case split_slash s of seg # segs \<Rightarrow> (c # seg) # segs | [] \<Rightarrow> [[c]])"

lemma split_segment: "slash \<notin> set s \<Longrightarrow> split_slash s = [s]"
  by (induction s) auto

lemma split_slash_append: "slash \<notin> set s \<Longrightarrow> split_slash (s @ slash # t) = s # split_slash t"
  by (induction s) auto

definition ends_with :: "pystr \<Rightarrow> pystr \<Rightarrow> bool" where
  "ends_with s suffix \<longleftrightarrow> length suffix \<le> length s \<and> drop (length s - length suffix) s = suffix"

fun join_slash :: "pystr list \<Rightarrow> pystr" where
  "join_slash [] = []"
| "join_slash [s] = s"
| "join_slash (s # t # ts) = s @ slash # join_slash (t # ts)"

section \<open>UTF-8\<close>

definition is_surrogate :: "nat \<Rightarrow> bool" where
  "is_surrogate c \<longleftrightarrow> 0xD800 \<le> c \<and> c \<le> 0xDFFF"

definition utf8_char :: "nat \<Rightarrow> exn + nat list" where
  "utf8_char c =
     (if is_surrogate c then Inl (Foreign ''UnicodeEncodeError'')
      else if c < 0x80 then Inr [c]
      else if c < 0x800 then Inr [0xC0 + c div 0x40, 0x80 + c mod 0x40]
      else if c < 0x10000
        then Inr [0xE0 + c div 0x1000, 0x80 + c div 0x40 mod 0x40, 0x80 + c mod 0x40]
      else Inr [0xF0 + c div 0x40000, 0x80 + c div 0x1000 mod 0x40,
        0x80 + c div 0x40 mod 0x40, 0x80 + c mod 0x40])"

fun utf8_encode :: "pystr \<Rightarrow> exn + nat list" where
  "utf8_encode [] = Inr []"
| "utf8_encode (c # cs) =
     rbind (utf8_char c) (\<lambda>bs. rbind (utf8_encode cs) (\<lambda>rest. Inr (bs @ rest)))"

section \<open>SHA-256\<close>

definition SHA_K :: "32 word list" where
  "SHA_K = [1116352408, 1899447441, 3049323471, 3921009573, 961987163, 1508970993, 2453635748,
     2870763221, 3624381080, 310598401, 607225278, 1426881987, 1925078388, 2162078206,
     2614888103, 3248222580, 3835390401, 4022224774, 264347078, 604807628, 770255983, 1249150122,
     1555081692, 1996064986, 2554220882, 2821834349, 2952996808, 3210313671, 3336571891,
     3584528711, 113926993, 338241895, 666307205, 773529912, 1294757372, 1396182291, 1695183700,
     1986661051, 2177026350, 2456956037, 2730485921, 2820302411, 3259730800, 3345764771,
     3516065817, 3600352804, 4094571909, 275423344, 430227734, 506948616, 659060556, 883997877,
     958139571, 1322822218, 1537002063, 1747873779, 1955562222, 2024104815, 2227730452,
     2361852424, 2428436474, 2756734187, 3204031479, 3329325298]"

record sha_state =
  sha_a :: "32 word"
  sha_b :: "32 word"
  sha_c :: "32 word"
  sha_d :: "32 word"
  sha_e :: "32 word"
  sha_f :: "32 word"
  sha_g :: "32 word"
  sha_h :: "32 word"

definition SHA_H0 :: sha_state where
  "SHA_H0 = \<lparr>sha_a = 1779033703, sha_b = 3144134277, sha_c = 1013904242, sha_d = 2773480762,
     sha_e = 1359893119, sha_f = 2600822924, sha_g = 528734635, sha_h = 1541459225\<rparr>"

definition sha_ch :: "32 word \<Rightarrow> 32 word \<Rightarrow> 32 word \<Rightarrow> 32 word" where
  "sha_ch x y z = (x AND y) XOR (NOT x AND z)"

definition sha_maj :: "32 word \<Rightarrow> 32 word \<Rightarrow> 32 word \<Rightarrow> 32 word" where
  "sha_maj x y z = (x AND y) XOR (x AND z) XOR (y AND z)"

definition big_sigma0 :: "32 word \<Rightarrow> 32 word" where
  "big_sigma0 x = word_rotr 2 x XOR word_rotr 13 x XOR word_rotr 22 x"

definition big_sigma1 :: "32 word \<Rightarrow> 32 word" where
  "big_sigma1 x = word_rotr 6 x XOR word_rotr 11 x XOR word_rotr 25 x"

definition small_sigma0 :: "32 word \<Rightarrow> 32 word" where
  "small_sigma0 x = word_rotr 7 x XOR word_rotr 18 x XOR drop_bit 3 x"

definition small_sigma1 :: "32 word \<Rightarrow> 32 word" where
  "small_sigma1 x = word_rotr 17 x XOR word_rotr 19 x XOR drop_bit 10 x"

fun be_bytes :: "nat \<Rightarrow> nat \<Rightarrow> nat list" where
  "be_bytes 0 n = []"
| "be_bytes (Suc k) n = be_bytes k (n div 256) @ [n mod 256]"

definition sha_pad :: "nat list \<Rightarrow> nat list" where
  "sha_pad m = m @ [0x80] @ replicate ((119 - length m mod 64) mod 64) 0 @ be_bytes 8 (8 * length m)"

fun be_words :: "nat list \<Rightarrow> 32 word list" where
  "be_words (a # b # c # d # rest) =
     (push_bit 24 (of_nat a) OR push_bit 16 (of_nat b) OR push_bit 8 (of_nat c) OR of_nat d)
       # be_words rest"
| "be_words _ = []"

text \<open>The message schedule, newest word first: each new word uses the 2nd, 7th, 15th and 16th.\<close>

fun sha_extend :: "nat \<Rightarrow> 32 word list \<Rightarrow> 32 word list" where
  "sha_extend 0 w = w"
| "sha_extend (Suc n) w =
     sha_extend n ((small_sigma1 (w ! 1) + w ! 6 + small_sigma0 (w ! 14) + w ! 15) # w)"

definition sha_round :: "32 word \<times> 32 word \<Rightarrow> sha_state \<Rightarrow> sha_state" where
  "sha_round kw h =
     (let t1 = sha_h h + big_sigma1 (sha_e h) + sha_ch (sha_e h) (sha_f h) (sha_g h)
                 + fst kw + snd kw;
          t2 = big_sigma0 (sha_a h) + sha_maj (sha_a h) (sha_b h) (sha_c h)
      in \<lparr>sha_a = t1 + t2, sha_b = sha_a h, sha_c = sha_b h, sha_d = sha_c h,
          sha_e = sha_d h + t1, sha_f = sha_e h, sha_g = sha_f h, sha_h = sha_g h\<rparr>)"

definition sha_block :: "sha_state \<Rightarrow> 32 word list \<Rightarrow> sha_state" where
  "sha_block h w =
     (let r = fold sha_round (zip SHA_K (rev (sha_extend 48 (rev w)))) h
      in \<lparr>sha_a = sha_a h + sha_a r, sha_b = sha_b h + sha_b r, sha_c = sha_c h + sha_c r,
          sha_d = sha_d h + sha_d r, sha_e = sha_e h + sha_e r, sha_f = sha_f h + sha_f r,
          sha_g = sha_g h + sha_g r, sha_h = sha_h h + sha_h r\<rparr>)"

fun sha_blocks :: "nat \<Rightarrow> sha_state \<Rightarrow> 32 word list \<Rightarrow> sha_state" where
  "sha_blocks 0 h ws = h"
| "sha_blocks (Suc n) h ws = sha_blocks n (sha_block h (take 16 ws)) (drop 16 ws)"

definition sha256 :: "nat list \<Rightarrow> 32 word list" where
  "sha256 m =
     (let p = sha_pad m; h = sha_blocks (length p div 64) SHA_H0 (be_words p)
      in [sha_a h, sha_b h, sha_c h, sha_d h, sha_e h, sha_f h, sha_g h, sha_h h])"

definition sha256_hexdigest :: "nat list \<Rightarrow> string" where
  "sha256_hexdigest m = concat (map (\<lambda>w. hex_digits 8 (unat w)) (sha256 m))"

section \<open>JSON\<close>

text \<open>
  \<open>json.dumps(payload, sort_keys=True, separators=(",", ":"))\<close> with its default escaping of
  everything outside printable ASCII. The decimal rendering of a float is Python's
  \<open>repr\<close> and stays a parameter.
\<close>

datatype json =
    JNull
  | JBool bool
  | JInt int
  | JFloat pyfloat
  | JStr pystr
  | JList "json list"
  | JObj "(pystr \<times> json) list"

definition json_escape_unit :: "nat \<Rightarrow> string" where
  "json_escape_unit c = [CHR 0x5C, CHR ''u''] @ hex_digits 4 c"

definition json_escape_char :: "nat \<Rightarrow> string" where
  "json_escape_char c =
     (if c = 0x22 then [CHR 0x5C, CHR 0x22]
      else if c = 0x5C then [CHR 0x5C, CHR 0x5C]
      else if c = 0x0A then [CHR 0x5C, CHR ''n'']
      else if c = 0x0D then [CHR 0x5C, CHR ''r'']
      else if c = 0x09 then [CHR 0x5C, CHR ''t'']
      else if c = 0x0C then [CHR 0x5C, CHR ''f'']
      else if c = 0x08 then [CHR 0x5C, CHR ''b'']
      else if 0x20 \<le> c \<and> c \<le> 0x7E then [char_of c]
      else if c < 0x10000 then json_escape_unit c
      else json_escape_unit (0xD800 + (c - 0x10000) div 0x400) @
        json_escape_unit (0xDC00 + (c - 0x10000) mod 0x400))"

definition json_string :: "pystr \<Rightarrow> string" where
  "json_string s = [CHR 0x22] @ concat (map json_escape_char s) @ [CHR 0x22]"

fun decimal_nat :: "nat \<Rightarrow> string" where
  "decimal_nat n =
     (if n < 10 then [char_of (48 + n)] else decimal_nat (n div 10) @ [char_of (48 + n mod 10)])"

declare decimal_nat.simps [simp del]

definition decimal_int :: "int \<Rightarrow> string" where
  "decimal_int i = (if i < 0 then ''-'' @ decimal_nat (nat (- i)) else decimal_nat (nat i))"

fun joined :: "string \<Rightarrow> string list \<Rightarrow> string" where
  "joined sep [] = []"
| "joined sep [x] = x"
| "joined sep (x # xs) = x @ sep @ joined sep xs"

fun json_dumps :: "(pyfloat \<Rightarrow> string) \<Rightarrow> json \<Rightarrow> string" where
  "json_dumps fr JNull = ''null''"
| "json_dumps fr (JBool b) = (if b then ''true'' else ''false'')"
| "json_dumps fr (JInt i) = decimal_int i"
| "json_dumps fr (JFloat x) =
     (case x of Fin _ \<Rightarrow> fr x | PosInf \<Rightarrow> ''Infinity'' | NegInf \<Rightarrow> ''-Infinity'' | NaN \<Rightarrow> ''NaN'')"
| "json_dumps fr (JStr s) = json_string s"
| "json_dumps fr (JList xs) = ''['' @ joined '','' (map (json_dumps fr) xs) @ '']''"
| "json_dumps fr (JObj kvs) =
     ''{'' @ joined '',''
        (map snd (sort_key fst (map (\<lambda>(k, v). (k, json_string k @ '':'' @ json_dumps fr v)) kvs)))
     @ ''}''"

section \<open>Lemmas\<close>

lemma length_be_bytes [simp]: "length (be_bytes k n) = k"
  by (induction k n rule: be_bytes.induct) auto

lemma length_sha256 [simp]: "length (sha256 m) = 8"
  by (simp add: sha256_def Let_def)

lemma concat_hex:
  "length (concat (map (\<lambda>w. hex_digits 8 (unat w)) ws)) = 8 * length ws \<and>
   list_all (\<lambda>c. c \<in> set HEX_DIGITS) (concat (map (\<lambda>w. hex_digits 8 (unat (w :: 32 word))) ws))"
  by (induction ws) (auto simp: list_all_append hex_digits_hex)

lemma sha256_hexdigest_ok: "digest_ok (sha256_hexdigest m)"
  using concat_hex [of "sha256 m"]
  by (simp add: digest_ok_def sha256_hexdigest_def SHA256_HEX_LENGTH_def)

lemma length_sha_pad: "length (sha_pad m) = 64 * (Suc ((length m + 8) div 64))"
proof -
  define q r where "q = length m div 64" and "r = length m mod 64"
  have n: "length m = 64 * q + r" and r: "r < 64" by (simp_all add: q_def r_def)
  have pad: "length (sha_pad m) = 64 * q + r + 9 + (119 - r) mod 64"
    using r by (simp add: sha_pad_def n)
  show ?thesis
  proof (cases "r \<le> 55")
    case True
    then have e: "119 - r = 55 - r + 64" by simp
    have "(119 - r) mod 64 = 55 - r" unfolding e by simp
    moreover from True have "(length m + 8) div 64 = q" unfolding n by simp
    ultimately show ?thesis using True pad by simp
  next
    case False
    then have "(119 - r) mod 64 = 119 - r" by simp
    moreover from False r have "(length m + 8) div 64 = Suc q" unfolding n
      by (simp add: div_nat_eqI)
    ultimately show ?thesis using False r pad by simp
  qed
qed

lemma utf8_encode_Inl: "utf8_encode s = Inl e \<Longrightarrow> e = Foreign ''UnicodeEncodeError''"
  by (induction s) (auto simp: rbind_Inl_iff utf8_char_def split: if_splits)

lemma utf8_encode_ok: "(\<exists>bs. utf8_encode s = Inr bs) \<longleftrightarrow> list_all (\<lambda>c. \<not> is_surrogate c) s"
  by (induction s) (auto simp: rbind_Inr_iff utf8_char_def)

text \<open>Two payloads that describe the same parameters: objects in any order, at any depth.\<close>

inductive same_parameters :: "json \<Rightarrow> json \<Rightarrow> bool" where
  same: "same_parameters j j"
| trans: "same_parameters a b \<Longrightarrow> same_parameters b c \<Longrightarrow> same_parameters a c"
| order: "distinct (map fst kvs) \<Longrightarrow> mset kvs = mset kvs' \<Longrightarrow> same_parameters (JObj kvs) (JObj kvs')"
| field: "same_parameters v v' \<Longrightarrow>
    same_parameters (JObj (xs @ (k, v) # ys)) (JObj (xs @ (k, v') # ys))"
| element: "same_parameters v v' \<Longrightarrow> same_parameters (JList (xs @ v # ys)) (JList (xs @ v' # ys))"

lemma filter_key:
  "distinct zs \<Longrightarrow> inj_on f (set zs) \<Longrightarrow> x \<in> set zs \<Longrightarrow> filter (\<lambda>y. f x = f y) zs = [x]"
proof -
  assume "distinct zs" "inj_on f (set zs)" "x \<in> set zs"
  then have "filter (\<lambda>y. f x = f y) zs = filter (\<lambda>y. y = x) zs"
    by (intro filter_cong) (auto simp: inj_on_def)
  also have "\<dots> = [x]"
    using \<open>distinct zs\<close> \<open>x \<in> set zs\<close> by (induction zs) (auto simp: filter_empty_conv)
  finally show ?thesis .
qed

lemma sort_key_distinct_perm:
  assumes "mset xs = mset ys" and "distinct (map f xs)"
  shows "sort_key f xs = sort_key f ys"
proof (rule properties_for_sort_key)
  show "mset (sort_key f ys) = mset xs" using assms(1) by simp
  show "sorted (map f (sort_key f ys))" by simp
  fix x assume "x \<in> set (sort_key f ys)"
  have inj: "inj_on f (set xs)" "distinct xs" using assms(2) by (simp_all add: distinct_map)
  have "set ys = set xs" "distinct ys"
    using assms(1) inj(2) by (metis mset_eq_setD, metis mset_eq_imp_distinct_iff)
  with inj \<open>x \<in> set (sort_key f ys)\<close>
  show "filter (\<lambda>y. f x = f y) (sort_key f ys) = filter (\<lambda>y. f x = f y) xs"
    by (simp add: filter_key)
qed

lemma json_dumps_same: "same_parameters a b \<Longrightarrow> json_dumps fr a = json_dumps fr b"
proof (induction rule: same_parameters.induct)
  case (order kvs kvs')
  let ?g = "\<lambda>(k, v). (k, json_string k @ '':'' @ json_dumps fr v)"
  have "mset (map ?g kvs) = mset (map ?g kvs')" using order by simp
  moreover have "map fst (map ?g kvs) = map fst kvs"
    by (simp add: case_prod_beta comp_def)
  then have "distinct (map fst (map ?g kvs))" using order by (simp del: map_map)
  ultimately have "sort_key fst (map ?g kvs) = sort_key fst (map ?g kvs')"
    by (rule sort_key_distinct_perm)
  then show ?case by simp
qed simp_all

end
