(* ===== verification/Decision.thy ===== *)
theory Decision
  imports Caller Scope Approval Permission Digest
begin

text \<open>
  Operation requests (\<open>canx/safety/operation.py\<close>), verdicts (\<open>canx/safety/decision.py\<close>) and
  the audit-safe projections \<open>describe\<close> of the domain types. The class of a request is the
  string a member of \<open>OperationClass\<close> is; the constructor does not check it.
\<close>

record operation_request =
  operation_id :: string
  request_class :: string
  request_caller :: caller_identity
  request_target :: operation_target
  requested_at :: pyfloat
  request_approval_id :: "string option"
  parameters_digest :: "string option"

definition operation_request_post_init :: "operation_request \<Rightarrow> exn + operation_request" where
  "operation_request_post_init r =
     rbind (new_identifier OperationId (StrValue (operation_id r))) (\<lambda>i.
     rbind (ropt (\<lambda>a. new_identifier ApprovalId (StrValue a)) (request_approval_id r)) (\<lambda>a.
     rbind (ropt (\<lambda>d. validate_sha256_digest (StrValue d) PARAMETERS_DIGEST_ROLE)
       (parameters_digest r)) (\<lambda>_.
     if \<not> isfinite (requested_at r) then Inl (SafetyErrorOf ''safety.invalid_operation'')
     else Inr (r\<lparr>operation_id := i, request_approval_id := a\<rparr>))))"

definition digest_parameters ::
    "(pyfloat \<Rightarrow> string) \<Rightarrow> (pystr \<times> json) list \<Rightarrow> exn + string" where
  "digest_parameters fr parameters =
     rbind (utf8_encode (codes (json_dumps fr (JObj parameters))))
       (\<lambda>bytes. Inr (sha256_hexdigest bytes))"

definition valid_request :: "operation_request \<Rightarrow> bool" where
  "valid_request r \<longleftrightarrow> identifier_ok (operation_id r) \<and>
     pred_option identifier_ok (request_approval_id r) \<and>
     pred_option digest_ok (parameters_digest r) \<and> isfinite (requested_at r) \<and>
     valid_caller (request_caller r) \<and> valid_target (request_target r)"

section \<open>Verdicts\<close>

datatype decision_outcome = ALLOW | DENY

fun decision_outcome_value :: "decision_outcome \<Rightarrow> string" where
  "decision_outcome_value ALLOW = ''allow''"
| "decision_outcome_value DENY = ''deny''"

datatype safety_reason =
  ALLOWED
  | NOT_ARMED | SCOPE_VIOLATION | PERMISSION_DENIED | CALLER_NOT_PERMITTED
  | APPROVAL_REQUIRED | APPROVAL_INVALID | APPROVAL_EXPIRED | APPROVAL_REUSED
  | UNKNOWN_OPERATION | INVALID_TRANSITION | POLICY_FAILURE | EMERGENCY_STOP

fun safety_reason_value :: "safety_reason \<Rightarrow> string" where
  "safety_reason_value ALLOWED = ''safety.allowed''"
| "safety_reason_value NOT_ARMED = ''safety.not_armed''"
| "safety_reason_value SCOPE_VIOLATION = ''safety.scope_violation''"
| "safety_reason_value PERMISSION_DENIED = ''safety.permission_denied''"
| "safety_reason_value CALLER_NOT_PERMITTED = ''safety.caller_not_permitted''"
| "safety_reason_value APPROVAL_REQUIRED = ''safety.approval_required''"
| "safety_reason_value APPROVAL_INVALID = ''safety.approval_invalid''"
| "safety_reason_value APPROVAL_EXPIRED = ''safety.approval_expired''"
| "safety_reason_value APPROVAL_REUSED = ''safety.approval_reused''"
| "safety_reason_value UNKNOWN_OPERATION = ''safety.unknown_operation''"
| "safety_reason_value INVALID_TRANSITION = ''safety.invalid_transition''"
| "safety_reason_value POLICY_FAILURE = ''safety.policy_failure''"
| "safety_reason_value EMERGENCY_STOP = ''safety.emergency_stop_active''"

record policy_decision =
  outcome :: decision_outcome
  reason_code :: safety_reason
  message :: string
  decision_risk :: "risk_level option"
  required_conditions :: "string list"

definition allowed :: "policy_decision \<Rightarrow> bool" where
  "allowed d \<longleftrightarrow> outcome d = ALLOW"

definition denied :: "policy_decision \<Rightarrow> bool" where
  "denied d \<longleftrightarrow> outcome d = DENY"

definition allow :: "risk_level \<Rightarrow> policy_decision" where
  "allow r = \<lparr>outcome = ALLOW, reason_code = ALLOWED, message = ''The operation is authorised.'',
     decision_risk = Some r, required_conditions = []\<rparr>"

definition deny ::
    "safety_reason \<Rightarrow> string \<Rightarrow> risk_level option \<Rightarrow> string list \<Rightarrow> policy_decision" where
  "deny reason msg r conds = \<lparr>outcome = DENY, reason_code = reason, message = msg,
     decision_risk = r, required_conditions = conds\<rparr>"

section \<open>Projections\<close>

definition jstr :: "string \<Rightarrow> json" where
  "jstr s = JStr (codes s)"

definition jopt :: "('a \<Rightarrow> json) \<Rightarrow> 'a option \<Rightarrow> json" where
  "jopt f x = (case x of None \<Rightarrow> JNull | Some a \<Rightarrow> f a)"

definition jobj :: "(string \<times> json) list \<Rightarrow> json" where
  "jobj kvs = JObj (map (\<lambda>(k, v). (codes k, v)) kvs)"

definition describe_target :: "operation_target \<Rightarrow> json" where
  "describe_target t = jobj
     [(''device_id'', jopt jstr (device_id t)), (''channel'', jopt jstr (channel t)),
      (''target_address'', jopt JInt (target_address t))]"

definition describe_capabilities :: "capability set \<Rightarrow> json" where
  "describe_capabilities C = JList (map (jstr \<circ> capability_value) (sorted_list_of_set C))"

definition describe_scope :: "arm_scope \<Rightarrow> json" where
  "describe_scope s = jobj
     [(''capabilities'', describe_capabilities (capabilities s)),
      (''target'', describe_target (scope_target s)),
      (''granted_at'', JFloat (granted_at s)), (''expires_at'', JFloat (scope_expires_at s))]"

definition describe_approval :: "approval \<Rightarrow> json" where
  "describe_approval a = jobj
     [(''approval_id'', jstr (approval_id a)),
      (''capability'', jstr (capability_value (approval_capability a))),
      (''target'', describe_target (approval_target a)), (''issued_at'', JFloat (issued_at a)),
      (''expires_at'', JFloat (approval_expires_at a)),
      (''issuer'', jstr (approval_issuer_value (issuer a))),
      (''single_use'', JBool (single_use a))]"

definition describe_request :: "operation_request \<Rightarrow> json" where
  "describe_request r = jobj
     [(''operation_id'', jstr (operation_id r)), (''operation_class'', jstr (request_class r)),
      (''caller_kind'', jstr (caller_kind_value (kind (request_caller r)))),
      (''caller_id'', jstr (caller_id (request_caller r))),
      (''target'', describe_target (request_target r)), (''requested_at'', JFloat (requested_at r)),
      (''approval_id'', jopt jstr (request_approval_id r)),
      (''parameters_digest'', jopt jstr (parameters_digest r))]"

definition describe_decision :: "policy_decision \<Rightarrow> json" where
  "describe_decision d = jobj
     [(''outcome'', jstr (decision_outcome_value (outcome d))),
      (''reason_code'', jstr (safety_reason_value (reason_code d))),
      (''message'', jstr (message d)), (''risk_level'', jopt (JInt \<circ> risk_int) (decision_risk d)),
      (''required_conditions'', JList (map jstr (required_conditions d)))]"

section \<open>Lemmas\<close>

lemma decision_simps [simp]:
  "allowed (allow r)" "\<not> allowed (deny c m l q)" "denied (deny c m l q)" "\<not> denied (allow r)"
  "reason_code (deny c m l q) = c" "reason_code (allow r) = ALLOWED"
  "decision_risk (deny c m l q) = l" "decision_risk (allow r) = Some r"
  "outcome (deny c m l q) = DENY" "outcome (allow r) = ALLOW"
  "required_conditions (deny c m l q) = q"
  by (simp_all add: allowed_def denied_def allow_def deny_def)

lemma allow_not_deny [simp]: "allow r \<noteq> deny c m l q" "deny c m l q \<noteq> allow r"
  by (auto simp: allow_def deny_def)

lemma operation_request_post_init_Inr:
  "valid_caller (request_caller r) \<Longrightarrow> valid_target (request_target r) \<Longrightarrow>
     operation_request_post_init r = Inr r' \<longleftrightarrow> r' = r \<and> valid_request r"
  by (cases r) (auto simp: operation_request_post_init_def rbind_Inr_iff valid_request_def)

lemma enum_identifiers:
  "identifier_ok (decision_outcome_value o')" "identifier_ok (safety_reason_value c)"
  by (cases o'; cases c; simp add: identifier_ok_def AUDIT_IDENTIFIER_ALPHABET_def
      MAX_AUDIT_IDENTIFIER_LENGTH_def)+

lemma operation_class_identifier: "identifier_ok (operation_class_value c)"
  by (cases c; simp add: identifier_ok_def AUDIT_IDENTIFIER_ALPHABET_def
      MAX_AUDIT_IDENTIFIER_LENGTH_def)

text \<open>
  A parameters digest identifies the parameters and not their order. Two mappings that
  differ only in the order of keys, at any depth, have the same digest; the digest is 64
  hexadecimal digits and computing it never fails, since the rendering is ASCII.
\<close>

theorem parameters_digest_ignores_key_order:
  assumes "same_parameters (JObj a) (JObj b)"
  shows "\<exists>d. digest_parameters fr a = Inr d \<and> digest_parameters fr b = Inr d \<and> digest_ok d"
proof -
  have "list_all (\<lambda>c. \<not> is_surrogate c) (codes s)" for s
  proof -
    have "of_char c < (0xD800 :: nat)" for c :: char
      by (rule order.strict_trans2 [where b = 256]) simp_all
    then show ?thesis by (simp add: codes_def list_all_iff is_surrogate_def not_le)
  qed
  then obtain bs where "utf8_encode (codes (json_dumps fr (JObj a))) = Inr bs"
    using utf8_encode_ok by blast
  with json_dumps_same [OF assms, of fr] show ?thesis
    by (simp add: digest_parameters_def sha256_hexdigest_ok del: json_dumps.simps)
qed

theorem parameters_digest_ignores_key_order_witness:
  "digest_parameters (\<lambda>_. ''0.5'') [(codes ''id'', JInt 7), (codes ''data'', JList [JBool True])]
   = digest_parameters (\<lambda>_. ''0.5'') [(codes ''data'', JList [JBool True]), (codes ''id'', JInt 7)]"
proof -
  have "same_parameters (JObj [(codes ''id'', JInt 7), (codes ''data'', JList [JBool True])])
      (JObj [(codes ''data'', JList [JBool True]), (codes ''id'', JInt 7)])"
    by (rule same_parameters.order) (simp_all add: codes_def)
  from parameters_digest_ignores_key_order [OF this, of "\<lambda>_. ''0.5''"] show ?thesis by auto
qed

end
