(* ===== verification/Arm.thy ===== *)
theory Arm
  imports Scope
begin

text \<open>
  The arm state machine of \<open>canx/safety/arm.py\<close>. The clock is a callable the host
  supplies: its \<open>n\<close>-th reading is \<open>clk n\<close>, a float or an exception, and the state counts
  the readings taken. The controller's fields extend that counter, so that a state which
  owns a controller is a further extension. Every method holds the controller's lock from
  its first to its last line and is one step.
\<close>

type_synonym clock = "nat \<Rightarrow> exn + pyfloat"

record clock_world =
  ticks :: nat

definition read_clock :: "clock \<Rightarrow> ('r clock_world_scheme, exn, pyfloat) exec" where
  "read_clock clk = (\<lambda>s. (clk (ticks s), s\<lparr>ticks := Suc (ticks s)\<rparr>))"

datatype arm_state = DISARMED | ARMING | ARMED

fun arm_state_value :: "arm_state \<Rightarrow> string" where
  "arm_state_value DISARMED = ''disarmed''"
| "arm_state_value ARMING = ''arming''"
| "arm_state_value ARMED = ''armed''"

fun TRANSITIONS :: "arm_state \<Rightarrow> arm_state set" where
  "TRANSITIONS DISARMED = {ARMING}"
| "TRANSITIONS ARMING = {ARMED, DISARMED}"
| "TRANSITIONS ARMED = {DISARMED}"

record arm_controller = clock_world +
  arm_state :: arm_state
  arm_scope :: "arm_scope option"

definition require_transition :: "arm_state \<Rightarrow> arm_state \<Rightarrow> exn + unit" where
  "require_transition current goal =
     guard (goal \<in> TRANSITIONS current)
       (SafetyStateError (arm_state_value current) (arm_state_value goal))"

definition active_scope ::
    "clock \<Rightarrow> ('r arm_controller_scheme, exn, arm_scope option) exec" where
  "active_scope clk = (\<lambda>s.
     case arm_scope s of
       None \<Rightarrow> ret None s
     | Some sc \<Rightarrow>
         if arm_state s \<noteq> ARMED then ret None s
         else ebind (read_clock clk)
           (\<lambda>now. ret (if scope_is_expired sc now then None else Some sc)) s)"

definition arm_request ::
    "clock \<Rightarrow> arm_scope \<Rightarrow> ('r arm_controller_scheme, exn, arm_state) exec" where
  "arm_request clk sc = (\<lambda>s.
     eseq (lift (require_transition (arm_state s) ARMING))
       (ebind (read_clock clk) (\<lambda>now.
          if scope_is_expired sc now then throw SafetyScopeError
          else eseq (put (\<lambda>s. s\<lparr>arm_state := ARMING, arm_scope := Some sc\<rparr>)) (get arm_state))) s)"

definition arm_confirm :: "clock \<Rightarrow> ('r arm_controller_scheme, exn, arm_state) exec" where
  "arm_confirm clk = (\<lambda>s.
     eseq (lift (require_transition (arm_state s) ARMED))
       (ebind (read_clock clk) (\<lambda>now.
          if (case arm_scope s of None \<Rightarrow> True | Some sc \<Rightarrow> scope_is_expired sc now)
          then eseq (put (\<lambda>s. s\<lparr>arm_state := DISARMED, arm_scope := None\<rparr>)) (throw SafetyScopeError)
          else eseq (put (\<lambda>s. s\<lparr>arm_state := ARMED\<rparr>)) (get arm_state))) s)"

definition arm_disarm :: "('r arm_controller_scheme, exn, arm_state) exec" where
  "arm_disarm = eseq (put (\<lambda>s. s\<lparr>arm_state := DISARMED, arm_scope := None\<rparr>)) (get arm_state)"

definition new_arm_controller :: arm_controller where
  "new_arm_controller = \<lparr>ticks = 0, arm_state = DISARMED, arm_scope = None\<rparr>"

section \<open>The machine and its invariant\<close>

text \<open>\<open>DISARMED\<close> holds no scope and the two other states hold one.\<close>

definition arm_ok :: "'r arm_controller_scheme \<Rightarrow> bool" where
  "arm_ok s \<longleftrightarrow> (arm_state s = DISARMED \<longleftrightarrow> arm_scope s = None)"

datatype arm_call = RequestArm arm_scope | ConfirmArm | DisarmArm | QueryArm

definition arm_step :: "clock \<Rightarrow> arm_call \<Rightarrow> 'r arm_controller_scheme \<Rightarrow> 'r arm_controller_scheme"
where
  "arm_step clk c s =
     (case c of
        RequestArm sc \<Rightarrow> snd (arm_request clk sc s)
      | ConfirmArm \<Rightarrow> snd (arm_confirm clk s)
      | DisarmArm \<Rightarrow> snd (arm_disarm s)
      | QueryArm \<Rightarrow> snd (active_scope clk s))"

text \<open>The edges of the diagram, with self loops for a call that changes nothing.\<close>

inductive arm_edge :: "arm_state \<Rightarrow> arm_state \<Rightarrow> bool" where
  stay: "arm_edge a a"
| requested: "arm_edge DISARMED ARMING"
| confirmed: "arm_edge ARMING ARMED"
| disarmed: "arm_edge a DISARMED"

inductive_simps arm_edge_to_armed: "arm_edge a ARMED"
inductive_simps arm_edge_to_arming: "arm_edge a ARMING"

lemma arm_controller_cong [frame_simps]:
  "read_clock clk s = (clk (ticks s), s\<lparr>ticks := Suc (ticks s)\<rparr>)"
  by (simp add: read_clock_def)

lemmas arm_defs = active_scope_def arm_request_def arm_confirm_def arm_disarm_def
  require_transition_def guard_def exec_simps frame_simps

lemma arm_disarm_apply [simp]:
  "arm_disarm s = (Inr DISARMED, s\<lparr>arm_state := DISARMED, arm_scope := None\<rparr>)"
  by (simp add: arm_defs)

lemma active_scope_state: "\<exists>n. snd (active_scope clk s) = s\<lparr>ticks := n\<rparr>"
  by (auto simp: arm_defs split: option.splits sum.splits intro: exI [of _ "ticks s"])

lemma active_scope_Some:
  "active_scope clk s = (Inr (Some sc), s') \<Longrightarrow>
     arm_state s = ARMED \<and> arm_scope s = Some sc \<and> s' = s\<lparr>ticks := Suc (ticks s)\<rparr> \<and>
     (\<exists>now. clk (ticks s) = Inr now \<and> \<not> scope_is_expired sc now)"
  by (auto simp: arm_defs split: option.splits sum.splits if_splits)

lemma arm_request_Inr:
  "arm_request clk sc s = (Inr st, s') \<longleftrightarrow>
     arm_state s = DISARMED \<and> st = ARMING \<and>
     (\<exists>now. clk (ticks s) = Inr now \<and> \<not> scope_is_expired sc now) \<and>
     s' = s\<lparr>ticks := Suc (ticks s), arm_state := ARMING, arm_scope := Some sc\<rparr>"
  by (cases "arm_state s") (auto simp: arm_defs split: sum.splits if_splits)

lemma arm_request_Inl:
  "arm_request clk sc s = (Inl e, s') \<Longrightarrow> \<exists>n. s' = s\<lparr>ticks := n\<rparr>"
  by (cases "arm_state s")
     (auto simp: arm_defs split: sum.splits if_splits intro: exI [of _ "ticks s"])

lemma arm_confirm_Inr:
  "arm_confirm clk s = (Inr st, s') \<longleftrightarrow>
     arm_state s = ARMING \<and> st = ARMED \<and>
     (\<exists>now sc. clk (ticks s) = Inr now \<and> arm_scope s = Some sc \<and> \<not> scope_is_expired sc now) \<and>
     s' = s\<lparr>ticks := Suc (ticks s), arm_state := ARMED\<rparr>"
  by (cases "arm_state s") (auto simp: arm_defs split: sum.splits if_splits option.splits)

lemma arm_confirm_Inl:
  "arm_confirm clk s = (Inl e, s') \<Longrightarrow>
     (\<exists>n. s' = s\<lparr>ticks := n\<rparr>) \<or>
     arm_state s = ARMING \<and> (\<exists>n. s' = s\<lparr>ticks := n, arm_state := DISARMED, arm_scope := None\<rparr>)"
  by (cases "arm_state s")
     (auto simp: arm_defs split: sum.splits if_splits option.splits intro: exI [of _ "ticks s"])

lemma arm_step_cases:
  obtains (same) n where "arm_step clk c s = s\<lparr>ticks := n\<rparr>"
  | (request) sc n where "c = RequestArm sc" "arm_state s = DISARMED"
      "arm_step clk c s = s\<lparr>ticks := n, arm_state := ARMING, arm_scope := Some sc\<rparr>"
  | (confirm) n where "c = ConfirmArm" "arm_state s = ARMING" "arm_scope s \<noteq> None"
      "arm_step clk c s = s\<lparr>ticks := n, arm_state := ARMED\<rparr>"
  | (off) n where "arm_step clk c s = s\<lparr>ticks := n, arm_state := DISARMED, arm_scope := None\<rparr>"
proof (cases c)
  case (RequestArm sc)
  obtain r s' where r: "arm_request clk sc s = (r, s')" by fastforce
  show thesis
  proof (cases r)
    case (Inl e)
    with arm_request_Inl [of clk sc s e s'] r RequestArm same show thesis
      by (auto simp: arm_step_def)
  next
    case (Inr st)
    with r have "snd (arm_request clk sc s) = s'" and "arm_request clk sc s = (Inr st, s')" by simp_all
    with RequestArm have "arm_state s = DISARMED"
      "arm_step clk c s = s\<lparr>ticks := Suc (ticks s), arm_state := ARMING, arm_scope := Some sc\<rparr>"
      by (auto simp: arm_step_def dest: arm_request_Inr [THEN iffD1])
    with request RequestArm show thesis by blast
  qed
next
  case ConfirmArm
  obtain r s' where r: "arm_confirm clk s = (r, s')" by fastforce
  show thesis
  proof (cases r)
    case (Inl e)
    with arm_confirm_Inl [of clk s e s'] r ConfirmArm same off show thesis
      by (auto simp: arm_step_def)
  next
    case (Inr st)
    with r have "snd (arm_confirm clk s) = s'" and "arm_confirm clk s = (Inr st, s')" by simp_all
    with ConfirmArm have "arm_state s = ARMING" "arm_scope s \<noteq> None"
      "arm_step clk c s = s\<lparr>ticks := Suc (ticks s), arm_state := ARMED\<rparr>"
      by (auto simp: arm_step_def dest: arm_confirm_Inr [THEN iffD1])
    with confirm ConfirmArm show thesis by blast
  qed
next
  case DisarmArm
  with off [of "ticks s"] show thesis by (simp add: arm_step_def)
next
  case QueryArm
  with active_scope_state [of clk s] same show thesis
    by (auto simp: arm_step_def)
qed

lemma arm_step_edge: "arm_edge (arm_state s) (arm_state (arm_step clk c s))"
  by (rule arm_step_cases [of clk c s]) (auto intro: arm_edge.intros)

lemma arm_step_ok: "arm_ok s \<Longrightarrow> arm_ok (arm_step clk c s)"
  by (rule arm_step_cases [of clk c s]) (auto simp: arm_ok_def)

interpretation arm_machine: preserved "arm_step clk" arm_ok "\<lambda>_. True" for clk
  by unfold_locales (rule arm_step_ok)

text \<open>
  C13: the arm machine. From a new controller, along any calls and with any clock, a state
  is disarmed exactly when it holds no scope, and the next call moves along an edge of the
  diagram: armed is entered only from arming, by a confirmation, and arming only from
  disarmed.
\<close>

theorem arm_machine_follows_the_diagram:
  "let s = run_calls (arm_step clk) cs new_arm_controller; s' = arm_step clk c s in
     (arm_state s = DISARMED \<longleftrightarrow> arm_scope s = None) \<and> arm_edge (arm_state s) (arm_state s') \<and>
     (if arm_state s' = ARMED then arm_state s = ARMED \<or> arm_state s = ARMING \<and> c = ConfirmArm
      else True)"
proof -
  define s where "s = run_calls (arm_step clk) cs new_arm_controller"
  have "arm_ok new_arm_controller" by (simp add: arm_ok_def new_arm_controller_def)
  then have "arm_ok s" unfolding s_def by (rule arm_machine.run_inv) simp_all
  moreover have "if arm_state (arm_step clk c s) = ARMED
      then arm_state s = ARMED \<or> arm_state s = ARMING \<and> c = ConfirmArm else True"
    by (rule arm_step_cases [of clk c s]) auto
  ultimately show ?thesis using arm_step_edge [of s clk c]
    unfolding s_def arm_ok_def Let_def by (auto split: if_splits)
qed

end
