(* ===== verification/Policy.thy ===== *)
theory Policy
  imports Decision Arm
begin

text \<open>
  The policy core of \<open>canx/safety/policy.py\<close>. The chain refuses by raising; its rules
  return the raised refusal or fault. The context holds the approval store by reference, so
  the chain returns the store it leaves behind as well.
\<close>

record approval_requirement_record =
  required :: bool
  single_use_required :: bool
  exact_target_required :: bool
  human_issuer_required :: bool

definition NO_APPROVAL :: approval_requirement_record where
  "NO_APPROVAL = \<lparr>required = False, single_use_required = False, exact_target_required = False,
     human_issuer_required = False\<rparr>"

definition STRICTEST :: approval_requirement_record where
  "STRICTEST = \<lparr>required = True, single_use_required = True, exact_target_required = True,
     human_issuer_required = True\<rparr>"

fun DEFAULT_APPROVAL_REQUIREMENTS :: "risk_level \<Rightarrow> approval_requirement_record option" where
  "DEFAULT_APPROVAL_REQUIREMENTS risk_level.READ = Some NO_APPROVAL"
| "DEFAULT_APPROVAL_REQUIREMENTS risk_level.COMPUTE = Some NO_APPROVAL"
| "DEFAULT_APPROVAL_REQUIREMENTS risk_level.WRITE_PROJECT = Some NO_APPROVAL"
| "DEFAULT_APPROVAL_REQUIREMENTS TX =
     Some \<lparr>required = True, single_use_required = False, exact_target_required = True,
       human_issuer_required = False\<rparr>"
| "DEFAULT_APPROVAL_REQUIREMENTS risk_level.DIAGNOSTIC_MUTATION =
     Some \<lparr>required = True, single_use_required = True, exact_target_required = True,
       human_issuer_required = False\<rparr>"
| "DEFAULT_APPROVAL_REQUIREMENTS risk_level.ACTUATION =
     Some \<lparr>required = True, single_use_required = True, exact_target_required = True,
       human_issuer_required = True\<rparr>"
| "DEFAULT_APPROVAL_REQUIREMENTS risk_level.ECU_MUTATION =
     Some \<lparr>required = True, single_use_required = True, exact_target_required = True,
       human_issuer_required = True\<rparr>"
| "DEFAULT_APPROVAL_REQUIREMENTS CRITICAL =
     Some \<lparr>required = True, single_use_required = True, exact_target_required = True,
       human_issuer_required = True\<rparr>"

record safety_context =
  now :: pyfloat
  context_arm_state :: arm_state
  context_arm_scope :: "arm_scope option"
  permissions :: permission_set
  emergency_stop_engaged :: bool

type_synonym safety_policy = "risk_level \<Rightarrow> approval_requirement_record option"

definition approval_requirement :: "safety_policy \<Rightarrow> risk_level \<Rightarrow> approval_requirement_record" where
  "approval_requirement pol r = (case pol r of None \<Rightarrow> STRICTEST | Some q \<Rightarrow> q)"

definition approval_requirement_for :: "risk_level \<Rightarrow> approval_requirement_record" where
  "approval_requirement_for r = approval_requirement DEFAULT_APPROVAL_REQUIREMENTS r"

datatype policy_exn = Refusal policy_decision | Fault exn

section \<open>The rules\<close>

definition policy_of_request :: "operation_request \<Rightarrow> policy_exn + operation_policy_record" where
  "policy_of_request r =
     (case operation_policy (request_class r) of
        Inr p \<Rightarrow> Inr p
      | Inl SafetyUnknownOperationError \<Rightarrow> Inl (Refusal (deny UNKNOWN_OPERATION
          ''The operation is not part of the CAN-X risk taxonomy; it is refused.''
          None [''known_operation_class'']))
      | Inl e \<Rightarrow> Inl (Fault e))"

text \<open>\<open>CallerKind(request.caller.kind)\<close>: a member of the enumeration is always found.\<close>

definition require_known_caller :: "operation_request \<Rightarrow> policy_exn + unit" where
  "require_known_caller r =
     (if kind (request_caller r) \<in> {HUMAN_UI, AGENT, SCRIPT, AUTOMATION, SYSTEM} then Inr ()
      else Inl (Refusal (deny CALLER_NOT_PERMITTED
        ''The caller kind is not part of the CAN-X caller vocabulary.''
        None [''known_caller_kind''])))"

definition uncovered_by_arm_scope ::
    "operation_policy_record \<Rightarrow> operation_request \<Rightarrow> safety_context \<Rightarrow> capability list" where
  "uncovered_by_arm_scope p r ctx =
     (let vehicle = required_capabilities p \<inter> DANGEROUS_CAPABILITIES in
      case context_arm_scope ctx of
        None \<Rightarrow> sorted_list_of_set vehicle
      | Some sc \<Rightarrow>
          sorted_list_of_set {c \<in> vehicle. \<not> scope_covers sc c (request_target r) (now ctx)})"

definition require_arm ::
    "operation_policy_record \<Rightarrow> operation_request \<Rightarrow> safety_context \<Rightarrow> policy_exn + unit" where
  "require_arm p r ctx =
     (if context_arm_state ctx \<noteq> ARMED \<or> context_arm_scope ctx = None
      then Inl (Refusal (deny NOT_ARMED ''The runtime is not armed for this operation.''
        (Some (effect_risk p)) [''runtime_armed'']))
      else let uncovered = uncovered_by_arm_scope p r ctx in
        if uncovered \<noteq> []
        then Inl (Refusal (deny SCOPE_VIOLATION
          (''The arm scope does not cover '' @ joined '', '' (map capability_value uncovered)
             @ '' at this target.'')
          (Some (effect_risk p)) (map (\<lambda>c. ''arm_scope:'' @ capability_value c) uncovered)))
        else Inr ())"

definition require_permissions ::
    "operation_policy_record \<Rightarrow> operation_request \<Rightarrow> safety_context \<Rightarrow> policy_exn + unit" where
  "require_permissions p r ctx =
     (let missing = sorted_list_of_set {c \<in> required_capabilities p.
        \<not> permissions_cover (permissions ctx) c (request_target r) (now ctx)} in
      if missing \<noteq> []
      then Inl (Refusal (deny PERMISSION_DENIED
        (''The session holds no grant for '' @ joined '', '' (map capability_value missing)
           @ '' at this target.'')
        (Some (effect_risk p)) (map (\<lambda>c. ''permission:'' @ capability_value c) missing)))
      else Inr ())"

definition approval_check ::
    "capability \<Rightarrow> approval_requirement_record \<Rightarrow> operation_request \<Rightarrow> safety_context \<Rightarrow> approval \<Rightarrow>
     exn + unit" where
  "approval_check c q r ctx a =
     (if approval_is_expired a (now ctx) then Inl SafetyApprovalExpiredError
      else if approval_capability a \<noteq> c then Inl SafetyApprovalError
      else if exact_target_required q \<and> \<not> exactly_matches a c (request_target r)
        then Inl SafetyScopeError
      else if \<not> exact_target_required q \<and> \<not> approval_covers a c (request_target r)
        then Inl SafetyScopeError
      else if single_use_required q \<and> \<not> single_use a then Inl SafetyApprovalError
      else if human_issuer_required q \<and> issuer a \<noteq> HUMAN_OPERATOR then Inl SafetyApprovalError
      else (case context_arm_scope ctx of
              None \<Rightarrow> Inr ()
            | Some sc \<Rightarrow> if \<not> target_covers (scope_target sc) (approval_target a)
                then Inl SafetyScopeError else Inr ()))"

text \<open>The four \<open>except\<close> clauses around the consumption, most specific first.\<close>

definition approval_refusal :: "operation_policy_record \<Rightarrow> exn \<Rightarrow> policy_exn" where
  "approval_refusal p e =
     (if e = SafetyApprovalExpiredError then Refusal (deny APPROVAL_EXPIRED
        ''The approval expired before this operation was requested.''
        (Some (effect_risk p)) [''approval_valid''])
      else if e = SafetyApprovalReusedError then Refusal (deny APPROVAL_REUSED
        ''This approval has already been consumed by an earlier operation.''
        (Some (effect_risk p)) [''unspent_approval''])
      else if e = SafetyScopeError then Refusal (deny SCOPE_VIOLATION
        ''The approval does not cover exactly this operation's target.''
        (Some (effect_risk p)) [''approval_covers_operation''])
      else if is_approval_error e then Refusal (deny APPROVAL_INVALID
        ''The presented approval does not authorise this operation.''
        (Some (effect_risk p)) [''approval_valid''])
      else Fault e)"

definition require_approval ::
    "safety_policy \<Rightarrow> operation_policy_record \<Rightarrow> operation_request \<Rightarrow> safety_context \<Rightarrow>
     (approval_store, policy_exn, unit) exec" where
  "require_approval pol p r ctx = (\<lambda>d.
     let q = approval_requirement pol (effect_risk p) in
     if \<not> required q then ret () d
     else case request_approval_id r of
       None \<Rightarrow> throw (Refusal (deny APPROVAL_REQUIRED
         ''This operation requires an approval and none was presented.''
         (Some (effect_risk p)) [''approval''])) d
     | Some i \<Rightarrow>
         (case store_consume i (Some (approval_check (effect_capability p) q r ctx)) d of
            (Inr _, d') \<Rightarrow> ret () d'
          | (Inl e, d') \<Rightarrow> throw (approval_refusal p e) d'))"

section \<open>The chain\<close>

definition decide_chain ::
    "safety_policy \<Rightarrow> operation_request \<Rightarrow> safety_context \<Rightarrow>
     (approval_store, policy_exn, policy_decision) exec" where
  "decide_chain pol r ctx =
     ebind (lift (policy_of_request r)) (\<lambda>p.
     eseq (lift (require_known_caller r))
    (eseq (if requires_arm p then
             if emergency_stop_engaged ctx
             then throw (Refusal (deny EMERGENCY_STOP
               ''The global emergency stop is engaged; no vehicle operation is authorised.''
               (Some (effect_risk p)) [''emergency_stop_released'']))
             else lift (require_arm p r ctx)
           else ret ())
    (eseq (lift (require_permissions p r ctx))
    (eseq (if is_dangerous (effect_risk p) then require_approval pol p r ctx else ret ())
          (ret (allow (effect_risk p)))))))"

definition decide ::
    "safety_policy \<Rightarrow> operation_request \<Rightarrow> safety_context \<Rightarrow> approval_store \<Rightarrow>
     policy_decision \<times> approval_store" where
  "decide pol r ctx d =
     (case decide_chain pol r ctx d of
        (Inr v, d') \<Rightarrow> (v, d')
      | (Inl (Refusal v), d') \<Rightarrow> (v, d')
      | (Inl (Fault _), d') \<Rightarrow> (deny POLICY_FAILURE
          ''The safety policy could not complete its evaluation; the operation is refused.''
          None [], d'))"

section \<open>What authorises an operation\<close>

text \<open>
  The specification of the verdict, stated over the authorities and not over the order in
  which the chain asks for them.
\<close>

definition arm_authorises :: "operation_policy_record \<Rightarrow> operation_request \<Rightarrow> safety_context \<Rightarrow> bool" where
  "arm_authorises p r ctx \<longleftrightarrow>
     \<not> emergency_stop_engaged ctx \<and> context_arm_state ctx = ARMED \<and>
     (\<exists>sc. context_arm_scope ctx = Some sc \<and>
        (\<forall>c \<in> required_capabilities p \<inter> DANGEROUS_CAPABILITIES.
           scope_covers sc c (request_target r) (now ctx)))"

definition approval_authorises ::
    "approval_requirement_record \<Rightarrow> operation_policy_record \<Rightarrow> operation_request \<Rightarrow> safety_context \<Rightarrow>
     approval_store \<Rightarrow> approval \<Rightarrow> bool" where
  "approval_authorises q p r ctx d a \<longleftrightarrow>
     (\<exists>i. request_approval_id r = Some i \<and> map_of d i = Some \<lparr>stored = a, consumed = False\<rparr>) \<and>
     \<not> approval_is_expired a (now ctx) \<and> approval_capability a = effect_capability p \<and>
     target_covers (approval_target a) (request_target r) \<and>
     (exact_target_required q \<longrightarrow> approval_target a = request_target r) \<and>
     (single_use_required q \<longrightarrow> single_use a) \<and>
     (human_issuer_required q \<longrightarrow> issuer a = HUMAN_OPERATOR) \<and>
     (\<forall>sc. context_arm_scope ctx = Some sc \<longrightarrow> target_covers (scope_target sc) (approval_target a))"

definition authorised ::
    "safety_policy \<Rightarrow> operation_request \<Rightarrow> safety_context \<Rightarrow> approval_store \<Rightarrow> bool" where
  "authorised pol r ctx d \<longleftrightarrow>
     (\<exists>p. operation_policy (request_class r) = Inr p \<and>
       (CAN_TX \<in> required_capabilities p \<longrightarrow> arm_authorises p r ctx) \<and>
       (\<forall>c \<in> required_capabilities p.
          permissions_cover (permissions ctx) c (request_target r) (now ctx)) \<and>
       (is_dangerous (effect_risk p) \<and> required (approval_requirement pol (effect_risk p)) \<longrightarrow>
          (\<exists>a. approval_authorises (approval_requirement pol (effect_risk p)) p r ctx d a)))"

section \<open>Lemmas\<close>

lemma require_known_caller_ok [simp]: "require_known_caller r = Inr ()"
  by (cases "kind (request_caller r)") (simp_all add: require_known_caller_def)

lemma sorted_list_empty_iff [simp]:
  "sorted_list_of_set (C :: capability set) = [] \<longleftrightarrow> C = {}"
  by (simp add: sorted_list_of_set_eq_Nil_iff)

lemma require_arm_Inr:
  "\<not> emergency_stop_engaged ctx \<Longrightarrow> require_arm p r ctx = Inr u \<longleftrightarrow> arm_authorises p r ctx"
  by (auto simp: require_arm_def uncovered_by_arm_scope_def Let_def arm_authorises_def)

lemma require_permissions_Inr:
  "require_permissions p r ctx = Inr u \<longleftrightarrow>
     (\<forall>c \<in> required_capabilities p.
        permissions_cover (permissions ctx) c (request_target r) (now ctx))"
  by (auto simp: require_permissions_def Let_def)

lemma approval_check_Inr:
  "approval_check c q r ctx a = Inr u \<longleftrightarrow>
     \<not> approval_is_expired a (now ctx) \<and> approval_capability a = c \<and>
     target_covers (approval_target a) (request_target r) \<and>
     (exact_target_required q \<longrightarrow> approval_target a = request_target r) \<and>
     (single_use_required q \<longrightarrow> single_use a) \<and>
     (human_issuer_required q \<longrightarrow> issuer a = HUMAN_OPERATOR) \<and>
     (\<forall>sc. context_arm_scope ctx = Some sc \<longrightarrow> target_covers (scope_target sc) (approval_target a))"
  by (auto simp: approval_check_def exactly_matches_def approval_covers_def split: option.splits)

lemma approval_check_Inl:
  "approval_check c q r ctx a = Inl e \<Longrightarrow>
     e \<in> {SafetyApprovalExpiredError, SafetyApprovalError, SafetyScopeError}"
  by (auto simp: approval_check_def split: if_splits option.splits)

lemma consume_check_Inl:
  "store_consume i (Some (approval_check c q r ctx)) d = (Inl e, d') \<Longrightarrow>
     e \<in> {SafetyApprovalExpiredError, SafetyApprovalError, SafetyApprovalReusedError,
       SafetyScopeError}"
  using approval_check_Inl
  by (force simp: store_consume_def exec_simps split: option.splits sum.splits if_splits)

lemma require_approval_Inr:
  "require_approval pol p r ctx d = (Inr u, d') \<longleftrightarrow>
     (if required (approval_requirement pol (effect_risk p))
      then \<exists>a i. approval_authorises (approval_requirement pol (effect_risk p)) p r ctx d a \<and>
        request_approval_id r = Some i \<and>
        d' = (if single_use a then AList.update i \<lparr>stored = a, consumed = True\<rparr> d else d)
      else d' = d)"
proof (cases "request_approval_id r")
  case None
  then show ?thesis
    by (auto simp: require_approval_def Let_def exec_simps approval_authorises_def)
next
  case (Some i)
  let ?q = "approval_requirement pol (effect_risk p)"
  let ?f = "approval_check (effect_capability p) ?q r ctx"
  have "require_approval pol p r ctx d = (Inr u, d') \<longleftrightarrow>
      (if required ?q then \<exists>a. store_consume i (Some ?f) d = (Inr a, d') else d' = d)"
    by (auto simp: require_approval_def Let_def exec_simps Some split: sum.splits prod.splits)
  then show ?thesis
    by (simp add: store_consume_Inr approval_check_Inr approval_authorises_def Some)
qed

lemma approval_refusal_denies:
  "e \<in> {SafetyApprovalExpiredError, SafetyApprovalError, SafetyApprovalReusedError,
     SafetyScopeError} \<Longrightarrow>
   \<exists>v. approval_refusal p e = Refusal v \<and> denied v \<and> reason_code v \<noteq> POLICY_FAILURE"
  by (auto simp: approval_refusal_def)

lemma require_approval_Inl:
  assumes "require_approval pol p r ctx d = (Inl e, d')"
  shows "d' = d" and "\<exists>v. e = Refusal v \<and> denied v \<and> reason_code v \<noteq> POLICY_FAILURE"
proof -
  have "d' = d \<and> (\<exists>v. e = Refusal v \<and> denied v \<and> reason_code v \<noteq> POLICY_FAILURE)"
  proof (cases "request_approval_id r")
    case None
    with assms show ?thesis
      by (auto simp: require_approval_def Let_def exec_simps split: if_splits)
  next
    case (Some i)
    with assms obtain e' where
      c: "store_consume i (Some (approval_check (effect_capability p)
            (approval_requirement pol (effect_risk p)) r ctx)) d = (Inl e', d')"
      and e: "e = approval_refusal p e'"
      by (auto simp: require_approval_def Let_def exec_simps split: if_splits sum.splits prod.splits)
    from approval_refusal_denies [OF consume_check_Inl [OF c]] e store_consume_Inl [OF c]
    show ?thesis by simp
  qed
  then show "d' = d" and "\<exists>v. e = Refusal v \<and> denied v \<and> reason_code v \<noteq> POLICY_FAILURE"
    by auto
qed

lemma decide_chain_Inr:
  "decide_chain pol r ctx d = (Inr v, d') \<longleftrightarrow>
     (\<exists>p. operation_policy (request_class r) = Inr p \<and> v = allow (effect_risk p) \<and>
        (requires_arm p \<longrightarrow> arm_authorises p r ctx) \<and>
        require_permissions p r ctx = Inr () \<and>
        (if is_dangerous (effect_risk p) then require_approval pol p r ctx d = (Inr (), d')
         else d' = d))"
proof (cases "operation_policy (request_class r)")
  case (Inl e)
  with operation_policy_Inl [OF Inl] show ?thesis
    by (simp add: decide_chain_def policy_of_request_def exec_simps)
next
  case (Inr p)
  have arm: "\<not> emergency_stop_engaged ctx \<and> require_arm p r ctx = Inr () \<longleftrightarrow> arm_authorises p r ctx"
    using require_arm_Inr [of ctx p r "()"] by (auto simp: arm_authorises_def)
  show ?thesis
    by (cases "emergency_stop_engaged ctx"; cases "require_arm p r ctx";
        cases "require_permissions p r ctx")
       (auto simp: decide_chain_def policy_of_request_def exec_simps Inr arm [symmetric]
          split: sum.splits prod.splits)
qed

lemma decide_chain_Inl:
  assumes "decide_chain pol r ctx d = (Inl e, d')"
  shows "d' = d \<and> (\<exists>v. e = Refusal v \<and> denied v \<and> reason_code v \<noteq> POLICY_FAILURE)"
proof (cases "operation_policy (request_class r)")
  case (Inl e')
  with operation_policy_Inl [OF Inl] assms show ?thesis
    by (auto simp: decide_chain_def policy_of_request_def exec_simps)
next
  case (Inr p)
  have arm: "require_arm p r ctx = Inl e1 \<Longrightarrow>
      \<exists>v. e1 = Refusal v \<and> denied v \<and> reason_code v \<noteq> POLICY_FAILURE" for e1
    by (auto simp: require_arm_def Let_def split: if_splits)
  have perm: "require_permissions p r ctx = Inl e1 \<Longrightarrow>
      \<exists>v. e1 = Refusal v \<and> denied v \<and> reason_code v \<noteq> POLICY_FAILURE" for e1
    by (auto simp: require_permissions_def Let_def split: if_splits)
  from assms show ?thesis
    by (auto simp: decide_chain_def policy_of_request_def exec_simps Inr
          split: sum.splits prod.splits if_splits
          dest: arm perm require_approval_Inl)
qed

lemma decide_cases:
  obtains (allows) p where "operation_policy (request_class r) = Inr p"
      "fst (decide pol r ctx d) = allow (effect_risk p)"
      "decide_chain pol r ctx d = (Inr (allow (effect_risk p)), snd (decide pol r ctx d))"
  | (denies) "denied (fst (decide pol r ctx d))" "snd (decide pol r ctx d) = d"
      "reason_code (fst (decide pol r ctx d)) \<noteq> POLICY_FAILURE"
proof (cases "decide_chain pol r ctx d")
  case (Pair res d')
  show thesis
  proof (cases res)
    case (Inl e)
    with decide_chain_Inl [of pol r ctx d e d'] Pair show thesis
      by (intro denies) (auto simp: decide_def)
  next
    case (Inr v)
    with Pair have c: "decide_chain pol r ctx d = (Inr v, d')" by simp
    then obtain p where "operation_policy (request_class r) = Inr p" "v = allow (effect_risk p)"
      by (auto simp: decide_chain_Inr)
    with c show thesis by (intro allows) (auto simp: decide_def)
  qed
qed

lemma denied_not_allowed: "denied v \<longleftrightarrow> \<not> allowed v"
  by (cases "outcome v") (auto simp: denied_def allowed_def)

lemma require_approval_ok:
  "(\<exists>d'. require_approval pol p r ctx d = (Inr (), d')) \<longleftrightarrow>
     (required (approval_requirement pol (effect_risk p)) \<longrightarrow>
        (\<exists>a. approval_authorises (approval_requirement pol (effect_risk p)) p r ctx d a))"
proof -
  have "approval_authorises q p r ctx d a \<Longrightarrow> \<exists>i. request_approval_id r = Some i" for q a
    by (auto simp: approval_authorises_def)
  then show ?thesis
    by (cases "required (approval_requirement pol (effect_risk p))")
       (simp_all add: require_approval_Inr, blast)
qed

lemma decide_chain_authorised:
  "(\<exists>v d'. decide_chain pol r ctx d = (Inr v, d')) \<longleftrightarrow> authorised pol r ctx d"
proof -
  have app: "(\<exists>d'. if is_dangerous (effect_risk p) then require_approval pol p r ctx d = (Inr (), d')
      else d' = d) \<longleftrightarrow>
    (is_dangerous (effect_risk p) \<and> required (approval_requirement pol (effect_risk p)) \<longrightarrow>
      (\<exists>a. approval_authorises (approval_requirement pol (effect_risk p)) p r ctx d a))" for p
    using require_approval_ok [of pol p r ctx d] by (cases "is_dangerous (effect_risk p)") simp_all
  show ?thesis
  proof (cases "operation_policy (request_class r)")
    case (Inl e)
    then show ?thesis by (simp add: decide_chain_Inr authorised_def)
  next
    case (Inr p)
    let ?perm = "\<forall>c \<in> required_capabilities p.
      permissions_cover (permissions ctx) c (request_target r) (now ctx)"
    have "(\<exists>v d'. decide_chain pol r ctx d = (Inr v, d')) \<longleftrightarrow>
        (requires_arm p \<longrightarrow> arm_authorises p r ctx) \<and> ?perm \<and>
        (\<exists>d'. if is_dangerous (effect_risk p) then require_approval pol p r ctx d = (Inr (), d')
           else d' = d)"
      unfolding decide_chain_Inr Inr require_permissions_Inr by (simp add: ex_simps del: if_split)
    then show ?thesis
      unfolding app requires_arm_iff [OF Inr] authorised_def Inr by simp
  qed
qed

lemma decide_store_cases:
  obtains (kept) "snd (decide pol r ctx d) = d"
  | (spent) i a where "request_approval_id r = Some i"
      "map_of d i = Some \<lparr>stored = a, consumed = False\<rparr>" "single_use a"
      "snd (decide pol r ctx d) = AList.update i \<lparr>stored = a, consumed = True\<rparr> d"
      "allowed (fst (decide pol r ctx d))"
proof (cases rule: decide_cases [of r pol ctx d])
  case (allows p)
  show thesis
  proof (cases "is_dangerous (effect_risk p) \<and> required (approval_requirement pol (effect_risk p))")
    case False
    with allows have "snd (decide pol r ctx d) = d"
      by (auto simp: decide_chain_Inr require_approval_Inr split: if_splits)
    then show thesis by (rule kept)
  next
    case True
    with allows obtain a i where
      auth: "approval_authorises (approval_requirement pol (effect_risk p)) p r ctx d a"
      and i: "request_approval_id r = Some i"
      and st: "snd (decide pol r ctx d) =
        (if single_use a then AList.update i \<lparr>stored = a, consumed = True\<rparr> d else d)"
      by (auto simp: decide_chain_Inr require_approval_Inr)
    from auth i have "map_of d i = Some \<lparr>stored = a, consumed = False\<rparr>"
      by (auto simp: approval_authorises_def)
    with i st allows(2) kept spent show thesis by (cases "single_use a") auto
  qed
next
  case denies
  then show thesis using kept by blast
qed

lemma decide_allows: "allowed (fst (decide pol r ctx d)) \<longleftrightarrow> authorised pol r ctx d"
proof (cases rule: decide_cases [of r pol ctx d])
  case (allows p)
  then have "allowed (fst (decide pol r ctx d))" by (simp add: allowed_def allow_def)
  moreover have "authorised pol r ctx d"
    using allows(3) decide_chain_authorised [of pol r ctx d] by blast
  ultimately show ?thesis by simp
next
  case denies
  then have "\<not> allowed (fst (decide pol r ctx d))" by (simp add: denied_not_allowed)
  moreover have "\<not> (\<exists>v d'. decide_chain pol r ctx d = (Inr v, d'))"
  proof
    assume "\<exists>v d'. decide_chain pol r ctx d = (Inr v, d')"
    then obtain v d' where c: "decide_chain pol r ctx d = (Inr v, d')" by blast
    then have "fst (decide pol r ctx d) = v" by (simp add: decide_def)
    moreover from c have "allowed v" by (auto simp: decide_chain_Inr allowed_def allow_def)
    ultimately show False using \<open>\<not> allowed (fst (decide pol r ctx d))\<close> by simp
  qed
  then have "\<not> authorised pol r ctx d" using decide_chain_authorised [of pol r ctx d] by blast
  ultimately show ?thesis by simp
qed

text \<open>
  The stop comes first. While the emergency stop is engaged, every operation that
  needs an armed runtime is refused with the emergency stop as its reason, whatever else
  the caller holds, and no approval is spent on it.
\<close>

theorem emergency_stop_dominates:
  assumes "operation_policy (request_class r) = Inr p" and "requires_arm p"
    and "emergency_stop_engaged ctx"
  shows "let (v, d') = decide pol r ctx d in
    denied v \<and> reason_code v = EMERGENCY_STOP \<and> d' = d"
  using assms
  by (simp add: decide_def decide_chain_def policy_of_request_def exec_simps deny_def denied_def)

theorem emergency_stop_dominates_witness:
  "denied (fst (decide (\<lambda>_. Some NO_APPROVAL)
     \<lparr>operation_id = ''op'', request_class = ''bus.replay'',
      request_caller = \<lparr>kind = HUMAN_UI, caller_id = ''u''\<rparr>,
      request_target = \<lparr>device_id = None, channel = None, target_address = None\<rparr>,
      requested_at = Fin 0, request_approval_id = None, parameters_digest = None\<rparr>
     \<lparr>now = Fin 0, context_arm_state = ARMED, context_arm_scope = None, permissions = [],
      emergency_stop_engaged = True\<rparr> []))"
  using emergency_stop_dominates [where p = "\<lparr>op_class = BUS_REPLAY, effect_risk = TX,
      required_capabilities = {CAN_TX}\<rparr>" and pol = "\<lambda>_. Some NO_APPROVAL" and d = "[]" and
      r = "\<lparr>operation_id = ''op'', request_class = ''bus.replay'',
      request_caller = \<lparr>kind = HUMAN_UI, caller_id = ''u''\<rparr>,
      request_target = \<lparr>device_id = None, channel = None, target_address = None\<rparr>,
      requested_at = Fin 0, request_approval_id = None, parameters_digest = None\<rparr>" and
      ctx = "\<lparr>now = Fin 0, context_arm_state = ARMED, context_arm_scope = None, permissions = [],
      emergency_stop_engaged = True\<rparr>"]
  by (simp add: operation_policy_def operation_class_of_def all_operation_classes_def
      policy_row_def operation_policy_post_init_def requires_arm_def Let_def split: prod.splits)

text \<open>
  A verdict touches nothing but the approval it spends. Whatever the policy, request,
  context and store, \<open>decide\<close> never falls into its policy-failure branch, a refusal leaves
  the store as it is, and a permission changes at most the approval the request names, from
  unspent to consumed, and only a single-use one.
\<close>

theorem decide_spends_only_the_named_approval:
  "case decide pol r ctx d of (v, d') \<Rightarrow>
     reason_code v \<noteq> POLICY_FAILURE \<and>
     (d' = d \<or> allowed v \<and> (\<exists>i a. request_approval_id r = Some i \<and> single_use a \<and>
        map_of d i = Some \<lparr>stored = a, consumed = False\<rparr> \<and>
        d' = AList.update i \<lparr>stored = a, consumed = True\<rparr> d))"
proof -
  have "reason_code (fst (decide pol r ctx d)) \<noteq> POLICY_FAILURE"
    by (cases rule: decide_cases [of r pol ctx d]) (auto simp: allow_def)
  then show ?thesis
    by (cases rule: decide_store_cases [of pol r ctx d]) (auto simp: case_prod_beta)
qed

end
