(* ===== verification/Safety_Audit.thy ===== *)
theory Safety_Audit
  imports Decision
begin

text \<open>
  The audit contract of \<open>canx/safety/audit.py\<close>: reason digests, the event and the checks of
  its constructor, and the bounded in-memory trail.
\<close>

definition DEFAULT_AUDIT_CAPACITY :: nat where
  "DEFAULT_AUDIT_CAPACITY = 4096"

definition digest_reason :: "pystr \<Rightarrow> exn + string" where
  "digest_reason reason = rbind (utf8_encode reason) (\<lambda>bytes. Inr (sha256_hexdigest bytes))"

definition digest_reason_best_effort :: "pystr \<Rightarrow> string option" where
  "digest_reason_best_effort reason =
     (case digest_reason reason of Inl _ \<Rightarrow> None | Inr d \<Rightarrow> Some d)"

record audit_event =
  event_id :: string
  recorded_at :: pyfloat
  ev_caller_kind :: string
  ev_caller_id :: string
  ev_operation_id :: string
  ev_operation_class :: string
  ev_risk_level :: "int option"
  ev_device_id :: "string option"
  ev_channel :: "string option"
  ev_target_address :: "int option"
  ev_decision :: string
  ev_reason_code :: string
  ev_message :: string
  ev_detail :: "string option"
  ev_approval_id :: "string option"
  ev_parameters_digest :: "string option"
  ev_reason_digest :: "string option"
  ev_arm_state :: string
  ev_arm_scope_expired :: "bool option"
  ev_emergency_stop_engaged :: bool
  ev_outcome :: string

text \<open>The vocabulary fields and the reference fields, in the order they are checked.\<close>

definition event_vocabulary :: "audit_event \<Rightarrow> (string \<times> string) list" where
  "event_vocabulary e =
     [(ev_caller_kind e, ''caller kind''), (ev_operation_class e, ''operation class''),
      (ev_decision e, ''decision''), (ev_reason_code e, ''reason code''),
      (ev_arm_state e, ''arm state''), (ev_outcome e, ''outcome'')]"

definition event_identifiers :: "audit_event \<Rightarrow> (string \<times> identifier_type) list" where
  "event_identifiers e =
     [(event_id e, AuditEventId), (ev_caller_id e, CallerId), (ev_operation_id e, OperationId)]"

definition event_optional_identifiers :: "audit_event \<Rightarrow> (string option \<times> identifier_type) list"
where
  "event_optional_identifiers e =
     [(ev_approval_id e, ApprovalId), (ev_device_id e, DeviceId), (ev_channel e, ChannelId)]"

definition audit_event_post_init :: "audit_event \<Rightarrow> exn + audit_event" where
  "audit_event_post_init e =
     rbind (guard (isfinite (recorded_at e)) (SafetyIdentifierError ''recorded_at'')) (\<lambda>_.
     rbind (rmap (\<lambda>(v, role). validate_audit_identifier (StrValue v) role) (event_vocabulary e)) (\<lambda>_.
     rbind (rmap (\<lambda>(v, ty). new_identifier ty (StrValue v)) (event_identifiers e)) (\<lambda>_.
     rbind (rmap (\<lambda>(v, ty). ropt (\<lambda>s. new_identifier ty (StrValue s)) v)
       (event_optional_identifiers e)) (\<lambda>_.
     rbind (ropt (\<lambda>d. validate_sha256_digest (StrValue d) PARAMETERS_DIGEST_ROLE)
       (ev_parameters_digest e)) (\<lambda>_.
     rbind (ropt (\<lambda>d. validate_sha256_digest (StrValue d) REASON_DIGEST_ROLE)
       (ev_reason_digest e)) (\<lambda>_. Inr e))))))"

section \<open>The in-memory trail\<close>

record memory_sink =
  sink_capacity :: nat
  sink_events :: "audit_event list"
  sink_dropped :: nat

definition new_memory_sink :: "int \<Rightarrow> exn + memory_sink" where
  "new_memory_sink capacity =
     (if capacity \<le> 0 then Inl (Foreign ''ValueError'')
      else Inr \<lparr>sink_capacity = nat capacity, sink_events = [], sink_dropped = 0\<rparr>)"

text \<open>\<open>deque(maxlen=n).append\<close> evicts from the front when the deque is full.\<close>

definition deque_append :: "nat \<Rightarrow> 'a \<Rightarrow> 'a list \<Rightarrow> 'a list" where
  "deque_append n x xs = (if length xs = n then tl xs @ [x] else xs @ [x])"

definition sink_record :: "audit_event \<Rightarrow> memory_sink \<Rightarrow> memory_sink" where
  "sink_record e s =
     (let s' = (if length (sink_events s) = sink_capacity s
                then s\<lparr>sink_dropped := Suc (sink_dropped s)\<rparr> else s)
      in s'\<lparr>sink_events := deque_append (sink_capacity s') e (sink_events s')\<rparr>)"

definition sink_ok :: "memory_sink \<Rightarrow> bool" where
  "sink_ok s \<longleftrightarrow> 0 < sink_capacity s \<and> length (sink_events s) \<le> sink_capacity s"

section \<open>Lemmas\<close>

text \<open>What an event that exists satisfies: no field holds free text but the kernel's own.\<close>

definition well_formed_event :: "audit_event \<Rightarrow> bool" where
  "well_formed_event e \<longleftrightarrow>
     isfinite (recorded_at e) \<and>
     list_all identifier_ok
       [ev_caller_kind e, ev_operation_class e, ev_decision e, ev_reason_code e, ev_arm_state e,
        ev_outcome e, event_id e, ev_caller_id e, ev_operation_id e] \<and>
     list_all (pred_option identifier_ok) [ev_approval_id e, ev_device_id e, ev_channel e] \<and>
     pred_option digest_ok (ev_parameters_digest e) \<and> pred_option digest_ok (ev_reason_digest e)"

lemma rmap_Inr_simps [simp]:
  "rmap f [] = Inr ys \<longleftrightarrow> ys = []"
  "rmap f (x # xs) = Inr ys \<longleftrightarrow> (\<exists>y zs. f x = Inr y \<and> rmap f xs = Inr zs \<and> ys = y # zs)"
  by (auto simp: rbind_Inr_iff)

lemma if_Inr [simp]: "(if b then Inr x else Inl e) = Inr y \<longleftrightarrow> b \<and> y = x"
  by auto

lemma audit_event_post_init_Inr:
  "audit_event_post_init e = Inr e' \<longleftrightarrow> e' = e \<and> well_formed_event e"
  by (auto simp: audit_event_post_init_def rbind_Inr_iff event_vocabulary_def
        event_identifiers_def event_optional_identifiers_def well_formed_event_def
        simp del: rmap.simps)

lemma digest_reason_ok: "digest_reason r = Inr d \<Longrightarrow> digest_ok d"
  by (auto simp: digest_reason_def rbind_Inr_iff sha256_hexdigest_ok)

lemma digest_reason_Inl: "digest_reason r = Inl e \<Longrightarrow> e = Foreign ''UnicodeEncodeError''"
  by (auto simp: digest_reason_def rbind_Inl_iff dest: utf8_encode_Inl)

lemma digest_reason_Inr_iff:
  "(\<exists>d. digest_reason r = Inr d) \<longleftrightarrow> list_all (\<lambda>c. \<not> is_surrogate c) r"
  using utf8_encode_ok [of r] by (auto simp: digest_reason_def rbind_Inr_iff)

lemma best_effort_ok [simp]: "pred_option digest_ok (digest_reason_best_effort r)"
  by (auto simp: digest_reason_best_effort_def dest: digest_reason_ok split: sum.splits)

lemma new_memory_sink_ok: "new_memory_sink n = Inr s \<Longrightarrow> sink_ok s"
  by (auto simp: new_memory_sink_def sink_ok_def split: if_splits)

interpretation audit_trail:
  drop_oldest sink_record sink_events sink_capacity sink_dropped "\<lambda>_. 1" sink_ok
  by unfold_locales
     (auto simp: sink_ok_def sink_record_def deque_append_def Let_def Suc_le_eq)

text \<open>
  The in-memory trail loses only its oldest events, and counts them. After recording
  any events into a well-formed sink it holds the most recent ones, in order, as many as
  its capacity, and the number dropped plus the number held is the number recorded.
\<close>

theorem memory_sink_keeps_the_newest:
  assumes "sink_ok s"
  shows "sink_events (fold sink_record es s)
      = drop (length (sink_events s) + length es - sink_capacity s) (sink_events s @ es) \<and>
    sink_dropped (fold sink_record es s) + length (sink_events (fold sink_record es s))
      = sink_dropped s + length (sink_events s) + length es"
  using audit_trail.push_all_contents [OF assms] audit_trail.push_all_conserves [OF assms, of es]
  by (simp add: map_replicate_const sum_list_replicate)

theorem memory_sink_keeps_the_newest_witness:
  "\<forall>a b c. let s = fold sink_record [a, b, c] \<lparr>sink_capacity = 2, sink_events = [], sink_dropped = 0\<rparr>
     in sink_events s = [b, c] \<and> sink_dropped s = 1"
proof (intro allI)
  fix a b c
  let ?s = "\<lparr>sink_capacity = 2, sink_events = [], sink_dropped = 0\<rparr>"
  have "sink_ok ?s" by (simp add: sink_ok_def)
  note kept = memory_sink_keeps_the_newest [OF this, of "[a, b, c]"]
  have "sink_events (fold sink_record [a, b, c] ?s) = [b, c]" using conjunct1 [OF kept] by simp
  moreover from this have "sink_dropped (fold sink_record [a, b, c] ?s) = 1"
    using conjunct2 [OF kept] by simp
  ultimately show "let s = fold sink_record [a, b, c] ?s in sink_events s = [b, c] \<and> sink_dropped s = 1"
    by (simp add: Let_def)
qed

text \<open>
  No reason text reaches the trail. The digest of a reason is 64 hexadecimal digits for
  every text that can be encoded, the only failure is the encoding error of a lone
  surrogate, and the best-effort variant used by the emergency stop turns it into no digest.
\<close>

theorem reason_digest_reveals_no_text:
  "(case digest_reason r of
      Inr d \<Rightarrow> digest_ok d \<and> list_all (\<lambda>c. \<not> is_surrogate c) r \<and> digest_reason_best_effort r = Some d
    | Inl e \<Rightarrow> e = Foreign ''UnicodeEncodeError'' \<and> list_ex is_surrogate r \<and>
        digest_reason_best_effort r = None)"
proof (cases "digest_reason r")
  case (Inl e)
  then have "\<not> list_all (\<lambda>c. \<not> is_surrogate c) r" using digest_reason_Inr_iff [of r] by auto
  with Inl show ?thesis
    by (simp add: digest_reason_Inl digest_reason_best_effort_def list_ex_iff list_all_iff)
next
  case (Inr d)
  then have "list_all (\<lambda>c. \<not> is_surrogate c) r" using digest_reason_Inr_iff [of r] by auto
  with Inr show ?thesis by (simp add: digest_reason_ok digest_reason_best_effort_def)
qed

end
