(* ===== verification/Emergency.thy ===== *)
theory Emergency
  imports Safety_Audit Arm
begin

text \<open>
  The emergency stop of \<open>canx/safety/emergency.py\<close>. A canceller is code of another
  subsystem: a function from the number of the fan-out and the digest it is handed to its
  answer. The disarm hook is an action on the state that owns the controller.
\<close>

datatype cancel_answer =
    Raises string
  | BareText
  | NotIterable
  | Answers "pyvalue list"

type_synonym canceller = "nat \<Rightarrow> string option \<Rightarrow> cancel_answer"

datatype cancellation_failure_code =
  CANCELLER_RAISED | CANCELLER_INVALID_REFERENCE | CANCELLER_CONTRACT_VIOLATION

fun cancellation_failure_code_value :: "cancellation_failure_code \<Rightarrow> string" where
  "cancellation_failure_code_value CANCELLER_RAISED = ''canceller.raised''"
| "cancellation_failure_code_value CANCELLER_INVALID_REFERENCE = ''canceller.invalid_reference''"
| "cancellation_failure_code_value CANCELLER_CONTRACT_VIOLATION = ''canceller.contract_violation''"

record cancellation_failure =
  failure_canceller :: string
  failure_code :: cancellation_failure_code
  failure_type :: "string option"

definition cancellation_failure_post_init :: "cancellation_failure \<Rightarrow> exn + cancellation_failure"
where
  "cancellation_failure_post_init f =
     rbind (new_identifier CancellerId (StrValue (failure_canceller f))) (\<lambda>c.
     rbind (ropt (\<lambda>t. validate_audit_identifier (StrValue t) ''cancellation failure type'')
       (failure_type f)) (\<lambda>_. Inr (f\<lparr>failure_canceller := c\<rparr>)))"

record emergency_stop_state =
  engaged :: bool
  engaged_at :: "pyfloat option"
  stop_reason_digest :: "string option"
  requested_cancellations :: "string list"
  cancellation_failures :: "cancellation_failure list"

definition emergency_stop_state_post_init ::
    "emergency_stop_state \<Rightarrow> exn + emergency_stop_state" where
  "emergency_stop_state_post_init s =
     rbind (guard (pred_option isfinite (engaged_at s)) (SafetyIdentifierError ''engaged_at'')) (\<lambda>_.
     rbind (ropt (\<lambda>d. validate_sha256_digest (StrValue d) REASON_DIGEST_ROLE)
       (stop_reason_digest s)) (\<lambda>_.
     rbind (rmap (\<lambda>v. new_identifier OperationId (StrValue v)) (requested_cancellations s)) (\<lambda>ids.
     Inr (s\<lparr>requested_cancellations := ids\<rparr>))))"

definition released_state :: emergency_stop_state where
  "released_state = \<lparr>engaged = False, engaged_at = None, stop_reason_digest = None,
     requested_cancellations = [], cancellation_failures = []\<rparr>"

definition describe_failure :: "cancellation_failure \<Rightarrow> json" where
  "describe_failure f = jobj
     [(''canceller_id'', jstr (failure_canceller f)),
      (''failure_code'', jstr (cancellation_failure_code_value (failure_code f))),
      (''failure_type'', jopt jstr (failure_type f))]"

definition describe_stop :: "emergency_stop_state \<Rightarrow> json" where
  "describe_stop s = jobj
     [(''engaged'', JBool (engaged s)), (''engaged_at'', jopt JFloat (engaged_at s)),
      (''reason_digest'', jopt jstr (stop_reason_digest s)),
      (''requested_cancellations'', JList (map jstr (requested_cancellations s))),
      (''cancellation_failures'', JList (map describe_failure (cancellation_failures s)))]"

record emergency_controller = arm_controller +
  stop_state :: emergency_stop_state
  cancellers :: "(string \<times> canceller) list"
  hook_attached :: bool
  fanouts :: nat

section \<open>Operations\<close>

definition attach_disarm :: "('r emergency_controller_scheme, exn, unit) exec" where
  "attach_disarm = put (\<lambda>s. s\<lparr>hook_attached := True\<rparr>)"

definition register_canceller ::
    "string \<Rightarrow> canceller \<Rightarrow> ('r emergency_controller_scheme, exn, unit) exec" where
  "register_canceller i c =
     ebind (lift (new_identifier CancellerId (StrValue i)))
       (\<lambda>v. put (\<lambda>s. s\<lparr>cancellers := cancellers s @ [(v, c)]\<rparr>))"

definition read_engaged_at ::
    "clock \<Rightarrow> ('r clock_world_scheme, exn, pyfloat option) exec" where
  "read_engaged_at clk =
     etry (ebind (read_clock clk) (\<lambda>t. ret (if isfinite t then Some t else None))) (\<lambda>_. ret None)"

definition read_reason_digest :: "string option \<Rightarrow> string option" where
  "read_reason_digest rd =
     (case rd of
        None \<Rightarrow> None
      | Some d \<Rightarrow> (case validate_sha256_digest (StrValue d) REASON_DIGEST_ROLE of
          Inl _ \<Rightarrow> None | Inr v \<Rightarrow> Some v))"

definition identifier_or_none :: "string \<Rightarrow> string option" where
  "identifier_or_none v =
     (case validate_audit_identifier (StrValue v) ''cancellation failure type'' of
        Inl _ \<Rightarrow> None | Inr i \<Rightarrow> Some i)"

definition new_failure ::
    "string \<Rightarrow> cancellation_failure_code \<Rightarrow> string option \<Rightarrow> exn + cancellation_failure" where
  "new_failure c code ty = cancellation_failure_post_init
     \<lparr>failure_canceller = c, failure_code = code, failure_type = ty\<rparr>"

text \<open>One answer after the other: a valid reference is kept, any other is a failure.\<close>

fun sort_answers ::
    "string \<Rightarrow> pyvalue list \<Rightarrow> string list \<times> cancellation_failure list \<Rightarrow>
     exn + string list \<times> cancellation_failure list" where
  "sort_answers c [] acc = Inr acc"
| "sort_answers c (a # as) (ops, fails) =
     (case new_identifier OperationId a of
        Inr i \<Rightarrow> sort_answers c as (ops @ [i], fails)
      | Inl _ \<Rightarrow> rbind (new_failure c CANCELLER_INVALID_REFERENCE (identifier_or_none (type_name a)))
          (\<lambda>f. sort_answers c as (ops, fails @ [f])))"

definition request_cancellation ::
    "nat \<Rightarrow> string option \<Rightarrow> string \<times> canceller \<Rightarrow> string list \<times> cancellation_failure list \<Rightarrow>
     exn + string list \<times> cancellation_failure list" where
  "request_cancellation n digest entry acc =
     (case entry of (c, cancel) \<Rightarrow> case acc of (ops, fails) \<Rightarrow>
      (case cancel n digest of
         Raises ty \<Rightarrow> rbind (new_failure c CANCELLER_RAISED (identifier_or_none ty))
           (\<lambda>f. Inr (ops, fails @ [f]))
       | BareText \<Rightarrow> rbind (new_failure c CANCELLER_CONTRACT_VIOLATION None)
           (\<lambda>f. Inr (ops, fails @ [f]))
       | NotIterable \<Rightarrow> rbind (new_failure c CANCELLER_CONTRACT_VIOLATION None)
           (\<lambda>f. Inr (ops, fails @ [f]))
       | Answers as \<Rightarrow> sort_answers c as acc))"

fun fan_out ::
    "nat \<Rightarrow> string option \<Rightarrow> (string \<times> canceller) list \<Rightarrow>
     string list \<times> cancellation_failure list \<Rightarrow>
     exn + string list \<times> cancellation_failure list" where
  "fan_out n digest [] acc = Inr acc"
| "fan_out n digest (e # es) acc =
     rbind (request_cancellation n digest e acc) (fan_out n digest es)"

definition engage_first ::
    "clock \<Rightarrow> string option \<Rightarrow> ('r emergency_controller_scheme, exn, unit) exec" where
  "engage_first clk digest = (\<lambda>s.
     if \<not> engaged (stop_state s) then
       ebind (read_engaged_at clk) (\<lambda>tm.
       ebind (lift (emergency_stop_state_post_init
         \<lparr>engaged = True, engaged_at = tm, stop_reason_digest = digest,
          requested_cancellations = [], cancellation_failures = []\<rparr>))
         (\<lambda>st. put (\<lambda>s. s\<lparr>stop_state := st\<rparr>))) s
     else ret () s)"

definition engage ::
    "clock \<Rightarrow> ('r emergency_controller_scheme, exn, unit) exec \<Rightarrow> string option \<Rightarrow>
     ('r emergency_controller_scheme, exn, emergency_stop_state) exec" where
  "engage clk hook rd =
     (let digest = read_reason_digest rd in
      eseq (engage_first clk digest)
     (ebind (get (\<lambda>s. (hook_attached s, cancellers s, fanouts s))) (\<lambda>(attached, cs, n).
      eseq (if attached then hook else ret ())
     (ebind (lift (fan_out n digest cs ([], []))) (\<lambda>(ops, fails).
      eseq (put (\<lambda>s. s\<lparr>fanouts := Suc (fanouts s)\<rparr>))
     (ebind (get stop_state) (\<lambda>st.
      ebind (lift (emergency_stop_state_post_init
        (st\<lparr>requested_cancellations := ops, cancellation_failures := fails\<rparr>))) (\<lambda>st'.
      eseq (put (\<lambda>s. s\<lparr>stop_state := st'\<rparr>)) (ret st')))))))))"

definition require_release_authority :: "caller_identity \<Rightarrow> exn + unit" where
  "require_release_authority c = guard (may_release_emergency_stop c) SafetyCallerError"

definition reset ::
    "caller_identity \<Rightarrow> ('r emergency_controller_scheme, exn, emergency_stop_state) exec" where
  "reset c =
     eseq (lift (require_release_authority c))
    (ebind (lift (emergency_stop_state_post_init released_state)) (\<lambda>st.
     eseq (put (\<lambda>s. s\<lparr>stop_state := st\<rparr>)) (ret st)))"

definition restore_engagement ::
    "emergency_stop_state \<Rightarrow> ('r emergency_controller_scheme, exn, emergency_stop_state) exec" where
  "restore_engagement st =
     (if \<not> engaged st then throw (SafetyStateError ''engaged'' ''False'')
      else eseq (put (\<lambda>s. s\<lparr>stop_state := st\<rparr>)) (ret st))"

section \<open>Lemmas\<close>

definition stop_state_ok :: "emergency_stop_state \<Rightarrow> bool" where
  "stop_state_ok s \<longleftrightarrow> pred_option isfinite (engaged_at s) \<and>
     pred_option digest_ok (stop_reason_digest s) \<and>
     list_all identifier_ok (requested_cancellations s) \<and>
     list_all (\<lambda>f. identifier_ok (failure_canceller f) \<and> pred_option identifier_ok (failure_type f))
       (cancellation_failures s)"

definition failures_ok :: "cancellation_failure list \<Rightarrow> bool" where
  "failures_ok fs \<longleftrightarrow> list_all
     (\<lambda>f. identifier_ok (failure_canceller f) \<and> pred_option identifier_ok (failure_type f)) fs"

definition cancellers_ok :: "(string \<times> canceller) list \<Rightarrow> bool" where
  "cancellers_ok cs \<longleftrightarrow> list_all (\<lambda>e. identifier_ok (fst e)) cs"

lemma rmap_check [simp]:
  "rmap (\<lambda>v. if P v then Inr v else Inl (e v)) xs = Inr ys \<longleftrightarrow> ys = xs \<and> list_all P xs"
  by (induction xs arbitrary: ys) (auto simp: rbind_Inr_iff simp del: rmap.simps)

lemma read_reason_digest_ok [simp]: "pred_option digest_ok (read_reason_digest rd)"
  by (cases rd) (auto simp: read_reason_digest_def)

lemma read_reason_digest_id: "pred_option digest_ok rd \<Longrightarrow> read_reason_digest rd = rd"
  by (cases rd) (auto simp: read_reason_digest_def)

lemma identifier_or_none_ok [simp]: "pred_option identifier_ok (identifier_or_none v)"
  by (auto simp: identifier_or_none_def)

lemma new_failure_Inr:
  "identifier_ok c \<Longrightarrow> pred_option identifier_ok ty \<Longrightarrow>
     new_failure c code ty = Inr \<lparr>failure_canceller = c, failure_code = code, failure_type = ty\<rparr>"
  by (cases ty) (auto simp: new_failure_def cancellation_failure_post_init_def)

lemma post_init_stop_Inr:
  "emergency_stop_state_post_init s = Inr s' \<longleftrightarrow>
     s' = s \<and> pred_option isfinite (engaged_at s) \<and> pred_option digest_ok (stop_reason_digest s) \<and>
     list_all identifier_ok (requested_cancellations s)"
  by (auto simp: emergency_stop_state_post_init_def rbind_Inr_iff)

text \<open>The fan-out never raises, and everything it collects is well formed.\<close>

lemma sort_answers_ok:
  "identifier_ok c \<Longrightarrow> list_all identifier_ok ops \<Longrightarrow> failures_ok fails \<Longrightarrow>
     \<exists>ops' fails'. sort_answers c as (ops, fails) = Inr (ops', fails') \<and>
       list_all identifier_ok ops' \<and> failures_ok fails' \<and>
       length ops' + length fails' = length ops + length fails + length as"
proof (induction as arbitrary: ops fails)
  case Nil
  then show ?case by simp
next
  case (Cons a as)
  show ?case
  proof (cases "new_identifier OperationId a")
    case (Inl e)
    let ?f = "\<lparr>failure_canceller = c, failure_code = CANCELLER_INVALID_REFERENCE,
      failure_type = identifier_or_none (type_name a)\<rparr>"
    have "failures_ok (fails @ [?f])" using Cons.prems by (simp add: failures_ok_def)
    from Cons.IH [OF Cons.prems(1,2) this] Inl Cons.prems show ?thesis
      by (auto simp: new_failure_Inr)
  next
    case (Inr i)
    then have "identifier_ok i" by (auto simp: new_identifier_def)
    with Cons.prems have "list_all identifier_ok (ops @ [i])" by simp
    from Cons.IH [OF Cons.prems(1) this Cons.prems(3)] Inr show ?thesis by auto
  qed
qed

lemma request_cancellation_ok:
  assumes "identifier_ok (fst e)" "list_all identifier_ok ops" "failures_ok fails"
  shows "\<exists>ops' fails'. request_cancellation n digest e (ops, fails) = Inr (ops', fails') \<and>
    list_all identifier_ok ops' \<and> failures_ok fails'"
proof (cases e)
  case (Pair c cancel)
  show ?thesis
  proof (cases "cancel n digest")
    case (Answers as)
    with Pair sort_answers_ok [of c ops fails as] assms show ?thesis
      by (auto simp: request_cancellation_def)
  qed (use Pair assms in \<open>simp_all add: request_cancellation_def new_failure_Inr failures_ok_def\<close>)
qed

lemma fan_out_ok:
  "cancellers_ok cs \<Longrightarrow> list_all identifier_ok ops \<Longrightarrow> failures_ok fails \<Longrightarrow>
     \<exists>ops' fails'. fan_out n digest cs (ops, fails) = Inr (ops', fails') \<and>
       list_all identifier_ok ops' \<and> failures_ok fails'"
proof (induction cs arbitrary: ops fails)
  case Nil
  then show ?case by simp
next
  case (Cons e es)
  from Cons.prems have "identifier_ok (fst e)" by (simp add: cancellers_ok_def)
  from request_cancellation_ok [OF this Cons.prems(2,3), of n digest]
  obtain ops' fails' where "request_cancellation n digest e (ops, fails) = Inr (ops', fails')"
    and ok: "list_all identifier_ok ops'" "failures_ok fails'" by auto
  moreover from Cons.prems have "cancellers_ok es" by (simp add: cancellers_ok_def)
  from Cons.IH [OF this ok] obtain ops'' fails'' where
    "fan_out n digest es (ops', fails') = Inr (ops'', fails'')"
    "list_all identifier_ok ops''" "failures_ok fails''" by auto
  ultimately show ?case by simp
qed

lemma read_engaged_at_total:
  "\<exists>tm. read_engaged_at clk s = (Inr tm, s\<lparr>ticks := Suc (ticks s)\<rparr>) \<and> pred_option isfinite tm"
  by (cases "clk (ticks s)") (auto simp: read_engaged_at_def exec_simps frame_simps)

lemma engage_first_total:
  assumes "pred_option digest_ok digest" and "stop_state_ok (stop_state s)"
  shows "\<exists>n st. engage_first clk digest s = (Inr (), s\<lparr>ticks := n, stop_state := st\<rparr>) \<and>
    engaged st \<and> stop_state_ok st \<and>
    (engaged (stop_state s) \<longrightarrow> st = stop_state s) \<and>
    (\<not> engaged (stop_state s) \<longrightarrow> stop_reason_digest st = digest)"
proof (cases "engaged (stop_state s)")
  case True
  then have "engage_first clk digest s
      = (Inr (), s\<lparr>ticks := ticks s, stop_state := stop_state s\<rparr>)"
    by (simp add: engage_first_def exec_simps)
  with True assms show ?thesis by blast
next
  case False
  from read_engaged_at_total [of clk s] obtain tm where
    tm: "read_engaged_at clk s = (Inr tm, s\<lparr>ticks := Suc (ticks s)\<rparr>)" "pred_option isfinite tm"
    by blast
  let ?st = "\<lparr>engaged = True, engaged_at = tm, stop_reason_digest = digest,
    requested_cancellations = [], cancellation_failures = []\<rparr>"
  from tm(2) assms(1) have "emergency_stop_state_post_init ?st = Inr ?st"
    by (simp add: post_init_stop_Inr)
  with False tm(1) have "engage_first clk digest s
      = (Inr (), s\<lparr>ticks := Suc (ticks s), stop_state := ?st\<rparr>)"
    by (simp add: engage_first_def exec_simps)
  moreover have "stop_state_ok ?st" using tm(2) assms(1) by (simp add: stop_state_ok_def)
  ultimately show ?thesis using False by fastforce
qed

lemma engage_total:
  assumes ok: "stop_state_ok (stop_state s)" "cancellers_ok (cancellers s)" "hook_attached s"
    and hook: "\<And>s. hook s = (Inr (), h s)"
      "\<And>s. stop_state (h s) = stop_state s" "\<And>s n. h (s\<lparr>fanouts := n\<rparr>) = (h s)\<lparr>fanouts := n\<rparr>"
  shows "\<exists>n st st'. engage clk hook rd s
      = (Inr st', (h (s\<lparr>ticks := n, stop_state := st\<rparr>))
           \<lparr>fanouts := Suc (fanouts (h (s\<lparr>ticks := n, stop_state := st\<rparr>))), stop_state := st'\<rparr>) \<and>
    engaged st' \<and> stop_state_ok st' \<and>
    (\<not> engaged (stop_state s) \<longrightarrow> stop_reason_digest st' = read_reason_digest rd) \<and>
    (engaged (stop_state s) \<longrightarrow> engaged_at st' = engaged_at (stop_state s) \<and>
       stop_reason_digest st' = stop_reason_digest (stop_state s))"
proof -
  from engage_first_total [OF read_reason_digest_ok ok(1), of clk rd] obtain n st where
    first: "engage_first clk (read_reason_digest rd) s = (Inr (), s\<lparr>ticks := n, stop_state := st\<rparr>)"
    and st: "engaged st" "stop_state_ok st"
      "engaged (stop_state s) \<Longrightarrow> st = stop_state s"
      "\<not> engaged (stop_state s) \<Longrightarrow> stop_reason_digest st = read_reason_digest rd"
    by auto
  have "\<exists>ops fails. fan_out (fanouts s) (read_reason_digest rd) (cancellers s) ([], []) = Inr (ops, fails)
      \<and> list_all identifier_ok ops \<and> failures_ok fails"
    using ok(2) by (intro fan_out_ok) (simp_all add: failures_ok_def)
  then obtain ops fails where
    fan: "fan_out (fanouts s) (read_reason_digest rd) (cancellers s) ([], []) = Inr (ops, fails)"
      "list_all identifier_ok ops" "failures_ok fails" by blast
  let ?st' = "st\<lparr>requested_cancellations := ops, cancellation_failures := fails\<rparr>"
  have post: "emergency_stop_state_post_init ?st' = Inr ?st'"
    using st(2) fan(2) by (simp add: post_init_stop_Inr stop_state_ok_def)
  let ?s1 = "s\<lparr>ticks := n, stop_state := st\<rparr>"
  have "engage clk hook rd s
      = (Inr ?st', (h ?s1)\<lparr>fanouts := Suc (fanouts (h ?s1)), stop_state := ?st'\<rparr>)"
    by (simp add: engage_def Let_def exec_simps first fan(1) hook ok(3) post)
  moreover have "stop_state_ok ?st'" using st(2) fan by (simp add: stop_state_ok_def failures_ok_def)
  ultimately show ?thesis using st by fastforce
qed

definition accountable :: "cancel_answer \<Rightarrow> nat" where
  "accountable a = (case a of Answers xs \<Rightarrow> length xs | _ \<Rightarrow> 1)"

text \<open>
  No canceller can stop the fan-out or disappear from it. Asking registered cancellers
  never raises, whatever they answer; the references collected and the types in the
  failures are identifiers; a canceller that answers a list has every entry accounted for
  as a reference or a failure, and one that raises or breaks the contract is one failure.
\<close>

theorem fan_out_accounts_for_every_answer:
  assumes "list_all (\<lambda>e. identifier_ok (fst e)) cs"
  shows "\<exists>ops fails. fan_out n digest cs ([], []) = Inr (ops, fails) \<and>
    list_all identifier_ok ops \<and>
    list_all (\<lambda>f. identifier_ok (failure_canceller f) \<and> pred_option identifier_ok (failure_type f)) fails \<and>
    length ops + length fails = (\<Sum>e\<leftarrow>cs. accountable (snd e n digest))"
proof -
  have one: "\<exists>ops' fails'. request_cancellation n digest e (ops, fails) = Inr (ops', fails') \<and>
      list_all identifier_ok ops' \<and> failures_ok fails' \<and>
      length ops' + length fails' = length ops + length fails + accountable (snd e n digest)"
    if "identifier_ok (fst e)" "list_all identifier_ok ops" "failures_ok fails"
    for e :: "string \<times> canceller" and ops fails
  proof (cases e)
    case (Pair c cancel)
    show ?thesis
    proof (cases "cancel n digest")
      case (Answers as)
      with Pair sort_answers_ok [of c ops fails as] that show ?thesis
        by (auto simp: request_cancellation_def accountable_def)
    qed (use Pair that in \<open>simp_all add: request_cancellation_def new_failure_Inr failures_ok_def
        accountable_def\<close>)
  qed
  have all: "list_all identifier_ok ops \<Longrightarrow> failures_ok fails \<Longrightarrow>
      \<exists>ops' fails'. fan_out n digest cs (ops, fails) = Inr (ops', fails') \<and>
      list_all identifier_ok ops' \<and> failures_ok fails' \<and>
      length ops' + length fails' = length ops + length fails + (\<Sum>e\<leftarrow>cs. accountable (snd e n digest))"
    for ops fails
    using assms
  proof (induction cs arbitrary: ops fails)
    case Nil
    then show ?case by simp
  next
    case (Cons e es)
    from one [of e ops fails] Cons.prems obtain ops1 fails1 where
      s: "request_cancellation n digest e (ops, fails) = Inr (ops1, fails1)"
      "list_all identifier_ok ops1" "failures_ok fails1"
      "length ops1 + length fails1 = length ops + length fails + accountable (snd e n digest)"
      by auto
    from Cons.IH [OF s(2,3)] Cons.prems s(1,4) show ?case by auto
  qed
  from all [of "[]" "[]"] show ?thesis by (simp add: failures_ok_def)
qed

theorem fan_out_accounts_for_every_answer_witness:
  "\<exists>ops fails. fan_out 0 None [(''a'', \<lambda>_ _. Raises ''Boom''), (''b'', \<lambda>_ _. Answers [OtherValue ''int''])]
     ([], []) = Inr (ops, fails) \<and> length ops + length fails = 2"
  using fan_out_accounts_for_every_answer
    [of "[(''a'', \<lambda>_ _. Raises ''Boom''), (''b'', \<lambda>_ _. Answers [OtherValue ''int''])]" 0 None]
  by (auto simp: accountable_def identifier_ok_def AUDIT_IDENTIFIER_ALPHABET_def
      MAX_AUDIT_IDENTIFIER_LENGTH_def)

end
