(* ===== verification/Kernel.thy ===== *)
theory Kernel
  imports Policy Emergency
begin

text \<open>
  The safety kernel of \<open>canx/safety/kernel.py\<close>. Its state extends the state of the arm and
  stop controllers it owns with the approvals, the standing grants, the policy and the audit
  trail. Every method holds the kernel's re-entrant lock and is one step. The environment
  is what the host supplies: the clock, the random bits of \<open>uuid4\<close>, a custom audit sink
  and Python's rendering of floats.
\<close>

record environment =
  env_clock :: clock
  env_uuid :: "nat \<Rightarrow> exn + 128 word"
  env_sink :: "nat \<Rightarrow> audit_event \<Rightarrow> exn option"
  env_float_repr :: "pyfloat \<Rightarrow> string"

datatype audit_trail = InMemory memory_sink | CustomSink nat

record kernel = emergency_controller +
  approvals :: approval_store
  kernel_permissions :: permission_set
  kernel_policy :: safety_policy
  audit :: audit_trail
  uuids :: nat

definition new_kernel :: "audit_trail \<Rightarrow> permission_set \<Rightarrow> safety_policy \<Rightarrow> kernel" where
  "new_kernel trail perms pol = snd (attach_disarm
     \<lparr>ticks = 0, arm_state = DISARMED, arm_scope = None, stop_state = released_state,
      cancellers = [], hook_attached = False, fanouts = 0, approvals = [],
      kernel_permissions = perms, kernel_policy = pol, audit = trail, uuids = 0\<rparr>)"

definition on_store :: "(approval_store, exn, 'a) exec \<Rightarrow> (kernel, exn, 'a) exec" where
  "on_store m = (\<lambda>k. case m (approvals k) of (r, d) \<Rightarrow> (r, k\<lparr>approvals := d\<rparr>))"

definition read_uuid :: "environment \<Rightarrow> (kernel, exn, 128 word) exec" where
  "read_uuid env = (\<lambda>k. (env_uuid env (uuids k), k\<lparr>uuids := Suc (uuids k)\<rparr>))"

definition render :: "environment \<Rightarrow> json \<Rightarrow> string" where
  "render env payload = json_dumps (env_float_repr env) payload"

section \<open>Gates\<close>

definition require_arm_authority :: "caller_identity \<Rightarrow> exn + unit" where
  "require_arm_authority c = guard (may_control_arm c) SafetyCallerError"

definition require_emergency_stop_released :: "string \<Rightarrow> (kernel, exn, unit) exec" where
  "require_emergency_stop_released action = (\<lambda>k.
     lift (guard (\<not> engaged (stop_state k)) (SafetyEmergencyStopError action)) k)"

section \<open>Recording\<close>

definition write_event :: "environment \<Rightarrow> audit_event \<Rightarrow> (kernel, exn, unit) exec" where
  "write_event env e = (\<lambda>k.
     case audit k of
       InMemory s \<Rightarrow> (Inr (), k\<lparr>audit := InMemory (sink_record e s)\<rparr>)
     | CustomSink n \<Rightarrow>
         (case env_sink env n e of
            None \<Rightarrow> (Inr (), k\<lparr>audit := CustomSink (Suc n)\<rparr>)
          | Some _ \<Rightarrow> (Inl (SafetyAuditError ''write''), k\<lparr>audit := CustomSink (Suc n)\<rparr>)))"

definition prepare_decision ::
    "environment \<Rightarrow> operation_request \<Rightarrow> policy_decision \<Rightarrow> (kernel, exn, audit_event) exec" where
  "prepare_decision env r v =
     ebind (get arm_scope) (\<lambda>scope.
     ebind (read_uuid env) (\<lambda>w.
     ebind (lift (new_audit_event_id w)) (\<lambda>i.
     ebind (read_clock (env_clock env)) (\<lambda>t.
     ebind (get arm_state) (\<lambda>st.
     ebind (case scope of
              None \<Rightarrow> ret None
            | Some sc \<Rightarrow> ebind (read_clock (env_clock env))
                (\<lambda>t'. ret (Some (scope_is_expired sc t')))) (\<lambda>lapsed.
     ebind (get stop_state) (\<lambda>stop.
     lift (audit_event_post_init
       \<lparr>event_id = i, recorded_at = t,
        ev_caller_kind = caller_kind_value (kind (request_caller r)),
        ev_caller_id = caller_id (request_caller r), ev_operation_id = operation_id r,
        ev_operation_class = request_class r,
        ev_risk_level = map_option risk_int (decision_risk v),
        ev_device_id = device_id (request_target r), ev_channel = channel (request_target r),
        ev_target_address = target_address (request_target r),
        ev_decision = decision_outcome_value (outcome v),
        ev_reason_code = safety_reason_value (reason_code v), ev_message = message v,
        ev_detail = None, ev_approval_id = request_approval_id r,
        ev_parameters_digest = parameters_digest r, ev_reason_digest = None,
        ev_arm_state = arm_state_value st, ev_arm_scope_expired = lapsed,
        ev_emergency_stop_engaged = engaged stop, ev_outcome = ''decision''\<rparr>))))))))"

definition record_decision ::
    "environment \<Rightarrow> operation_request \<Rightarrow> policy_decision \<Rightarrow> (kernel, exn, unit) exec" where
  "record_decision env r v =
     ebind (etry (prepare_decision env r v) (\<lambda>_. throw (SafetyAuditError ''preparation'')))
       (write_event env)"

definition prepare_control ::
    "environment \<Rightarrow> string \<Rightarrow> caller_identity \<Rightarrow> safety_reason \<Rightarrow> string \<Rightarrow> string option \<Rightarrow>
     string option \<Rightarrow> (kernel, exn, audit_event) exec" where
  "prepare_control env action c reason msg detail rd =
     ebind (read_uuid env) (\<lambda>w.
     ebind (lift (new_audit_event_id w)) (\<lambda>i.
     ebind (read_clock (env_clock env)) (\<lambda>t.
     ebind (get arm_state) (\<lambda>st.
     ebind (get stop_state) (\<lambda>stop.
     lift (audit_event_post_init
       \<lparr>event_id = i, recorded_at = t, ev_caller_kind = caller_kind_value (kind c),
        ev_caller_id = caller_id c, ev_operation_id = ''kernel.'' @ action,
        ev_operation_class = ''safety.control'', ev_risk_level = None, ev_device_id = None,
        ev_channel = None, ev_target_address = None, ev_decision = ''control'',
        ev_reason_code = safety_reason_value reason, ev_message = msg, ev_detail = detail,
        ev_approval_id = None, ev_parameters_digest = None, ev_reason_digest = rd,
        ev_arm_state = arm_state_value st, ev_arm_scope_expired = None,
        ev_emergency_stop_engaged = engaged stop, ev_outcome = ''control''\<rparr>))))))"

definition record_control ::
    "environment \<Rightarrow> string \<Rightarrow> caller_identity \<Rightarrow> safety_reason \<Rightarrow> string \<Rightarrow> string option \<Rightarrow>
     string option \<Rightarrow> (kernel, exn, unit) exec" where
  "record_control env action c reason msg detail rd =
     ebind (etry (prepare_control env action c reason msg detail rd)
       (\<lambda>_. throw (SafetyAuditError ''preparation''))) (write_event env)"

definition roll_back_authority ::
    "string \<Rightarrow> (kernel, exn, unit) exec \<Rightarrow> exn \<Rightarrow> (kernel, exn, unit) exec" where
  "roll_back_authority action rollback audit_failure =
     etry rollback (\<lambda>e. throw (SafetyRollbackError action audit_failure e))"

definition commit_authority_change_with_audit ::
    "string \<Rightarrow> (kernel, exn, unit) exec \<Rightarrow> (kernel, exn, unit) exec \<Rightarrow> (kernel, exn, unit) exec" where
  "commit_authority_change_with_audit action rec rollback =
     etry rec (\<lambda>e. eseq (roll_back_authority action rollback e)
       (throw (if is_audit_error e then e else SafetyAuditError ''transaction'')))"

definition ignore :: "('s, 'e, 'a) exec \<Rightarrow> ('s, 'e, unit) exec" where
  "ignore m = ebind m (\<lambda>_. ret ())"

definition disarm_for_emergency_stop :: "(kernel, exn, unit) exec" where
  "disarm_for_emergency_stop = ignore arm_disarm"

section \<open>Methods\<close>

definition kernel_arm ::
    "environment \<Rightarrow> arm_scope \<Rightarrow> caller_identity \<Rightarrow> (kernel, exn, arm_state) exec" where
  "kernel_arm env sc c =
     eseq (lift (require_arm_authority c))
    (eseq (require_emergency_stop_released ''arm'')
    (ebind (arm_request (env_clock env) sc) (\<lambda>st.
     eseq (commit_authority_change_with_audit ''arm.requested''
       (record_control env ''arm.requested'' c ALLOWED
         ''Arming was requested with a bounded scope.'' (Some (render env (describe_scope sc))) None)
       (ignore arm_disarm))
       (ret st))))"

definition kernel_confirm_arm ::
    "environment \<Rightarrow> caller_identity \<Rightarrow> (kernel, exn, arm_state) exec" where
  "kernel_confirm_arm env c =
     eseq (lift (require_arm_authority c))
    (eseq (require_emergency_stop_released ''confirm_arm'')
    (ebind (arm_confirm (env_clock env)) (\<lambda>st.
     eseq (commit_authority_change_with_audit ''arm.confirmed''
       (record_control env ''arm.confirmed'' c ALLOWED
         ''The runtime is armed within its scope.'' None None)
       (ignore arm_disarm))
       (ret st))))"

definition kernel_disarm ::
    "environment \<Rightarrow> caller_identity \<Rightarrow> pystr \<Rightarrow> (kernel, exn, arm_state) exec" where
  "kernel_disarm env c reason =
     ebind arm_disarm (\<lambda>st.
     ebind (lift (digest_reason reason)) (\<lambda>d.
     eseq (record_control env ''disarm'' c NOT_ARMED ''The runtime was disarmed.'' None (Some d))
       (ret st)))"

definition kernel_grant_approval ::
    "environment \<Rightarrow> approval_spec \<Rightarrow> caller_identity \<Rightarrow> (kernel, exn, approval) exec" where
  "kernel_grant_approval env spec c =
     eseq (lift (guard (may_issue_approval c) SafetyCallerError))
    (eseq (require_emergency_stop_released ''grant_approval'')
    (ebind (lift (rbind (issuer_for c) (\<lambda>i. approval_post_init
       \<lparr>approval_id = spec_id spec, approval_capability = spec_capability spec,
        approval_target = spec_target spec, issued_at = spec_issued_at spec,
        approval_expires_at = spec_expires_at spec, issuer = i,
        single_use = spec_single_use spec\<rparr>))) (\<lambda>a.
     eseq (on_store (store_grant a c))
    (eseq (commit_authority_change_with_audit ''approval.granted''
       (record_control env ''approval.granted'' c ALLOWED
         ''An approval was recorded for this session.''
         (Some (render env (describe_approval a))) None)
       (ignore (on_store (store_revoke (approval_id a)))))
       (ret a)))))"

definition kernel_revoke_approval :: "string \<Rightarrow> (kernel, exn, bool) exec" where
  "kernel_revoke_approval i = on_store (store_revoke i)"

definition kernel_evaluate ::
    "environment \<Rightarrow> operation_request \<Rightarrow> (kernel, exn, policy_decision) exec" where
  "kernel_evaluate env r =
     ebind (read_clock (env_clock env)) (\<lambda>t.
     ebind (get arm_state) (\<lambda>st.
     ebind (active_scope (env_clock env)) (\<lambda>sc.
     ebind (get (\<lambda>k. decide (kernel_policy k) r
       \<lparr>now = t, context_arm_state = st, context_arm_scope = sc,
        permissions = kernel_permissions k, emergency_stop_engaged = engaged (stop_state k)\<rparr>
       (approvals k))) (\<lambda>(v, d).
     eseq (put (\<lambda>k. k\<lparr>approvals := d\<rparr>))
    (eseq (record_decision env r v)
       (ret v))))))"

definition kernel_register_canceller :: "string \<Rightarrow> canceller \<Rightarrow> (kernel, exn, unit) exec" where
  "kernel_register_canceller i c = register_canceller i c"

definition kernel_engage ::
    "environment \<Rightarrow> caller_identity \<Rightarrow> pystr \<Rightarrow> (kernel, exn, emergency_stop_state) exec" where
  "kernel_engage env c reason =
     (let rd = digest_reason_best_effort reason in
      ebind (engage (env_clock env) disarm_for_emergency_stop rd) (\<lambda>st.
      eseq (on_store store_clear)
     (eseq (record_control env ''emergency_stop.engaged'' c EMERGENCY_STOP
         ''The global emergency stop was engaged.'' (Some (render env (describe_stop st))) rd)
        (ret st))))"

definition kernel_release ::
    "environment \<Rightarrow> caller_identity \<Rightarrow> (kernel, exn, emergency_stop_state) exec" where
  "kernel_release env c =
     ebind (get stop_state) (\<lambda>before.
     eseq (lift (require_release_authority c))
    (eseq arm_disarm
    (eseq (on_store store_clear)
    (ebind (reset c) (\<lambda>st.
     eseq (commit_authority_change_with_audit ''emergency_stop.released''
       (record_control env ''emergency_stop.released'' c EMERGENCY_STOP
         ''The emergency stop was released.'' None None)
       (ignore (restore_engagement before)))
       (ret st))))))"

definition kernel_audit_events :: "kernel \<Rightarrow> audit_event list" where
  "kernel_audit_events k = (case audit k of InMemory s \<Rightarrow> sink_events s | CustomSink _ \<Rightarrow> [])"

text \<open>
  The \<open>approvals\<close> property hands out the store itself, so its methods are reachable
  without the kernel's gate, lock and trail.
\<close>

definition kernel_store_grant :: "approval \<Rightarrow> caller_identity \<Rightarrow> (kernel, exn, unit) exec" where
  "kernel_store_grant a c = on_store (store_grant a c)"

section \<open>Calls\<close>

datatype kernel_call =
    Arm arm_scope caller_identity
  | ConfirmArm caller_identity
  | Disarm caller_identity pystr
  | GrantApproval approval_spec caller_identity
  | RevokeApproval string
  | Evaluate operation_request
  | RegisterCanceller string canceller
  | EngageStop caller_identity pystr
  | ReleaseStop caller_identity

datatype call_result =
    StateResult arm_state
  | ApprovalResult approval
  | BoolResult bool
  | DecisionResult policy_decision
  | StopResult emergency_stop_state
  | NoResult

definition as_result :: "('a \<Rightarrow> call_result) \<Rightarrow> (kernel, exn, 'a) exec \<Rightarrow> (kernel, exn, call_result) exec"
where
  "as_result f m = ebind m (\<lambda>a. ret (f a))"

fun kernel_exec :: "environment \<Rightarrow> kernel_call \<Rightarrow> (kernel, exn, call_result) exec" where
  "kernel_exec env (Arm sc c) = as_result StateResult (kernel_arm env sc c)"
| "kernel_exec env (ConfirmArm c) = as_result StateResult (kernel_confirm_arm env c)"
| "kernel_exec env (Disarm c reason) = as_result StateResult (kernel_disarm env c reason)"
| "kernel_exec env (GrantApproval spec c) = as_result ApprovalResult (kernel_grant_approval env spec c)"
| "kernel_exec env (RevokeApproval i) = as_result BoolResult (kernel_revoke_approval i)"
| "kernel_exec env (Evaluate r) = as_result DecisionResult (kernel_evaluate env r)"
| "kernel_exec env (RegisterCanceller i c) =
     as_result (\<lambda>_. NoResult) (kernel_register_canceller i c)"
| "kernel_exec env (EngageStop c reason) = as_result StopResult (kernel_engage env c reason)"
| "kernel_exec env (ReleaseStop c) = as_result StopResult (kernel_release env c)"

definition kernel_step :: "environment \<Rightarrow> kernel_call \<Rightarrow> kernel \<Rightarrow> kernel" where
  "kernel_step env c k = snd (kernel_exec env c k)"

definition kernel_run :: "environment \<Rightarrow> kernel_call list \<Rightarrow> kernel \<Rightarrow> kernel" where
  "kernel_run env cs k = run_calls (kernel_step env) cs k"

end
