(* ===== verification/Authority.thy ===== *)
theory Authority
  imports Kernel
begin

text \<open>
  The abstract authority machine the kernel refines. An abstract state keeps only what
  authorises: the arm state and scope, the approvals, and whether the stop is engaged. Its
  steps say who may move it where; time, the trail, cancellers and failures are not in it.
\<close>

record authority =
  auth_arm :: arm_state
  auth_scope :: "arm_scope option"
  auth_approvals :: approval_store
  auth_stopped :: bool

definition authority_of :: "kernel \<Rightarrow> authority" where
  "authority_of k = \<lparr>auth_arm = arm_state k, auth_scope = arm_scope k,
     auth_approvals = approvals k, auth_stopped = engaged (stop_state k)\<rparr>"

definition bearing :: "caller_identity option \<Rightarrow> bool" where
  "bearing by_whom \<longleftrightarrow> (\<exists>c. by_whom = Some c \<and> kind c \<in> AUTHORITY_BEARING_KINDS)"

inductive auth_step :: "caller_identity option \<Rightarrow> authority \<Rightarrow> authority \<Rightarrow> bool" where
  stutter: "auth_step c a a"
| disarm: "auth_step c a (a\<lparr>auth_arm := DISARMED, auth_scope := None\<rparr>)"
| withdraw: "auth_step c a (a\<lparr>auth_arm := DISARMED, auth_scope := None, auth_approvals := []\<rparr>)"
| revoke: "auth_step c a (a\<lparr>auth_approvals := AList.delete i (auth_approvals a)\<rparr>)"
| spend: "map_of (auth_approvals a) i = Some \<lparr>stored = x, consumed = False\<rparr> \<Longrightarrow> single_use x \<Longrightarrow>
    auth_step c a (a\<lparr>auth_approvals :=
      AList.update i \<lparr>stored = x, consumed = True\<rparr> (auth_approvals a)\<rparr>)"
| stop: "auth_step c a
    (a\<lparr>auth_arm := DISARMED, auth_scope := None, auth_approvals := [], auth_stopped := True\<rparr>)"
| begin_arming: "bearing c \<Longrightarrow> \<not> auth_stopped a \<Longrightarrow> auth_arm a = DISARMED \<Longrightarrow>
    auth_step c a (a\<lparr>auth_arm := ARMING, auth_scope := Some sc\<rparr>)"
| confirm_arming: "bearing c \<Longrightarrow> \<not> auth_stopped a \<Longrightarrow> auth_arm a = ARMING \<Longrightarrow>
    auth_step c a (a\<lparr>auth_arm := ARMED\<rparr>)"
| grant: "c = Some g \<Longrightarrow> issuer_for g = Inr (issuer x) \<Longrightarrow> \<not> auth_stopped a \<Longrightarrow>
    auth_step c a (a\<lparr>auth_approvals :=
      AList.update (approval_id x) \<lparr>stored = x, consumed = False\<rparr> (auth_approvals a)\<rparr>)"
| release: "bearing c \<Longrightarrow> auth_step c a
    (a\<lparr>auth_arm := DISARMED, auth_scope := None, auth_approvals := [], auth_stopped := False\<rparr>)"

inductive_cases auth_stepE: "auth_step c a b"

fun call_caller :: "kernel_call \<Rightarrow> caller_identity option" where
  "call_caller (Arm sc c) = Some c"
| "call_caller (ConfirmArm c) = Some c"
| "call_caller (Disarm c reason) = Some c"
| "call_caller (GrantApproval spec c) = Some c"
| "call_caller (RevokeApproval i) = None"
| "call_caller (Evaluate r) = Some (request_caller r)"
| "call_caller (RegisterCanceller i c) = None"
| "call_caller (EngageStop c reason) = Some c"
| "call_caller (ReleaseStop c) = Some c"

section \<open>Frames\<close>

text \<open>Recording changes the clock, the identifier source and the trail, and nothing else.\<close>

definition kframe :: "kernel \<Rightarrow> kernel \<Rightarrow> bool" where
  "kframe k k' \<longleftrightarrow>
     arm_state k' = arm_state k \<and> arm_scope k' = arm_scope k \<and> approvals k' = approvals k \<and>
     stop_state k' = stop_state k \<and> cancellers k' = cancellers k \<and>
     hook_attached k' = hook_attached k \<and> fanouts k' = fanouts k \<and>
     kernel_permissions k' = kernel_permissions k \<and> kernel_policy k' = kernel_policy k"

lemma kframe_refl [simp]: "kframe k k"
  by (simp add: kframe_def)

lemma kframe_trans: "kframe a b \<Longrightarrow> kframe b c \<Longrightarrow> kframe a c"
  by (simp add: kframe_def)

lemma kframe_updates [simp]:
  "kframe k (k'\<lparr>ticks := n\<rparr>) = kframe k k'" "kframe k (k'\<lparr>uuids := n\<rparr>) = kframe k k'"
  "kframe k (k'\<lparr>audit := x\<rparr>) = kframe k k'"
  by (simp_all add: kframe_def)

lemmas kframe_fields = kframe_def [THEN iffD1]

lemma kframe_authority: "kframe k k' \<Longrightarrow> authority_of k' = authority_of k"
  by (simp add: authority_of_def kframe_def)

text \<open>A computation that only frames, and one whose every exception is an audit fault.\<close>

definition framed :: "(kernel, exn, 'a) exec \<Rightarrow> bool" where
  "framed m \<longleftrightarrow> (\<forall>k. kframe k (snd (m k)))"

lemma framed_get [intro]: "framed (get f)"
  by (simp add: framed_def exec_simps)

lemma framed_lift [intro]: "framed (lift r)"
  by (simp add: framed_def exec_simps)

lemma framed_ret [intro]: "framed (ret r)"
  by (simp add: framed_def exec_simps)

lemma framed_throw [intro]: "framed (throw r)"
  by (simp add: framed_def exec_simps)

lemma framed_bind [intro]: "framed m \<Longrightarrow> (\<And>a. framed (f a)) \<Longrightarrow> framed (ebind m f)"
  unfolding framed_def ebind_apply
  by (auto split: prod.splits sum.splits) (metis kframe_trans snd_conv)+

lemma framed_try [intro]: "framed m \<Longrightarrow> (\<And>e. framed (h e)) \<Longrightarrow> framed (etry m h)"
  unfolding framed_def ebind_apply
  by (auto split: prod.splits sum.splits) (metis kframe_trans snd_conv)+

lemma framed_clock [intro]: "framed (read_clock clk)"
  by (simp add: framed_def frame_simps)

lemma framed_uuid [intro]: "framed (read_uuid env)"
  by (simp add: framed_def read_uuid_def)

lemma framed_write [intro]: "framed (write_event env e)"
  by (auto simp: framed_def write_event_def split: audit_trail.splits option.splits)

lemma framed_prepare_control [intro]: "framed (prepare_control env action c reason msg detail rd)"
  unfolding prepare_control_def by blast

lemma framed_prepare_decision [intro]: "framed (prepare_decision env r v)"
proof -
  have "framed (case scope of None \<Rightarrow> ret None
      | Some sc \<Rightarrow> ebind (read_clock (env_clock env)) (\<lambda>t'. ret (Some (scope_is_expired sc t'))))"
    for scope by (cases scope) auto
  then show ?thesis unfolding prepare_decision_def by blast
qed

lemma framed_record_control [intro]: "framed (record_control env action c reason msg detail rd)"
  unfolding record_control_def by blast

lemma framed_record_decision [intro]: "framed (record_decision env r v)"
  unfolding record_decision_def by blast

lemma framedD: "framed m \<Longrightarrow> m k = (r, k') \<Longrightarrow> kframe k k'"
  unfolding framed_def by (metis snd_conv)

lemma write_event_Inl: "write_event env e k = (Inl x, k') \<Longrightarrow> x = SafetyAuditError ''write''"
  by (auto simp: write_event_def split: audit_trail.splits option.splits)

lemma record_control_Inl:
  "record_control env action c reason msg detail rd k = (Inl x, k') \<Longrightarrow> is_audit_error x"
  by (auto simp: record_control_def exec_simps dest: write_event_Inl split: prod.splits sum.splits)

lemma record_decision_Inl: "record_decision env r v k = (Inl x, k') \<Longrightarrow> is_audit_error x"
  by (auto simp: record_decision_def exec_simps dest: write_event_Inl split: prod.splits sum.splits)

lemma ignore_apply [exec_simps]:
  "ignore m k = (case m k of (Inl e, k') \<Rightarrow> (Inl e, k') | (Inr a, k') \<Rightarrow> (Inr (), k'))"
  by (auto simp: ignore_def exec_simps split: prod.splits sum.splits)

lemma on_store_apply [exec_simps]:
  "on_store m k = (fst (m (approvals k)), k\<lparr>approvals := snd (m (approvals k))\<rparr>)"
  by (simp add: on_store_def split: prod.splits)

text \<open>The commit guard, for a rollback that cannot fail.\<close>

lemma commit_cases:
  assumes "commit_authority_change_with_audit action
      (record_control env act c reason msg detail rd) rollback k = (r, k')"
    and "\<And>k. rollback k = (Inr (), back k)"
  obtains (committed) "r = Inr ()" "kframe k k'"
      "record_control env act c reason msg detail rd k = (Inr (), k')"
  | (rolled_back) e k1 where "r = Inl e" "is_audit_error e" "kframe k k1" "k' = back k1"
      "record_control env act c reason msg detail rd k = (Inl e, k1)"
proof (cases "record_control env act c reason msg detail rd k")
  case (Pair res k1)
  have frame: "kframe k k1" by (rule framedD [OF framed_record_control Pair])
  show thesis
  proof (cases res)
    case (Inl e)
    then have "is_audit_error e" using Pair record_control_Inl by blast
    with Pair Inl assms frame show thesis
      by (intro rolled_back)
         (auto simp: commit_authority_change_with_audit_def roll_back_authority_def exec_simps)
  next
    case (Inr u)
    with Pair assms frame show thesis
      by (intro committed) (auto simp: commit_authority_change_with_audit_def exec_simps)
  qed
qed

section \<open>Operations\<close>

lemma require_arm_authority_simps [simp]:
  "require_arm_authority c = (if bearing (Some c) then Inr () else Inl SafetyCallerError)"
  by (simp add: require_arm_authority_def guard_def may_control_arm_def bearing_def)

lemma stop_released_apply [exec_simps]:
  "require_emergency_stop_released action k =
     (if engaged (stop_state k) then Inl (SafetyEmergencyStopError action) else Inr (), k)"
  by (simp add: require_emergency_stop_released_def exec_simps guard_def)

lemma rollback_disarm:
  "ignore arm_disarm k = (Inr (), k\<lparr>arm_state := DISARMED, arm_scope := None\<rparr>)"
  by (simp add: exec_simps)

lemma kernel_arm_cases:
  assumes "kernel_arm env sc c k = (r, k')"
  obtains (refused) e where "r = Inl e" "kframe k k'"
  | (arming) "r = Inr ARMING" "bearing (Some c)" "\<not> engaged (stop_state k)" "arm_state k = DISARMED"
      "kframe (k\<lparr>arm_state := ARMING, arm_scope := Some sc\<rparr>) k'"
  | (rolled_back) e k1 where "r = Inl e" "is_audit_error e" "arm_state k = DISARMED"
      "kframe (k\<lparr>arm_state := ARMING, arm_scope := Some sc\<rparr>) k1"
      "k' = k1\<lparr>arm_state := DISARMED, arm_scope := None\<rparr>"
proof (cases "bearing (Some c) \<and> \<not> engaged (stop_state k)")
  case False
  with assms have "k' = k" "\<exists>e. r = Inl e"
    by (auto simp: kernel_arm_def exec_simps split: if_splits)
  with refused show thesis by auto
next
  case gate: True
  obtain res k1 where req: "arm_request (env_clock env) sc k = (res, k1)" by fastforce
  show thesis
  proof (cases res)
    case (Inl e)
    with arm_request_Inl [of "env_clock env" sc k e k1] req obtain n where "k1 = k\<lparr>ticks := n\<rparr>" by auto
    with assms gate req Inl have "r = Inl e" "kframe k k'" by (auto simp: kernel_arm_def exec_simps)
    with refused show thesis by blast
  next
    case (Inr st)
    with req have st: "st = ARMING" "arm_state k = DISARMED"
      and k1: "k1 = k\<lparr>ticks := Suc (ticks k), arm_state := ARMING, arm_scope := Some sc\<rparr>"
      by (auto dest: arm_request_Inr [THEN iffD1])
    have frame: "kframe (k\<lparr>arm_state := ARMING, arm_scope := Some sc\<rparr>) k1"
      by (simp add: k1 kframe_def)
    obtain cr k2 where commit: "commit_authority_change_with_audit ''arm.requested''
        (record_control env ''arm.requested'' c ALLOWED
          ''Arming was requested with a bounded scope.'' (Some (render env (describe_scope sc))) None)
        (ignore arm_disarm) k1 = (cr, k2)" by fastforce
    from assms gate req Inr commit
    have res: "k' = k2" "r = (case cr of Inl e \<Rightarrow> Inl e | Inr _ \<Rightarrow> Inr st)"
      by (auto simp: kernel_arm_def exec_simps split: sum.splits)
    from commit rollback_disarm show thesis
    proof (cases rule: commit_cases)
      case committed
      with res st gate frame arming show thesis by (auto intro: kframe_trans)
    next
      case (rolled_back e k3)
      with res st frame rolled_back show thesis by (metis kframe_trans sum.case(1) that(3))
    qed
  qed
qed

lemma kernel_confirm_cases:
  assumes "kernel_confirm_arm env c k = (r, k')"
  obtains (refused) e where "r = Inl e" "kframe k k'"
  | (lapsed) e where "r = Inl e" "kframe (k\<lparr>arm_state := DISARMED, arm_scope := None\<rparr>) k'"
  | (armed) "r = Inr ARMED" "bearing (Some c)" "\<not> engaged (stop_state k)" "arm_state k = ARMING"
      "kframe (k\<lparr>arm_state := ARMED\<rparr>) k'"
proof (cases "bearing (Some c) \<and> \<not> engaged (stop_state k)")
  case False
  with assms have "k' = k" "\<exists>e. r = Inl e"
    by (auto simp: kernel_confirm_arm_def exec_simps split: if_splits)
  with refused show thesis by auto
next
  case gate: True
  obtain res k1 where req: "arm_confirm (env_clock env) k = (res, k1)" by fastforce
  show thesis
  proof (cases res)
    case (Inl e)
    with assms gate req have r: "r = Inl e" "k' = k1" by (auto simp: kernel_confirm_arm_def exec_simps)
    from Inl req arm_confirm_Inl [of "env_clock env" k e k1]
    have "kframe k k1 \<or> kframe (k\<lparr>arm_state := DISARMED, arm_scope := None\<rparr>) k1"
      by (auto simp: kframe_def)
    with r refused lapsed show thesis by blast
  next
    case (Inr st)
    with req have st: "st = ARMED" "arm_state k = ARMING"
      and k1: "k1 = k\<lparr>ticks := Suc (ticks k), arm_state := ARMED\<rparr>"
      by (auto dest: arm_confirm_Inr [THEN iffD1])
    have frame: "kframe (k\<lparr>arm_state := ARMED\<rparr>) k1" by (simp add: k1 kframe_def)
    obtain cr k2 where commit: "commit_authority_change_with_audit ''arm.confirmed''
        (record_control env ''arm.confirmed'' c ALLOWED
          ''The runtime is armed within its scope.'' None None)
        (ignore arm_disarm) k1 = (cr, k2)" by fastforce
    from assms gate req Inr commit
    have res: "k' = k2" "r = (case cr of Inl e \<Rightarrow> Inl e | Inr _ \<Rightarrow> Inr st)"
      by (auto simp: kernel_confirm_arm_def exec_simps split: sum.splits)
    from commit rollback_disarm show thesis
    proof (cases rule: commit_cases)
      case committed
      with res st gate frame armed show thesis by (auto intro: kframe_trans)
    next
      case (rolled_back e k3)
      from rolled_back(3,4) frame have "kframe (k\<lparr>arm_state := DISARMED, arm_scope := None\<rparr>) k2"
        by (simp add: kframe_def)
      with res rolled_back(1) lapsed show thesis by simp
    qed
  qed
qed

lemma kernel_disarm_cases:
  assumes "kernel_disarm env c reason k = (r, k')"
  shows "kframe (k\<lparr>arm_state := DISARMED, arm_scope := None\<rparr>) k'"
proof (cases "digest_reason reason")
  case (Inl e)
  with assms show ?thesis by (auto simp: kernel_disarm_def exec_simps)
next
  case (Inr d)
  let ?k1 = "k\<lparr>arm_state := DISARMED, arm_scope := None\<rparr>"
  obtain cr k2 where rec: "record_control env ''disarm'' c NOT_ARMED ''The runtime was disarmed.'' None
      (Some d) ?k1 = (cr, k2)" by fastforce
  with assms Inr have "k' = k2" by (auto simp: kernel_disarm_def exec_simps split: sum.splits)
  with framedD [OF framed_record_control rec] show ?thesis by simp
qed

lemma kernel_grant_cases:
  assumes "kernel_grant_approval env spec c k = (r, k')"
  obtains (refused) e where "r = Inl e" "k' = k"
  | (granted) a where "r = Inr a" "issuer_for c = Inr (issuer a)" "\<not> engaged (stop_state k)"
      "approval_post_init a = Inr a" "approval_id a = spec_id spec"
      "approval_capability a = spec_capability spec" "approval_target a = spec_target spec"
      "kframe (k\<lparr>approvals := AList.update (approval_id a) \<lparr>stored = a, consumed = False\<rparr> (approvals k)\<rparr>) k'"
  | (rolled_back) e i where "r = Inl e" "is_audit_error e"
      "kframe (k\<lparr>approvals := AList.delete i (approvals k)\<rparr>) k'" "i = spec_id spec"
proof -
  let ?a = "\<lambda>i. \<lparr>approval_id = spec_id spec, approval_capability = spec_capability spec,
        approval_target = spec_target spec, issued_at = spec_issued_at spec,
        approval_expires_at = spec_expires_at spec, issuer = i,
        single_use = spec_single_use spec\<rparr>"
  show thesis
  proof (cases "may_issue_approval c \<and> \<not> engaged (stop_state k)")
    case False
    with assms have "k' = k" "\<exists>e. r = Inl e"
      by (auto simp: kernel_grant_approval_def exec_simps guard_def split: if_splits)
    with refused show thesis by auto
  next
    case gate: True
    then obtain i where i: "issuer_for c = Inr i" by (auto simp: issuer_for_may_issue)
    show thesis
    proof (cases "approval_post_init (?a i)")
      case (Inl e)
      with assms gate i have "k' = k" "r = Inl e"
        by (auto simp: kernel_grant_approval_def exec_simps guard_def)
      with refused show thesis by auto
    next
      case (Inr a)
      then have a: "a = ?a i"
        by (auto simp: approval_post_init_def rbind_Inr_iff validate_approval_fields_Inr)
      let ?d = "AList.update (approval_id a) \<lparr>stored = a, consumed = False\<rparr> (approvals k)"
      have grant: "store_grant a c (approvals k) = (Inr (), ?d)"
        using i a by (simp add: store_grant_Inr)
      obtain cr k2 where commit: "commit_authority_change_with_audit ''approval.granted''
          (record_control env ''approval.granted'' c ALLOWED
            ''An approval was recorded for this session.'' (Some (render env (describe_approval a))) None)
          (ignore (on_store (store_revoke (approval_id a)))) (k\<lparr>approvals := ?d\<rparr>) = (cr, k2)"
        by fastforce
      from assms gate i Inr grant commit
      have res: "k' = k2" "r = (case cr of Inl e \<Rightarrow> Inl e | Inr _ \<Rightarrow> Inr a)"
        by (auto simp: kernel_grant_approval_def exec_simps guard_def split: sum.splits)
      have undo: "ignore (on_store (store_revoke (approval_id a))) k0
          = (Inr (), k0\<lparr>approvals := AList.delete (approval_id a) (approvals k0)\<rparr>)" for k0
        by (simp add: exec_simps)
      from commit undo show thesis
      proof (cases rule: commit_cases)
        case committed
        with res i a Inr gate granted [of a] show thesis by simp
      next
        case (rolled_back e k3)
        from rolled_back(3) have "kframe (k\<lparr>approvals := AList.delete (approval_id a) ?d\<rparr>)
            (k3\<lparr>approvals := AList.delete (approval_id a) (approvals k3)\<rparr>)"
          by (simp add: kframe_def)
        then have "kframe (k\<lparr>approvals := AList.delete (approval_id a) (approvals k)\<rparr>) k2"
          using rolled_back(4) by (simp add: delete_update_same)
        with res rolled_back(1,2) a that(3) show thesis by simp
      qed
    qed
  qed
qed

definition evaluation_context :: "kernel \<Rightarrow> pyfloat \<Rightarrow> arm_scope option \<Rightarrow> safety_context" where
  "evaluation_context k t sc =
     \<lparr>now = t, context_arm_state = arm_state k, context_arm_scope = sc,
      permissions = kernel_permissions k, emergency_stop_engaged = engaged (stop_state k)\<rparr>"

lemma kernel_evaluate_cases:
  assumes "kernel_evaluate env r k = (res, k')"
  obtains (faulted) e where "res = Inl e" "kframe k k'"
  | (decided) t sc k1 v d k2 rr where
      "env_clock env (ticks k) = Inr t"
      "active_scope (env_clock env) (k\<lparr>ticks := Suc (ticks k)\<rparr>) = (Inr sc, k1)"
      "decide (kernel_policy k) r (evaluation_context k t sc) (approvals k) = (v, d)"
      "kframe (k\<lparr>approvals := d\<rparr>) k2" "ticks k2 = ticks k1" "uuids k2 = uuids k" "audit k2 = audit k"
      "record_decision env r v k2 = (rr, k')"
      "res = (case rr of Inl e \<Rightarrow> Inl e | Inr _ \<Rightarrow> Inr v)"
      "kframe (k\<lparr>approvals := d\<rparr>) k'"
proof (cases "env_clock env (ticks k)")
  case (Inl e)
  with assms have "res = Inl e" "kframe k k'"
    by (auto simp: kernel_evaluate_def exec_simps frame_simps)
  with faulted show thesis by blast
next
  case (Inr t)
  let ?k0 = "k\<lparr>ticks := Suc (ticks k)\<rparr>"
  obtain ar k1 where act: "active_scope (env_clock env) ?k0 = (ar, k1)" by fastforce
  with active_scope_state [of "env_clock env" ?k0] have k1: "kframe k k1" "uuids k1 = uuids k" "audit k1 = audit k"
    by auto
  show thesis
  proof (cases ar)
    case (Inl e)
    with assms Inr act have "res = Inl e" "kframe k k'"
      using k1 by (auto simp: kernel_evaluate_def exec_simps frame_simps)
    with faulted show thesis by blast
  next
    case (Inr sc)
    obtain v d where dec: "decide (kernel_policy k) r (evaluation_context k t sc) (approvals k) = (v, d)"
      by fastforce
    let ?k2 = "k1\<lparr>approvals := d\<rparr>"
    obtain rr k3 where rec: "record_decision env r v ?k2 = (rr, k3)" by fastforce
    have "k3 = k'" "res = (case rr of Inl e \<Rightarrow> Inl e | Inr _ \<Rightarrow> Inr v)"
      using assms \<open>env_clock env (ticks k) = Inr t\<close> act Inr k1 dec rec
      by (auto simp: kernel_evaluate_def exec_simps frame_simps kframe_def evaluation_context_def
          split: sum.splits)
    moreover have f2: "kframe (k\<lparr>approvals := d\<rparr>) ?k2" using k1(1) by (simp add: kframe_def)
    moreover have "kframe (k\<lparr>approvals := d\<rparr>) k3"
      using kframe_trans [OF f2 framedD [OF framed_record_decision rec]] .
    ultimately show thesis
      using decided [of t sc k1 v d ?k2 rr] \<open>env_clock env (ticks k) = Inr t\<close> act Inr dec rec k1 by auto
  qed
qed

text \<open>What every reachable kernel state satisfies.\<close>

definition kernel_ok :: "kernel \<Rightarrow> bool" where
  "kernel_ok k \<longleftrightarrow>
     arm_ok k \<and> stop_state_ok (stop_state k) \<and> cancellers_ok (cancellers k) \<and> hook_attached k \<and>
     (engaged (stop_state k) \<longrightarrow> arm_state k = DISARMED \<and> approvals k = []) \<and>
     (\<not> engaged (stop_state k) \<longrightarrow> stop_state k = released_state)"

lemma kernel_ok_frame: "kframe k k' \<Longrightarrow> kernel_ok k' = kernel_ok k"
  by (simp add: kernel_ok_def kframe_def arm_ok_def)

lemma kernel_engage_effect:
  assumes ok: "kernel_ok k" and call: "kernel_engage env c reason k = (res, k')"
  shows "engaged (stop_state k')" "arm_state k' = DISARMED" "arm_scope k' = None" "approvals k' = []"
    "kernel_ok k'" "(\<exists>st. res = Inr st \<and> st = stop_state k') \<or> (\<exists>e. res = Inl e \<and> is_audit_error e)"
    "kernel_permissions k' = kernel_permissions k" "kernel_policy k' = kernel_policy k"
    "stop_reason_digest (stop_state k') =
       (if engaged (stop_state k) then stop_reason_digest (stop_state k)
        else digest_reason_best_effort reason)"
proof -
  let ?h = "\<lambda>k :: kernel. k\<lparr>arm_state := DISARMED, arm_scope := None\<rparr>"
  let ?rd = "digest_reason_best_effort reason"
  have hook: "disarm_for_emergency_stop k = (Inr (), ?h k)" for k
    by (simp add: disarm_for_emergency_stop_def exec_simps)
  have "\<exists>n st st'. engage (env_clock env) disarm_for_emergency_stop ?rd k
      = (Inr st', (?h (k\<lparr>ticks := n, stop_state := st\<rparr>))
           \<lparr>fanouts := Suc (fanouts (?h (k\<lparr>ticks := n, stop_state := st\<rparr>))), stop_state := st'\<rparr>) \<and>
    engaged st' \<and> stop_state_ok st' \<and>
    (\<not> engaged (stop_state k) \<longrightarrow> stop_reason_digest st' = read_reason_digest ?rd) \<and>
    (engaged (stop_state k) \<longrightarrow> engaged_at st' = engaged_at (stop_state k) \<and>
       stop_reason_digest st' = stop_reason_digest (stop_state k))"
    using ok hook by (intro engage_total) (simp_all add: kernel_ok_def)
  then obtain n st st' where
    eng0: "engage (env_clock env) disarm_for_emergency_stop ?rd k
      = (Inr st', (?h (k\<lparr>ticks := n, stop_state := st\<rparr>))
           \<lparr>fanouts := Suc (fanouts (?h (k\<lparr>ticks := n, stop_state := st\<rparr>))), stop_state := st'\<rparr>)"
    and st': "engaged st'" "stop_state_ok st'"
      "\<not> engaged (stop_state k) \<longrightarrow> stop_reason_digest st' = read_reason_digest ?rd"
      "engaged (stop_state k) \<longrightarrow> stop_reason_digest st' = stop_reason_digest (stop_state k)"
    by blast
  define k1 where "k1 = k\<lparr>ticks := n, arm_state := DISARMED, arm_scope := None,
        fanouts := Suc (fanouts k), stop_state := st'\<rparr>"
  have eng: "engage (env_clock env) disarm_for_emergency_stop ?rd k = (Inr st', k1)"
    using eng0 by (simp add: k1_def)
  note k1 = k1_def
  let ?k2 = "k1\<lparr>approvals := []\<rparr>"
  obtain rr k3 where rec: "record_control env ''emergency_stop.engaged'' c EMERGENCY_STOP
      ''The global emergency stop was engaged.'' (Some (render env (describe_stop st'))) ?rd ?k2 = (rr, k3)"
    by fastforce
  from call eng rec have k': "k' = k3" and res: "res = (case rr of Inl e \<Rightarrow> Inl e | Inr _ \<Rightarrow> Inr st')"
    by (auto simp: kernel_engage_def Let_def exec_simps split: sum.splits)
  have frame: "kframe ?k2 k'" unfolding k' by (rule framedD [OF framed_record_control rec])
  show "engaged (stop_state k')" "arm_state k' = DISARMED" "arm_scope k' = None" "approvals k' = []"
    "kernel_permissions k' = kernel_permissions k" "kernel_policy k' = kernel_policy k"
    "stop_reason_digest (stop_state k') =
       (if engaged (stop_state k) then stop_reason_digest (stop_state k) else ?rd)"
    using frame st' by (simp_all add: kframe_def k1 read_reason_digest_id)
  show "kernel_ok k'" using frame st' ok by (simp add: kframe_def k1 kernel_ok_def arm_ok_def)
  show "(\<exists>st. res = Inr st \<and> st = stop_state k') \<or> (\<exists>e. res = Inl e \<and> is_audit_error e)"
    using frame res rec by (cases rr) (auto simp: kframe_def k1 dest: record_control_Inl)
qed

lemma reset_apply:
  "may_release_emergency_stop c \<Longrightarrow> reset c k = (Inr released_state, k\<lparr>stop_state := released_state\<rparr>)"
proof -
  have "emergency_stop_state_post_init released_state = Inr released_state"
    by (simp add: post_init_stop_Inr released_state_def)
  then show "may_release_emergency_stop c \<Longrightarrow> ?thesis"
    by (simp add: reset_def require_release_authority_def exec_simps)
qed

lemma bearing_release: "bearing (Some c) \<longleftrightarrow> may_release_emergency_stop c"
  by (simp add: bearing_def may_release_emergency_stop_def)

lemma kernel_release_cases:
  assumes "kernel_release env c k = (res, k')"
  obtains (refused) "res = Inl SafetyCallerError" "k' = k" "\<not> bearing (Some c)"
  | (released) "res = Inr released_state" "bearing (Some c)"
      "kframe (k\<lparr>arm_state := DISARMED, arm_scope := None, approvals := [],
        stop_state := released_state\<rparr>) k'"
  | (restored) e where "res = Inl e" "is_audit_error e" "bearing (Some c)" "engaged (stop_state k)"
      "kframe (k\<lparr>arm_state := DISARMED, arm_scope := None, approvals := []\<rparr>) k'"
  | (untrusted) e f where "res = Inl (SafetyRollbackError ''emergency_stop.released'' e f)"
      "bearing (Some c)" "\<not> engaged (stop_state k)"
      "kframe (k\<lparr>arm_state := DISARMED, arm_scope := None, approvals := [],
        stop_state := released_state\<rparr>) k'"
proof (cases "bearing (Some c)")
  case False
  with assms have "res = Inl SafetyCallerError" "k' = k"
    by (auto simp: kernel_release_def exec_simps require_release_authority_def bearing_release)
  with False refused show thesis by blast
next
  case True
  then have may: "may_release_emergency_stop c" by (simp add: bearing_release)
  let ?k1 = "k\<lparr>arm_state := DISARMED, arm_scope := None, approvals := [],
        stop_state := released_state\<rparr>"
  let ?rec = "record_control env ''emergency_stop.released'' c EMERGENCY_STOP
    ''The emergency stop was released.'' None None"
  let ?rb = "ignore (restore_engagement (stop_state k))"
  obtain cr k2 where commit: "commit_authority_change_with_audit ''emergency_stop.released'' ?rec ?rb ?k1
      = (cr, k2)" by fastforce
  with assms may have res: "k' = k2" "res = (case cr of Inl e \<Rightarrow> Inl e | Inr _ \<Rightarrow> Inr released_state)"
    by (auto simp: kernel_release_def exec_simps require_release_authority_def reset_apply
        split: sum.splits)
  show thesis
  proof (cases "engaged (stop_state k)")
    case eng: True
    have undo: "?rb k0 = (Inr (), k0\<lparr>stop_state := stop_state k\<rparr>)" for k0
      using eng by (simp add: restore_engagement_def exec_simps)
    from commit undo show thesis
    proof (cases rule: commit_cases)
      case committed
      with res True released show thesis by simp
    next
      case (rolled_back e k3)
      from rolled_back(3,4) have "kframe (k\<lparr>arm_state := DISARMED, arm_scope := None, approvals := []\<rparr>) k'"
        by (simp add: res(1) kframe_def)
      with res rolled_back(1,2) True eng restored show thesis by simp
    qed
  next
    case noteng: False
    obtain rr k3 where rec: "?rec ?k1 = (rr, k3)" by fastforce
    have frame: "kframe ?k1 k3" by (rule framedD [OF framed_record_control rec])
    show thesis
    proof (cases rr)
      case (Inl e)
      with commit rec noteng have "k2 = k3"
        "cr = Inl (SafetyRollbackError ''emergency_stop.released'' e (SafetyStateError ''engaged'' ''False''))"
        by (auto simp: commit_authority_change_with_audit_def roll_back_authority_def exec_simps
            restore_engagement_def)
      with res True noteng frame untrusted show thesis by simp
    next
      case (Inr u)
      with commit rec have "k2 = k3" "cr = Inr ()"
        by (auto simp: commit_authority_change_with_audit_def exec_simps)
      with res True frame released show thesis by simp
    qed
  qed
qed

section \<open>Refinement\<close>

lemma as_result_snd [simp]: "snd (as_result f m k) = snd (m k)"
  by (auto simp: as_result_def exec_simps split: prod.splits sum.splits)

lemma decide_authority:
  "auth_step c a (a\<lparr>auth_approvals := snd (decide pol r ctx (auth_approvals a))\<rparr>)"
proof (cases rule: decide_store_cases [of pol r ctx "auth_approvals a"])
  case kept
  then show ?thesis using auth_step.stutter [of c a] by simp
next
  case (spent i x)
  from auth_step.spend [OF spent(2,3), of c] spent(4) show ?thesis by simp
qed

lemma kernel_step_auth:
  assumes "kernel_ok k"
  shows "auth_step (call_caller c) (authority_of k) (authority_of (kernel_step env c k))"
proof (cases c)
  case (Arm sc by_caller)
  obtain r k' where call: "kernel_arm env sc by_caller k = (r, k')" by fastforce
  then have k': "kernel_step env c k = k'" by (simp add: kernel_step_def Arm)
  from call show ?thesis
  proof (cases rule: kernel_arm_cases)
    case (refused e)
    then show ?thesis by (simp add: k' kframe_authority auth_step.stutter)
  next
    case arming
    then have a: "authority_of k' = (authority_of k)\<lparr>auth_arm := ARMING, auth_scope := Some sc\<rparr>"
      by (simp add: authority_of_def kframe_def)
    from arming show ?thesis unfolding k' a
      by (intro auth_step.begin_arming) (simp_all add: Arm authority_of_def)
  next
    case (rolled_back e k1)
    then have "authority_of k' = (authority_of k)\<lparr>auth_arm := DISARMED, auth_scope := None\<rparr>"
      by (simp add: authority_of_def kframe_def)
    then show ?thesis by (simp add: k' auth_step.disarm)
  qed
next
  case (ConfirmArm by_caller)
  obtain r k' where call: "kernel_confirm_arm env by_caller k = (r, k')" by fastforce
  then have k': "kernel_step env c k = k'" by (simp add: kernel_step_def ConfirmArm)
  from call show ?thesis
  proof (cases rule: kernel_confirm_cases)
    case (refused e)
    then show ?thesis by (simp add: k' kframe_authority auth_step.stutter)
  next
    case (lapsed e)
    then have "authority_of k' = (authority_of k)\<lparr>auth_arm := DISARMED, auth_scope := None\<rparr>"
      by (simp add: authority_of_def kframe_def)
    then show ?thesis by (simp add: k' auth_step.disarm)
  next
    case armed
    then have a: "authority_of k' = (authority_of k)\<lparr>auth_arm := ARMED\<rparr>"
      by (simp add: authority_of_def kframe_def)
    from armed show ?thesis unfolding k' a
      by (intro auth_step.confirm_arming) (simp_all add: ConfirmArm authority_of_def)
  qed
next
  case (Disarm by_caller reason)
  obtain r k' where call: "kernel_disarm env by_caller reason k = (r, k')" by fastforce
  then have k': "kernel_step env c k = k'" by (simp add: kernel_step_def Disarm)
  from kernel_disarm_cases [OF call]
  have "authority_of k' = (authority_of k)\<lparr>auth_arm := DISARMED, auth_scope := None\<rparr>"
    by (simp add: authority_of_def kframe_def)
  then show ?thesis by (simp add: k' auth_step.disarm)
next
  case (GrantApproval spec by_caller)
  obtain r k' where call: "kernel_grant_approval env spec by_caller k = (r, k')" by fastforce
  then have k': "kernel_step env c k = k'" by (simp add: kernel_step_def GrantApproval)
  from call show ?thesis
  proof (cases rule: kernel_grant_cases)
    case (refused e)
    then show ?thesis by (simp add: k' auth_step.stutter)
  next
    case (granted a)
    then have a: "authority_of k' = (authority_of k)\<lparr>auth_approvals :=
        AList.update (approval_id a) \<lparr>stored = a, consumed = False\<rparr> (auth_approvals (authority_of k))\<rparr>"
      by (simp add: authority_of_def kframe_def)
    from granted show ?thesis unfolding k' a
      by (intro auth_step.grant) (simp_all add: GrantApproval authority_of_def)
  next
    case (rolled_back e i)
    then have "authority_of k' = (authority_of k)\<lparr>auth_approvals :=
        AList.delete i (auth_approvals (authority_of k))\<rparr>"
      by (simp add: authority_of_def kframe_def)
    then show ?thesis by (simp add: k' auth_step.revoke)
  qed
next
  case (RevokeApproval i)
  have "authority_of (kernel_step env c k) = (authority_of k)\<lparr>auth_approvals :=
      AList.delete i (auth_approvals (authority_of k))\<rparr>"
    by (simp add: kernel_step_def RevokeApproval kernel_revoke_approval_def exec_simps authority_of_def)
  then show ?thesis by (simp add: auth_step.revoke)
next
  case (Evaluate r)
  obtain res k' where call: "kernel_evaluate env r k = (res, k')" by fastforce
  then have k': "kernel_step env c k = k'" by (simp add: kernel_step_def Evaluate)
  from call show ?thesis
  proof (cases rule: kernel_evaluate_cases)
    case (faulted e)
    then show ?thesis by (simp add: k' kframe_authority auth_step.stutter)
  next
    case (decided t sc k1 v d k2 rr)
    then have "authority_of k' = (authority_of k)\<lparr>auth_approvals :=
        snd (decide (kernel_policy k) r (evaluation_context k t sc) (auth_approvals (authority_of k)))\<rparr>"
      by (simp add: authority_of_def kframe_def)
    then show ?thesis using decide_authority by (simp add: k')
  qed
next
  case (RegisterCanceller i cancel)
  have "authority_of (kernel_step env c k) = authority_of k"
    by (auto simp: kernel_step_def RegisterCanceller kernel_register_canceller_def
        register_canceller_def exec_simps authority_of_def)
  then show ?thesis by (simp add: auth_step.stutter)
next
  case (EngageStop by_caller reason)
  obtain res k' where call: "kernel_engage env by_caller reason k = (res, k')" by fastforce
  then have k': "kernel_step env c k = k'" by (simp add: kernel_step_def EngageStop)
  from kernel_engage_effect [OF assms call] have "authority_of k' = (authority_of k)
      \<lparr>auth_arm := DISARMED, auth_scope := None, auth_approvals := [], auth_stopped := True\<rparr>"
    by (simp add: authority_of_def)
  then show ?thesis by (simp add: k' auth_step.stop)
next
  case (ReleaseStop by_caller)
  obtain res k' where call: "kernel_release env by_caller k = (res, k')" by fastforce
  then have k': "kernel_step env c k = k'" by (simp add: kernel_step_def ReleaseStop)
  have rel: "authority_of k' = (authority_of k)
      \<lparr>auth_arm := DISARMED, auth_scope := None, auth_approvals := [], auth_stopped := False\<rparr>"
    if "kframe (k\<lparr>arm_state := DISARMED, arm_scope := None, approvals := [],
        stop_state := released_state\<rparr>) k'"
    using that by (simp add: authority_of_def kframe_def released_state_def)
  from call show ?thesis
  proof (cases rule: kernel_release_cases)
    case refused
    then show ?thesis by (simp add: k' auth_step.stutter)
  next
    case released
    then have "bearing (call_caller c)" by (simp add: ReleaseStop)
    with rel released show ?thesis by (simp only: k' auth_step.release)
  next
    case (restored e)
    then have "authority_of k' = (authority_of k)
        \<lparr>auth_arm := DISARMED, auth_scope := None, auth_approvals := []\<rparr>"
      by (simp add: authority_of_def kframe_def)
    then show ?thesis by (simp add: k' auth_step.withdraw)
  next
    case (untrusted e f)
    then have "bearing (call_caller c)" by (simp add: ReleaseStop)
    with rel untrusted show ?thesis by (simp only: k' auth_step.release)
  qed
qed

section \<open>Invariants\<close>

text \<open>On the abstract machine: a stopped runtime is disarmed and holds no approval.\<close>

definition auth_ok :: "authority \<Rightarrow> bool" where
  "auth_ok a \<longleftrightarrow> (auth_arm a = DISARMED \<longleftrightarrow> auth_scope a = None) \<and>
     (auth_stopped a \<longrightarrow> auth_arm a = DISARMED \<and> auth_approvals a = [])"

lemma auth_step_ok: "auth_step c a b \<Longrightarrow> auth_ok a \<Longrightarrow> auth_ok b"
  by (induction rule: auth_step.induct) (auto simp: auth_ok_def)

lemma auth_ok_of: "auth_ok (authority_of k) \<longleftrightarrow>
    arm_ok k \<and> (engaged (stop_state k) \<longrightarrow> arm_state k = DISARMED \<and> approvals k = [])"
  by (simp add: auth_ok_def authority_of_def arm_ok_def)

lemma kernel_ok_alt: "kernel_ok k \<longleftrightarrow> auth_ok (authority_of k) \<and>
    stop_state_ok (stop_state k) \<and> cancellers_ok (cancellers k) \<and> hook_attached k \<and>
    (\<not> engaged (stop_state k) \<longrightarrow> stop_state k = released_state)"
  by (auto simp: kernel_ok_def auth_ok_of)

lemma released_state_simps [simp]: "stop_state_ok released_state" "\<not> engaged released_state"
  by (simp_all add: released_state_def stop_state_ok_def)

lemma kernel_step_stop:
  fixes env :: environment and c :: kernel_call
  assumes ok: "kernel_ok k"
  defines "k' \<equiv> kernel_step env c k"
  shows "stop_state_ok (stop_state k') \<and> cancellers_ok (cancellers k') \<and> hook_attached k' \<and>
    (\<not> engaged (stop_state k') \<longrightarrow> stop_state k' = released_state)"
proof -
  have kept: ?thesis if "stop_state k' = stop_state k" "cancellers k' = cancellers k"
      "hook_attached k' = hook_attached k"
    using that ok by (simp add: kernel_ok_def)
  show ?thesis
  proof (cases c)
    case (Arm sc by_caller)
    then have "kernel_arm env sc by_caller k = (fst (kernel_arm env sc by_caller k), k')"
      by (simp add: k'_def kernel_step_def)
    then show ?thesis
      by (cases rule: kernel_arm_cases) (rule kept; simp add: kframe_def)+
  next
    case (ConfirmArm by_caller)
    then have "kernel_confirm_arm env by_caller k = (fst (kernel_confirm_arm env by_caller k), k')"
      by (simp add: k'_def kernel_step_def)
    then show ?thesis
      by (cases rule: kernel_confirm_cases) (rule kept; simp add: kframe_def)+
  next
    case (Disarm by_caller reason)
    then have "kernel_disarm env by_caller reason k = (fst (kernel_disarm env by_caller reason k), k')"
      by (simp add: k'_def kernel_step_def)
    from kernel_disarm_cases [OF this] show ?thesis by (intro kept) (simp_all add: kframe_def)
  next
    case (GrantApproval spec by_caller)
    then have "kernel_grant_approval env spec by_caller k
        = (fst (kernel_grant_approval env spec by_caller k), k')"
      by (simp add: k'_def kernel_step_def)
    then show ?thesis
      by (cases rule: kernel_grant_cases) (rule kept; simp add: kframe_def)+
  next
    case (RevokeApproval i)
    then show ?thesis
      by (intro kept) (simp_all add: k'_def kernel_step_def kernel_revoke_approval_def exec_simps)
  next
    case (Evaluate r)
    then have "kernel_evaluate env r k = (fst (kernel_evaluate env r k), k')"
      by (simp add: k'_def kernel_step_def)
    then show ?thesis
      by (cases rule: kernel_evaluate_cases) (rule kept; simp add: kframe_def)+
  next
    case (RegisterCanceller i cancel)
    with ok show ?thesis
      by (auto simp: k'_def kernel_step_def kernel_register_canceller_def register_canceller_def
          exec_simps kernel_ok_def cancellers_ok_def)
  next
    case (EngageStop by_caller reason)
    then have "kernel_engage env by_caller reason k = (fst (kernel_engage env by_caller reason k), k')"
      by (simp add: k'_def kernel_step_def)
    from kernel_engage_effect [OF ok this] show ?thesis by (simp add: kernel_ok_def)
  next
    case (ReleaseStop by_caller)
    then have "kernel_release env by_caller k = (fst (kernel_release env by_caller k), k')"
      by (simp add: k'_def kernel_step_def)
    then show ?thesis
    proof (cases rule: kernel_release_cases)
      case refused
      then show ?thesis by (intro kept) simp_all
    next
      case (restored e)
      then show ?thesis by (intro kept) (simp_all add: kframe_def)
    qed (use ok in \<open>simp_all add: kframe_def kernel_ok_def\<close>)
  qed
qed

lemma kernel_step_ok: "kernel_ok k \<Longrightarrow> kernel_ok (kernel_step env c k)"
  using kernel_step_stop [of k env c] kernel_step_auth [of k c env] auth_step_ok
  by (auto simp: kernel_ok_alt)

interpretation kernel_machine: preserved "kernel_step env" kernel_ok "\<lambda>_. True" for env
  by unfold_locales (rule kernel_step_ok)

lemma new_kernel_ok: "kernel_ok (new_kernel trail perms pol)"
  by (simp add: new_kernel_def attach_disarm_def exec_simps kernel_ok_def arm_ok_def cancellers_ok_def)

lemma kernel_run_ok: "kernel_ok k \<Longrightarrow> kernel_ok (kernel_run env cs k)"
  unfolding kernel_run_def by (rule kernel_machine.run_inv) simp_all

lemma stopped_transmits_nothing:
  assumes "transmits cls" and "engaged (stop_state k)"
  shows "\<not> authorised pol (r\<lparr>request_class := operation_class_value cls\<rparr>) (evaluation_context k t sc) d"
proof -
  from assms(1) obtain p where "OPERATION_POLICIES cls = Inr p" "CAN_TX \<in> required_capabilities p"
    by (auto simp: transmits_policy)
  with assms(2) show ?thesis
    by (simp add: authorised_def operation_policy_def operation_class_of_value arm_authorises_def
        evaluation_context_def)
qed

end
