(* ===== verification/Trail.thy ===== *)
theory Trail
  imports Authority
begin

text \<open>
  What the trail holds. A sink accepts an event when its write does not raise; the event an
  operation records is well formed, and it describes the operation and the state after it.
\<close>

definition accepted :: "environment \<Rightarrow> audit_trail \<Rightarrow> audit_event \<Rightarrow> audit_trail \<Rightarrow> bool" where
  "accepted env a e a' =
     (case a of
        InMemory s \<Rightarrow> a' = InMemory (sink_record e s)
      | CustomSink n \<Rightarrow> env_sink env n e = None \<and> a' = CustomSink (Suc n))"

definition trail_ok :: "nat \<Rightarrow> audit_trail \<Rightarrow> bool" where
  "trail_ok n a =
     (case a of
        InMemory s \<Rightarrow> sink_ok s \<and> sink_capacity s = n \<and> list_all well_formed_event (sink_events s)
      | CustomSink _ \<Rightarrow> True)"

lemma write_event_Inr:
  "write_event env e k = (Inr u, k') \<longleftrightarrow> accepted env (audit k) e (audit k') \<and> k' = k\<lparr>audit := audit k'\<rparr>"
  by (auto simp: write_event_def accepted_def split: audit_trail.splits option.splits)

lemma trail_ok_record:
  "sink_ok s \<Longrightarrow> list_all well_formed_event (sink_events s) \<Longrightarrow> well_formed_event e \<Longrightarrow>
     trail_ok (sink_capacity s) (InMemory (sink_record e s))"
  using audit_trail.invar_push [of s e]
  by (cases "sink_events s") (auto simp: trail_ok_def sink_record_def deque_append_def Let_def)

lemma write_event_trail:
  "well_formed_event e \<Longrightarrow> trail_ok n (audit k) \<Longrightarrow> trail_ok n (audit (snd (write_event env e k)))"
  using trail_ok_record
  by (auto simp: write_event_def trail_ok_def split: audit_trail.splits option.splits)

section \<open>Control events\<close>

lemma prepare_control_audit [simp]:
  "audit (snd (prepare_control env action c reason msg detail rd k)) = audit k"
  by (auto simp: prepare_control_def exec_simps frame_simps read_uuid_def split: sum.splits)

lemma prepare_control_Inr:
  assumes "prepare_control env action c reason msg detail rd k = (Inr e, k1)"
  shows "well_formed_event e" "ev_operation_id e = ''kernel.'' @ action" "ev_caller_id e = caller_id c"
    "ev_caller_kind e = caller_kind_value (kind c)" "ev_reason_code e = safety_reason_value reason"
    "ev_reason_digest e = rd" "ev_detail e = detail" "ev_arm_state e = arm_state_value (arm_state k)"
    "ev_emergency_stop_engaged e = engaged (stop_state k)"
  using assms
  by (auto simp: prepare_control_def exec_simps frame_simps read_uuid_def audit_event_post_init_Inr
      split: sum.splits)

lemma record_control_Inr:
  assumes "record_control env action c reason msg detail rd k = (Inr u, k')"
  shows "\<exists>e. accepted env (audit k) e (audit k') \<and> well_formed_event e \<and>
    ev_operation_id e = ''kernel.'' @ action \<and> ev_caller_id e = caller_id c \<and>
    ev_caller_kind e = caller_kind_value (kind c) \<and> ev_reason_code e = safety_reason_value reason \<and>
    ev_reason_digest e = rd \<and> ev_detail e = detail \<and>
    ev_arm_state e = arm_state_value (arm_state k') \<and>
    ev_emergency_stop_engaged e = engaged (stop_state k')"
proof -
  have frame: "kframe k k'" by (rule framedD [OF framed_record_control assms])
  obtain res k1 where prep: "prepare_control env action c reason msg detail rd k = (res, k1)"
    by fastforce
  with assms obtain e where e: "res = Inr e" "write_event env e k1 = (Inr u, k')"
    by (cases res) (auto simp: record_control_def exec_simps)
  have "audit k1 = audit k"
    using prepare_control_audit [of env action c reason msg detail rd k] prep by simp
  with e(2) have "accepted env (audit k) e (audit k')" by (simp add: write_event_Inr)
  with prepare_control_Inr [OF prep [unfolded e(1)]] frame show ?thesis
    by (auto simp: kframe_def)
qed

lemma record_control_trail:
  assumes "trail_ok n (audit k)"
  shows "trail_ok n (audit (snd (record_control env action c reason msg detail rd k)))"
proof -
  obtain res k1 where prep: "prepare_control env action c reason msg detail rd k = (res, k1)"
    by fastforce
  have a: "audit k1 = audit k"
    using prepare_control_audit [of env action c reason msg detail rd k] prep by simp
  show ?thesis
  proof (cases res)
    case (Inl e)
    with prep a assms show ?thesis by (simp add: record_control_def exec_simps)
  next
    case (Inr e)
    have "well_formed_event e" using prepare_control_Inr(1) prep Inr by blast
    with prep Inr a assms write_event_trail [of e n k1 env] show ?thesis
      by (simp add: record_control_def exec_simps)
  qed
qed

section \<open>Decision events\<close>

lemma prepare_decision_audit [simp]: "audit (snd (prepare_decision env r v k)) = audit k"
  by (auto simp: prepare_decision_def exec_simps frame_simps read_uuid_def split: sum.splits option.splits)

lemma prepare_decision_Inr:
  assumes "prepare_decision env r v k = (Inr e, k1)"
  shows "well_formed_event e" "ev_operation_id e = operation_id r"
    "ev_operation_class e = request_class r" "ev_caller_id e = caller_id (request_caller r)"
    "ev_decision e = decision_outcome_value (outcome v)"
    "ev_reason_code e = safety_reason_value (reason_code v)"
    "ev_risk_level e = map_option risk_int (decision_risk v)"
    "ev_approval_id e = request_approval_id r" "ev_parameters_digest e = parameters_digest r"
    "ev_arm_state e = arm_state_value (arm_state k)"
    "ev_emergency_stop_engaged e = engaged (stop_state k)" "ev_detail e = None"
  using assms
  by (auto simp: prepare_decision_def exec_simps frame_simps read_uuid_def audit_event_post_init_Inr
      split: sum.splits option.splits)

lemma record_decision_Inr:
  assumes "record_decision env r v k = (Inr u, k')"
  shows "\<exists>e. accepted env (audit k) e (audit k') \<and> well_formed_event e \<and>
    ev_operation_id e = operation_id r \<and> ev_operation_class e = request_class r \<and>
    ev_caller_id e = caller_id (request_caller r) \<and>
    ev_decision e = decision_outcome_value (outcome v) \<and>
    ev_reason_code e = safety_reason_value (reason_code v) \<and>
    ev_risk_level e = map_option risk_int (decision_risk v) \<and>
    ev_approval_id e = request_approval_id r \<and> ev_parameters_digest e = parameters_digest r \<and>
    ev_arm_state e = arm_state_value (arm_state k') \<and>
    ev_emergency_stop_engaged e = engaged (stop_state k')"
proof -
  have frame: "kframe k k'" by (rule framedD [OF framed_record_decision assms])
  obtain res k1 where prep: "prepare_decision env r v k = (res, k1)" by fastforce
  with assms obtain e where e: "res = Inr e" "write_event env e k1 = (Inr u, k')"
    by (cases res) (auto simp: record_decision_def exec_simps)
  have "audit k1 = audit k" using prepare_decision_audit [of env r v k] prep by simp
  with e(2) have "accepted env (audit k) e (audit k')" by (simp add: write_event_Inr)
  with prepare_decision_Inr [OF prep [unfolded e(1)]] frame show ?thesis
    by (auto simp: kframe_def)
qed

lemma record_decision_trail:
  assumes "trail_ok n (audit k)"
  shows "trail_ok n (audit (snd (record_decision env r v k)))"
proof -
  obtain res k1 where prep: "prepare_decision env r v k = (res, k1)" by fastforce
  have a: "audit k1 = audit k" using prepare_decision_audit [of env r v k] prep by simp
  show ?thesis
  proof (cases res)
    case (Inl e)
    with prep a assms show ?thesis by (simp add: record_decision_def exec_simps)
  next
    case (Inr e)
    have "well_formed_event e" using prepare_decision_Inr(1) prep Inr by blast
    with prep Inr a assms write_event_trail [of e n k1 env] show ?thesis
      by (simp add: record_decision_def exec_simps)
  qed
qed

section \<open>The trail of every run\<close>

text \<open>A computation keeps the trail if it leaves a well-formed one well formed.\<close>

definition keeps_trail :: "(kernel, exn, 'a) exec \<Rightarrow> bool" where
  "keeps_trail m \<longleftrightarrow> (\<forall>n k. trail_ok n (audit k) \<longrightarrow> trail_ok n (audit (snd (m k))))"

lemma keeps_trail_same: "(\<And>k. audit (snd (m k)) = audit k) \<Longrightarrow> keeps_trail m"
  by (simp add: keeps_trail_def)

lemma keeps_trail_simple [intro]:
  "keeps_trail (ret a)" "keeps_trail (throw e)" "keeps_trail (lift r)" "keeps_trail (get f)"
  by (rule keeps_trail_same; simp add: exec_simps)+

lemma keeps_trail_bind [intro]:
  "keeps_trail m \<Longrightarrow> (\<And>a. keeps_trail (f a)) \<Longrightarrow> keeps_trail (ebind m f)"
  unfolding keeps_trail_def ebind_apply
  by (auto split: prod.splits sum.splits) (metis snd_conv)+

lemma keeps_trail_seq [intro]: "keeps_trail m \<Longrightarrow> keeps_trail n \<Longrightarrow> keeps_trail (eseq m n)"
  unfolding eseq_def by blast

lemma keeps_trail_try [intro]:
  "keeps_trail m \<Longrightarrow> (\<And>e. keeps_trail (h e)) \<Longrightarrow> keeps_trail (etry m h)"
  unfolding keeps_trail_def ebind_apply
  by (auto split: prod.splits sum.splits) (metis snd_conv)+

lemma keeps_trail_ignore [intro]: "keeps_trail m \<Longrightarrow> keeps_trail (ignore m)"
  unfolding ignore_def by blast

lemma keeps_trail_leaves [intro]:
  "keeps_trail (read_clock clk)" "keeps_trail (require_emergency_stop_released action)"
  "keeps_trail (on_store m)" "keeps_trail arm_disarm" "keeps_trail (register_canceller i cc)"
  "keeps_trail (arm_request clk sc)" "keeps_trail (arm_confirm clk)" "keeps_trail (active_scope clk)"
  "keeps_trail (reset c)" "keeps_trail (restore_engagement st)"
  by (rule keeps_trail_same; auto simp: exec_simps frame_simps register_canceller_def arm_request_def
      arm_confirm_def active_scope_def reset_def restore_engagement_def
      split: sum.splits option.splits)+

lemma keeps_trail_records [intro]:
  "keeps_trail (record_control env action c reason msg detail rd)" "keeps_trail (record_decision env r v)"
  by (simp_all add: keeps_trail_def record_control_trail record_decision_trail)

lemma keeps_trail_commit [intro]:
  "keeps_trail rec \<Longrightarrow> keeps_trail rb \<Longrightarrow> keeps_trail (commit_authority_change_with_audit action rec rb)"
  unfolding commit_authority_change_with_audit_def roll_back_authority_def by blast

lemma keeps_trail_engage [intro]:
  "keeps_trail (engage clk disarm_for_emergency_stop rd)"
proof (rule keeps_trail_same)
  have first: "audit (snd (engage_first clk digest k)) = audit k" for digest and k :: kernel
    by (auto simp: engage_first_def read_engaged_at_def exec_simps frame_simps split: sum.splits)
  have f2: "engage_first clk digest k = (x, k') \<Longrightarrow> audit k' = audit k" for digest x and k k' :: kernel
    using first [of digest k] by simp
  show "audit (snd (engage clk disarm_for_emergency_stop rd k)) = audit k" for k :: kernel
    by (auto simp: engage_def Let_def exec_simps disarm_for_emergency_stop_def
        split: sum.splits prod.splits dest: f2)
qed


lemmas keeps_trail_intros = keeps_trail_simple keeps_trail_bind keeps_trail_seq keeps_trail_try
  keeps_trail_ignore keeps_trail_leaves keeps_trail_records keeps_trail_commit keeps_trail_engage

lemma keeps_trail_methods:
  "keeps_trail (kernel_arm env sc c)" "keeps_trail (kernel_confirm_arm env c)"
  "keeps_trail (kernel_disarm env c reason)" "keeps_trail (kernel_grant_approval env spec c)"
  "keeps_trail (kernel_revoke_approval i)" "keeps_trail (kernel_register_canceller i cc)"
  "keeps_trail (kernel_engage env c reason)" "keeps_trail (kernel_release env c)"
  unfolding kernel_arm_def kernel_confirm_arm_def kernel_disarm_def kernel_grant_approval_def
    kernel_revoke_approval_def kernel_register_canceller_def kernel_engage_def kernel_release_def Let_def
  by (intro keeps_trail_intros)+

lemma keeps_trail_evaluate: "keeps_trail (kernel_evaluate env r)"
proof -
  have "keeps_trail (put (\<lambda>k. k\<lparr>approvals := d\<rparr>))" for d
    by (rule keeps_trail_same) (simp add: exec_simps)
  then show ?thesis
    unfolding kernel_evaluate_def
    by (intro keeps_trail_intros) (auto split: prod.splits intro!: keeps_trail_intros)
qed

lemma keeps_trail_calls: "keeps_trail (kernel_exec env c)"
  unfolding as_result_def
  by (cases c) (simp_all add: as_result_def keeps_trail_methods keeps_trail_evaluate keeps_trail_bind
      keeps_trail_simple)

definition trail_inv :: "nat \<Rightarrow> kernel \<Rightarrow> bool" where
  "trail_inv n k = trail_ok n (audit k)"

interpretation kernel_trail: preserved "kernel_step env" "trail_inv n" "\<lambda>_. True" for env n
  using keeps_trail_calls by unfold_locales (auto simp: keeps_trail_def kernel_step_def trail_inv_def)

section \<open>Authority is recorded\<close>

text \<open>
  A step raises authority when it moves the arm state towards armed, releases the stop, or
  leaves an approval live that was not. The trail then holds the event of the caller who
  did it, and the event states the arm state and the stop as the step leaves them.
\<close>

definition raises_authority :: "kernel \<Rightarrow> kernel \<Rightarrow> bool" where
  "raises_authority k k' \<longleftrightarrow>
     (arm_state k' \<noteq> DISARMED \<and> arm_state k' \<noteq> arm_state k) \<or>
     (engaged (stop_state k) \<and> \<not> engaged (stop_state k')) \<or>
     (\<exists>i x. map_of (approvals k') i = Some \<lparr>stored = x, consumed = False\<rparr> \<and>
        map_of (approvals k) i \<noteq> Some \<lparr>stored = x, consumed = False\<rparr>)"

definition names :: "audit_event \<Rightarrow> caller_identity \<Rightarrow> string \<Rightarrow> kernel \<Rightarrow> bool" where
  "names e c action k \<longleftrightarrow> well_formed_event e \<and> ev_operation_id e = ''kernel.'' @ action \<and>
     ev_caller_id e = caller_id c \<and> ev_caller_kind e = caller_kind_value (kind c) \<and>
     ev_arm_state e = arm_state_value (arm_state k) \<and>
     ev_emergency_stop_engaged e = engaged (stop_state k)"

fun call_action :: "kernel_call \<Rightarrow> string" where
  "call_action (Arm sc c) = ''arm.requested''"
| "call_action (ConfirmArm c) = ''arm.confirmed''"
| "call_action (Disarm c reason) = ''disarm''"
| "call_action (GrantApproval spec c) = ''approval.granted''"
| "call_action (EngageStop c reason) = ''emergency_stop.engaged''"
| "call_action (ReleaseStop c) = ''emergency_stop.released''"
| "call_action _ = ''''"

lemma record_control_names:
  assumes "record_control env action c reason msg detail rd k = (Inr u, k')"
  shows "\<exists>e. accepted env (audit k) e (audit k') \<and> names e c action k'"
  using record_control_Inr [OF assms] unfolding names_def by blast

lemma commit_Inr:
  "commit_authority_change_with_audit action rec rb k = (Inr u, k') \<longleftrightarrow> rec k = (Inr u, k')"
  by (auto simp: commit_authority_change_with_audit_def exec_simps split: prod.splits sum.splits)

lemma delete_not_live:
  "map_of (AList.delete j d) i = Some v \<Longrightarrow> map_of d i = Some v"
  by (auto simp: delete_conv' fun_upd_apply split: if_splits)

lemma raises_frame: "kframe k1 k' \<Longrightarrow> raises_authority k k' = raises_authority k k1"
  by (simp add: raises_authority_def kframe_def)

lemma raises_nothing:
  "arm_state k' \<in> {DISARMED, arm_state k} \<Longrightarrow> stop_state k' = stop_state k \<Longrightarrow>
   approvals k' \<in> {[], approvals k} \<Longrightarrow> \<not> raises_authority k k'"
  by (auto simp: raises_authority_def)

lemma kernel_arm_recorded:
  assumes "kernel_arm env sc c k = (Inr st, k')"
  shows "\<exists>e. accepted env (audit k) e (audit k') \<and> names e c ''arm.requested'' k'"
  using assms
  by (auto simp: kernel_arm_def exec_simps commit_Inr
      split: sum.splits prod.splits if_splits dest!: record_control_names
        arm_request_Inr [THEN iffD1])

lemma kernel_confirm_recorded:
  assumes "kernel_confirm_arm env c k = (Inr st, k')"
  shows "\<exists>e. accepted env (audit k) e (audit k') \<and> names e c ''arm.confirmed'' k'"
  using assms
  by (auto simp: kernel_confirm_arm_def exec_simps commit_Inr
      split: sum.splits prod.splits if_splits dest!: record_control_names
        arm_confirm_Inr [THEN iffD1])

lemma kernel_grant_recorded:
  assumes "kernel_grant_approval env spec c k = (Inr a, k')"
  shows "\<exists>e. accepted env (audit k) e (audit k') \<and> names e c ''approval.granted'' k'"
  using assms
  by (auto simp: kernel_grant_approval_def exec_simps commit_Inr
      split: sum.splits prod.splits if_splits dest!: record_control_names)

lemma kernel_release_recorded:
  assumes "kernel_release env c k = (Inr st, k')"
  shows "\<exists>e. accepted env (audit k) e (audit k') \<and> names e c ''emergency_stop.released'' k'"
proof -
  have "may_release_emergency_stop c"
    using assms by (auto simp: kernel_release_def exec_simps require_release_authority_def guard_def
        split: if_splits)
  with assms show ?thesis
    by (auto simp: kernel_release_def exec_simps commit_Inr reset_apply require_release_authority_def
        split: sum.splits prod.splits if_splits dest!: record_control_names)
qed

lemma grant_bearing: "issuer_for c = Inr i \<Longrightarrow> bearing (Some c)"
  using issuer_for_may_issue [of c] by (auto simp: bearing_def may_issue_approval_def)

definition recorded_raise :: "environment \<Rightarrow> kernel_call \<Rightarrow> kernel \<Rightarrow> bool" where
  "recorded_raise env c k \<longleftrightarrow> (\<exists>m e. call_caller c = Some m \<and> bearing (Some m) \<and>
     accepted env (audit k) e (audit (kernel_step env c k)) \<and>
     names e m (call_action c) (kernel_step env c k))"

lemma raise_recorded:
  assumes ok: "kernel_ok k" and raise: "raises_authority k (kernel_step env c k)"
  shows "recorded_raise env c k"
proof (cases c)
  case (Arm sc by_caller)
  then have call: "kernel_arm env sc by_caller k = (fst (kernel_arm env sc by_caller k), kernel_step env c k)"
    by (simp add: kernel_step_def)
  then show ?thesis
  proof (cases rule: kernel_arm_cases)
    case arming
    with call kernel_arm_recorded [of env sc by_caller k ARMING] Arm show ?thesis
      by (simp add: recorded_raise_def)
  qed (use raise in \<open>simp_all add: raises_authority_def kframe_def\<close>)
next
  case (ConfirmArm by_caller)
  then have call: "kernel_confirm_arm env by_caller k
      = (fst (kernel_confirm_arm env by_caller k), kernel_step env c k)"
    by (simp add: kernel_step_def)
  then show ?thesis
  proof (cases rule: kernel_confirm_cases)
    case armed
    with call kernel_confirm_recorded [of env by_caller k ARMED] ConfirmArm show ?thesis
      by (simp add: recorded_raise_def)
  qed (use raise in \<open>simp_all add: raises_authority_def kframe_def\<close>)
next
  case (GrantApproval spec by_caller)
  then have call: "kernel_grant_approval env spec by_caller k
      = (fst (kernel_grant_approval env spec by_caller k), kernel_step env c k)"
    by (simp add: kernel_step_def)
  then show ?thesis
  proof (cases rule: kernel_grant_cases)
    case (granted a)
    with call kernel_grant_recorded [of env spec by_caller k a] GrantApproval show ?thesis
      using grant_bearing by (simp add: recorded_raise_def)
  next
    case (rolled_back e i)
    with raise show ?thesis by (auto simp: raises_authority_def kframe_def dest: delete_not_live)
  qed (use raise in \<open>simp add: raises_authority_def\<close>)
next
  case (ReleaseStop by_caller)
  then have call: "kernel_release env by_caller k
      = (fst (kernel_release env by_caller k), kernel_step env c k)"
    by (simp add: kernel_step_def)
  then show ?thesis
  proof (cases rule: kernel_release_cases)
    case released
    with call kernel_release_recorded [of env by_caller k released_state] ReleaseStop show ?thesis
      by (simp add: recorded_raise_def)
  qed (use raise in \<open>simp_all add: raises_authority_def kframe_def\<close>)
next
  case (Disarm by_caller reason)
  then have "kernel_disarm env by_caller reason k
      = (fst (kernel_disarm env by_caller reason k), kernel_step env c k)"
    by (simp add: kernel_step_def)
  from kernel_disarm_cases [OF this] raise show ?thesis by (simp add: raises_authority_def kframe_def)
next
  case (RevokeApproval i)
  with raise show ?thesis
    by (auto simp: raises_authority_def kernel_step_def kernel_revoke_approval_def exec_simps
        dest: delete_not_live)
next
  case (Evaluate r)
  then have "kernel_evaluate env r k = (fst (kernel_evaluate env r k), kernel_step env c k)"
    by (simp add: kernel_step_def)
  then show ?thesis
  proof (cases rule: kernel_evaluate_cases)
    case (decided t sc k1 v d k2 rr)
    with raise have "\<exists>i x. map_of d i = Some \<lparr>stored = x, consumed = False\<rparr> \<and>
        map_of (approvals k) i \<noteq> Some \<lparr>stored = x, consumed = False\<rparr>"
      by (simp add: raises_authority_def kframe_def)
    moreover have "d = snd (decide (kernel_policy k) r (evaluation_context k t sc) (approvals k))"
      using decided(3) by simp
    ultimately show ?thesis
      by (cases rule: decide_store_cases [of "kernel_policy k" r "evaluation_context k t sc" "approvals k"])
         (auto simp: update_conv' fun_upd_apply split: if_splits)
  qed (use raise in \<open>simp add: raises_authority_def kframe_def\<close>)
next
  case (RegisterCanceller i cancel)
  then have "authority_of (kernel_step env c k) = authority_of k"
    by (auto simp: kernel_step_def kernel_register_canceller_def register_canceller_def exec_simps
        authority_of_def split: sum.splits)
  with raise show ?thesis by (simp add: raises_authority_def authority_of_def)
next
  case (EngageStop by_caller reason)
  then have "kernel_engage env by_caller reason k
      = (fst (kernel_engage env by_caller reason k), kernel_step env c k)"
    by (simp add: kernel_step_def)
  from kernel_engage_effect [OF ok this] raise show ?thesis by (simp add: raises_authority_def)
qed

lemma unauthorised_step:
  assumes "auth_step c a b" "\<not> bearing c"
  shows "(auth_arm b = auth_arm a \<and> auth_scope b = auth_scope a \<or>
      auth_arm b = DISARMED \<and> auth_scope b = None) \<and>
    (auth_stopped a \<longrightarrow> auth_stopped b) \<and>
    (\<forall>i x. map_of (auth_approvals b) i = Some \<lparr>stored = x, consumed = False\<rparr> \<longrightarrow>
       map_of (auth_approvals a) i = Some \<lparr>stored = x, consumed = False\<rparr>)"
  using assms
proof (cases rule: auth_step.cases)
  case (revoke i)
  then show ?thesis by (auto dest: delete_not_live)
next
  case (spend i x)
  then show ?thesis by (auto simp: update_conv' fun_upd_apply split: if_splits)
next
  case (grant g x)
  with assms(2) grant_bearing [of g "issuer x"] show ?thesis by simp
qed (use assms in simp_all)

end
