(* ===== verification/Responsive.thy ===== *)
theory Responsive
  imports Trail
begin

text \<open>
  What a host that answers gets: its clock reads a finite time, its random source yields
  bits, and its sink is the in-memory trail. Every operation of a valid caller then
  records its event, and an evaluation returns a verdict.
\<close>

definition responsive :: "environment \<Rightarrow> bool" where
  "responsive env \<longleftrightarrow>
     (\<forall>n. \<exists>a. env_clock env n = Inr (Fin a)) \<and> (\<forall>n. \<exists>w. env_uuid env n = Inr w)"

definition recorded :: "audit_event \<Rightarrow> kernel \<Rightarrow> kernel" where
  "recorded e k = k\<lparr>ticks := Suc (ticks k), uuids := Suc (uuids k),
     audit := (case audit k of InMemory s \<Rightarrow> InMemory (sink_record e s) | a \<Rightarrow> a)\<rparr>"

lemma responsiveD:
  assumes "responsive env"
  obtains a w where "env_clock env n = Inr (Fin a)" "env_uuid env m = Inr w"
  using assms by (auto simp: responsive_def) metis

lemma control_vocabulary [simp]:
  "identifier_ok ''safety.control''" "identifier_ok ''control''" "identifier_ok ''decision''"
  "identifier_ok ''kernel.arm.requested''" "identifier_ok ''kernel.arm.confirmed''"
  "identifier_ok ''kernel.approval.granted''" "identifier_ok ''kernel.disarm''"
  "identifier_ok ''kernel.emergency_stop.engaged''" "identifier_ok ''kernel.emergency_stop.released''"
  by (simp_all add: identifier_ok_def AUDIT_IDENTIFIER_ALPHABET_def MAX_AUDIT_IDENTIFIER_LENGTH_def)

lemmas identifier_eval = identifier_ok_def AUDIT_IDENTIFIER_ALPHABET_def MAX_AUDIT_IDENTIFIER_LENGTH_def

lemma arm_state_identifier [simp]: "identifier_ok (arm_state_value st)"
  by (cases st) (simp_all add: identifier_eval)

lemma reason_identifier [simp]: "identifier_ok (safety_reason_value s)"
  by (cases s) (simp_all add: identifier_eval)

lemma outcome_identifier [simp]: "identifier_ok (decision_outcome_value d)"
  by (cases d) (simp_all add: identifier_eval)

lemma record_control_returns:
  assumes env: "responsive env" and sink: "audit k = InMemory s" and "valid_caller c"
    and "identifier_ok (''kernel.'' @ action)" and "pred_option digest_ok rd"
  shows "\<exists>e. record_control env action c reason msg detail rd k = (Inr (), recorded e k)"
proof -
  obtain a w where clk: "env_clock env (ticks k) = Inr (Fin a)" and bits: "env_uuid env (uuids k) = Inr w"
    using env by (rule responsiveD)
  let ?e = "\<lparr>event_id = uuid_hex w, recorded_at = Fin a, ev_caller_kind = caller_kind_value (kind c),
        ev_caller_id = caller_id c, ev_operation_id = ''kernel.'' @ action,
        ev_operation_class = ''safety.control'', ev_risk_level = None, ev_device_id = None,
        ev_channel = None, ev_target_address = None, ev_decision = ''control'',
        ev_reason_code = safety_reason_value reason, ev_message = msg, ev_detail = detail,
        ev_approval_id = None, ev_parameters_digest = None, ev_reason_digest = rd,
        ev_arm_state = arm_state_value (arm_state k), ev_arm_scope_expired = None,
        ev_emergency_stop_engaged = engaged (stop_state k), ev_outcome = ''control''\<rparr>"
  have "well_formed_event ?e"
    using assms(3-5) by (simp add: well_formed_event_def uuid_hex_identifier valid_caller_def
        caller_kind_identifier)
  then have "audit_event_post_init ?e = Inr ?e" by (simp add: audit_event_post_init_Inr)
  then have "record_control env action c reason msg detail rd k = (Inr (), recorded ?e k)"
    by (simp add: record_control_def prepare_control_def exec_simps frame_simps read_uuid_def clk bits
        write_event_def sink recorded_def)
  then show ?thesis by blast
qed

lemma record_decision_returns:
  assumes env: "responsive env" and sink: "audit k = InMemory s"
    and "valid_request r" and "identifier_ok (request_class r)"
  shows "\<exists>k'. record_decision env r v k = (Inr (), k')"
proof -
  obtain a w where clk: "env_clock env (ticks k) = Inr (Fin a)" and bits: "env_uuid env (uuids k) = Inr w"
    using env by (rule responsiveD)
  obtain b where clk': "env_clock env (Suc (ticks k)) = Inr (Fin b)"
    using env by (rule responsiveD)
  have "pred_option identifier_ok (device_id (request_target r))"
    "pred_option identifier_ok (channel (request_target r))"
    using assms(3) by (simp_all add: valid_request_def valid_target_def)
  then show ?thesis
    using assms(3,4) clk clk' bits sink
    by (cases "arm_scope k")
       (simp_all add: record_decision_def prepare_decision_def exec_simps frame_simps read_uuid_def
          write_event_def audit_event_post_init_Inr [THEN iffD2] well_formed_event_def
          valid_request_def valid_caller_def uuid_hex_identifier caller_kind_identifier)
qed

lemma evaluate_returns:
  assumes env: "responsive env" and sink: "audit k = InMemory s"
    and req: "valid_request r" "identifier_ok (request_class r)"
  shows "\<exists>v k'. kernel_evaluate env r k = (Inr v, k')"
proof -
  obtain a where clk: "env_clock env (ticks k) = Inr (Fin a)"
    using env by (rule responsiveD)
  obtain b where clk': "env_clock env (Suc (ticks k)) = Inr (Fin b)"
    using env by (rule responsiveD)
  let ?k0 = "k\<lparr>ticks := Suc (ticks k)\<rparr>"
  have "\<exists>sc n. active_scope (env_clock env) ?k0 = (Inr sc, k\<lparr>ticks := n\<rparr>)"
    using clk' by (auto simp: active_scope_def exec_simps frame_simps split: option.splits)
  then obtain sc n where act: "active_scope (env_clock env) ?k0 = (Inr sc, k\<lparr>ticks := n\<rparr>)" by blast
  obtain v d where dec: "decide (kernel_policy k) r (evaluation_context k (Fin a) sc) (approvals k) = (v, d)"
    by fastforce
  have "audit (k\<lparr>ticks := n, approvals := d\<rparr>) = InMemory s" using sink by simp
  from record_decision_returns [OF env this req] obtain k' where
    "record_decision env r v (k\<lparr>ticks := n, approvals := d\<rparr>) = (Inr (), k')" by blast
  with clk act dec show ?thesis
    by (simp add: kernel_evaluate_def exec_simps frame_simps evaluation_context_def)
qed

section \<open>Opening a session\<close>

lemma arm_returns:
  assumes env: "responsive env" and "audit k = InMemory s" and "valid_caller c" "bearing (Some c)"
    and "\<not> engaged (stop_state k)" "arm_state k = DISARMED"
    and live: "\<forall>a. env_clock env (ticks k) = Inr a \<longrightarrow> \<not> scope_is_expired sc a"
  shows "\<exists>e. kernel_arm env sc c k
    = (Inr ARMING, recorded e (k\<lparr>ticks := Suc (ticks k), arm_state := ARMING, arm_scope := Some sc\<rparr>))"
proof -
  obtain a where clk: "env_clock env (ticks k) = Inr (Fin a)"
    using env by (rule responsiveD)
  let ?k1 = "k\<lparr>ticks := Suc (ticks k), arm_state := ARMING, arm_scope := Some sc\<rparr>"
  have req: "arm_request (env_clock env) sc k = (Inr ARMING, ?k1)"
    using assms(6) clk live by (auto simp: arm_request_Inr)
  have "audit ?k1 = InMemory s" using assms(2) by simp
  from record_control_returns [OF env this assms(3), of "''arm.requested''" None ALLOWED
    "''Arming was requested with a bounded scope.''" "Some (render env (describe_scope sc))"]
  obtain e where "record_control env ''arm.requested'' c ALLOWED
      ''Arming was requested with a bounded scope.'' (Some (render env (describe_scope sc))) None ?k1
      = (Inr (), recorded e ?k1)" by auto
  with req assms(4,5) show ?thesis
    by (auto simp: kernel_arm_def exec_simps commit_authority_change_with_audit_def)
qed

lemma confirm_returns:
  assumes env: "responsive env" and "audit k = InMemory s" and "valid_caller c" "bearing (Some c)"
    and "\<not> engaged (stop_state k)" "arm_state k = ARMING" "arm_scope k = Some sc"
    and live: "\<forall>a. env_clock env (ticks k) = Inr a \<longrightarrow> \<not> scope_is_expired sc a"
  shows "\<exists>e. kernel_confirm_arm env c k
    = (Inr ARMED, recorded e (k\<lparr>ticks := Suc (ticks k), arm_state := ARMED\<rparr>))"
proof -
  obtain a where clk: "env_clock env (ticks k) = Inr (Fin a)"
    using env by (rule responsiveD)
  let ?k1 = "k\<lparr>ticks := Suc (ticks k), arm_state := ARMED\<rparr>"
  have req: "arm_confirm (env_clock env) k = (Inr ARMED, ?k1)"
    using assms(6,7) clk live by (auto simp: arm_confirm_Inr)
  have "audit ?k1 = InMemory s" using assms(2) by simp
  from record_control_returns [OF env this assms(3), of "''arm.confirmed''" None ALLOWED
    "''The runtime is armed within its scope.''" None]
  obtain e where "record_control env ''arm.confirmed'' c ALLOWED
      ''The runtime is armed within its scope.'' None None ?k1 = (Inr (), recorded e ?k1)" by auto
  with req assms(4,5) show ?thesis
    by (auto simp: kernel_confirm_arm_def exec_simps commit_authority_change_with_audit_def)
qed

lemma grant_returns:
  assumes env: "responsive env" and "audit k = InMemory s" and "valid_caller c"
    and issuer: "issuer_for c = Inr i" and "\<not> engaged (stop_state k)" and spec: "valid_spec spec"
  defines "a \<equiv> \<lparr>approval_id = spec_id spec, approval_capability = spec_capability spec,
    approval_target = spec_target spec, issued_at = spec_issued_at spec,
    approval_expires_at = spec_expires_at spec, issuer = i, single_use = spec_single_use spec\<rparr>"
  shows "\<exists>e. kernel_grant_approval env spec c k = (Inr a, recorded e
    (k\<lparr>approvals := AList.update (spec_id spec) \<lparr>stored = a, consumed = False\<rparr> (approvals k)\<rparr>))"
proof -
  let ?k1 = "k\<lparr>approvals := AList.update (spec_id spec) \<lparr>stored = a, consumed = False\<rparr> (approvals k)\<rparr>"
  have may: "may_issue_approval c" using issuer by (auto simp: issuer_for_may_issue)
  have "valid_target (approval_target a)" "valid_approval a"
    using spec by (simp_all add: a_def valid_spec_def valid_approval_def)
  then have post: "approval_post_init a = Inr a" by (simp add: approval_post_init_Inr)
  have store: "store_grant a c (approvals k) = (Inr (), approvals ?k1)"
    using issuer by (simp add: store_grant_Inr a_def)
  have "audit ?k1 = InMemory s" using assms(2) by simp
  from record_control_returns [OF env this assms(3), of "''approval.granted''" None ALLOWED
    "''An approval was recorded for this session.''" "Some (render env (describe_approval a))"]
  obtain e where "record_control env ''approval.granted'' c ALLOWED
      ''An approval was recorded for this session.'' (Some (render env (describe_approval a))) None ?k1
      = (Inr (), recorded e ?k1)" by auto
  with issuer assms(5) may post store show ?thesis unfolding kernel_grant_approval_def a_def
    by (auto simp: exec_simps commit_authority_change_with_audit_def guard_def)
qed

end
