(* ===== verification/Ledger.thy ===== *)
theory Ledger
  imports Authority
begin

text \<open>
  The kernel as a ledger of single-use approvals: a class of operation whose requirement
  demands one spends it, and only a new grant under the same identifier renews it.
\<close>

definition single_use_demanded :: "safety_policy \<Rightarrow> operation_request \<Rightarrow> bool" where
  "single_use_demanded pol r =
     (case operation_policy (request_class r) of
        Inl _ \<Rightarrow> False
      | Inr p \<Rightarrow> is_dangerous (effect_risk p) \<and> required (approval_requirement pol (effect_risk p)) \<and>
          single_use_required (approval_requirement pol (effect_risk p)))"

definition authorises :: "environment \<Rightarrow> operation_request \<Rightarrow> kernel \<Rightarrow> bool" where
  "authorises env r k =
     (case fst (kernel_evaluate env r k) of Inl _ \<Rightarrow> False | Inr v \<Rightarrow> allowed v)"

fun kernel_spends :: "environment \<Rightarrow> string \<Rightarrow> kernel_call \<Rightarrow> kernel \<Rightarrow> bool" where
  "kernel_spends env i (Evaluate r) k =
     (request_approval_id r = Some i \<and> single_use_demanded (kernel_policy k) r \<and> authorises env r k)"
| "kernel_spends env i _ k = False"

fun kernel_renews :: "string \<Rightarrow> kernel_call \<Rightarrow> bool" where
  "kernel_renews i (GrantApproval spec c) = (spec_id spec = i)"
| "kernel_renews i _ = False"

lemma decide_spends:
  assumes "allowed (fst (decide pol r ctx d))" "single_use_demanded pol r" "request_approval_id r = Some i"
  shows "spendable i d" "\<not> spendable i (snd (decide pol r ctx d))"
proof -
  obtain v d' where dec: "decide_chain pol r ctx d = (Inr v, d')" "snd (decide pol r ctx d) = d'"
    using assms(1) by (cases rule: decide_cases [of r pol ctx d]) (auto simp: denied_not_allowed)
  with assms(2) obtain p a where
    auth: "approval_authorises (approval_requirement pol (effect_risk p)) p r ctx d a"
      "single_use_required (approval_requirement pol (effect_risk p))"
    and d': "d' = (if single_use a then AList.update i \<lparr>stored = a, consumed = True\<rparr> d else d)"
    using assms(3)
    by (auto simp: decide_chain_Inr single_use_demanded_def require_approval_Inr split: sum.splits)
  then have a: "single_use a" "map_of d i = Some \<lparr>stored = a, consumed = False\<rparr>"
    using assms(3) by (auto simp: approval_authorises_def)
  then show "spendable i d" by (simp add: spendable_def)
  show "\<not> spendable i (snd (decide pol r ctx d))"
    using a(1) d' dec(2) by (simp add: spendable_def update_conv')
qed

lemma decide_stays_spent: "\<not> spendable i d \<Longrightarrow> \<not> spendable i (snd (decide pol r ctx d))"
proof (cases rule: decide_store_cases [of pol r ctx d])
  case (spent j a)
  assume "\<not> spendable i d"
  with spent show ?thesis by (cases "i = j") (auto simp: spendable_def update_conv')
qed simp

text \<open>An abstract step renews an approval only by granting it.\<close>

lemma auth_step_spent:
  assumes "auth_step c a b" "\<not> spendable i (auth_approvals a)" "spendable i (auth_approvals b)"
  obtains x where "auth_approvals b =
    AList.update (approval_id x) \<lparr>stored = x, consumed = False\<rparr> (auth_approvals a)" "approval_id x = i"
  using assms(1)
proof (cases rule: auth_step.cases)
  case (revoke j)
  with assms(2,3) show thesis by (auto dest: spendable_delete)
next
  case (spend j x)
  with assms(2,3) show thesis by (cases "i = j") (auto simp: spendable_def update_conv')
next
  case (grant g x)
  with assms(2,3) that show thesis by (cases "i = approval_id x") auto
qed (use assms in simp_all)

lemma kernel_stays_spent:
  assumes ok: "kernel_ok k" and dead: "\<not> spendable i (approvals k)" and "\<not> kernel_renews i c"
  shows "\<not> spendable i (approvals (kernel_step env c k))"
proof (cases c)
  case (GrantApproval spec by_caller)
  then have "kernel_grant_approval env spec by_caller k
      = (fst (kernel_grant_approval env spec by_caller k), kernel_step env c k)"
    by (simp add: kernel_step_def)
  then show ?thesis
  proof (cases rule: kernel_grant_cases)
    case (granted a)
    with assms(3) GrantApproval dead show ?thesis by (simp add: kframe_def)
  next
    case (rolled_back e j)
    with dead show ?thesis by (auto simp: kframe_def dest: spendable_delete)
  qed (use dead in simp)
next
  case (Evaluate r)
  then have "kernel_evaluate env r k = (fst (kernel_evaluate env r k), kernel_step env c k)"
    by (simp add: kernel_step_def)
  then show ?thesis
  proof (cases rule: kernel_evaluate_cases)
    case (decided t sc k1 v d k2 rr)
    with decide_stays_spent [OF dead, of "kernel_policy k" r "evaluation_context k t sc"]
    show ?thesis by (simp add: kframe_def)
  qed (use dead in \<open>simp add: kframe_def\<close>)
next
  case (Arm sc by_caller)
  then have "kernel_arm env sc by_caller k = (fst (kernel_arm env sc by_caller k), kernel_step env c k)"
    by (simp add: kernel_step_def)
  then show ?thesis using dead by (cases rule: kernel_arm_cases) (simp_all add: kframe_def)
next
  case (ConfirmArm by_caller)
  then have "kernel_confirm_arm env by_caller k
      = (fst (kernel_confirm_arm env by_caller k), kernel_step env c k)"
    by (simp add: kernel_step_def)
  then show ?thesis using dead by (cases rule: kernel_confirm_cases) (simp_all add: kframe_def)
next
  case (Disarm by_caller reason)
  then have "kernel_disarm env by_caller reason k
      = (fst (kernel_disarm env by_caller reason k), kernel_step env c k)"
    by (simp add: kernel_step_def)
  from kernel_disarm_cases [OF this] dead show ?thesis by (simp add: kframe_def)
next
  case (RevokeApproval j)
  with dead show ?thesis
    by (auto simp: kernel_step_def kernel_revoke_approval_def exec_simps dest: spendable_delete)
next
  case (RegisterCanceller j cancel)
  with dead show ?thesis
    by (auto simp: kernel_step_def kernel_register_canceller_def register_canceller_def exec_simps)
next
  case (EngageStop by_caller reason)
  then have "kernel_engage env by_caller reason k
      = (fst (kernel_engage env by_caller reason k), kernel_step env c k)"
    by (simp add: kernel_step_def)
  from kernel_engage_effect [OF ok this] show ?thesis by simp
next
  case (ReleaseStop by_caller)
  then have "kernel_release env by_caller k
      = (fst (kernel_release env by_caller k), kernel_step env c k)"
    by (simp add: kernel_step_def)
  then show ?thesis using dead by (cases rule: kernel_release_cases) (simp_all add: kframe_def)
qed

lemma kernel_spends_effect:
  assumes "kernel_spends env i c k"
  shows "spendable i (approvals k)" "\<not> spendable i (approvals (kernel_step env c k))"
proof -
  from assms obtain r where c: "c = Evaluate r" by (cases c) auto
  with assms have r: "request_approval_id r = Some i" "single_use_demanded (kernel_policy k) r"
    by auto
  from assms c obtain v0 where v0: "fst (kernel_evaluate env r k) = Inr v0" "allowed v0"
    by (auto simp: authorises_def split: sum.splits)
  have "kernel_evaluate env r k = (Inr v0, kernel_step env c k)"
    using v0(1) c by (simp add: kernel_step_def prod_eq_iff)
  then have "spendable i (approvals k) \<and> \<not> spendable i (approvals (kernel_step env c k))"
  proof (cases rule: kernel_evaluate_cases)
    case (decided t sc k1 v d k2 rr)
    then have "v = v0" by (auto split: sum.splits)
    with decided(3) v0 r decide_spends [of "kernel_policy k" r "evaluation_context k t sc" "approvals k" i]
    show ?thesis using decided(10) by (simp add: kframe_def)
  qed simp
  then show "spendable i (approvals k)" "\<not> spendable i (approvals (kernel_step env c k))" by auto
qed

interpretation kernel_ledger:
  spend_once "kernel_step env" kernel_ok "kernel_spends env i" "\<lambda>k. spendable i (approvals k)"
    "kernel_renews i" for env i
  by unfold_locales (auto simp: kernel_step_ok kernel_stays_spent dest: kernel_spends_effect)

end
