(* ===== verification/Scenario.thy ===== *)
theory Scenario
  imports Responsive Ledger
begin

text \<open>
  A concrete host and session: a steady clock, an operator, an armed scope on one channel,
  the grant that goes with it, and a frame transmission the scope covers. The properties
  are applied to it.
\<close>

definition steady_clock :: clock where
  "steady_clock n = Inr (Fin 5)"

definition broken_clock :: clock where
  "broken_clock n = Inl (Foreign ''RuntimeError'')"

definition host :: environment where
  "host = \<lparr>env_clock = steady_clock, env_uuid = (\<lambda>n. Inr (of_nat n)), env_sink = (\<lambda>n e. None),
     env_float_repr = (\<lambda>x. ''5.0'')\<rparr>"

text \<open>A host whose custom sink accepts one event and then fails.\<close>

definition failing_host :: environment where
  "failing_host = host\<lparr>env_sink := (\<lambda>n e. Some (Foreign ''OSError''))\<rparr>"

definition operator :: caller_identity where
  "operator = \<lparr>kind = HUMAN_UI, caller_id = ''operator''\<rparr>"

definition agent :: caller_identity where
  "agent = \<lparr>kind = AGENT, caller_id = ''agent-1''\<rparr>"

definition bench :: operation_target where
  "bench = \<lparr>device_id = Some ''bench'', channel = Some ''can0'', target_address = Some 0x123\<rparr>"

definition bench_scope :: arm_scope where
  "bench_scope = \<lparr>capabilities = {CAN_TX, capability.ACTUATION}, scope_target = bench,
     granted_at = Fin 0, scope_expires_at = Fin 100\<rparr>"

definition bench_permissions :: permission_set where
  "bench_permissions = [\<lparr>grant_capabilities = {CAN_TX, capability.ACTUATION}, grant_target = bench,
     grant_expires_at = Some (Fin 100)\<rparr>]"

definition bench_spec :: approval_spec where
  "bench_spec = \<lparr>spec_id = ''approval-1'', spec_capability = capability.ACTUATION, spec_target = bench,
     spec_issued_at = Fin 0, spec_expires_at = Fin 100, spec_single_use = True\<rparr>"

definition actuate :: operation_request where
  "actuate = \<lparr>operation_id = ''op-1'', request_class = ''actuation'', request_caller = agent,
     request_target = bench, requested_at = Fin 5, request_approval_id = Some ''approval-1'',
     parameters_digest = None\<rparr>"

definition fresh :: kernel where
  "fresh = new_kernel (InMemory \<lparr>sink_capacity = 4096, sink_events = [], sink_dropped = 0\<rparr>)
     bench_permissions DEFAULT_APPROVAL_REQUIREMENTS"

definition session_calls :: "kernel_call list" where
  "session_calls = [Arm bench_scope operator, ConfirmArm operator, GrantApproval bench_spec operator]"

definition armed_session :: kernel where
  "armed_session = kernel_run host session_calls fresh"

lemmas scenario_defs = operator_def agent_def bench_def bench_scope_def bench_permissions_def
  bench_spec_def actuate_def

lemma host_responsive [simp]: "responsive host"
  by (simp add: responsive_def host_def steady_clock_def)

lemma host_clock [simp]: "env_clock host n = Inr (Fin 5)"
  by (simp add: host_def steady_clock_def)

lemma operator_simps [simp]:
  "bearing (Some operator)" "valid_caller operator" "issuer_for operator = Inr HUMAN_OPERATOR"
  "\<not> bearing (Some agent)" "valid_caller agent"
  by (simp_all add: scenario_defs bearing_def AUTHORITY_BEARING_KINDS_def valid_caller_def
      identifier_eval issuer_for_def)

lemma bench_valid [simp]: "valid_target bench" "valid_spec bench_spec" "valid_request actuate"
    "identifier_ok (request_class actuate)"
  by (simp_all add: scenario_defs valid_target_def valid_spec_def valid_request_def valid_caller_def
      identifier_eval)

lemma fresh_simps [simp]:
  "arm_state fresh = DISARMED" "arm_scope fresh = None" "\<not> engaged (stop_state fresh)"
  "approvals fresh = []" "kernel_permissions fresh = bench_permissions"
  "kernel_policy fresh = DEFAULT_APPROVAL_REQUIREMENTS"
  "audit fresh = InMemory \<lparr>sink_capacity = 4096, sink_events = [], sink_dropped = 0\<rparr>"
  by (simp_all add: fresh_def new_kernel_def attach_disarm_def exec_simps released_state_def)

lemma recorded_simps [simp]:
  "arm_state (recorded e k) = arm_state k" "arm_scope (recorded e k) = arm_scope k"
  "approvals (recorded e k) = approvals k" "stop_state (recorded e k) = stop_state k"
  "kernel_permissions (recorded e k) = kernel_permissions k"
  "kernel_policy (recorded e k) = kernel_policy k"
  "audit k = InMemory s \<Longrightarrow> audit (recorded e k) = InMemory (sink_record e s)"
  by (simp_all add: recorded_def)

lemma kernel_ok_recorded [simp]: "kernel_ok (recorded e k) = kernel_ok k"
  by (simp add: recorded_def kernel_ok_def arm_ok_def)

definition bench_approval :: approval where
  "bench_approval = \<lparr>approval_id = ''approval-1'', approval_capability = capability.ACTUATION,
     approval_target = bench, issued_at = Fin 0, approval_expires_at = Fin 100,
     issuer = HUMAN_OPERATOR, single_use = True\<rparr>"

lemma fresh_ok [simp]: "kernel_ok fresh"
  by (simp add: fresh_def new_kernel_ok)

lemma fresh_armed:
  "\<exists>e. kernel_arm host bench_scope operator fresh = (Inr ARMING,
     recorded e (fresh\<lparr>ticks := Suc (ticks fresh), arm_state := ARMING, arm_scope := Some bench_scope\<rparr>))"
  using arm_returns [of host fresh _ operator bench_scope]
  by (simp add: bench_scope_def scope_is_expired_def)

lemma armed_session_simps [simp]:
  "kernel_ok armed_session" "arm_state armed_session = ARMED" "arm_scope armed_session = Some bench_scope"
  "approvals armed_session = [(''approval-1'', \<lparr>stored = bench_approval, consumed = False\<rparr>)]"
  "\<not> engaged (stop_state armed_session)" "kernel_permissions armed_session = bench_permissions"
  "kernel_policy armed_session = DEFAULT_APPROVAL_REQUIREMENTS"
  "\<exists>s. audit armed_session = InMemory s"
proof -
  obtain e1 where e1: "kernel_arm host bench_scope operator fresh = (Inr ARMING,
     recorded e1 (fresh\<lparr>ticks := Suc (ticks fresh), arm_state := ARMING, arm_scope := Some bench_scope\<rparr>))"
    using fresh_armed by blast
  define k1 where
    "k1 = recorded e1 (fresh\<lparr>ticks := Suc (ticks fresh), arm_state := ARMING, arm_scope := Some bench_scope\<rparr>)"
  have k1s: "kernel_step host (Arm bench_scope operator) fresh = k1"
    using e1 by (simp add: kernel_step_def k1_def)
  have live: "\<forall>a. env_clock host n = Inr a \<longrightarrow> \<not> scope_is_expired bench_scope a" for n
    by (simp add: bench_scope_def scope_is_expired_def)
  obtain e2 where e2: "kernel_confirm_arm host operator k1
      = (Inr ARMED, recorded e2 (k1\<lparr>ticks := Suc (ticks k1), arm_state := ARMED\<rparr>))"
    using confirm_returns [of host k1 _ operator bench_scope] live by (auto simp: k1_def)
  define k2 where "k2 = recorded e2 (k1\<lparr>ticks := Suc (ticks k1), arm_state := ARMED\<rparr>)"
  have k2: "kernel_step host (ConfirmArm operator) k1 = k2"
    using e2 by (simp add: kernel_step_def k2_def)
  have k2f: "approvals k2 = []" "\<not> engaged (stop_state k2)" by (simp_all add: k2_def k1_def)
  obtain s where s: "audit k2 = InMemory s" by (simp add: k2_def k1_def)
  obtain e3 where e3: "kernel_grant_approval host bench_spec operator k2
      = (Inr bench_approval, recorded e3
          (k2\<lparr>approvals := [(''approval-1'', \<lparr>stored = bench_approval, consumed = False\<rparr>)]\<rparr>))"
    using grant_returns [of host k2 s operator HUMAN_OPERATOR bench_spec] s bench_valid(2)
    by (auto simp: k2f bench_spec_def bench_approval_def)
  have run: "armed_session = recorded e3
      (k2\<lparr>approvals := [(''approval-1'', \<lparr>stored = bench_approval, consumed = False\<rparr>)]\<rparr>)"
    using e3 by (simp add: armed_session_def kernel_run_def session_calls_def k1s k2)
       (simp add: kernel_step_def)
  show "arm_state armed_session = ARMED" "arm_scope armed_session = Some bench_scope"
    "approvals armed_session = [(''approval-1'', \<lparr>stored = bench_approval, consumed = False\<rparr>)]"
    "\<not> engaged (stop_state armed_session)" "kernel_permissions armed_session = bench_permissions"
    "kernel_policy armed_session = DEFAULT_APPROVAL_REQUIREMENTS"
    "\<exists>s. audit armed_session = InMemory s"
    by (simp_all add: run k2_def k1_def)
  show "kernel_ok armed_session" by (simp add: armed_session_def kernel_run_ok)
qed

lemma actuate_policy: "operation_policy (request_class actuate) = Inr \<lparr>op_class = operation_class.ACTUATION,
    effect_risk = risk_level.ACTUATION, required_capabilities = {CAN_TX, capability.ACTUATION}\<rparr>"
  by (simp add: actuate_def operation_policy_def operation_class_of_def all_operation_classes_def
      policy_row_def operation_policy_post_init_def)

lemma actuate_authorised:
  "authorised DEFAULT_APPROVAL_REQUIREMENTS actuate
     (evaluation_context armed_session (Fin 5) (Some bench_scope)) (approvals armed_session)"
  using actuate_policy
  by (simp add: authorised_def arm_authorises_def approval_authorises_def evaluation_context_def
      scope_covers_def scope_is_expired_def permissions_cover_def grant_covers_def
      approval_requirement_def scenario_defs bench_approval_def approval_is_expired_def
      effect_capability_def)

lemma actuate_allowed: "\<exists>v k'. kernel_evaluate host actuate armed_session = (Inr v, k') \<and> allowed v"
proof -
  obtain s where s: "audit armed_session = InMemory s" using armed_session_simps(8) by blast
  obtain v k' where ev: "kernel_evaluate host actuate armed_session = (Inr v, k')"
    using evaluate_returns [of host armed_session s actuate] s by auto
  then show ?thesis
  proof (cases rule: kernel_evaluate_cases)
    case (decided t sc k1 v' d k2 rr)
    then have v: "v' = v" and t: "t = Fin 5" by (auto split: sum.splits)
    have "active_scope (env_clock host) (armed_session\<lparr>ticks := Suc (ticks armed_session)\<rparr>)
        = (Inr (Some bench_scope), armed_session\<lparr>ticks := Suc (Suc (ticks armed_session))\<rparr>)"
      by (simp add: active_scope_def exec_simps frame_simps bench_scope_def scope_is_expired_def)
    with decided(2) have "sc = Some bench_scope" by simp
    with decided(3) t v have "fst (decide DEFAULT_APPROVAL_REQUIREMENTS actuate
        (evaluation_context armed_session (Fin 5) (Some bench_scope)) (approvals armed_session)) = v"
      by simp
    with actuate_authorised decide_allows ev show ?thesis by metis
  qed simp
qed

end
