(* ===== verification/Doubles.thy ===== *)
theory Doubles
  imports Prelude "HOL-Library.Log_Nat"
begin

text \<open>
  The float arithmetic the runtime does: differences of time stamps and conversions of
  integers. A finite double is the rational it denotes; an exact result is rounded to the
  nearest double, ties to even, with gradual underflow and overflow to infinity. Signed
  zeros are one value here.
\<close>

definition floorlog2 :: "rat \<Rightarrow> int" where
  "floorlog2 x =
     (case quotient_of x of (p, q) \<Rightarrow>
        let k = bitlen p - bitlen q in if 2 powi k \<le> x then k else k - 1)"

definition round_even :: "rat \<Rightarrow> int" where
  "round_even x =
     (let f = \<lfloor>x\<rfloor>; d = x - of_int f in
      if d < 1 / 2 then f else if d > 1 / 2 then f + 1 else if even f then f else f + 1)"

definition quantum :: "rat \<Rightarrow> int" where
  "quantum x = max (floorlog2 x - 52) (- 1074)"

definition round_nonneg :: "rat \<Rightarrow> rat" where
  "round_nonneg x =
     (if x \<le> 0 then 0 else of_int (round_even (x / 2 powi quantum x)) * 2 powi quantum x)"

definition round_double :: "rat \<Rightarrow> pyfloat" where
  "round_double x =
     (let r = (if x < 0 then - round_nonneg (- x) else round_nonneg x) in
      if r \<ge> 2 ^ 1024 then PosInf else if r \<le> - (2 ^ 1024) then NegInf else Fin r)"

text \<open>The values a float can have.\<close>

definition is_double :: "pyfloat \<Rightarrow> bool" where
  "is_double x \<longleftrightarrow> (case x of Fin r \<Rightarrow> round_double r = Fin r | _ \<Rightarrow> True)"

fun float_sub :: "pyfloat \<Rightarrow> pyfloat \<Rightarrow> pyfloat" where
  "float_sub (Fin a) (Fin b) = round_double (a - b)"
| "float_sub NaN _ = NaN"
| "float_sub _ NaN = NaN"
| "float_sub PosInf PosInf = NaN"
| "float_sub NegInf NegInf = NaN"
| "float_sub PosInf _ = PosInf"
| "float_sub NegInf _ = NegInf"
| "float_sub (Fin _) PosInf = NegInf"
| "float_sub (Fin _) NegInf = PosInf"

fun float_add :: "pyfloat \<Rightarrow> pyfloat \<Rightarrow> pyfloat" where
  "float_add (Fin a) (Fin b) = round_double (a + b)"
| "float_add NaN _ = NaN"
| "float_add _ NaN = NaN"
| "float_add PosInf NegInf = NaN"
| "float_add NegInf PosInf = NaN"
| "float_add PosInf _ = PosInf"
| "float_add NegInf _ = NegInf"
| "float_add (Fin _) x = x"

definition signed_inf :: "bool \<Rightarrow> rat \<Rightarrow> pyfloat" where
  "signed_inf pos a = (if a = 0 then NaN else if (0 < a) = pos then PosInf else NegInf)"

fun float_mul :: "pyfloat \<Rightarrow> pyfloat \<Rightarrow> pyfloat" where
  "float_mul (Fin a) (Fin b) = round_double (a * b)"
| "float_mul NaN _ = NaN"
| "float_mul _ NaN = NaN"
| "float_mul PosInf (Fin a) = signed_inf True a"
| "float_mul NegInf (Fin a) = signed_inf False a"
| "float_mul (Fin a) PosInf = signed_inf True a"
| "float_mul (Fin a) NegInf = signed_inf False a"
| "float_mul PosInf x = x"
| "float_mul NegInf PosInf = NegInf"
| "float_mul NegInf NegInf = PosInf"

text \<open>\<open>float(i)\<close>: an integer beyond the largest double raises OverflowError.\<close>

definition float_of_int :: "int \<Rightarrow> pyfloat option" where
  "float_of_int i = (case round_double (of_int i) of Fin r \<Rightarrow> Some (Fin r) | _ \<Rightarrow> None)"

section \<open>Lemmas\<close>

lemma floorlog2_bounds:
  assumes "0 < x"
  shows "2 powi floorlog2 x \<le> x" "x < 2 powi (floorlog2 x + 1)"
proof -
  obtain p q where pq: "quotient_of x = (p, q)" by fastforce
  then have q: "0 < q" and x: "x = of_int p / of_int q"
    using quotient_of_denom_pos quotient_of_div by auto
  with assms have p: "0 < p" by (simp add: zero_less_divide_iff)
  let ?k = "bitlen p - bitlen q"
  have bp: "1 \<le> bitlen p" and bq: "1 \<le> bitlen q" using p q by (simp_all add: bitlen_alt_def)
  have pow: "(2 :: rat) powi n = of_int (2 ^ nat n)" if "0 \<le> n" for n
    using that by (simp add: power_int_def)
  have "(2 :: rat) powi (bitlen p - 1) \<le> of_int p" "of_int p < (2 :: rat) powi bitlen p"
    using bitlen_bounds [OF p] bp by (simp_all only: pow of_int_le_iff of_int_less_iff)
  moreover have "(2 :: rat) powi (bitlen q - 1) \<le> of_int q" "of_int q < (2 :: rat) powi bitlen q"
    using bitlen_bounds [OF q] bq by (simp_all only: pow of_int_le_iff of_int_less_iff)
  ultimately have "2 powi (bitlen p - 1) / 2 powi bitlen q < x \<and>
      x < 2 powi bitlen p / 2 powi (bitlen q - 1)"
    using p q unfolding x by (intro conjI frac_less2 frac_less) simp_all
  then have "2 powi (?k - 1) < x" "x < 2 powi (?k + 1)"
    by (auto simp: power_int_diff power_int_add field_simps)
  then show "2 powi floorlog2 x \<le> x" "x < 2 powi (floorlog2 x + 1)"
    by (auto simp: floorlog2_def pq Let_def)
qed

lemma floorlog2_mono: "0 < x \<Longrightarrow> x \<le> y \<Longrightarrow> floorlog2 x \<le> floorlog2 y"
proof (rule ccontr)
  assume "0 < x" "x \<le> y" "\<not> floorlog2 x \<le> floorlog2 y"
  then have "(2 :: rat) powi (floorlog2 y + 1) \<le> 2 powi floorlog2 x"
    by (intro power_int_increasing) auto
  with floorlog2_bounds(1) [of x] floorlog2_bounds(2) [of y] \<open>0 < x\<close> \<open>x \<le> y\<close> show False by linarith
qed

lemma round_even_near: "\<lfloor>x\<rfloor> \<le> round_even x" "round_even x \<le> \<lfloor>x\<rfloor> + 1"
  by (simp_all add: round_even_def Let_def)

lemma round_even_int [simp]: "round_even (of_int n) = n"
  by (simp add: round_even_def)

lemma round_even_mono:
  assumes "x \<le> y"
  shows "round_even x \<le> round_even y"
proof (cases "\<lfloor>x\<rfloor> = \<lfloor>y\<rfloor>")
  case True
  with assms show ?thesis by (simp add: round_even_def Let_def)
next
  case False
  with floor_mono [OF assms] have "\<lfloor>x\<rfloor> + 1 \<le> \<lfloor>y\<rfloor>" by linarith
  with round_even_near(2) [of x] round_even_near(1) [of y] show ?thesis by linarith
qed

lemma round_nonneg_nonneg: "0 \<le> round_nonneg x"
proof (cases "x \<le> 0")
  case False
  then have "round_even (of_int 0) \<le> round_even (x / 2 powi quantum x)"
    by (intro round_even_mono) simp
  then have "0 \<le> round_even (x / 2 powi quantum x)" by (simp only: round_even_int)
  then show ?thesis by (simp add: round_nonneg_def)
qed (simp add: round_nonneg_def)

lemma grid_le:
  assumes "0 < x" "x \<le> 2 powi k" "quantum x \<le> k"
  shows "round_nonneg x \<le> 2 powi k"
proof -
  let ?e = "quantum x"
  have int: "(2 :: rat) powi (k - ?e) = of_int (2 ^ nat (k - ?e))"
    using assms(3) by (simp add: power_int_def)
  have "x / 2 powi ?e \<le> 2 powi (k - ?e)"
    using assms(2) by (simp add: power_int_diff divide_right_mono)
  then have "round_even (x / 2 powi ?e) \<le> 2 ^ nat (k - ?e)"
    using round_even_mono round_even_int unfolding int by metis
  then have "of_int (round_even (x / 2 powi ?e)) \<le> (2 :: rat) powi (k - ?e)"
    unfolding int by (simp only: of_int_le_iff)
  then have "of_int (round_even (x / 2 powi ?e)) * 2 powi ?e \<le> (2 :: rat) powi (k - ?e) * 2 powi ?e"
    by (rule mult_right_mono) simp
  also have "\<dots> = 2 powi k" by (simp add: power_int_add [symmetric])
  finally show ?thesis using assms(1) by (simp add: round_nonneg_def)
qed

lemma grid_ge:
  assumes "2 powi k \<le> x" "quantum x \<le> k"
  shows "2 powi k \<le> round_nonneg x"
proof -
  let ?e = "quantum x"
  have x: "0 < x" using assms(1) zero_less_power_int [of "2 :: rat" k] by linarith
  have int: "(2 :: rat) powi (k - ?e) = of_int (2 ^ nat (k - ?e))"
    using assms(2) by (simp add: power_int_def)
  have "2 powi (k - ?e) \<le> x / 2 powi ?e"
    using assms(1) by (simp add: power_int_diff divide_right_mono)
  then have "2 ^ nat (k - ?e) \<le> round_even (x / 2 powi ?e)"
    using round_even_mono round_even_int unfolding int by metis
  then have "(2 :: rat) powi (k - ?e) \<le> of_int (round_even (x / 2 powi ?e))"
    unfolding int by (simp only: of_int_le_iff)
  then have "(2 :: rat) powi (k - ?e) * 2 powi ?e \<le> of_int (round_even (x / 2 powi ?e)) * 2 powi ?e"
    by (rule mult_right_mono) simp
  moreover have "(2 :: rat) powi (k - ?e) * 2 powi ?e = 2 powi k"
    by (simp add: power_int_add [symmetric])
  ultimately show ?thesis using x by (simp add: round_nonneg_def)
qed

lemma round_nonneg_mono:
  assumes "x \<le> y"
  shows "round_nonneg x \<le> round_nonneg y"
proof (cases "x \<le> 0")
  case True
  then show ?thesis using round_nonneg_nonneg [of y] by (simp add: round_nonneg_def)
next
  case False
  then have x: "0 < x" and y: "0 < y" using assms by linarith+
  show ?thesis
  proof (cases "quantum x = quantum y")
    case True
    have "round_even (x / 2 powi quantum y) \<le> round_even (y / 2 powi quantum y)"
      using assms by (intro round_even_mono divide_right_mono) simp_all
    then show ?thesis using x y True by (simp add: round_nonneg_def mult_right_mono)
  next
    case neq: False
    let ?k = "floorlog2 y"
    have q: "quantum y = ?k - 52" "quantum x < quantum y"
      using floorlog2_mono [OF x assms] neq by (auto simp: quantum_def max_def split: if_splits)
    then have "floorlog2 x < ?k" by (auto simp: quantum_def max_def split: if_splits)
    then have "(2 :: rat) powi (floorlog2 x + 1) \<le> 2 powi ?k"
      by (intro power_int_increasing) auto
    with floorlog2_bounds(2) [OF x] have "x \<le> 2 powi ?k" by linarith
    then have "round_nonneg x \<le> 2 powi ?k" using x q by (intro grid_le) simp_all
    also have "\<dots> \<le> round_nonneg y" using floorlog2_bounds(1) [OF y] q by (intro grid_ge) simp_all
    finally show ?thesis .
  qed
qed

lemma round_nonneg_0 [simp]: "round_nonneg 0 = 0"
  by (simp add: round_nonneg_def)

lemma round_double_nonneg:
  "0 \<le> x \<Longrightarrow> round_double x = (if round_nonneg x \<ge> 2 ^ 1024 then PosInf else Fin (round_nonneg x))"
  using round_nonneg_nonneg [of x] by (auto simp: round_double_def Let_def)

lemma is_double_nonneg: "0 \<le> x \<Longrightarrow> is_double (Fin x) \<longleftrightarrow> round_nonneg x = x \<and> x < 2 ^ 1024"
  by (auto simp: is_double_def round_double_nonneg)

lemma is_double_0 [simp]: "is_double (Fin 0)"
  by (simp add: is_double_nonneg)

lemma floorlog2_1: "floorlog2 1 = 0"
  by (simp add: floorlog2_def Let_def)
lemma is_double_1 [simp]: "is_double (Fin 1)"
proof -
  have "quantum 1 \<le> 0" by (simp add: quantum_def floorlog2_1)
  then have "round_nonneg 1 = 1" using grid_le [of 1 0] grid_ge [of 0 1] by simp
  then show ?thesis by (simp add: is_double_nonneg)
qed

text \<open>The difference of two doubles that are not negative, the larger first.\<close>

lemma float_sub_le:
  assumes "0 \<le> b" "b \<le> a" "is_double (Fin a)"
  shows "\<exists>d. float_sub (Fin a) (Fin b) = Fin d \<and> d = round_nonneg (a - b) \<and> 0 \<le> d \<and> d \<le> a"
proof -
  have a: "round_nonneg a = a" "a < 2 ^ 1024" using assms by (auto simp: is_double_nonneg)
  have "round_nonneg (a - b) \<le> round_nonneg a" using assms by (intro round_nonneg_mono) simp
  with a assms round_nonneg_nonneg [of "a - b"] show ?thesis by (simp add: round_double_nonneg)
qed

lemma float_sub_self [simp]: "float_sub (Fin a) (Fin a) = Fin 0"
  by (simp add: round_double_nonneg)

lemma float_sub_neg:
  assumes "a < b"
  shows "\<not> pf_less (Fin 0) (float_sub (Fin a) (Fin b))"
  using assms round_nonneg_nonneg [of "b - a"] by (auto simp: round_double_def Let_def)

end
