(* ===== verification/Frames.thy ===== *)
theory Frames
  imports Digest Doubles
begin

text \<open>
  Frames and batches of \<open>canx/domain/frame.py\<close> and \<open>canx/domain/batch.py\<close>. A frame is made
  from values of any type, because an adapter or a decoder hands them over: the constructor
  checks the types and then the ranges, and the instance holds typed fields. Time stamps
  may be integers or floats.
\<close>

datatype pyval =
    VNone
  | VBool bool
  | VInt int
  | VFloat pyfloat
  | VStr pystr
  | VBytes "8 word list"
  | VList "pyval list"
  | VDict "(pyval \<times> pyval) list"
  | VOther string

text \<open>\<open>data.get(key)\<close>\<close>

definition dict_get :: "(pyval \<times> pyval) list \<Rightarrow> string \<Rightarrow> pyval" where
  "dict_get d k = (case map_of d (VStr (codes k)) of None \<Rightarrow> VNone | Some v \<Rightarrow> v)"

lemma codes_eq [simp]: "codes s = codes t \<longleftrightarrow> s = t"
  by (auto simp: codes_def inj_map_eq_map [OF inj_of_char])

lemma dict_get_Cons [simp]:
  "dict_get ((VStr (codes k'), v) # d) k = (if k = k' then v else dict_get d k)"
  by (simp add: dict_get_def)

abbreviation value_error :: exn where
  "value_error \<equiv> Foreign ''ValueError''"

datatype direction = RX | TX

fun direction_value :: "direction \<Rightarrow> pystr" where
  "direction_value RX = codes ''rx''"
| "direction_value TX = codes ''tx''"

datatype timestamp_quality = HARDWARE | HOST | ESTIMATED

fun timestamp_quality_value :: "timestamp_quality \<Rightarrow> pystr" where
  "timestamp_quality_value HARDWARE = codes ''hardware''"
| "timestamp_quality_value HOST = codes ''host''"
| "timestamp_quality_value ESTIMATED = codes ''estimated''"

text \<open>\<open>Direction(text)\<close> and \<open>TimestampQuality(text)\<close>\<close>

definition direction_of :: "pystr \<Rightarrow> exn + direction" where
  "direction_of s = (case find (\<lambda>m. direction_value m = s) [RX, TX] of None \<Rightarrow> Inl value_error | Some m \<Rightarrow> Inr m)"

definition timestamp_quality_of :: "pystr \<Rightarrow> exn + timestamp_quality" where
  "timestamp_quality_of s =
     (case find (\<lambda>m. timestamp_quality_value m = s) [HARDWARE, HOST, ESTIMATED] of
        None \<Rightarrow> Inl value_error | Some m \<Rightarrow> Inr m)"

datatype pynum = IntNum int | FloatNum pyfloat

record frame =
  sequence :: int
  channel_id :: pystr
  arbitration_id :: int
  is_extended :: bool
  is_fd :: bool
  bitrate_switch :: bool
  error_state_indicator :: bool
  dlc :: int
  data :: "8 word list"
  direction :: direction
  hardware_timestamp :: "pynum option"
  host_timestamp :: pynum
  normalized_timestamp :: pynum
  clock_domain :: pystr
  timestamp_quality :: timestamp_quality
  flags :: int

text \<open>The arguments of the constructor; the two enumerations are members or anything else.\<close>

record frame_args =
  arg_sequence :: pyval
  arg_channel_id :: pyval
  arg_arbitration_id :: pyval
  arg_is_extended :: pyval
  arg_is_fd :: pyval
  arg_bitrate_switch :: pyval
  arg_error_state_indicator :: pyval
  arg_dlc :: pyval
  arg_data :: pyval
  arg_direction :: "direction + pyval"
  arg_hardware_timestamp :: pyval
  arg_host_timestamp :: pyval
  arg_normalized_timestamp :: pyval
  arg_clock_domain :: pyval
  arg_timestamp_quality :: "timestamp_quality + pyval"
  arg_flags :: pyval

definition CLASSIC_DLC :: "int set" where
  "CLASSIC_DLC = {0, 1, 2, 3, 4, 5, 6, 7, 8}"

definition FD_DLC :: "int set" where
  "FD_DLC = CLASSIC_DLC \<union> {12, 16, 20, 24, 32, 48, 64}"

definition nonempty_text :: "pyval \<Rightarrow> exn + pystr" where
  "nonempty_text v = (case v of VStr s \<Rightarrow> if s = [] then Inl value_error else Inr s | _ \<Rightarrow> Inl value_error)"

text \<open>One time stamp: \<open>isfinite\<close> of an integer beyond the doubles raises OverflowError.\<close>

definition check_timestamp :: "pyval \<Rightarrow> exn + pynum" where
  "check_timestamp v =
     (case v of
        VInt i \<Rightarrow> if float_of_int i = None then Inl (Foreign ''OverflowError'')
          else if i < 0 then Inl value_error else Inr (IntNum i)
      | VFloat x \<Rightarrow> if \<not> isfinite x \<or> pf_less x (Fin 0) then Inl value_error else Inr (FloatNum x)
      | _ \<Rightarrow> Inl value_error)"

definition check_hardware_timestamp :: "pyval \<Rightarrow> exn + pynum option" where
  "check_hardware_timestamp v =
     (if v = VNone then Inr None else rbind (check_timestamp v) (\<lambda>t. Inr (Some t)))"

definition as_int :: "pyval \<Rightarrow> exn + int" where
  "as_int v = (case v of VInt i \<Rightarrow> Inr i | _ \<Rightarrow> Inl value_error)"

definition as_bool :: "pyval \<Rightarrow> exn + bool" where
  "as_bool v = (case v of VBool b \<Rightarrow> Inr b | _ \<Rightarrow> Inl value_error)"

definition as_bytes :: "pyval \<Rightarrow> exn + 8 word list" where
  "as_bytes v = (case v of VBytes bs \<Rightarrow> Inr bs | _ \<Rightarrow> Inl value_error)"

definition as_member :: "'a + pyval \<Rightarrow> exn + 'a" where
  "as_member v = (case v of Inl m \<Rightarrow> Inr m | Inr _ \<Rightarrow> Inl value_error)"

definition frame_post_init :: "frame_args \<Rightarrow> exn + frame" where
  "frame_post_init a =
     rbind (as_int (arg_sequence a)) (\<lambda>seq.
     rbind (as_int (arg_arbitration_id a)) (\<lambda>aid.
     rbind (as_int (arg_dlc a)) (\<lambda>n.
     rbind (as_int (arg_flags a)) (\<lambda>fl.
     rbind (as_bool (arg_is_extended a)) (\<lambda>ext.
     rbind (as_bool (arg_is_fd a)) (\<lambda>fd.
     rbind (as_bool (arg_bitrate_switch a)) (\<lambda>brs.
     rbind (as_bool (arg_error_state_indicator a)) (\<lambda>esi.
     rbind (guard (0 \<le> seq \<and> seq \<le> 0xFFFFFFFFFFFFFFFF) value_error) (\<lambda>_.
     rbind (nonempty_text (arg_channel_id a)) (\<lambda>ch.
     rbind (guard (0 \<le> aid \<and> aid \<le> (if ext then 0x1FFFFFFF else 0x7FF)) value_error) (\<lambda>_.
     rbind (guard (n \<in> (if fd then FD_DLC else CLASSIC_DLC)) value_error) (\<lambda>_.
     rbind (as_bytes (arg_data a)) (\<lambda>bs.
     rbind (guard (int (length bs) = n) value_error) (\<lambda>_.
     rbind (guard (fd \<or> \<not> (brs \<or> esi)) value_error) (\<lambda>_.
     rbind (as_member (arg_direction a)) (\<lambda>dir.
     rbind (as_member (arg_timestamp_quality a)) (\<lambda>q.
     rbind (check_timestamp (arg_host_timestamp a)) (\<lambda>host.
     rbind (check_timestamp (arg_normalized_timestamp a)) (\<lambda>norm.
     rbind (check_hardware_timestamp (arg_hardware_timestamp a)) (\<lambda>hw.
     rbind (nonempty_text (arg_clock_domain a)) (\<lambda>cd.
     rbind (guard (0 \<le> fl \<and> fl \<le> 0xFFFFFFFF) value_error) (\<lambda>_.
     Inr \<lparr>sequence = seq, channel_id = ch, arbitration_id = aid, is_extended = ext, is_fd = fd,
       bitrate_switch = brs, error_state_indicator = esi, dlc = n, data = bs, direction = dir,
       hardware_timestamp = hw, host_timestamp = host, normalized_timestamp = norm,
       clock_domain = cd, timestamp_quality = q, flags = fl\<rparr>))))))))))))))))))))))"

text \<open>\<open>float(t)\<close>\<close>

definition as_float :: "pynum \<Rightarrow> exn + pyfloat" where
  "as_float t =
     (case t of
        FloatNum x \<Rightarrow> Inr x
      | IntNum i \<Rightarrow> (case float_of_int i of None \<Rightarrow> Inl (Foreign ''OverflowError'') | Some x \<Rightarrow> Inr x))"

text \<open>The arguments that make a given frame, as \<open>dataclasses.replace\<close> hands them over.\<close>

definition num_val :: "pynum \<Rightarrow> pyval" where
  "num_val t = (case t of IntNum i \<Rightarrow> VInt i | FloatNum x \<Rightarrow> VFloat x)"

definition args_of :: "frame \<Rightarrow> frame_args" where
  "args_of f = \<lparr>arg_sequence = VInt (sequence f), arg_channel_id = VStr (channel_id f),
     arg_arbitration_id = VInt (arbitration_id f), arg_is_extended = VBool (is_extended f),
     arg_is_fd = VBool (is_fd f), arg_bitrate_switch = VBool (bitrate_switch f),
     arg_error_state_indicator = VBool (error_state_indicator f), arg_dlc = VInt (dlc f),
     arg_data = VBytes (data f), arg_direction = Inl (direction f),
     arg_hardware_timestamp = (case hardware_timestamp f of None \<Rightarrow> VNone | Some t \<Rightarrow> num_val t),
     arg_host_timestamp = num_val (host_timestamp f),
     arg_normalized_timestamp = num_val (normalized_timestamp f),
     arg_clock_domain = VStr (clock_domain f), arg_timestamp_quality = Inl (timestamp_quality f),
     arg_flags = VInt (flags f)\<rparr>"

section \<open>Batches\<close>

definition CURRENT_SCHEMA_VERSION :: int where
  "CURRENT_SCHEMA_VERSION = 1"

record frame_batch =
  schema_version :: int
  stream_id :: pystr
  first_sequence :: int
  last_sequence :: int
  frame_count :: int
  frames :: "frame list"

definition frame_batch_post_init :: "frame_batch \<Rightarrow> exn + frame_batch" where
  "frame_batch_post_init b =
     (if schema_version b \<noteq> CURRENT_SCHEMA_VERSION then Inl value_error
      else if stream_id b = [] then Inl value_error
      else if frames b = [] then Inl value_error
      else let start = sequence (hd (frames b));
               expected = [start .. start + int (length (frames b)) - 1];
               actual = map sequence (frames b)
        in if actual \<noteq> expected then Inl value_error
           else if first_sequence b \<noteq> hd actual \<or> last_sequence b \<noteq> last actual then Inl value_error
           else if frame_count b \<noteq> int (length (frames b)) then Inl value_error
           else Inr b)"

definition frame_batch_create :: "pystr \<Rightarrow> frame list \<Rightarrow> exn + frame_batch" where
  "frame_batch_create stream fs =
     (if fs = [] then Inl value_error
      else frame_batch_post_init \<lparr>schema_version = CURRENT_SCHEMA_VERSION, stream_id = stream,
        first_sequence = sequence (hd fs), last_sequence = sequence (last fs),
        frame_count = int (length fs), frames = fs\<rparr>)"

text \<open>
  The generator, run to its end: the batches it yields and the exception that ends it, if
  one does. The accumulators are the previous sequence and the pending frames.
\<close>

fun batch_loop ::
    "int \<Rightarrow> pystr \<Rightarrow> int option \<Rightarrow> frame list \<Rightarrow> frame list \<Rightarrow> frame_batch list \<times> exn option" where
  "batch_loop n stream prev pending [] =
     (if pending = [] then ([], None)
      else (case frame_batch_create stream pending of Inl e \<Rightarrow> ([], Some e) | Inr b \<Rightarrow> ([b], None)))"
| "batch_loop n stream prev pending (f # fs) =
     (if case prev of None \<Rightarrow> False | Some p \<Rightarrow> sequence f \<noteq> p + 1 then ([], Some value_error)
      else let pending' = pending @ [f] in
        if int (length pending') = n then
          (case frame_batch_create stream pending' of
             Inl e \<Rightarrow> ([], Some e)
           | Inr b \<Rightarrow> (case batch_loop n stream (Some (sequence f)) [] fs of (bs, e) \<Rightarrow> (b # bs, e)))
        else batch_loop n stream (Some (sequence f)) pending' fs)"

definition batch_frames :: "frame list \<Rightarrow> int \<Rightarrow> pystr \<Rightarrow> frame_batch list \<times> exn option" where
  "batch_frames fs n stream =
     (if n \<le> 0 then ([], Some value_error) else batch_loop n stream None [] fs)"

section \<open>Lemmas\<close>

definition valid_number :: "pynum \<Rightarrow> bool" where
  "valid_number t \<longleftrightarrow>
     (case t of IntNum i \<Rightarrow> 0 \<le> i \<and> float_of_int i \<noteq> None
      | FloatNum x \<Rightarrow> isfinite x \<and> \<not> pf_less x (Fin 0))"

definition valid_frame :: "frame \<Rightarrow> bool" where
  "valid_frame f \<longleftrightarrow>
     0 \<le> sequence f \<and> sequence f < 2 ^ 64 \<and> channel_id f \<noteq> [] \<and>
     0 \<le> arbitration_id f \<and> arbitration_id f < (if is_extended f then 2 ^ 29 else 2 ^ 11) \<and>
     dlc f \<in> (if is_fd f then FD_DLC else CLASSIC_DLC) \<and> int (length (data f)) = dlc f \<and>
     (\<not> is_fd f \<longrightarrow> \<not> bitrate_switch f \<and> \<not> error_state_indicator f) \<and>
     valid_number (host_timestamp f) \<and> valid_number (normalized_timestamp f) \<and>
     pred_option valid_number (hardware_timestamp f) \<and>
     clock_domain f \<noteq> [] \<and> 0 \<le> flags f \<and> flags f < 2 ^ 32"

lemma direction_of_value [simp]: "direction_of (direction_value d) = Inr d"
  by (cases d) (simp_all add: direction_of_def)

lemma timestamp_quality_of_value [simp]: "timestamp_quality_of (timestamp_quality_value q) = Inr q"
  by (cases q) (simp_all add: timestamp_quality_of_def)

lemma check_timestamp_Inr: "check_timestamp v = Inr t \<longleftrightarrow> v = num_val t \<and> valid_number t"
  by (cases v; cases t) (auto simp: check_timestamp_def num_val_def valid_number_def)

lemma num_val_not_None [simp]: "num_val t \<noteq> VNone" "VNone \<noteq> num_val t"
  by (cases t; simp add: num_val_def)+

lemma check_hardware_timestamp_Inr:
  "check_hardware_timestamp v = Inr t \<longleftrightarrow>
     v = (case t of None \<Rightarrow> VNone | Some t \<Rightarrow> num_val t) \<and> pred_option valid_number t"
  by (cases t) (auto simp: check_hardware_timestamp_def rbind_Inr_iff check_timestamp_Inr)

lemma nonempty_text_Inr: "nonempty_text v = Inr s \<longleftrightarrow> v = VStr s \<and> s \<noteq> []"
  by (cases v) (auto simp: nonempty_text_def)

lemma as_Inr:
  "as_int v = Inr i \<longleftrightarrow> v = VInt i" "as_bool v = Inr b \<longleftrightarrow> v = VBool b"
  "as_bytes v = Inr bs \<longleftrightarrow> v = VBytes bs"
  by (cases v; auto simp: as_int_def as_bool_def as_bytes_def)+

lemma as_member_Inr: "as_member v = Inr m \<longleftrightarrow> v = Inl m"
  by (cases v) (auto simp: as_member_def)

lemmas frame_checks = rbind_Inr_iff as_Inr as_member_Inr nonempty_text_Inr check_timestamp_Inr
  check_hardware_timestamp_Inr

lemma frame_post_init_Inr: "frame_post_init a = Inr f \<longleftrightarrow> a = args_of f \<and> valid_frame f"
  unfolding frame_post_init_def frame_checks
  by (cases a; cases f) (auto simp: args_of_def valid_frame_def)


text \<open>A number as the float it becomes.\<close>

definition floated :: "pynum \<Rightarrow> pynum" where
  "floated t = (case as_float t of Inl _ \<Rightarrow> t | Inr x \<Rightarrow> FloatNum x)"

lemma as_float_valid:
  assumes "valid_number t"
  obtains x where "as_float t = Inr x" "floated t = FloatNum x" "valid_number (FloatNum x)"
proof (cases t)
  case (IntNum i)
  with assms obtain x where x: "float_of_int i = Some x" and i: "0 \<le> i"
    by (auto simp: valid_number_def)
  from x i have "\<exists>r. x = Fin r \<and> 0 \<le> r"
    by (auto simp: float_of_int_def round_double_nonneg round_nonneg_nonneg split: if_splits)
  with x IntNum that show ?thesis by (auto simp: as_float_def floated_def valid_number_def)
qed (use assms that in \<open>auto simp: as_float_def floated_def\<close>)

text \<open>The specification of a batch and of the split of a stream into batches.\<close>

fun contiguous :: "frame list \<Rightarrow> bool" where
  "contiguous (f # g # fs) = (sequence g = sequence f + 1 \<and> contiguous (g # fs))"
| "contiguous _ = True"

definition valid_batch :: "frame_batch \<Rightarrow> bool" where
  "valid_batch b \<longleftrightarrow>
     schema_version b = CURRENT_SCHEMA_VERSION \<and> stream_id b \<noteq> [] \<and> frames b \<noteq> [] \<and>
     contiguous (frames b) \<and> first_sequence b = sequence (hd (frames b)) \<and>
     last_sequence b = sequence (last (frames b)) \<and> frame_count b = int (length (frames b))"

fun contiguous_prefix :: "int option \<Rightarrow> frame list \<Rightarrow> frame list" where
  "contiguous_prefix prev [] = []"
| "contiguous_prefix prev (f # fs) =
     (if case prev of None \<Rightarrow> False | Some p \<Rightarrow> sequence f \<noteq> p + 1 then []
      else f # contiguous_prefix (Some (sequence f)) fs)"

function chunks :: "nat \<Rightarrow> 'a list \<Rightarrow> 'a list list" where
  "chunks n xs = (if xs = [] \<or> n = 0 then [] else take n xs # chunks n (drop n xs))"
  by auto
termination by (relation "measure (\<lambda>(n, xs). length xs)") auto

declare chunks.simps [simp del]

lemma upto_head: "[a .. a + int n] = a # [a + 1 .. a + int n]"
  by (rule upto_rec1) simp

lemma contiguous_upto:
  "contiguous (f # fs) \<longleftrightarrow> map sequence (f # fs) = [sequence f .. sequence f + int (length fs)]"
proof (induction fs arbitrary: f)
  case Nil
  then show ?case by simp
next
  case (Cons g fs)
  have "[sequence f .. sequence f + int (length (g # fs))]
      = sequence f # [sequence f + 1 .. sequence f + 1 + int (length fs)]"
    using upto_head [of "sequence f" "length (g # fs)"] by (simp add: add.assoc)
  then have "map sequence (f # g # fs) = [sequence f .. sequence f + int (length (g # fs))] \<longleftrightarrow>
      map sequence (g # fs) = [sequence f + 1 .. sequence f + 1 + int (length fs)]"
    by (simp del: upto.simps)
  also have "\<dots> \<longleftrightarrow> sequence g = sequence f + 1 \<and>
      map sequence (g # fs) = [sequence g .. sequence g + int (length fs)]"
  proof (cases "sequence g = sequence f + 1")
    case False
    then show ?thesis by (simp add: upto_head del: upto.simps)
  qed simp
  finally show ?case using Cons.IH [of g] by simp
qed

lemma frame_batch_post_init_Inr: "frame_batch_post_init b = Inr b' \<longleftrightarrow> b' = b \<and> valid_batch b"
proof (cases "frames b")
  case Nil
  then show ?thesis by (simp add: frame_batch_post_init_def valid_batch_def)
next
  case (Cons f fs)
  have "sequence f + int (length (f # fs)) - 1 = sequence f + int (length fs)" by simp
  moreover have "last (map sequence (f # fs)) = sequence (last (f # fs))" by (rule last_map) simp
  ultimately show ?thesis
    unfolding frame_batch_post_init_def valid_batch_def Let_def Cons contiguous_upto
    by (auto simp: upto_head simp del: last.simps upto.simps)
qed

lemma frame_batch_create_Inr:
  assumes "contiguous fs" "fs \<noteq> []" "stream \<noteq> []"
  shows "\<exists>b. frame_batch_create stream fs = Inr b \<and> valid_batch b \<and> frames b = fs \<and> stream_id b = stream"
proof -
  let ?b = "\<lparr>schema_version = CURRENT_SCHEMA_VERSION, stream_id = stream, first_sequence = sequence (hd fs),
    last_sequence = sequence (last fs), frame_count = int (length fs), frames = fs\<rparr>"
  have "valid_batch ?b" using assms by (simp add: valid_batch_def)
  moreover from this have "frame_batch_post_init ?b = Inr ?b" by (simp add: frame_batch_post_init_Inr)
  ultimately show ?thesis using assms(2) by (simp add: frame_batch_create_def)
qed

lemma contiguous_snoc:
  "contiguous (xs @ [f]) \<longleftrightarrow> contiguous xs \<and> (xs = [] \<or> sequence f = sequence (last xs) + 1)"
  by (induction xs rule: contiguous.induct) auto

lemma chunks_short: "xs \<noteq> [] \<Longrightarrow> length xs \<le> n \<Longrightarrow> chunks n xs = [xs]"
  by (cases n) (simp_all add: chunks.simps)

lemma chunks_full: "length xs = n \<Longrightarrow> 0 < n \<Longrightarrow> chunks n (xs @ ys) = xs # chunks n ys"
  by (subst chunks.simps) auto

lemma chunks_Nil [simp]: "chunks n [] = []"
  by (simp add: chunks.simps)

lemma concat_chunks: "0 < n \<Longrightarrow> concat (chunks n xs) = xs"
  by (induction n xs rule: chunks.induct) (subst chunks.simps, auto)

lemma take_whole_chunks:
  assumes "length xs = n" "0 < n"
  shows "take (n * (length (xs @ ys) div n)) (xs @ ys) = xs @ take (n * (length ys div n)) ys"
proof -
  have "length (xs @ ys) div n = Suc (length ys div n)" using assms by simp
  then show ?thesis using assms(1) by simp
qed

lemma contiguous_prefix_prefix: "\<exists>ys. fs = contiguous_prefix prev fs @ ys"
  by (induction fs arbitrary: prev) auto

lemma batch_loop_chunks:
  assumes "0 < N" "stream \<noteq> []" "length pending < N" "contiguous pending"
    and "pending \<noteq> [] \<Longrightarrow> prev = Some (sequence (last pending))"
  shows "let (bs, e) = batch_loop (int N) stream prev pending fs;
             p = contiguous_prefix prev fs; q = pending @ p in
    map frames bs = chunks N (if p = fs then q else take (N * (length q div N)) q) \<and>
    e = (if p = fs then None else Some value_error) \<and>
    list_all (\<lambda>b. valid_batch b \<and> stream_id b = stream) bs"
  using assms(3-5)
proof (induction fs arbitrary: pending prev)
  case Nil
  show ?case
  proof (cases "pending = []")
    case False
    with frame_batch_create_Inr [OF Nil(2) False assms(2)] Nil(1) show ?thesis
      by (auto simp: chunks_short Let_def)
  qed (simp add: Let_def)
next
  case (Cons f fs)
  show ?case
  proof (cases "case prev of None \<Rightarrow> False | Some p \<Rightarrow> sequence f \<noteq> p + 1")
    case True
    with Cons.prems(1) show ?thesis by (simp add: Let_def)
  next
    case next_in_line: False
    define P where "P = pending @ [f]"
    let ?p = "contiguous_prefix (Some (sequence f)) fs"
    have cont: "contiguous P" "P \<noteq> []" "last P = f"
      using Cons.prems next_in_line by (cases "pending = []"; auto simp: P_def contiguous_snoc)+
    have pre: "contiguous_prefix prev (f # fs) = f # ?p" using next_in_line by simp
    have app: "pending @ f # xs = P @ xs" for xs by (simp add: P_def)
    have loop: "batch_loop (int N) stream prev pending (f # fs) =
      (if length P = N then (case frame_batch_create stream P of
          Inl e \<Rightarrow> ([], Some e)
        | Inr b \<Rightarrow> (case batch_loop (int N) stream (Some (sequence f)) [] fs of (bs, e) \<Rightarrow> (b # bs, e)))
       else batch_loop (int N) stream (Some (sequence f)) P fs)"
      using next_in_line by (simp add: P_def Let_def)
    show ?thesis
    proof (cases "length P = N")
      case full: True
      obtain b where b: "frame_batch_create stream P = Inr b" "valid_batch b"
        "frames b = P" "stream_id b = stream"
        using frame_batch_create_Inr [OF cont(1,2) assms(2)] by auto
      obtain bs e where rest: "batch_loop (int N) stream (Some (sequence f)) [] fs = (bs, e)" by fastforce
      have "map frames bs = chunks N (if ?p = fs then ?p else take (N * (length ?p div N)) ?p) \<and>
          e = (if ?p = fs then None else Some value_error) \<and>
          list_all (\<lambda>b. valid_batch b \<and> stream_id b = stream) bs"
        using Cons.IH [of "[]" "Some (sequence f)"] assms(1) rest by (simp add: Let_def)
      then show ?thesis
        unfolding loop pre Let_def app
        using full b rest chunks_full [OF full assms(1)] take_whole_chunks [OF full assms(1), of ?p]
        by (simp add: app)
    next
      case False
      have "length P < N" using False Cons.prems(1) by (simp add: P_def)
      with Cons.IH [of P "Some (sequence f)"] cont False show ?thesis
        unfolding loop pre Let_def app by (simp add: Let_def app)
    qed
  qed
qed

definition sample_frame :: "int \<Rightarrow> frame" where
  "sample_frame n = \<lparr>sequence = n, channel_id = codes ''can0'', arbitration_id = 0x123,
     is_extended = False, is_fd = False, bitrate_switch = False, error_state_indicator = False,
     dlc = 2, data = [1, 2], direction = RX, hardware_timestamp = None,
     host_timestamp = FloatNum (Fin 1), normalized_timestamp = FloatNum (Fin 0),
     clock_domain = codes ''host'', timestamp_quality = HOST, flags = 0\<rparr>"

text \<open>
  C14: the frame constructor accepts exactly the canonical frames. It returns a frame for
  arguments of the right types that satisfy every range, and then the frame has these
  values; nothing else constructs.
\<close>

theorem frame_constructor_characterised:
  "frame_post_init a = Inr f \<longleftrightarrow> a = args_of f \<and> valid_frame f"
  by (rule frame_post_init_Inr)

text \<open>
  C15: batches partition the stream. A stream without gaps is yielded whole, in order, cut
  into full batches and one final partial batch; a stream with a gap is yielded up to the
  last full batch before the gap and then raises; every batch yielded is valid.
\<close>

theorem batches_partition_the_stream:
  assumes "0 < n" and "stream \<noteq> []"
  shows "let (bs, e) = batch_frames fs n stream; p = contiguous_prefix None fs in
    map frames bs = chunks (nat n) (if p = fs then fs else take (nat n * (length p div nat n)) p) \<and>
    e = (if p = fs then None else Some value_error) \<and>
    list_all (\<lambda>b. valid_batch b \<and> stream_id b = stream) bs"
  using batch_loop_chunks [of "nat n" stream "[]" None fs] assms
  by (simp add: batch_frames_def Let_def split: prod.splits if_splits)

theorem batches_partition_the_stream_witness:
  "map frames (fst (batch_frames (map sample_frame [0, 1, 2]) 2 (codes ''s'')))
   = [map sample_frame [0, 1], [sample_frame 2]]"
  using batches_partition_the_stream [of 2 "codes ''s''" "map sample_frame [0, 1, 2]"]
  by (simp add: Let_def codes_def sample_frame_def chunks.simps split: prod.splits)

end
