(* ===== verification/Capture.thy ===== *)
theory Capture
  imports Frames "HOL-Library.Sublist"
begin

text \<open>
  The capture path: the time stamp normaliser (\<open>canx/capture/normalizer.py\<close>) and the bounded
  subscribers (\<open>canx/capture/subscriber.py\<close>). The event loop runs one task at
  a time between awaits: each operation below is one such step, and a put or a get that
  would block is the outcome \<open>Waiting\<close>, tried again when the task is woken.
\<close>

section \<open>The normaliser\<close>

record normalizer =
  first_host_timestamp :: "pynum option"
  next_sequence :: int

definition new_normalizer :: normalizer where
  "new_normalizer = \<lparr>first_host_timestamp = None, next_sequence = 0\<rparr>"

definition num_sub :: "pynum \<Rightarrow> pynum \<Rightarrow> exn + pynum" where
  "num_sub a b =
     (case (a, b) of
        (IntNum i, IntNum j) \<Rightarrow> Inr (IntNum (i - j))
      | _ \<Rightarrow> rbind (as_float a) (\<lambda>x. rbind (as_float b) (\<lambda>y. Inr (FloatNum (float_sub x y)))))"

text \<open>\<open>max(0.0, d)\<close> returns its first argument unless the second is greater.\<close>

definition max_zero :: "pynum \<Rightarrow> pynum" where
  "max_zero d =
     (case d of
        IntNum i \<Rightarrow> if 0 < i then IntNum i else FloatNum (Fin 0)
      | FloatNum x \<Rightarrow> if pf_less (Fin 0) x then FloatNum x else FloatNum (Fin 0))"

definition normalize :: "frame \<Rightarrow> (normalizer, exn, frame) exec" where
  "normalize f = (\<lambda>s.
     let first = (case first_host_timestamp s of None \<Rightarrow> host_timestamp f | Some t \<Rightarrow> t) in
     eseq (put (\<lambda>s. s\<lparr>first_host_timestamp := Some first\<rparr>))
    (ebind (lift (num_sub (host_timestamp f) first)) (\<lambda>d.
     ebind (lift (frame_post_init ((args_of f)
       \<lparr>arg_sequence := VInt (next_sequence s), arg_normalized_timestamp := num_val (max_zero d)\<rparr>))) (\<lambda>g.
     eseq (put (\<lambda>s. s\<lparr>next_sequence := next_sequence s + 1\<rparr>)) (ret g)))) s)"

fun normalize_all :: "frame list \<Rightarrow> (normalizer, exn, frame list) exec" where
  "normalize_all [] = ret []"
| "normalize_all (f # fs) = ebind (normalize f) (\<lambda>g. ebind (normalize_all fs) (\<lambda>gs. ret (g # gs)))"

definition float_stamped :: "frame \<Rightarrow> rat \<Rightarrow> bool" where
  "float_stamped f a \<longleftrightarrow> host_timestamp f = FloatNum (Fin a) \<and> is_double (Fin a)"

definition host_seconds :: "frame \<Rightarrow> rat" where
  "host_seconds f = (case host_timestamp f of FloatNum (Fin a) \<Rightarrow> a | _ \<Rightarrow> 0)"

definition on_timeline :: "rat \<Rightarrow> frame \<Rightarrow> int \<Rightarrow> frame" where
  "on_timeline start f n =
     f\<lparr>sequence := n, normalized_timestamp := FloatNum (Fin (round_nonneg (host_seconds f - start)))\<rparr>"

lemma max_zero_sub:
  assumes "0 \<le> a" "0 \<le> b" "is_double (Fin a)"
  shows "max_zero (FloatNum (float_sub (Fin a) (Fin b))) = FloatNum (Fin (round_nonneg (a - b)))"
proof (cases "b \<le> a")
  case True
  from float_sub_le [OF assms(2) True assms(3)] show ?thesis
    using round_nonneg_nonneg [of "a - b"] by (auto simp: max_zero_def)
next
  case False
  then have "a < b" by simp
  from float_sub_neg [OF this] False show ?thesis by (simp add: max_zero_def round_nonneg_def)
qed

lemma normalize_step:
  assumes f: "valid_frame f" "float_stamped f a" and n: "0 \<le> n" "n < 2 ^ 64"
    and first: "case t of None \<Rightarrow> a0 = a | Some x \<Rightarrow> x = FloatNum (Fin a0) \<and> 0 \<le> a0"
  shows "normalize f \<lparr>first_host_timestamp = t, next_sequence = n\<rparr>
    = (Inr (on_timeline a0 f n), \<lparr>first_host_timestamp = Some (FloatNum (Fin a0)), next_sequence = n + 1\<rparr>) \<and>
    valid_frame (on_timeline a0 f n)"
proof -
  have a: "host_timestamp f = FloatNum (Fin a)" "is_double (Fin a)" "0 \<le> a" "host_seconds f = a"
    using f by (auto simp: float_stamped_def valid_frame_def valid_number_def host_seconds_def)
  have a0: "0 \<le> a0" "(case t of None \<Rightarrow> host_timestamp f | Some x \<Rightarrow> x) = FloatNum (Fin a0)"
    using first a by (auto split: option.splits)
  have v: "valid_frame (on_timeline a0 f n)"
    using f(1) n round_nonneg_nonneg [of "host_seconds f - a0"]
    by (simp add: valid_frame_def on_timeline_def valid_number_def)
  have args: "(args_of f)\<lparr>arg_sequence := VInt n,
      arg_normalized_timestamp := num_val (FloatNum (Fin (round_nonneg (a - a0))))\<rparr>
      = args_of (on_timeline a0 f n)"
    using a(4) by (simp add: args_of_def on_timeline_def)
  have "num_sub (host_timestamp f) (FloatNum (Fin a0)) = Inr (FloatNum (float_sub (Fin a) (Fin a0)))"
    using a(1) by (simp add: num_sub_def as_float_def)
  moreover have "frame_post_init ((args_of f)\<lparr>arg_sequence := VInt n,
      arg_normalized_timestamp := num_val (max_zero (FloatNum (float_sub (Fin a) (Fin a0))))\<rparr>)
      = Inr (on_timeline a0 f n)"
    using v a a0 by (simp only: max_zero_sub args frame_post_init_Inr simp_thms)
  ultimately show ?thesis
    using a0 v unfolding normalize_def Let_def
    by (simp add: exec_simps del: float_sub.simps)
qed

fun timeline :: "rat \<Rightarrow> int \<Rightarrow> frame list \<Rightarrow> frame list" where
  "timeline start n [] = []"
| "timeline start n (f # fs) = on_timeline start f n # timeline start (n + 1) fs"

definition timeline_seconds :: "frame \<Rightarrow> rat" where
  "timeline_seconds f = (case normalized_timestamp f of FloatNum (Fin a) \<Rightarrow> a | _ \<Rightarrow> 0)"

definition double_stamped :: "frame \<Rightarrow> bool" where
  "double_stamped f \<longleftrightarrow> float_stamped f (host_seconds f)"

lemma double_stamped_nonneg: "valid_frame f \<Longrightarrow> double_stamped f \<Longrightarrow> 0 \<le> host_seconds f"
  by (auto simp: valid_frame_def valid_number_def double_stamped_def float_stamped_def)

lemma normalize_all_from:
  assumes "list_all valid_frame fs" "list_all double_stamped fs"
    and "0 \<le> n" "n + int (length fs) \<le> 2 ^ 64" "0 \<le> a0"
  shows "fst (normalize_all fs \<lparr>first_host_timestamp = Some (FloatNum (Fin a0)), next_sequence = n\<rparr>)
      = Inr (timeline a0 n fs) \<and> list_all valid_frame (timeline a0 n fs)"
  using assms
proof (induction fs arbitrary: n)
  case Nil
  then show ?case by (simp add: exec_simps)
next
  case (Cons f fs)
  from Cons.prems Cons.IH [of "n + 1"]
    normalize_step [of f "host_seconds f" n a0 "Some (FloatNum (Fin a0))"]
  show ?case
    by (auto simp: exec_simps double_stamped_def split: prod.splits sum.splits)
qed

lemma timeline_contiguous: "contiguous (timeline a0 n fs)"
proof (induction fs arbitrary: n)
  case (Cons f fs)
  then show ?case using Cons [of "n + 1"] by (cases fs) (auto simp: on_timeline_def)
qed simp

lemma timeline_seconds_timeline:
  "map timeline_seconds (timeline a0 n fs) = map (\<lambda>f. round_nonneg (host_seconds f - a0)) fs"
  by (induction fs arbitrary: n) (simp_all add: timeline_seconds_def on_timeline_def)

lemma sorted_map_mono:
  "sorted (map f xs) \<Longrightarrow> (\<And>x y. f x \<le> f y \<Longrightarrow> g x \<le> g y) \<Longrightarrow> sorted (map g xs)"
  by (induction xs) auto

section \<open>Subscribers\<close>

record subscriber_failure =
  sf_code :: string
  sf_subscriber :: pystr
  sf_recoverable :: bool
  sf_capacity :: int
  sf_queue_depth :: nat
  sf_frame_sequence :: int

record subscriber =
  sub_name :: pystr
  sub_capacity :: int
  lossy :: bool
  dropped_frames :: nat
  publish_timeout_seconds :: "pyfloat option"
  queued :: "frame list"
  is_shut :: bool

definition subscriber_post_init ::
    "pystr \<Rightarrow> int \<Rightarrow> bool \<Rightarrow> pyfloat option \<Rightarrow> exn + subscriber" where
  "subscriber_post_init name capacity drops timeout =
     (if name = [] then Inl value_error
      else if capacity \<le> 0 then Inl value_error
      else if \<not> pred_option (\<lambda>t. isfinite t \<and> pf_less (Fin 0) t) timeout then Inl value_error
      else Inr \<lparr>sub_name = name, sub_capacity = capacity, lossy = drops, dropped_frames = 0,
        publish_timeout_seconds = timeout, queued = [], is_shut = False\<rparr>)"

definition queue_full :: "subscriber \<Rightarrow> bool" where
  "queue_full s \<longleftrightarrow> int (length (queued s)) \<ge> sub_capacity s"

datatype 'a attempt = Done 'a | Waiting | Disabled

definition publish_lossy :: "frame \<Rightarrow> subscriber \<Rightarrow> subscriber" where
  "publish_lossy f s =
     (let s' = (if queue_full s
                then s\<lparr>queued := tl (queued s), dropped_frames := Suc (dropped_frames s)\<rparr> else s)
      in s'\<lparr>queued := queued s' @ [f]\<rparr>)"

definition publish :: "frame \<Rightarrow> subscriber \<Rightarrow> unit attempt \<times> subscriber" where
  "publish f s =
     (if is_shut s then (Disabled, s)
      else if lossy s then (Done (), publish_lossy f s)
      else if queue_full s then (Waiting, s)
      else (Done (), s\<lparr>queued := queued s @ [f]\<rparr>))"

definition disable :: "subscriber \<Rightarrow> nat \<times> subscriber" where
  "disable s = (length (queued s), s\<lparr>queued := [], is_shut := True\<rparr>)"

text \<open>The deadline of a waiting publication: the context is collected, then the queue is disabled.\<close>

definition publish_deadline :: "frame \<Rightarrow> subscriber \<Rightarrow> subscriber_failure \<times> subscriber" where
  "publish_deadline f s =
     (\<lparr>sf_code = ''subscriber.backpressure'', sf_subscriber = sub_name s, sf_recoverable = False,
       sf_capacity = sub_capacity s, sf_queue_depth = length (queued s),
       sf_frame_sequence = sequence f\<rparr>, snd (disable s))"

definition sub_get :: "subscriber \<Rightarrow> frame attempt \<times> subscriber" where
  "sub_get s =
     (case queued s of
        f # fs \<Rightarrow> (Done f, s\<lparr>queued := fs\<rparr>)
      | [] \<Rightarrow> (if is_shut s then Disabled else Waiting, s))"

section \<open>A subscriber's history\<close>

datatype sub_event = Publish frame | Get | Deadline frame | Disable

record sub_history =
  sub :: subscriber
  accepted_frames :: "frame list"
  received_frames :: "frame list"
  discarded_frames :: "frame list"

fun sub_step :: "sub_event \<Rightarrow> sub_history \<Rightarrow> sub_history" where
  "sub_step (Publish f) h =
     (case publish f (sub h) of
        (Done _, s) \<Rightarrow> h\<lparr>sub := s, accepted_frames := accepted_frames h @ [f]\<rparr>
      | (_, s) \<Rightarrow> h\<lparr>sub := s\<rparr>)"
| "sub_step Get h =
     (case sub_get (sub h) of
        (Done f, s) \<Rightarrow> h\<lparr>sub := s, received_frames := received_frames h @ [f]\<rparr>
      | (_, s) \<Rightarrow> h\<lparr>sub := s\<rparr>)"
| "sub_step (Deadline f) h =
     (if fst (publish f (sub h)) = Waiting
      then h\<lparr>sub := snd (publish_deadline f (sub h)),
             discarded_frames := discarded_frames h @ queued (sub h)\<rparr>
      else h)"
| "sub_step Disable h =
     h\<lparr>sub := snd (disable (sub h)), discarded_frames := discarded_frames h @ queued (sub h)\<rparr>"

definition history_of :: "subscriber \<Rightarrow> sub_history" where
  "history_of s = \<lparr>sub = s, accepted_frames = [], received_frames = [], discarded_frames = []\<rparr>"

section \<open>Lemmas\<close>

definition subscriber_ok :: "subscriber \<Rightarrow> bool" where
  "subscriber_ok s \<longleftrightarrow> 0 < sub_capacity s \<and> int (length (queued s)) \<le> sub_capacity s \<and>
     (is_shut s \<longrightarrow> queued s = [])"

lemma subscriber_post_init_ok:
  "subscriber_post_init name cap lo timeout = Inr s \<Longrightarrow> subscriber_ok s \<and> \<not> is_shut s \<and> queued s = [] \<and>
     dropped_frames s = 0 \<and> sub_capacity s = cap \<and> lossy s = lo"
  by (auto simp: subscriber_post_init_def subscriber_ok_def split: if_splits)

interpretation lossy_queue:
  drop_oldest publish_lossy queued "\<lambda>s. nat (sub_capacity s)" dropped_frames "\<lambda>_. 1 :: nat"
    "\<lambda>s. subscriber_ok s \<and> \<not> is_shut s"
proof unfold_locales
  show "nat (sub_capacity q) > 0" if "subscriber_ok q \<and> \<not> is_shut q" for q
    using that by (simp add: subscriber_ok_def)
  show "length (queued q) \<le> nat (sub_capacity q)" if "subscriber_ok q \<and> \<not> is_shut q" for q
    using that by (auto simp: subscriber_ok_def le_nat_iff)
  show "subscriber_ok (publish_lossy x q) \<and> \<not> is_shut (publish_lossy x q)"
    if "subscriber_ok q \<and> \<not> is_shut q" for q x
    using that by (auto simp: subscriber_ok_def publish_lossy_def Let_def queue_full_def)
  show "nat (sub_capacity (publish_lossy x q)) = nat (sub_capacity q)" for q x
    by (simp add: publish_lossy_def Let_def)
  show "queued (publish_lossy x q) = queued q @ [x] \<and> dropped_frames (publish_lossy x q) = dropped_frames q"
    if "length (queued q) < nat (sub_capacity q)" for q x
    using that by (auto simp: publish_lossy_def Let_def queue_full_def)
  show "queued (publish_lossy x q) = tl (queued q) @ [x] \<and>
      dropped_frames (publish_lossy x q) = dropped_frames q + 1"
    if "subscriber_ok q \<and> \<not> is_shut q" "length (queued q) = nat (sub_capacity q)" for q x
    using that by (auto simp: publish_lossy_def Let_def queue_full_def subscriber_ok_def)
qed

definition history_ok :: "sub_history \<Rightarrow> bool" where
  "history_ok h \<longleftrightarrow> subscriber_ok (sub h) \<and> (is_shut (sub h) \<or> discarded_frames h = []) \<and>
     subseq (received_frames h @ discarded_frames h @ queued (sub h)) (accepted_frames h) \<and>
     length (accepted_frames h) = length (received_frames h) + dropped_frames (sub h) +
       length (queued (sub h)) + length (discarded_frames h) \<and>
     (lossy (sub h) \<or> dropped_frames (sub h) = 0)"

lemma subseq_tl: "subseq (xs @ ys) zs \<Longrightarrow> subseq (xs @ tl ys @ [f]) (zs @ [f])"
proof -
  assume "subseq (xs @ ys) zs"
  moreover have "subseq (xs @ tl ys) (xs @ ys)"
    by (cases ys) (auto intro: list_emb_append_mono)
  ultimately have "subseq (xs @ tl ys) zs" using subseq_order.order_trans by blast
  then have "subseq ((xs @ tl ys) @ [f]) (zs @ [f])" by (intro list_emb_append_mono) simp_all
  then show ?thesis by simp
qed

lemma publish_lossy_fields:
  "queued (publish_lossy f s) = (if queue_full s then tl (queued s) else queued s) @ [f]"
  "dropped_frames (publish_lossy f s) = (if queue_full s then Suc (dropped_frames s) else dropped_frames s)"
  "sub_capacity (publish_lossy f s) = sub_capacity s" "lossy (publish_lossy f s) = lossy s"
  "is_shut (publish_lossy f s) = is_shut s"
  by (simp_all add: publish_lossy_def Let_def)

lemma history_publish:
  assumes ok: "history_ok h" and pub: "publish f (sub h) = (Done u, s)"
  shows "history_ok (h\<lparr>sub := s, accepted_frames := accepted_frames h @ [f]\<rparr>)"
proof -
  from pub have open_: "\<not> is_shut (sub h)" by (auto simp: publish_def split: if_splits)
  then have d: "discarded_frames h = []" using ok by (simp add: history_ok_def)
  have sub: "subseq (received_frames h @ queued (sub h)) (accepted_frames h)"
    using ok d by (simp add: history_ok_def)
  have app: "subseq (received_frames h @ queued (sub h) @ [f]) (accepted_frames h @ [f])"
    using list_emb_append_mono [OF sub, of "[f]" "[f]"] by simp
  show ?thesis
  proof (cases "lossy (sub h)")
    case True
    then have s: "s = publish_lossy f (sub h)" using pub open_ by (simp add: publish_def)
    have "queue_full (sub h) \<Longrightarrow> queued (sub h) \<noteq> []"
      using ok by (auto simp: history_ok_def subscriber_ok_def queue_full_def)
    with ok open_ d sub app subseq_tl [OF sub] True show ?thesis
      using lossy_queue.invar_push [of "sub h" f]
      by (auto simp: history_ok_def s publish_lossy_fields)
  next
    case False
    then have s: "\<not> queue_full (sub h)" "s = (sub h)\<lparr>queued := queued (sub h) @ [f]\<rparr>"
      using pub open_ by (auto simp: publish_def split: if_splits)
    with ok open_ d app False show ?thesis
      by (auto simp: history_ok_def subscriber_ok_def queue_full_def)
  qed
qed

lemma history_disable:
  assumes "history_ok h"
  shows "history_ok (h\<lparr>sub := (sub h)\<lparr>queued := [], is_shut := True\<rparr>,
    discarded_frames := discarded_frames h @ queued (sub h)\<rparr>)"
  using assms by (simp add: history_ok_def subscriber_ok_def)

lemma history_get:
  assumes ok: "history_ok h" and q: "queued (sub h) = f # fs"
  shows "history_ok (h\<lparr>sub := (sub h)\<lparr>queued := fs\<rparr>, received_frames := received_frames h @ [f]\<rparr>)"
proof -
  have "\<not> is_shut (sub h)" using ok q by (auto simp: history_ok_def subscriber_ok_def)
  with ok q show ?thesis by (auto simp: history_ok_def subscriber_ok_def)
qed

lemma history_same: "history_ok h \<Longrightarrow> history_ok (h\<lparr>sub := sub h\<rparr>)"
  by simp

lemma publish_blocked: "publish f s = (r, s') \<Longrightarrow> r \<noteq> Done () \<Longrightarrow> s' = s"
  by (auto simp: publish_def split: if_splits)

lemma sub_step_ok: "history_ok h \<Longrightarrow> history_ok (sub_step e h)"
proof (cases e)
  case (Publish f)
  assume ok: "history_ok h"
  obtain r s where pub: "publish f (sub h) = (r, s)" by fastforce
  show ?thesis
  proof (cases r)
    case (Done u)
    with ok pub history_publish [of h f u s] Publish show ?thesis by simp
  qed (use ok pub Publish publish_blocked [OF pub] in simp_all)
next
  case Get
  assume ok: "history_ok h"
  with Get show ?thesis
    by (cases "queued (sub h)") (auto simp: sub_get_def history_get)
next
  case (Deadline f)
  assume "history_ok h"
  with Deadline show ?thesis by (simp add: publish_deadline_def disable_def history_disable)
next
  case Disable
  assume "history_ok h"
  with Disable show ?thesis by (simp add: disable_def history_disable)
qed

interpretation subscriber_runs: preserved sub_step history_ok "\<lambda>_. True"
  by unfold_locales (rule sub_step_ok)

lemma publish_fixed: "publish f s = (r, s') \<Longrightarrow> lossy s' = lossy s \<and> sub_capacity s' = sub_capacity s"
  by (auto simp: publish_def publish_lossy_fields split: if_splits)

lemma sub_get_fixed: "sub_get s = (r, s') \<Longrightarrow> lossy s' = lossy s \<and> sub_capacity s' = sub_capacity s"
  by (auto simp: sub_get_def split: list.splits)

lemma sub_step_fixed: "lossy (sub (sub_step e h)) = lossy (sub h) \<and>
    sub_capacity (sub (sub_step e h)) = sub_capacity (sub h)"
proof (cases e)
  case (Publish f)
  then show ?thesis by (auto split: prod.splits attempt.splits dest: publish_fixed)
next
  case Get
  then show ?thesis by (auto split: prod.splits attempt.splits dest: sub_get_fixed)
qed (simp_all add: publish_deadline_def disable_def)

lemma run_fixed: "lossy (sub (run_calls sub_step es h)) = lossy (sub h)"
    "sub_capacity (sub (run_calls sub_step es h)) = sub_capacity (sub h)"
  by (induction es arbitrary: h) (simp_all add: sub_step_fixed)

section \<open>Properties\<close>

text \<open>
  C16: a subscriber accounts for every frame. Along any interleaving of publications, reads,
  deadlines and disabling, the backlog stays within the capacity, what was read, what
  disabling discarded and what is queued is a subsequence of the accepted frames in their
  order, the accepted frames number the frames read, dropped, queued and discarded, and a
  lossless subscriber drops nothing: for it the three together are the accepted frames.
\<close>

theorem subscriber_accounts_for_every_frame:
  assumes "subscriber_post_init name capacity drops timeout = Inr s"
  shows "let h = run_calls sub_step es (history_of s);
      kept = received_frames h @ discarded_frames h @ queued (sub h) in
    int (length (queued (sub h))) \<le> capacity \<and> subseq kept (accepted_frames h) \<and>
    length (accepted_frames h) = length kept + dropped_frames (sub h) \<and>
    (if drops then True else kept = accepted_frames h)"
proof -
  let ?h = "run_calls sub_step es (history_of s)"
  note s = subscriber_post_init_ok [OF assms]
  then have "history_ok (history_of s)" by (simp add: history_ok_def history_of_def)
  then have ok: "history_ok ?h" by (rule subscriber_runs.run_inv) simp_all
  have fixed: "lossy (sub ?h) = drops" "sub_capacity (sub ?h) = capacity"
    using s by (simp_all add: run_fixed history_of_def)
  from ok fixed show ?thesis
    by (auto simp: Let_def history_ok_def subscriber_ok_def dest: subseq_same_length)
qed

theorem subscriber_accounts_for_every_frame_witness:
  "\<exists>s. subscriber_post_init (codes ''ui'') 1 True None = Inr s \<and>
     (let h = run_calls sub_step [Publish (sample_frame 0), Publish (sample_frame 1), Get] (history_of s)
      in int (length (queued (sub h))) \<le> 1)"
proof -
  obtain s where s: "subscriber_post_init (codes ''ui'') 1 True None = Inr s"
    by (simp add: subscriber_post_init_def codes_def)
  from subscriber_accounts_for_every_frame [OF s] have
    "int (length (queued (sub (run_calls sub_step es (history_of s))))) \<le> 1" for es
    unfolding Let_def by blast
  with s show ?thesis unfolding Let_def by blast
qed

text \<open>
  C17: normalisation puts a capture on one timeline. Frames whose host time stamps are
  doubles are numbered without gaps from 0, start at time 0, carry the double nearest to
  their distance from the first frame (0 where the clock went back), keep every other
  field and are valid; where the host clock does not go back the timeline does not either.
\<close>

theorem normaliser_builds_the_timeline:
  assumes "list_all valid_frame (f # fs)" and "list_all double_stamped (f # fs)"
    and "int (length (f # fs)) \<le> 2 ^ 64"
  shows "let gs = timeline (host_seconds f) 0 (f # fs) in
    fst (normalize_all (f # fs) new_normalizer) = Inr gs \<and>
    list_all valid_frame gs \<and> contiguous gs \<and> sequence (hd gs) = 0 \<and> timeline_seconds (hd gs) = 0 \<and>
    (sorted (map host_seconds (f # fs)) \<longrightarrow> sorted (map timeline_seconds gs))"
proof -
  let ?a = "host_seconds f"
  have first: "normalize f new_normalizer = (Inr (on_timeline ?a f 0),
      \<lparr>first_host_timestamp = Some (FloatNum (Fin ?a)), next_sequence = 1\<rparr>)"
    "valid_frame (on_timeline ?a f 0)"
    using assms(1,2) normalize_step [of f ?a 0 ?a None]
    by (auto simp: new_normalizer_def double_stamped_def)
  have "fst (normalize_all fs \<lparr>first_host_timestamp = Some (FloatNum (Fin ?a)), next_sequence = 1\<rparr>)
      = Inr (timeline ?a 1 fs) \<and> list_all valid_frame (timeline ?a 1 fs)"
    using assms double_stamped_nonneg [of f] by (intro normalize_all_from) auto
  with first have "fst (normalize_all (f # fs) new_normalizer) = Inr (timeline ?a 0 (f # fs)) \<and>
      list_all valid_frame (timeline ?a 0 (f # fs))"
    by (auto simp: exec_simps split: prod.splits sum.splits)
  moreover have "sorted (map timeline_seconds (timeline ?a 0 (f # fs)))"
    if "sorted (map host_seconds (f # fs))"
    unfolding timeline_seconds_timeline
    using that by (rule sorted_map_mono) (simp add: round_nonneg_mono)
  ultimately show ?thesis
    using timeline_contiguous [of ?a 0 "f # fs"]
    by (auto simp: Let_def on_timeline_def timeline_seconds_def)
qed

theorem normaliser_builds_the_timeline_witness:
  "fst (normalize_all [sample_frame 7, sample_frame 9] new_normalizer)
   = Inr (timeline 1 0 [sample_frame 7, sample_frame 9])"
proof -
  have "list_all valid_frame [sample_frame 7, sample_frame 9]"
    by (simp add: valid_frame_def sample_frame_def valid_number_def codes_def CLASSIC_DLC_def)
  with normaliser_builds_the_timeline [of "sample_frame 7" "[sample_frame 9]"] show ?thesis
    by (simp add: Let_def sample_frame_def double_stamped_def host_seconds_def float_stamped_def)
qed

end
