(* ===== verification/Transport.thy ===== *)
theory Transport
  imports Capture
begin

text \<open>
  The wire side of the runtime: the broker of realtime clients
  (\<open>canx/transport/broker.py\<close>) and the MessagePack codec of batches
  (\<open>canx/transport/msgpack_codec.py\<close>). The package \<open>msgpack\<close> is a pair of parameters, packing
  a value into the wire type and unpacking it.
\<close>

section \<open>The broker\<close>

text \<open>
  A client is the queue its subscription created; the set of clients is a list of queues
  under the numbers of their subscriptions.
\<close>

record broker =
  client_capacity :: int
  clients :: "(nat \<times> frame_batch list) list"
  next_client :: nat
  broker_dropped :: int

definition new_broker :: "int \<Rightarrow> exn + broker" where
  "new_broker capacity =
     (if capacity \<le> 0 then Inl value_error
      else Inr \<lparr>client_capacity = capacity, clients = [], next_client = 0, broker_dropped = 0\<rparr>)"

definition broker_subscribe :: "broker \<Rightarrow> nat \<times> broker" where
  "broker_subscribe b =
     (next_client b, b\<lparr>clients := clients b @ [(next_client b, [])], next_client := Suc (next_client b)\<rparr>)"

definition broker_unsubscribe :: "nat \<Rightarrow> broker \<Rightarrow> broker" where
  "broker_unsubscribe i b = b\<lparr>clients := AList.delete i (clients b)\<rparr>"

text \<open>One client in the loop of a publication: capacity, queue and the broker's drop counter.\<close>

type_synonym client_queue = "int \<times> frame_batch list \<times> int"

fun push_client :: "frame_batch \<Rightarrow> client_queue \<Rightarrow> client_queue" where
  "push_client x (cap, q, dropped) =
     (let (q', dropped') = (if int (length q) \<ge> cap then (tl q, dropped + frame_count (hd q)) else (q, dropped))
      in (cap, q' @ [x], dropped'))"

fun publish_clients ::
    "frame_batch \<Rightarrow> int \<Rightarrow> (nat \<times> frame_batch list) list \<Rightarrow> int \<Rightarrow> (nat \<times> frame_batch list) list \<times> int" where
  "publish_clients x cap [] dropped = ([], dropped)"
| "publish_clients x cap ((i, q) # cs) dropped =
     (case push_client x (cap, q, dropped) of
        (_, q', dropped') \<Rightarrow> (case publish_clients x cap cs dropped' of (cs', d) \<Rightarrow> ((i, q') # cs', d)))"

definition broker_publish :: "frame_batch \<Rightarrow> broker \<Rightarrow> broker" where
  "broker_publish x b =
     (case publish_clients x (client_capacity b) (clients b) (broker_dropped b) of
        (cs, d) \<Rightarrow> b\<lparr>clients := cs, broker_dropped := d\<rparr>)"

definition client_get :: "nat \<Rightarrow> broker \<Rightarrow> frame_batch attempt \<times> broker" where
  "client_get i b =
     (case map_of (clients b) i of
        Some (x # q) \<Rightarrow> (Done x, b\<lparr>clients := AList.update i q (clients b)\<rparr>)
      | _ \<Rightarrow> (Waiting, b))"

section \<open>The codec\<close>

definition dict_of :: "(string \<times> pyval) list \<Rightarrow> pyval" where
  "dict_of kvs = VDict (map (\<lambda>(k, v). (VStr (codes k), v)) kvs)"

definition opt_num_val :: "pynum option \<Rightarrow> pyval" where
  "opt_num_val t = (case t of None \<Rightarrow> VNone | Some x \<Rightarrow> num_val x)"

definition frame_payload :: "frame \<Rightarrow> pyval" where
  "frame_payload f = dict_of
     [(''sequence'', VInt (sequence f)), (''channel_id'', VStr (channel_id f)),
      (''arbitration_id'', VInt (arbitration_id f)), (''is_extended'', VBool (is_extended f)),
      (''is_fd'', VBool (is_fd f)), (''bitrate_switch'', VBool (bitrate_switch f)),
      (''error_state_indicator'', VBool (error_state_indicator f)), (''dlc'', VInt (dlc f)),
      (''data'', VBytes (data f)), (''direction'', VStr (direction_value (direction f))),
      (''hardware_timestamp'', opt_num_val (hardware_timestamp f)),
      (''host_timestamp'', num_val (host_timestamp f)),
      (''normalized_timestamp'', num_val (normalized_timestamp f)),
      (''clock_domain'', VStr (clock_domain f)),
      (''timestamp_quality'', VStr (timestamp_quality_value (timestamp_quality f))),
      (''flags'', VInt (flags f))]"

definition batch_payload :: "frame_batch \<Rightarrow> pyval" where
  "batch_payload b = dict_of
     [(''schema_version'', VInt (schema_version b)), (''stream_id'', VStr (stream_id b)),
      (''first_sequence'', VInt (first_sequence b)), (''last_sequence'', VInt (last_sequence b)),
      (''frame_count'', VInt (frame_count b)), (''frames'', VList (map frame_payload (frames b)))]"

definition encode_batch :: "(pyval \<Rightarrow> exn + 'w) \<Rightarrow> frame_batch \<Rightarrow> exn + 'w" where
  "encode_batch pack b = pack (batch_payload b)"

definition as_dict :: "pyval \<Rightarrow> exn + (pyval \<times> pyval) list" where
  "as_dict v = (case v of VDict d \<Rightarrow> Inr d | _ \<Rightarrow> Inl value_error)"

definition as_list :: "pyval \<Rightarrow> exn + pyval list" where
  "as_list v = (case v of VList xs \<Rightarrow> Inr xs | _ \<Rightarrow> Inl value_error)"

definition as_str :: "pyval \<Rightarrow> exn + pystr" where
  "as_str v = (case v of VStr s \<Rightarrow> Inr s | _ \<Rightarrow> Inl value_error)"

definition wire_integer :: "(pyval \<times> pyval) list \<Rightarrow> string \<Rightarrow> exn + int" where
  "wire_integer d k = as_int (dict_get d k)"

definition wire_number :: "(pyval \<times> pyval) list \<Rightarrow> string \<Rightarrow> exn + pyfloat" where
  "wire_number d k =
     (case dict_get d k of
        VInt i \<Rightarrow> as_float (IntNum i)
      | VFloat x \<Rightarrow> Inr x
      | _ \<Rightarrow> Inl value_error)"

definition wire_string :: "(pyval \<times> pyval) list \<Rightarrow> string \<Rightarrow> exn + pystr" where
  "wire_string d k = as_str (dict_get d k)"

definition wire_boolean :: "(pyval \<times> pyval) list \<Rightarrow> string \<Rightarrow> exn + bool" where
  "wire_boolean d k = as_bool (dict_get d k)"

definition hardware_on_wire :: "pyval \<Rightarrow> bool" where
  "hardware_on_wire v = (case v of VNone \<Rightarrow> True | VFloat _ \<Rightarrow> True | _ \<Rightarrow> False)"

definition decode_frame :: "pyval \<Rightarrow> exn + frame" where
  "decode_frame v =
     rbind (as_dict v) (\<lambda>d.
     rbind (guard (hardware_on_wire (dict_get d ''hardware_timestamp'')) value_error) (\<lambda>_.
     rbind (as_bytes (dict_get d ''data'')) (\<lambda>bs.
     rbind (wire_integer d ''sequence'') (\<lambda>seq.
     rbind (wire_string d ''channel_id'') (\<lambda>ch.
     rbind (wire_integer d ''arbitration_id'') (\<lambda>aid.
     rbind (wire_boolean d ''is_extended'') (\<lambda>ext.
     rbind (wire_boolean d ''is_fd'') (\<lambda>fd.
     rbind (wire_boolean d ''bitrate_switch'') (\<lambda>brs.
     rbind (wire_boolean d ''error_state_indicator'') (\<lambda>esi.
     rbind (wire_integer d ''dlc'') (\<lambda>n.
     rbind (rbind (wire_string d ''direction'') direction_of) (\<lambda>dir.
     rbind (wire_number d ''host_timestamp'') (\<lambda>host.
     rbind (wire_number d ''normalized_timestamp'') (\<lambda>norm.
     rbind (wire_string d ''clock_domain'') (\<lambda>cd.
     rbind (rbind (wire_string d ''timestamp_quality'') timestamp_quality_of) (\<lambda>q.
     rbind (wire_integer d ''flags'') (\<lambda>fl.
     frame_post_init \<lparr>arg_sequence = VInt seq, arg_channel_id = VStr ch, arg_arbitration_id = VInt aid,
       arg_is_extended = VBool ext, arg_is_fd = VBool fd, arg_bitrate_switch = VBool brs,
       arg_error_state_indicator = VBool esi, arg_dlc = VInt n, arg_data = VBytes bs,
       arg_direction = Inl dir, arg_hardware_timestamp = dict_get d ''hardware_timestamp'',
       arg_host_timestamp = VFloat host, arg_normalized_timestamp = VFloat norm,
       arg_clock_domain = VStr cd, arg_timestamp_quality = Inl q, arg_flags = VInt fl\<rparr>)))))))))))))))))"

definition decode_payload :: "pyval \<Rightarrow> exn + frame_batch" where
  "decode_payload v =
     rbind (as_dict v) (\<lambda>d.
     rbind (wire_integer d ''schema_version'') (\<lambda>version.
     rbind (guard (version = CURRENT_SCHEMA_VERSION) value_error) (\<lambda>_.
     rbind (as_list (dict_get d ''frames'')) (\<lambda>raw.
     rbind (rmap decode_frame raw) (\<lambda>fs.
     rbind (wire_string d ''stream_id'') (\<lambda>stream.
     rbind (wire_integer d ''first_sequence'') (\<lambda>low.
     rbind (wire_integer d ''last_sequence'') (\<lambda>high.
     rbind (wire_integer d ''frame_count'') (\<lambda>n.
     frame_batch_post_init \<lparr>schema_version = version, stream_id = stream, first_sequence = low,
       last_sequence = high, frame_count = n, frames = fs\<rparr>)))))))))"

definition decode_batch :: "('w \<Rightarrow> exn + pyval) \<Rightarrow> 'w \<Rightarrow> exn + frame_batch" where
  "decode_batch unpack payload = rbind (unpack payload) decode_payload"

section \<open>Lemmas on the broker\<close>

definition client_ok :: "client_queue \<Rightarrow> bool" where
  "client_ok c \<longleftrightarrow> (case c of (cap, q, _) \<Rightarrow> 0 < cap \<and> int (length q) \<le> cap)"

interpretation client_queue:
  drop_oldest push_client "\<lambda>(_, q, _). q" "\<lambda>(cap, _, _). nat cap" "\<lambda>(_, _, d). d" frame_count client_ok
  by unfold_locales (auto simp: client_ok_def Let_def split: prod.splits if_splits)

lemma push_client_cap: "fst (push_client x c) = fst c"
  by (cases c) (simp add: Let_def split: if_splits prod.splits)

definition held :: "frame_batch list \<Rightarrow> int" where
  "held q = sum_list (map frame_count q)"

definition backlog :: "(nat \<times> frame_batch list) list \<Rightarrow> int" where
  "backlog cs = sum_list (map (\<lambda>c. held (snd c)) cs)"

lemma backlog_simps [simp]: "backlog [] = 0" "backlog ((i, q) # cs) = held q + backlog cs"
    "backlog (cs @ ds) = backlog cs + backlog ds"
  by (simp_all add: backlog_def)

definition queues_ok :: "int \<Rightarrow> (nat \<times> frame_batch list) list \<Rightarrow> bool" where
  "queues_ok cap cs \<longleftrightarrow> list_all (\<lambda>(_, q). int (length q) \<le> cap) cs"

definition newest :: "frame_batch \<Rightarrow> int \<Rightarrow> nat \<times> frame_batch list \<Rightarrow> nat \<times> frame_batch list" where
  "newest x cap = (\<lambda>(i, q). (i, drop (Suc (length q) - nat cap) (q @ [x])))"

lemma publish_clients_spec:
  assumes "0 < cap" "queues_ok cap cs" "publish_clients x cap cs d = (cs', d')"
  shows "cs' = map (newest x cap) cs \<and> queues_ok cap cs' \<and>
    d' + backlog cs' = d + backlog cs + int (length cs) * frame_count x"
  using assms(2,3)
proof (induction cs arbitrary: cs' d d')
  case (Cons c cs)
  obtain i q where c: "c = (i, q)" by fastforce
  obtain c1 q1 d1 where push: "push_client x (cap, q, d) = (c1, q1, d1)" by (metis prod_cases3)
  obtain cs2 d2 where rest: "publish_clients x cap cs d1 = (cs2, d2)" by fastforce
  have ok: "client_ok (cap, q, d)" using assms(1) Cons.prems(1) c by (simp add: client_ok_def queues_ok_def)
  have q1: "q1 = drop (Suc (length q) - nat cap) (q @ [x])"
    using client_queue.push_all_contents [OF ok, of "[x]"] push by simp
  have d1: "d1 + held q1 = d + held q + frame_count x"
    using client_queue.push_all_conserves [OF ok, of "[x]"] push by (simp add: held_def)
  have len: "int (length q1) \<le> cap"
    using client_queue.bounded [OF client_queue.invar_push [OF ok], of x] push push_client_cap [of x "(cap, q, d)"]
      assms(1) by simp
  have "queues_ok cap cs" using Cons.prems(1) by (simp add: queues_ok_def)
  note ih = Cons.IH [OF this rest]
  have res: "cs' = (i, q1) # cs2" "d' = d2" using Cons.prems(2) c push rest by auto
  have "(i, q1) = newest x cap c" by (simp add: newest_def q1 c)
  with ih [THEN conjunct1] have "cs' = map (newest x cap) (c # cs)" by (simp add: res)
  moreover from ih [THEN conjunct2, THEN conjunct1] len have "queues_ok cap cs'"
    by (simp add: res queues_ok_def)
  moreover from ih [THEN conjunct2, THEN conjunct2] d1 have "d' + backlog cs' = d + backlog (c # cs) + int (length (c # cs)) * frame_count x"
    unfolding res c by (simp add: algebra_simps del: drop_append)
  ultimately show ?case by blast
qed simp

lemma publish_ids: "publish_clients x cap cs d = (cs', d') \<Longrightarrow> map fst cs' = map fst cs"
  by (induction cs arbitrary: d cs' d') (auto split: prod.splits)

definition broker_ok :: "broker \<Rightarrow> bool" where
  "broker_ok b \<longleftrightarrow> 0 < client_capacity b \<and> queues_ok (client_capacity b) (clients b) \<and>
     distinct (map fst (clients b)) \<and> list_all (\<lambda>i. i < next_client b) (map fst (clients b))"

lemma broker_publish_spec:
  assumes "broker_ok b"
  shows "broker_ok (broker_publish x b) \<and> client_capacity (broker_publish x b) = client_capacity b \<and>
    clients (broker_publish x b) = map (newest x (client_capacity b)) (clients b) \<and>
    broker_dropped (broker_publish x b) + backlog (clients (broker_publish x b))
      = broker_dropped b + backlog (clients b) + int (length (clients b)) * frame_count x"
proof -
  obtain cs d where pub: "publish_clients x (client_capacity b) (clients b) (broker_dropped b) = (cs, d)"
    by fastforce
  from assms have ok: "0 < client_capacity b" "queues_ok (client_capacity b) (clients b)"
    by (simp_all add: broker_ok_def)
  have res: "broker_publish x b = b\<lparr>clients := cs, broker_dropped := d\<rparr>"
    using pub by (simp add: broker_publish_def)
  note spec = publish_clients_spec [OF ok pub]
  from spec [THEN conjunct2] publish_ids [OF pub] assms have "broker_ok (broker_publish x b)"
    by (simp add: res broker_ok_def)
  moreover have "d + backlog cs = broker_dropped b + backlog (clients b) + int (length (clients b)) * frame_count x"
    using spec by blast
  ultimately show ?thesis using spec [THEN conjunct1] by (simp only: res) simp
qed

lemma map_of_map_snd: "map_of (map (\<lambda>(i, q). (i, f q)) cs) i = map_option f (map_of cs i)"
  by (induction cs) auto

lemma drop_after_push:
  assumes "0 < N" "length q \<le> N"
  shows "drop (length (drop (Suc (length q) - N) (q @ [x])) + length xs - N)
      (drop (Suc (length q) - N) (q @ [x]) @ xs) = drop (length q + length (x # xs) - N) (q @ x # xs)"
proof (cases "length q = N")
  case True
  with assms(1) obtain y ys where "q = y # ys" by (cases q) auto
  with True show ?thesis by auto
next
  case False
  with assms(2) have "Suc (length q) - N = 0" by simp
  then show ?thesis by simp
qed

lemma published_queues:
  assumes "broker_ok b"
  shows "map_of (clients (fold broker_publish xs b)) i
    = map_option (\<lambda>q. drop (length q + length xs - nat (client_capacity b)) (q @ xs)) (map_of (clients b) i)"
  using assms
proof (induction xs arbitrary: b)
  case Nil
  have "length q \<le> nat (client_capacity b)" if "map_of (clients b) i = Some q" for q
    using Nil map_of_SomeD [OF that] by (auto simp: broker_ok_def queues_ok_def list_all_iff le_nat_iff)
  then show ?case by (cases "map_of (clients b) i") auto
next
  case (Cons x xs)
  note pub = broker_publish_spec [OF Cons.prems, of x]
  have eq: "drop (length q' + length xs - nat (client_capacity b)) (q' @ xs)
      = drop (length q + length (x # xs) - nat (client_capacity b)) (q @ x # xs)"
    if "map_of (clients b) i = Some q"
      "q' = drop (Suc (length q) - nat (client_capacity b)) (q @ [x])" for q q'
  proof -
    have "0 < nat (client_capacity b)" "length q \<le> nat (client_capacity b)"
      using Cons.prems map_of_SomeD [OF that(1)]
      by (auto simp: broker_ok_def queues_ok_def list_all_iff le_nat_iff)
    then show ?thesis unfolding that(2) by (rule drop_after_push)
  qed
  from Cons.IH [of "broker_publish x b"] pub eq show ?case
    by (cases "map_of (clients b) i") (simp_all add: map_of_map_snd newest_def)
qed

text \<open>A broker with the frames its clients were offered, read, and left behind.\<close>

datatype broker_event = Client_Joins | Client_Leaves nat | Client_Reads nat | Batch_Published frame_batch

record broker_ledger =
  bk :: broker
  offered :: int
  delivered :: int
  abandoned :: int

fun broker_step :: "broker_event \<Rightarrow> broker_ledger \<Rightarrow> broker_ledger" where
  "broker_step Client_Joins l = l\<lparr>bk := snd (broker_subscribe (bk l))\<rparr>"
| "broker_step (Client_Leaves i) l =
     l\<lparr>bk := broker_unsubscribe i (bk l),
       abandoned := abandoned l + (case map_of (clients (bk l)) i of None \<Rightarrow> 0 | Some q \<Rightarrow> held q)\<rparr>"
| "broker_step (Client_Reads i) l =
     (case client_get i (bk l) of
        (Done x, b) \<Rightarrow> l\<lparr>bk := b, delivered := delivered l + frame_count x\<rparr>
      | (_, b) \<Rightarrow> l\<lparr>bk := b\<rparr>)"
| "broker_step (Batch_Published x) l =
     l\<lparr>bk := broker_publish x (bk l), offered := offered l + int (length (clients (bk l))) * frame_count x\<rparr>"

definition ledger_of :: "broker \<Rightarrow> broker_ledger" where
  "ledger_of b = \<lparr>bk = b, offered = 0, delivered = 0, abandoned = 0\<rparr>"

definition ledger_ok :: "broker_ledger \<Rightarrow> bool" where
  "ledger_ok l \<longleftrightarrow> broker_ok (bk l) \<and>
     offered l = broker_dropped (bk l) + delivered l + abandoned l + backlog (clients (bk l))"

lemma backlog_delete:
  "distinct (map fst cs) \<Longrightarrow>
    backlog (AList.delete i cs) = backlog cs - (case map_of cs i of None \<Rightarrow> 0 | Some q \<Rightarrow> held q)"
  by (induction cs) (auto simp: map_of_eq_None_iff [THEN iffD2])

lemma broker_unsubscribe_ok: "broker_ok b \<Longrightarrow> broker_ok (broker_unsubscribe i b)"
proof -
  assume ok: "broker_ok b"
  then have "queues_ok (client_capacity b) (AList.delete i (clients b))"
    unfolding broker_ok_def queues_ok_def list_all_iff AList.delete_eq by simp
  with ok show ?thesis
    by (auto simp: broker_unsubscribe_def broker_ok_def AList.delete_keys distinct_removeAll list_all_iff)
qed

lemma backlog_update:
  "map_of cs i = Some q \<Longrightarrow> backlog (AList.update i q' cs) = backlog cs - held q + held q'"
  by (induction cs) (auto split: if_splits)

lemma queues_update:
  "map_of cs i = Some (x # q) \<Longrightarrow> queues_ok cap cs \<Longrightarrow> queues_ok cap (AList.update i q cs)"
  by (induction cs) (auto simp: queues_ok_def split: if_splits)

lemma update_same_keys: "map_of cs i = Some q \<Longrightarrow> map fst (AList.update i q' cs) = map fst cs"
  by (induction cs) (auto split: if_splits)

lemma broker_read_ok:
  assumes ok: "broker_ok b" and q: "map_of (clients b) i = Some (x # q)"
  shows "broker_ok (b\<lparr>clients := AList.update i q (clients b)\<rparr>)"
  using ok queues_update [OF q] update_same_keys [OF q, of q]
  by (simp add: broker_ok_def)

lemma ledger_step: "ledger_ok l \<Longrightarrow> ledger_ok (broker_step e l)"
proof (cases e)
  case Client_Joins
  assume "ledger_ok l"
  with Client_Joins show ?thesis
    by (auto simp: ledger_ok_def broker_ok_def broker_subscribe_def queues_ok_def held_def list_all_iff)
next
  case (Client_Leaves i)
  assume "ledger_ok l"
  with Client_Leaves broker_unsubscribe_ok [of "bk l" i] backlog_delete [of "clients (bk l)" i]
  show ?thesis by (simp add: ledger_ok_def broker_unsubscribe_def broker_ok_def)
next
  case (Client_Reads i)
  assume ok: "ledger_ok l"
  show ?thesis
  proof (cases "\<exists>x q. map_of (clients (bk l)) i = Some (x # q)")
    case True
    then obtain x q where q: "map_of (clients (bk l)) i = Some (x # q)" by blast
    then have "client_get i (bk l) = (Done x, (bk l)\<lparr>clients := AList.update i q (clients (bk l))\<rparr>)"
      by (simp add: client_get_def)
    with ok Client_Reads backlog_update [OF q, of q] broker_read_ok [OF _ q] show ?thesis
      by (simp add: ledger_ok_def held_def)
  next
    case False
    then have "client_get i (bk l) = (Waiting, bk l)"
      by (auto simp: client_get_def split: option.splits list.splits)
    with ok Client_Reads show ?thesis by simp
  qed
next
  case (Batch_Published x)
  assume "ledger_ok l"
  then show ?thesis
    using broker_publish_spec [of "bk l" x, THEN conjunct1]
      broker_publish_spec [of "bk l" x, THEN conjunct2, THEN conjunct2, THEN conjunct2] Batch_Published
    by (simp add: ledger_ok_def)
qed

interpretation broker_runs: preserved broker_step ledger_ok "\<lambda>_. True"
  by unfold_locales (rule ledger_step)

lemma broker_step_cap: "client_capacity (bk (broker_step e l)) = client_capacity (bk l)"
  by (cases e) (auto simp: broker_subscribe_def broker_unsubscribe_def client_get_def broker_publish_def
      split: prod.splits option.splits list.splits)

lemma broker_run_cap: "client_capacity (bk (run_calls broker_step es l)) = client_capacity (bk l)"
  by (induction es arbitrary: l) (simp_all add: broker_step_cap)

section \<open>Lemmas on the codec\<close>

text \<open>
  What \<open>msgpack\<close> documents, as far as the codec relies on it: integers of 64 bits, doubles,
  encodable texts, byte strings, lists and maps with text keys come back as they were,
  while their lengths fit in 32 bits.
\<close>

fun wire_value :: "pyval \<Rightarrow> bool" where
  "wire_value VNone = True"
| "wire_value (VBool _) = True"
| "wire_value (VInt i) = (- (2 ^ 63) \<le> i \<and> i < 2 ^ 64)"
| "wire_value (VFloat x) = is_double x"
| "wire_value (VStr s) = (list_all (\<lambda>c. c < 0x110000 \<and> \<not> is_surrogate c) s \<and> 4 * length s < 2 ^ 32)"
| "wire_value (VBytes bs) = (length bs < 2 ^ 32)"
| "wire_value (VList vs) = (list_all wire_value vs \<and> length vs < 2 ^ 32)"
| "wire_value (VDict kvs) =
     (list_all (\<lambda>(k, v). (case k of VStr s \<Rightarrow> wire_value (VStr s) | _ \<Rightarrow> False) \<and> wire_value v) kvs \<and>
      distinct (map fst kvs) \<and> length kvs < 2 ^ 32)"
| "wire_value (VOther _) = False"

definition msgpack_contract :: "(pyval \<Rightarrow> exn + 'w) \<Rightarrow> ('w \<Rightarrow> exn + pyval) \<Rightarrow> bool" where
  "msgpack_contract pack unpack \<longleftrightarrow>
     (\<forall>v. wire_value v \<longrightarrow> (\<exists>w. pack v = Inr w \<and> unpack w = Inr v))"

text \<open>What a frame becomes on the wire and back: its time stamps are floats.\<close>

definition floated_frame :: "frame \<Rightarrow> frame" where
  "floated_frame f = f\<lparr>host_timestamp := floated (host_timestamp f),
     normalized_timestamp := floated (normalized_timestamp f)\<rparr>"

definition hardware_float :: "frame \<Rightarrow> bool" where
  "hardware_float f \<longleftrightarrow> pred_option (\<lambda>t. case t of FloatNum _ \<Rightarrow> True | IntNum _ \<Rightarrow> False) (hardware_timestamp f)"

lemma as_apply [simp]: "as_int (VInt i) = Inr i" "as_bool (VBool b) = Inr b" "as_bytes (VBytes bs) = Inr bs"
    "as_str (VStr s) = Inr s" "as_dict (VDict d) = Inr d" "as_list (VList vs) = Inr vs"
  by (simp_all add: as_int_def as_bool_def as_bytes_def as_str_def as_dict_def as_list_def)

lemma wire_number_num_val: "dict_get d k = num_val t \<Longrightarrow> wire_number d k = as_float t"
  by (cases t) (simp_all add: wire_number_def num_val_def as_float_def)

lemma hardware_on_wire_opt [simp]: "hardware_on_wire (opt_num_val (hardware_timestamp f)) = hardware_float f"
  by (auto simp: hardware_on_wire_def hardware_float_def opt_num_val_def num_val_def
      split: option.splits pynum.splits)

lemma decode_frame_payload:
  assumes f: "valid_frame f"
  shows "decode_frame (frame_payload f)
    = (if hardware_float f then Inr (floated_frame f) else Inl value_error)"
proof -
  obtain d where d: "frame_payload f = VDict d" and gets:
    "dict_get d ''sequence'' = VInt (sequence f)" "dict_get d ''channel_id'' = VStr (channel_id f)"
    "dict_get d ''arbitration_id'' = VInt (arbitration_id f)"
    "dict_get d ''is_extended'' = VBool (is_extended f)" "dict_get d ''is_fd'' = VBool (is_fd f)"
    "dict_get d ''bitrate_switch'' = VBool (bitrate_switch f)"
    "dict_get d ''error_state_indicator'' = VBool (error_state_indicator f)"
    "dict_get d ''dlc'' = VInt (dlc f)" "dict_get d ''data'' = VBytes (data f)"
    "dict_get d ''direction'' = VStr (direction_value (direction f))"
    "dict_get d ''hardware_timestamp'' = opt_num_val (hardware_timestamp f)"
    "dict_get d ''host_timestamp'' = num_val (host_timestamp f)"
    "dict_get d ''normalized_timestamp'' = num_val (normalized_timestamp f)"
    "dict_get d ''clock_domain'' = VStr (clock_domain f)"
    "dict_get d ''timestamp_quality'' = VStr (timestamp_quality_value (timestamp_quality f))"
    "dict_get d ''flags'' = VInt (flags f)"
    unfolding frame_payload_def dict_of_def by simp
  have times: "valid_number (host_timestamp f)" "valid_number (normalized_timestamp f)"
    using f by (simp_all add: valid_frame_def)
  from as_float_valid [OF times(1)] obtain x where
    x: "as_float (host_timestamp f) = Inr x" "floated (host_timestamp f) = FloatNum x" "valid_number (FloatNum x)" .
  from as_float_valid [OF times(2)] obtain y where
    y: "as_float (normalized_timestamp f) = Inr y" "floated (normalized_timestamp f) = FloatNum y" "valid_number (FloatNum y)" .
  show ?thesis
  proof (cases "hardware_float f")
    case True
    have "valid_frame (floated_frame f)" using f x y by (simp add: floated_frame_def valid_frame_def)
    then have "frame_post_init (args_of (floated_frame f)) = Inr (floated_frame f)"
      by (simp add: frame_post_init_Inr)
    then have "frame_post_init \<lparr>arg_sequence = VInt (sequence f), arg_channel_id = VStr (channel_id f),
       arg_arbitration_id = VInt (arbitration_id f), arg_is_extended = VBool (is_extended f),
       arg_is_fd = VBool (is_fd f), arg_bitrate_switch = VBool (bitrate_switch f),
       arg_error_state_indicator = VBool (error_state_indicator f), arg_dlc = VInt (dlc f),
       arg_data = VBytes (data f), arg_direction = Inl (direction f),
       arg_hardware_timestamp = opt_num_val (hardware_timestamp f),
       arg_host_timestamp = VFloat x, arg_normalized_timestamp = VFloat y,
       arg_clock_domain = VStr (clock_domain f), arg_timestamp_quality = Inl (timestamp_quality f),
       arg_flags = VInt (flags f)\<rparr> = Inr (floated_frame f)"
      using x y by (simp add: args_of_def floated_frame_def num_val_def opt_num_val_def)
    with True show ?thesis
      unfolding decode_frame_def d
      by (simp add: gets wire_integer_def wire_string_def wire_boolean_def
          wire_number_num_val [OF gets(12)] wire_number_num_val [OF gets(13)] x(1) y(1)
          cong: rbind_weak_cong)
  next
    case False
    then show ?thesis unfolding decode_frame_def d by (simp add: gets cong: rbind_weak_cong)
  qed
qed

lemma rmap_frames:
  "list_all valid_frame fs \<Longrightarrow> rmap decode_frame (map frame_payload fs)
    = (if list_all hardware_float fs then Inr (map floated_frame fs) else Inl value_error)"
  by (induction fs) (auto simp: decode_frame_payload)

lemma floated_frame_sequence [simp]: "sequence (floated_frame f) = sequence f"
  by (simp add: floated_frame_def)

lemma contiguous_map: "contiguous (map floated_frame fs) = contiguous fs"
  by (induction fs rule: contiguous.induct) simp_all

definition floated_batch :: "frame_batch \<Rightarrow> frame_batch" where
  "floated_batch b = b\<lparr>frames := map floated_frame (frames b)\<rparr>"

lemma decode_batch_payload:
  assumes b: "valid_batch b" "list_all valid_frame (frames b)"
  shows "decode_payload (batch_payload b)
    = (if list_all hardware_float (frames b) then Inr (floated_batch b) else Inl value_error)"
proof -
  obtain d where d: "batch_payload b = VDict d" and gets:
    "dict_get d ''schema_version'' = VInt (schema_version b)" "dict_get d ''stream_id'' = VStr (stream_id b)"
    "dict_get d ''first_sequence'' = VInt (first_sequence b)"
    "dict_get d ''last_sequence'' = VInt (last_sequence b)"
    "dict_get d ''frame_count'' = VInt (frame_count b)"
    "dict_get d ''frames'' = VList (map frame_payload (frames b))"
    unfolding batch_payload_def dict_of_def by simp
  have "valid_batch (floated_batch b)"
    using b(1) by (cases "frames b" rule: rev_cases)
      (auto simp: valid_batch_def floated_batch_def contiguous_map hd_map last_map simp del: list.map map_append)
  then have "frame_batch_post_init (floated_batch b) = Inr (floated_batch b)"
    by (simp add: frame_batch_post_init_Inr)
  moreover have "floated_batch b = \<lparr>schema_version = schema_version b, stream_id = stream_id b,
      first_sequence = first_sequence b, last_sequence = last_sequence b, frame_count = frame_count b,
      frames = map floated_frame (frames b)\<rparr>"
    by (simp add: floated_batch_def)
  ultimately show ?thesis
    using b unfolding decode_payload_def d
    by (simp add: gets wire_integer_def wire_string_def rmap_frames valid_batch_def cong: rbind_weak_cong)
qed

text \<open>What a payload that decodes gives.\<close>

definition wire_frame :: "frame \<Rightarrow> bool" where
  "wire_frame f \<longleftrightarrow> valid_frame f \<and> hardware_float f \<and> floated_frame f = f"

lemma decode_frame_Inr:
  assumes "decode_frame v = Inr f"
  shows "wire_frame f"
proof -
  from assms obtain d a x y where a: "frame_post_init a = Inr f" "hardware_on_wire (arg_hardware_timestamp a)"
    "arg_host_timestamp a = VFloat x" "arg_normalized_timestamp a = VFloat y"
    unfolding decode_frame_def by (auto simp: rbind_Inr_iff)
  then have f: "a = args_of f" "valid_frame f" by (simp_all add: frame_post_init_Inr)
  have "host_timestamp f = FloatNum x" "normalized_timestamp f = FloatNum y"
    using a(3,4) f(1) by (auto simp: args_of_def num_val_def split: pynum.splits)
  moreover have "hardware_float f"
    using a(2) f(1) hardware_on_wire_opt [of f] by (simp add: args_of_def opt_num_val_def)
  ultimately show ?thesis using f(2) by (simp add: wire_frame_def floated_frame_def floated_def as_float_def)
qed

lemma decode_payload_Inr:
  assumes "decode_payload v = Inr b"
  shows "valid_batch b \<and> list_all wire_frame (frames b)"
proof -
  from assms obtain raw fs b0 where fs: "rmap decode_frame raw = Inr fs"
    and b: "frame_batch_post_init b0 = Inr b" "frames b0 = fs"
    unfolding decode_payload_def by (auto simp: rbind_Inr_iff)
  from fs have "list_all wire_frame fs" by (rule rmap_Inr_list_all) (rule decode_frame_Inr)
  with b show ?thesis by (simp add: frame_batch_post_init_Inr)
qed

abbreviation wire_errors :: "exn set" where
  "wire_errors \<equiv> {value_error, Foreign ''OverflowError''}"

lemma as_raises [raises_intros]:
  "raises_only wire_errors (as_int v)" "raises_only wire_errors (as_bool v)"
  "raises_only wire_errors (as_bytes v)" "raises_only wire_errors (as_str v)"
  "raises_only wire_errors (as_dict v)" "raises_only wire_errors (as_list v)"
  "raises_only wire_errors (nonempty_text v)"
  by (cases v; simp add: as_int_def as_bool_def as_bytes_def as_str_def as_dict_def as_list_def
      nonempty_text_def)+

lemma as_member_raises [raises_intros]: "raises_only wire_errors (as_member m)"
  by (cases m) (simp_all add: as_member_def)

lemma as_float_raises: "raises_only wire_errors (as_float t)"
  by (auto simp: as_float_def split: pynum.splits option.splits)

lemma wire_raises [raises_intros]:
  "raises_only wire_errors (wire_integer d k)" "raises_only wire_errors (wire_string d k)"
  "raises_only wire_errors (wire_boolean d k)" "raises_only wire_errors (wire_number d k)"
  by (auto simp: wire_integer_def wire_string_def wire_boolean_def wire_number_def
      intro: as_raises as_float_raises split: pyval.splits)

lemma timestamp_raises [raises_intros]:
  "raises_only wire_errors (check_timestamp v)" "raises_only wire_errors (check_hardware_timestamp v)"
proof -
  show "raises_only wire_errors (check_timestamp v)" by (cases v) (auto simp: check_timestamp_def)
  then show "raises_only wire_errors (check_hardware_timestamp v)"
    by (auto simp: check_hardware_timestamp_def intro!: raises_intros)
qed

lemma enum_raises [raises_intros]:
  "raises_only wire_errors (direction_of s)" "raises_only wire_errors (timestamp_quality_of s)"
  by (auto simp: direction_of_def timestamp_quality_of_def split: option.splits)

lemma frame_post_init_raises [raises_intros]: "raises_only wire_errors (frame_post_init a)"
  unfolding frame_post_init_def by (intro raises_intros raises_only_simps(1)) simp_all

lemma frame_batch_post_init_raises [raises_intros]: "raises_only wire_errors (frame_batch_post_init b)"
  by (auto simp: frame_batch_post_init_def Let_def)

lemma decode_frame_raises [raises_intros]: "raises_only wire_errors (decode_frame v)"
  unfolding decode_frame_def by (intro raises_intros) simp_all

lemma decode_payload_raises: "raises_only wire_errors (decode_payload v)"
  unfolding decode_payload_def by (intro raises_intros) simp_all

section \<open>Properties\<close>

text \<open>
  C18: the broker bounds its clients and counts what it loses. Along any interleaving of
  subscriptions, departures, reads and publications no client holds more batches than the
  capacity, the frames offered are those delivered, dropped, held or left behind by a
  client that went, and a series of publications leaves each client the newest batches
  that fit, in order, whatever the other clients do.
\<close>

theorem broker_accounts_for_every_frame:
  assumes "new_broker cap = Inr b0"
  shows "let l = run_calls broker_step es (ledger_of b0); b = bk l in
    list_all (\<lambda>(i, q). int (length q) \<le> cap) (clients b) \<and>
    offered l = broker_dropped b + delivered l + abandoned l + backlog (clients b) \<and>
    (\<forall>xs i. map_of (clients (fold broker_publish xs b)) i
       = map_option (\<lambda>q. drop (length q + length xs - nat cap) (q @ xs)) (map_of (clients b) i))"
proof -
  let ?l = "run_calls broker_step es (ledger_of b0)"
  have "ledger_ok (ledger_of b0)"
    using assms by (auto simp: new_broker_def ledger_ok_def ledger_of_def broker_ok_def queues_ok_def
        split: if_splits)
  then have ok: "ledger_ok ?l" by (rule broker_runs.run_inv) simp_all
  have cap: "client_capacity (bk ?l) = cap"
    using assms by (auto simp: broker_run_cap ledger_of_def new_broker_def split: if_splits)
  from ok published_queues [of "bk ?l"] show ?thesis
    unfolding Let_def cap [symmetric] by (simp add: ledger_ok_def broker_ok_def queues_ok_def)
qed

definition sample_batch :: frame_batch where
  "sample_batch = \<lparr>schema_version = CURRENT_SCHEMA_VERSION, stream_id = codes ''s'', first_sequence = 0,
     last_sequence = 0, frame_count = 1, frames = [sample_frame 0]\<rparr>"

theorem broker_accounts_for_every_frame_witness:
  "\<exists>b. new_broker 1 = Inr b \<and>
     (let l = run_calls broker_step [Client_Joins, Batch_Published sample_batch, Batch_Published sample_batch]
        (ledger_of b)
      in offered l = 2 \<and> 2 = broker_dropped (bk l) + delivered l + abandoned l + backlog (clients (bk l)))"
proof -
  let ?es = "[Client_Joins, Batch_Published sample_batch, Batch_Published sample_batch]"
  obtain b where b: "new_broker 1 = Inr b" "clients b = []" "next_client b = 0" "client_capacity b = 1"
    by (simp add: new_broker_def)
  let ?l = "run_calls broker_step ?es (ledger_of b)"
  have "offered ?l = 2"
    using b by (simp add: ledger_of_def broker_subscribe_def broker_publish_def sample_batch_def)
  moreover have "offered ?l = broker_dropped (bk ?l) + delivered ?l + abandoned ?l + backlog (clients (bk ?l))"
    using broker_accounts_for_every_frame [OF b(1), of ?es] unfolding Let_def by blast
  ultimately have "offered ?l = 2 \<and>
      2 = broker_dropped (bk ?l) + delivered ?l + abandoned ?l + backlog (clients (bk ?l))" by argo
  with b(1) show ?thesis unfolding Let_def by blast
qed

text \<open>
  C19: a batch survives the wire. A batch that the wire format can hold decodes to itself
  with its host and normalised time stamps turned into floats, exactly itself when they
  were floats, unless a frame has an integer hardware time stamp: then it is encoded but
  the decoder refuses it.
\<close>

theorem batch_roundtrip:
  assumes "msgpack_contract pack unpack" and "wire_value (batch_payload b)"
    and "valid_batch b" and "list_all valid_frame (frames b)"
  shows "rbind (encode_batch pack b) (decode_batch unpack)
      = (if list_all hardware_float (frames b) then Inr (floated_batch b) else Inl value_error) \<and>
    (list_all wire_frame (frames b) \<longrightarrow> rbind (encode_batch pack b) (decode_batch unpack) = Inr b)"
proof -
  from assms(1,2) obtain w where "pack (batch_payload b) = Inr w" "unpack w = Inr (batch_payload b)"
    by (auto simp: msgpack_contract_def)
  then have eq: "rbind (encode_batch pack b) (decode_batch unpack)
      = (if list_all hardware_float (frames b) then Inr (floated_batch b) else Inl value_error)"
    using decode_batch_payload [OF assms(3,4)] by (simp add: encode_batch_def decode_batch_def)
  moreover have "list_all hardware_float (frames b)" "floated_batch b = b"
    if "list_all wire_frame (frames b)"
    using that by (auto simp: list_all_iff wire_frame_def floated_batch_def map_idI)
  ultimately show ?thesis by simp
qed

theorem batch_roundtrip_witness:
  "rbind (encode_batch Inr sample_batch) (decode_batch Inr) = Inr sample_batch \<and>
   rbind (encode_batch Inr (sample_batch\<lparr>frames := [(sample_frame 0)\<lparr>hardware_timestamp := Some (IntNum 1)\<rparr>]\<rparr>))
     (decode_batch Inr) = Inl value_error"
proof -
  note sample = sample_batch_def sample_frame_def CURRENT_SCHEMA_VERSION_def
  let ?b = "sample_batch\<lparr>frames := [(sample_frame 0)\<lparr>hardware_timestamp := Some (IntNum 1)\<rparr>]\<rparr>"
  have "msgpack_contract Inr (Inr :: pyval \<Rightarrow> exn + pyval)" by (simp add: msgpack_contract_def)
  moreover have "wire_value (batch_payload sample_batch)" "wire_value (batch_payload ?b)"
    by (simp_all add: sample batch_payload_def frame_payload_def dict_of_def codes_def is_surrogate_def
        num_val_def opt_num_val_def)
  moreover have "list_all valid_frame (frames sample_batch)" "list_all valid_frame (frames ?b)"
    "valid_batch sample_batch" "valid_batch ?b"
    by (simp_all add: sample valid_frame_def valid_number_def codes_def CLASSIC_DLC_def
        valid_batch_def float_of_int_def is_double_1 [unfolded is_double_def, simplified])
  ultimately show ?thesis
    using batch_roundtrip [of Inr Inr sample_batch] batch_roundtrip [of Inr Inr ?b]
    by (simp add: sample hardware_float_def floated_batch_def floated_frame_def floated_def as_float_def)
qed

text \<open>
  C20: nothing malformed is decoded. Whatever bytes arrive, a batch that decodes is valid,
  its frames are canonical and all their time stamps are floats; otherwise the decoder
  raises what unpacking raised, a ValueError or an OverflowError.
\<close>

theorem decoding_is_validated:
  "case decode_batch unpack payload of
     Inr b \<Rightarrow> valid_batch b \<and> list_all wire_frame (frames b)
   | Inl e \<Rightarrow> if unpack payload = Inl e then True else e \<in> {Foreign ''ValueError'', Foreign ''OverflowError''}"
proof (cases "unpack payload")
  case (Inr v)
  then show ?thesis
    using decode_payload_raises [of v] decode_payload_Inr [of v]
    by (cases "decode_payload v") (auto simp: decode_batch_def)
qed (simp add: decode_batch_def)

end
