(* ===== verification/Pipeline.thy ===== *)
theory Pipeline
  imports Capture
begin

text \<open>
  The capture pipeline of \<open>canx/capture/pipeline.py\<close>: the table of named subscribers, the
  settlement of one fan-out and the worker's loop. A subscriber object is a number, because
  the code compares objects and not their contents. What the adapter receives, how each
  delivery of a fan-out ends (the steps of \<open>Capture\<close>, a cancellation, an exception) and what
  others do to the table while a turn waits are inputs of an iteration; the tasks and events
  of asyncio that bring them about are not modelled. The failure handler is told and may raise.
\<close>

datatype delivery =
    Delivered
  | Pressure subscriber_failure
  | Refused
  | Cancelled
  | Failed exn

record pipeline =
  subscribers :: "(pystr \<times> nat) list"
  next_object :: nat
  pl_normalizer :: normalizer
  pl_captured_frames :: nat
  stop_requested :: bool
  failure_handler :: "(subscriber_failure \<Rightarrow> exn + unit) option"
  reported_failures :: "subscriber_failure list"

definition new_pipeline :: "(subscriber_failure \<Rightarrow> exn + unit) option \<Rightarrow> pipeline" where
  "new_pipeline handler = \<lparr>subscribers = [], next_object = 0, pl_normalizer = new_normalizer,
     pl_captured_frames = 0, stop_requested = False, failure_handler = handler, reported_failures = []\<rparr>"

definition subscribe ::
    "pystr \<Rightarrow> int \<Rightarrow> bool \<Rightarrow> pyfloat option \<Rightarrow> (pipeline, exn, nat \<times> subscriber) exec" where
  "subscribe name capacity drops timeout = (\<lambda>p.
     if map_of (subscribers p) name \<noteq> None then (Inl value_error, p)
     else case subscriber_post_init name capacity drops timeout of
       Inl e \<Rightarrow> (Inl e, p)
     | Inr s \<Rightarrow> (Inr (next_object p, s),
         p\<lparr>subscribers := AList.update name (next_object p) (subscribers p), next_object := Suc (next_object p)\<rparr>))"

definition unsubscribe :: "pystr \<Rightarrow> (pipeline, exn, nat option) exec" where
  "unsubscribe name = (\<lambda>p. (Inr (map_of (subscribers p) name),
     p\<lparr>subscribers := AList.delete name (subscribers p)\<rparr>))"

definition report :: "subscriber_failure \<Rightarrow> (pipeline, exn, unit) exec" where
  "report f = (\<lambda>p. case failure_handler p of
     None \<Rightarrow> (Inr (), p)
   | Some h \<Rightarrow> (h f, p\<lparr>reported_failures := reported_failures p @ [f]\<rparr>))"

text \<open>The loop over the results of a fan-out, with its flag; the snapshot is \<open>(name, object)\<close>.\<close>

fun settle :: "((pystr \<times> nat) \<times> delivery) list \<Rightarrow> bool \<Rightarrow> (pipeline, exn, bool) exec" where
  "settle [] settled = ret settled"
| "settle (((name, n), r) # rs) settled =
     (case r of
        Delivered \<Rightarrow> settle rs settled
      | Pressure f \<Rightarrow>
          ebind (get (\<lambda>p. map_of (subscribers p) name = Some n)) (\<lambda>attached.
          eseq (if attached then ebind (unsubscribe name) (\<lambda>_. ret ()) else ret ())
         (eseq (report f) (settle rs settled)))
      | Refused \<Rightarrow>
          ebind (get (\<lambda>p. map_of (subscribers p) name = Some n)) (\<lambda>attached.
          if attached then throw (Foreign ''SubscriberDisabledError'') else settle rs settled)
      | Cancelled \<Rightarrow>
          ebind (get stop_requested) (\<lambda>stopping.
          if stopping then settle rs False else throw (Foreign ''CancelledError''))
      | Failed e \<Rightarrow> throw e)"

text \<open>
  What others do while a turn awaits the adapter or its deliveries: they attach and detach
  subscribers, under a name that was free or has become free again, and they request a stop.
\<close>

datatype meanwhile = Attaches pystr int bool "pyfloat option" | Detaches pystr | Stops

fun interrupted :: "meanwhile list \<Rightarrow> pipeline \<Rightarrow> pipeline" where
  "interrupted [] p = p"
| "interrupted (Attaches name capacity drops timeout # ms) p = interrupted ms (snd (subscribe name capacity drops timeout p))"
| "interrupted (Detaches name # ms) p = interrupted ms (snd (unsubscribe name p))"
| "interrupted (Stops # ms) p = interrupted ms (p\<lparr>stop_requested := True\<rparr>)"

text \<open>The snapshot is taken before the deliveries are awaited, the settlement comes after.\<close>

definition publish_frame :: "(pystr \<times> nat \<Rightarrow> delivery) \<Rightarrow> meanwhile list \<Rightarrow> (pipeline, exn, bool) exec" where
  "publish_frame outcome ms = ebind (get subscribers) (\<lambda>snapshot.
     if snapshot = [] then ret True
     else eseq (put (interrupted ms)) (settle (map (\<lambda>s. (s, outcome s)) snapshot) True))"

text \<open>
  The worker's loop over what each turn brings: a frame with the ends of its deliveries, or
  nothing, because stop was requested first. What is done while the frame is received and
  while it is delivered are inputs of the turn.
\<close>

datatype turn = Received frame "meanwhile list" "meanwhile list" "pystr \<times> nat \<Rightarrow> delivery" | Nothing

fun capture_loop :: "turn list \<Rightarrow> (pipeline, exn, unit) exec" where
  "capture_loop [] = ret ()"
| "capture_loop (Nothing # ts) = ret ()"
| "capture_loop (Received f before ms outcome # ts) =
     ebind (get stop_requested) (\<lambda>stopping.
     if stopping then ret ()
     else eseq (put (interrupted before))
         (ebind (\<lambda>p. case normalize f (pl_normalizer p) of (r, z) \<Rightarrow> (r, p\<lparr>pl_normalizer := z\<rparr>)) (\<lambda>g.
          ebind (publish_frame outcome ms) (\<lambda>settled.
          eseq (put (\<lambda>p. if settled then p\<lparr>pl_captured_frames := Suc (pl_captured_frames p)\<rparr> else p))
            (capture_loop ts)))))"

section \<open>Lemmas\<close>

definition pressures :: "delivery list \<Rightarrow> subscriber_failure list" where
  "pressures rs = concat (map (\<lambda>r. case r of Pressure f \<Rightarrow> [f] | _ \<Rightarrow> []) rs)"

lemma pressures_simps [simp]: "pressures [] = []"
    "pressures (r # rs) = (case r of Pressure f \<Rightarrow> [f] | _ \<Rightarrow> []) @ pressures rs"
  by (simp_all add: pressures_def)

definition under_pressure :: "((pystr \<times> nat) \<times> delivery) list \<Rightarrow> pystr \<times> nat \<Rightarrow> bool" where
  "under_pressure rs s \<longleftrightarrow> (\<exists>f. (s, Pressure f) \<in> set rs)"

lemma under_pressure_simps [simp]:
  "\<not> under_pressure [] s"
  "under_pressure ((t, r) # rs) s \<longleftrightarrow> (\<exists>f. r = Pressure f) \<and> s = t \<or> under_pressure rs s"
  by (auto simp: under_pressure_def)

lemma under_pressure_outcome:
  "under_pressure (map (\<lambda>s. (s, outcome s)) ss) s \<longleftrightarrow> s \<in> set ss \<and> (\<exists>f. outcome s = Pressure f)"
  by (induction ss) auto

lemma detach_if_attached:
  assumes "distinct (map fst t)"
  shows "(if map_of t name = Some n then AList.delete name t else t) = filter (\<lambda>s. s \<noteq> (name, n)) t"
proof (cases "map_of t name = Some n")
  case True
  have "(fst s \<noteq> name) = (s \<noteq> (name, n))" if "s \<in> set t" for s
    using eq_key_imp_eq_value [OF assms _ map_of_SomeD [OF True], of "snd s"] that
    by (metis fst_conv prod.collapse)
  then have "filter (\<lambda>s. fst s \<noteq> name) t = filter (\<lambda>s. s \<noteq> (name, n)) t"
    by (rule filter_cong [OF refl])
  with True show ?thesis by (simp add: AList.delete_eq case_prod_unfold eq_commute)
next
  case False
  with assms have "(name, n) \<notin> set t" by (simp add: map_of_eq_Some_iff)
  then have "\<forall>s \<in> set t. s \<noteq> (name, n)" by blast
  with False show ?thesis by (simp add: filter_id_conv [THEN iffD2])
qed

definition detached :: "pystr \<times> nat \<Rightarrow> subscriber_failure \<Rightarrow> pipeline \<Rightarrow> pipeline" where
  "detached s f p = p\<lparr>subscribers := filter (\<lambda>t. t \<noteq> s) (subscribers p), reported_failures :=
     reported_failures p @ (if failure_handler p = None then [] else [f])\<rparr>"

text \<open>The table of a pipeline: one subscriber for a name, and object numbers that were given out.\<close>

definition table_ok :: "pipeline \<Rightarrow> bool" where
  "table_ok p \<longleftrightarrow> distinct (map fst (subscribers p)) \<and> list_all (\<lambda>s. snd s < next_object p) (subscribers p)"

lemma attached: "map_of t name = None \<Longrightarrow> AList.update name n t = t @ [(name, n)]"
  by (induction t) (auto split: if_splits)

lemma subscribe_table:
  assumes "table_ok p"
  shows "table_ok (snd (subscribe name capacity drops timeout p)) \<and> next_object p \<le> next_object (snd (subscribe name capacity drops timeout p)) \<and>
    pl_captured_frames (snd (subscribe name capacity drops timeout p)) = pl_captured_frames p"
  using assms
  by (auto simp: subscribe_def table_ok_def attached list_all_iff map_of_eq_None_iff less_Suc_eq split: sum.splits)

lemma unsubscribe_table:
  assumes "table_ok p"
  shows "table_ok (snd (unsubscribe name p))"
  using assms by (auto simp: unsubscribe_def table_ok_def AList.delete_eq distinct_map_filter list_all_iff)

lemma interrupted_table:
  "table_ok p \<Longrightarrow> table_ok (interrupted ms p) \<and> next_object p \<le> next_object (interrupted ms p) \<and>
    pl_captured_frames (interrupted ms p) = pl_captured_frames p"
proof (induction ms p rule: interrupted.induct)
  case (2 name capacity drops timeout ms p)
  from subscribe_table [OF "2.prems", of name capacity drops timeout] "2.IH" show ?case by simp
next
  case (3 name ms p)
  from unsubscribe_table [OF "3.prems", of name] "3.IH" show ?case by (simp add: unsubscribe_def)
next
  case (4 ms p)
  then show ?case by (simp add: table_ok_def)
qed simp

lemma table_has: "table_ok p \<Longrightarrow> map_of (subscribers p) name = Some n \<longleftrightarrow> (name, n) \<in> set (subscribers p)"
  by (simp add: table_ok_def map_of_eq_Some_iff)

text \<open>How the delivery of one subscriber ends for the fan-out: what it raises, if anything.\<close>

definition raises_at :: "pipeline \<Rightarrow> (pystr \<times> nat) \<Rightarrow> delivery \<Rightarrow> exn option" where
  "raises_at p s r =
     (case r of
        Delivered \<Rightarrow> None
      | Pressure f \<Rightarrow> (case failure_handler p of None \<Rightarrow> None | Some h \<Rightarrow> (case h f of Inl e \<Rightarrow> Some e | Inr _ \<Rightarrow> None))
      | Refused \<Rightarrow> if s \<in> set (subscribers p) then Some (Foreign ''SubscriberDisabledError'') else None
      | Cancelled \<Rightarrow> if stop_requested p then None else Some (Foreign ''CancelledError'')
      | Failed e \<Rightarrow> Some e)"

definition settled_state :: "((pystr \<times> nat) \<times> delivery) list \<Rightarrow> pipeline \<Rightarrow> pipeline" where
  "settled_state rs p = p\<lparr>subscribers := filter (\<lambda>s. \<not> under_pressure rs s) (subscribers p),
     reported_failures := reported_failures p @
       (if failure_handler p = None then [] else pressures (map snd rs))\<rparr>"

lemma settled_state_same:
  "\<forall>f. r \<noteq> Pressure f \<Longrightarrow> settled_state ((s, r) # rs) p = settled_state rs p"
  by (cases r) (simp_all add: settled_state_def)

lemma settled_state_pressure:
  "settled_state ((s, Pressure f) # rs) p = settled_state rs (detached s f p)"
  by (simp add: settled_state_def detached_def conj_commute)

lemma detached_table: "table_ok p \<Longrightarrow> table_ok (detached s f p)"
  by (auto simp: detached_def table_ok_def distinct_map_filter list_all_iff)

lemma raised_detached: "s \<noteq> t \<Longrightarrow> raises_at (detached t f p) s r = raises_at p s r"
  by (cases r) (auto simp: raises_at_def detached_def)

lemma settle_pressure:
  assumes "table_ok p" "raises_at p s (Pressure f) = None"
  shows "settle ((s, Pressure f) # rs) settled p = settle rs settled (detached s f p)"
proof -
  obtain name n where s: "s = (name, n)" by fastforce
  have "distinct (map fst (subscribers p))" using assms(1) by (simp add: table_ok_def)
  from detach_if_attached [OF this, of name n]
  have "detached s f p = p\<lparr>subscribers := (if map_of (subscribers p) name = Some n
      then AList.delete name (subscribers p) else subscribers p), reported_failures :=
      reported_failures p @ (if failure_handler p = None then [] else [f])\<rparr>"
    by (simp add: detached_def s)
  then show ?thesis
    using assms(2) unfolding s
    by (auto simp: raises_at_def exec_simps report_def unsubscribe_def split: option.splits sum.splits if_splits)
qed

lemma settle_result:
  assumes "table_ok p" "distinct (map fst rs)"
  shows "case settle rs settled p of
    (Inr b, p') \<Rightarrow> b = (settled \<and> Cancelled \<notin> snd ` set rs) \<and> p' = settled_state rs p \<and> (\<forall>x\<in>set rs. raises_at p (fst x) (snd x) = None)
  | (Inl e, p') \<Rightarrow> \<exists>x\<in>set rs. raises_at p (fst x) (snd x) = Some e"
  using assms
proof (induction rs arbitrary: p settled)
  case Nil
  then show ?case by (simp add: exec_simps settled_state_def)
next
  case (Cons sr rs)
  obtain name n r where sr: "sr = ((name, n), r)" by (metis prod.exhaust)
  have other: "s \<noteq> (name, n)" if "(s, x) \<in> set rs" for s x using Cons.prems(2) that sr by force
  show ?case
  proof (cases "\<exists>f. r = Pressure f \<and> raises_at p (name, n) r = None")
    case True
    then obtain f where f: "r = Pressure f" "raises_at p (name, n) (Pressure f) = None" by blast
    have "distinct (map fst rs)" using Cons.prems(2) by simp
    note IH = Cons.IH [OF detached_table [OF Cons.prems(1), of "(name, n)" f] this, of settled]
    note step = settle_pressure [OF Cons.prems(1) f(2), of rs settled]
    have "raises_at (detached (name, n) f p) (fst x) (snd x) = raises_at p (fst x) (snd x)" if "x \<in> set rs" for x
      using other [of "fst x" "snd x"] that by (simp add: raised_detached)
    note same = this
    show ?thesis
      using f step IH same by (auto simp: sr settled_state_pressure split: prod.splits sum.splits)
  next
    case False
    have "distinct (map fst rs)" using Cons.prems(2) by simp
    note IH = Cons.IH [OF Cons.prems(1) this]
    have none: "raises_at p (name, n) Delivered = None" "(name, n) \<notin> set (subscribers p) \<Longrightarrow> raises_at p (name, n) Refused = None"
      "stop_requested p \<Longrightarrow> raises_at p (name, n) Cancelled = None"
      by (simp_all add: raises_at_def)
    show ?thesis
    proof (cases r)
      case Delivered
      then have "settle (sr # rs) settled p = settle rs settled p" by (simp add: sr)
      moreover have "settled_state (sr # rs) p = settled_state rs p" unfolding sr by (rule settled_state_same) (simp add: Delivered)
      ultimately show ?thesis using IH [of settled] Delivered none(1) by (auto simp: sr split: prod.splits sum.splits)
    next
      case (Pressure f)
      with False show ?thesis
        by (auto simp: sr raises_at_def exec_simps report_def unsubscribe_def split: option.splits sum.splits if_splits)
    next
      case Refused
      show ?thesis
      proof (cases "(name, n) \<in> set (subscribers p)")
        case True
        then show ?thesis using Refused table_has [OF Cons.prems(1)] by (simp add: sr raises_at_def exec_simps)
      next
        case out: False
        then have "settle (sr # rs) settled p = settle rs settled p"
          using Refused table_has [OF Cons.prems(1)] by (simp add: sr exec_simps)
        moreover have "settled_state (sr # rs) p = settled_state rs p" unfolding sr by (rule settled_state_same) (simp add: Refused)
        ultimately show ?thesis using IH [of settled] Refused none(2) [OF out] by (auto simp: sr split: prod.splits sum.splits)
      qed
    next
      case Cancelled
      show ?thesis
      proof (cases "stop_requested p")
        case True
        then have "settle (sr # rs) settled p = settle rs False p" using Cancelled by (simp add: sr exec_simps)
        moreover have "settled_state (sr # rs) p = settled_state rs p" unfolding sr by (rule settled_state_same) (simp add: Cancelled)
        ultimately show ?thesis using IH [of False] Cancelled none(3) [OF True] by (auto simp: sr split: prod.splits sum.splits)
      next
        case out: False
        then show ?thesis using Cancelled by (simp add: sr raises_at_def exec_simps)
      qed
    next
      case (Failed e)
      then show ?thesis by (simp add: sr raises_at_def exec_simps)
    qed
  qed
qed

text \<open>
  C21: the settlement of a fan-out. The subscribers of the snapshot are delivered to while others
  attach and detach subscribers and request a stop. An exception leaves the fan-out exactly if
  some delivery failed on its own, was refused by a subscriber that is still registered, was
  cancelled without a stop, or met its deadline and the handler raised. Otherwise the frame
  counts as captured exactly if no delivery was cancelled; of the table as it has become, the
  subscribers detached are exactly those whose own delivery met its deadline, and one that was
  attached in the meantime, under whatever name, stays; and the handler was told every such
  failure, once and in order.
\<close>

theorem fan_out_is_settled:
  assumes "table_ok p" "subscribers p \<noteq> []"
  shows "let q = interrupted ms p; ss = subscribers p in
    case publish_frame outcome ms p of
      (Inl e, _) \<Rightarrow> \<exists>s\<in>set ss. raises_at q s (outcome s) = Some e
    | (Inr settled, p') \<Rightarrow> (\<forall>s\<in>set ss. raises_at q s (outcome s) = None) \<and>
        settled = (Cancelled \<notin> outcome ` set ss) \<and>
        subscribers p' = filter (\<lambda>s. \<not> (s \<in> set ss \<and> (\<exists>f. outcome s = Pressure f))) (subscribers q) \<and>
        filter (\<lambda>s. next_object p \<le> snd s) (subscribers p') = filter (\<lambda>s. next_object p \<le> snd s) (subscribers q) \<and>
        reported_failures p' = reported_failures q @ (if failure_handler q = None then [] else pressures (map outcome ss)) \<and>
        pl_captured_frames p' = pl_captured_frames p"
proof -
  let ?rs = "map (\<lambda>s. (s, outcome s)) (subscribers p)" and ?q = "interrupted ms p"
  have q: "table_ok ?q" "pl_captured_frames ?q = pl_captured_frames p" using interrupted_table [OF assms(1)] by auto
  have old: "snd s < next_object p" if "s \<in> set (subscribers p)" for s
    using assms(1) that by (auto simp: table_ok_def list_all_iff)
  have "distinct (subscribers p)" using assms(1) by (simp add: table_ok_def distinct_map)
  then have "distinct (map fst ?rs)" by (simp add: comp_def)
  note r = settle_result [OF q(1) this, of True]
  have step: "publish_frame outcome ms p = settle ?rs True ?q"
    using assms(2) by (simp add: publish_frame_def exec_simps)
  obtain x p' where run: "settle ?rs True ?q = (x, p')" by fastforce
  show ?thesis
  proof (cases x)
    case (Inl e)
    with r run step show ?thesis by (auto simp: Let_def)
  next
    case (Inr b)
    with r run have b: "b = (Cancelled \<notin> snd ` set ?rs)" "p' = settled_state ?rs ?q" "\<forall>s\<in>set (subscribers p). raises_at ?q s (outcome s) = None"
      by auto
    have "filter (\<lambda>s. \<not> under_pressure ?rs s) (subscribers ?q) =
        filter (\<lambda>s. \<not> (s \<in> set (subscribers p) \<and> (\<exists>f. outcome s = Pressure f))) (subscribers ?q)"
      by (rule filter_cong) (auto simp: under_pressure_outcome)
    then have subs: "subscribers p' = filter (\<lambda>s. \<not> (s \<in> set (subscribers p) \<and> (\<exists>f. outcome s = Pressure f))) (subscribers ?q)"
      by (simp add: b(2) settled_state_def)
    have "filter (\<lambda>s. next_object p \<le> snd s) (subscribers p') = filter (\<lambda>s. next_object p \<le> snd s) (subscribers ?q)"
      unfolding subs filter_filter by (rule filter_cong) (auto dest: old)
    moreover have "reported_failures p' = reported_failures ?q @ (if failure_handler ?q = None then [] else pressures (map outcome (subscribers p)))"
      "pl_captured_frames p' = pl_captured_frames ?q"
      by (simp_all add: b(2) settled_state_def comp_def)
    moreover have "b = (Cancelled \<notin> outcome ` set (subscribers p))" by (simp add: b(1) image_image)
    moreover have "publish_frame outcome ms p = (Inr b, p')" using step run Inr by simp
    ultimately show ?thesis using b(3) subs q(2) by (simp only: Let_def prod.case sum.case simp_thms)
  qed
qed

text \<open>A subscriber meets its deadline after its owner has replaced it under the same name.\<close>

theorem fan_out_is_settled_witness:
  "let p = (new_pipeline None)\<lparr>subscribers := [(codes ''recorder'', 5), (codes ''ui'', 6)], next_object := 7\<rparr>;
       f = \<lparr>sf_code = ''subscriber.backpressure'', sf_subscriber = codes ''recorder'', sf_recoverable = False,
         sf_capacity = 2, sf_queue_depth = 2, sf_frame_sequence = 0\<rparr>;
       outcome = (\<lambda>s. if snd s = 5 then Pressure f else Delivered);
       ms = [Detaches (codes ''recorder''), Attaches (codes ''recorder'') 2 False None]
   in subscribers (snd (publish_frame outcome ms p)) = [(codes ''ui'', 6), (codes ''recorder'', 7)]"
proof -
  let ?p = "(new_pipeline None)\<lparr>subscribers := [(codes ''recorder'', 5), (codes ''ui'', 6)], next_object := 7\<rparr>"
  let ?f = "\<lparr>sf_code = ''subscriber.backpressure'', sf_subscriber = codes ''recorder'', sf_recoverable = False,
         sf_capacity = 2, sf_queue_depth = 2, sf_frame_sequence = 0\<rparr>"
  let ?outcome = "\<lambda>s :: pystr \<times> nat. if snd s = 5 then Pressure ?f else Delivered"
  let ?ms = "[Detaches (codes ''recorder''), Attaches (codes ''recorder'') 2 False None]"
  have ok: "table_ok ?p" "subscribers ?p \<noteq> []" by (simp_all add: table_ok_def)
  have q: "subscribers (interrupted ?ms ?p) = [(codes ''ui'', 6), (codes ''recorder'', 7)]" "failure_handler (interrupted ?ms ?p) = None"
    "stop_requested (interrupted ?ms ?p) = False"
    by (simp_all add: subscribe_def unsubscribe_def subscriber_post_init_def new_pipeline_def codes_def)
  have "\<forall>s\<in>set (subscribers ?p). raises_at (interrupted ?ms ?p) s (?outcome s) = None"
    using q by (simp add: raises_at_def)
  with fan_out_is_settled [OF ok, of ?ms ?outcome] q show ?thesis
    by (simp add: Let_def split: prod.splits sum.splits)
qed

end
