(* ===== verification/Dbc_Model.thy ===== *)
theory Dbc_Model
  imports Frames
begin

text \<open>
  The canonical DBC model of \<open>canx/dbc/model.py\<close>: choices, signals, messages, nodes,
  databases and the provenance of a document, with the checks of their constructors. The
  arguments of a constructor are values of any type; a tuple argument is a tuple of values
  (of instances, where the code asks for instances) or some other value.
\<close>

definition MAX_STANDARD_FRAME_ID :: int where "MAX_STANDARD_FRAME_ID = 0x7FF"
definition MAX_EXTENDED_FRAME_ID :: int where "MAX_EXTENDED_FRAME_ID = 0x1FFFFFFF"
definition MAX_CLASSIC_PAYLOAD_LENGTH :: int where "MAX_CLASSIC_PAYLOAD_LENGTH = 8"
definition MAX_FD_PAYLOAD_LENGTH :: int where "MAX_FD_PAYLOAD_LENGTH = 64"

datatype dbc_byte_order = LITTLE_ENDIAN | BIG_ENDIAN

datatype 'a tuple_arg = Tuple "'a list" | Not_Tuple pyval

section \<open>The checks\<close>

definition require_name :: "pyval \<Rightarrow> exn + pystr" where
  "require_name v = (case v of VStr s \<Rightarrow> if blank s then Inl value_error else Inr s | _ \<Rightarrow> Inl value_error)"

definition require_optional_name :: "pyval \<Rightarrow> exn + pystr option" where
  "require_optional_name v = (if v = VNone then Inr None else rbind (require_name v) (\<lambda>s. Inr (Some s)))"

definition require_integer :: "int option \<Rightarrow> int option \<Rightarrow> pyval \<Rightarrow> exn + int" where
  "require_integer low high v =
     rbind (as_int v) (\<lambda>i.
       if pred_option (\<lambda>l. l \<le> i) low \<and> pred_option (\<lambda>h. i \<le> h) high then Inr i else Inl value_error)"

definition require_finite :: "pyval \<Rightarrow> exn + pyfloat" where
  "require_finite v =
     (case v of
        VInt i \<Rightarrow> (case as_float (IntNum i) of Inl _ \<Rightarrow> Inl value_error | Inr x \<Rightarrow>
          if isfinite x then Inr x else Inl value_error)
      | VFloat x \<Rightarrow> if isfinite x then Inr x else Inl value_error
      | _ \<Rightarrow> Inl value_error)"

definition require_optional_finite :: "pyval \<Rightarrow> exn + pyfloat option" where
  "require_optional_finite v = (if v = VNone then Inr None else rbind (require_finite v) (\<lambda>x. Inr (Some x)))"

definition optional_text :: "pyval \<Rightarrow> exn + pystr option" where
  "optional_text v = (case v of VNone \<Rightarrow> Inr None | VStr s \<Rightarrow> Inr (Some s) | _ \<Rightarrow> Inl value_error)"

definition require_name_tuple :: "pyval tuple_arg \<Rightarrow> exn + pystr list" where
  "require_name_tuple t = (case t of Tuple vs \<Rightarrow> rmap require_name vs | Not_Tuple _ \<Rightarrow> Inl value_error)"

text \<open>\<open>_require_unique\<close>: the loop over the values with the set of those seen.\<close>

fun unique_loop :: "'a set \<Rightarrow> 'a list \<Rightarrow> exn + unit" where
  "unique_loop seen [] = Inr ()"
| "unique_loop seen (x # xs) = (if x \<in> seen then Inl value_error else unique_loop (insert x seen) xs)"

definition require_unique :: "'a list \<Rightarrow> exn + unit" where
  "require_unique xs = unique_loop {} xs"

section \<open>Choices and signals\<close>

record dbc_choice =
  choice_value :: int
  choice_label :: pystr

definition dbc_choice_post_init :: "pyval \<Rightarrow> pyval \<Rightarrow> exn + dbc_choice" where
  "dbc_choice_post_init v l =
     rbind (as_int v) (\<lambda>i. case l of VStr s \<Rightarrow> Inr \<lparr>choice_value = i, choice_label = s\<rparr> | _ \<Rightarrow> Inl value_error)"

record dbc_signal =
  signal_name :: pystr
  start_bit :: int
  signal_length :: int
  byte_order :: dbc_byte_order
  is_signed :: bool
  is_float :: bool
  factor :: pyfloat
  offset :: pyfloat
  minimum :: "pyfloat option"
  maximum :: "pyfloat option"
  unit_text :: "pystr option"
  receivers :: "pystr list"
  choices :: "dbc_choice list"
  is_multiplexer :: bool
  multiplexer_signal :: "pystr option"
  multiplexer_ids :: "int list option"
  signal_comment :: "pystr option"

record signal_args =
  arg_name :: pyval
  arg_start_bit :: pyval
  arg_length :: pyval
  arg_byte_order :: "dbc_byte_order + pyval"
  arg_is_signed :: pyval
  arg_is_float :: pyval
  arg_factor :: pyval
  arg_offset :: pyval
  arg_minimum :: pyval
  arg_maximum :: pyval
  arg_unit :: pyval
  arg_receivers :: "pyval tuple_arg"
  arg_choices :: "dbc_choice tuple_arg"
  arg_is_multiplexer :: pyval
  arg_multiplexer_signal :: pyval
  arg_multiplexer_ids :: "pyval tuple_arg"
  arg_comment :: pyval

definition require_choices :: "dbc_choice tuple_arg \<Rightarrow> exn + dbc_choice list" where
  "require_choices t =
     (case t of
        Tuple cs \<Rightarrow> rbind (require_unique (map choice_value cs)) (\<lambda>_. Inr cs)
      | Not_Tuple _ \<Rightarrow> Inl value_error)"

definition require_optional_multiplexer_ids :: "pyval tuple_arg \<Rightarrow> exn + int list option" where
  "require_optional_multiplexer_ids t =
     (case t of
        Not_Tuple v \<Rightarrow> if v = VNone then Inr None else Inl value_error
      | Tuple vs \<Rightarrow>
          rbind (guard (vs \<noteq> []) value_error) (\<lambda>_.
          rbind (rmap (require_integer (Some 0) None) vs) (\<lambda>is.
          rbind (require_unique is) (\<lambda>_. Inr (Some is)))))"

definition require_optionally_multiplexed :: "bool \<Rightarrow> pystr option \<Rightarrow> int list option \<Rightarrow> exn + unit" where
  "require_optionally_multiplexed switch parent ids =
     (let has_parent = parent \<noteq> None; has_ids = ids \<noteq> None in
      if switch then (if has_parent \<or> has_ids then Inl value_error else Inr ())
      else if has_parent \<noteq> has_ids then Inl value_error else Inr ())"

definition ordered_range :: "pyfloat option \<Rightarrow> pyfloat option \<Rightarrow> bool" where
  "ordered_range low high = (case (low, high) of (Some l, Some h) \<Rightarrow> \<not> pf_less h l | _ \<Rightarrow> True)"

definition dbc_signal_post_init :: "signal_args \<Rightarrow> exn + dbc_signal" where
  "dbc_signal_post_init a =
     rbind (require_name (arg_name a)) (\<lambda>name.
     rbind (require_integer (Some 0) None (arg_start_bit a)) (\<lambda>start.
     rbind (require_integer (Some 1) None (arg_length a)) (\<lambda>len.
     rbind (as_member (arg_byte_order a)) (\<lambda>order.
     rbind (as_bool (arg_is_signed a)) (\<lambda>signed.
     rbind (as_bool (arg_is_float a)) (\<lambda>flt.
     rbind (require_finite (arg_factor a)) (\<lambda>fac.
     rbind (require_finite (arg_offset a)) (\<lambda>off.
     rbind (require_optional_finite (arg_minimum a)) (\<lambda>low.
     rbind (require_optional_finite (arg_maximum a)) (\<lambda>high.
     rbind (guard (ordered_range low high) value_error) (\<lambda>_.
     rbind (optional_text (arg_unit a)) (\<lambda>un.
     rbind (require_name_tuple (arg_receivers a)) (\<lambda>rs.
     rbind (require_choices (arg_choices a)) (\<lambda>cs.
     rbind (as_bool (arg_is_multiplexer a)) (\<lambda>switch.
     rbind (require_optional_name (arg_multiplexer_signal a)) (\<lambda>parent.
     rbind (require_optional_multiplexer_ids (arg_multiplexer_ids a)) (\<lambda>ids.
     rbind (require_optionally_multiplexed switch parent ids) (\<lambda>_.
     rbind (optional_text (arg_comment a)) (\<lambda>com.
     Inr \<lparr>signal_name = name, start_bit = start, signal_length = len, byte_order = order,
       is_signed = signed, is_float = flt, factor = fac, offset = off, minimum = low, maximum = high,
       unit_text = un, receivers = rs, choices = cs, is_multiplexer = switch,
       multiplexer_signal = parent, multiplexer_ids = ids, signal_comment = com\<rparr>)))))))))))))))))))"

section \<open>Messages, nodes and databases\<close>

record dbc_message =
  frame_id :: int
  message_name :: pystr
  message_length :: int
  message_is_extended :: bool
  message_is_fd :: bool
  senders :: "pystr list"
  signals :: "dbc_signal list"
  message_comment :: "pystr option"
  cycle_time :: "int option"

record message_args =
  marg_frame_id :: pyval
  marg_name :: pyval
  marg_length :: pyval
  marg_is_extended :: pyval
  marg_is_fd :: pyval
  marg_senders :: "pyval tuple_arg"
  marg_signals :: "dbc_signal tuple_arg"
  marg_comment :: pyval
  marg_cycle_time :: pyval

definition require_signals :: "dbc_signal tuple_arg \<Rightarrow> exn + dbc_signal list" where
  "require_signals t =
     (case t of
        Tuple ss \<Rightarrow> rbind (require_unique (map signal_name ss)) (\<lambda>_. Inr ss)
      | Not_Tuple _ \<Rightarrow> Inl value_error)"

definition optional_cycle :: "pyval \<Rightarrow> exn + int option" where
  "optional_cycle v =
     (if v = VNone then Inr None else rbind (require_integer (Some 1) None v) (\<lambda>i. Inr (Some i)))"

definition dbc_message_post_init :: "message_args \<Rightarrow> exn + dbc_message" where
  "dbc_message_post_init a =
     rbind (require_name (marg_name a)) (\<lambda>name.
     rbind (as_bool (marg_is_extended a)) (\<lambda>ext.
     rbind (as_bool (marg_is_fd a)) (\<lambda>fd.
     rbind (require_integer (Some 0) (Some (if ext then MAX_EXTENDED_FRAME_ID else MAX_STANDARD_FRAME_ID))
       (marg_frame_id a)) (\<lambda>fid.
     rbind (require_integer (Some 0) (Some MAX_FD_PAYLOAD_LENGTH) (marg_length a)) (\<lambda>len.
     rbind (guard (fd \<or> len \<le> MAX_CLASSIC_PAYLOAD_LENGTH) value_error) (\<lambda>_.
     rbind (require_name_tuple (marg_senders a)) (\<lambda>from.
     rbind (require_signals (marg_signals a)) (\<lambda>ss.
     rbind (optional_text (marg_comment a)) (\<lambda>com.
     rbind (optional_cycle (marg_cycle_time a)) (\<lambda>cycle.
     Inr \<lparr>frame_id = fid, message_name = name, message_length = len, message_is_extended = ext,
       message_is_fd = fd, senders = from, signals = ss, message_comment = com, cycle_time = cycle\<rparr>))))))))))"

record dbc_node =
  node_name :: pystr
  node_comment :: "pystr option"

definition dbc_node_post_init :: "pyval \<Rightarrow> pyval \<Rightarrow> exn + dbc_node" where
  "dbc_node_post_init n c =
     rbind (require_name n) (\<lambda>name. rbind (optional_text c) (\<lambda>com. Inr \<lparr>node_name = name, node_comment = com\<rparr>))"

record dbc_database =
  messages :: "dbc_message list"
  nodes :: "dbc_node list"
  db_version :: "pystr option"

definition tuple_of :: "'a tuple_arg \<Rightarrow> exn + 'a list" where
  "tuple_of t = (case t of Tuple xs \<Rightarrow> Inr xs | Not_Tuple _ \<Rightarrow> Inl value_error)"

definition dbc_database_post_init ::
    "dbc_message tuple_arg \<Rightarrow> dbc_node tuple_arg \<Rightarrow> pyval \<Rightarrow> exn + dbc_database" where
  "dbc_database_post_init ms ns v =
     rbind (tuple_of ms) (\<lambda>ms.
     rbind (require_unique (map message_name ms)) (\<lambda>_.
     rbind (require_unique (map (\<lambda>m. (frame_id m, message_is_extended m)) ms)) (\<lambda>_.
     rbind (tuple_of ns) (\<lambda>ns.
     rbind (require_unique (map node_name ns)) (\<lambda>_.
     rbind (optional_text v) (\<lambda>ver.
     Inr \<lparr>messages = ms, nodes = ns, db_version = ver\<rparr>))))))"

record dbc_source =
  source_name :: pystr
  source_path :: "pystr option"
  source_sha256 :: pystr
  size_bytes :: int
  encoding :: pystr

definition dbc_source_post_init :: "pyval \<Rightarrow> pyval \<Rightarrow> pyval \<Rightarrow> pyval \<Rightarrow> pyval \<Rightarrow> exn + dbc_source" where
  "dbc_source_post_init n p d s e =
     rbind (require_name n) (\<lambda>name.
     rbind (if p = VNone then Inr None else rbind (nonempty_text p) (\<lambda>t. Inr (Some t))) (\<lambda>path.
     rbind (nonempty_text d) (\<lambda>sha.
     rbind (guard (length sha = 64 \<and> set sha \<subseteq> set (codes ''0123456789abcdef'')) value_error) (\<lambda>_.
     rbind (require_integer (Some 0) None s) (\<lambda>size.
     rbind (require_name e) (\<lambda>enc.
     Inr \<lparr>source_name = name, source_path = path, source_sha256 = sha, size_bytes = size, encoding = enc\<rparr>))))))"

section \<open>What the constructors establish\<close>

definition valid_signal :: "dbc_signal \<Rightarrow> bool" where
  "valid_signal s \<longleftrightarrow>
     \<not> blank (signal_name s) \<and> 0 \<le> start_bit s \<and> 1 \<le> signal_length s \<and>
     isfinite (factor s) \<and> isfinite (offset s) \<and>
     pred_option isfinite (minimum s) \<and> pred_option isfinite (maximum s) \<and>
     ordered_range (minimum s) (maximum s) \<and>
     list_all (\<lambda>r. \<not> blank r) (receivers s) \<and> distinct (map choice_value (choices s)) \<and>
     pred_option (\<lambda>p. \<not> blank p) (multiplexer_signal s) \<and>
     pred_option (\<lambda>is. is \<noteq> [] \<and> distinct is \<and> list_all (\<lambda>i. 0 \<le> i) is) (multiplexer_ids s) \<and>
     (multiplexer_signal s = None \<longleftrightarrow> multiplexer_ids s = None) \<and>
     (is_multiplexer s \<longrightarrow> multiplexer_signal s = None)"

definition valid_message :: "dbc_message \<Rightarrow> bool" where
  "valid_message m \<longleftrightarrow>
     \<not> blank (message_name m) \<and> 0 \<le> frame_id m \<and>
     frame_id m < (if message_is_extended m then 2 ^ 29 else 2 ^ 11) \<and>
     0 \<le> message_length m \<and> message_length m \<le> (if message_is_fd m then 64 else 8) \<and>
     list_all (\<lambda>r. \<not> blank r) (senders m) \<and> distinct (map signal_name (signals m)) \<and>
     pred_option (\<lambda>c. 1 \<le> c) (cycle_time m)"

definition valid_database :: "dbc_database \<Rightarrow> bool" where
  "valid_database d \<longleftrightarrow> distinct (map message_name (messages d)) \<and>
     distinct (map (\<lambda>m. (frame_id m, message_is_extended m)) (messages d)) \<and>
     distinct (map node_name (nodes d))"

text \<open>The arguments that make a given instance again.\<close>

definition opt_str :: "pystr option \<Rightarrow> pyval" where
  "opt_str s = (case s of None \<Rightarrow> VNone | Some t \<Rightarrow> VStr t)"

definition opt_float :: "pyfloat option \<Rightarrow> pyval" where
  "opt_float s = (case s of None \<Rightarrow> VNone | Some t \<Rightarrow> VFloat t)"

definition signal_args_of :: "dbc_signal \<Rightarrow> signal_args" where
  "signal_args_of s = \<lparr>arg_name = VStr (signal_name s), arg_start_bit = VInt (start_bit s),
     arg_length = VInt (signal_length s), arg_byte_order = Inl (byte_order s),
     arg_is_signed = VBool (is_signed s), arg_is_float = VBool (is_float s),
     arg_factor = VFloat (factor s), arg_offset = VFloat (offset s), arg_minimum = opt_float (minimum s),
     arg_maximum = opt_float (maximum s), arg_unit = opt_str (unit_text s),
     arg_receivers = Tuple (map VStr (receivers s)), arg_choices = Tuple (choices s),
     arg_is_multiplexer = VBool (is_multiplexer s), arg_multiplexer_signal = opt_str (multiplexer_signal s),
     arg_multiplexer_ids = (case multiplexer_ids s of None \<Rightarrow> Not_Tuple VNone | Some is \<Rightarrow> Tuple (map VInt is)),
     arg_comment = opt_str (signal_comment s)\<rparr>"

definition message_args_of :: "dbc_message \<Rightarrow> message_args" where
  "message_args_of m = \<lparr>marg_frame_id = VInt (frame_id m), marg_name = VStr (message_name m),
     marg_length = VInt (message_length m), marg_is_extended = VBool (message_is_extended m),
     marg_is_fd = VBool (message_is_fd m), marg_senders = Tuple (map VStr (senders m)),
     marg_signals = Tuple (signals m), marg_comment = opt_str (message_comment m),
     marg_cycle_time = (case cycle_time m of None \<Rightarrow> VNone | Some c \<Rightarrow> VInt c)\<rparr>"

lemma require_name_Inr: "require_name v = Inr s \<longleftrightarrow> v = VStr s \<and> \<not> blank s"
  by (cases v) (auto simp: require_name_def)

lemma require_optional_name_Inr:
  "require_optional_name v = Inr s \<longleftrightarrow> v = opt_str s \<and> pred_option (\<lambda>t. \<not> blank t) s"
  by (cases s) (auto simp: require_optional_name_def rbind_Inr_iff require_name_Inr opt_str_def)

lemma require_integer_Inr:
  "require_integer low high v = Inr i \<longleftrightarrow>
     v = VInt i \<and> pred_option (\<lambda>l. l \<le> i) low \<and> pred_option (\<lambda>h. i \<le> h) high"
  by (auto simp: require_integer_def rbind_Inr_iff as_Inr)

lemma optional_text_Inr: "optional_text v = Inr s \<longleftrightarrow> v = opt_str s"
  by (cases v; cases s) (auto simp: optional_text_def opt_str_def)

lemma unique_loop_Inr: "unique_loop seen xs = Inr u \<longleftrightarrow> distinct xs \<and> set xs \<inter> seen = {}"
  by (induction xs arbitrary: seen) auto

lemma require_unique_Inr: "require_unique xs = Inr u \<longleftrightarrow> distinct xs"
  by (simp add: require_unique_def unique_loop_Inr)

lemma rmap_Inr_iff: "(\<And>x y. f x = Inr y \<longleftrightarrow> x = g y \<and> P y) \<Longrightarrow> rmap f xs = Inr ys \<longleftrightarrow> xs = map g ys \<and> list_all P ys"
  by (induction xs arbitrary: ys) (auto simp: rbind_Inr_iff)

lemma require_name_tuple_Inr:
  "require_name_tuple t = Inr ns \<longleftrightarrow> t = Tuple (map VStr ns) \<and> list_all (\<lambda>n. \<not> blank n) ns"
  by (cases t) (auto simp: require_name_tuple_def rmap_Inr_iff [OF require_name_Inr])

lemma require_choices_Inr:
  "require_choices t = Inr cs \<longleftrightarrow> t = Tuple cs \<and> distinct (map choice_value cs)"
  by (cases t) (auto simp: require_choices_def rbind_Inr_iff require_unique_Inr)

lemma require_signals_Inr:
  "require_signals t = Inr ss \<longleftrightarrow> t = Tuple ss \<and> distinct (map signal_name ss)"
  by (cases t) (auto simp: require_signals_def rbind_Inr_iff require_unique_Inr)

lemma require_optional_multiplexer_ids_Inr:
  "require_optional_multiplexer_ids t = Inr ids \<longleftrightarrow>
     t = (case ids of None \<Rightarrow> Not_Tuple VNone | Some is \<Rightarrow> Tuple (map VInt is)) \<and>
     pred_option (\<lambda>is. is \<noteq> [] \<and> distinct is \<and> list_all (\<lambda>i. 0 \<le> i) is) ids"
proof -
  have ids: "rmap (require_integer (Some 0) None) vs = Inr is \<longleftrightarrow> vs = map VInt is \<and> list_all (\<lambda>i. 0 \<le> i) is" for vs "is"
    by (rule rmap_Inr_iff) (auto simp: require_integer_Inr)
  show ?thesis
    by (cases t; cases ids) (auto simp: require_optional_multiplexer_ids_def rbind_Inr_iff ids require_unique_Inr)
qed

lemma require_optionally_multiplexed_Inr:
  "require_optionally_multiplexed switch parent ids = Inr u \<longleftrightarrow>
     (parent = None \<longleftrightarrow> ids = None) \<and> (switch \<longrightarrow> parent = None)"
  by (auto simp: require_optionally_multiplexed_def Let_def)

lemma require_finite_isfinite: "require_finite v = Inr x \<Longrightarrow> isfinite x"
  by (cases v) (auto simp: require_finite_def split: sum.splits if_splits)

lemma require_finite_VFloat: "require_finite (VFloat x) = Inr y \<longleftrightarrow> isfinite x \<and> y = x"
  by (auto simp: require_finite_def)

lemma require_optional_finite_isfinite:
  "require_optional_finite v = Inr x \<Longrightarrow> pred_option isfinite x"
  by (auto simp: require_optional_finite_def rbind_Inr_iff require_finite_isfinite split: if_splits)

lemma require_optional_finite_opt: "pred_option isfinite x \<Longrightarrow> require_optional_finite (opt_float x) = Inr x"
  by (cases x) (auto simp: require_optional_finite_def opt_float_def require_finite_def)

lemmas dbc_checks = rbind_Inr_iff as_Inr as_member_Inr require_name_Inr require_optional_name_Inr
  require_integer_Inr optional_text_Inr require_name_tuple_Inr require_choices_Inr require_signals_Inr
  require_optional_multiplexer_ids_Inr require_optionally_multiplexed_Inr require_unique_Inr

lemma dbc_signal_valid: "dbc_signal_post_init a = Inr s \<Longrightarrow> valid_signal s"
  unfolding dbc_signal_post_init_def dbc_checks valid_signal_def
  by (auto dest!: require_finite_isfinite require_optional_finite_isfinite)

lemma dbc_signal_again: "valid_signal s \<Longrightarrow> dbc_signal_post_init (signal_args_of s) = Inr s"
  unfolding dbc_signal_post_init_def dbc_checks valid_signal_def
  by (cases s) (auto simp: signal_args_of_def require_finite_VFloat require_optional_finite_opt)

lemma optional_cycle_Inr:
  "optional_cycle v = Inr c \<longleftrightarrow> v = (case c of None \<Rightarrow> VNone | Some i \<Rightarrow> VInt i) \<and> pred_option (\<lambda>i. 1 \<le> i) c"
  by (cases c) (auto simp: optional_cycle_def rbind_Inr_iff require_integer_Inr)

lemma dbc_message_Inr: "dbc_message_post_init a = Inr m \<longleftrightarrow> a = message_args_of m \<and> valid_message m"
  unfolding dbc_message_post_init_def dbc_checks optional_cycle_Inr
  by (cases a; cases m) (auto simp: message_args_of_def valid_message_def MAX_EXTENDED_FRAME_ID_def
      MAX_STANDARD_FRAME_ID_def MAX_FD_PAYLOAD_LENGTH_def MAX_CLASSIC_PAYLOAD_LENGTH_def)

lemma tuple_of_Inr: "tuple_of t = Inr xs \<longleftrightarrow> t = Tuple xs"
  by (cases t) (auto simp: tuple_of_def)

lemma dbc_database_Inr:
  "dbc_database_post_init ms ns v = Inr d \<longleftrightarrow>
     ms = Tuple (messages d) \<and> ns = Tuple (nodes d) \<and> v = opt_str (db_version d) \<and> valid_database d"
  unfolding dbc_database_post_init_def dbc_checks tuple_of_Inr
  by (cases d) (auto simp: valid_database_def)

text \<open>A constructor refuses with a ValueError and nothing else.\<close>

lemma as_refuses [raises_intros]:
  "raises_only {value_error} (as_int v)" "raises_only {value_error} (as_bool v)"
  "raises_only {value_error} (as_member m)" "raises_only {value_error} (require_name v)"
  "raises_only {value_error} (optional_text v)" "raises_only {value_error} (require_finite v)"
  by (auto simp: as_int_def as_bool_def as_member_def require_name_def optional_text_def
      require_finite_def raises_only_def split: pyval.splits sum.splits)

lemma require_refuses [raises_intros]:
  "raises_only {value_error} (require_optional_name v)" "raises_only {value_error} (require_integer l h v)"
  "raises_only {value_error} (require_optional_finite v)" "raises_only {value_error} (optional_cycle v)"
  by (auto simp: require_optional_name_def require_integer_def require_optional_finite_def
      optional_cycle_def intro!: raises_intros)

lemma unique_refuses [raises_intros]: "raises_only {value_error} (require_unique xs)"
proof -
  have "raises_only {value_error} (unique_loop seen xs)" for seen
    by (induction xs arbitrary: seen) auto
  then show ?thesis by (simp add: require_unique_def)
qed

lemma tuple_refuses [raises_intros]:
  "raises_only {value_error} (require_name_tuple t)" "raises_only {value_error} (require_choices cs)"
  "raises_only {value_error} (require_signals ss)" "raises_only {value_error} (require_optional_multiplexer_ids t)"
  "raises_only {value_error} (require_optionally_multiplexed switch parent ids)" "raises_only {value_error} (tuple_of xs)"
  by (auto simp: require_name_tuple_def require_choices_def require_signals_def tuple_of_def
      require_optional_multiplexer_ids_def require_optionally_multiplexed_def Let_def
      intro!: raises_intros split: tuple_arg.splits)

lemma constructor_refuses:
  "raises_only {value_error} (dbc_signal_post_init a)" "raises_only {value_error} (dbc_message_post_init b)"
  "raises_only {value_error} (dbc_database_post_init ms ns v)"
  unfolding dbc_signal_post_init_def dbc_message_post_init_def dbc_database_post_init_def
  by (intro raises_intros; simp)+

section \<open>Properties\<close>

text \<open>
  The DBC constructors establish the model's invariants and accept every instance that
  satisfies them. A signal, a message or a database that constructs is valid; each valid
  one is constructed, unchanged, from its own fields; and a refusal is a ValueError.
\<close>

theorem dbc_constructors_characterised:
  "(case dbc_signal_post_init a of Inr s \<Rightarrow> valid_signal s | Inl e \<Rightarrow> e = Foreign ''ValueError'') \<and>
   (valid_signal s \<longleftrightarrow> dbc_signal_post_init (signal_args_of s) = Inr s) \<and>
   (dbc_message_post_init b = Inr m \<longleftrightarrow> b = message_args_of m \<and> valid_message m) \<and>
   (dbc_database_post_init (Tuple ms) (Tuple ns) (opt_str ver) = Inr d \<longleftrightarrow>
     d = \<lparr>messages = ms, nodes = ns, db_version = ver\<rparr> \<and> valid_database d)"
proof -
  have "opt_str x = opt_str y \<longleftrightarrow> x = y" for x y by (cases x; cases y) (auto simp: opt_str_def)
  then show ?thesis
    using dbc_signal_valid [of a] dbc_signal_valid [of "signal_args_of s" s] dbc_signal_again [of s]
      constructor_refuses(1) [of a]
    by (cases d; cases "dbc_signal_post_init a") (auto simp: dbc_message_Inr dbc_database_Inr)
qed

end
