(* ===== verification/Dbc_Signal.thy ===== *)
theory Dbc_Signal
  imports Dbc_Model
begin

text \<open>
  The extraction of one signal (\<open>_SignalPlan\<close> and \<open>_compile_signal\<close> of
  \<open>canx/dbc/decode.py\<close>): a signal is compiled to one byte window, a shift and a mask. The
  reference is the DBC bit numbering, read bit by bit.
\<close>

section \<open>Compiled signals\<close>

record signal_plan =
  plan_signal :: dbc_signal
  plan_choices :: "(int \<times> pystr) list"
  plan_ids :: "int list option"
  big_endian :: bool
  byte_start :: int
  byte_count :: int
  shift :: int
  mask_of :: int
  sign_bit :: int

definition compile_signal :: "dbc_signal \<Rightarrow> int \<Rightarrow> signal_plan option" where
  "compile_signal s length_bits =
     (if signal_length s > length_bits then None
      else case (case byte_order s of
            LITTLE_ENDIAN \<Rightarrow>
              if start_bit s + signal_length s > length_bits then None
              else (let sh = start_bit s mod 8
                in Some (start_bit s div 8, (sh + signal_length s + 7) div 8, sh, False))
          | BIG_ENDIAN \<Rightarrow>
              let network_start = 8 * (start_bit s div 8) + (7 - start_bit s mod 8) in
              if network_start + signal_length s > length_bits then None
              else (let first = network_start div 8;
                        cnt = (network_start + signal_length s - 1) div 8 - first + 1
                in Some (first, cnt, cnt * 8 - (network_start - first * 8) - signal_length s, True)))
        of None \<Rightarrow> None
         | Some (first, cnt, sh, big) \<Rightarrow>
             if sh < 0 then None
             else Some \<lparr>plan_signal = s, plan_choices = map (\<lambda>c. (choice_value c, choice_label c)) (choices s),
               plan_ids = multiplexer_ids s, big_endian = big, byte_start = first, byte_count = cnt,
               shift = sh, mask_of = push_bit (nat (signal_length s)) 1 - 1,
               sign_bit = (if is_signed s then push_bit (nat (signal_length s - 1)) 1 else 0)\<rparr>)"

definition int_from_bytes :: "bool \<Rightarrow> 8 word list \<Rightarrow> int" where
  "int_from_bytes big xs = horner_sum uint 256 (if big then rev xs else xs)"

definition raw_value :: "signal_plan \<Rightarrow> 8 word list \<Rightarrow> int" where
  "raw_value p bs =
     (let window = take (nat (byte_count p)) (drop (nat (byte_start p)) bs);
          number = int_from_bytes (big_endian p) window;
          v = and (drop_bit (nat (shift p)) number) (mask_of p)
      in if sign_bit p \<noteq> 0 \<and> and v (sign_bit p) \<noteq> 0 then v - (mask_of p + 1) else v)"

section \<open>The reference: the DBC bit numbering\<close>

text \<open>
  Where the \<open>i\<close>-th least significant bit of a signal lies in the payload, as byte and bit. An
  Intel signal starts at its least significant bit and counts up; a Motorola signal starts
  at its most significant bit and counts down within a byte, then on to the next byte.
\<close>

definition signal_bit :: "dbc_signal \<Rightarrow> nat \<Rightarrow> nat \<times> nat" where
  "signal_bit s i =
     (let st = nat (start_bit s); n = nat (signal_length s) in
      case byte_order s of
        LITTLE_ENDIAN \<Rightarrow> ((st + i) div 8, (st + i) mod 8)
      | BIG_ENDIAN \<Rightarrow>
          let p = 8 * (st div 8) + (7 - st mod 8) + (n - 1 - i) in (p div 8, 7 - p mod 8))"

definition reference_value :: "dbc_signal \<Rightarrow> 8 word list \<Rightarrow> int" where
  "reference_value s bs =
     (let n = nat (signal_length s);
          u = horner_sum of_bool 2 (map (\<lambda>i. case signal_bit s i of (B, b) \<Rightarrow> bit (bs ! B) b) [0 ..< n])
      in if is_signed s then signed_take_bit (n - 1) u else u)"

section \<open>The extraction is the reference\<close>

lemma bit_int_from_bytes:
  "bit (int_from_bytes big xs) n \<longleftrightarrow>
     n div 8 < length xs \<and> bit ((if big then rev xs else xs) ! (n div 8)) (n mod 8)"
  using bit_horner_sum_uint_exp_iff [of "if big then rev xs else xs" n]
  by (auto simp: int_from_bytes_def)

lemma and_mask_exp: "and v (push_bit n 1 - 1 :: int) = take_bit n v"
  by (simp add: take_bit_eq_mask mask_eq_exp_minus_1)

lemma raw_value_take_bit:
  assumes "mask_of p = push_bit n 1 - 1" "0 < n"
    and "sign_bit p = (if sg then push_bit (n - 1) 1 else 0)"
    and "u = take_bit n (drop_bit (nat (shift p)) (int_from_bytes (big_endian p)
      (take (nat (byte_count p)) (drop (nat (byte_start p)) bs))))"
  shows "raw_value p bs = (if sg then signed_take_bit (n - 1) u else u)"
proof -
  have "and u (push_bit (n - 1) 1) = 0 \<longleftrightarrow> \<not> bit u (n - 1)"
    using and_exp_eq_0_iff_not_bit [of u "n - 1"] by simp
  moreover have "signed_take_bit (n - 1) u = u - (if bit u (n - 1) then 2 ^ n else 0)"
    using signed_take_bit_eq_take_bit_minus [of "n - 1" u] assms(2,4) by simp
  ultimately show ?thesis
    unfolding raw_value_def Let_def assms(1) and_mask_exp assms(4) [symmetric] using assms(3) by auto
qed

text \<open>The plan in natural numbers.\<close>

definition motorola_start :: "nat \<Rightarrow> nat" where
  "motorola_start st = 8 * (st div 8) + (7 - st mod 8)"

lemma compile_little:
  assumes "byte_order s = LITTLE_ENDIAN" "start_bit s = int st" "signal_length s = int n"
    "compile_signal s (int bits) = Some p"
  shows "st + n \<le> bits" "nat (byte_start p) = st div 8" "nat (shift p) = st mod 8"
    "nat (byte_count p) = (st mod 8 + n + 7) div 8" "\<not> big_endian p"
  using assms by (auto simp: compile_signal_def Let_def nat_div_distrib nat_mod_distrib nat_add_distrib
      split: if_splits)

lemma compile_big:
  assumes "byte_order s = BIG_ENDIAN" "start_bit s = int st" "signal_length s = int n" "0 < n"
    "compile_signal s (int bits) = Some p"
  shows "motorola_start st + n \<le> bits" "nat (byte_start p) = motorola_start st div 8"
    "nat (byte_count p) = (motorola_start st + n - 1) div 8 - motorola_start st div 8 + 1"
    "int (nat (shift p)) = int (nat (byte_count p)) * 8 - int (motorola_start st mod 8) - int n" "big_endian p"
proof -
  let ?m = "motorola_start st"
  have m: "8 * (int st div 8) + (7 - int st mod 8) = int ?m"
    using pos_mod_bound [of 8 "int st"] by (simp add: motorola_start_def zdiv_int zmod_int of_nat_diff)
  have e: "int (?m + n - 1) = int ?m + int n - 1" using assms(4) by simp
  have le: "?m div 8 \<le> (?m + n - 1) div 8" using assms(4) by (intro div_le_mono) simp
  have c: "(int ?m + int n - 1) div 8 - int ?m div 8 + 1 = int ((?m + n - 1) div 8 - ?m div 8 + 1)"
    using le by (simp add: zdiv_int of_nat_diff flip: e)
  have r: "int ?m - int ?m div 8 * 8 = int (?m mod 8)" by (simp add: minus_div_mult_eq_mod zmod_int)
  from assms(5) have p: "int ?m + int n \<le> int bits" "byte_start p = int ?m div 8"
    "byte_count p = int ((?m + n - 1) div 8 - ?m div 8 + 1)"
    "shift p = byte_count p * 8 - int (?m mod 8) - int n" "0 \<le> shift p" "big_endian p"
    unfolding compile_signal_def assms(1-3) dbc_byte_order.case m Let_def c r
    by (auto split: if_splits)
  have start: "byte_start p = int (?m div 8)" using p(2) by (simp only: zdiv_int of_nat_numeral)
  show "?m + n \<le> bits" using p(1) by (simp only: of_nat_add [symmetric] of_nat_le_iff)
  show "nat (byte_start p) = ?m div 8" by (simp only: start nat_int)
  show cnt: "nat (byte_count p) = (?m + n - 1) div 8 - ?m div 8 + 1" by (simp only: p(3) nat_int)
  have "int (nat (byte_count p)) = byte_count p" by (simp only: p(3) nat_int)
  then show "int (nat (shift p)) = int (nat (byte_count p)) * 8 - int (?m mod 8) - int n"
    using p(4,5) by (simp only: nat_0_le)
  show "big_endian p" by (rule p(6))
qed

lemma byte_split:
  fixes m i :: nat
  shows "m div 8 + (m mod 8 + i) div 8 = (m + i) div 8" "(m mod 8 + i) mod 8 = (m + i) mod 8"
proof -
  have "(8 * a + r) div 8 = a + r div 8" for a r :: nat by simp
  from this [of "m div 8" "m mod 8 + i"]
  show "m div 8 + (m mod 8 + i) div 8 = (m + i) div 8" by (simp flip: add.assoc)
qed (simp add: mod_add_left_eq)

lemma reversed_bit:
  fixes q t cnt :: nat
  assumes "q + t + 1 = 8 * cnt"
  shows "cnt - 1 - q div 8 = t div 8" "q mod 8 = 7 - t mod 8" "q div 8 < cnt"
proof -
  let ?a = "t div 8" and ?b = "t mod 8"
  have t: "t = 8 * ?a + ?b" "?b < 8" by simp_all
  then have a: "?a < cnt" using assms by linarith
  have "q + 8 * ?a + ?b + 1 = 8 * cnt" using assms t(1) by linarith
  moreover obtain c where c: "c = 7 - ?b" "c < 8" by simp
  ultimately have "q = 8 * (cnt - 1 - ?a) + c" using a t(2) by linarith
  then have "q div 8 = cnt - 1 - ?a" "q mod 8 = c" using c(2) by simp_all
  then have "q div 8 = cnt - 1 - ?a" "q mod 8 = 7 - ?b" by (simp_all only: c(1))
  with a show "cnt - 1 - q div 8 = t div 8" "q mod 8 = 7 - t mod 8" "q div 8 < cnt" by simp_all
qed

lemma motorola_window:
  fixes q cnt m n i :: nat
  assumes "q = cnt * 8 - m mod 8 - n + i" "m mod 8 + n \<le> cnt * 8" "i < n"
  shows "cnt - 1 - q div 8 = (m mod 8 + (n - 1 - i)) div 8" "q mod 8 = 7 - (m mod 8 + (n - 1 - i)) mod 8"
    "q div 8 < cnt" "m div 8 + (m mod 8 + (n - 1 - i)) div 8 = (m + (n - 1 - i)) div 8"
    "(m mod 8 + (n - 1 - i)) mod 8 = (m + (n - 1 - i)) mod 8"
proof -
  let ?t = "m mod 8 + (n - 1 - i)"
  have q: "q + ?t + 1 = 8 * cnt" using assms by simp
  from reversed_bit [OF this]
  show "cnt - 1 - q div 8 = ?t div 8" "q mod 8 = 7 - ?t mod 8" "q div 8 < cnt" by simp_all
  show "m div 8 + ?t div 8 = (m + (n - 1 - i)) div 8" "?t mod 8 = (m + (n - 1 - i)) mod 8"
    by (rule byte_split)+
qed

lemma window_covers:
  fixes m n :: nat
  assumes "0 < n"
  shows "m mod 8 + n \<le> ((m + n - 1) div 8 - m div 8 + 1) * 8"
proof -
  define A B r where d: "A = m div 8" "B = (m + n - 1) div 8" "r = m mod 8"
  have "8 * A + r = m" "8 * B + (m + n - 1) mod 8 = m + n - 1" "(m + n - 1) mod 8 < 8" "A \<le> B"
    using assms by (simp_all add: d div_le_mono)
  moreover define c where "c = (m + n - 1) mod 8"
  ultimately have "r + n \<le> 8 * (B - A) + 8" using assms by linarith
  then show ?thesis by (simp add: d)
qed

lemma window_fits:
  fixes m n N :: nat
  assumes "0 < n" "m + n \<le> 8 * N"
  shows "m div 8 + ((m + n - 1) div 8 - m div 8 + 1) \<le> N"
proof -
  have "(m + n - 1) div 8 < N" using assms by (intro less_mult_imp_div_less) simp
  moreover have "m div 8 \<le> (m + n - 1) div 8" using assms by (intro div_le_mono) simp
  ultimately show ?thesis by simp
qed

lemma slice_nth: "k < c \<Longrightarrow> a + c \<le> length xs \<Longrightarrow> take c (drop a xs) ! k = xs ! (a + k)"
  by simp

lemma compiled_bits:
  assumes "compile_signal s (int (8 * N)) = Some p" "0 \<le> start_bit s" "1 \<le> signal_length s"
    and "N \<le> length bs" "i < nat (signal_length s)"
  shows "bit (int_from_bytes (big_endian p) (take (nat (byte_count p)) (drop (nat (byte_start p)) bs)))
      (nat (shift p) + i) = (case signal_bit s i of (B, b) \<Rightarrow> bit (bs ! B) b)"
    and "fst (signal_bit s i) < N"
proof -
  obtain st n where st: "start_bit s = int st" and n: "signal_length s = int n" "0 < n"
    using assms(2,3) nonneg_int_cases [of "start_bit s"] nonneg_int_cases [of "signal_length s"] by force
  let ?w = "take (nat (byte_count p)) (drop (nat (byte_start p)) bs)"
  have "bit (int_from_bytes (big_endian p) ?w) (nat (shift p) + i)
      = (case signal_bit s i of (B, b) \<Rightarrow> bit (bs ! B) b) \<and> fst (signal_bit s i) < N"
  proof (cases "byte_order s")
    case LITTLE_ENDIAN
    note c = compile_little [OF this st n(1) assms(1)]
    have i: "i < n" using assms(5) n by simp
    have "(st mod 8 + i + 8) div 8 \<le> (st mod 8 + n + 7) div 8" using i by (intro div_le_mono) simp
    then have q: "(st mod 8 + i) div 8 < nat (byte_count p)" unfolding c(4) by simp
    have idx: "st div 8 + (st mod 8 + i) div 8 = (st + i) div 8" "(st mod 8 + i) mod 8 = (st + i) mod 8"
      by (rule byte_split)+
    have N: "(st + i) div 8 < N" using c(1) i by (intro less_mult_imp_div_less) simp
    then have "(st mod 8 + i) div 8 < length bs - st div 8" using idx(1) assms(4) by linarith
    then have len: "(st mod 8 + i) div 8 < length ?w" using q c(2) by simp
    moreover have "st div 8 \<le> length bs" using idx(1) N assms(4) by linarith
    ultimately have "?w ! ((st mod 8 + i) div 8) = bs ! ((st + i) div 8)"
      using q idx(1) c(2) by simp
    with len idx N show ?thesis
      using LITTLE_ENDIAN c(3,5) by (simp add: bit_int_from_bytes signal_bit_def st Let_def)
  next
    case BIG_ENDIAN
    note c = compile_big [OF this st n assms(1)]
    let ?m = "motorola_start st" and ?t = "motorola_start st mod 8 + (n - 1 - i)" and ?q = "nat (shift p) + i"
    have i: "i < n" using assms(5) n by simp
    have cnt: "?m mod 8 + n \<le> nat (byte_count p) * 8"
      unfolding c(3) by (rule window_covers [OF n(2)])
    then have "?q = nat (byte_count p) * 8 - ?m mod 8 - n + i" using c(4) by linarith
    note w = motorola_window [OF this cnt i]
    have N: "(?m + (n - 1 - i)) div 8 < N" using c(1) i by (intro less_mult_imp_div_less) simp
    have full: "?m div 8 + nat (byte_count p) \<le> N" unfolding c(2,3) using c(1) by (rule window_fits [OF n(2)])
    then have len: "length ?w = nat (byte_count p)" using assms(4) c(2) by simp
    have "rev ?w ! (?q div 8) = ?w ! (nat (byte_count p) - Suc (?q div 8))"
      using rev_nth [of "?q div 8" ?w] w(3) by (simp only: len)
    also have "\<dots> = ?w ! (?t div 8)" using w(1) by simp
    also have "\<dots> = bs ! (?m div 8 + ?t div 8)"
    proof -
      have "nat (byte_count p) - 1 - ?q div 8 < nat (byte_count p)" using w(3) by simp
      then have "?t div 8 < nat (byte_count p)" by (simp only: w(1))
      moreover have "?m div 8 + nat (byte_count p) \<le> length bs" using full assms(4) by (rule order.trans)
      ultimately show ?thesis unfolding c(2) by (rule slice_nth)
    qed
    also have "\<dots> = bs ! ((?m + (n - 1 - i)) div 8)" by (simp only: w(4))
    finally have byte: "rev ?w ! (?q div 8) = bs ! ((?m + (n - 1 - i)) div 8)" .
    have sb: "signal_bit s i = ((?m + (n - 1 - i)) div 8, 7 - (?m + (n - 1 - i)) mod 8)"
      by (simp only: signal_bit_def st n(1) BIG_ENDIAN nat_int Let_def motorola_start_def dbc_byte_order.case)
    show ?thesis
      by (simp only: sb prod.case fst_conv bit_int_from_bytes c(5) if_True length_rev len w(3) w(2) w(5)
          simp_thms N byte)
  qed
  then show "bit (int_from_bytes (big_endian p) ?w) (nat (shift p) + i)
      = (case signal_bit s i of (B, b) \<Rightarrow> bit (bs ! B) b)" "fst (signal_bit s i) < N" by auto
qed

lemma compile_signal_fields:
  assumes "compile_signal s bits = Some p"
  shows "mask_of p = push_bit (nat (signal_length s)) 1 - 1"
    "sign_bit p = (if is_signed s then push_bit (nat (signal_length s) - 1) 1 else 0)"
    "plan_signal p = s" "plan_ids p = multiplexer_ids s"
    "plan_choices p = map (\<lambda>c. (choice_value c, choice_label c)) (choices s)"
  using assms by (auto simp: compile_signal_def nat_diff_distrib' split: if_splits option.splits prod.splits)

lemma raw_value_reference:
  assumes "compile_signal s (8 * int N) = Some p" "0 \<le> start_bit s" "1 \<le> signal_length s"
    and "N \<le> length bs"
  shows "raw_value p bs = reference_value s bs"
proof -
  let ?n = "nat (signal_length s)"
  define w where "w = int_from_bytes (big_endian p) (take (nat (byte_count p)) (drop (nat (byte_start p)) bs))"
  have c: "compile_signal s (int (8 * N)) = Some p" using assms(1) by simp
  have "take_bit ?n (drop_bit (nat (shift p)) w)
      = horner_sum of_bool 2 (map (\<lambda>i. case signal_bit s i of (B, b) \<Rightarrow> bit (bs ! B) b) [0 ..< ?n])"
    by (rule bit_eqI) (auto simp: bit_take_bit_iff bit_drop_bit_eq bit_horner_sum_bit_iff w_def
        compiled_bits(1) [OF c assms(2,3,4)])
  moreover have "0 < ?n" using assms(3) by simp
  ultimately show ?thesis
    using raw_value_take_bit [OF compile_signal_fields(1) [OF assms(1)] _ compile_signal_fields(2) [OF assms(1)]
        refl, of bs]
    by (simp add: reference_value_def Let_def w_def)
qed

lemma raw_value_bounds:
  assumes "compile_signal s bits = Some p" "1 \<le> signal_length s"
  shows "if is_signed s
    then - (2 ^ nat (signal_length s - 1)) \<le> raw_value p bs \<and> raw_value p bs < 2 ^ nat (signal_length s - 1)
    else 0 \<le> raw_value p bs \<and> raw_value p bs < 2 ^ nat (signal_length s)"
proof -
  have n: "0 < nat (signal_length s)" "nat (signal_length s) - 1 = nat (signal_length s - 1)"
    using assms(2) by (simp_all add: nat_diff_distrib')
  from raw_value_take_bit [OF compile_signal_fields(1) [OF assms(1)] n(1)
      compile_signal_fields(2) [OF assms(1)] refl, of bs]
  show ?thesis
    by (cases "is_signed s") (simp_all only: n(2) take_bit_nonnegative take_bit_int_less_exp
        signed_take_bit_int_greater_eq_minus_exp signed_take_bit_int_less_exp simp_thms if_True if_False)
qed

lemma compile_signal_None:
  assumes "compile_signal s (8 * int N) = None" "0 \<le> start_bit s" "1 \<le> signal_length s"
  shows "\<exists>i < nat (signal_length s). N \<le> fst (signal_bit s i)"
proof -
  obtain st n where st: "start_bit s = int st" and n: "signal_length s = int n" "0 < n"
    using assms(2,3) nonneg_int_cases [of "start_bit s"] nonneg_int_cases [of "signal_length s"] by force
  have le_div: "N \<le> x div 8" if "8 * N \<le> x" for x using div_le_mono [OF that, of 8] by simp
  show ?thesis
  proof (cases "byte_order s")
    case LITTLE_ENDIAN
    then have "int (8 * N) < int (st + n)"
      using assms(1) by (auto simp: compile_signal_def st n Let_def split: if_splits)
    then have "8 * N \<le> st + (n - 1)" using n(2) by linarith
    then have "N \<le> fst (signal_bit s (n - 1))"
      using LITTLE_ENDIAN le_div by (simp add: signal_bit_def st n Let_def)
    with n show ?thesis by (intro exI [of _ "n - 1"]) simp
  next
    case BIG_ENDIAN
    let ?m = "motorola_start st"
    have m: "8 * (int st div 8) + (7 - int st mod 8) = int ?m"
      using pos_mod_bound [of 8 "int st"] by (simp add: motorola_start_def zdiv_int zmod_int of_nat_diff)
    have "8 * N < ?m + n"
    proof (rule ccontr)
      assume fits: "\<not> 8 * N < ?m + n"
      have le: "?m div 8 \<le> (?m + n - 1) div 8" using n(2) by (intro div_le_mono) simp
      have e: "int ?m + int n - 1 = int (?m + n - 1)" using n(2) by simp
      have c: "(int ?m + int n - 1) div 8 - int ?m div 8 + 1 = int ((?m + n - 1) div 8 - ?m div 8 + 1)"
        using le by (simp add: zdiv_int of_nat_diff e del: of_nat_add)
      have r: "int ?m - int ?m div 8 * 8 = int (?m mod 8)" by (simp add: minus_div_mult_eq_mod zmod_int)
      have "int (?m mod 8 + n) \<le> int (((?m + n - 1) div 8 - ?m div 8 + 1) * 8)"
        using window_covers [OF n(2)] by (simp only: of_nat_le_iff)
      then have "int (?m mod 8) + int n \<le> int ((?m + n - 1) div 8 - ?m div 8 + 1) * 8"
        by (simp only: of_nat_add of_nat_mult of_nat_numeral)
      moreover have "int n \<le> 8 * int N" "int ?m + int n \<le> 8 * int N" using fits by linarith+
      ultimately show False
        using assms(1) unfolding compile_signal_def BIG_ENDIAN st n(1) dbc_byte_order.case m Let_def c r
        by (auto split: if_splits)
    qed
    then have "8 * N \<le> ?m + (n - 1 - 0)" using n(2) by linarith
    then have "N \<le> (?m + (n - 1 - 0)) div 8" by (rule le_div)
    then have "N \<le> fst (signal_bit s 0)"
      by (simp only: signal_bit_def st n(1) BIG_ENDIAN nat_int Let_def motorola_start_def
          dbc_byte_order.case fst_conv)
    with n show ?thesis by (intro exI [of _ 0]) simp
  qed
qed

lemma compile_signal_iff:
  assumes "0 \<le> start_bit s" "1 \<le> signal_length s"
  shows "compile_signal s (8 * int N) = None \<longleftrightarrow> (\<exists>i < nat (signal_length s). N \<le> fst (signal_bit s i))"
proof
  assume "\<exists>i < nat (signal_length s). N \<le> fst (signal_bit s i)"
  then obtain i where i: "i < nat (signal_length s)" "N \<le> fst (signal_bit s i)" by blast
  show "compile_signal s (8 * int N) = None"
  proof (rule ccontr)
    assume "compile_signal s (8 * int N) \<noteq> None"
    then obtain p where "compile_signal s (int (8 * N)) = Some p" by auto
    from compiled_bits(2) [OF this assms, of "replicate N 0" i] i show False by simp
  qed
qed (rule compile_signal_None [OF _ assms])

section \<open>Properties\<close>

text \<open>
  C22: compiled extraction is the DBC layout. A valid signal compiles against a payload of
  \<open>N\<close> bytes exactly if all its bits lie inside it, and the byte window, shift and mask then
  read, from any payload that long, the integer that the bits give one by one in the
  numbering of the signal's byte order, in two's complement if it is signed, within the
  range of its width.
\<close>

theorem extraction_is_the_dbc_layout:
  assumes "valid_signal s" and "N \<le> length bs"
  shows "case compile_signal s (8 * int N) of
      None \<Rightarrow> \<exists>i < nat (signal_length s). N \<le> fst (signal_bit s i)
    | Some p \<Rightarrow> (\<forall>i < nat (signal_length s). fst (signal_bit s i) < N) \<and>
        raw_value p bs = reference_value s bs \<and>
        (if is_signed s
         then - (2 ^ nat (signal_length s - 1)) \<le> raw_value p bs \<and> raw_value p bs < 2 ^ nat (signal_length s - 1)
         else 0 \<le> raw_value p bs \<and> raw_value p bs < 2 ^ nat (signal_length s))"
proof -
  have s: "0 \<le> start_bit s" "1 \<le> signal_length s" using assms(1) by (simp_all add: valid_signal_def)
  show ?thesis
  proof (cases "compile_signal s (8 * int N)")
    case (Some p)
    from compile_signal_iff [OF s, of N] Some have "\<forall>i < nat (signal_length s). fst (signal_bit s i) < N"
      by auto
    with raw_value_reference [OF Some s assms(2)] raw_value_bounds [OF Some s(2), of bs] Some
    show ?thesis by (simp only: option.case simp_thms)
  qed (use compile_signal_iff [OF s, of N] in simp)
qed

definition sample_signal :: dbc_signal where
  "sample_signal = \<lparr>signal_name = codes ''Speed'', start_bit = 7, signal_length = 12, byte_order = BIG_ENDIAN,
     is_signed = True, is_float = False, factor = Fin 1, offset = Fin 0, minimum = None, maximum = None,
     unit_text = None, receivers = [], choices = [], is_multiplexer = False, multiplexer_signal = None,
     multiplexer_ids = None, signal_comment = None\<rparr>"

lemma sample_signal_valid: "valid_signal sample_signal"
  by (simp add: valid_signal_def sample_signal_def blank_def codes_def py_space_def ordered_range_def)

theorem extraction_is_the_dbc_layout_witness:
  "map_option (\<lambda>p. raw_value p [0xFF, 0x80]) (compile_signal sample_signal 16)
   = Some (reference_value sample_signal [0xFF, 0x80])"
proof -
  obtain p where "compile_signal sample_signal 16 = Some p"
    by (simp add: compile_signal_def sample_signal_def)
  with extraction_is_the_dbc_layout [OF sample_signal_valid, of 2 "[0xFF, 0x80]"] show ?thesis by simp
qed

end
