(* ===== verification/Dbc_Decode.thy ===== *)
theory Dbc_Decode
  imports Dbc_Signal
begin

text \<open>
  The decoder of \<open>canx/dbc/decode.py\<close> above its signals: messages are compiled with their
  multiplexer switch, frames are matched and decoded, batches and work sets are decoded
  frame by frame. With it the results of \<open>canx/dbc/decode_model.py\<close>, the containers of
  \<open>canx/dbc/decode_set.py\<close> and the failures of \<open>canx/dbc/errors.py\<close> that decoding raises.
\<close>

section \<open>Failures\<close>

datatype dbc_error =
    DbcMessageNotFoundError int int bool bool
  | DbcFrameTypeMismatchError int int bool pystr bool bool
  | DbcPayloadTooShortError int int bool pystr int int
  | DbcDecodeUnsupportedError pystr string
  | DbcSignalDecodeError pystr pystr string

fun dbc_code :: "dbc_error \<Rightarrow> string" where
  "dbc_code (DbcMessageNotFoundError _ _ _ _) = ''dbc.message_not_found''"
| "dbc_code (DbcFrameTypeMismatchError _ _ _ _ _ _) = ''dbc.frame_type_mismatch''"
| "dbc_code (DbcPayloadTooShortError _ _ _ _ _ _) = ''dbc.payload_too_short''"
| "dbc_code (DbcDecodeUnsupportedError _ _) = ''dbc.decode_unsupported''"
| "dbc_code (DbcSignalDecodeError _ _ _) = ''dbc.signal_decode_failed''"

text \<open>An exception of the decoder: a diagnosable failure or one of another class.\<close>

datatype decode_exn = Dbc dbc_error | Plain exn

definition plain :: "exn + 'a \<Rightarrow> decode_exn + 'a" where
  "plain m = map_sum Plain id m"

section \<open>Results\<close>

record decoded_signal =
  ds_name :: pystr
  ds_raw_value :: int
  ds_physical_value :: pyfloat
  ds_choice_label :: "pystr option"
  ds_unit :: "pystr option"

definition decoded_signal_post_init :: "decoded_signal \<Rightarrow> exn + decoded_signal" where
  "decoded_signal_post_init d =
     (if blank (ds_name d) \<or> \<not> isfinite (ds_physical_value d) then Inl value_error else Inr d)"

record decoded_frame =
  df_frame :: frame
  df_message_name :: pystr
  df_signals :: "decoded_signal list"

definition decoded_frame_post_init :: "decoded_frame \<Rightarrow> exn + decoded_frame" where
  "decoded_frame_post_init d =
     (if blank (df_message_name d) \<or> \<not> distinct (map ds_name (df_signals d)) then Inl value_error else Inr d)"

definition decoded_signal_named :: "pystr \<Rightarrow> decoded_frame \<Rightarrow> decoded_signal option" where
  "decoded_signal_named n d = find (\<lambda>s. ds_name s = n) (df_signals d)"

record dbc_failure =
  fl_code :: string
  fl_recoverable :: bool
  fl_source :: string
  fl_details :: dbc_error

definition from_error :: "dbc_error \<Rightarrow> dbc_failure" where
  "from_error e = \<lparr>fl_code = dbc_code e, fl_recoverable = False, fl_source = ''dbc'', fl_details = e\<rparr>"

record frame_outcome =
  oc_frame :: frame
  oc_decoded :: "decoded_frame option"
  oc_failure :: "dbc_failure option"

definition outcome_post_init :: "frame_outcome \<Rightarrow> exn + frame_outcome" where
  "outcome_post_init c =
     (if (oc_decoded c = None) = (oc_failure c = None) then Inl value_error
      else if \<not> pred_option (\<lambda>d. df_frame d = oc_frame c) (oc_decoded c) then Inl value_error
      else Inr c)"

definition succeeded :: "frame \<Rightarrow> decoded_frame \<Rightarrow> exn + frame_outcome" where
  "succeeded f d = outcome_post_init \<lparr>oc_frame = f, oc_decoded = Some d, oc_failure = None\<rparr>"

definition failed_outcome :: "frame \<Rightarrow> dbc_failure \<Rightarrow> exn + frame_outcome" where
  "failed_outcome f e = outcome_post_init \<lparr>oc_frame = f, oc_decoded = None, oc_failure = Some e\<rparr>"

definition outcome_ok :: "frame_outcome \<Rightarrow> bool" where
  "outcome_ok c \<longleftrightarrow> oc_failure c = None"

record decoded_batch =
  db_schema_version :: int
  db_stream_id :: pystr
  db_first_sequence :: int
  db_last_sequence :: int
  db_frame_count :: int
  db_outcomes :: "frame_outcome list"

definition decoded_batch_post_init :: "decoded_batch \<Rightarrow> exn + decoded_batch" where
  "decoded_batch_post_init b =
     (if db_schema_version b \<noteq> 1 then Inl value_error
      else if blank (db_stream_id b) then Inl value_error
      else if db_outcomes b = [] then Inl value_error
      else let ss = map (\<lambda>c. sequence (oc_frame c)) (db_outcomes b) in
        if ss \<noteq> [hd ss .. hd ss + int (length ss) - 1] then Inl value_error
        else if db_first_sequence b \<noteq> hd ss \<or> db_last_sequence b \<noteq> last ss then Inl value_error
        else if db_frame_count b \<noteq> int (length (db_outcomes b)) then Inl value_error
        else Inr b)"

definition decoded_batch_create :: "pystr \<Rightarrow> frame_outcome list \<Rightarrow> exn + decoded_batch" where
  "decoded_batch_create stream cs =
     (if cs = [] then Inl value_error
      else decoded_batch_post_init \<lparr>db_schema_version = 1, db_stream_id = stream,
        db_first_sequence = sequence (oc_frame (hd cs)), db_last_sequence = sequence (oc_frame (last cs)),
        db_frame_count = int (length cs), db_outcomes = cs\<rparr>)"

section \<open>Work sets\<close>

definition MAX_FRAMES :: nat where
  "MAX_FRAMES = 1000"

text \<open>\<open>any(later <= earlier for earlier, later in pairwise(...))\<close>, negated.\<close>

fun increasing :: "int list \<Rightarrow> bool" where
  "increasing (x # y # ys) = (x < y \<and> increasing (y # ys))"
| "increasing _ = True"

record decode_frame_set =
  dfs_schema_version :: int
  dfs_stream_id :: pystr
  dfs_frame_count :: int
  dfs_frames :: "frame list"

definition decode_frame_set_post_init :: "decode_frame_set \<Rightarrow> exn + decode_frame_set" where
  "decode_frame_set_post_init w =
     (if dfs_schema_version w \<noteq> 1 then Inl value_error
      else if blank (dfs_stream_id w) then Inl value_error
      else if dfs_frames w = [] then Inl value_error
      else if length (dfs_frames w) > MAX_FRAMES then Inl value_error
      else if \<not> increasing (map sequence (dfs_frames w)) then Inl value_error
      else if dfs_frame_count w \<noteq> int (length (dfs_frames w)) then Inl value_error
      else Inr w)"

definition decode_frame_set_create :: "pystr \<Rightarrow> frame list \<Rightarrow> exn + decode_frame_set" where
  "decode_frame_set_create stream fs =
     (if fs = [] then Inl value_error
      else decode_frame_set_post_init \<lparr>dfs_schema_version = 1, dfs_stream_id = stream,
        dfs_frame_count = int (length fs), dfs_frames = fs\<rparr>)"

record decoded_frame_set =
  dds_schema_version :: int
  dds_stream_id :: pystr
  dds_frame_count :: int
  dds_outcomes :: "frame_outcome list"

definition decoded_frame_set_post_init :: "decoded_frame_set \<Rightarrow> exn + decoded_frame_set" where
  "decoded_frame_set_post_init w =
     (if dds_schema_version w \<noteq> 1 then Inl value_error
      else if blank (dds_stream_id w) then Inl value_error
      else if dds_outcomes w = [] then Inl value_error
      else if \<not> increasing (map (\<lambda>c. sequence (oc_frame c)) (dds_outcomes w)) then Inl value_error
      else if dds_frame_count w \<noteq> int (length (dds_outcomes w)) then Inl value_error
      else Inr w)"

definition decoded_frame_set_create :: "pystr \<Rightarrow> frame_outcome list \<Rightarrow> exn + decoded_frame_set" where
  "decoded_frame_set_create stream cs =
     (if cs = [] then Inl value_error
      else decoded_frame_set_post_init \<lparr>dds_schema_version = 1, dds_stream_id = stream,
        dds_frame_count = int (length cs), dds_outcomes = cs\<rparr>)"

section \<open>Compiled messages\<close>

definition physical_value :: "dbc_signal \<Rightarrow> int \<Rightarrow> exn + pyfloat" where
  "physical_value s raw = rbind (as_float (IntNum raw)) (\<lambda>x. Inr (float_add (float_mul x (factor s)) (offset s)))"

definition signal_decode :: "signal_plan \<Rightarrow> 8 word list \<Rightarrow> pystr \<Rightarrow> decode_exn + decoded_signal" where
  "signal_decode p bs message =
     (let s = plan_signal p; raw = raw_value p bs in
      case physical_value s raw of
        Inl _ \<Rightarrow> Inl (Dbc (DbcSignalDecodeError message (signal_name s) ''OverflowError''))
      | Inr x \<Rightarrow>
          if \<not> isfinite x
          then Inl (Dbc (DbcSignalDecodeError message (signal_name s) ''non_finite_physical_value''))
          else plain (decoded_signal_post_init \<lparr>ds_name = signal_name s, ds_raw_value = raw,
            ds_physical_value = x, ds_choice_label = map_of (rev (plan_choices p)) raw, ds_unit = unit_text s\<rparr>))"

record message_plan =
  mp_message :: dbc_message
  mp_signals :: "signal_plan list"
  mp_multiplexer :: "signal_plan option"
  mp_unsupported :: "string option"

definition resolve_multiplexer :: "dbc_message \<Rightarrow> string + dbc_signal option" where
  "resolve_multiplexer m =
     (let switches = filter is_multiplexer (signals m);
          switch = (case switches of [] \<Rightarrow> None | s # _ \<Rightarrow> Some s)
      in if length switches > 1 then Inl ''ambiguous_multiplexing''
         else if list_ex (\<lambda>s. case multiplexer_signal s of None \<Rightarrow> False
             | Some parent \<Rightarrow> switch = None \<or> parent \<noteq> signal_name (the switch)) (signals m)
         then Inl ''ambiguous_multiplexing''
         else Inr switch)"

fun compile_signals :: "int \<Rightarrow> dbc_signal list \<Rightarrow> string + signal_plan list" where
  "compile_signals bits [] = Inr []"
| "compile_signals bits (s # ss) =
     (if is_float s then Inl ''float_signal_payload''
      else case compile_signal s bits of
        None \<Rightarrow> Inl ''signal_outside_message_payload''
      | Some p \<Rightarrow> rbind (compile_signals bits ss) (\<lambda>ps. Inr (p # ps)))"

definition compile_message :: "dbc_message \<Rightarrow> message_plan" where
  "compile_message m =
     (case rbind (resolve_multiplexer m) (\<lambda>switch.
          rbind (compile_signals (message_length m * 8) (signals m)) (\<lambda>ps. Inr (switch, ps))) of
        Inl reason \<Rightarrow> \<lparr>mp_message = m, mp_signals = [], mp_multiplexer = None, mp_unsupported = Some reason\<rparr>
      | Inr (switch, ps) \<Rightarrow>
          \<lparr>mp_message = m, mp_signals = ps, mp_multiplexer = (case switch of None \<Rightarrow> None
             | Some s \<Rightarrow> find (\<lambda>p. signal_name (plan_signal p) = signal_name s) ps), mp_unsupported = None\<rparr>)"

definition plan_active :: "int option \<Rightarrow> signal_plan \<Rightarrow> bool" where
  "plan_active selected p =
     (case plan_ids p of None \<Rightarrow> True
      | Some ids \<Rightarrow> (case selected of None \<Rightarrow> False | Some v \<Rightarrow> v \<in> set ids))"

definition message_decode :: "message_plan \<Rightarrow> frame \<Rightarrow> decode_exn + decoded_frame" where
  "message_decode mp f =
     (let m = mp_message mp; name = message_name m in
      case mp_unsupported mp of
        Some reason \<Rightarrow> Inl (Dbc (DbcDecodeUnsupportedError name reason))
      | None \<Rightarrow>
          if int (length (data f)) < message_length m
          then Inl (Dbc (DbcPayloadTooShortError (sequence f) (arbitration_id f) (is_extended f) name
            (message_length m) (int (length (data f)))))
          else let selected = map_option (\<lambda>p. raw_value p (data f)) (mp_multiplexer mp) in
            rbind (rmap (\<lambda>p. signal_decode p (data f) name) (filter (plan_active selected) (mp_signals mp)))
              (\<lambda>ss. plain (decoded_frame_post_init \<lparr>df_frame = f, df_message_name = name, df_signals = ss\<rparr>)))"

section \<open>The decoder\<close>

type_synonym dbc_decoder = "int \<times> bool \<Rightarrow> message_plan option"

definition new_decoder :: "dbc_database \<Rightarrow> dbc_decoder" where
  "new_decoder d = map_of (rev (map (\<lambda>m. ((frame_id m, message_is_extended m), compile_message m)) (messages d)))"

definition dbc_decode_frame :: "dbc_decoder \<Rightarrow> frame \<Rightarrow> decode_exn + decoded_frame" where
  "dbc_decode_frame dec f =
     (case dec (arbitration_id f, is_extended f) of
        None \<Rightarrow> Inl (Dbc (DbcMessageNotFoundError (sequence f) (arbitration_id f) (is_extended f) (is_fd f)))
      | Some mp \<Rightarrow>
          if message_is_fd (mp_message mp) \<noteq> is_fd f
          then Inl (Dbc (DbcFrameTypeMismatchError (sequence f) (arbitration_id f) (is_extended f)
            (message_name (mp_message mp)) (message_is_fd (mp_message mp)) (is_fd f)))
          else message_decode mp f)"

definition decode_outcome :: "dbc_decoder \<Rightarrow> frame \<Rightarrow> decode_exn + frame_outcome" where
  "decode_outcome dec f =
     (case dbc_decode_frame dec f of
        Inr d \<Rightarrow> plain (succeeded f d)
      | Inl (Dbc e) \<Rightarrow> plain (failed_outcome f (from_error e))
      | Inl (Plain e) \<Rightarrow> Inl (Plain e))"

definition decode_outcomes :: "dbc_decoder \<Rightarrow> frame list \<Rightarrow> decode_exn + frame_outcome list" where
  "decode_outcomes dec fs = rmap (decode_outcome dec) fs"

definition dbc_decode_batch :: "dbc_decoder \<Rightarrow> frame_batch \<Rightarrow> decode_exn + decoded_batch" where
  "dbc_decode_batch dec b =
     rbind (decode_outcomes dec (frames b)) (\<lambda>cs. plain (decoded_batch_create (stream_id b) cs))"

definition dbc_decode_frames :: "dbc_decoder \<Rightarrow> decode_frame_set \<Rightarrow> decode_exn + decoded_frame_set" where
  "dbc_decode_frames dec w =
     rbind (decode_outcomes dec (dfs_frames w)) (\<lambda>cs. plain (decoded_frame_set_create (dfs_stream_id w) cs))"

section \<open>The meaning of a frame\<close>

text \<open>
  The specification: the message of the frame's identifier pair, the signals that are active
  for the value of its switch, and for each the reference value of its bits. \<open>unsupported\<close>
  is what the decoder refuses to guess.
\<close>

definition switch_of :: "dbc_message \<Rightarrow> dbc_signal option" where
  "switch_of m = find is_multiplexer (signals m)"

definition supported :: "dbc_message \<Rightarrow> bool" where
  "supported m \<longleftrightarrow>
     length (filter is_multiplexer (signals m)) \<le> 1 \<and>
     list_all (\<lambda>s. pred_option (\<lambda>parent. map_option signal_name (switch_of m) = Some parent)
       (multiplexer_signal s)) (signals m) \<and>
     list_all (\<lambda>s. \<not> is_float s \<and>
       list_all (\<lambda>i. fst (signal_bit s i) < nat (message_length m)) [0 ..< nat (signal_length s)]) (signals m)"

definition active :: "dbc_message \<Rightarrow> 8 word list \<Rightarrow> dbc_signal \<Rightarrow> bool" where
  "active m bs s \<longleftrightarrow>
     (case multiplexer_ids s of None \<Rightarrow> True
      | Some ids \<Rightarrow> (case switch_of m of None \<Rightarrow> False | Some w \<Rightarrow> reference_value w bs \<in> set ids))"

definition meaning :: "8 word list \<Rightarrow> dbc_signal \<Rightarrow> decoded_signal" where
  "meaning bs s =
     (let raw = reference_value s bs in
      \<lparr>ds_name = signal_name s, ds_raw_value = raw,
       ds_physical_value = (case physical_value s raw of Inr x \<Rightarrow> x | Inl _ \<Rightarrow> NaN),
       ds_choice_label = map_of (map (\<lambda>c. (choice_value c, choice_label c)) (choices s)) raw,
       ds_unit = unit_text s\<rparr>)"

definition message_for :: "dbc_database \<Rightarrow> frame \<Rightarrow> dbc_message option" where
  "message_for d f = find (\<lambda>m. frame_id m = arbitration_id f \<and> message_is_extended m = is_extended f) (messages d)"

definition spec_decode :: "dbc_database \<Rightarrow> frame \<Rightarrow> decoded_frame option" where
  "spec_decode d f =
     (case message_for d f of
        None \<Rightarrow> None
      | Some m \<Rightarrow>
          let ss = map (meaning (data f)) (filter (active m (data f)) (signals m)) in
          if message_is_fd m = is_fd f \<and> supported m \<and> message_length m \<le> int (length (data f)) \<and>
             list_all (\<lambda>s. isfinite (ds_physical_value s)) ss
          then Some \<lparr>df_frame = f, df_message_name = message_name m, df_signals = ss\<rparr> else None)"

definition canonical :: "dbc_database \<Rightarrow> bool" where
  "canonical d \<longleftrightarrow> valid_database d \<and> list_all valid_message (messages d) \<and>
     list_all (\<lambda>m. list_all valid_signal (signals m)) (messages d)"

section \<open>Lemmas\<close>

lemma map_of_find: "map_of (map (\<lambda>m. (key m, g m)) ms) k = map_option g (find (\<lambda>m. key m = k) ms)"
  by (induction ms) auto

lemma find_filter: "find P xs = (case filter P xs of [] \<Rightarrow> None | x # _ \<Rightarrow> Some x)"
  by (induction xs) auto

lemma new_decoder_lookup:
  assumes "canonical d"
  shows "new_decoder d (arbitration_id f, is_extended f) = map_option compile_message (message_for d f)"
proof -
  let ?kms = "map (\<lambda>m. ((frame_id m, message_is_extended m), compile_message m)) (messages d)"
  have "distinct (map fst ?kms)"
    using assms by (simp add: canonical_def valid_database_def comp_def)
  then have "new_decoder d = map_of ?kms" by (simp add: new_decoder_def map_of_rev_distinct)
  then show ?thesis by (simp add: map_of_find message_for_def)
qed

lemma resolve_multiplexer_Inr:
  "resolve_multiplexer m = Inr sw \<longleftrightarrow> sw = switch_of m \<and> length (filter is_multiplexer (signals m)) \<le> 1 \<and>
     list_all (\<lambda>s. pred_option (\<lambda>parent. map_option signal_name (switch_of m) = Some parent)
       (multiplexer_signal s)) (signals m)"
proof -
  have sw: "(case filter is_multiplexer (signals m) of [] \<Rightarrow> None | s # _ \<Rightarrow> Some s) = switch_of m"
    by (simp add: switch_of_def find_filter)
  have "(\<lambda>s. case multiplexer_signal s of None \<Rightarrow> False
      | Some parent \<Rightarrow> switch_of m = None \<or> parent \<noteq> signal_name (the (switch_of m)))
    = (\<lambda>s. \<not> pred_option (\<lambda>parent. map_option signal_name (switch_of m) = Some parent) (multiplexer_signal s))"
    by (cases "switch_of m") (auto simp: fun_eq_iff split: option.splits)
  note eq = this
  show ?thesis
    unfolding resolve_multiplexer_def Let_def sw eq
    by (auto simp: list_ex_iff list_all_iff simp del: map_option_eq_Some)
qed

definition inside :: "nat \<Rightarrow> dbc_signal \<Rightarrow> bool" where
  "inside N s \<longleftrightarrow> list_all (\<lambda>i. fst (signal_bit s i) < N) [0 ..< nat (signal_length s)]"

definition plan_of :: "nat \<Rightarrow> dbc_signal \<Rightarrow> signal_plan" where
  "plan_of N s = the (compile_signal s (8 * int N))"

lemma compile_inside:
  assumes "valid_signal s"
  shows "compile_signal s (8 * int N) = (if inside N s then Some (plan_of N s) else None)"
proof -
  have "0 \<le> start_bit s" "1 \<le> signal_length s" using assms by (simp_all add: valid_signal_def)
  from compile_signal_iff [OF this, of N] show ?thesis
    by (auto simp: inside_def plan_of_def list_all_iff not_less Ball_def)
qed

lemma compile_signals_Inr:
  assumes "list_all valid_signal ss"
  shows "compile_signals (8 * int N) ss = Inr ps \<longleftrightarrow>
    list_all (\<lambda>s. \<not> is_float s \<and> inside N s) ss \<and> ps = map (plan_of N) ss"
  using assms by (induction ss arbitrary: ps) (auto simp: compile_inside rbind_Inr_iff)

lemma plan_of_reads:
  assumes "valid_signal s" "inside N s" "N \<le> length bs"
  shows "raw_value (plan_of N s) bs = reference_value s bs" "plan_signal (plan_of N s) = s"
    "plan_ids (plan_of N s) = multiplexer_ids s"
    "plan_choices (plan_of N s) = map (\<lambda>c. (choice_value c, choice_label c)) (choices s)"
proof -
  have s: "0 \<le> start_bit s" "1 \<le> signal_length s" using assms(1) by (simp_all add: valid_signal_def)
  from compile_inside [OF assms(1), of N] assms(2) have c: "compile_signal s (8 * int N) = Some (plan_of N s)"
    by simp
  from raw_value_reference [OF c s assms(3)] compile_signal_fields [OF c]
  show "raw_value (plan_of N s) bs = reference_value s bs" "plan_signal (plan_of N s) = s"
    "plan_ids (plan_of N s) = multiplexer_ids s"
    "plan_choices (plan_of N s) = map (\<lambda>c. (choice_value c, choice_label c)) (choices s)" by auto
qed

lemma signal_decode_meaning:
  assumes "valid_signal s" "inside N s" "N \<le> length bs"
  shows "if isfinite (ds_physical_value (meaning bs s))
    then signal_decode (plan_of N s) bs name = Inr (meaning bs s)
    else \<exists>e. signal_decode (plan_of N s) bs name = Inl (Dbc e)"
proof -
  have "distinct (map fst (map (\<lambda>c. (choice_value c, choice_label c)) (choices s)))"
    using assms(1) by (simp add: valid_signal_def comp_def)
  from map_of_rev_distinct [OF this] plan_of_reads [OF assms] assms(1) show ?thesis
    by (cases "physical_value s (reference_value s bs)")
      (auto simp: signal_decode_def meaning_def Let_def decoded_signal_post_init_def plain_def valid_signal_def)
qed

lemma rmap_meaning:
  assumes "list_all (\<lambda>s. valid_signal s \<and> inside N s) ss" "N \<le> length bs"
  shows "if list_all (\<lambda>s. isfinite (ds_physical_value (meaning bs s))) ss
    then rmap (\<lambda>p. signal_decode p bs name) (map (plan_of N) ss) = Inr (map (meaning bs) ss)
    else \<exists>e. rmap (\<lambda>p. signal_decode p bs name) (map (plan_of N) ss) = Inl (Dbc e)"
  using assms(1)
proof (induction ss)
  case (Cons s ss)
  then show ?case
    using signal_decode_meaning [of s N bs name] assms(2) by (auto split: if_splits)
qed simp

lemma supported_iff:
  assumes "list_all valid_signal (signals m)" "0 \<le> message_length m"
  shows "mp_unsupported (compile_message m) = None \<longleftrightarrow> supported m"
    and "supported m \<Longrightarrow> compile_message m = \<lparr>mp_message = m, mp_signals = map (plan_of (nat (message_length m))) (signals m),
      mp_multiplexer = (case switch_of m of None \<Rightarrow> None
        | Some s \<Rightarrow> find (\<lambda>p. signal_name (plan_signal p) = signal_name s)
            (map (plan_of (nat (message_length m))) (signals m))), mp_unsupported = None\<rparr>"
    and "mp_message (compile_message m) = m"
proof -
  let ?N = "nat (message_length m)"
  let ?r = "rbind (resolve_multiplexer m) (\<lambda>switch.
          rbind (compile_signals (message_length m * 8) (signals m)) (\<lambda>ps. Inr (switch, ps)))"
  have N: "message_length m * 8 = 8 * int ?N" using assms(2) by simp
  have r: "?r = Inr (sw, ps) \<longleftrightarrow> supported m \<and> sw = switch_of m \<and> ps = map (plan_of ?N) (signals m)" for sw ps
    unfolding N rbind_Inr_iff resolve_multiplexer_Inr compile_signals_Inr [OF assms(1)] supported_def inside_def
    by auto
  show "mp_unsupported (compile_message m) = None \<longleftrightarrow> supported m"
    using r by (cases ?r) (auto simp: compile_message_def)
  show "mp_message (compile_message m) = m"
    by (auto simp: compile_message_def split: sum.splits prod.splits)
  assume "supported m"
  with r have "?r = Inr (switch_of m, map (plan_of ?N) (signals m))" by blast
  then show "compile_message m = \<lparr>mp_message = m, mp_signals = map (plan_of ?N) (signals m),
      mp_multiplexer = (case switch_of m of None \<Rightarrow> None
        | Some s \<Rightarrow> find (\<lambda>p. signal_name (plan_signal p) = signal_name s) (map (plan_of ?N) (signals m))),
      mp_unsupported = None\<rparr>"
    by (simp only: compile_message_def sum.case prod.case)
qed

lemma find_plan:
  assumes "s \<in> set ss" "distinct (map signal_name ss)" "\<And>t. t \<in> set ss \<Longrightarrow> plan_signal (c t) = t"
  shows "find (\<lambda>p. signal_name (plan_signal p) = signal_name s) (map c ss) = Some (c s)"
  using assms by (induction ss) auto

lemma decoded_names:
  "distinct (map signal_name ss) \<Longrightarrow> distinct (map ds_name (map (meaning bs) (filter P ss)))"
  by (induction ss) (auto simp: meaning_def Let_def)

definition readable :: "dbc_message \<Rightarrow> 8 word list \<Rightarrow> bool" where
  "readable m bs \<longleftrightarrow> list_all valid_signal (signals m) \<and> valid_message m \<and> supported m \<and>
     message_length m \<le> int (length bs)"

lemma readable_signal:
  assumes "readable m bs" "s \<in> set (signals m)"
  shows "valid_signal s" "inside (nat (message_length m)) s" "nat (message_length m) \<le> length bs"
  using assms by (auto simp: readable_def list_all_iff supported_def inside_def nat_le_iff)

lemma readable_plan:
  assumes "readable m bs" "s \<in> set (signals m)"
  defines "p \<equiv> plan_of (nat (message_length m)) s"
  shows "raw_value p bs = reference_value s bs" "plan_signal p = s" "plan_ids p = multiplexer_ids s"
  unfolding p_def using plan_of_reads [OF readable_signal [OF assms(1,2)]] by simp_all

lemma readable_compiled:
  assumes "readable m bs"
  shows "compile_message m = \<lparr>mp_message = m, mp_signals = map (plan_of (nat (message_length m))) (signals m),
    mp_multiplexer = (case switch_of m of None \<Rightarrow> None
      | Some s \<Rightarrow> find (\<lambda>p. signal_name (plan_signal p) = signal_name s)
          (map (plan_of (nat (message_length m))) (signals m))), mp_unsupported = None\<rparr>"
  using assms by (intro supported_iff(2)) (auto simp: readable_def valid_message_def)

lemma switch_value:
  assumes "readable m bs"
  shows "map_option (\<lambda>p. raw_value p bs) (mp_multiplexer (compile_message m))
    = map_option (\<lambda>w. reference_value w bs) (switch_of m)"
proof (cases "switch_of m")
  case (Some w)
  let ?N = "nat (message_length m)"
  from Some have w: "w \<in> set (signals m)" by (auto simp: switch_of_def find_Some_iff)
  have "distinct (map signal_name (signals m))" using assms by (simp add: readable_def valid_message_def)
  from find_plan [OF w this readable_plan(2) [OF assms]]
  have "find (\<lambda>p. signal_name (plan_signal p) = signal_name w) (map (plan_of ?N) (signals m)) = Some (plan_of ?N w)"
    by blast
  then show ?thesis
    using Some readable_compiled [OF assms] readable_plan(1) [OF assms w] by simp
qed (simp add: readable_compiled [OF assms])

lemma active_plans:
  assumes "readable m bs"
  shows "filter (plan_active (map_option (\<lambda>p. raw_value p bs) (mp_multiplexer (compile_message m))))
      (mp_signals (compile_message m)) = map (plan_of (nat (message_length m))) (filter (active m bs) (signals m))"
proof -
  let ?N = "nat (message_length m)"
  have "plan_active (map_option (\<lambda>w. reference_value w bs) (switch_of m)) (plan_of ?N s) = active m bs s"
    if "s \<in> set (signals m)" for s
    using readable_plan(3) [OF assms that]
    by (simp add: plan_active_def active_def split: option.splits)
  then have "filter (\<lambda>s. plan_active (map_option (\<lambda>w. reference_value w bs) (switch_of m)) (plan_of ?N s))
      (signals m) = filter (active m bs) (signals m)"
    by (rule filter_cong [OF refl])
  then show ?thesis
    unfolding switch_value [OF assms] by (simp add: readable_compiled [OF assms] filter_map comp_def)
qed

lemma message_decode_spec:
  fixes f :: frame
  assumes m: "list_all valid_signal (signals m)" "valid_message m"
  defines "ss \<equiv> map (meaning (data f)) (filter (active m (data f)) (signals m))"
  shows "if supported m \<and> message_length m \<le> int (length (data f)) \<and> list_all (\<lambda>s. isfinite (ds_physical_value s)) ss
    then message_decode (compile_message m) f = Inr \<lparr>df_frame = f, df_message_name = message_name m, df_signals = ss\<rparr>
    else \<exists>e. message_decode (compile_message m) f = Inl (Dbc e)"
proof (cases "supported m \<and> message_length m \<le> int (length (data f))")
  case True
  let ?N = "nat (message_length m)"
  have len: "0 \<le> message_length m" using m(2) by (simp add: valid_message_def)
  have mp: "mp_message (compile_message m) = m" "mp_unsupported (compile_message m) = None"
    using supported_iff(1,3) [OF m(1) len] True by simp_all
  have "list_all (\<lambda>s. valid_signal s \<and> inside ?N s) (filter (active m (data f)) (signals m))"
    using m(1) True by (auto simp: list_all_iff supported_def inside_def)
  moreover have "?N \<le> length (data f)" using True by (simp only: nat_le_iff)
  ultimately have r: "if list_all (\<lambda>s. isfinite (ds_physical_value s)) ss
    then rmap (\<lambda>p. signal_decode p (data f) (message_name m)) (map (plan_of ?N) (filter (active m (data f)) (signals m))) = Inr ss
    else \<exists>e. rmap (\<lambda>p. signal_decode p (data f) (message_name m)) (map (plan_of ?N) (filter (active m (data f)) (signals m))) = Inl (Dbc e)"
    unfolding ss_def list.pred_map comp_def by (rule rmap_meaning)
  have names: "distinct (map ds_name ss)" "\<not> blank (message_name m)"
    using m(2) decoded_names unfolding ss_def valid_message_def by blast+
  have act: "filter (plan_active (map_option (\<lambda>p. raw_value p (data f)) (mp_multiplexer (compile_message m))))
      (mp_signals (compile_message m)) = map (plan_of ?N) (filter (active m (data f)) (signals m))"
    using active_plans [of m "data f"] m True by (simp only: readable_def simp_thms)
  show ?thesis
    using r True names
    unfolding message_decode_def Let_def mp act
    by (auto simp: decoded_frame_post_init_def plain_def)
next
  case False
  have len: "0 \<le> message_length m" using m(2) by (simp add: valid_message_def)
  show ?thesis
  proof (cases "supported m")
    case True
    with False supported_iff(1,3) [OF m(1) len] show ?thesis
      by (simp add: message_decode_def Let_def not_le)
  next
    case unsupported: False
    then obtain r where "mp_unsupported (compile_message m) = Some r"
      using supported_iff(1) [OF m(1) len] by auto
    with unsupported show ?thesis by (simp add: message_decode_def Let_def)
  qed
qed

lemma decode_frame_spec:
  assumes "canonical d"
  shows "case spec_decode d f of
      Some df \<Rightarrow> dbc_decode_frame (new_decoder d) f = Inr df
    | None \<Rightarrow> \<exists>e. dbc_decode_frame (new_decoder d) f = Inl (Dbc e)"
proof (cases "message_for d f")
  case None
  with new_decoder_lookup [OF assms, of f] show ?thesis by (simp add: dbc_decode_frame_def spec_decode_def)
next
  case (Some m)
  then have "m \<in> set (messages d)" by (auto simp: message_for_def find_Some_iff)
  with assms have m: "list_all valid_signal (signals m)" "valid_message m"
    by (auto simp: canonical_def list_all_iff)
  have "0 \<le> message_length m" using m(2) by (simp add: valid_message_def)
  from supported_iff(3) [OF m(1) this] new_decoder_lookup [OF assms, of f] Some message_decode_spec [OF m, of f]
  show ?thesis
    by (auto simp: dbc_decode_frame_def spec_decode_def Let_def split: if_splits)
qed

text \<open>One outcome for one frame.\<close>

definition accounts :: "dbc_database \<Rightarrow> frame \<Rightarrow> frame_outcome \<Rightarrow> bool" where
  "accounts d f c \<longleftrightarrow> oc_frame c = f \<and> oc_decoded c = spec_decode d f \<and>
     (oc_failure c = None \<longleftrightarrow> oc_decoded c \<noteq> None)"

lemma spec_decode_frame: "spec_decode d f = Some df \<Longrightarrow> df_frame df = f"
  by (auto simp: spec_decode_def Let_def split: option.splits if_splits)

lemma decode_outcome_spec:
  assumes "canonical d"
  shows "\<exists>c. decode_outcome (new_decoder d) f = Inr c \<and> accounts d f c"
proof (cases "spec_decode d f")
  case None
  with decode_frame_spec [OF assms, of f] obtain e where "dbc_decode_frame (new_decoder d) f = Inl (Dbc e)" by auto
  with None show ?thesis
    by (simp add: decode_outcome_def failed_outcome_def outcome_post_init_def plain_def accounts_def)
next
  case (Some df)
  with decode_frame_spec [OF assms, of f] spec_decode_frame [OF Some] show ?thesis
    by (simp add: decode_outcome_def succeeded_def outcome_post_init_def plain_def accounts_def)
qed

lemma rmap_total: "(\<And>x. \<exists>y. f x = Inr y \<and> P x y) \<Longrightarrow> \<exists>ys. rmap f xs = Inr ys \<and> list_all2 P xs ys"
proof (induction xs)
  case (Cons x xs)
  then obtain y ys where "f x = Inr y" "P x y" "rmap f xs = Inr ys" "list_all2 P xs ys" by metis
  then show ?case by simp
qed simp

lemma decode_outcomes_spec:
  assumes "canonical d"
  obtains cs where "decode_outcomes (new_decoder d) fs = Inr cs" "list_all2 (accounts d) fs cs"
proof -
  have "\<exists>ys. rmap (decode_outcome (new_decoder d)) fs = Inr ys \<and> list_all2 (accounts d) fs ys"
    by (rule rmap_total) (rule decode_outcome_spec [OF assms])
  with that show thesis by (auto simp: decode_outcomes_def)
qed

lemma accounts_frames: "list_all2 (accounts d) fs cs \<Longrightarrow> map oc_frame cs = fs"
  by (induction rule: list_all2_induct) (simp_all add: accounts_def)

lemma decoded_batch_create_ok:
  assumes "valid_batch b" "map oc_frame cs = frames b" "\<not> blank (stream_id b)"
  shows "decoded_batch_create (stream_id b) cs = Inr \<lparr>db_schema_version = 1, db_stream_id = stream_id b,
    db_first_sequence = first_sequence b, db_last_sequence = last_sequence b,
    db_frame_count = frame_count b, db_outcomes = cs\<rparr>"
proof -
  have ne: "cs \<noteq> []" "frames b \<noteq> []" using assms(1,2) by (auto simp: valid_batch_def)
  have ss: "map (\<lambda>c. sequence (oc_frame c)) cs = map sequence (frames b)"
    by (simp add: assms(2) [symmetric])
  have ends: "sequence (oc_frame (hd cs)) = first_sequence b" "sequence (oc_frame (last cs)) = last_sequence b"
    "int (length cs) = frame_count b"
    using assms(1,2) ne hd_map [OF ne(1), of oc_frame] last_map [OF ne(1), of oc_frame] length_map [of oc_frame cs]
    by (simp_all add: valid_batch_def del: length_map)
  obtain f fs where fs: "frames b = f # fs" using ne(2) by (cases "frames b") auto
  let ?ss = "map sequence (frames b)"
  have "contiguous (f # fs)" using assms(1) by (simp add: valid_batch_def fs del: contiguous.simps)
  moreover have "hd ?ss = sequence f" "sequence f + int (length ?ss) - 1 = sequence f + int (length fs)"
    by (simp_all add: fs)
  ultimately have upto: "?ss = [hd ?ss .. hd ?ss + int (length ?ss) - 1]"
    by (simp only: contiguous_upto fs)
  have bounds: "first_sequence b = hd ?ss" "last_sequence b = last ?ss"
    using assms(1) ne(2) by (simp_all add: valid_batch_def hd_map last_map)
  show ?thesis
    using ne(1) assms(3) ends upto bounds unfolding decoded_batch_create_def decoded_batch_post_init_def
    by (simp only: if_False simp_thms decoded_batch.simps ss Let_def)
qed

lemma decoded_batch_create_blank:
  "blank stream \<Longrightarrow> decoded_batch_create stream cs = Inl value_error"
  by (simp add: decoded_batch_create_def decoded_batch_post_init_def)

lemma decoded_frame_set_create_ok:
  assumes "decode_frame_set_post_init w = Inr w'" "map oc_frame cs = dfs_frames w"
  shows "decoded_frame_set_create (dfs_stream_id w) cs = Inr \<lparr>dds_schema_version = 1,
    dds_stream_id = dfs_stream_id w, dds_frame_count = dfs_frame_count w, dds_outcomes = cs\<rparr>"
proof -
  have ss: "map (\<lambda>c. sequence (oc_frame c)) cs = map sequence (dfs_frames w)"
    by (simp add: assms(2) [symmetric])
  have "length cs = length (dfs_frames w)" by (simp add: assms(2) [symmetric])
  with assms show ?thesis
    by (auto simp: decoded_frame_set_create_def decoded_frame_set_post_init_def ss
        decode_frame_set_post_init_def split: if_splits)
qed

section \<open>Properties\<close>

text \<open>
  C23: the decoder computes the meaning of a frame. For a canonical database it returns
  exactly the specification's answer: the signals of the matching message that are active,
  in their declared order, each with the value its bits have in the DBC layout, its scaled
  value and its label; and where the specification has no answer it raises a typed DBC
  failure and nothing else.
\<close>

theorem decoder_computes_the_meaning:
  assumes "canonical d"
  shows "case spec_decode d f of
      Some df \<Rightarrow> dbc_decode_frame (new_decoder d) f = Inr df
    | None \<Rightarrow> \<exists>e. dbc_decode_frame (new_decoder d) f = Inl (Dbc e)"
  using assms by (rule decode_frame_spec)

definition sample_message :: dbc_message where
  "sample_message = \<lparr>frame_id = 0x123, message_name = codes ''Motion'', message_length = 2,
     message_is_extended = False, message_is_fd = False, senders = [], signals = [sample_signal],
     message_comment = None, cycle_time = None\<rparr>"

definition sample_database :: dbc_database where
  "sample_database = \<lparr>messages = [sample_message], nodes = [], db_version = None\<rparr>"

lemma sample_canonical: "canonical sample_database"
  by (simp add: canonical_def sample_database_def valid_database_def sample_message_def valid_message_def
      sample_signal_valid blank_def codes_def py_space_def)

theorem decoder_computes_the_meaning_witness:
  "\<exists>e. dbc_decode_frame (new_decoder sample_database) ((sample_frame 0)\<lparr>arbitration_id := 0x124\<rparr>) = Inl (Dbc e)"
proof -
  have "spec_decode sample_database ((sample_frame 0)\<lparr>arbitration_id := 0x124\<rparr>) = None"
    by (simp add: spec_decode_def message_for_def sample_database_def sample_message_def sample_frame_def)
  with decoder_computes_the_meaning [OF sample_canonical, of "(sample_frame 0)\<lparr>arbitration_id := 0x124\<rparr>"]
  show ?thesis by simp
qed

text \<open>
  C24: decoding drops nothing. A work set and a batch are answered with exactly one outcome
  per frame, in order, each about its frame and either a result or a failure; a frame that
  cannot be decoded never fails the others. The one exception is a batch whose stream
  identifier is blank but not empty: the batch is valid, its decoded batch is not.
\<close>

theorem decoding_drops_nothing:
  assumes "canonical d" and "valid_batch b" and "decode_frame_set_post_init w = Inr w"
  shows "(if blank (stream_id b) then dbc_decode_batch (new_decoder d) b = Inl (Plain (Foreign ''ValueError''))
      else \<exists>r. dbc_decode_batch (new_decoder d) b = Inr r \<and> list_all2 (accounts d) (frames b) (db_outcomes r) \<and>
        db_stream_id r = stream_id b \<and> db_frame_count r = frame_count b) \<and>
    (\<exists>r. dbc_decode_frames (new_decoder d) w = Inr r \<and>
        list_all2 (accounts d) (dfs_frames w) (dds_outcomes r) \<and> dds_stream_id r = dfs_stream_id w)"
proof -
  obtain cs where cs: "decode_outcomes (new_decoder d) (frames b) = Inr cs" "list_all2 (accounts d) (frames b) cs"
    using decode_outcomes_spec [OF assms(1)] .
  obtain ws where ws: "decode_outcomes (new_decoder d) (dfs_frames w) = Inr ws"
      "list_all2 (accounts d) (dfs_frames w) ws"
    using decode_outcomes_spec [OF assms(1)] .
  show ?thesis
    using decoded_batch_create_ok [OF assms(2) accounts_frames [OF cs(2)]]
      decoded_batch_create_blank [of "stream_id b" cs] cs
      decoded_frame_set_create_ok [OF assms(3) accounts_frames [OF ws(2)]] ws
    by (simp add: dbc_decode_batch_def dbc_decode_frames_def plain_def)
qed

theorem decoding_drops_nothing_witness:
  "dbc_decode_batch (new_decoder sample_database) \<lparr>schema_version = CURRENT_SCHEMA_VERSION, stream_id = [32],
     first_sequence = 0, last_sequence = 0, frame_count = 1, frames = [sample_frame 0]\<rparr>
   = Inl (Plain (Foreign ''ValueError''))"
proof -
  let ?b = "\<lparr>schema_version = CURRENT_SCHEMA_VERSION, stream_id = [32], first_sequence = 0,
    last_sequence = 0, frame_count = 1, frames = [sample_frame 0]\<rparr>"
  let ?w = "\<lparr>dfs_schema_version = 1, dfs_stream_id = codes ''s'', dfs_frame_count = 1, dfs_frames = [sample_frame 0]\<rparr>"
  have "valid_batch ?b" by (simp add: valid_batch_def sample_frame_def)
  moreover have "decode_frame_set_post_init ?w = Inr ?w"
    by (simp add: decode_frame_set_post_init_def blank_def codes_def py_space_def MAX_FRAMES_def)
  ultimately show ?thesis
    using decoding_drops_nothing [OF sample_canonical, of ?b ?w] by (simp add: blank_def py_space_def)
qed

end
