(* ===== verification/Agent_Paths.thy ===== *)
theory Agent_Paths
  imports Digest
begin

text \<open>
  Paths and ownership patterns of the agent tooling (\<open>tools/agent/paths.py\<close>). A glob is
  compiled to the tokens of the regular expression the code builds, and matched as Python's
  \<open>re\<close> matches that expression: anchored at the start, and at the end or before one final
  newline, which is what \<open>$\<close> means there.
\<close>

section \<open>Normalisation\<close>

abbreviation PathInvalidError :: exn where
  "PathInvalidError \<equiv> Foreign ''agent.path_invalid''"

definition is_letter :: "nat \<Rightarrow> bool" where
  "is_letter c \<longleftrightarrow> (65 \<le> c \<and> c \<le> 90) \<or> (97 \<le> c \<and> c \<le> 122)"

definition reject_common :: "pystr option \<Rightarrow> exn + pystr" where
  "reject_common raw =
     (case raw of None \<Rightarrow> Inl PathInvalidError
      | Some s \<Rightarrow> let t = py_strip s in
          if t = [] then Inl PathInvalidError
          else if 0 \<in> set t then Inl PathInvalidError
          else if 92 \<in> set t then Inl PathInvalidError
          else if hd t = slash \<or> (2 \<le> length t \<and> is_letter (hd t) \<and> t ! 1 = 58) then Inl PathInvalidError
          else Inr t)"

text \<open>\<open>posixpath.normpath\<close> of a path that does not start with a slash; the stack is reversed.\<close>

fun norm_segments :: "pystr list \<Rightarrow> pystr list \<Rightarrow> pystr list" where
  "norm_segments stack [] = rev stack"
| "norm_segments stack (s # ss) =
     (if s = [] \<or> s = dot then norm_segments stack ss
      else if s \<noteq> dotdot \<or> stack = [] \<or> hd stack = dotdot then norm_segments (s # stack) ss
      else norm_segments (tl stack) ss)"

definition normpath :: "pystr \<Rightarrow> pystr" where
  "normpath p = (let q = join_slash (norm_segments [] (split_slash p)) in if q = [] then dot else q)"

definition normalize_repo_path :: "pystr option \<Rightarrow> exn + pystr" where
  "normalize_repo_path raw = rbind (reject_common raw) (\<lambda>candidate.
     let n = normpath candidate in
     if n \<in> {dot, dotdot} \<or> starts_with n (codes ''../'') then Inl PathInvalidError else Inr n)"

definition normalize_repo_pattern :: "pystr option \<Rightarrow> exn + pystr" where
  "normalize_repo_pattern raw = rbind (reject_common raw) (\<lambda>candidate.
     if last candidate = slash then Inl PathInvalidError
     else if list_ex (\<lambda>s. s \<in> {[], dot, dotdot}) (split_slash candidate) then Inl PathInvalidError
     else Inr candidate)"

section \<open>Globs\<close>

definition star :: nat where "star = 42"
definition question :: nat where "question = 63"
definition newline :: nat where "newline = 10"

definition is_glob :: "pystr \<Rightarrow> bool" where
  "is_glob p \<longleftrightarrow> star \<in> set p \<or> question \<in> set p"

datatype token =
    Lit nat
  | Any_Char
  | Any_Run
  | Any_Deep
  | Any_Dirs

text \<open>\<open>compile_glob\<close>: \<open>[^/]\<close>, \<open>[^/]*\<close>, \<open>.*\<close> and \<open>(?:[^/]+/)*\<close>.\<close>

fun compile_glob :: "pystr \<Rightarrow> token list" where
  "compile_glob [] = []"
| "compile_glob (c # s) =
     (if c = star then
        (case s of
           d # t \<Rightarrow> if d = star then
               (case t of
                  e # u \<Rightarrow> if e = slash then Any_Dirs # compile_glob u else Any_Deep # compile_glob t
                | [] \<Rightarrow> [Any_Deep])
             else Any_Run # compile_glob s
         | [] \<Rightarrow> [Any_Run])
      else if c = question then Any_Char # compile_glob s
      else Lit c # compile_glob s)"

lemma dropWhile_shorter: "dropWhile P s \<noteq> [] \<Longrightarrow> length (dropWhile P s) - Suc 0 < length s"
  using length_dropWhile_le [of P s] by (cases "dropWhile P s") auto

text \<open>
  Matching a suffix of the path against a suffix of the tokens. A directory run takes the
  text up to the next slash, which must not be empty.
\<close>

function rmatch :: "token list \<Rightarrow> pystr \<Rightarrow> bool" where
  "rmatch [] s = (s = [] \<or> s = [newline])"
| "rmatch (Lit c # ts) s = (case s of [] \<Rightarrow> False | x # s' \<Rightarrow> x = c \<and> rmatch ts s')"
| "rmatch (Any_Char # ts) s = (case s of [] \<Rightarrow> False | x # s' \<Rightarrow> x \<noteq> slash \<and> rmatch ts s')"
| "rmatch (Any_Run # ts) s =
     (rmatch ts s \<or> (case s of [] \<Rightarrow> False | x # s' \<Rightarrow> x \<noteq> slash \<and> rmatch (Any_Run # ts) s'))"
| "rmatch (Any_Deep # ts) s =
     (rmatch ts s \<or> (case s of [] \<Rightarrow> False | x # s' \<Rightarrow> x \<noteq> newline \<and> rmatch (Any_Deep # ts) s'))"
| "rmatch (Any_Dirs # ts) s =
     (rmatch ts s \<or>
      (if s = [] \<or> hd s = slash \<or> dropWhile (\<lambda>c. c \<noteq> slash) s = [] then False
       else rmatch (Any_Dirs # ts) (tl (dropWhile (\<lambda>c. c \<noteq> slash) s))))"
  by pat_completeness auto

termination
  by (relation "measure (\<lambda>(ts, s). length ts + length s)") (auto simp: dropWhile_shorter)

definition matches_pattern :: "pystr \<Rightarrow> pystr \<Rightarrow> bool" where
  "matches_pattern path pattern = rmatch (compile_glob pattern) path"

definition matching_pattern :: "pystr \<Rightarrow> pystr list \<Rightarrow> pystr option" where
  "matching_pattern path patterns = find (matches_pattern path) patterns"

text \<open>The pattern up to its first wildcard, the minimum of two \<open>find\<close>s.\<close>

definition literal_prefix :: "pystr \<Rightarrow> pystr" where
  "literal_prefix p = takeWhile (\<lambda>c. c \<noteq> star \<and> c \<noteq> question) p"

definition patterns_overlap :: "pystr \<Rightarrow> pystr \<Rightarrow> bool" where
  "patterns_overlap l r =
     (if \<not> is_glob l \<and> \<not> is_glob r then l = r
      else if \<not> is_glob l then matches_pattern l r
      else if \<not> is_glob r then matches_pattern r l
      else let pl = literal_prefix l; pr = literal_prefix r in starts_with pl pr \<or> starts_with pr pl)"

definition is_within :: "pystr \<Rightarrow> pystr \<Rightarrow> bool" where
  "is_within path dir =
     (let parent = rev (dropWhile (\<lambda>c. c = slash) (rev dir)) in
      path = parent \<or> starts_with path (parent @ [slash]))"

definition overlapping_pattern :: "pystr \<Rightarrow> pystr list \<Rightarrow> pystr option" where
  "overlapping_pattern p ps = find (patterns_overlap p) ps"

section \<open>Lemmas\<close>

lemma compile_literal: "\<not> is_glob p \<Longrightarrow> compile_glob p = map Lit p"
  by (induction p) (auto simp: is_glob_def)

lemma rmatch_literal: "rmatch (map Lit p) s \<longleftrightarrow> s = p \<or> s = p @ [newline]"
  by (induction p arbitrary: s) (auto split: list.splits)

lemma compile_prefix: "\<exists>ts. compile_glob p = map Lit (literal_prefix p) @ ts"
proof (induction p)
  case (Cons c p)
  then show ?case
    by (cases "c = star \<or> c = question") (auto simp: literal_prefix_def)
qed (simp add: literal_prefix_def)

lemma rmatch_prefix: "rmatch (map Lit p @ ts) s \<Longrightarrow> starts_with s p"
  by (induction p arbitrary: s) (auto simp: starts_with_def split: list.splits)

lemma matches_literal: "\<not> is_glob p \<Longrightarrow> matches_pattern s p \<longleftrightarrow> s = p \<or> s = p @ [newline]"
  by (simp add: matches_pattern_def compile_literal rmatch_literal)

lemma matches_prefix: "matches_pattern s p \<Longrightarrow> starts_with s (literal_prefix p)"
  using compile_prefix [of p] rmatch_prefix by (auto simp: matches_pattern_def)

lemma starts_with_linear: "starts_with s p \<Longrightarrow> starts_with s q \<Longrightarrow> starts_with p q \<or> starts_with q p"
  by (metis starts_with_def take_take min_def nat_le_linear)

text \<open>The overlap test fails closed: a path that two patterns own is never overlooked.\<close>

lemma shared_path_overlaps:
  assumes "newline \<notin> set path" "matches_pattern path l" "matches_pattern path r"
  shows "patterns_overlap l r"
proof -
  have lit: "path = p" if "\<not> is_glob p" "matches_pattern path p" for p
    using that assms(1) by (auto simp: matches_literal)
  show ?thesis
  proof (cases "is_glob l \<and> is_glob r")
    case True
    with starts_with_linear [OF matches_prefix [OF assms(2)] matches_prefix [OF assms(3)]]
    show ?thesis by (auto simp: patterns_overlap_def Let_def)
  next
    case False
    with assms(2,3) lit [of l] lit [of r] show ?thesis by (auto simp: patterns_overlap_def)
  qed
qed

lemma patterns_overlap_sym: "patterns_overlap l r = patterns_overlap r l"
  by (auto simp: patterns_overlap_def Let_def)

text \<open>
  A normalised path stays inside the repository: it has no segment that is empty, a dot or
  two dots. The check for a drive comes before the normalisation, which may uncover one.
\<close>

definition plain_segment :: "pystr \<Rightarrow> bool" where
  "plain_segment s \<longleftrightarrow> s \<noteq> [] \<and> s \<noteq> dot \<and> s \<noteq> dotdot \<and> slash \<notin> set s"

lemma split_slash_ne [simp]: "split_slash s \<noteq> []"
  by (induction s) (auto split: list.splits)

lemma split_slash_free: "seg \<in> set (split_slash s) \<Longrightarrow> slash \<notin> set seg"
  by (induction s arbitrary: seg) (auto split: list.splits if_splits)

lemma split_join: "ss \<noteq> [] \<Longrightarrow> list_all (\<lambda>s. slash \<notin> set s) ss \<Longrightarrow> split_slash (join_slash ss) = ss"
  by (induction ss rule: join_slash.induct) (auto simp: split_segment split_slash_append)

definition climbs :: "pystr list \<Rightarrow> bool" where
  "climbs ss \<longleftrightarrow> (\<exists>n ps. ss = replicate n dotdot @ ps \<and> list_all plain_segment ps)"

lemma climbs_snoc: "climbs ss \<Longrightarrow> plain_segment s \<Longrightarrow> climbs (ss @ [s])"
  unfolding climbs_def by (metis append.assoc list_all_append list.pred_inject)

lemma climbs_butlast: "climbs (ss @ [s]) \<Longrightarrow> climbs ss"
proof -
  assume "climbs (ss @ [s])"
  then obtain n ps where c: "ss @ [s] = replicate n dotdot @ ps" "list_all plain_segment ps"
    by (auto simp: climbs_def)
  show "climbs ss"
  proof (cases ps rule: rev_cases)
    case Nil
    with c(1) have "butlast (ss @ [s]) = butlast (replicate n dotdot)" by simp
    then have "ss = replicate (n - 1) dotdot" by (simp add: butlast_conv_take)
    then have "ss = replicate (n - 1) dotdot @ []" by simp
    moreover have "list_all plain_segment []" by simp
    ultimately show ?thesis unfolding climbs_def by blast
  next
    case (snoc qs q)
    with c show ?thesis unfolding climbs_def by auto
  qed
qed

lemma climbs_dotdot:
  assumes "climbs (rev stack)" "stack = [] \<or> hd stack = dotdot"
  shows "climbs (rev (dotdot # stack))"
proof -
  from assms(1) obtain n ps where c: "rev stack = replicate n dotdot @ ps" "list_all plain_segment ps"
    by (auto simp: climbs_def)
  have "ps = []"
  proof (cases ps rule: rev_cases)
    case (snoc qs q)
    with c(1) have "stack = q # rev qs @ replicate n dotdot"
      by (metis append.assoc rev_append rev_replicate rev_rev_ident rev_singleton_conv append_Cons append_Nil)
    with assms(2) c(2) snoc show ?thesis by (simp add: plain_segment_def)
  qed
  with c(1) have "rev (dotdot # stack) = replicate (Suc n) dotdot @ []"
    by (simp add: replicate_append_same)
  moreover have "list_all plain_segment []" by simp
  ultimately show ?thesis unfolding climbs_def by blast
qed

lemma norm_segments_climbs:
  "climbs (rev stack) \<Longrightarrow> list_all (\<lambda>s. slash \<notin> set s) ss \<Longrightarrow> climbs (norm_segments stack ss)"
proof (induction ss arbitrary: stack)
  case (Cons s ss)
  show ?case
  proof (cases "s = [] \<or> s = dot")
    case False
    show ?thesis
    proof (cases "s = dotdot")
      case True
      show ?thesis
      proof (cases "stack = [] \<or> hd stack = dotdot")
        case True
        with climbs_dotdot [OF Cons.prems(1) this] Cons \<open>s = dotdot\<close> False show ?thesis by simp
      next
        case up: False
        then have "climbs (rev (tl stack))"
          using Cons.prems(1) climbs_butlast [of "rev (tl stack)" "hd stack"] by (cases stack) auto
        with Cons up False \<open>s = dotdot\<close> show ?thesis by simp
      qed
    next
      case nd: False
      then have "climbs (rev (s # stack))"
        using climbs_snoc [OF Cons.prems(1), of s] Cons.prems(2) False by (simp add: plain_segment_def)
      with Cons nd False show ?thesis by simp
    qed
  qed (use Cons in auto)
qed simp

lemma normalised_path_stays_inside:
  assumes "normalize_repo_path raw = Inr p"
  shows "list_all plain_segment (split_slash p)"
proof -
  from assms obtain c where p: "p = normpath c" "p \<noteq> dot" "p \<noteq> dotdot" "\<not> starts_with p (codes ''../'')"
    by (auto simp: normalize_repo_path_def rbind_Inr_iff Let_def split: if_splits)
  let ?ss = "norm_segments [] (split_slash c)"
  have "climbs (rev [])" by (auto simp: climbs_def)
  moreover have "list_all (\<lambda>s. slash \<notin> set s) (split_slash c)" by (auto simp: list_all_iff dest: split_slash_free)
  ultimately have "climbs ?ss" by (rule norm_segments_climbs)
  then obtain n ps where ss: "?ss = replicate n dotdot @ ps" and ps: "list_all plain_segment ps"
    by (auto simp: climbs_def)
  have j: "p = join_slash ?ss" "join_slash ?ss \<noteq> []" using p(1,2) by (auto simp: normpath_def Let_def split: if_splits)
  have "n = 0"
  proof (rule ccontr)
    assume "n \<noteq> 0"
    then obtain k where k: "?ss = dotdot # replicate k dotdot @ ps" using ss by (cases n) auto
    show False
    proof (cases "replicate k dotdot @ ps")
      case Nil
      with k j(1) p(3) show False by simp
    next
      case (Cons t ts)
      with k have "?ss = dotdot # t # ts" by simp
      then have "p = dotdot @ slash # join_slash (t # ts)" using j(1) by simp
      with p(4) show False by (simp add: starts_with_def dotdot_def slash_def codes_def)
    qed
  qed
  with ss ps have "list_all plain_segment ?ss" by simp
  moreover from this j(2) have "split_slash p = ?ss"
    unfolding j(1) by (intro split_join) (auto simp: list_all_iff plain_segment_def)
  ultimately show ?thesis by simp
qed

lemma drive_uncovered: "normalize_repo_path (Some (codes ''./C:/x'')) = Inr (codes ''C:/x'')"
  by (simp add: normalize_repo_path_def reject_common_def py_strip_def py_space_def codes_def is_letter_def
      slash_def normpath_def dot_def dotdot_def starts_with_def)

end
