(* ===== verification/Agent_Tasks.thy ===== *)
theory Agent_Tasks
  imports Agent_Paths
begin

text \<open>
  Tasks of the agent tooling: the status machine (\<open>tools/agent/lifecycle.py\<close>), the contract
  with its ownership surface (\<open>tools/agent/contracts.py\<close>), the configuration
  (\<open>tools/agent/config.py\<close>) and the classification of conflicts
  (\<open>tools/agent/conflicts.py\<close>).
\<close>

section \<open>Errors\<close>

abbreviation TaskInvalidError :: exn where
  "TaskInvalidError \<equiv> Foreign ''agent.task_invalid''"

abbreviation HandoffInvalidError :: exn where
  "HandoffInvalidError \<equiv> Foreign ''agent.handoff_invalid''"

abbreviation DependencyInvalidError :: exn where
  "DependencyInvalidError \<equiv> Foreign ''agent.dependency_invalid''"

abbreviation DagCycleError :: exn where
  "DagCycleError \<equiv> Foreign ''agent.dag_cycle''"

section \<open>Status\<close>

datatype task_status =
    PLANNED | READY | IN_PROGRESS | HANDOFF_READY | BLOCKED | INTEGRATING | DONE | FAILED | CANCELLED

definition ALLOWED_TRANSITIONS :: "task_status \<Rightarrow> task_status set" where
  "ALLOWED_TRANSITIONS s =
     (case s of
        PLANNED \<Rightarrow> {READY, BLOCKED, CANCELLED}
      | READY \<Rightarrow> {IN_PROGRESS, BLOCKED, CANCELLED}
      | IN_PROGRESS \<Rightarrow> {HANDOFF_READY, BLOCKED, FAILED, CANCELLED}
      | HANDOFF_READY \<Rightarrow> {INTEGRATING, BLOCKED, FAILED}
      | BLOCKED \<Rightarrow> {READY, FAILED, CANCELLED}
      | INTEGRATING \<Rightarrow> {DONE, BLOCKED, FAILED}
      | DONE \<Rightarrow> {}
      | FAILED \<Rightarrow> {}
      | CANCELLED \<Rightarrow> {})"

definition TERMINAL_STATUSES :: "task_status set" where
  "TERMINAL_STATUSES = {DONE, FAILED, CANCELLED}"

definition IN_FLIGHT_STATUSES :: "task_status set" where
  "IN_FLIGHT_STATUSES = {PLANNED, READY, IN_PROGRESS, HANDOFF_READY, BLOCKED, INTEGRATING}"

definition EXECUTION_SLOT_STATUSES :: "task_status set" where
  "EXECUTION_SLOT_STATUSES = {IN_PROGRESS}"

definition CONFLICT_LEASE_STATUSES :: "task_status set" where
  "CONFLICT_LEASE_STATUSES = {PLANNED, READY, IN_PROGRESS, HANDOFF_READY, BLOCKED, INTEGRATING}"

definition CONFLICT_REPLAN_STATUSES :: "task_status set" where
  "CONFLICT_REPLAN_STATUSES = {FAILED, CANCELLED}"

definition occupies_sub_agent_slot :: "task_status \<Rightarrow> bool" where
  "occupies_sub_agent_slot s \<longleftrightarrow> s \<in> EXECUTION_SLOT_STATUSES"

definition holds_conflict_lease :: "task_status \<Rightarrow> bool" where
  "holds_conflict_lease s \<longleftrightarrow> s \<in> CONFLICT_LEASE_STATUSES"

definition requires_conflict_replan :: "task_status \<Rightarrow> bool" where
  "requires_conflict_replan s \<longleftrightarrow> s \<in> CONFLICT_REPLAN_STATUSES"

definition can_transition :: "task_status \<Rightarrow> task_status \<Rightarrow> bool" where
  "can_transition s d \<longleftrightarrow> d \<in> ALLOWED_TRANSITIONS s"

definition assert_transition :: "task_status \<Rightarrow> task_status \<Rightarrow> exn + unit" where
  "assert_transition s d = (if \<not> can_transition s d then Inl TaskInvalidError else Inr ())"

section \<open>Contracts and configuration\<close>

datatype risk_class = LOW | MEDIUM | HIGH | SAFETY_CRITICAL

datatype execution_mode = ISOLATED_WORKTREE | NATIVE_SHARED

record contract_ref =
  ref_path :: pystr
  ref_sha :: "pystr option"

record task_contract =
  task_id :: pystr
  title :: pystr
  objective :: pystr
  task_scope :: pystr
  non_goals :: "pystr list"
  base_sha :: pystr
  branch :: "pystr option"
  worktree :: "pystr option"
  owner :: pystr
  allowed_paths :: "pystr list"
  forbidden_paths :: "pystr list"
  dependencies :: "pystr list"
  shared_contracts :: "contract_ref list"
  acceptance_criteria :: "pystr list"
  required_tests :: "pystr list"
  handoff_requirements :: "pystr list"
  risk_class :: risk_class
  status :: task_status
  revision :: int
  integration_paths :: "pystr list"
  execution_mode :: execution_mode
  contract_schema_version :: int

definition ownership_surface :: "task_contract \<Rightarrow> pystr list" where
  "ownership_surface t =
     (if execution_mode t = NATIVE_SHARED then allowed_paths t @ integration_paths t else allowed_paths t)"

record agent_config =
  max_sub_agents :: int
  default_branch :: pystr
  repository :: pystr
  branch_prefix :: pystr
  worktrees_dir :: pystr
  main_agent_ids :: "pystr set"
  protected_paths :: "pystr list"
  public_truth_paths :: "pystr list"
  safety_paths :: "pystr list"
  config_schema_version :: int

definition is_main_agent :: "agent_config \<Rightarrow> pystr \<Rightarrow> bool" where
  "is_main_agent c o' \<longleftrightarrow> o' \<in> main_agent_ids c"

definition protected_match :: "agent_config \<Rightarrow> pystr \<Rightarrow> pystr option" where
  "protected_match c p = matching_pattern p (protected_paths c)"

definition public_truth_match :: "agent_config \<Rightarrow> pystr \<Rightarrow> pystr option" where
  "public_truth_match c p = matching_pattern p (public_truth_paths c)"

definition safety_match :: "agent_config \<Rightarrow> pystr \<Rightarrow> pystr option" where
  "safety_match c p = matching_pattern p (safety_paths c)"

definition protected_overlap :: "agent_config \<Rightarrow> pystr \<Rightarrow> pystr option" where
  "protected_overlap c p = overlapping_pattern p (protected_paths c)"

definition public_truth_overlap :: "agent_config \<Rightarrow> pystr \<Rightarrow> pystr option" where
  "public_truth_overlap c p = overlapping_pattern p (public_truth_paths c)"

definition safety_overlap :: "agent_config \<Rightarrow> pystr \<Rightarrow> pystr option" where
  "safety_overlap c p = overlapping_pattern p (safety_paths c)"

section \<open>Conflicts\<close>

datatype conflict_level = C0 | C1 | C2 | C3 | C4

fun level_int :: "conflict_level \<Rightarrow> nat" where
  "level_int C0 = 0" | "level_int C1 = 1" | "level_int C2 = 2" | "level_int C3 = 3" | "level_int C4 = 4"

lemma level_int_inj [simp]: "level_int a = level_int b \<longleftrightarrow> a = b"
  by (cases a; cases b) simp_all

instantiation conflict_level :: linorder
begin

definition "a \<le> b \<longleftrightarrow> level_int a \<le> level_int b"
definition "a < b \<longleftrightarrow> level_int a < level_int b"

instance
  by standard (auto simp: less_eq_conflict_level_def less_conflict_level_def)

end

definition AUTO_RESOLVABLE_CEILING :: nat where
  "AUTO_RESOLVABLE_CEILING = 1"

definition level_meaning :: "conflict_level \<Rightarrow> pystr" where
  "level_meaning l = codes
     (case l of
        C0 \<Rightarrow> ''no overlapping ownership''
      | C1 \<Rightarrow> ''textual, low-risk overlap''
      | C2 \<Rightarrow> ''semantic / shared-contract overlap''
      | C3 \<Rightarrow> ''public-truth overlap''
      | C4 \<Rightarrow> ''safety / migration / schema overlap'')"

record pair_conflict =
  left_task :: pystr
  right_task :: pystr
  pair_level :: conflict_level
  overlapping_paths :: "pystr list"
  pair_reason :: pystr

definition auto_resolvable :: "pair_conflict \<Rightarrow> bool" where
  "auto_resolvable c \<longleftrightarrow> level_int (pair_level c) \<le> AUTO_RESOLVABLE_CEILING"

definition shared_contract_paths :: "task_contract list \<Rightarrow> pystr list" where
  "shared_contract_paths ts = concat (map (\<lambda>t. map ref_path (shared_contracts t)) ts)"

definition classify_pattern :: "pystr \<Rightarrow> agent_config \<Rightarrow> pystr list \<Rightarrow> conflict_level" where
  "classify_pattern p c shared =
     (if list_ex (patterns_overlap p) (safety_paths c) then C4
      else if list_ex (patterns_overlap p) (public_truth_paths c) then C3
      else if list_ex (patterns_overlap p) shared then C2
      else C1)"

text \<open>The two nested loops over the surfaces, with the overlaps and the level so far.\<close>

fun inner_overlaps ::
    "agent_config \<Rightarrow> pystr list \<Rightarrow> pystr \<Rightarrow> pystr list \<Rightarrow> pystr list \<times> conflict_level \<Rightarrow> pystr list \<times> conflict_level" where
  "inner_overlaps c shared p [] acc = acc"
| "inner_overlaps c shared p (q # qs) (found, l) =
     inner_overlaps c shared p qs
       (if \<not> patterns_overlap p q then (found, l)
        else (found @ [p @ codes '' ~ '' @ q],
              max (max l (classify_pattern p c shared)) (classify_pattern q c shared)))"

fun outer_overlaps ::
    "agent_config \<Rightarrow> pystr list \<Rightarrow> pystr list \<Rightarrow> pystr list \<Rightarrow> pystr list \<times> conflict_level \<Rightarrow> pystr list \<times> conflict_level" where
  "outer_overlaps c shared [] qs acc = acc"
| "outer_overlaps c shared (p # ps) qs acc =
     outer_overlaps c shared ps qs (inner_overlaps c shared p qs acc)"

fun join_comma :: "pystr list \<Rightarrow> pystr" where
  "join_comma [] = []"
| "join_comma [s] = s"
| "join_comma (s # t # ts) = s @ codes '', '' @ join_comma (t # ts)"

definition classify_pair :: "task_contract \<Rightarrow> task_contract \<Rightarrow> agent_config \<Rightarrow> pair_conflict" where
  "classify_pair l r c =
     (case outer_overlaps c (shared_contract_paths [l, r]) (ownership_surface l) (ownership_surface r) ([], C0) of
        (found, level) \<Rightarrow>
          if level = C0
          then \<lparr>left_task = task_id l, right_task = task_id r, pair_level = C0, overlapping_paths = [],
                pair_reason = level_meaning C0\<rparr>
          else let paths = sorted_list_of_set (set found) in
            \<lparr>left_task = task_id l, right_task = task_id r, pair_level = level, overlapping_paths = paths,
             pair_reason = level_meaning level @ codes '': '' @ join_comma paths\<rparr>)"

fun classify_all :: "task_contract list \<Rightarrow> agent_config \<Rightarrow> pair_conflict list" where
  "classify_all [] c = []"
| "classify_all (t # ts) c = map (\<lambda>r. classify_pair t r c) ts @ classify_all ts c"

definition blocking_conflicts :: "task_contract list \<Rightarrow> agent_config \<Rightarrow> pair_conflict list" where
  "blocking_conflicts ts c = filter (\<lambda>p. \<not> auto_resolvable p) (classify_all ts c)"

definition requires_serial_review :: "task_contract \<Rightarrow> agent_config \<Rightarrow> bool" where
  "requires_serial_review t c \<longleftrightarrow> risk_class t = SAFETY_CRITICAL \<or>
     list_ex (\<lambda>p. list_ex (patterns_overlap p) (safety_paths c)) (allowed_paths t)"

definition parallel_safe_pairs :: "task_contract list \<Rightarrow> agent_config \<Rightarrow> (pystr \<times> pystr) list" where
  "parallel_safe_pairs ts c =
     map (\<lambda>p. (left_task p, right_task p)) (filter (\<lambda>p. auto_resolvable p \<and>
       \<not> (case (find (\<lambda>t. task_id t = left_task p) ts, find (\<lambda>t. task_id t = right_task p) ts) of
          (Some l, Some r) \<Rightarrow> requires_serial_review l c \<or> requires_serial_review r c | _ \<Rightarrow> True))
       (classify_all ts c))"

section \<open>Lemmas\<close>

lemma classify_pattern_pos [simp]: "C0 < classify_pattern p c shared" "classify_pattern p c shared \<noteq> C0"
  by (simp_all add: classify_pattern_def less_conflict_level_def)

lemma conflict_level_bot [simp]: "C0 \<le> l"
  by (simp add: less_eq_conflict_level_def)

lemma inner_overlaps_le:
  "snd (inner_overlaps c shared p qs acc) \<le> b \<longleftrightarrow>
     snd acc \<le> b \<and> (\<forall>q\<in>set qs. patterns_overlap p q \<longrightarrow>
        classify_pattern p c shared \<le> b \<and> classify_pattern q c shared \<le> b)"
  by (induction c shared p qs acc rule: inner_overlaps.induct) auto

lemma outer_overlaps_le:
  "snd (outer_overlaps c shared ps qs acc) \<le> b \<longleftrightarrow>
     snd acc \<le> b \<and> (\<forall>p\<in>set ps. \<forall>q\<in>set qs. patterns_overlap p q \<longrightarrow>
        classify_pattern p c shared \<le> b \<and> classify_pattern q c shared \<le> b)"
  by (induction c shared ps qs acc rule: outer_overlaps.induct) (auto simp: inner_overlaps_le)

lemma pair_level_eq:
  "pair_level (classify_pair l r c) =
     snd (outer_overlaps c (shared_contract_paths [l, r]) (ownership_surface l) (ownership_surface r) ([], C0))"
  by (auto simp: classify_pair_def Let_def split: prod.splits)

text \<open>The level of a pair: the least that is above the class of every overlapping pattern.\<close>

lemma pair_level_le:
  "pair_level (classify_pair l r c) \<le> b \<longleftrightarrow>
     (\<forall>p\<in>set (ownership_surface l). \<forall>q\<in>set (ownership_surface r). patterns_overlap p q \<longrightarrow>
        classify_pattern p c (shared_contract_paths [l, r]) \<le> b \<and>
        classify_pattern q c (shared_contract_paths [l, r]) \<le> b)"
  by (simp add: pair_level_eq outer_overlaps_le)

lemma classify_pattern_cong:
  "set shared = set shared' \<Longrightarrow> classify_pattern p c shared = classify_pattern p c shared'"
  by (simp add: classify_pattern_def list_ex_iff)

lemma shared_contract_paths_swap:
  "classify_pattern p c (shared_contract_paths [r, l]) = classify_pattern p c (shared_contract_paths [l, r])"
  by (rule classify_pattern_cong) (auto simp: shared_contract_paths_def)

lemma pair_level_sym: "pair_level (classify_pair r l c) = pair_level (classify_pair l r c)"
proof -
  have "pair_level (classify_pair r l c) \<le> b \<longleftrightarrow> pair_level (classify_pair l r c) \<le> b" for b
    unfolding pair_level_le shared_contract_paths_swap [of _ c r l]
    using patterns_overlap_sym by blast
  then show ?thesis by (metis order_antisym order_refl)
qed

lemma classify_pattern_ge:
  assumes "newline \<notin> set path" "matches_pattern path p"
  shows "C1 \<le> classify_pattern p c shared"
    "matching_pattern path shared = Some g \<Longrightarrow> C2 \<le> classify_pattern p c shared"
    "public_truth_match c path = Some g \<Longrightarrow> C3 \<le> classify_pattern p c shared"
    "safety_match c path = Some g \<Longrightarrow> C4 \<le> classify_pattern p c shared"
proof -
  have ov: "list_ex (patterns_overlap p) gs" if "matching_pattern path gs = Some g" for g gs
    using that shared_path_overlaps [OF assms]
    by (auto simp: matching_pattern_def find_Some_iff list_ex_iff intro: bexI [OF _ nth_mem])
  show "C1 \<le> classify_pattern p c shared"
    by (simp add: classify_pattern_def less_eq_conflict_level_def)
  show "matching_pattern path shared = Some g \<Longrightarrow> C2 \<le> classify_pattern p c shared"
    by (drule ov) (simp add: classify_pattern_def less_eq_conflict_level_def)
  show "public_truth_match c path = Some g \<Longrightarrow> C3 \<le> classify_pattern p c shared"
    unfolding public_truth_match_def by (drule ov) (simp add: classify_pattern_def less_eq_conflict_level_def)
  show "safety_match c path = Some g \<Longrightarrow> C4 \<le> classify_pattern p c shared"
    unfolding safety_match_def by (drule ov) (simp add: classify_pattern_def less_eq_conflict_level_def)
qed

lemma pair_level_ge:
  assumes "p \<in> set (ownership_surface l)" "q \<in> set (ownership_surface r)" "patterns_overlap p q"
  shows "classify_pattern p c (shared_contract_paths [l, r]) \<le> pair_level (classify_pair l r c)"
  using assms pair_level_le [of l r c "pair_level (classify_pair l r c)"] by blast

lemma auto_resolvable_iff: "auto_resolvable k \<longleftrightarrow> pair_level k \<le> C1"
  by (simp add: auto_resolvable_def AUTO_RESOLVABLE_CEILING_def less_eq_conflict_level_def)

lemma conflict_level_simps [simp]: "C4 \<le> l \<longleftrightarrow> l = C4" "\<not> C2 \<le> C1" "\<not> C3 \<le> C1" "\<not> C4 \<le> C1"
  by (cases l) (simp_all add: less_eq_conflict_level_def)

section \<open>The property\<close>

text \<open>
  C25:
  A path that two tasks both own is never classified away: if a path (without a line break)
  matches a pattern of each task's ownership surface, their conflict is at least C1, at least
  C2 when one of the tasks lists the path as a shared contract, at least C3 when it is a
  public-truth path, and C4 when it is a safety path. Above C1 the pair is among the blocking
  conflicts of every plan that holds both tasks, whichever comes first.
\<close>

theorem owned_path_is_never_overlooked:
  assumes "newline \<notin> set path"
    and "p \<in> set (ownership_surface l)" "matches_pattern path p"
    and "q \<in> set (ownership_surface r)" "matches_pattern path q"
  shows "C1 \<le> pair_level (classify_pair l r c)
    \<and> (case matching_pattern path (shared_contract_paths [l, r]) of None \<Rightarrow> True
       | Some _ \<Rightarrow> C2 \<le> pair_level (classify_pair l r c))
    \<and> (case public_truth_match c path of None \<Rightarrow> True | Some _ \<Rightarrow> C3 \<le> pair_level (classify_pair l r c))
    \<and> (case safety_match c path of None \<Rightarrow> True | Some _ \<Rightarrow> pair_level (classify_pair l r c) = C4)
    \<and> (if pair_level (classify_pair l r c) \<le> C1
       then classify_pair l r c \<notin> set (blocking_conflicts (ts @ l # us @ r # vs) c)
       else classify_pair l r c \<in> set (blocking_conflicts (ts @ l # us @ r # vs) c)
          \<and> classify_pair r l c \<in> set (blocking_conflicts (ts @ r # us @ l # vs) c))"
proof -
  have "patterns_overlap p q" using shared_path_overlaps [OF assms(1,3,5)] .
  note ge = pair_level_ge [OF assms(2,4) this, of c]
  note lb = order_trans [OF classify_pattern_ge(1) [OF assms(1,3)] ge]
    order_trans [OF classify_pattern_ge(2) [OF assms(1,3)] ge]
    order_trans [OF classify_pattern_ge(3) [OF assms(1,3)] ge]
    order_trans [OF classify_pattern_ge(4) [OF assms(1,3)] ge]
  have mem: "classify_pair a b c \<in> set (classify_all (ts @ a # us @ b # vs) c)" for a b
    by (induction ts) auto
  show ?thesis
    using lb mem [of l r] mem [of r l]
    by (auto simp: blocking_conflicts_def auto_resolvable_iff pair_level_sym [of r l] split: option.splits)
qed

definition sample_task :: "pystr \<Rightarrow> pystr list \<Rightarrow> task_contract" where
  "sample_task i ps =
     \<lparr>task_id = i, title = [], objective = [], task_scope = [], non_goals = [], base_sha = [], branch = None,
      worktree = None, owner = [], allowed_paths = ps, forbidden_paths = [], dependencies = [],
      shared_contracts = [], acceptance_criteria = [], required_tests = [], handoff_requirements = [],
      risk_class = LOW, status = PLANNED, revision = 1, integration_paths = [],
      execution_mode = ISOLATED_WORKTREE, contract_schema_version = 1\<rparr>"

definition sample_config :: agent_config where
  "sample_config =
     \<lparr>max_sub_agents = 2, default_branch = codes ''main'', repository = [], branch_prefix = [],
      worktrees_dir = [], main_agent_ids = {}, protected_paths = [], public_truth_paths = [codes ''SPEC.md''],
      safety_paths = [codes ''src/safety/**''], config_schema_version = 1\<rparr>"

theorem owned_path_is_never_overlooked_witness:
  "pair_level (classify_pair (sample_task [1] [codes ''src/**'']) (sample_task [2] [codes ''src/*/a.py'']) sample_config) = C4"
proof -
  let ?l = "sample_task [1] [codes ''src/**'']" and ?r = "sample_task [2] [codes ''src/*/a.py'']"
  have "matches_pattern (codes ''src/safety/a.py'') (codes ''src/**'')"
    "matches_pattern (codes ''src/safety/a.py'') (codes ''src/*/a.py'')"
    "safety_match sample_config (codes ''src/safety/a.py'') = Some (codes ''src/safety/**'')"
    "newline \<notin> set (codes ''src/safety/a.py'')"
    by code_simp+
  moreover have "codes ''src/**'' \<in> set (ownership_surface ?l)" "codes ''src/*/a.py'' \<in> set (ownership_surface ?r)"
    by (simp_all add: sample_task_def ownership_surface_def)
  ultimately show ?thesis
    using owned_path_is_never_overlooked [of "codes ''src/safety/a.py''" "codes ''src/**''" ?l "codes ''src/*/a.py''" ?r sample_config]
    by simp
qed

end
