(* ===== verification/Agent_Graph.thy ===== *)
theory Agent_Graph
  imports Agent_Tasks "HOL-Library.AList" "HOL-Library.Option_ord" "HOL-Library.Product_Lexorder"
begin

text \<open>
  The dependency graph of a set of tasks (\<open>tools/agent/graph.py\<close>): its validation, the
  readiness of its tasks and the loop that orders them. Dictionaries are association lists in
  insertion order. The orderings are compared with the specification of a canonical order,
  which names at every position the least available task.
\<close>

section \<open>The graph\<close>

abbreviation KeyError :: exn where
  "KeyError \<equiv> Foreign ''KeyError''"

record task_graph =
  tasks :: "task_contract list"

definition SATISFIED_DEPENDENCY_STATUSES :: "task_status set" where
  "SATISFIED_DEPENDENCY_STATUSES = {DONE}"

definition UNSATISFIABLE_DEPENDENCY_STATUSES :: "task_status set" where
  "UNSATISFIABLE_DEPENDENCY_STATUSES = {FAILED, CANCELLED}"

text \<open>\<open>TASK_ID_RE\<close>: at most 64 characters, and \<open>$\<close> admits one final newline.\<close>

definition is_alnum :: "nat \<Rightarrow> bool" where
  "is_alnum c \<longleftrightarrow> is_letter c \<or> (48 \<le> c \<and> c \<le> 57)"

definition id_chars :: "pystr \<Rightarrow> bool" where
  "id_chars s \<longleftrightarrow> s \<noteq> [] \<and> length s \<le> 64 \<and> is_alnum (hd s) \<and> is_alnum (last s) \<and>
     list_all (\<lambda>c. is_alnum c \<or> c \<in> {46, 95, 45}) s"

definition task_id_re :: "pystr \<Rightarrow> bool" where
  "task_id_re s \<longleftrightarrow> id_chars s \<or> (s \<noteq> [] \<and> last s = newline \<and> id_chars (butlast s))"

text \<open>What a dict comprehension builds: a repeated key keeps its place and takes the later value.\<close>

definition dict_of :: "('k \<times> 'v) list \<Rightarrow> ('k \<times> 'v) list" where
  "dict_of ps = fold (\<lambda>(k, v). AList.update k v) ps []"

definition task_index :: "task_graph \<Rightarrow> (pystr \<times> task_contract) list" where
  "task_index g = dict_of (map (\<lambda>t. (task_id t, t)) (tasks g))"

definition subscript :: "('k \<times> 'v) list \<Rightarrow> 'k \<Rightarrow> exn + 'v" where
  "subscript d k = (case map_of d k of Some v \<Rightarrow> Inr v | None \<Rightarrow> Inl KeyError)"

definition require_task :: "task_graph \<Rightarrow> pystr \<Rightarrow> exn + task_contract" where
  "require_task g i =
     (case map_of (task_index g) i of Some t \<Rightarrow> Inr t | None \<Rightarrow> Inl DependencyInvalidError)"

definition dependencies_of :: "task_graph \<Rightarrow> pystr \<Rightarrow> exn + task_contract list" where
  "dependencies_of g i = rbind (require_task g i) (\<lambda>t. rmap (subscript (task_index g)) (dependencies t))"

definition dependents_of :: "task_graph \<Rightarrow> pystr \<Rightarrow> task_contract list" where
  "dependents_of g i = filter (\<lambda>t. i \<in> set (dependencies t)) (tasks g)"

definition unsatisfied_dependencies :: "task_graph \<Rightarrow> pystr \<Rightarrow> exn + pystr list" where
  "unsatisfied_dependencies g i = rbind (dependencies_of g i) (\<lambda>ds.
     Inr (map task_id (filter (\<lambda>d. status d \<notin> SATISFIED_DEPENDENCY_STATUSES) ds)))"

definition unsatisfiable_dependencies :: "task_graph \<Rightarrow> pystr \<Rightarrow> exn + pystr list" where
  "unsatisfiable_dependencies g i = rbind (dependencies_of g i) (\<lambda>ds.
     Inr (map task_id (filter (\<lambda>d. status d \<in> UNSATISFIABLE_DEPENDENCY_STATUSES) ds)))"

definition derived_status :: "task_graph \<Rightarrow> task_contract \<Rightarrow> exn + pystr \<times> task_status" where
  "derived_status g t =
     (if status t \<notin> {PLANNED, READY, BLOCKED} then Inr (task_id t, status t)
      else rbind (unsatisfied_dependencies g (task_id t)) (\<lambda>u.
        Inr (task_id t, if u = [] then READY else BLOCKED)))"

definition readiness :: "task_graph \<Rightarrow> exn + (pystr \<times> task_status) list" where
  "readiness g = rbind (rmap (derived_status g) (tasks g)) (\<lambda>ps. Inr (dict_of ps))"

definition with_status :: "task_graph \<Rightarrow> pystr \<Rightarrow> task_status \<Rightarrow> task_graph" where
  "with_status g i s = \<lparr>tasks = map (\<lambda>t. if task_id t = i then t\<lparr>status := s\<rparr> else t) (tasks g)\<rparr>"

section \<open>Ordering\<close>

text \<open>The two dictionaries the ordering starts from.\<close>

fun wire_dependencies ::
    "pystr \<Rightarrow> pystr list \<Rightarrow> (pystr \<times> pystr list) list \<Rightarrow> exn + (pystr \<times> pystr list) list" where
  "wire_dependencies i [] ch = Inr ch"
| "wire_dependencies i (d # ds) ch =
     rbind (subscript ch d) (\<lambda>cs. wire_dependencies i ds (AList.update d (cs @ [i]) ch))"

fun wire ::
    "task_contract list \<Rightarrow> (pystr \<times> pystr list) list \<Rightarrow> (pystr \<times> int) list \<Rightarrow>
      exn + (pystr \<times> pystr list) list \<times> (pystr \<times> int) list" where
  "wire [] ch ind = Inr (ch, ind)"
| "wire (t # ts) ch ind =
     rbind (wire_dependencies (task_id t) (dependencies t) ch) (\<lambda>ch'.
       wire ts ch' (AList.update (task_id t) (int (length (dependencies t))) ind))"

text \<open>The children of the task just ordered lose one pending dependency each.\<close>

fun release_children ::
    "pystr list \<Rightarrow> (pystr \<times> int) list \<Rightarrow> pystr list \<Rightarrow> exn + (pystr \<times> int) list \<times> pystr list" where
  "release_children [] ind unlocked = Inr (ind, unlocked)"
| "release_children (c # cs) ind unlocked =
     (case map_of ind c of None \<Rightarrow> Inl KeyError
      | Some n \<Rightarrow> release_children cs (AList.update c (n - 1) ind)
          (if n - 1 = 0 then unlocked @ [c] else unlocked))"

definition sort_ids :: "(task_contract \<Rightarrow> 'k::linorder) \<Rightarrow> task_graph \<Rightarrow> pystr list \<Rightarrow> pystr list" where
  "sort_ids key g ids = sort_key (\<lambda>i. map_option key (map_of (task_index g) i)) ids"

definition pending :: "(pystr \<times> int) list \<Rightarrow> nat" where
  "pending ind = sum_list (map (nat \<circ> snd) ind)"

lemma pending_update:
  "map_of ind c = Some n \<Longrightarrow> pending (AList.update c m ind) + nat n = pending ind + nat m"
  by (induction ind) (auto simp: pending_def split: if_splits)

lemma release_children_pending:
  "release_children cs ind unlocked = Inr (ind', unlocked') \<Longrightarrow>
     pending ind' + length unlocked' \<le> pending ind + length unlocked"
proof (induction cs ind unlocked rule: release_children.induct)
  case (2 c cs ind unlocked)
  then obtain n where n: "map_of ind c = Some n" by (auto split: option.splits)
  with 2 pending_update [OF n, of "n - 1"] show ?case by (auto split: if_splits)
qed simp

lemma length_sort_ids [simp]: "length (sort_ids key g ids) = length ids"
  by (simp add: sort_ids_def)

function kahn ::
    "(task_contract \<Rightarrow> 'k::linorder) \<Rightarrow> task_graph \<Rightarrow> (pystr \<times> pystr list) list \<Rightarrow>
      pystr list \<Rightarrow> (pystr \<times> int) list \<Rightarrow> pystr list \<Rightarrow> exn + pystr list" where
  "kahn key g ch [] ind order = Inr order"
| "kahn key g ch (current # ready) ind order =
     (case map_of ch current of None \<Rightarrow> Inl KeyError
      | Some cs \<Rightarrow>
        (case release_children cs ind [] of Inl e \<Rightarrow> Inl e
         | Inr (ind', unlocked) \<Rightarrow>
           kahn key g ch (if unlocked = [] then ready else sort_ids key g (ready @ unlocked)) ind'
             (order @ [current])))"
  by pat_completeness auto

termination
  by (relation "measure (\<lambda>(key, g, ch, ready, ind, order). pending ind + length ready)")
    (auto dest: release_children_pending)

definition ordered_ids :: "(task_contract \<Rightarrow> 'k::linorder) \<Rightarrow> task_graph \<Rightarrow> exn + pystr list" where
  "ordered_ids key g =
     rbind (wire (tasks g) (dict_of (map (\<lambda>t. (task_id t, [])) (tasks g))) []) (\<lambda>(ch, ind).
     rbind (kahn key g ch (sort_ids key g (map fst (filter (\<lambda>(i, n). n = 0) ind))) ind []) (\<lambda>order.
     if length order \<noteq> length (tasks g) then Inl DagCycleError else Inr order))"

definition topological_order :: "task_graph \<Rightarrow> exn + pystr list" where
  "topological_order g = ordered_ids task_id g"

definition integration_key :: "agent_config \<Rightarrow> task_contract \<Rightarrow> nat \<times> pystr" where
  "integration_key c t =
     (if list_ex (\<lambda>p. list_ex (patterns_overlap p) (public_truth_paths c)) (allowed_paths t) then 0 else 1,
      task_id t)"

definition integration_order :: "task_graph \<Rightarrow> agent_config \<Rightarrow> exn + pystr list" where
  "integration_order g c = ordered_ids (integration_key c) g"

definition ids_with :: "task_status \<Rightarrow> task_graph \<Rightarrow> exn + pystr list" where
  "ids_with s g = rbind (readiness g) (\<lambda>derived. rbind (topological_order g) (\<lambda>order.
     Inr (filter (\<lambda>i. map_of derived i = Some s) order)))"

definition ready_ids :: "task_graph \<Rightarrow> exn + pystr list" where
  "ready_ids g = ids_with READY g"

definition blocked_ids :: "task_graph \<Rightarrow> exn + pystr list" where
  "blocked_ids g = ids_with BLOCKED g"

definition blocked_reason :: "task_graph \<Rightarrow> pystr \<Rightarrow> exn + (pystr \<times> pystr list \<times> pystr list) option" where
  "blocked_reason g i = rbind (unsatisfied_dependencies g i) (\<lambda>u.
     if u = [] then Inr None
     else rbind (unsatisfiable_dependencies g i) (\<lambda>v. Inr (Some (i, u, v))))"

section \<open>Validation\<close>

fun check_ids :: "pystr list \<Rightarrow> task_contract list \<Rightarrow> exn + unit" where
  "check_ids seen [] = Inr ()"
| "check_ids seen (t # ts) =
     (if \<not> task_id_re (task_id t) then Inl TaskInvalidError
      else if task_id t \<in> set seen then Inl TaskInvalidError
      else check_ids (task_id t # seen) ts)"

fun check_dependencies :: "pystr list \<Rightarrow> task_contract list \<Rightarrow> exn + unit" where
  "check_dependencies seen [] = Inr ()"
| "check_dependencies seen (t # ts) =
     rbind (rmap (\<lambda>d. if d = task_id t then Inl DependencyInvalidError
                  else if d \<notin> set seen then Inl DependencyInvalidError else Inr ()) (dependencies t))
       (\<lambda>_. check_dependencies seen ts)"

definition build_graph :: "task_contract list \<Rightarrow> exn + task_graph" where
  "build_graph ts =
     rbind (check_ids [] ts) (\<lambda>_.
     rbind (check_dependencies (map task_id ts) ts) (\<lambda>_.
     rbind (topological_order \<lparr>tasks = ts\<rparr>) (\<lambda>_. Inr \<lparr>tasks = ts\<rparr>)))"

section \<open>Well-formed graphs\<close>

definition ids_of :: "task_contract list \<Rightarrow> pystr list" where
  "ids_of ts = map task_id ts"

definition ids_ok :: "task_contract list \<Rightarrow> bool" where
  "ids_ok ts \<longleftrightarrow> list_all task_id_re (ids_of ts) \<and> distinct (ids_of ts)"

definition deps_ok :: "task_contract list \<Rightarrow> bool" where
  "deps_ok ts \<longleftrightarrow> list_all (\<lambda>t. task_id t \<notin> set (dependencies t) \<and> set (dependencies t) \<subseteq> set (ids_of ts)) ts"

definition dependency_rel :: "task_contract list \<Rightarrow> (pystr \<times> pystr) set" where
  "dependency_rel ts = {(d, task_id t) |d t. t \<in> set ts \<and> d \<in> set (dependencies t)}"

text \<open>
  The order a graph ought to have: every task once, no task before one of its dependencies,
  and at every place the task with the least key among those whose dependencies are all placed.
\<close>

definition available :: "task_contract list \<Rightarrow> pystr list \<Rightarrow> task_contract \<Rightarrow> bool" where
  "available ts placed t \<longleftrightarrow> task_id t \<notin> set placed \<and> set (dependencies t) \<subseteq> set placed"

definition least_available ::
    "(task_contract \<Rightarrow> 'k::linorder) \<Rightarrow> task_contract list \<Rightarrow> pystr list \<Rightarrow> pystr \<Rightarrow> bool" where
  "least_available key ts placed i \<longleftrightarrow>
     list_ex (\<lambda>t. task_id t = i \<and> available ts placed t \<and>
       list_all (\<lambda>u. key t \<le> key u) (filter (available ts placed) ts)) ts"

definition canonical_order :: "(task_contract \<Rightarrow> 'k::linorder) \<Rightarrow> task_contract list \<Rightarrow> pystr list \<Rightarrow> bool" where
  "canonical_order key ts order \<longleftrightarrow> mset order = mset (ids_of ts) \<and>
     list_all (\<lambda>k. least_available key ts (take k order) (order ! k)) [0..<length order]"

lemma dict_of_distinct: "distinct (map fst ps) \<Longrightarrow> dict_of ps = ps"
proof (induction ps rule: rev_induct)
  case (snoc p ps)
  have *: "k \<notin> fst ` set qs \<Longrightarrow> AList.update k v qs = qs @ [(k, v)]" for k v and qs :: "('a \<times> 'b) list"
    by (induction qs) auto
  from snoc show ?case by (auto simp: dict_of_def case_prod_beta *)
qed (simp add: dict_of_def)

lemma index_of:
  assumes "distinct (ids_of ts)"
  shows "task_index \<lparr>tasks = ts\<rparr> = map (\<lambda>t. (task_id t, t)) ts"
    "t \<in> set ts \<Longrightarrow> map_of (task_index \<lparr>tasks = ts\<rparr>) (task_id t) = Some t"
proof -
  show i: "task_index \<lparr>tasks = ts\<rparr> = map (\<lambda>t. (task_id t, t)) ts"
    using assms by (simp add: task_index_def dict_of_distinct ids_of_def comp_def)
  show "t \<in> set ts \<Longrightarrow> map_of (task_index \<lparr>tasks = ts\<rparr>) (task_id t) = Some t"
    unfolding i using assms by (intro map_of_is_SomeI) (auto simp: ids_of_def comp_def)
qed

section \<open>The dictionaries\<close>

text \<open>One entry of a task's list of children for every time the child names it.\<close>

definition children_of :: "task_contract list \<Rightarrow> pystr \<Rightarrow> pystr list" where
  "children_of ts i = concat (map (\<lambda>t. replicate (count_list (dependencies t) i) (task_id t)) ts)"

lemma wire_dependencies_spec:
  assumes "set ds \<subseteq> A" "\<forall>i\<in>A. map_of ch i = Some (f i)"
  shows "\<exists>ch'. wire_dependencies c ds ch = Inr ch' \<and>
    (\<forall>i\<in>A. map_of ch' i = Some (f i @ replicate (count_list ds i) c))"
  using assms
proof (induction ds arbitrary: ch f)
  case (Cons d ds)
  have "subscript ch d = Inr (f d)" using Cons.prems by (simp add: subscript_def)
  moreover have "\<forall>i\<in>A. map_of (AList.update d (f d @ [c]) ch) i = Some (if i = d then f i @ [c] else f i)"
    using Cons.prems by (simp add: update_conv')
  moreover from Cons.IH [OF _ this] Cons.prems(1) obtain ch' where
    "wire_dependencies c ds (AList.update d (f d @ [c]) ch) = Inr ch'"
    "\<forall>i\<in>A. map_of ch' i = Some ((if i = d then f i @ [c] else f i) @ replicate (count_list ds i) c)"
    by auto
  ultimately show ?case by auto
qed simp

lemma wire_spec:
  assumes "\<forall>t\<in>set ts. set (dependencies t) \<subseteq> A" "\<forall>i\<in>A. map_of ch i = Some (f i)"
    "distinct (map fst ind @ ids_of ts)"
  shows "\<exists>ch'. wire ts ch ind =
      Inr (ch', ind @ map (\<lambda>t. (task_id t, int (length (dependencies t)))) ts) \<and>
    (\<forall>i\<in>A. map_of ch' i = Some (f i @ children_of ts i))"
  using assms
proof (induction ts arbitrary: ch ind f)
  case (Cons t ts)
  obtain ch1 where ch1: "wire_dependencies (task_id t) (dependencies t) ch = Inr ch1"
    "\<forall>i\<in>A. map_of ch1 i = Some (f i @ replicate (count_list (dependencies t) i) (task_id t))"
    using wire_dependencies_spec [of "dependencies t" A ch f "task_id t"] Cons.prems by auto
  have "AList.update k v ind = ind @ [(k, v)]" if "k \<notin> fst ` set ind" for k and v :: int
    using that by (induction ind) auto
  with Cons.prems(3) have up: "AList.update (task_id t) v ind = ind @ [(task_id t, v)]" for v
    by (auto simp: ids_of_def)
  have "distinct (map fst (ind @ [(task_id t, int (length (dependencies t)))]) @ ids_of ts)"
    using Cons.prems(3) by (auto simp: ids_of_def)
  from Cons.IH [OF _ ch1(2) this] Cons.prems(1) show ?case
    by (auto simp: ch1(1) up children_of_def)
qed (simp add: children_of_def)

lemma set_children_of: "set (children_of ts i) \<subseteq> set (ids_of ts)"
  by (auto simp: children_of_def ids_of_def split: if_splits)

lemma count_list_replicate: "count_list (replicate n a) b = (if a = b then n else 0)"
  by (induction n) auto

lemma count_children_of:
  "distinct (ids_of ts) \<Longrightarrow> t \<in> set ts \<Longrightarrow> count_list (children_of ts i) (task_id t) = count_list (dependencies t) i"
proof (induction ts)
  case (Cons u ts)
  have "count_list (children_of ts i) j = 0" if "j \<notin> set (ids_of ts)" for j
    using that set_children_of [of ts i] by (auto simp: count_list_0_iff)
  with Cons show ?case
    by (auto simp: children_of_def ids_of_def count_list_append count_list_replicate)
qed simp

lemma release_children_spec:
  assumes "set cs \<subseteq> A" "\<forall>i\<in>A. map_of ind i = Some (int (n i))" "\<forall>i. count_list cs i \<le> n i"
    "distinct un" "\<forall>i\<in>set un. n i = 0"
  shows "\<exists>ind' un'. release_children cs ind un = Inr (ind', un') \<and>
    (\<forall>i\<in>A. map_of ind' i = Some (int (n i - count_list cs i))) \<and>
    distinct un' \<and> set un' = set un \<union> {i \<in> set cs. n i = count_list cs i}"
  using assms
proof (induction cs arbitrary: ind un n)
  case (Cons c cs)
  from Cons.prems(3) have pos: "n c \<ge> 1 + count_list cs c" by (metis count_list.simps(2) add.commute)
  let ?n = "n(c := n c - 1)" and ?un = "if int (n c) - 1 = 0 then un @ [c] else un"
  have fresh: "c \<notin> set un" using pos Cons.prems(5) by auto
  have "\<exists>ind' un'. release_children cs (AList.update c (int (n c) - 1) ind) ?un = Inr (ind', un') \<and>
      (\<forall>i\<in>A. map_of ind' i = Some (int (?n i - count_list cs i))) \<and>
      distinct un' \<and> set un' = set ?un \<union> {i \<in> set cs. ?n i = count_list cs i}"
  proof (rule Cons.IH)
    show "\<forall>i\<in>A. map_of (AList.update c (int (n c) - 1) ind) i = Some (int (?n i))"
      using Cons.prems(2) pos by (auto simp: update_conv' of_nat_diff)
    show "\<forall>i. count_list cs i \<le> ?n i"
      using Cons.prems(3) pos by (auto simp: fun_upd_def split: if_splits)
    show "distinct ?un" using Cons.prems(4) fresh by auto
    show "\<forall>i\<in>set ?un. ?n i = 0" using Cons.prems(5) by auto
  qed (use Cons.prems in auto)
  moreover have "map_of ind c = Some (int (n c))" using Cons.prems(1,2) by auto
  moreover have "set ?un \<union> {i \<in> set cs. ?n i = count_list cs i} = set un \<union> {i \<in> set (c # cs). n i = count_list (c # cs) i}"
    using pos by (auto simp: count_list_0_iff)
  moreover have "?n i - count_list cs i = n i - count_list (c # cs) i" for i by auto
  ultimately show ?case by auto
qed auto

section \<open>The loop\<close>

definition remaining :: "pystr list \<Rightarrow> task_contract \<Rightarrow> nat" where
  "remaining order t = length (filter (\<lambda>d. d \<notin> set order) (dependencies t))"

definition rank :: "(task_contract \<Rightarrow> 'k::linorder) \<Rightarrow> task_contract list \<Rightarrow> pystr \<Rightarrow> 'k option" where
  "rank key ts i = map_option key (map_of (task_index \<lparr>tasks = ts\<rparr>) i)"

definition kahn_inv ::
    "(task_contract \<Rightarrow> 'k::linorder) \<Rightarrow> task_contract list \<Rightarrow> pystr list \<Rightarrow> (pystr \<times> int) list \<Rightarrow> pystr list \<Rightarrow> bool" where
  "kahn_inv key ts ready ind order \<longleftrightarrow>
     distinct (order @ ready) \<and> set (order @ ready) \<subseteq> set (ids_of ts) \<and>
     (\<forall>t\<in>set ts. map_of ind (task_id t) = Some (int (remaining order t))) \<and>
     (\<forall>t\<in>set ts. task_id t \<in> set (order @ ready) \<longleftrightarrow> remaining order t = 0) \<and>
     list_all (\<lambda>k. least_available key ts (take k order) (order ! k)) [0..<length order] \<and>
     sorted (map (rank key ts) ready)"

lemma remaining_0: "remaining order t = 0 \<longleftrightarrow> set (dependencies t) \<subseteq> set order"
  by (auto simp: remaining_def filter_empty_conv)

lemma remaining_snoc:
  assumes "c \<notin> set order"
  shows "remaining order t = remaining (order @ [c]) t + count_list (dependencies t) c"
proof -
  have "length (filter (\<lambda>d. d \<notin> set order) ds) =
      length (filter (\<lambda>d. d \<noteq> c \<and> d \<notin> set order) ds) + count_list ds c" for ds
    using assms by (induction ds) auto
  then show ?thesis by (simp add: remaining_def)
qed

lemma ids_ofE:
  assumes "i \<in> set (ids_of ts)"
  obtains t where "t \<in> set ts" "task_id t = i"
  using assms by (auto simp: ids_of_def)

lemma kahn_inv_available:
  assumes "kahn_inv key ts ready ind order" "t \<in> set ts"
  shows "available ts order t \<longleftrightarrow> task_id t \<in> set ready"
  using assms by (auto simp: kahn_inv_def available_def remaining_0)

lemma least_available_snoc:
  assumes d: "distinct (ids_of ts)" and inv: "kahn_inv key ts (c # ready) ind order"
  shows "least_available key ts order c"
proof -
  from inv have "c \<in> set (ids_of ts)" by (simp add: kahn_inv_def)
  then obtain t where t: "t \<in> set ts" "task_id t = c" by (rule ids_ofE)
  have "key t \<le> key u" if u: "u \<in> set ts" "available ts order u" for u
  proof -
    from inv have "\<forall>j\<in>set ready. rank key ts c \<le> rank key ts j" by (simp add: kahn_inv_def)
    moreover have "task_id u \<in> set (c # ready)" using kahn_inv_available [OF inv u(1)] u(2) by simp
    ultimately have "rank key ts (task_id t) \<le> rank key ts (task_id u)" using t(2) by auto
    with index_of(2) [OF d] t(1) u(1) show ?thesis by (simp add: rank_def)
  qed
  moreover have "available ts order t" using kahn_inv_available [OF inv t(1)] t(2) by simp
  ultimately show ?thesis using t by (auto simp: least_available_def list_ex_iff list_all_iff)
qed

lemma kahn_step:
  assumes d: "distinct (ids_of ts)" and inv: "kahn_inv key ts (c # ready) ind order"
  shows "\<exists>ind' un. release_children (children_of ts c) ind [] = Inr (ind', un) \<and>
    kahn_inv key ts (if un = [] then ready else sort_ids key \<lparr>tasks = ts\<rparr> (ready @ un)) ind' (order @ [c])"
proof -
  let ?cs = "children_of ts c"
  define n where "n i = (case map_of (task_index \<lparr>tasks = ts\<rparr>) i of Some t \<Rightarrow> remaining order t | None \<Rightarrow> 0)" for i
  from inv have fresh: "c \<notin> set order" "distinct (order @ c # ready)" "set (order @ c # ready) \<subseteq> set (ids_of ts)"
    and ind: "\<forall>t\<in>set ts. map_of ind (task_id t) = Some (int (remaining order t))"
    and mem: "\<forall>t\<in>set ts. task_id t \<in> set (order @ c # ready) \<longleftrightarrow> remaining order t = 0"
    and least: "list_all (\<lambda>k. least_available key ts (take k order) (order ! k)) [0..<length order]"
    and srt: "sorted (map (rank key ts) (c # ready))"
    by (auto simp: kahn_inv_def)
  have n: "n (task_id t) = remaining order t" if "t \<in> set ts" for t
    using index_of(2) [OF d that] by (simp add: n_def)
  have cnt: "count_list ?cs (task_id t) = count_list (dependencies t) c" if "t \<in> set ts" for t
    using count_children_of [OF d that] .
  have "\<exists>ind' un. release_children ?cs ind [] = Inr (ind', un) \<and>
      (\<forall>i\<in>set (ids_of ts). map_of ind' i = Some (int (n i - count_list ?cs i))) \<and>
      distinct un \<and> set un = set [] \<union> {i \<in> set ?cs. n i = count_list ?cs i}"
  proof (rule release_children_spec)
    show "set ?cs \<subseteq> set (ids_of ts)" by (rule set_children_of)
    show "\<forall>i\<in>set (ids_of ts). map_of ind i = Some (int (n i))" using ind n by (auto simp: ids_of_def)
    show "\<forall>i. count_list ?cs i \<le> n i"
    proof
      fix i
      show "count_list ?cs i \<le> n i"
      proof (cases "i \<in> set (ids_of ts)")
        case True
        then obtain t where "t \<in> set ts" "task_id t = i" by (rule ids_ofE)
        with n cnt remaining_snoc [OF fresh(1), of t] show ?thesis by auto
      next
        case False
        with set_children_of [of ts c] have "i \<notin> set ?cs" by auto
        then show ?thesis by (simp add: count_list_0_iff)
      qed
    qed
  qed simp_all
  then obtain ind' un where r: "release_children ?cs ind [] = Inr (ind', un)"
    and ind': "\<forall>i\<in>set (ids_of ts). map_of ind' i = Some (int (n i - count_list ?cs i))"
    and un: "distinct un" "set un = {i \<in> set ?cs. n i = count_list ?cs i}" by auto
  have un_iff: "task_id t \<in> set un \<longleftrightarrow> remaining order t > 0 \<and> remaining (order @ [c]) t = 0" if t: "t \<in> set ts" for t
  proof -
    have "task_id t \<in> set ?cs \<longleftrightarrow> count_list (dependencies t) c > 0"
      using cnt [OF t] by (metis count_list_0_iff gr0I less_irrefl)
    with remaining_snoc [OF fresh(1), of t] n [OF t] cnt [OF t] show ?thesis by (auto simp: un(2))
  qed
  let ?ready' = "if un = [] then ready else sort_ids key \<lparr>tasks = ts\<rparr> (ready @ un)"
  have set': "set ?ready' = set ready \<union> set un" by (simp add: sort_ids_def)
  have un_ids: "set un \<subseteq> set (ids_of ts)" using un(2) set_children_of [of ts c] by auto
  have un_new: "set un \<inter> set (order @ c # ready) = {}"
  proof -
    have False if "i \<in> set un" "i \<in> set (order @ c # ready)" for i
    proof -
      from that un_ids obtain t where "t \<in> set ts" "task_id t = i" by (auto elim: ids_ofE)
      with mem un_iff that show False by auto
    qed
    then show ?thesis by blast
  qed
  have "kahn_inv key ts ?ready' ind' (order @ [c])"
    unfolding kahn_inv_def
  proof (intro conjI ballI)
    show "distinct ((order @ [c]) @ ?ready')"
      using fresh(2) un(1) un_new by (auto simp: sort_ids_def)
    show "set ((order @ [c]) @ ?ready') \<subseteq> set (ids_of ts)"
      unfolding set_append set' using fresh(3) un_ids by auto
    show "map_of ind' (task_id t) = Some (int (remaining (order @ [c]) t))" if t: "t \<in> set ts" for t
      using ind' t n [OF t] cnt [OF t] remaining_snoc [OF fresh(1), of t] by (auto simp: ids_of_def)
    show "task_id t \<in> set ((order @ [c]) @ ?ready') \<longleftrightarrow> remaining (order @ [c]) t = 0" if t: "t \<in> set ts" for t
    proof -
      have "task_id t \<in> set ((order @ [c]) @ ?ready') \<longleftrightarrow> task_id t \<in> set (order @ c # ready) \<or> task_id t \<in> set un"
        unfolding set_append set' by simp
      also have "\<dots> \<longleftrightarrow> remaining order t = 0 \<or> remaining order t > 0 \<and> remaining (order @ [c]) t = 0"
        using mem t un_iff [OF t] by simp
      also have "\<dots> \<longleftrightarrow> remaining (order @ [c]) t = 0"
        using remaining_snoc [OF fresh(1), of t] by linarith
      finally show ?thesis .
    qed
    show "list_all (\<lambda>k. least_available key ts (take k (order @ [c])) ((order @ [c]) ! k)) [0..<length (order @ [c])]"
      using least least_available_snoc [OF d inv] by (auto simp: list_all_iff nth_append)
    show "sorted (map (rank key ts) ?ready')"
      using srt by (auto simp: sort_ids_def rank_def [abs_def])
  qed
  with r show ?thesis by blast
qed

lemma kahn_spec:
  assumes "distinct (ids_of ts)" "g = \<lparr>tasks = ts\<rparr>" "\<forall>i\<in>set (ids_of ts). map_of ch i = Some (children_of ts i)"
    "kahn_inv key ts ready ind order"
  shows "\<exists>order' ind'. kahn key g ch ready ind order = Inr order' \<and> kahn_inv key ts [] ind' order'"
  using assms
proof (induction key g ch ready ind order rule: kahn.induct)
  case (2 key g ch current ready ind order)
  obtain ind' un where s: "release_children (children_of ts current) ind [] = Inr (ind', un)"
    "kahn_inv key ts (if un = [] then ready else sort_ids key \<lparr>tasks = ts\<rparr> (ready @ un)) ind' (order @ [current])"
    using kahn_step [OF "2.prems"(1,4)] by blast
  have "current \<in> set (ids_of ts)" using "2.prems"(4) by (simp add: kahn_inv_def)
  with "2.prems"(3) have c: "map_of ch current = Some (children_of ts current)" by blast
  from s(2) have "kahn_inv key ts (if un = [] then ready else sort_ids key g (ready @ un)) ind' (order @ [current])"
    unfolding "2.prems"(2) .
  from "2.IH" [OF c s(1) refl "2.prems"(1,2,3) this] c s(1) show ?case by simp
qed auto

section \<open>Orders and cycles\<close>

lemma finite_dependency_rel: "finite (dependency_rel ts)"
proof -
  have "dependency_rel ts = (\<Union>t\<in>set ts. (\<lambda>d. (d, task_id t)) ` set (dependencies t))"
    by (auto simp: dependency_rel_def)
  then show ?thesis by simp
qed

text \<open>A loop that ends before every task is placed has found tasks that wait for each other.\<close>

lemma stuck_is_cyclic:
  assumes deps: "\<forall>t\<in>set ts. set (dependencies t) \<subseteq> set (ids_of ts)"
    and mem: "\<forall>t\<in>set ts. task_id t \<in> set order \<longleftrightarrow> set (dependencies t) \<subseteq> set order"
    and left: "\<not> set (ids_of ts) \<subseteq> set order"
  shows "\<not> acyclic (dependency_rel ts)"
proof
  assume "acyclic (dependency_rel ts)"
  then have wf: "wf (dependency_rel ts)" by (rule finite_acyclic_wf [OF finite_dependency_rel])
  from left obtain i where "i \<in> set (ids_of ts) - set order" by blast
  then obtain z where z: "z \<in> set (ids_of ts) - set order"
    and min: "\<And>y. (y, z) \<in> dependency_rel ts \<Longrightarrow> y \<notin> set (ids_of ts) - set order"
    by (rule wfE_min [OF wf]) metis
  from z obtain t where t: "t \<in> set ts" "task_id t = z" by (auto elim: ids_ofE)
  with mem z obtain d where d: "d \<in> set (dependencies t)" "d \<notin> set order" by auto
  with t have "(d, z) \<in> dependency_rel ts" by (auto simp: dependency_rel_def)
  with min d deps t(1) show False by blast
qed

lemma canonical_deps_before:
  assumes "canonical_order key ts order" "distinct (ids_of ts)" "t \<in> set ts" "k < length order" "order ! k = task_id t"
  shows "set (dependencies t) \<subseteq> set (take k order)"
proof -
  from assms(1,4) have "least_available key ts (take k order) (order ! k)"
    by (auto simp: canonical_order_def list_all_iff)
  then obtain u where u: "u \<in> set ts" "task_id u = task_id t" "available ts (take k order) u"
    unfolding assms(5) least_available_def by (auto simp: list_ex_iff)
  have "u = t" using assms(2,3) u(1,2) by (auto simp: ids_of_def distinct_map dest: inj_onD)
  with u(3) show ?thesis by (simp add: available_def)
qed

lemma ordered_is_acyclic:
  assumes order: "canonical_order key ts order" and d: "distinct (ids_of ts)"
  shows "acyclic (dependency_rel ts)"
proof -
  have dist: "distinct order" using order d by (auto simp: canonical_order_def dest: mset_eq_imp_distinct_iff)
  have set_order: "set order = set (ids_of ts)" using order by (auto simp: canonical_order_def dest: mset_eq_setD)
  define place where "place i = (LEAST k. k < length order \<and> order ! k = i)" for i
  have place: "place (order ! k) = k" if "k < length order" for k
    unfolding place_def using that dist by (intro Least_equality) (auto simp: nth_eq_iff_index_eq)
  have "dependency_rel ts \<subseteq> measure place"
  proof (clarsimp simp: dependency_rel_def)
    fix x t assume t: "t \<in> set ts" "x \<in> set (dependencies t)"
    then have "task_id t \<in> set order" by (auto simp: set_order ids_of_def)
    then obtain k where k: "k < length order" "order ! k = task_id t" by (auto simp: in_set_conv_nth)
    from canonical_deps_before [OF order d t(1) k] t(2) have "x \<in> set (take k order)" by blast
    then obtain j where "j < k" "order ! j = x" by (auto simp: in_set_conv_nth)
    with place [of j] place [of k] k show "place x < place (task_id t)" by simp
  qed
  then show ?thesis by (rule wf_acyclic [OF wf_subset [OF wf_measure]])
qed

lemma ordered_ids_spec:
  fixes key :: "task_contract \<Rightarrow> 'k::linorder"
  assumes d: "distinct (ids_of ts)" and deps: "\<forall>t\<in>set ts. set (dependencies t) \<subseteq> set (ids_of ts)"
  shows "if acyclic (dependency_rel ts)
    then \<exists>order. ordered_ids key \<lparr>tasks = ts\<rparr> = Inr order \<and> canonical_order key ts order
    else ordered_ids key \<lparr>tasks = ts\<rparr> = Inl DagCycleError"
proof -
  let ?ch = "map (\<lambda>t. (task_id t, [] :: pystr list)) ts"
  let ?ind = "map (\<lambda>t. (task_id t, int (length (dependencies t)))) ts"
  let ?start = "sort_ids key \<lparr>tasks = ts\<rparr> (map fst (filter (\<lambda>(i, n). n = 0) ?ind))"
  have dc: "dict_of ?ch = ?ch" using d by (intro dict_of_distinct) (simp add: ids_of_def comp_def)
  have "\<forall>i\<in>set (ids_of ts). map_of ?ch i = Some []"
  proof
    fix i assume "i \<in> set (ids_of ts)"
    then obtain t where "t \<in> set ts" "task_id t = i" by (rule ids_ofE)
    with d show "map_of ?ch i = Some []" by (intro map_of_is_SomeI) (auto simp: ids_of_def comp_def)
  qed
  then obtain ch where w: "wire ts ?ch [] = Inr (ch, [] @ ?ind)"
    "\<forall>i\<in>set (ids_of ts). map_of ch i = Some ([] @ children_of ts i)"
    using wire_spec [OF deps, of ?ch "\<lambda>_. []" "[]"] d by auto
  have start: "set ?start = task_id ` {t \<in> set ts. dependencies t = []}"
    by (force simp: sort_ids_def)
  have "kahn_inv key ts ?start ?ind []"
    unfolding kahn_inv_def
  proof (intro conjI ballI)
    have "map fst (filter (\<lambda>(i, n). n = 0) ?ind) = map task_id (filter (\<lambda>t. dependencies t = []) ts)"
      by (induction ts) auto
    with d show "distinct ([] @ ?start)" by (auto simp: sort_ids_def ids_of_def distinct_map_filter)
    show "set ([] @ ?start) \<subseteq> set (ids_of ts)" by (auto simp: start ids_of_def)
    show "map_of ?ind (task_id t) = Some (int (remaining [] t))" if "t \<in> set ts" for t
      using that d by (intro map_of_is_SomeI) (auto simp: ids_of_def comp_def remaining_def)
    show "task_id t \<in> set ([] @ ?start) \<longleftrightarrow> remaining [] t = 0" if t: "t \<in> set ts" for t
    proof -
      have "inj_on task_id (set ts)" using d by (simp add: ids_of_def distinct_map)
      then have "task_id t \<in> task_id ` {t \<in> set ts. dependencies t = []} \<longleftrightarrow> t \<in> {t \<in> set ts. dependencies t = []}"
        by (rule inj_on_image_mem_iff) (use t in auto)
      with t show ?thesis unfolding append_Nil start remaining_0 by simp
    qed
    show "sorted (map (rank key ts) ?start)" by (simp add: sort_ids_def rank_def [abs_def])
  qed simp
  moreover have "\<forall>i\<in>set (ids_of ts). map_of ch i = Some (children_of ts i)" using w(2) by simp
  ultimately obtain order ind' where k: "kahn key \<lparr>tasks = ts\<rparr> ch ?start ?ind [] = Inr order" "kahn_inv key ts [] ind' order"
    using kahn_spec [OF d refl] by blast
  have res: "ordered_ids key \<lparr>tasks = ts\<rparr> = (if length order \<noteq> length ts then Inl DagCycleError else Inr order)"
    using w(1) k(1) by (simp add: ordered_ids_def dc)
  have sub: "distinct order" "set order \<subseteq> set (ids_of ts)"
    and mem: "\<forall>t\<in>set ts. task_id t \<in> set order \<longleftrightarrow> set (dependencies t) \<subseteq> set order"
    and least: "list_all (\<lambda>k. least_available key ts (take k order) (order ! k)) [0..<length order]"
    using k(2) by (auto simp: kahn_inv_def remaining_0)
  have len: "length order = card (set order)" "length ts = card (set (ids_of ts))"
    using distinct_card [OF sub(1)] distinct_card [OF d] by (simp_all add: ids_of_def)
  show ?thesis
  proof (cases "length order = length ts")
    case True
    with len sub have "set order = set (ids_of ts)" by (metis card_subset_eq finite_set)
    with sub(1) d have "mset order = mset (ids_of ts)" by (simp add: set_eq_iff_mset_eq_distinct)
    with least have c: "canonical_order key ts order" by (simp add: canonical_order_def)
    with ordered_is_acyclic [OF c d] res True show ?thesis by simp
  next
    case False
    with len sub(2) have "\<not> set (ids_of ts) \<subseteq> set order" by (metis subset_antisym)
    with stuck_is_cyclic [OF deps mem] res False show ?thesis by simp
  qed
qed

lemma check_ids_eq:
  "check_ids seen ts =
     (if list_all task_id_re (ids_of ts) \<and> distinct (ids_of ts) \<and> set (ids_of ts) \<inter> set seen = {}
      then Inr () else Inl TaskInvalidError)"
  by (induction seen ts rule: check_ids.induct) (auto simp: ids_of_def)

lemma check_dependencies_eq:
  "check_dependencies seen ts =
     (if list_all (\<lambda>t. task_id t \<notin> set (dependencies t) \<and> set (dependencies t) \<subseteq> set seen) ts
      then Inr () else Inl DependencyInvalidError)"
proof (induction seen ts rule: check_dependencies.induct)
  case (2 seen t ts)
  have "rmap (\<lambda>d. if d = i then Inl DependencyInvalidError
          else if d \<notin> set seen then Inl DependencyInvalidError else Inr ()) ds =
      (if i \<notin> set ds \<and> set ds \<subseteq> set seen then Inr (map (\<lambda>_. ()) ds) else Inl DependencyInvalidError)" for i ds
    by (induction ds) auto
  with 2 show ?case by auto
qed simp

lemma build_graph_eq:
  "build_graph ts =
     (if \<not> ids_ok ts then Inl TaskInvalidError
      else if \<not> deps_ok ts then Inl DependencyInvalidError
      else if acyclic (dependency_rel ts) then Inr \<lparr>tasks = ts\<rparr> else Inl DagCycleError)"
proof (cases "ids_ok ts \<and> deps_ok ts")
  case True
  then have d: "distinct (ids_of ts)" and deps: "\<forall>t\<in>set ts. set (dependencies t) \<subseteq> set (ids_of ts)"
    and c: "check_ids [] ts = Inr ()" "check_dependencies (map task_id ts) ts = Inr ()"
    by (auto simp: ids_ok_def deps_ok_def list_all_iff check_ids_eq check_dependencies_eq ids_of_def)
  from ordered_ids_spec [OF d deps, of task_id] c True show ?thesis
    by (auto simp: build_graph_def topological_order_def split: if_splits)
qed (auto simp: build_graph_def check_ids_eq check_dependencies_eq ids_ok_def deps_ok_def simp flip: ids_of_def)

text \<open>
  A canonical order is determined by what the tasks are: their ids, their dependencies and
  their keys, wherever they stand in the list.
\<close>

definition order_view :: "(task_contract \<Rightarrow> 'k::linorder) \<Rightarrow> task_contract list \<Rightarrow> (pystr \<times> pystr set \<times> 'k) set" where
  "order_view key ts = (\<lambda>t. (task_id t, set (dependencies t), key t)) ` set ts"

lemma least_available_view:
  "least_available key ts placed i \<longleftrightarrow>
     (\<exists>D k. (i, D, k) \<in> order_view key ts \<and> i \<notin> set placed \<and> D \<subseteq> set placed \<and>
        (\<forall>(j, E, l) \<in> order_view key ts. j \<notin> set placed \<longrightarrow> E \<subseteq> set placed \<longrightarrow> k \<le> l))"
  unfolding least_available_def list_ex_iff list_all_iff available_def order_view_def
  by (rule iffI) (clarsimp, blast, clarsimp, blast)

lemma least_available_cong:
  "order_view key ts = order_view key us \<Longrightarrow> least_available key ts placed i = least_available key us placed i"
  by (simp only: least_available_view)

text \<open>What an ordering asks of its key: tasks with equal keys have the same id.\<close>

locale ordering_key =
  fixes key :: "task_contract \<Rightarrow> 'k::linorder"
  assumes key_tells: "key t = key u \<Longrightarrow> task_id t = task_id u"
begin

lemma least_available_unique:
  assumes "least_available key ts placed i" "least_available key ts placed j"
  shows "i = j"
proof -
  from assms(1) obtain t where 1: "t \<in> set ts" "task_id t = i" "available ts placed t"
    "\<forall>u\<in>set ts. available ts placed u \<longrightarrow> key t \<le> key u"
    by (auto simp: least_available_def list_ex_iff list_all_iff)
  from assms(2) obtain u where 2: "u \<in> set ts" "task_id u = j" "available ts placed u"
    "\<forall>t\<in>set ts. available ts placed t \<longrightarrow> key u \<le> key t"
    by (auto simp: least_available_def list_ex_iff list_all_iff)
  have "key t = key u" using 1(4) 2(4) 1(1,3) 2(1,3) by (blast intro: order_antisym)
  from key_tells [OF this] 1(2) 2(2) show ?thesis by simp
qed

lemma canonical_order_unique:
  assumes view: "order_view key ts = order_view key us"
    and t: "canonical_order key ts xs" "distinct (ids_of ts)"
    and u: "canonical_order key us ys" "distinct (ids_of us)"
  shows "xs = ys"
proof -
  have ids: "set (ids_of vs) = fst ` order_view key vs" for vs
    by (force simp: ids_of_def order_view_def)
  have "mset (ids_of ts) = mset (ids_of us)"
    using set_eq_iff_mset_eq_distinct [OF t(2) u(2)] ids [of ts] ids [of us] view by simp
  with t(1) u(1) have "mset xs = mset ys" by (simp add: canonical_order_def)
  then have len: "length xs = length ys" by (rule mset_eq_length)
  have "n \<le> length xs \<Longrightarrow> take n xs = take n ys" for n
  proof (induction n)
    case (Suc n)
    then have n: "n < length xs" "n < length ys" using len by auto
    have "least_available key ts (take n xs) (xs ! n)" "least_available key us (take n ys) (ys ! n)"
      using t(1) u(1) n by (simp_all add: canonical_order_def list_all_iff)
    with Suc have "least_available key us (take n ys) (xs ! n)" "least_available key us (take n ys) (ys ! n)"
      by (simp_all add: least_available_cong [OF view])
    then have "xs ! n = ys ! n" by (rule least_available_unique)
    with Suc len show ?case by (simp add: take_Suc_conv_app_nth)
  qed simp
  from this [of "length xs"] len show ?thesis by simp
qed

lemma ordered_ids_view:
  assumes "order_view key ts = order_view key us"
    "ids_ok ts" "deps_ok ts" "ids_ok us" "deps_ok us"
    "ordered_ids key \<lparr>tasks = ts\<rparr> = Inr xs"
  shows "ordered_ids key \<lparr>tasks = us\<rparr> = Inr xs"
proof -
  have rel: "dependency_rel vs = {(d, i) |d i. \<exists>D k. (i, D, k) \<in> order_view key vs \<and> d \<in> D}" for vs
    by (force simp: dependency_rel_def order_view_def)
  have ok: "distinct (ids_of vs)" "\<forall>t\<in>set vs. set (dependencies t) \<subseteq> set (ids_of vs)"
    if "ids_ok vs" "deps_ok vs" for vs using that by (auto simp: ids_ok_def deps_ok_def list_all_iff)
  note t = ok [OF assms(2,3)] and u = ok [OF assms(4,5)]
  have eq: "dependency_rel ts = dependency_rel us" unfolding rel assms(1) ..
  from ordered_ids_spec [OF t, of key] assms(6) have ac: "acyclic (dependency_rel ts)" and c: "canonical_order key ts xs"
    by (auto split: if_splits)
  from ordered_ids_spec [OF u, of key] ac obtain ys where "ordered_ids key \<lparr>tasks = us\<rparr> = Inr ys" "canonical_order key us ys"
    unfolding eq by auto
  with canonical_order_unique [OF assms(1) c t(1) _ u(1)] show ?thesis by blast
qed

end

interpretation topological: ordering_key task_id
  by unfold_locales

interpretation integration: ordering_key "integration_key c" for c
  by unfold_locales (simp add: integration_key_def)

lemma built_graph:
  "(case build_graph ts of
      Inl e \<Rightarrow> e = (if \<not> ids_ok ts then TaskInvalidError
                  else if \<not> deps_ok ts then DependencyInvalidError else DagCycleError)
        \<and> (if ids_ok ts \<and> deps_ok ts then \<not> acyclic (dependency_rel ts) else True)
    | Inr g \<Rightarrow> tasks g = ts \<and> ids_ok ts \<and> deps_ok ts \<and> acyclic (dependency_rel ts)
        \<and> (\<exists>order. topological_order g = Inr order \<and> canonical_order task_id ts order)
        \<and> (\<exists>order. integration_order g c = Inr order \<and> canonical_order (integration_key c) ts order)
        \<and> (if mset us = mset ts then \<exists>h. build_graph us = Inr h
             \<and> topological_order h = topological_order g \<and> integration_order h c = integration_order g c
           else True))"
proof (cases "ids_ok ts \<and> deps_ok ts \<and> acyclic (dependency_rel ts)")
  case True
  then have d: "distinct (ids_of ts)" and deps: "\<forall>t\<in>set ts. set (dependencies t) \<subseteq> set (ids_of ts)"
    by (auto simp: ids_ok_def deps_ok_def list_all_iff)
  obtain xs ys where o: "topological_order \<lparr>tasks = ts\<rparr> = Inr xs" "canonical_order task_id ts xs"
    "integration_order \<lparr>tasks = ts\<rparr> c = Inr ys" "canonical_order (integration_key c) ts ys"
    using ordered_ids_spec [OF d deps, of task_id] ordered_ids_spec [OF d deps, of "integration_key c"] True
    by (auto simp: topological_order_def integration_order_def)
  have perm: "ids_ok us \<and> deps_ok us \<and> dependency_rel us = dependency_rel ts \<and>
      topological_order \<lparr>tasks = us\<rparr> = Inr xs \<and> integration_order \<lparr>tasks = us\<rparr> c = Inr ys"
    if "mset us = mset ts"
  proof -
    have s: "set us = set ts" using that by (rule mset_eq_setD)
    have "distinct (ids_of us)" using d that by (metis ids_of_def mset_map mset_eq_imp_distinct_iff)
    with s True have ok: "ids_ok us" "deps_ok us" by (auto simp: ids_ok_def deps_ok_def list_all_iff ids_of_def)
    have view: "order_view key ts = order_view key us" for key :: "task_contract \<Rightarrow> 'k::linorder"
      by (simp add: order_view_def s)
    have "dependency_rel us = dependency_rel ts" by (simp add: dependency_rel_def s)
    moreover have "topological_order \<lparr>tasks = us\<rparr> = Inr xs" "integration_order \<lparr>tasks = us\<rparr> c = Inr ys"
      using topological.ordered_ids_view [OF view _ _ ok] integration.ordered_ids_view [OF view _ _ ok]
        o(1,3) True by (simp_all add: topological_order_def integration_order_def)
    ultimately show ?thesis using ok by simp
  qed
  with o True show ?thesis by (auto simp: build_graph_eq)
qed (auto simp: build_graph_eq)

text \<open>
  C26:
  Building a graph always returns, and it refuses exactly what it should: an id that is
  malformed or repeated, then a dependency that is unknown or the task itself, then a cycle of
  dependencies. A graph that is built has a topological and an integration order, which are
  the canonical ones: every task once, after all its dependencies, and at each place the task
  with the least key among those that could stand there. The same tasks declared in another
  order give a graph with the same two orders.
\<close>

theorem build_graph_decides:
  "(case build_graph ts of
      Inl e \<Rightarrow> e = (if \<not> ids_ok ts then TaskInvalidError
                  else if \<not> deps_ok ts then DependencyInvalidError else DagCycleError)
        \<and> (if ids_ok ts \<and> deps_ok ts then \<not> acyclic (dependency_rel ts) else True)
    | Inr g \<Rightarrow> tasks g = ts \<and> ids_ok ts \<and> deps_ok ts \<and> acyclic (dependency_rel ts)
        \<and> (\<exists>order. topological_order g = Inr order \<and> canonical_order task_id ts order)
        \<and> (\<exists>order. integration_order g c = Inr order \<and> canonical_order (integration_key c) ts order)
        \<and> (if mset us = mset ts then \<exists>h. build_graph us = Inr h
             \<and> topological_order h = topological_order g \<and> integration_order h c = integration_order g c
           else True))"
  by (rule built_graph)

section \<open>Readiness\<close>

text \<open>Of a task that has not started, only its dependencies tell whether it may.\<close>

definition is_done :: "task_contract list \<Rightarrow> pystr \<Rightarrow> bool" where
  "is_done ts i \<longleftrightarrow> list_ex (\<lambda>t. task_id t = i \<and> status t = DONE) ts"

definition derived :: "task_contract list \<Rightarrow> task_contract \<Rightarrow> task_status" where
  "derived ts t = (if status t \<notin> {PLANNED, READY, BLOCKED} then status t
     else if list_all (is_done ts) (dependencies t) then READY else BLOCKED)"

lemma readiness_eq:
  assumes "ids_ok ts" "deps_ok ts"
  shows "readiness \<lparr>tasks = ts\<rparr> = Inr (map (\<lambda>t. (task_id t, derived ts t)) ts)"
proof -
  have d: "distinct (ids_of ts)" using assms(1) by (simp add: ids_ok_def)
  define lookup where "lookup i = the (map_of (task_index \<lparr>tasks = ts\<rparr>) i)" for i
  have look: "lookup (task_id t) = t" if "t \<in> set ts" for t
    using index_of(2) [OF d that] by (simp add: lookup_def)
  have "derived_status \<lparr>tasks = ts\<rparr> t = Inr (task_id t, derived ts t)" if t: "t \<in> set ts" for t
  proof -
    have "subscript (task_index \<lparr>tasks = ts\<rparr>) i = Inr (lookup i)" if "i \<in> set (dependencies t)" for i
    proof -
      have "i \<in> set (ids_of ts)" using that t assms(2) by (auto simp: deps_ok_def list_all_iff)
      then obtain u where "u \<in> set ts" "task_id u = i" by (rule ids_ofE)
      with index_of(2) [OF d this(1)] look [of u] show ?thesis by (simp add: subscript_def)
    qed
    then have deps: "dependencies_of \<lparr>tasks = ts\<rparr> (task_id t) = Inr (map lookup (dependencies t))"
      using index_of(2) [OF d t] by (simp add: dependencies_of_def require_task_def rmap_cong_Inr [where g = lookup])
    have "status (lookup i) = DONE \<longleftrightarrow> is_done ts i" if "i \<in> set (dependencies t)" for i
    proof -
      have "i \<in> set (ids_of ts)" using that t assms(2) by (auto simp: deps_ok_def list_all_iff)
      then obtain u where u: "u \<in> set ts" "task_id u = i" by (rule ids_ofE)
      have "status v = status u" if "v \<in> set ts" "task_id v = i" for v
        using look [OF that(1)] look [OF u(1)] that(2) u(2) by simp
      with u have "is_done ts i \<longleftrightarrow> status u = DONE" unfolding is_done_def list_ex_iff by metis
      with look [OF u(1)] u(2) show ?thesis by simp
    qed
    then have "filter (\<lambda>d. status d \<notin> SATISFIED_DEPENDENCY_STATUSES) (map lookup (dependencies t)) = [] \<longleftrightarrow>
        list_all (is_done ts) (dependencies t)"
      by (simp add: filter_empty_conv list_all_iff SATISFIED_DEPENDENCY_STATUSES_def)
    then show ?thesis
      by (simp add: derived_status_def derived_def unsatisfied_dependencies_def deps del: filter_map)
  qed
  then have "rmap (derived_status \<lparr>tasks = ts\<rparr>) ts = Inr (map (\<lambda>t. (task_id t, derived ts t)) ts)"
    by (rule rmap_cong_Inr)
  with d show ?thesis by (simp add: readiness_def dict_of_distinct ids_of_def comp_def)
qed

end
