(* ===== verification/Agent_Plan.thy ===== *)
theory Agent_Plan
  imports Agent_Graph
begin

text \<open>
  The planning surface of the agent tooling (\<open>tools/agent/orchestration.py\<close>): who may be
  dispatched now, who waits and why, and the runs of a main agent that follows the plan.
\<close>

section \<open>The plan\<close>

record task_plan_entry =
  entry_id :: pystr
  entry_status :: task_status
  deferred_by :: "pystr list"
  serial_review_required :: bool
  capacity_deferred :: bool
  replan_required_by :: "pystr list"

definition runnable :: "task_plan_entry \<Rightarrow> bool" where
  "runnable e \<longleftrightarrow> entry_status e = READY \<and> deferred_by e = [] \<and> \<not> capacity_deferred e \<and> replan_required_by e = []"

definition deferral_kind :: "task_plan_entry \<Rightarrow> pystr" where
  "deferral_kind e =
     (if entry_status e = BLOCKED then codes ''dependency''
      else if replan_required_by e \<noteq> [] then codes ''replan''
      else if deferred_by e \<noteq> [] then codes ''conflict''
      else if capacity_deferred e then codes ''capacity''
      else codes ''none'')"

record orchestration_plan =
  entries :: "task_plan_entry list"
  conflicts :: "pair_conflict list"
  plan_order :: "pystr list"
  plan_max_sub_agents :: int
  active_ids :: "pystr list"
  available_slots :: int
  active_over_capacity :: int

definition ids_where :: "(task_plan_entry \<Rightarrow> bool) \<Rightarrow> orchestration_plan \<Rightarrow> pystr list" where
  "ids_where P p = filter (\<lambda>i. i \<in> set (map entry_id (filter P (entries p)))) (plan_order p)"

definition runnable_ids :: "orchestration_plan \<Rightarrow> pystr list" where
  "runnable_ids p = ids_where runnable p"

definition plan_blocked_ids :: "orchestration_plan \<Rightarrow> pystr list" where
  "plan_blocked_ids p = ids_where (\<lambda>e. entry_status e = BLOCKED) p"

definition deferred_ids :: "orchestration_plan \<Rightarrow> pystr list" where
  "deferred_ids p = ids_where (\<lambda>e. deferred_by e \<noteq> []) p"

definition capacity_deferred_ids :: "orchestration_plan \<Rightarrow> pystr list" where
  "capacity_deferred_ids p = ids_where capacity_deferred p"

definition replan_required_ids :: "orchestration_plan \<Rightarrow> pystr list" where
  "replan_required_ids p = ids_where (\<lambda>e. replan_required_by e \<noteq> []) p"

definition plan_blocking_conflicts :: "orchestration_plan \<Rightarrow> pair_conflict list" where
  "plan_blocking_conflicts p = filter (\<lambda>k. \<not> auto_resolvable k) (conflicts p)"

definition earlier_and_later :: "pair_conflict \<Rightarrow> (pystr \<times> nat) list \<Rightarrow> exn + pystr \<times> pystr" where
  "earlier_and_later k position =
     rbind (subscript position (left_task k)) (\<lambda>l. rbind (subscript position (right_task k)) (\<lambda>r.
       Inr (if l \<le> r then (left_task k, right_task k) else (right_task k, left_task k))))"

definition append_to :: "pystr \<Rightarrow> pystr \<Rightarrow> (pystr \<times> pystr list) list \<Rightarrow> exn + (pystr \<times> pystr list) list" where
  "append_to k x d = rbind (subscript d k) (\<lambda>xs. Inr (AList.update k (xs @ [x]) d))"

text \<open>The loop over the conflicts, with the dictionaries \<open>deferred\<close> and \<open>replan\<close>.\<close>

fun serialise ::
    "(pystr \<times> task_status) list \<Rightarrow> (pystr \<times> nat) list \<Rightarrow> pair_conflict list \<Rightarrow>
      (pystr \<times> pystr list) list \<Rightarrow> (pystr \<times> pystr list) list \<Rightarrow>
      exn + (pystr \<times> pystr list) list \<times> (pystr \<times> pystr list) list" where
  "serialise rd position [] deferred replan = Inr (deferred, replan)"
| "serialise rd position (k # ks) deferred replan =
     (if auto_resolvable k then serialise rd position ks deferred replan
      else rbind (earlier_and_later k position) (\<lambda>(earlier, later).
        rbind (subscript rd earlier) (\<lambda>owner.
          if holds_conflict_lease owner then
            rbind (append_to later earlier deferred) (\<lambda>deferred'. serialise rd position ks deferred' replan)
          else if requires_conflict_replan owner then
            rbind (append_to later earlier replan) (\<lambda>replan'. serialise rd position ks deferred replan')
          else serialise rd position ks deferred replan)))"

definition plan_entry ::
    "agent_config \<Rightarrow> (pystr \<times> task_contract) list \<Rightarrow> (pystr \<times> task_status) list \<Rightarrow> (pystr \<times> pystr list) list \<Rightarrow>
      (pystr \<times> pystr list) list \<Rightarrow> pystr list \<Rightarrow> pystr \<Rightarrow> exn + task_plan_entry" where
  "plan_entry c by_id rd deferred replan over_capacity i =
     rbind (subscript rd i) (\<lambda>s. rbind (subscript deferred i) (\<lambda>d. rbind (subscript by_id i) (\<lambda>t.
     rbind (subscript replan i) (\<lambda>r.
       Inr \<lparr>entry_id = i, entry_status = s, deferred_by = sorted_list_of_set (set d),
            serial_review_required = requires_serial_review t c, capacity_deferred = i \<in> set over_capacity,
            replan_required_by = sorted_list_of_set (set r)\<rparr>))))"

text \<open>Every id of the order is a key of the dictionaries the filters read.\<close>

definition active_of :: "(pystr \<times> task_status) list \<Rightarrow> pystr list \<Rightarrow> pystr list" where
  "active_of rd order =
     filter (\<lambda>i. case map_of rd i of Some s \<Rightarrow> occupies_sub_agent_slot s | None \<Rightarrow> False) order"

definition candidates_of ::
    "(pystr \<times> task_status) list \<Rightarrow> (pystr \<times> pystr list) list \<Rightarrow> (pystr \<times> pystr list) list \<Rightarrow> pystr list \<Rightarrow> pystr list" where
  "candidates_of rd deferred replan order =
     filter (\<lambda>i. map_of rd i = Some READY \<and> map_of deferred i = Some [] \<and> map_of replan i = Some []) order"

definition plan :: "task_contract list \<Rightarrow> agent_config \<Rightarrow> exn + orchestration_plan" where
  "plan ts c =
     rbind (build_graph ts) (\<lambda>g. rbind (readiness g) (\<lambda>rd. rbind (integration_order g c) (\<lambda>order.
     let position = dict_of (zip order [0..<length order]);
         ks = classify_all ts c;
         none = dict_of (map (\<lambda>t. (task_id t, [])) ts) in
     rbind (serialise rd position ks none none) (\<lambda>(deferred, replan).
     let active = active_of rd order;
         slots = max 0 (max_sub_agents c - int (length active));
         over = max 0 (int (length active) - max_sub_agents c);
         over_capacity = drop (nat slots) (candidates_of rd deferred replan order);
         by_id = dict_of (map (\<lambda>t. (task_id t, t)) ts) in
     rbind (rmap (plan_entry c by_id rd deferred replan over_capacity) order) (\<lambda>es.
       Inr \<lparr>entries = es, conflicts = ks, plan_order = order, plan_max_sub_agents = max_sub_agents c,
            active_ids = active, available_slots = slots, active_over_capacity = over\<rparr>)))))"

section \<open>Runs\<close>

text \<open>
  A main agent that follows the plan: it starts tasks the plan calls runnable, in one wave,
  and otherwise moves single tasks along the transitions of the lifecycle.
\<close>

definition dispatch :: "pystr list \<Rightarrow> task_graph \<Rightarrow> task_graph" where
  "dispatch ids g = fold (\<lambda>i g. with_status g i IN_PROGRESS) ids g"

inductive plan_step :: "agent_config \<Rightarrow> task_graph \<Rightarrow> task_graph \<Rightarrow> bool" for c where
  start: "plan (tasks g) c = Inr p \<Longrightarrow> set ids \<subseteq> set (runnable_ids p) \<Longrightarrow> plan_step c g (dispatch ids g)"
| advance: "t \<in> set (tasks g) \<Longrightarrow> assert_transition (status t) s = Inr () \<Longrightarrow> s \<noteq> IN_PROGRESS \<Longrightarrow>
    plan_step c g (with_status g (task_id t) s)"

section \<open>What the plan promises\<close>

definition place :: "pystr list \<Rightarrow> pystr \<Rightarrow> nat" where
  "place order i = length (takeWhile (\<lambda>j. j \<noteq> i) order)"

text \<open>The owner and the waiter of a conflict, and the conflicts a task waits for.\<close>

definition owner_of :: "(pystr \<Rightarrow> nat) \<Rightarrow> pair_conflict \<Rightarrow> pystr" where
  "owner_of pos k = (if pos (left_task k) \<le> pos (right_task k) then left_task k else right_task k)"

definition waiter_of :: "(pystr \<Rightarrow> nat) \<Rightarrow> pair_conflict \<Rightarrow> pystr" where
  "waiter_of pos k = (if pos (left_task k) \<le> pos (right_task k) then right_task k else left_task k)"

definition waits_for ::
    "(pystr \<Rightarrow> nat) \<Rightarrow> (pystr \<Rightarrow> task_status) \<Rightarrow> (task_status \<Rightarrow> bool) \<Rightarrow> pair_conflict list \<Rightarrow> pystr \<Rightarrow> pystr list" where
  "waits_for pos st P ks i =
     map (owner_of pos) (filter (\<lambda>k. \<not> auto_resolvable k \<and> waiter_of pos k = i \<and> P (st (owner_of pos k))) ks)"

lemma lease_or_replan:
  "holds_conflict_lease s \<longleftrightarrow> s \<notin> {DONE, FAILED, CANCELLED}"
  "requires_conflict_replan s \<longleftrightarrow> s \<in> {FAILED, CANCELLED}"
  by (cases s; simp add: holds_conflict_lease_def requires_conflict_replan_def CONFLICT_LEASE_STATUSES_def
      CONFLICT_REPLAN_STATUSES_def)+

lemma append_to_spec:
  assumes "\<forall>i\<in>A. map_of d i = Some (f i)" "k \<in> A"
  shows "append_to k x d = Inr (AList.update k (f k @ [x]) d)"
    "\<forall>i\<in>A. map_of (AList.update k (f k @ [x]) d) i = Some (f i @ (if i = k then [x] else []))"
  using assms by (auto simp: append_to_def subscript_def update_conv')

lemma serialise_spec:
  assumes "\<forall>k\<in>set ks. left_task k \<in> A \<and> right_task k \<in> A"
    and pos: "\<forall>i\<in>A. map_of position i = Some (pos i)" and st: "\<forall>i\<in>A. map_of rd i = Some (st i)"
    and "\<forall>i\<in>A. map_of df i = Some (f i)" "\<forall>i\<in>A. map_of rp i = Some (r i)"
  shows "\<exists>df' rp'. serialise rd position ks df rp = Inr (df', rp') \<and>
    (\<forall>i\<in>A. map_of df' i = Some (f i @ waits_for pos st holds_conflict_lease ks i)) \<and>
    (\<forall>i\<in>A. map_of rp' i = Some (r i @ waits_for pos st requires_conflict_replan ks i))"
  using assms(1,4,5)
proof (induction ks arbitrary: df rp f r)
  case (Cons k ks)
  let ?e = "owner_of pos k" and ?l = "waiter_of pos k"
  have A: "?e \<in> A" "?l \<in> A" using Cons.prems(1) by (auto simp: owner_of_def waiter_of_def)
  have el: "earlier_and_later k position = Inr (?e, ?l)"
    using Cons.prems(1) pos by (auto simp: earlier_and_later_def subscript_def owner_of_def waiter_of_def)
  have own: "subscript rd ?e = Inr (st ?e)" using st A by (simp add: subscript_def)
  note df = append_to_spec [OF Cons.prems(2) A(2), of ?e] and rp = append_to_spec [OF Cons.prems(3) A(2), of ?e]
  have w: "waits_for pos st P (k # ks) i =
      (if \<not> auto_resolvable k \<and> P (st ?e) then (if i = ?l then [?e] else []) else []) @ waits_for pos st P ks i" for P i
    by (auto simp: waits_for_def)
  consider (auto) "auto_resolvable k" | (lease) "\<not> auto_resolvable k" "holds_conflict_lease (st ?e)"
    | (replan) "\<not> auto_resolvable k" "requires_conflict_replan (st ?e)"
    | (landed) "\<not> auto_resolvable k" "\<not> holds_conflict_lease (st ?e)" "\<not> requires_conflict_replan (st ?e)"
    by blast
  then show ?case
  proof cases
    case auto
    with Cons.IH [OF _ Cons.prems(2,3)] Cons.prems(1) show ?thesis by (simp add: w)
  next
    case lease
    then have "\<not> requires_conflict_replan (st ?e)" by (simp add: lease_or_replan)
    with Cons.IH [OF _ df(2) Cons.prems(3)] Cons.prems(1) lease el own df(1) show ?thesis by (simp add: w)
  next
    case replan
    then have "\<not> holds_conflict_lease (st ?e)" by (auto simp: lease_or_replan)
    with Cons.IH [OF _ Cons.prems(2) rp(2)] Cons.prems(1) replan el own rp(1) show ?thesis by (simp add: w)
  next
    case landed
    with Cons.IH [OF _ Cons.prems(2,3)] Cons.prems(1) el own show ?thesis by (simp add: w)
  qed
qed (simp add: waits_for_def)

lemma zip_position: "i \<in> set order \<Longrightarrow> map_of (zip order [n..<n + length order]) i = Some (n + place order i)"
proof (induction order arbitrary: n)
  case (Cons j js)
  have e: "[n..<n + length (j # js)] = n # [Suc n..<Suc n + length js]" by (subst upt_rec) simp
  show ?case
  proof (cases "i = j")
    case False
    with Cons.prems Cons.IH [of "Suc n"] show ?thesis unfolding e by (simp add: place_def)
  qed (unfold e, simp add: place_def)
qed simp

lemma classify_pair_tasks [simp]:
  "left_task (classify_pair l r c) = task_id l" "right_task (classify_pair l r c) = task_id r"
  by (auto simp: classify_pair_def Let_def split: prod.splits)

lemma classify_all_mem:
  assumes "distinct (ids_of ts)" "k \<in> set (classify_all ts c)"
  shows "left_task k \<in> set (ids_of ts)" "right_task k \<in> set (ids_of ts)"
  using assms by (induction ts) (auto simp: ids_of_def)

lemma classify_all_pair:
  assumes "l \<in> set ts" "r \<in> set ts" "task_id l \<noteq> task_id r"
  shows "classify_pair l r c \<in> set (classify_all ts c) \<or> classify_pair r l c \<in> set (classify_all ts c)"
  using assms by (induction ts) auto

lemma plan_shape:
  assumes "plan ts c = Inr p"
  obtains order where "ids_ok ts" "deps_ok ts" "integration_order \<lparr>tasks = ts\<rparr> c = Inr order"
    "canonical_order (integration_key c) ts order"
proof -
  from assms have b: "build_graph ts = Inr \<lparr>tasks = ts\<rparr>" "ids_ok ts" "deps_ok ts" "acyclic (dependency_rel ts)"
    by (auto simp: plan_def rbind_Inr_iff build_graph_eq split: if_splits)
  with built_graph [of ts c ts] show ?thesis using that by auto
qed

definition derived_of :: "task_contract list \<Rightarrow> pystr \<Rightarrow> task_status" where
  "derived_of ts i = the (map_of (map (\<lambda>t. (task_id t, derived ts t)) ts) i)"

lemma derived_of:
  assumes "distinct (ids_of ts)"
  shows "t \<in> set ts \<Longrightarrow> map_of (map (\<lambda>t. (task_id t, derived ts t)) ts) (task_id t) = Some (derived ts t)"
    "t \<in> set ts \<Longrightarrow> derived_of ts (task_id t) = derived ts t"
    "i \<in> set (ids_of ts) \<Longrightarrow> map_of (map (\<lambda>t. (task_id t, derived ts t)) ts) i = Some (derived_of ts i)"
proof -
  show m: "map_of (map (\<lambda>t. (task_id t, derived ts t)) ts) (task_id t) = Some (derived ts t)" if "t \<in> set ts" for t
    using that assms by (intro map_of_is_SomeI) (auto simp: ids_of_def comp_def)
  show "derived_of ts (task_id t) = derived ts t" if "t \<in> set ts" for t
    using m [OF that] by (simp add: derived_of_def)
  show "map_of (map (\<lambda>t. (task_id t, derived ts t)) ts) i = Some (derived_of ts i)" if "i \<in> set (ids_of ts)"
    using that m by (auto simp: derived_of_def elim!: ids_ofE)
qed

definition blockers :: "task_contract list \<Rightarrow> agent_config \<Rightarrow> pystr list \<Rightarrow> (task_status \<Rightarrow> bool) \<Rightarrow> pystr \<Rightarrow> pystr list" where
  "blockers ts c order P i = waits_for (place order) (derived_of ts) P (classify_all ts c) i"

text \<open>The runnable tasks: ready, waiting for nobody, and among the first candidates.\<close>

lemma plan_runnable_subset:
  assumes p: "plan ts c = Inr p" and order: "integration_order \<lparr>tasks = ts\<rparr> c = Inr order"
    and ok: "ids_ok ts" "deps_ok ts" and o: "mset order = mset (ids_of ts)"
  shows "set (runnable_ids p) \<subseteq> set (take
      (nat (max 0 (max_sub_agents c - int (length (active_of (map (\<lambda>t. (task_id t, derived ts t)) ts) order)))))
      (filter (\<lambda>i. derived_of ts i = READY \<and> blockers ts c order holds_conflict_lease i = [] \<and>
         blockers ts c order requires_conflict_replan i = []) order))"
proof -
  have d: "distinct (ids_of ts)" using ok by (simp add: ids_ok_def)
  have dist: "distinct order" and so: "set order = set (ids_of ts)"
    using d o by (auto dest: mset_eq_imp_distinct_iff mset_eq_setD)
  let ?rd = "map (\<lambda>t. (task_id t, derived ts t)) ts" and ?by = "map (\<lambda>t. (task_id t, t)) ts"
  let ?none = "map (\<lambda>t. (task_id t, [] :: pystr list)) ts"
  have st: "\<forall>i\<in>set order. map_of ?rd i = Some (derived_of ts i)"
    unfolding so using derived_of(3) [OF d] by blast
  have pos: "dict_of (zip order [0..<length order]) = zip order [0..<length order]"
    "\<forall>i\<in>set order. map_of (zip order [0..<length order]) i = Some (place order i)"
    using dict_of_distinct [of "zip order [0..<length order]"] dist zip_position [of _ order 0] by simp_all
  have none: "dict_of ?none = ?none" "\<forall>i\<in>set order. map_of ?none i = Some []"
    using d by (auto simp: so ids_of_def comp_def dict_of_distinct intro!: map_of_is_SomeI)
  have by_id: "dict_of ?by = ?by" using d by (simp add: ids_of_def comp_def dict_of_distinct)
  obtain df rp where ser: "serialise ?rd (zip order [0..<length order]) (classify_all ts c) ?none ?none = Inr (df, rp)"
    and df: "\<forall>i\<in>set order. map_of df i = Some (blockers ts c order holds_conflict_lease i)"
    and rp: "\<forall>i\<in>set order. map_of rp i = Some (blockers ts c order requires_conflict_replan i)"
    using serialise_spec [OF _ pos(2) st none(2) none(2), of "classify_all ts c"] classify_all_mem [OF d, of _ c]
    by (auto simp: so blockers_def)
  let ?over = "drop (nat (max 0 (max_sub_agents c - int (length (active_of ?rd order))))) (candidates_of ?rd df rp order)"
  have cand: "candidates_of ?rd df rp order = filter (\<lambda>i. derived_of ts i = READY \<and>
      blockers ts c order holds_conflict_lease i = [] \<and> blockers ts c order requires_conflict_replan i = []) order"
    unfolding candidates_of_def by (rule filter_cong [OF refl]) (simp add: st df rp)
  from p obtain es where es: "rmap (plan_entry c ?by ?rd df rp ?over) order = Inr es"
    and pe: "entries p = es" "plan_order p = order"
    by (auto simp: plan_def rbind_Inr_iff build_graph_eq readiness_eq [OF ok] order Let_def pos(1) none(1) by_id ser
        split: if_splits)
  have "list_all (\<lambda>e. entry_id e \<in> set order \<longrightarrow> runnable e \<longrightarrow> entry_id e \<in> set (candidates_of ?rd df rp order) - set ?over) es"
    using es by (rule rmap_Inr_list_all)
      (auto simp: plan_entry_def subscript_def runnable_def candidates_of_def rbind_Inr_iff st df rp split: option.splits)
  then have "set (runnable_ids p) \<subseteq> set (candidates_of ?rd df rp order) - set ?over"
    by (auto simp: runnable_ids_def ids_where_def pe list_all_iff)
  also have "\<dots> \<subseteq> set (take (nat (max 0 (max_sub_agents c - int (length (active_of ?rd order))))) (candidates_of ?rd df rp order))"
    by (metis (no_types, lifting) Diff_subset_conv append_take_drop_id set_append subset_refl sup_commute)
  finally show ?thesis unfolding cand .
qed

lemma active_count:
  assumes "distinct (ids_of ts)" "mset order = mset (ids_of ts)"
  shows "length (active_of (map (\<lambda>t. (task_id t, derived ts t)) ts) order) =
    length (filter (\<lambda>t. status t = IN_PROGRESS) ts)"
proof -
  let ?Q = "\<lambda>i. case map_of (map (\<lambda>t. (task_id t, derived ts t)) ts) i of Some s \<Rightarrow> occupies_sub_agent_slot s | None \<Rightarrow> False"
  have Q: "?Q (task_id t) \<longleftrightarrow> status t = IN_PROGRESS" if "t \<in> set ts" for t
    unfolding derived_of(1) [OF assms(1) that]
    by (simp add: derived_def occupies_sub_agent_slot_def EXECUTION_SLOT_STATUSES_def)
  have "mset (filter ?Q order) = mset (filter ?Q (map task_id ts))"
    by (simp only: mset_filter assms(2) ids_of_def)
  then have "length (filter ?Q order) = length (filter ?Q (map task_id ts))" by (rule mset_eq_length)
  also have "\<dots> = length (filter (\<lambda>t. ?Q (task_id t)) ts)" by (simp add: filter_map comp_def)
  also have "\<dots> = length (filter (\<lambda>t. status t = IN_PROGRESS) ts)"
    using Q by (intro arg_cong [where f = length] filter_cong) auto
  finally show ?thesis by (simp add: active_of_def)
qed

text \<open>
  What a plan promises: a runnable task is ready, every task it conflicts with and that comes
  before it has landed, and no more tasks are runnable than there are free slots.
\<close>

lemma plan_promises:
  assumes p: "plan ts c = Inr p" and order: "integration_order \<lparr>tasks = ts\<rparr> c = Inr order"
  shows "\<And>t. t \<in> set ts \<Longrightarrow> task_id t \<in> set (runnable_ids p) \<Longrightarrow> derived ts t = READY"
    "\<And>l r. l \<in> set ts \<Longrightarrow> r \<in> set ts \<Longrightarrow> task_id r \<in> set (runnable_ids p) \<Longrightarrow>
       \<not> auto_resolvable (classify_pair l r c) \<Longrightarrow> place order (task_id l) < place order (task_id r) \<Longrightarrow>
       status l = DONE"
    "int (card (set (runnable_ids p))) \<le>
       max 0 (max_sub_agents c - int (length (filter (\<lambda>t. status t = IN_PROGRESS) ts)))"
proof -
  obtain ok: "ids_ok ts" "deps_ok ts" and o: "mset order = mset (ids_of ts)"
    using plan_shape [OF p] order by (auto simp: canonical_order_def)
  have d: "distinct (ids_of ts)" using ok by (simp add: ids_ok_def)
  note sub = plan_runnable_subset [OF p order ok o, unfolded active_count [OF d o]]
  have run: "derived_of ts i = READY" "blockers ts c order holds_conflict_lease i = []"
    "blockers ts c order requires_conflict_replan i = []" if "i \<in> set (runnable_ids p)" for i
    using subsetD [OF sub that] by (auto dest: in_set_takeD)
  show "derived ts t = READY" if "t \<in> set ts" "task_id t \<in> set (runnable_ids p)" for t
    using run(1) [OF that(2)] derived_of(2) [OF d that(1)] by simp
  show "status l = DONE" if l: "l \<in> set ts" and r: "r \<in> set ts" "task_id r \<in> set (runnable_ids p)"
    and k: "\<not> auto_resolvable (classify_pair l r c)" "place order (task_id l) < place order (task_id r)" for l r
  proof -
    have "task_id l \<noteq> task_id r" using k(2) by auto
    then obtain k where "k \<in> set (classify_all ts c)" "\<not> auto_resolvable k"
      "owner_of (place order) k = task_id l" "waiter_of (place order) k = task_id r"
      using classify_all_pair [OF l r(1), of c] k pair_level_sym [of r l c]
      by (auto simp: owner_of_def waiter_of_def auto_resolvable_iff)
    with run(2,3) [OF r(2)] have "\<not> holds_conflict_lease (derived_of ts (task_id l))"
      "\<not> requires_conflict_replan (derived_of ts (task_id l))"
      by (auto simp: blockers_def waits_for_def filter_empty_conv)
    then show ?thesis by (auto simp: derived_of(2) [OF d l] lease_or_replan derived_def split: if_splits)
  qed
  from sub have "card (set (runnable_ids p)) \<le> nat (max 0 (max_sub_agents c - int (length (filter (\<lambda>t. status t = IN_PROGRESS) ts))))"
    by (rule order_trans [OF card_mono [OF finite_set] order_trans [OF card_length]]) simp
  then show "int (card (set (runnable_ids p))) \<le>
      max 0 (max_sub_agents c - int (length (filter (\<lambda>t. status t = IN_PROGRESS) ts)))"
    by simp
qed

section \<open>Runs keep the order\<close>

definition restatus :: "(task_contract \<Rightarrow> task_status) \<Rightarrow> task_graph \<Rightarrow> task_graph" where
  "restatus f g = \<lparr>tasks = map (\<lambda>t. t\<lparr>status := f t\<rparr>) (tasks g)\<rparr>"

definition started :: "task_status \<Rightarrow> bool" where
  "started s \<longleftrightarrow> s \<in> {IN_PROGRESS, HANDOFF_READY, INTEGRATING, DONE}"

definition in_progress :: "task_graph \<Rightarrow> nat" where
  "in_progress g = length (filter (\<lambda>t. status t = IN_PROGRESS) (tasks g))"

text \<open>Every conflicting task before \<open>t\<close> has landed, and so has every task it depends on.\<close>

definition may_start :: "agent_config \<Rightarrow> pystr list \<Rightarrow> task_graph \<Rightarrow> task_contract \<Rightarrow> bool" where
  "may_start c order g t \<longleftrightarrow>
     list_all (\<lambda>l. place order (task_id l) < place order (task_id t) \<longrightarrow>
        \<not> auto_resolvable (classify_pair l t c) \<longrightarrow> status l = DONE) (tasks g) \<and>
     list_all (is_done (tasks g)) (dependencies t)"

definition run_inv :: "agent_config \<Rightarrow> pystr list \<Rightarrow> task_graph \<Rightarrow> bool" where
  "run_inv c order g \<longleftrightarrow> ids_ok (tasks g) \<and> deps_ok (tasks g) \<and> integration_order g c = Inr order \<and>
     list_all (\<lambda>t. started (status t) \<longrightarrow> may_start c order g t) (tasks g) \<and>
     int (in_progress g) \<le> max 0 (max_sub_agents c)"

lemma graph_eta [simp]: "\<lparr>tasks = tasks g\<rparr> = g"
  by (cases g) simp

lemma with_status_restatus: "with_status g i s = restatus (\<lambda>t. if task_id t = i then s else status t) g"
  by (auto simp: with_status_def restatus_def)

lemma restatus_restatus: "restatus f (restatus h g) = restatus (\<lambda>t. f (t\<lparr>status := h t\<rparr>)) g"
  by (simp add: restatus_def)

lemma dispatch_restatus: "dispatch ids g = restatus (\<lambda>t. if task_id t \<in> set ids then IN_PROGRESS else status t) g"
proof (induction ids arbitrary: g)
  case Nil
  then show ?case by (simp add: dispatch_def restatus_def)
next
  case (Cons i ids)
  have "dispatch (i # ids) g = dispatch ids (with_status g i IN_PROGRESS)" by (simp add: dispatch_def)
  also have "\<dots> = restatus (\<lambda>t. if task_id t \<in> set (i # ids) then IN_PROGRESS else status t) g"
    unfolding Cons.IH with_status_restatus restatus_restatus by (rule arg_cong2 [where f = restatus]) auto
  finally show ?case .
qed

lemma classify_pair_restatus [simp]: "classify_pair (l\<lparr>status := x\<rparr>) (r\<lparr>status := y\<rparr>) c = classify_pair l r c"
  by (simp add: classify_pair_def ownership_surface_def shared_contract_paths_def split_beta)

lemma restatus_graph:
  "ids_ok (tasks (restatus f g)) = ids_ok (tasks g)" "deps_ok (tasks (restatus f g)) = deps_ok (tasks g)"
  by (auto simp: restatus_def ids_ok_def deps_ok_def ids_of_def list_all_iff comp_def)

lemma restatus_order:
  assumes "ids_ok (tasks g)" "deps_ok (tasks g)" "integration_order g c = Inr order"
  shows "integration_order (restatus f g) c = Inr order"
proof -
  have "order_view (integration_key c) (tasks g) = order_view (integration_key c) (tasks (restatus f g))"
    by (simp add: order_view_def restatus_def integration_key_def image_image)
  then have "ordered_ids (integration_key c) \<lparr>tasks = tasks (restatus f g)\<rparr> = Inr order"
    by (rule integration.ordered_ids_view)
      (use assms in \<open>simp_all add: restatus_graph integration_order_def\<close>)
  then show ?thesis by (simp add: integration_order_def)
qed

lemma is_done_restatus:
  assumes "\<And>t. t \<in> set (tasks g) \<Longrightarrow> status t = DONE \<Longrightarrow> f t = DONE" "is_done (tasks g) i"
  shows "is_done (tasks (restatus f g)) i"
  using assms by (auto simp: is_done_def restatus_def list_ex_iff)

lemma may_start_restatus:
  assumes "\<And>t. t \<in> set (tasks g) \<Longrightarrow> status t = DONE \<Longrightarrow> f t = DONE" "may_start c order g t"
  shows "may_start c order (restatus f g) (t\<lparr>status := f t\<rparr>)"
  using assms is_done_restatus [of g f] by (auto simp: may_start_def list_all_iff) (auto simp: restatus_def)

lemma run_inv_restatus:
  assumes inv: "run_inv c order g"
    and stay: "\<And>t. t \<in> set (tasks g) \<Longrightarrow> status t = DONE \<Longrightarrow> f t = DONE"
    and start: "\<And>t. t \<in> set (tasks g) \<Longrightarrow> started (f t) \<Longrightarrow> \<not> started (status t) \<Longrightarrow> may_start c order g t"
    and cap: "int (length (filter (\<lambda>t. f t = IN_PROGRESS) (tasks g))) \<le> max 0 (max_sub_agents c)"
  shows "run_inv c order (restatus f g)"
proof -
  have "may_start c order (restatus f g) (t\<lparr>status := f t\<rparr>)" if "t \<in> set (tasks g)" "started (f t)" for t
  proof -
    have "may_start c order g t"
      using inv start [OF that] that(1) by (cases "started (status t)") (auto simp: run_inv_def list_all_iff)
    with stay show ?thesis by (rule may_start_restatus)
  qed
  then have "list_all (\<lambda>t. started (status t) \<longrightarrow> may_start c order (restatus f g) t) (tasks (restatus f g))"
    by (auto simp: list_all_iff restatus_def)
  moreover have "in_progress (restatus f g) = length (filter (\<lambda>t. f t = IN_PROGRESS) (tasks g))"
    by (simp add: in_progress_def restatus_def filter_map comp_def)
  ultimately show ?thesis using inv cap by (simp add: run_inv_def restatus_graph restatus_order)
qed

lemma length_filter_disj: "length (filter (\<lambda>x. P x \<or> Q x) xs) \<le> length (filter P xs) + length (filter Q xs)"
  by (induction xs) auto

lemma length_filter_ids:
  "distinct (ids_of ts) \<Longrightarrow> length (filter (\<lambda>t. task_id t \<in> A) ts) \<le> card (A \<inter> set (ids_of ts))"
proof -
  assume d: "distinct (ids_of ts)"
  then have "distinct (map task_id (filter (\<lambda>t. task_id t \<in> A) ts))" by (simp add: ids_of_def distinct_map_filter)
  then have "length (filter (\<lambda>t. task_id t \<in> A) ts) = card (task_id ` {t \<in> set ts. task_id t \<in> A})"
    using distinct_card by fastforce
  also have "task_id ` {t \<in> set ts. task_id t \<in> A} = A \<inter> set (ids_of ts)" by (auto simp: ids_of_def)
  finally show ?thesis by simp
qed

lemma run_inv_start:
  assumes inv: "run_inv c order g" and p: "plan (tasks g) c = Inr p" and ids: "set ids \<subseteq> set (runnable_ids p)"
  shows "run_inv c order (dispatch ids g)"
  unfolding dispatch_restatus
proof (rule run_inv_restatus [OF inv])
  have order: "integration_order \<lparr>tasks = tasks g\<rparr> c = Inr order" and d: "distinct (ids_of (tasks g))"
    and old: "int (in_progress g) \<le> max 0 (max_sub_agents c)"
    using inv by (auto simp: run_inv_def ids_ok_def)
  note promise = plan_promises [OF p order]
  show "(if task_id t \<in> set ids then IN_PROGRESS else status t) = DONE" if "t \<in> set (tasks g)" "status t = DONE" for t
    using promise(1) [OF that(1)] that(2) ids by (auto simp: derived_def)
  show "may_start c order g t"
    if t: "t \<in> set (tasks g)" "started (if task_id t \<in> set ids then IN_PROGRESS else status t)" "\<not> started (status t)" for t
  proof -
    from t have r: "task_id t \<in> set (runnable_ids p)" using ids by (auto split: if_splits)
    from promise(1) [OF t(1) r] have "list_all (is_done (tasks g)) (dependencies t)"
      by (auto simp: derived_def split: if_splits)
    moreover have "status l = DONE" if "l \<in> set (tasks g)" "place order (task_id l) < place order (task_id t)"
      "\<not> auto_resolvable (classify_pair l t c)" for l
      using promise(2) [OF that(1) t(1) r that(3,2)] .
    ultimately show ?thesis by (simp add: may_start_def list_all_iff)
  qed
  have "length (filter (\<lambda>t. (if task_id t \<in> set ids then IN_PROGRESS else status t) = IN_PROGRESS) (tasks g)) \<le>
      length (filter (\<lambda>t. status t = IN_PROGRESS \<or> task_id t \<in> set ids) (tasks g))"
    by (rule eq_refl, rule arg_cong [where f = length], rule filter_cong) auto
  also have "\<dots> \<le> in_progress g + card (set ids \<inter> set (ids_of (tasks g)))"
    unfolding in_progress_def by (rule order_trans [OF length_filter_disj add_left_mono [OF length_filter_ids [OF d]]])
  also have "card (set ids \<inter> set (ids_of (tasks g))) \<le> card (set (runnable_ids p))"
    using ids by (intro card_mono) auto
  finally show "int (length (filter (\<lambda>t. (if task_id t \<in> set ids then IN_PROGRESS else status t) = IN_PROGRESS) (tasks g)))
      \<le> max 0 (max_sub_agents c)"
    using promise(3) old unfolding in_progress_def by linarith
qed

lemma transitions:
  assumes "assert_transition s d = Inr u"
  shows "s \<noteq> DONE" "started d \<Longrightarrow> d \<noteq> IN_PROGRESS \<Longrightarrow> started s"
  using assms by (cases s; auto simp: assert_transition_def can_transition_def ALLOWED_TRANSITIONS_def started_def
      split: if_splits)+

lemma run_inv_advance:
  assumes inv: "run_inv c order g" and t: "t \<in> set (tasks g)" "assert_transition (status t) s = Inr u" "s \<noteq> IN_PROGRESS"
  shows "run_inv c order (with_status g (task_id t) s)"
  unfolding with_status_restatus
proof (rule run_inv_restatus [OF inv])
  have inj: "inj_on task_id (set (tasks g))" using inv by (simp add: run_inv_def ids_ok_def ids_of_def distinct_map)
  have same: "status v = status t" if "v \<in> set (tasks g)" "task_id v = task_id t" for v
    using inj_onD [OF inj that(2,1) t(1)] by simp
  show "(if task_id v = task_id t then s else status v) = DONE" if "v \<in> set (tasks g)" "status v = DONE" for v
    using same [OF that(1)] that(2) transitions(1) [OF t(2)] by auto
  show "may_start c order g v"
    if "v \<in> set (tasks g)" "started (if task_id v = task_id t then s else status v)" "\<not> started (status v)" for v
    using same [OF that(1)] that transitions(2) [OF t(2) _ t(3)] by (auto split: if_splits)
  have le: "length (filter (\<lambda>v. (if task_id v = task_id t then s else status v) = IN_PROGRESS) xs) \<le>
      length (filter (\<lambda>v. status v = IN_PROGRESS) xs)" for xs
    using t(3) by (induction xs) auto
  have cap: "int (length (filter (\<lambda>v. status v = IN_PROGRESS) (tasks g))) \<le> max 0 (max_sub_agents c)"
    using inv by (simp add: run_inv_def in_progress_def)
  show "int (length (filter (\<lambda>v. (if task_id v = task_id t then s else status v) = IN_PROGRESS) (tasks g)))
      \<le> max 0 (max_sub_agents c)"
    using le [of "tasks g"] cap by linarith
qed

lemma run_inv_steps:
  assumes "(plan_step c)\<^sup>*\<^sup>* g h" "run_inv c order g"
  shows "run_inv c order h"
  using assms by (induction rule: rtranclp_induct) (auto elim!: plan_step.cases intro: run_inv_start run_inv_advance)

lemma place_inj:
  assumes "i \<in> set order" "place order i = place order j"
  shows "i = j"
proof -
  have lt: "place order i < length order" if "i \<in> set order" for i
    using that by (induction order) (auto simp: place_def)
  have nth: "order ! place order i = i" if "place order i < length order" for i
    using nth_length_takeWhile [of "\<lambda>j. j \<noteq> i" order] that by (simp add: place_def)
  from nth lt assms show ?thesis by metis
qed

definition exclusive :: "task_status \<Rightarrow> task_status \<Rightarrow> bool" where
  "exclusive s d \<longleftrightarrow> (if started s \<and> started d then s = DONE \<or> d = DONE else True)"

lemma run_inv_exclusive:
  assumes inv: "run_inv c order h" and l: "l \<in> set (tasks h)" and r: "r \<in> set (tasks h)"
    and ne: "task_id l \<noteq> task_id r" and k: "\<not> auto_resolvable (classify_pair l r c)"
  shows "exclusive (status l) (status r)"
proof -
  have ok: "distinct (ids_of (tasks h))" "\<forall>t\<in>set (tasks h). set (dependencies t) \<subseteq> set (ids_of (tasks h))"
    and o: "integration_order h c = Inr order"
    using inv by (auto simp: run_inv_def ids_ok_def deps_ok_def list_all_iff)
  from ordered_ids_spec [OF ok, of "integration_key c"] o have "set order = set (ids_of (tasks h))"
    by (auto simp: integration_order_def canonical_order_def dest: mset_eq_setD split: if_splits)
  with l ne place_inj [of "task_id l" order "task_id r"]
  have "place order (task_id l) \<noteq> place order (task_id r)" by (auto simp: ids_of_def)
  then consider (lr) "place order (task_id l) < place order (task_id r)"
    | (rl) "place order (task_id r) < place order (task_id l)" by linarith
  moreover have land: "status a = DONE" if "a \<in> set (tasks h)" "b \<in> set (tasks h)" "started (status b)"
    "place order (task_id a) < place order (task_id b)" "\<not> auto_resolvable (classify_pair a b c)" for a b
  proof -
    have "may_start c order h b" using inv that(2,3) by (simp add: run_inv_def list_all_iff)
    with that(1,4,5) show ?thesis unfolding may_start_def list_all_iff by blast
  qed
  moreover have "\<not> auto_resolvable (classify_pair r l c)"
    using k by (simp add: auto_resolvable_iff pair_level_sym [of r l])
  ultimately show ?thesis
    by cases (use land [OF l r] land [OF r l] k in \<open>simp_all add: exclusive_def\<close>)
qed

text \<open>
  C27:
  A main agent that follows the plan never races two conflicting tasks: from a graph of planned
  tasks, however waves of runnable tasks and lifecycle transitions are interleaved, of two tasks
  whose conflict may not be resolved automatically one has not been started or one has landed.
  Every task that was started has all its dependencies done, whatever it conflicts with, and no
  more sub-agents are ever at work than the configuration allows.
\<close>

theorem planned_runs_never_race:
  assumes "build_graph ts = Inr g" and "list_all (\<lambda>t. status t = PLANNED) ts" and "(plan_step c)\<^sup>*\<^sup>* g h"
  shows "list_all (\<lambda>l. list_all (\<lambda>r. if task_id l = task_id r \<or> auto_resolvable (classify_pair l r c) then True
          else exclusive (status l) (status r)) (tasks h)) (tasks h)
    \<and> list_all (\<lambda>l. if started (status l) then list_all (is_done (tasks h)) (dependencies l) else True) (tasks h)
    \<and> int (in_progress h) \<le> max 0 (max_sub_agents c)"
proof -
  from built_graph [of ts c ts] assms(1) obtain order where
    g: "tasks g = ts" "ids_ok ts" "deps_ok ts" "integration_order g c = Inr order" by auto
  have "run_inv c order g"
    using g assms(2) by (auto simp: run_inv_def in_progress_def list_all_iff started_def filter_empty_conv)
  with assms(3) have h: "run_inv c order h" by (rule run_inv_steps)
  have "list_all (\<lambda>l. list_all (\<lambda>r. if task_id l = task_id r \<or> auto_resolvable (classify_pair l r c) then True
          else exclusive (status l) (status r)) (tasks h)) (tasks h)"
    unfolding list_all_iff using run_inv_exclusive [OF h] by simp
  moreover have "list_all (\<lambda>l. if started (status l) then list_all (is_done (tasks h)) (dependencies l) else True) (tasks h)"
    using h unfolding run_inv_def list_all_iff may_start_def by simp
  moreover have "int (in_progress h) \<le> max 0 (max_sub_agents c)" using h by (simp add: run_inv_def)
  ultimately show ?thesis by blast
qed

theorem planned_runs_never_race_witness:
  "\<exists>h p. (plan_step sample_config)\<^sup>*\<^sup>*
      \<lparr>tasks = [sample_task [65] [codes ''src/**''], sample_task [66] [codes ''src/safety/*'']]\<rparr> h \<and>
    plan (tasks h) sample_config = Inr p \<and> active_ids p = [[65]] \<and> deferred_ids p = [[66]] \<and>
    exclusive (status (tasks h ! 0)) (status (tasks h ! 1))"
proof -
  let ?l = "sample_task [65] [codes ''src/**'']" and ?r = "sample_task [66] [codes ''src/safety/*'']"
  let ?g = "\<lparr>tasks = [?l, ?r]\<rparr>"
  let ?h = "\<lparr>tasks = [?l\<lparr>status := IN_PROGRESS\<rparr>, ?r]\<rparr>"
  have build: "build_graph [?l, ?r] = Inr ?g" by code_simp
  obtain p where p: "plan [?l, ?r] sample_config = Inr p" "runnable_ids p = [[65]]"
  proof -
    have "(case plan [?l, ?r] sample_config of Inl _ \<Rightarrow> False | Inr p \<Rightarrow> runnable_ids p = [[65]])" by code_simp
    with that show thesis by (auto split: sum.splits)
  qed
  have "(case plan (tasks ?h) sample_config of Inl _ \<Rightarrow> False
      | Inr p \<Rightarrow> active_ids p = [[65]] \<and> deferred_ids p = [[66]])" by code_simp
  then obtain q where q: "plan (tasks ?h) sample_config = Inr q" "active_ids q = [[65]]" "deferred_ids q = [[66]]"
    by (auto split: sum.splits)
  have "dispatch [[65]] ?g = ?h" by (simp add: dispatch_def with_status_def sample_task_def)
  moreover have "plan_step sample_config ?g (dispatch [[65]] ?g)"
    by (rule plan_step.start [where p = p]) (simp_all add: p)
  ultimately have run: "(plan_step sample_config)\<^sup>*\<^sup>* ?g ?h" by simp
  have "\<not> auto_resolvable (classify_pair (?l\<lparr>status := IN_PROGRESS\<rparr>) ?r sample_config)" by code_simp
  with planned_runs_never_race [OF build _ run]
  have "exclusive (status (tasks ?h ! 0)) (status (tasks ?h ! 1))" by (simp add: sample_task_def)
  with run q show ?thesis by blast
qed

end
