(* ===== verification/Agent_Contracts.thy ===== *)
theory Agent_Contracts
  imports Agent_Tasks Frames
begin

text \<open>
  The interchange format of the agent tooling: parsing and rendering of task and handoff
  contracts and of plans (\<open>tools/agent/contracts.py\<close>), and of the configuration
  (\<open>tools/agent/config.py\<close>). Documents are the values \<open>json.loads\<close> returns; the file system
  and \<open>json.loads\<close> are parameters.
\<close>

section \<open>Fields\<close>

type_synonym json_dict = "(pyval \<times> pyval) list"

definition dict_has :: "json_dict \<Rightarrow> string \<Rightarrow> bool" where
  "dict_has d k \<longleftrightarrow> map_of d (VStr (codes k)) \<noteq> None"

definition dict_get_default :: "json_dict \<Rightarrow> string \<Rightarrow> pyval \<Rightarrow> pyval" where
  "dict_get_default d k v = (case map_of d (VStr (codes k)) of None \<Rightarrow> v | Some w \<Rightarrow> w)"

definition expect_mapping :: "exn \<Rightarrow> pyval \<Rightarrow> exn + json_dict" where
  "expect_mapping e v = (case v of VDict d \<Rightarrow> Inr d | _ \<Rightarrow> Inl e)"

definition expect_str :: "exn \<Rightarrow> json_dict \<Rightarrow> string \<Rightarrow> exn + pystr" where
  "expect_str e d k = (case dict_get d k of VStr s \<Rightarrow> if blank s then Inl e else Inr s | _ \<Rightarrow> Inl e)"

definition expect_optional_str :: "exn \<Rightarrow> json_dict \<Rightarrow> string \<Rightarrow> exn + pystr option" where
  "expect_optional_str e d k =
     (case dict_get d k of VNone \<Rightarrow> Inr None | VStr s \<Rightarrow> Inr (Some s) | _ \<Rightarrow> Inl e)"

definition str_items :: "exn \<Rightarrow> pyval \<Rightarrow> exn + pystr list" where
  "str_items e v = (case v of VList xs \<Rightarrow> rmap (\<lambda>x. case x of VStr s \<Rightarrow> Inr s | _ \<Rightarrow> Inl e) xs | _ \<Rightarrow> Inl e)"

definition expect_str_tuple :: "exn \<Rightarrow> json_dict \<Rightarrow> string \<Rightarrow> bool \<Rightarrow> exn + pystr list" where
  "expect_str_tuple e d k required =
     (if required \<and> \<not> dict_has d k then Inl e else str_items e (dict_get_default d k (VList [])))"

definition expect_bool :: "exn \<Rightarrow> json_dict \<Rightarrow> string \<Rightarrow> exn + bool" where
  "expect_bool e d k = (case dict_get d k of VBool b \<Rightarrow> Inr b | _ \<Rightarrow> Inl e)"

definition expect_int :: "exn \<Rightarrow> json_dict \<Rightarrow> string \<Rightarrow> exn + int" where
  "expect_int e d k = (case dict_get d k of VInt i \<Rightarrow> Inr i | _ \<Rightarrow> Inl e)"

text \<open>\<open>== 1\<close> holds of the integer, of \<open>True\<close> and of the float.\<close>

definition equals_one :: "pyval \<Rightarrow> bool" where
  "equals_one v \<longleftrightarrow> v \<in> {VInt 1, VBool True, VFloat (Fin 1)}"

definition expect_schema_version :: "exn \<Rightarrow> json_dict \<Rightarrow> exn + int" where
  "expect_schema_version e d =
     (if \<not> dict_has d ''schema_version'' then Inl e
      else if \<not> equals_one (dict_get d ''schema_version'') then Inl e else Inr 1)"

fun risk_value :: "risk_class \<Rightarrow> pystr" where
  "risk_value LOW = codes ''LOW''"
| "risk_value MEDIUM = codes ''MEDIUM''"
| "risk_value HIGH = codes ''HIGH''"
| "risk_value SAFETY_CRITICAL = codes ''SAFETY_CRITICAL''"

fun status_value :: "task_status \<Rightarrow> pystr" where
  "status_value PLANNED = codes ''PLANNED''"
| "status_value READY = codes ''READY''"
| "status_value IN_PROGRESS = codes ''IN_PROGRESS''"
| "status_value HANDOFF_READY = codes ''HANDOFF_READY''"
| "status_value BLOCKED = codes ''BLOCKED''"
| "status_value INTEGRATING = codes ''INTEGRATING''"
| "status_value DONE = codes ''DONE''"
| "status_value FAILED = codes ''FAILED''"
| "status_value CANCELLED = codes ''CANCELLED''"

fun mode_value :: "execution_mode \<Rightarrow> pystr" where
  "mode_value ISOLATED_WORKTREE = codes ''isolated-worktree''"
| "mode_value NATIVE_SHARED = codes ''native-shared''"

definition member_of :: "exn \<Rightarrow> ('a \<Rightarrow> pystr) \<Rightarrow> 'a list \<Rightarrow> pyval \<Rightarrow> exn + 'a" where
  "member_of e value members v =
     (case v of VStr s \<Rightarrow> (case find (\<lambda>m. value m = s) members of Some m \<Rightarrow> Inr m | None \<Rightarrow> Inl e) | _ \<Rightarrow> Inl e)"

definition all_risks :: "risk_class list" where
  "all_risks = [LOW, MEDIUM, HIGH, SAFETY_CRITICAL]"

definition all_statuses :: "task_status list" where
  "all_statuses = [PLANNED, READY, IN_PROGRESS, HANDOFF_READY, BLOCKED, INTEGRATING, DONE, FAILED, CANCELLED]"

definition expect_execution_mode :: "exn \<Rightarrow> json_dict \<Rightarrow> exn + execution_mode" where
  "expect_execution_mode e d =
     member_of e mode_value [ISOLATED_WORKTREE, NATIVE_SHARED]
       (dict_get_default d ''execution_mode'' (VStr (mode_value ISOLATED_WORKTREE)))"

section \<open>Task contracts\<close>

definition strs :: "pystr list \<Rightarrow> pyval" where
  "strs xs = VList (map VStr xs)"

definition opt_str :: "pystr option \<Rightarrow> pyval" where
  "opt_str x = (case x of None \<Rightarrow> VNone | Some s \<Rightarrow> VStr s)"

definition field_of :: "string \<Rightarrow> pyval \<Rightarrow> pyval \<times> pyval" where
  "field_of k v = (VStr (codes k), v)"

definition contract_ref_from_dict :: "exn \<Rightarrow> pyval \<Rightarrow> exn + contract_ref" where
  "contract_ref_from_dict e v =
     rbind (expect_mapping e v) (\<lambda>d. rbind (expect_str e d ''path'') (\<lambda>p.
     rbind (expect_optional_str e d ''sha'') (\<lambda>s. Inr \<lparr>ref_path = p, ref_sha = s\<rparr>)))"

definition contract_ref_to_dict :: "contract_ref \<Rightarrow> pyval" where
  "contract_ref_to_dict r = VDict [field_of ''path'' (VStr (ref_path r)), field_of ''sha'' (opt_str (ref_sha r))]"

definition expect_list :: "exn \<Rightarrow> json_dict \<Rightarrow> string \<Rightarrow> exn + pyval list" where
  "expect_list e d k = (case dict_get d k of VList xs \<Rightarrow> Inr xs | _ \<Rightarrow> Inl e)"

definition check_mode :: "exn \<Rightarrow> execution_mode \<Rightarrow> pystr option \<Rightarrow> pystr option \<Rightarrow> exn + unit" where
  "check_mode e m b w =
     (if m = ISOLATED_WORKTREE then guard (b \<noteq> None \<and> w \<noteq> None) e else guard (b = None \<and> w = None) e)"

definition task_from_dict :: "pyval \<Rightarrow> exn + task_contract" where
  "task_from_dict v =
     (let e = TaskInvalidError in
      rbind (expect_mapping e v) (\<lambda>d.
      rbind (guard (dict_has d ''risk_class'') e) (\<lambda>_.
      rbind (member_of e risk_value all_risks (dict_get d ''risk_class'')) (\<lambda>risk.
      rbind (guard (dict_has d ''status'') e) (\<lambda>_.
      rbind (member_of e status_value all_statuses (dict_get d ''status'')) (\<lambda>st.
      rbind (expect_list e d ''shared_contracts'') (\<lambda>raw.
      rbind (expect_execution_mode e d) (\<lambda>m.
      rbind (expect_optional_str e d ''branch'') (\<lambda>b.
      rbind (expect_optional_str e d ''worktree'') (\<lambda>w.
      rbind (check_mode e m b w) (\<lambda>_.
      rbind (expect_schema_version e d) (\<lambda>version.
      rbind (expect_str e d ''task_id'') (\<lambda>i.
      rbind (expect_str e d ''title'') (\<lambda>tt.
      rbind (expect_str e d ''objective'') (\<lambda>ob.
      rbind (expect_str e d ''scope'') (\<lambda>sc.
      rbind (expect_str_tuple e d ''non_goals'' True) (\<lambda>ng.
      rbind (expect_str e d ''base_sha'') (\<lambda>bs.
      rbind (expect_str e d ''owner'') (\<lambda>ow.
      rbind (expect_str_tuple e d ''allowed_paths'' True) (\<lambda>ap.
      rbind (expect_str_tuple e d ''forbidden_paths'' True) (\<lambda>fp.
      rbind (expect_str_tuple e d ''dependencies'' True) (\<lambda>dp.
      rbind (rmap (contract_ref_from_dict e) raw) (\<lambda>refs.
      rbind (expect_str_tuple e d ''acceptance_criteria'' True) (\<lambda>ac.
      rbind (expect_str_tuple e d ''required_tests'' True) (\<lambda>rt.
      rbind (expect_str_tuple e d ''handoff_requirements'' True) (\<lambda>hr.
      rbind (expect_str_tuple e d ''integration_paths'' False) (\<lambda>ip.
      rbind (expect_int e d ''revision'') (\<lambda>rv.
      Inr \<lparr>task_id = i, title = tt, objective = ob, task_scope = sc, non_goals = ng, base_sha = bs, branch = b,
        worktree = w, owner = ow, allowed_paths = ap, forbidden_paths = fp, dependencies = dp,
        shared_contracts = refs, acceptance_criteria = ac, required_tests = rt, handoff_requirements = hr,
        risk_class = risk, status = st, revision = rv, integration_paths = ip, execution_mode = m,
        contract_schema_version = version\<rparr>))))))))))))))))))))))))))))"

definition task_to_dict :: "task_contract \<Rightarrow> json_dict" where
  "task_to_dict t =
     [field_of ''schema_version'' (VInt (contract_schema_version t)), field_of ''task_id'' (VStr (task_id t)),
      field_of ''title'' (VStr (title t)), field_of ''objective'' (VStr (objective t)),
      field_of ''scope'' (VStr (task_scope t)), field_of ''non_goals'' (strs (non_goals t)),
      field_of ''base_sha'' (VStr (base_sha t)), field_of ''branch'' (opt_str (branch t)),
      field_of ''worktree'' (opt_str (worktree t)), field_of ''owner'' (VStr (owner t)),
      field_of ''allowed_paths'' (strs (allowed_paths t)), field_of ''forbidden_paths'' (strs (forbidden_paths t)),
      field_of ''dependencies'' (strs (dependencies t)),
      field_of ''shared_contracts'' (VList (map contract_ref_to_dict (shared_contracts t))),
      field_of ''acceptance_criteria'' (strs (acceptance_criteria t)),
      field_of ''required_tests'' (strs (required_tests t)),
      field_of ''handoff_requirements'' (strs (handoff_requirements t)),
      field_of ''integration_paths'' (strs (integration_paths t)),
      field_of ''execution_mode'' (VStr (mode_value (execution_mode t))),
      field_of ''risk_class'' (VStr (risk_value (risk_class t))), field_of ''status'' (VStr (status_value (status t))),
      field_of ''revision'' (VInt (revision t))]"

definition FROZEN_FIELDS :: "string list" where
  "FROZEN_FIELDS = [''objective'', ''allowed_paths'', ''shared_contracts'', ''integration_paths'']"

definition frozen_snapshot :: "task_contract \<Rightarrow> (string \<times> pyval) list" where
  "frozen_snapshot t = map (\<lambda>k. (k, dict_get (task_to_dict t) k)) FROZEN_FIELDS"

section \<open>Handoffs\<close>

record test_result =
  test_name :: pystr
  test_command :: pystr
  test_outcome :: pystr

definition TEST_RESULTS :: "pystr list" where
  "TEST_RESULTS = [codes ''passed'', codes ''failed'', codes ''skipped'', codes ''not_run'']"

definition test_result_from_dict :: "exn \<Rightarrow> pyval \<Rightarrow> exn + test_result" where
  "test_result_from_dict e v =
     rbind (expect_mapping e v) (\<lambda>d. rbind (expect_str e d ''name'') (\<lambda>n.
     rbind (expect_str e d ''command'') (\<lambda>c. rbind (expect_str e d ''result'') (\<lambda>r.
     rbind (guard (r \<in> set TEST_RESULTS) e) (\<lambda>_.
     Inr \<lparr>test_name = n, test_command = c, test_outcome = r\<rparr>)))))"

definition test_result_to_dict :: "test_result \<Rightarrow> pyval" where
  "test_result_to_dict r = VDict [field_of ''name'' (VStr (test_name r)),
     field_of ''command'' (VStr (test_command r)), field_of ''result'' (VStr (test_outcome r))]"

record handoff_contract =
  handoff_task_id :: pystr
  handoff_agent :: pystr
  handoff_branch :: pystr
  handoff_base_sha :: pystr
  handoff_head_sha :: pystr
  handoff_commits :: "pystr list"
  changed_files :: "pystr list"
  ownership_compliance :: bool
  handoff_tests :: "test_result list"
  lint :: "pystr option"
  typecheck :: "pystr option"
  ci_status :: "pystr option"
  handoff_dependencies :: "pystr list"
  known_issues :: "pystr list"
  deferred_items :: "pystr list"
  ready_for_integration :: bool
  handoff_schema_version :: int

definition handoff_from_dict :: "pyval \<Rightarrow> exn + handoff_contract" where
  "handoff_from_dict v =
     (let e = HandoffInvalidError in
      rbind (expect_mapping e v) (\<lambda>d.
      rbind (expect_list e d ''tests'') (\<lambda>raw.
      rbind (expect_schema_version e d) (\<lambda>version.
      rbind (expect_str e d ''task_id'') (\<lambda>i.
      rbind (expect_str e d ''agent'') (\<lambda>ag.
      rbind (expect_str e d ''branch'') (\<lambda>b.
      rbind (expect_str e d ''base_sha'') (\<lambda>bs.
      rbind (expect_str e d ''head_sha'') (\<lambda>hs.
      rbind (expect_str_tuple e d ''commits'' True) (\<lambda>cs.
      rbind (expect_str_tuple e d ''changed_files'' True) (\<lambda>cf.
      rbind (expect_bool e d ''ownership_compliance'') (\<lambda>oc.
      rbind (rmap (test_result_from_dict e) raw) (\<lambda>ts.
      rbind (expect_optional_str e d ''lint'') (\<lambda>li.
      rbind (expect_optional_str e d ''typecheck'') (\<lambda>ty.
      rbind (expect_optional_str e d ''ci'') (\<lambda>ci.
      rbind (expect_str_tuple e d ''dependencies'' True) (\<lambda>dp.
      rbind (expect_str_tuple e d ''known_issues'' False) (\<lambda>ki.
      rbind (expect_str_tuple e d ''deferred_items'' False) (\<lambda>df.
      rbind (expect_bool e d ''ready_for_integration'') (\<lambda>rd.
      Inr \<lparr>handoff_task_id = i, handoff_agent = ag, handoff_branch = b, handoff_base_sha = bs, handoff_head_sha = hs,
        handoff_commits = cs, changed_files = cf, ownership_compliance = oc, handoff_tests = ts, lint = li,
        typecheck = ty, ci_status = ci, handoff_dependencies = dp, known_issues = ki, deferred_items = df,
        ready_for_integration = rd, handoff_schema_version = version\<rparr>))))))))))))))))))))"

definition handoff_to_dict :: "handoff_contract \<Rightarrow> json_dict" where
  "handoff_to_dict h =
     [field_of ''schema_version'' (VInt (handoff_schema_version h)), field_of ''task_id'' (VStr (handoff_task_id h)),
      field_of ''agent'' (VStr (handoff_agent h)), field_of ''branch'' (VStr (handoff_branch h)),
      field_of ''base_sha'' (VStr (handoff_base_sha h)), field_of ''head_sha'' (VStr (handoff_head_sha h)),
      field_of ''commits'' (strs (handoff_commits h)), field_of ''changed_files'' (strs (changed_files h)),
      field_of ''ownership_compliance'' (VBool (ownership_compliance h)),
      field_of ''tests'' (VList (map test_result_to_dict (handoff_tests h))),
      field_of ''lint'' (opt_str (lint h)), field_of ''typecheck'' (opt_str (typecheck h)),
      field_of ''ci'' (opt_str (ci_status h)), field_of ''dependencies'' (strs (handoff_dependencies h)),
      field_of ''known_issues'' (strs (known_issues h)), field_of ''deferred_items'' (strs (deferred_items h)),
      field_of ''ready_for_integration'' (VBool (ready_for_integration h))]"

definition test_named :: "handoff_contract \<Rightarrow> pystr \<Rightarrow> test_result option" where
  "test_named h n = find (\<lambda>r. test_name r = n) (handoff_tests h)"

section \<open>Plans, configuration and files\<close>

definition parse_task_plan :: "pyval \<Rightarrow> exn + task_contract list" where
  "parse_task_plan v =
     (let e = TaskInvalidError in
      rbind (expect_mapping e v) (\<lambda>d.
      rbind (expect_schema_version e d) (\<lambda>_.
      case dict_get d ''tasks'' of
        VList xs \<Rightarrow> if xs = [] then Inl e else rmap task_from_dict xs
      | _ \<Rightarrow> Inl e)))"

text \<open>Reading a document: a missing file and text that is not JSON get the error of the kind.\<close>

datatype read_fault = FileNotFound | Read_Other exn
datatype json_fault = JSONDecodeError | Json_Other exn

definition load_document ::
    "(pystr \<Rightarrow> read_fault + pystr) \<Rightarrow> (pystr \<Rightarrow> json_fault + pyval) \<Rightarrow> exn \<Rightarrow> (pyval \<Rightarrow> exn + 'a) \<Rightarrow> pystr \<Rightarrow> exn + 'a" where
  "load_document read_text loads e parse path =
     (case read_text path of
        Inl FileNotFound \<Rightarrow> Inl e
      | Inl (Read_Other x) \<Rightarrow> Inl x
      | Inr raw \<Rightarrow> (case loads raw of Inl JSONDecodeError \<Rightarrow> Inl e | Inl (Json_Other x) \<Rightarrow> Inl x | Inr v \<Rightarrow> parse v))"

definition load_task_plan ::
    "(pystr \<Rightarrow> read_fault + pystr) \<Rightarrow> (pystr \<Rightarrow> json_fault + pyval) \<Rightarrow> pystr \<Rightarrow> exn + task_contract list" where
  "load_task_plan read_text loads = load_document read_text loads TaskInvalidError parse_task_plan"

definition load_task ::
    "(pystr \<Rightarrow> read_fault + pystr) \<Rightarrow> (pystr \<Rightarrow> json_fault + pyval) \<Rightarrow> pystr \<Rightarrow> exn + task_contract" where
  "load_task read_text loads = load_document read_text loads TaskInvalidError task_from_dict"

definition load_handoff ::
    "(pystr \<Rightarrow> read_fault + pystr) \<Rightarrow> (pystr \<Rightarrow> json_fault + pyval) \<Rightarrow> pystr \<Rightarrow> exn + handoff_contract" where
  "load_handoff read_text loads = load_document read_text loads HandoffInvalidError handoff_from_dict"

definition MAX_SUB_AGENT_CEILING :: int where
  "MAX_SUB_AGENT_CEILING = 4"

definition require_str :: "json_dict \<Rightarrow> string \<Rightarrow> exn + pystr" where
  "require_str d k =
     (case dict_get d k of VStr s \<Rightarrow> if blank s then Inl TaskInvalidError else Inr s | _ \<Rightarrow> Inl TaskInvalidError)"

definition require_str_tuple :: "json_dict \<Rightarrow> string \<Rightarrow> exn + pystr list" where
  "require_str_tuple d k = str_items TaskInvalidError (dict_get_default d k (VList []))"

definition require_pattern_tuple :: "json_dict \<Rightarrow> string \<Rightarrow> exn + pystr list" where
  "require_pattern_tuple d k =
     rbind (require_str_tuple d k) (\<lambda>raw.
       rmap (\<lambda>p. case normalize_repo_pattern (Some p) of
          Inl e \<Rightarrow> Inl (if e = PathInvalidError then TaskInvalidError else e) | Inr q \<Rightarrow> Inr q) raw)"

definition config_from_dict :: "pyval \<Rightarrow> exn + agent_config" where
  "config_from_dict v =
     (case v of VDict d \<Rightarrow>
        if \<not> equals_one (dict_get d ''schema_version'') then Inl TaskInvalidError
        else rbind (expect_int TaskInvalidError d ''max_sub_agents'') (\<lambda>n.
          rbind (guard (1 \<le> n \<and> n \<le> MAX_SUB_AGENT_CEILING) TaskInvalidError) (\<lambda>_.
          rbind (require_str_tuple d ''main_agent_ids'') (\<lambda>mains.
          rbind (guard (mains \<noteq> []) TaskInvalidError) (\<lambda>_.
          rbind (require_str d ''default_branch'') (\<lambda>db.
          rbind (require_str d ''repository'') (\<lambda>rp.
          rbind (require_str d ''branch_prefix'') (\<lambda>bp.
          rbind (require_str d ''worktrees_dir'') (\<lambda>wd0.
          rbind (normalize_repo_pattern (Some wd0)) (\<lambda>wd.
          rbind (require_pattern_tuple d ''protected_paths'') (\<lambda>pp.
          rbind (require_pattern_tuple d ''public_truth_paths'') (\<lambda>tp.
          rbind (require_pattern_tuple d ''safety_paths'') (\<lambda>sp.
          Inr \<lparr>max_sub_agents = n, default_branch = db, repository = rp, branch_prefix = bp, worktrees_dir = wd,
            main_agent_ids = set mains, protected_paths = pp, public_truth_paths = tp, safety_paths = sp,
            config_schema_version = 1\<rparr>))))))))))))
      | _ \<Rightarrow> Inl TaskInvalidError)"

definition load_config ::
    "(pystr \<Rightarrow> read_fault + pystr) \<Rightarrow> (pystr \<Rightarrow> json_fault + pyval) \<Rightarrow> pystr \<Rightarrow> exn + agent_config" where
  "load_config read_text loads = load_document read_text loads TaskInvalidError config_from_dict"

section \<open>Round trips\<close>

definition parsable_ref :: "contract_ref \<Rightarrow> bool" where
  "parsable_ref r \<longleftrightarrow> \<not> blank (ref_path r)"

definition parsable_task :: "task_contract \<Rightarrow> bool" where
  "parsable_task t \<longleftrightarrow> contract_schema_version t = 1 \<and>
     list_all (\<lambda>s. \<not> blank s) [task_id t, title t, objective t, task_scope t, base_sha t, owner t] \<and>
     list_all parsable_ref (shared_contracts t) \<and>
     (case execution_mode t of ISOLATED_WORKTREE \<Rightarrow> branch t \<noteq> None \<and> worktree t \<noteq> None
      | NATIVE_SHARED \<Rightarrow> branch t = None \<and> worktree t = None)"

definition parsable_test :: "test_result \<Rightarrow> bool" where
  "parsable_test r \<longleftrightarrow> \<not> blank (test_name r) \<and> \<not> blank (test_command r) \<and> test_outcome r \<in> set TEST_RESULTS"

definition parsable_handoff :: "handoff_contract \<Rightarrow> bool" where
  "parsable_handoff h \<longleftrightarrow> handoff_schema_version h = 1 \<and>
     list_all (\<lambda>s. \<not> blank s) [handoff_task_id h, handoff_agent h, handoff_branch h, handoff_base_sha h, handoff_head_sha h] \<and>
     list_all parsable_test (handoff_tests h)"

named_theorems field_simps_of

lemma field_lookup [field_simps_of]:
  "dict_get (field_of k' v # d) k = (if k = k' then v else dict_get d k)"
  "dict_has (field_of k' v # d) k \<longleftrightarrow> k = k' \<or> dict_has d k"
  "dict_get_default (field_of k' v # d) k w = (if k = k' then v else dict_get_default d k w)"
  by (simp_all add: field_of_def dict_has_def dict_get_default_def)

lemma str_items_strs [field_simps_of]: "str_items e (strs xs) = Inr xs"
proof -
  have "rmap (\<lambda>x. case x of VStr s \<Rightarrow> Inr s | _ \<Rightarrow> Inl e) (map VStr xs) = Inr xs"
    by (induction xs) simp_all
  then show ?thesis by (simp add: str_items_def strs_def)
qed

lemma opt_str_cases [field_simps_of]:
  "(case opt_str x of VNone \<Rightarrow> Inr None | VStr s \<Rightarrow> Inr (Some s) | _ \<Rightarrow> Inl e) = Inr x"
  by (cases x) (simp_all add: opt_str_def)

lemma member_of_value [field_simps_of]:
  "member_of e risk_value all_risks (VStr (risk_value r)) = Inr r"
  "member_of e status_value all_statuses (VStr (status_value s)) = Inr s"
  "member_of e mode_value [ISOLATED_WORKTREE, NATIVE_SHARED] (VStr (mode_value m)) = Inr m"
proof -
  show "member_of e risk_value all_risks (VStr (risk_value r)) = Inr r"
    by (cases r) (simp_all add: member_of_def all_risks_def)
  show "member_of e status_value all_statuses (VStr (status_value s)) = Inr s"
    by (cases s) (simp_all add: member_of_def all_statuses_def)
  show "member_of e mode_value [ISOLATED_WORKTREE, NATIVE_SHARED] (VStr (mode_value m)) = Inr m"
    by (cases m) (simp_all add: member_of_def)
qed

lemma expect_raises [raises_intros]:
  "raises_only {e} (expect_mapping e v)" "raises_only {e} (expect_str e d k)"
  "raises_only {e} (expect_optional_str e d k)" "raises_only {e} (expect_str_tuple e d k b)"
  "raises_only {e} (expect_bool e d k)" "raises_only {e} (expect_int e d k)"
  "raises_only {e} (expect_schema_version e d)" "raises_only {e} (expect_list e d k)"
  "raises_only {e} (member_of e f ms v)" "raises_only {e} (check_mode e m x y)"
proof -
  have items: "raises_only {e} (str_items e v)" for v
    by (cases v) (auto simp: str_items_def intro!: raises_only_rmap split: pyval.splits)
  show "raises_only {e} (expect_str_tuple e d k b)" by (simp add: expect_str_tuple_def items)
qed (auto simp: expect_mapping_def expect_str_def expect_optional_str_def expect_bool_def expect_int_def
    expect_schema_version_def expect_list_def member_of_def check_mode_def guard_def split: pyval.splits option.splits)

lemma contract_raises [raises_intros]:
  "raises_only {e} (expect_execution_mode e d)" "raises_only {e} (contract_ref_from_dict e v)"
  "raises_only {e} (test_result_from_dict e v)"
  unfolding expect_execution_mode_def contract_ref_from_dict_def test_result_from_dict_def
  by (intro raises_intros raises_only_simps; simp)+

lemma parse_raises:
  "raises_only {TaskInvalidError} (task_from_dict v)" "raises_only {HandoffInvalidError} (handoff_from_dict v)"
  unfolding task_from_dict_def handoff_from_dict_def Let_def
  by (intro raises_intros raises_only_simps; simp)+

lemma expect_str_Inr: "expect_str e d k = Inr s \<longleftrightarrow> dict_get d k = VStr s \<and> \<not> blank s"
  by (auto simp: expect_str_def split: pyval.splits)

lemma expect_schema_version_Inr: "expect_schema_version e d = Inr n \<Longrightarrow> n = 1"
  by (auto simp: expect_schema_version_def split: if_splits)

lemma check_mode_Inr:
  "check_mode e m b w = Inr u \<longleftrightarrow> (case m of ISOLATED_WORKTREE \<Rightarrow> b \<noteq> None \<and> w \<noteq> None | NATIVE_SHARED \<Rightarrow> b = None \<and> w = None)"
  by (cases m) (auto simp: check_mode_def)

lemma contract_ref_parsed: "contract_ref_from_dict e v = Inr r \<Longrightarrow> parsable_ref r"
  by (auto simp: contract_ref_from_dict_def rbind_Inr_iff expect_str_Inr parsable_ref_def)

lemma test_result_parsed: "test_result_from_dict e v = Inr r \<Longrightarrow> parsable_test r"
  by (auto simp: test_result_from_dict_def rbind_Inr_iff expect_str_Inr parsable_test_def)

lemma items_parsed:
  "rmap (contract_ref_from_dict e) raw = Inr rs \<Longrightarrow> list_all parsable_ref rs"
  "rmap (test_result_from_dict e) raw = Inr ts \<Longrightarrow> list_all parsable_test ts"
  by (erule rmap_Inr_list_all, erule contract_ref_parsed) (erule rmap_Inr_list_all, erule test_result_parsed)

lemma task_parsed: "task_from_dict v = Inr t \<Longrightarrow> parsable_task t"
  unfolding task_from_dict_def Let_def rbind_Inr_iff
  by (elim exE conjE, drule items_parsed, drule expect_schema_version_Inr, unfold check_mode_Inr expect_str_Inr sum.inject,
      hypsubst, simp add: parsable_task_def cong: execution_mode.case_cong)

lemma handoff_parsed: "handoff_from_dict v = Inr h \<Longrightarrow> parsable_handoff h"
  unfolding handoff_from_dict_def Let_def rbind_Inr_iff
  by (elim exE conjE, drule items_parsed, drule expect_schema_version_Inr, unfold expect_str_Inr sum.inject,
      hypsubst, simp add: parsable_handoff_def)

lemma task_fields:
  "expect_mapping e (VDict d) = Inr d"
  "dict_has (task_to_dict t) ''risk_class''" "dict_has (task_to_dict t) ''status''"
  "member_of e risk_value all_risks (dict_get (task_to_dict t) ''risk_class'') = Inr (risk_class t)"
  "member_of e status_value all_statuses (dict_get (task_to_dict t) ''status'') = Inr (status t)"
  "expect_list e (task_to_dict t) ''shared_contracts'' = Inr (map contract_ref_to_dict (shared_contracts t))"
  "expect_execution_mode e (task_to_dict t) = Inr (execution_mode t)"
  "expect_optional_str e (task_to_dict t) ''branch'' = Inr (branch t)"
  "expect_optional_str e (task_to_dict t) ''worktree'' = Inr (worktree t)"
  "expect_str_tuple e (task_to_dict t) ''non_goals'' b = Inr (non_goals t)"
  "expect_str_tuple e (task_to_dict t) ''allowed_paths'' b = Inr (allowed_paths t)"
  "expect_str_tuple e (task_to_dict t) ''forbidden_paths'' b = Inr (forbidden_paths t)"
  "expect_str_tuple e (task_to_dict t) ''dependencies'' b = Inr (dependencies t)"
  "expect_str_tuple e (task_to_dict t) ''acceptance_criteria'' b = Inr (acceptance_criteria t)"
  "expect_str_tuple e (task_to_dict t) ''required_tests'' b = Inr (required_tests t)"
  "expect_str_tuple e (task_to_dict t) ''handoff_requirements'' b = Inr (handoff_requirements t)"
  "expect_str_tuple e (task_to_dict t) ''integration_paths'' b = Inr (integration_paths t)"
  "expect_int e (task_to_dict t) ''revision'' = Inr (revision t)"
  by (simp_all add: task_to_dict_def expect_mapping_def expect_list_def expect_execution_mode_def
      expect_optional_str_def expect_str_tuple_def expect_int_def field_simps_of)

lemma task_texts:
  "expect_schema_version e (task_to_dict t) = (if contract_schema_version t = 1 then Inr 1 else Inl e)"
  "dict_get (task_to_dict t) ''task_id'' = VStr (task_id t)" "dict_get (task_to_dict t) ''title'' = VStr (title t)"
  "dict_get (task_to_dict t) ''objective'' = VStr (objective t)" "dict_get (task_to_dict t) ''scope'' = VStr (task_scope t)"
  "dict_get (task_to_dict t) ''base_sha'' = VStr (base_sha t)" "dict_get (task_to_dict t) ''owner'' = VStr (owner t)"
  by (simp_all add: task_to_dict_def expect_schema_version_def equals_one_def field_simps_of)

lemma contract_ref_again:
  "contract_ref_from_dict e (contract_ref_to_dict r) = (if parsable_ref r then Inr r else Inl e)"
  by (cases r) (simp add: contract_ref_from_dict_def contract_ref_to_dict_def parsable_ref_def expect_mapping_def
      expect_str_def expect_optional_str_def field_simps_of)

lemma test_outcome_text: "r \<in> set TEST_RESULTS \<Longrightarrow> \<not> blank r"
  by (auto simp: TEST_RESULTS_def blank_def codes_def py_space_def)

lemma test_result_again:
  "test_result_from_dict e (test_result_to_dict r) = (if parsable_test r then Inr r else Inl e)"
  by (cases r) (simp add: test_result_from_dict_def test_result_to_dict_def parsable_test_def expect_mapping_def
      expect_str_def field_simps_of guard_def test_outcome_text)

lemma rmap_again:
  assumes "\<And>x. f (g x) = (if P x then Inr x else Inl e)"
  shows "rmap f (map g xs) = (if list_all P xs then Inr xs else Inl e)"
  by (induction xs) (auto simp: assms)

lemma items_again:
  "rmap (contract_ref_from_dict e) (map contract_ref_to_dict rs) = (if list_all parsable_ref rs then Inr rs else Inl e)"
  "rmap (test_result_from_dict e) (map test_result_to_dict ts) = (if list_all parsable_test ts then Inr ts else Inl e)"
  by (rule rmap_again, rule contract_ref_again) (rule rmap_again, rule test_result_again)

lemma task_again: "task_from_dict (VDict (task_to_dict t)) = (if parsable_task t then Inr t else Inl TaskInvalidError)"
proof (cases "parsable_task t")
  case True
  then have "check_mode e (execution_mode t) (branch t) (worktree t) = Inr ()" for e
    by (cases "execution_mode t") (auto simp: parsable_task_def check_mode_def)
  with True show ?thesis
    by (simp add: task_from_dict_def task_fields task_texts expect_str_def parsable_task_def
        items_again cong: rbind_weak_cong)
next
  case False
  have "task_from_dict (VDict (task_to_dict t)) \<noteq> Inr u" for u
  proof
    assume "task_from_dict (VDict (task_to_dict t)) = Inr u"
    then have "parsable_task t"
      by (auto simp: task_from_dict_def Let_def rbind_Inr_iff task_fields task_texts expect_str_Inr check_mode_Inr
          items_again parsable_task_def split: if_splits)
    with False show False ..
  qed
  then show ?thesis using parse_raises(1) [of "VDict (task_to_dict t)"] False
    by (cases "task_from_dict (VDict (task_to_dict t))") auto
qed

lemma handoff_fields:
  "expect_list e (handoff_to_dict h) ''tests'' = Inr (map test_result_to_dict (handoff_tests h))"
  "expect_optional_str e (handoff_to_dict h) ''lint'' = Inr (lint h)"
  "expect_optional_str e (handoff_to_dict h) ''typecheck'' = Inr (typecheck h)"
  "expect_optional_str e (handoff_to_dict h) ''ci'' = Inr (ci_status h)"
  "expect_str_tuple e (handoff_to_dict h) ''commits'' b = Inr (handoff_commits h)"
  "expect_str_tuple e (handoff_to_dict h) ''changed_files'' b = Inr (changed_files h)"
  "expect_str_tuple e (handoff_to_dict h) ''dependencies'' b = Inr (handoff_dependencies h)"
  "expect_str_tuple e (handoff_to_dict h) ''known_issues'' b = Inr (known_issues h)"
  "expect_str_tuple e (handoff_to_dict h) ''deferred_items'' b = Inr (deferred_items h)"
  "expect_bool e (handoff_to_dict h) ''ownership_compliance'' = Inr (ownership_compliance h)"
  "expect_bool e (handoff_to_dict h) ''ready_for_integration'' = Inr (ready_for_integration h)"
  "expect_schema_version e (handoff_to_dict h) = (if handoff_schema_version h = 1 then Inr 1 else Inl e)"
  "dict_get (handoff_to_dict h) ''task_id'' = VStr (handoff_task_id h)"
  "dict_get (handoff_to_dict h) ''agent'' = VStr (handoff_agent h)"
  "dict_get (handoff_to_dict h) ''branch'' = VStr (handoff_branch h)"
  "dict_get (handoff_to_dict h) ''base_sha'' = VStr (handoff_base_sha h)"
  "dict_get (handoff_to_dict h) ''head_sha'' = VStr (handoff_head_sha h)"
  by (simp_all add: handoff_to_dict_def expect_list_def expect_optional_str_def expect_str_tuple_def expect_bool_def
      expect_schema_version_def equals_one_def field_simps_of)

lemma handoff_again:
  "handoff_from_dict (VDict (handoff_to_dict h)) = (if parsable_handoff h then Inr h else Inl HandoffInvalidError)"
proof (cases "parsable_handoff h")
  case True
  then show ?thesis
    by (simp add: handoff_from_dict_def task_fields(1) handoff_fields expect_str_def parsable_handoff_def items_again
        cong: rbind_weak_cong)
next
  case False
  have "handoff_from_dict (VDict (handoff_to_dict h)) \<noteq> Inr u" for u
  proof
    assume "handoff_from_dict (VDict (handoff_to_dict h)) = Inr u"
    then have "parsable_handoff h"
      by (auto simp: handoff_from_dict_def Let_def rbind_Inr_iff task_fields(1) handoff_fields expect_str_Inr
          items_again parsable_handoff_def split: if_splits)
    with False show False ..
  qed
  then show ?thesis using parse_raises(2) [of "VDict (handoff_to_dict h)"] False
    by (cases "handoff_from_dict (VDict (handoff_to_dict h))") auto
qed

text \<open>The document a plan is kept in.\<close>

definition plan_document :: "task_contract list \<Rightarrow> pyval" where
  "plan_document ts = VDict [field_of ''schema_version'' (VInt 1), field_of ''tasks'' (VList (map (\<lambda>t. VDict (task_to_dict t)) ts))]"

lemma plan_again:
  "parse_task_plan (plan_document ts) =
     (if ts \<noteq> [] \<and> list_all parsable_task ts then Inr ts else Inl TaskInvalidError)"
proof -
  have "rmap task_from_dict (map (\<lambda>t. VDict (task_to_dict t)) ts) =
      (if list_all parsable_task ts then Inr ts else Inl TaskInvalidError)"
    by (rule rmap_again) (rule task_again)
  then show ?thesis
    by (simp add: parse_task_plan_def plan_document_def expect_mapping_def expect_schema_version_def equals_one_def
        field_simps_of)
qed

lemma plan_parsed:
  assumes "parse_task_plan v = Inr ts"
  shows "ts \<noteq> [] \<and> list_all parsable_task ts"
proof -
  from assms obtain d where d: "(case dict_get d ''tasks'' of
      VList xs \<Rightarrow> if xs = [] then Inl TaskInvalidError else rmap task_from_dict xs
    | _ \<Rightarrow> Inl TaskInvalidError) = Inr ts"
    unfolding parse_task_plan_def Let_def rbind_Inr_iff by blast
  then obtain xs where xs: "xs \<noteq> []" "rmap task_from_dict xs = Inr ts"
    by (cases "dict_get d ''tasks''") (auto split: if_splits)
  then have "list_all parsable_task ts" by (auto elim: rmap_Inr_list_all dest: task_parsed)
  moreover have "length ts = length xs" using xs(2) by (induction xs arbitrary: ts) (auto simp: rbind_Inr_iff)
  ultimately show ?thesis using xs(1) by auto
qed

section \<open>The property\<close>

text \<open>
  C30:
  The interchange format loses nothing. Whatever document arrives, parsing a task or a handoff
  ends in a contract whose required texts are not blank, whose version is 1 and whose branch
  and worktree are both declared or both absent as its mode demands, or in the one error of
  its kind; and a contract, a handoff or a plan that satisfies these conditions is parsed back
  from its own rendering unchanged, while one that does not is refused.
\<close>

theorem contracts_roundtrip:
  "(case task_from_dict v of Inl e \<Rightarrow> e = TaskInvalidError | Inr u \<Rightarrow> parsable_task u) \<and>
   (case handoff_from_dict v of Inl e \<Rightarrow> e = HandoffInvalidError | Inr k \<Rightarrow> parsable_handoff k) \<and>
   (case parse_task_plan v of Inl e \<Rightarrow> e = TaskInvalidError | Inr us \<Rightarrow> us \<noteq> [] \<and> list_all parsable_task us) \<and>
   task_from_dict (VDict (task_to_dict t)) = (if parsable_task t then Inr t else Inl TaskInvalidError) \<and>
   handoff_from_dict (VDict (handoff_to_dict h)) = (if parsable_handoff h then Inr h else Inl HandoffInvalidError) \<and>
   parse_task_plan (plan_document ts) = (if ts \<noteq> [] \<and> list_all parsable_task ts then Inr ts else Inl TaskInvalidError)"
proof (intro conjI)
  have plan_raises: "raises_only {TaskInvalidError} (parse_task_plan v)"
    unfolding parse_task_plan_def Let_def
    by (intro raises_intros raises_only_simps)
      (auto split: pyval.splits intro!: raises_only_rmap parse_raises)
  show "case task_from_dict v of Inl e \<Rightarrow> e = TaskInvalidError | Inr u \<Rightarrow> parsable_task u"
    using parse_raises(1) [of v] task_parsed [of v] by (auto split: sum.splits)
  show "case handoff_from_dict v of Inl e \<Rightarrow> e = HandoffInvalidError | Inr k \<Rightarrow> parsable_handoff k"
    using parse_raises(2) [of v] handoff_parsed [of v] by (auto split: sum.splits)
  show "case parse_task_plan v of Inl e \<Rightarrow> e = TaskInvalidError | Inr us \<Rightarrow> us \<noteq> [] \<and> list_all parsable_task us"
    using plan_raises plan_parsed [of v] by (auto split: sum.splits)
qed (rule task_again handoff_again plan_again)+

end
