(* ===== verification/Agent_Validation.thy ===== *)
theory Agent_Validation
  imports Agent_Plan Agent_Contracts
begin

text \<open>
  The gates of the agent tooling (\<open>tools/agent/validation.py\<close>): whether a task is well formed,
  whether a handoff stays inside it, and whether the delivery may be integrated. The evidence
  the repository gives (\<open>tools/agent/evidence.py\<close>, git subprocesses) is an argument. Errors
  are the codes of their classes.
\<close>

abbreviation BranchInvalidError :: exn where
  "BranchInvalidError \<equiv> Foreign ''agent.branch_invalid''"
abbreviation BranchMismatchError :: exn where
  "BranchMismatchError \<equiv> Foreign ''agent.branch_mismatch''"
abbreviation BaseStaleError :: exn where
  "BaseStaleError \<equiv> Foreign ''agent.base_stale''"
abbreviation BaseNotAncestorError :: exn where
  "BaseNotAncestorError \<equiv> Foreign ''agent.base_not_ancestor''"
abbreviation HandoffEvidenceMismatchError :: exn where
  "HandoffEvidenceMismatchError \<equiv> Foreign ''agent.handoff_evidence_mismatch''"
abbreviation IntegrationContextIncompleteError :: exn where
  "IntegrationContextIncompleteError \<equiv> Foreign ''agent.integration_context_incomplete''"
abbreviation OwnershipViolationError :: exn where
  "OwnershipViolationError \<equiv> Foreign ''agent.ownership_violation''"
abbreviation ProtectedPathConflictError :: exn where
  "ProtectedPathConflictError \<equiv> Foreign ''agent.protected_path_conflict''"
abbreviation ConflictRejectedError :: exn where
  "ConflictRejectedError \<equiv> Foreign ''agent.conflict_rejected''"
abbreviation DependencyBlockedError :: exn where
  "DependencyBlockedError \<equiv> Foreign ''agent.dependency_blocked''"
abbreviation GitStateError :: exn where
  "GitStateError \<equiv> Foreign ''agent.git_state_error''"

section \<open>Names\<close>

text \<open>A pattern that ends in \<open>$\<close> also matches before one final newline.\<close>

definition anchored :: "(pystr \<Rightarrow> bool) \<Rightarrow> pystr \<Rightarrow> bool" where
  "anchored P s \<longleftrightarrow> P s \<or> (s \<noteq> [] \<and> last s = newline \<and> P (butlast s))"

definition is_lower_hex :: "nat \<Rightarrow> bool" where
  "is_lower_hex c \<longleftrightarrow> (48 \<le> c \<and> c \<le> 57) \<or> (97 \<le> c \<and> c \<le> 102)"

definition is_lower_alnum :: "nat \<Rightarrow> bool" where
  "is_lower_alnum c \<longleftrightarrow> (48 \<le> c \<and> c \<le> 57) \<or> (97 \<le> c \<and> c \<le> 122)"

definition sha_re :: "pystr \<Rightarrow> bool" where
  "sha_re = anchored (\<lambda>s. length s = 40 \<and> list_all is_lower_hex s)"

definition owner_re :: "pystr \<Rightarrow> bool" where
  "owner_re = anchored (\<lambda>s. s \<noteq> [] \<and> length s \<le> 32 \<and> is_alnum (hd s) \<and>
     list_all (\<lambda>c. is_alnum c \<or> c \<in> {46, 95, 45}) s)"

definition branch_re :: "pystr \<Rightarrow> bool" where
  "branch_re = anchored (\<lambda>s. s \<noteq> [] \<and> length s \<le> 201 \<and> is_alnum (hd s) \<and>
     list_all (\<lambda>c. is_alnum c \<or> c \<in> {46, 95, 47, 45}) s)"

text \<open>Runs of lower-case letters and digits with single hyphens between them.\<close>

fun kebab :: "pystr \<Rightarrow> bool" where
  "kebab [] = False"
| "kebab [c] = is_lower_alnum c"
| "kebab (c # d # s) = (is_lower_alnum c \<and> (if d = 45 then kebab s else kebab (d # s)))"

definition branch_slug_re :: "pystr \<Rightarrow> bool" where
  "branch_slug_re = anchored kebab"

definition contains_text :: "pystr \<Rightarrow> pystr \<Rightarrow> bool" where
  "contains_text s part \<longleftrightarrow> list_ex (\<lambda>n. starts_with (drop n s) part) [0..<Suc (length s)]"

definition text_ends :: "pystr \<Rightarrow> pystr \<Rightarrow> bool" where
  "text_ends s suffix \<longleftrightarrow> starts_with (rev s) (rev suffix)"

definition validate_sha :: "exn \<Rightarrow> pystr \<Rightarrow> exn + unit" where
  "validate_sha e s = guard (sha_re s) e"

definition validate_task_id :: "pystr \<Rightarrow> exn + unit" where
  "validate_task_id i = guard (task_id_re i) TaskInvalidError"

definition validate_owner :: "pystr \<Rightarrow> exn + unit" where
  "validate_owner o' = guard (owner_re o') TaskInvalidError"

definition validate_branch_name :: "pystr \<Rightarrow> pystr \<Rightarrow> pystr \<Rightarrow> agent_config \<Rightarrow> exn + unit" where
  "validate_branch_name b i o' c =
     (if \<not> branch_re b \<or> contains_text b (codes ''..'') \<or> starts_with b [slash] \<or> text_ends b [slash] \<or>
         text_ends b (codes ''.lock'') \<or> contains_text b (codes ''//'')
      then Inl BranchInvalidError
      else if is_main_agent c o' then Inr ()
      else if \<not> starts_with b (branch_prefix c) then Inl BranchInvalidError
      else let remainder = drop (length (branch_prefix c)) b in
        if \<not> starts_with remainder (i @ codes ''-'') then Inl BranchInvalidError
        else guard (branch_slug_re (drop (length i + 1) remainder)) BranchInvalidError)"

section \<open>Tasks\<close>

definition normalized_patterns :: "pystr list \<Rightarrow> exn + pystr list" where
  "normalized_patterns ps = rmap (\<lambda>p. normalize_repo_pattern (Some p)) ps"

definition validate_execution_coordinates :: "task_contract \<Rightarrow> agent_config \<Rightarrow> exn + unit" where
  "validate_execution_coordinates t c =
     (if execution_mode t = NATIVE_SHARED then guard (branch t = None \<and> worktree t = None) TaskInvalidError
      else if integration_paths t \<noteq> [] then Inl TaskInvalidError
      else case (branch t, worktree t) of
        (Some b, Some w) \<Rightarrow>
          rbind (validate_branch_name b (task_id t) (owner t) c) (\<lambda>_.
          rbind (normalize_repo_path (Some w)) (\<lambda>w'. guard (is_within w' (worktrees_dir c)) TaskInvalidError))
      | _ \<Rightarrow> Inl TaskInvalidError)"

text \<open>Python's \<open>or\<close> on optional strings: the empty string counts as absent.\<close>

definition py_or :: "pystr option \<Rightarrow> pystr option \<Rightarrow> pystr option" where
  "py_or x y = (if x \<in> {None, Some []} then y else x)"

definition validate_integration_pattern :: "agent_config \<Rightarrow> pystr list \<Rightarrow> pystr \<Rightarrow> exn + unit" where
  "validate_integration_pattern c forbidden p =
     (if py_or (py_or (protected_overlap c p) (public_truth_overlap c p)) (safety_overlap c p) \<noteq> None
      then Inl ProtectedPathConflictError
      else if list_ex (patterns_overlap p) forbidden then Inl TaskInvalidError
      else if is_glob p then Inl TaskInvalidError else Inr ())"

definition validate_ref :: "contract_ref \<Rightarrow> exn + unit" where
  "validate_ref r = rbind (normalize_repo_path (Some (ref_path r))) (\<lambda>_.
     case ref_sha r of None \<Rightarrow> Inr () | Some s \<Rightarrow> validate_sha TaskInvalidError s)"

definition validate_task :: "task_contract \<Rightarrow> agent_config \<Rightarrow> exn + unit" where
  "validate_task t c =
     rbind (validate_task_id (task_id t)) (\<lambda>_.
     rbind (guard (contract_schema_version t = 1) TaskInvalidError) (\<lambda>_.
     rbind (validate_owner (owner t)) (\<lambda>_.
     rbind (validate_sha TaskInvalidError (base_sha t)) (\<lambda>_.
     rbind (validate_execution_coordinates t c) (\<lambda>_.
     rbind (guard (1 \<le> revision t) TaskInvalidError) (\<lambda>_.
     rbind (guard (allowed_paths t \<noteq> []) TaskInvalidError) (\<lambda>_.
     rbind (normalized_patterns (allowed_paths t)) (\<lambda>allowed.
     rbind (normalized_patterns (forbidden_paths t)) (\<lambda>forbidden.
     rbind (normalized_patterns (integration_paths t)) (\<lambda>integ.
     rbind (guard (\<not> list_ex (\<lambda>p. list_ex (patterns_overlap p) forbidden) allowed) TaskInvalidError) (\<lambda>_.
     rbind (guard (\<not> list_ex (\<lambda>p. protected_overlap c p \<noteq> None \<and> \<not> is_main_agent c (owner t)) allowed)
       ProtectedPathConflictError) (\<lambda>_.
     rbind (rmap (validate_integration_pattern c forbidden) integ) (\<lambda>_.
     rbind (rmap validate_ref (shared_contracts t)) (\<lambda>_.
     rbind (rmap validate_task_id (dependencies t)) (\<lambda>_.
     rbind (guard (required_tests t \<noteq> []) TaskInvalidError) (\<lambda>_.
     rbind (guard (acceptance_criteria t \<noteq> []) TaskInvalidError) (\<lambda>_.
     guard (handoff_requirements t \<noteq> []) TaskInvalidError)))))))))))))))))"

section \<open>Handoffs\<close>

definition outside_surface :: "pystr list \<Rightarrow> pystr list \<Rightarrow> pystr \<Rightarrow> bool" where
  "outside_surface allowed forbidden p \<longleftrightarrow>
     matching_pattern p allowed = None \<or> matching_pattern p forbidden \<noteq> None"

definition ownership_violations :: "task_contract \<Rightarrow> pystr list \<Rightarrow> exn + pystr list" where
  "ownership_violations t files =
     rbind (normalized_patterns (ownership_surface t)) (\<lambda>allowed.
     rbind (normalized_patterns (forbidden_paths t)) (\<lambda>forbidden.
     rbind (rmap (\<lambda>raw. normalize_repo_path (Some raw)) files) (\<lambda>paths.
       Inr (filter (outside_surface allowed forbidden) paths))))"

definition validate_ownership_or_raise :: "pystr list \<Rightarrow> task_contract \<Rightarrow> exn + unit" where
  "validate_ownership_or_raise files t =
     rbind (ownership_violations t files) (\<lambda>offending. guard (offending = []) OwnershipViolationError)"

definition PASSED :: pystr where "PASSED = codes ''passed''"

definition validate_tests :: "handoff_contract \<Rightarrow> task_contract \<Rightarrow> exn + unit" where
  "validate_tests h t =
     (let names = map test_name (handoff_tests h);
          results = map_of (rev (map (\<lambda>r. (test_name r, test_outcome r)) (handoff_tests h))) in
      if handoff_tests h = [] then Inl HandoffInvalidError
      else if \<not> distinct names then Inl HandoffInvalidError
      else if \<not> ready_for_integration h then Inr ()
      else if list_ex (\<lambda>n. results n = None) (required_tests t) then Inl HandoffInvalidError
      else if list_ex (\<lambda>n. results n \<noteq> Some PASSED) (required_tests t) then Inl HandoffInvalidError
      else guard (ownership_compliance h) HandoffInvalidError)"

definition validate_handoff :: "handoff_contract \<Rightarrow> task_contract \<Rightarrow> agent_config \<Rightarrow> exn + unit" where
  "validate_handoff h t c =
     rbind (guard (handoff_schema_version h = 1) HandoffInvalidError) (\<lambda>_.
     rbind (guard (handoff_task_id h = task_id t) HandoffInvalidError) (\<lambda>_.
     rbind (guard (execution_mode t = NATIVE_SHARED \<or> Some (handoff_branch h) = branch t) BranchMismatchError) (\<lambda>_.
     rbind (validate_sha HandoffInvalidError (handoff_base_sha h)) (\<lambda>_.
     rbind (validate_sha HandoffInvalidError (handoff_head_sha h)) (\<lambda>_.
     rbind (guard (handoff_head_sha h \<noteq> handoff_base_sha h) HandoffInvalidError) (\<lambda>_.
     rbind (rmap (\<lambda>raw. normalize_repo_path (Some raw)) (changed_files h)) (\<lambda>_.
     rbind (validate_ownership_or_raise (changed_files h) t) (\<lambda>_.
     validate_tests h t))))))))"

definition check_base :: "handoff_contract \<Rightarrow> task_contract \<Rightarrow> pystr \<Rightarrow> exn + unit" where
  "check_base h t integration_head =
     rbind (validate_sha HandoffInvalidError (handoff_base_sha h)) (\<lambda>_.
     rbind (validate_sha TaskInvalidError (base_sha t)) (\<lambda>_.
     rbind (validate_sha TaskInvalidError integration_head) (\<lambda>_.
     rbind (guard (handoff_base_sha h = base_sha t) HandoffInvalidError) (\<lambda>_.
     guard (execution_mode t = NATIVE_SHARED \<or> handoff_base_sha h = integration_head) BaseStaleError))))"

definition assert_frozen_unchanged :: "task_contract \<Rightarrow> task_contract \<Rightarrow> exn + unit" where
  "assert_frozen_unchanged before after =
     (if frozen_snapshot before = frozen_snapshot after then Inr ()
      else if revision before < revision after then Inr () else Inl TaskInvalidError)"

section \<open>Evidence\<close>

record repository_evidence =
  ev_branch :: pystr
  ev_base_sha :: pystr
  ev_head_sha :: pystr
  base_is_ancestor :: bool
  clean :: bool
  history_touched_paths :: "pystr list"
  ev_commits :: "pystr list"
  base_on_integration_head :: bool
  head_on_integration_head :: bool

text \<open>
  \<open>split(maxsplit=1)[0]\<close>, and \<open>lower\<close> on the ASCII letters: a commit id of the repository
  has no other characters, and a token that has some matches none whatever its lower case.
\<close>

definition commit_token :: "pystr \<Rightarrow> pystr" where
  "commit_token s = takeWhile (\<lambda>c. \<not> py_space c) (dropWhile py_space s)"

definition ascii_lower :: "pystr \<Rightarrow> pystr" where
  "ascii_lower s = map (\<lambda>c. if 65 \<le> c \<and> c \<le> 90 then c + 32 else c) s"

definition reported_tokens :: "handoff_contract \<Rightarrow> pystr list" where
  "reported_tokens h = filter (\<lambda>s. s \<noteq> []) (map (\<lambda>e. ascii_lower (commit_token e)) (handoff_commits h))"

definition commit_hits :: "pystr list \<Rightarrow> pystr \<Rightarrow> pystr list" where
  "commit_hits actual token = filter (\<lambda>sha. starts_with sha token) actual"

definition commit_evidence_blocker :: "handoff_contract \<Rightarrow> repository_evidence \<Rightarrow> exn option" where
  "commit_evidence_blocker h e =
     (if \<not> ready_for_integration h then None
      else
        let reported = reported_tokens h; actual = map ascii_lower (ev_commits e);
            matched = map (\<lambda>token. hd (commit_hits actual token)) reported in
        if \<not> distinct reported then Some HandoffEvidenceMismatchError
        else if list_ex (\<lambda>token. length (commit_hits actual token) \<noteq> 1) reported then Some HandoffEvidenceMismatchError
        else if card (set matched) \<noteq> length reported then Some HandoffEvidenceMismatchError
        else if set matched \<noteq> set actual then Some HandoffEvidenceMismatchError else None)"

definition when_not :: "bool \<Rightarrow> exn \<Rightarrow> exn list" where
  "when_not b e = (if b then [] else [e])"

definition verify_repository_evidence :: "handoff_contract \<Rightarrow> task_contract \<Rightarrow> repository_evidence \<Rightarrow> exn + exn list" where
  "verify_repository_evidence h t e =
     (let bound = (if execution_mode t = NATIVE_SHARED
            then when_not (ev_branch e = handoff_branch h) BranchMismatchError @
                 when_not (base_on_integration_head e) BaseStaleError @
                 when_not (head_on_integration_head e) BaseStaleError
            else when_not (Some (ev_branch e) = branch t) BranchMismatchError) @
          when_not (ev_base_sha e = base_sha t) HandoffInvalidError @
          when_not (ev_head_sha e = handoff_head_sha h) HandoffInvalidError @
          when_not (base_is_ancestor e) BaseNotAncestorError @
          when_not (clean e) GitStateError in
      rbind (ownership_violations t (history_touched_paths e)) (\<lambda>offending.
      rbind (rmap (\<lambda>raw. normalize_repo_path (Some raw)) (changed_files h)) (\<lambda>files.
        Inr (bound @ when_not (offending = []) OwnershipViolationError @
          when_not (sort files = sort (history_touched_paths e)) HandoffEvidenceMismatchError @
          (case commit_evidence_blocker h e of None \<Rightarrow> [] | Some x \<Rightarrow> [x])))))"

section \<open>Integration\<close>

record integration_context =
  integration_head_sha :: pystr
  context_graph :: "task_graph option"
  context_plan :: "orchestration_plan option"

definition build_context :: "task_contract list \<Rightarrow> agent_config \<Rightarrow> pystr \<Rightarrow> bool \<Rightarrow> exn + integration_context" where
  "build_context ts c head include_plan =
     rbind (build_graph ts) (\<lambda>g.
     if include_plan then
       rbind (plan ts c) (\<lambda>p. Inr \<lparr>integration_head_sha = head, context_graph = Some g, context_plan = Some p\<rparr>)
     else Inr \<lparr>integration_head_sha = head, context_graph = Some g, context_plan = None\<rparr>)"

definition dependency_blocker :: "task_contract \<Rightarrow> integration_context \<Rightarrow> exn + exn option" where
  "dependency_blocker t ctx =
     (case context_graph ctx of None \<Rightarrow> Inr None
      | Some g \<Rightarrow>
        if map_of (task_index g) (task_id t) = None then Inr (Some IntegrationContextIncompleteError)
        else rbind (unsatisfied_dependencies g (task_id t)) (\<lambda>u.
          if u = [] then Inr None
          else rbind (unsatisfiable_dependencies g (task_id t)) (\<lambda>_. Inr (Some DependencyBlockedError))))"

text \<open>The conflicts a task still waits for: the other task of each, unless it is done or later.\<close>

definition waiting_on :: "pystr \<Rightarrow> orchestration_plan \<Rightarrow> pystr list" where
  "waiting_on i p =
     (let positions = map_of (rev (zip (plan_order p) [0..<length (plan_order p)]));
          at_or_0 = (\<lambda>j. case positions j of Some n \<Rightarrow> n | None \<Rightarrow> 0);
          statuses = map_of (rev (map (\<lambda>e. (entry_id e, entry_status e)) (entries p)));
          others = map (\<lambda>k. if left_task k = i then right_task k else left_task k)
            (filter (\<lambda>k. i = left_task k \<or> i = right_task k) (plan_blocking_conflicts p))
      in filter (\<lambda>j. statuses j \<noteq> Some DONE \<and> at_or_0 j < at_or_0 i) others)"

definition conflict_blocker :: "task_contract \<Rightarrow> integration_context \<Rightarrow> exn + exn option" where
  "conflict_blocker t ctx =
     (case context_plan ctx of None \<Rightarrow> Inr None
      | Some p \<Rightarrow>
        if waiting_on (task_id t) p = [] then Inr None
        else rbind (rmap (subscript (rev (map (\<lambda>e. (entry_id e, entry_status e)) (entries p)))) (waiting_on (task_id t) p))
          (\<lambda>_. Inr (Some ConflictRejectedError)))"

record integration_readiness =
  ready_task_id :: pystr
  ready :: bool
  blockers_found :: "exn list"
  ready_evidence :: "repository_evidence option"

text \<open>\<open>_gate\<close> and the \<open>try\<close> around the evidence: only the tooling's own errors are recorded.\<close>

definition tooling_error :: "exn \<Rightarrow> bool" where
  "tooling_error e \<longleftrightarrow> (case e of Foreign c \<Rightarrow> take 6 c = ''agent.'' | _ \<Rightarrow> False)"

definition gate_check :: "exn + unit \<Rightarrow> exn + exn list" where
  "gate_check r = (case r of Inr _ \<Rightarrow> Inr [] | Inl e \<Rightarrow> if tooling_error e then Inr [e] else Inl e)"

definition evaluate_integration ::
    "handoff_contract \<Rightarrow> task_contract \<Rightarrow> agent_config \<Rightarrow> integration_context \<Rightarrow>
      (exn + repository_evidence) option \<Rightarrow> exn + integration_readiness" where
  "evaluate_integration h t c ctx repo_evidence =
     rbind (gate_check (validate_handoff h t c)) (\<lambda>b1.
     rbind (gate_check (check_base h t (integration_head_sha ctx))) (\<lambda>b2.
     let b3 = when_not (status t = HANDOFF_READY) TaskInvalidError in
     rbind (case repo_evidence of
         None \<Rightarrow> Inr ([], None)
       | Some (Inr e) \<Rightarrow> Inr ([], Some e)
       | Some (Inl x) \<Rightarrow> if tooling_error x then Inr ([x], None) else Inl x) (\<lambda>(b4, collected).
     rbind (case collected of None \<Rightarrow> Inr [IntegrationContextIncompleteError]
       | Some e \<Rightarrow> verify_repository_evidence h t e) (\<lambda>b5.
     rbind (case context_graph ctx of None \<Rightarrow> Inr [IntegrationContextIncompleteError]
       | Some _ \<Rightarrow> rbind (dependency_blocker t ctx) (\<lambda>d. Inr (case d of None \<Rightarrow> [] | Some x \<Rightarrow> [x]))) (\<lambda>b6.
     let b7 = when_not (context_plan ctx \<noteq> None) IntegrationContextIncompleteError in
     rbind (conflict_blocker t ctx) (\<lambda>k.
     let b8 = (case k of None \<Rightarrow> [] | Some x \<Rightarrow> [x]);
         b9 = when_not (ready_for_integration h) HandoffInvalidError;
         found = b1 @ b2 @ b3 @ b4 @ b5 @ b6 @ b7 @ b8 @ b9 in
     Inr \<lparr>ready_task_id = task_id t, ready = (found = []), blockers_found = found, ready_evidence = collected\<rparr>))))))"

section \<open>What a ready verdict proves\<close>

text \<open>The delivery is the one the task asked for, and the repository says so.\<close>

definition delivery_bound :: "handoff_contract \<Rightarrow> task_contract \<Rightarrow> pystr \<Rightarrow> repository_evidence \<Rightarrow> bool" where
  "delivery_bound h t head e \<longleftrightarrow>
     handoff_task_id h = task_id t \<and> status t = HANDOFF_READY \<and> ready_for_integration h \<and>
     handoff_base_sha h = base_sha t \<and> ev_base_sha e = base_sha t \<and> ev_head_sha e = handoff_head_sha h \<and>
     handoff_head_sha h \<noteq> handoff_base_sha h \<and> base_is_ancestor e \<and> clean e \<and>
     (if execution_mode t = NATIVE_SHARED
      then ev_branch e = handoff_branch h \<and> base_on_integration_head e \<and> head_on_integration_head e
      else branch t = Some (ev_branch e) \<and> branch t = Some (handoff_branch h) \<and> handoff_base_sha h = head)"

text \<open>Some pattern of the task's surface owns the path, and no forbidden pattern holds it.\<close>

definition pattern_holds :: "pystr \<Rightarrow> pystr \<Rightarrow> bool" where
  "pattern_holds path pattern \<longleftrightarrow>
     (case normalize_repo_pattern (Some pattern) of Inl _ \<Rightarrow> False | Inr g \<Rightarrow> matches_pattern path g)"

definition owned_path :: "task_contract \<Rightarrow> pystr \<Rightarrow> bool" where
  "owned_path t raw \<longleftrightarrow>
     (case normalize_repo_path (Some raw) of Inl _ \<Rightarrow> False
      | Inr path \<Rightarrow> list_ex (pattern_holds path) (ownership_surface t) \<and>
          \<not> list_ex (pattern_holds path) (forbidden_paths t))"

definition history_owned :: "handoff_contract \<Rightarrow> task_contract \<Rightarrow> repository_evidence \<Rightarrow> bool" where
  "history_owned h t e \<longleftrightarrow> list_all (owned_path t) (history_touched_paths e) \<and>
     (case rmap (\<lambda>raw. normalize_repo_path (Some raw)) (changed_files h) of
        Inl _ \<Rightarrow> False | Inr files \<Rightarrow> mset files = mset (history_touched_paths e))"

definition tests_passed :: "handoff_contract \<Rightarrow> task_contract \<Rightarrow> bool" where
  "tests_passed h t \<longleftrightarrow> distinct (map test_name (handoff_tests h)) \<and>
     list_all (\<lambda>n. list_ex (\<lambda>r. test_name r = n \<and> test_outcome r = PASSED) (handoff_tests h)) (required_tests t)"

definition commits_matched :: "handoff_contract \<Rightarrow> repository_evidence \<Rightarrow> bool" where
  "commits_matched h e \<longleftrightarrow>
     (let actual = map ascii_lower (ev_commits e); tokens = reported_tokens h in
      distinct tokens \<and> list_all (\<lambda>token. length (commit_hits actual token) = 1) tokens \<and>
      bij_betw (\<lambda>token. hd (commit_hits actual token)) (set tokens) (set actual))"

lemma when_not_Nil [simp]: "when_not b e = [] \<longleftrightarrow> b"
  by (simp add: when_not_def)

lemma gate_check_Nil [simp]: "gate_check r = Inr [] \<longleftrightarrow> (\<exists>u. r = Inr u)"
  by (auto simp: gate_check_def split: sum.splits)

lemma matching_pattern_None: "matching_pattern p ps = None \<longleftrightarrow> \<not> list_ex (matches_pattern p) ps"
  by (auto simp: matching_pattern_def find_None_iff list_ex_iff)

lemma normalized_patterns_hold:
  "normalized_patterns ps = Inr qs \<Longrightarrow> list_ex (matches_pattern path) qs \<longleftrightarrow> list_ex (pattern_holds path) ps"
  unfolding normalized_patterns_def
  by (induction ps arbitrary: qs) (auto simp: rbind_Inr_iff pattern_holds_def)

lemma ownership_violations_none:
  assumes "ownership_violations t files = Inr []"
  shows "list_all (owned_path t) files"
proof -
  from assms obtain allowed forbidden paths where
    n: "normalized_patterns (ownership_surface t) = Inr allowed" "normalized_patterns (forbidden_paths t) = Inr forbidden"
    and r: "rmap (\<lambda>raw. normalize_repo_path (Some raw)) files = Inr paths"
    and ok: "\<forall>p\<in>set paths. \<not> outside_surface allowed forbidden p"
    by (auto simp: ownership_violations_def rbind_Inr_iff filter_empty_conv)
  note hold = normalized_patterns_hold [OF n(1)] normalized_patterns_hold [OF n(2)]
  from r ok show ?thesis
    by (induction files arbitrary: paths)
      (auto simp: rbind_Inr_iff owned_path_def outside_surface_def matching_pattern_None hold)
qed

lemma validate_tests_ready:
  assumes "validate_tests h t = Inr u" "ready_for_integration h"
  shows "tests_passed h t" "ownership_compliance h"
proof -
  let ?ps = "map (\<lambda>r. (test_name r, test_outcome r)) (handoff_tests h)"
  from assms have d: "distinct (map test_name (handoff_tests h))"
    and ok: "\<forall>n\<in>set (required_tests t). map_of (rev ?ps) n = Some PASSED" and "ownership_compliance h"
    by (auto simp: validate_tests_def Let_def list_ex_iff split: if_splits)
  then show "ownership_compliance h" by simp
  have "map_of (rev ?ps) n = Some PASSED \<Longrightarrow> list_ex (\<lambda>r. test_name r = n \<and> test_outcome r = PASSED) (handoff_tests h)" for n
    by (drule map_of_SomeD) (auto simp: list_ex_iff)
  with d ok show "tests_passed h t" by (auto simp: tests_passed_def list_all_iff)
qed

lemma commit_evidence_none:
  assumes "commit_evidence_blocker h e = None" "ready_for_integration h"
  shows "commits_matched h e"
proof -
  let ?hit = "\<lambda>token. hd (commit_hits (map ascii_lower (ev_commits e)) token)"
  from assms have d: "distinct (reported_tokens h)"
    and one: "list_all (\<lambda>token. length (commit_hits (map ascii_lower (ev_commits e)) token) = 1) (reported_tokens h)"
    and card: "card (?hit ` set (reported_tokens h)) = length (reported_tokens h)"
    and all: "?hit ` set (reported_tokens h) = set (map ascii_lower (ev_commits e))"
    by (auto simp: commit_evidence_blocker_def Let_def list_ex_iff list_all_iff split: if_splits)
  from card distinct_card [OF d] have "inj_on ?hit (set (reported_tokens h))" by (intro eq_card_imp_inj_on) auto
  with d one all show ?thesis by (simp add: commits_matched_def Let_def bij_betw_def)
qed

text \<open>What a plan holds: the order, the conflicts, and one entry for every task.\<close>

lemma plan_parts:
  assumes p: "plan ts c = Inr p" and order: "integration_order \<lparr>tasks = ts\<rparr> c = Inr order"
    and ok: "ids_ok ts" "deps_ok ts" and o: "set order = set (ids_of ts)"
  shows "plan_order p = order" "conflicts p = classify_all ts c"
    "map (\<lambda>e. (entry_id e, entry_status e)) (entries p) = map (\<lambda>i. (i, derived_of ts i)) order"
proof -
  let ?rd = "map (\<lambda>t. (task_id t, derived ts t)) ts"
  have d: "distinct (ids_of ts)" using ok by (simp add: ids_ok_def)
  have st: "map_of ?rd i = Some (derived_of ts i)" if "i \<in> set order" for i
    using derived_of(3) [OF d] that o by blast
  from p obtain es df rp over where es: "rmap (plan_entry c (dict_of (map (\<lambda>t. (task_id t, t)) ts)) ?rd df rp over) order = Inr es"
    and pe: "entries p = es" and "plan_order p = order" "conflicts p = classify_all ts c"
    by (auto simp: plan_def rbind_Inr_iff build_graph_eq readiness_eq [OF ok] order Let_def split: if_splits prod.splits)
  then show "plan_order p = order" "conflicts p = classify_all ts c" by simp_all
  from es show "map (\<lambda>e. (entry_id e, entry_status e)) (entries p) = map (\<lambda>i. (i, derived_of ts i)) order"
    unfolding pe by (rule rmap_map) (auto simp: plan_entry_def subscript_def rbind_Inr_iff st split: option.splits)
qed

lemma unsatisfied_none:
  assumes d: "distinct (ids_of ts)" and u: "u \<in> set ts" and none: "unsatisfied_dependencies \<lparr>tasks = ts\<rparr> (task_id u) = Inr []"
  shows "list_all (is_done ts) (dependencies u)"
proof -
  from none index_of(2) [OF d u] obtain ds where ds: "rmap (subscript (task_index \<lparr>tasks = ts\<rparr>)) (dependencies u) = Inr ds"
    "\<forall>x\<in>set ds. status x = DONE"
    by (auto simp: unsatisfied_dependencies_def dependencies_of_def require_task_def rbind_Inr_iff filter_empty_conv
        SATISFIED_DEPENDENCY_STATUSES_def)
  have "is_done ts i" if "subscript (task_index \<lparr>tasks = ts\<rparr>) i = Inr x" "status x = DONE" for i x
    using that unfolding index_of(1) [OF d] subscript_def
    by (auto simp: is_done_def list_ex_iff dest!: map_of_SomeD split: option.splits)
  with ds(2) rmap_Inr_mem [OF ds(1)] show ?thesis by (force simp: list_all_iff)
qed

lemma waiting_on_none:
  assumes p: "plan ts c = Inr p" and order: "integration_order \<lparr>tasks = ts\<rparr> c = Inr order"
    and ok: "ids_ok ts" "deps_ok ts" and o: "mset order = mset (ids_of ts)" and none: "waiting_on (task_id u) p = []"
    and l: "l \<in> set ts" and u: "u \<in> set ts" and k: "\<not> auto_resolvable (classify_pair l u c)"
    and before: "place order (task_id l) < place order (task_id u)"
  shows "status l = DONE"
proof -
  have d: "distinct (ids_of ts)" using ok by (simp add: ids_ok_def)
  have so: "set order = set (ids_of ts)" and dist: "distinct order"
    using o d by (auto dest: mset_eq_setD mset_eq_imp_distinct_iff)
  note parts = plan_parts [OF p order ok so]
  have ids: "task_id v \<in> set order" if "v \<in> set ts" for v using that so by (auto simp: ids_of_def)
  have pos: "map_of (rev (zip order [0..<length order])) i = Some (place order i)" if "i \<in> set order" for i
    using map_of_rev_distinct [of "zip order [0..<length order]"] dist zip_position [OF that, of 0] by simp
  have st: "map_of (rev (map (\<lambda>i. (i, derived_of ts i)) order)) i = Some (derived_of ts i)" if "i \<in> set order" for i
    using map_of_rev_distinct [of "map (\<lambda>i. (i, derived_of ts i)) order"] dist that
    by (simp add: comp_def map_of_map_keys)
  have "task_id l \<noteq> task_id u" using before by auto
  then obtain k where "k \<in> set (plan_blocking_conflicts p)"
    "left_task k = task_id l \<and> right_task k = task_id u \<or> left_task k = task_id u \<and> right_task k = task_id l"
  proof -
    from classify_all_pair [OF l u \<open>task_id l \<noteq> task_id u\<close>, of c] obtain k where
      mem: "k \<in> set (classify_all ts c)" and "k = classify_pair l u c \<or> k = classify_pair u l c" by blast
    then have "\<not> auto_resolvable k"
      "left_task k = task_id l \<and> right_task k = task_id u \<or> left_task k = task_id u \<and> right_task k = task_id l"
      using k pair_level_sym [of u l c] by (auto simp: auto_resolvable_iff)
    with mem that show thesis by (auto simp: plan_blocking_conflicts_def parts(2))
  qed
  then have "task_id l \<in> set (map (\<lambda>k. if left_task k = task_id u then right_task k else left_task k)
      (filter (\<lambda>k. task_id u = left_task k \<or> task_id u = right_task k) (plan_blocking_conflicts p)))"
    using \<open>task_id l \<noteq> task_id u\<close> by (auto intro!: image_eqI [where x = k])
  with none before pos [OF ids [OF l]] pos [OF ids [OF u]]
  have "map_of (rev (map (\<lambda>i. (i, derived_of ts i)) order)) (task_id l) = Some DONE"
    unfolding waiting_on_def Let_def parts(1,3) filter_empty_conv by fastforce
  with st [OF ids [OF l]] derived_of(2) [OF d l] have "derived ts l = DONE" by simp
  then show ?thesis by (auto simp: derived_def split: if_splits)
qed

lemma verify_evidence_none:
  assumes "verify_repository_evidence h t e = Inr []" "validate_handoff h t c = Inr u" "check_base h t head = Inr v"
    "status t = HANDOFF_READY" "ready_for_integration h"
  shows "delivery_bound h t head e" "history_owned h t e" "tests_passed h t" "commits_matched h e"
proof -
  from assms(1) obtain files where f: "ownership_violations t (history_touched_paths e) = Inr []"
    "rmap (\<lambda>raw. normalize_repo_path (Some raw)) (changed_files h) = Inr files"
    "sort files = sort (history_touched_paths e)" "commit_evidence_blocker h e = None"
    and bound: "ev_base_sha e = base_sha t" "ev_head_sha e = handoff_head_sha h" "base_is_ancestor e" "clean e"
      "if execution_mode t = NATIVE_SHARED
       then ev_branch e = handoff_branch h \<and> base_on_integration_head e \<and> head_on_integration_head e
       else Some (ev_branch e) = branch t"
    by (auto simp: verify_repository_evidence_def Let_def rbind_Inr_iff split: if_splits option.splits)
  from assms(2) have vh: "handoff_task_id h = task_id t" "execution_mode t = NATIVE_SHARED \<or> Some (handoff_branch h) = branch t"
    "handoff_head_sha h \<noteq> handoff_base_sha h" "validate_tests h t = Inr u"
    by (auto simp: validate_handoff_def rbind_Inr_iff)
  from assms(3) have cb: "handoff_base_sha h = base_sha t"
    "execution_mode t = NATIVE_SHARED \<or> handoff_base_sha h = head"
    by (auto simp: check_base_def rbind_Inr_iff)
  show "delivery_bound h t head e"
    using bound vh cb assms(4,5) by (auto simp: delivery_bound_def)
  have "mset files = mset (history_touched_paths e)" using f(3) by (metis mset_sort)
  with ownership_violations_none [OF f(1)] f(2) show "history_owned h t e" by (simp add: history_owned_def)
  show "tests_passed h t" using validate_tests_ready [OF vh(4) assms(5)] by simp
  show "commits_matched h e" using commit_evidence_none [OF f(4) assms(5)] .
qed

lemma ready_parts:
  assumes "evaluate_integration h t c ctx ev = Inr r" "ready r"
  obtains e u v where "ev = Some (Inr e)" "verify_repository_evidence h t e = Inr []" "validate_handoff h t c = Inr u"
    "check_base h t (integration_head_sha ctx) = Inr v" "status t = HANDOFF_READY" "ready_for_integration h"
    "dependency_blocker t ctx = Inr None" "conflict_blocker t ctx = Inr None"
proof -
  from assms(1) obtain b1 b2 b4 col b5 b6 k where
    1: "gate_check (validate_handoff h t c) = Inr b1" "gate_check (check_base h t (integration_head_sha ctx)) = Inr b2"
    and 4: "(case ev of None \<Rightarrow> Inr ([], None) | Some (Inr e) \<Rightarrow> Inr ([], Some e)
       | Some (Inl x) \<Rightarrow> if tooling_error x then Inr ([x], None) else Inl x) = Inr (b4, col)"
    and 5: "(case col of None \<Rightarrow> Inr [IntegrationContextIncompleteError]
       | Some e \<Rightarrow> verify_repository_evidence h t e) = Inr b5"
    and 6: "(case context_graph ctx of None \<Rightarrow> Inr [IntegrationContextIncompleteError]
       | Some _ \<Rightarrow> rbind (dependency_blocker t ctx) (\<lambda>d. Inr (case d of None \<Rightarrow> [] | Some x \<Rightarrow> [x]))) = Inr b6"
    and 8: "conflict_blocker t ctx = Inr k"
    and r: "ready r \<longleftrightarrow> b1 @ b2 @ when_not (status t = HANDOFF_READY) TaskInvalidError @ b4 @ b5 @ b6 @
      when_not (context_plan ctx \<noteq> None) IntegrationContextIncompleteError @
      (case k of None \<Rightarrow> [] | Some x \<Rightarrow> [x]) @ when_not (ready_for_integration h) HandoffInvalidError = []"
    unfolding evaluate_integration_def Let_def rbind_Inr_iff split_paired_Ex prod.case
    by (elim exE conjE) (drule Inr_inject, hypsubst, simp)
  from r assms(2) have nil: "b1 = []" "b2 = []" "b4 = []" "b5 = []" "b6 = []" "k = None"
    "status t = HANDOFF_READY" "ready_for_integration h"
    by (simp_all split: option.splits)
  from 5 nil obtain e where e: "col = Some e" "verify_repository_evidence h t e = Inr []"
    by (cases col) auto
  with 4 nil have "ev = Some (Inr e)" by (auto split: option.splits sum.splits if_splits)
  moreover from 6 nil have "dependency_blocker t ctx = Inr None"
    by (auto simp: rbind_Inr_iff split: option.splits)
  ultimately show thesis using that e(2) 1 8 nil by auto
qed

text \<open>
  C28:
  A handoff is judged ready only when the repository and the task set prove it. Against the
  full context of a set of tasks, a ready verdict means: evidence was collected, and it binds
  the delivery to the task's base, branch and head, on the current integration head; every path
  any commit of the delivery touched is owned by the task and not forbidden to it, and the
  handoff reports exactly these paths; every required test is reported once and passed; the
  reported commits are the commits of the range, one for one; and the task of that id in the set
  may land: its dependencies are done, and so is every conflicting task that the integration
  order places before it.
\<close>

theorem ready_verdict_is_proved:
  assumes "build_context ts c head True = Inr ctx" and "evaluate_integration h t c ctx ev = Inr r" and "ready r"
  shows "\<exists>e order u. ev = Some (Inr e) \<and> delivery_bound h t head e \<and> history_owned h t e
    \<and> tests_passed h t \<and> commits_matched h e
    \<and> integration_order \<lparr>tasks = ts\<rparr> c = Inr order \<and> u \<in> set ts \<and> task_id u = task_id t
    \<and> may_start c order \<lparr>tasks = ts\<rparr> u"
proof -
  from assms(1) obtain g p where "build_graph ts = Inr g" and p: "plan ts c = Inr p"
    and ctx: "ctx = \<lparr>integration_head_sha = head, context_graph = Some g, context_plan = Some p\<rparr>"
    by (auto simp: build_context_def rbind_Inr_iff)
  with built_graph [of ts c ts] obtain order where g: "g = \<lparr>tasks = ts\<rparr>" and ok: "ids_ok ts" "deps_ok ts"
    and order: "integration_order \<lparr>tasks = ts\<rparr> c = Inr order" "mset order = mset (ids_of ts)"
    by (cases g) (auto simp: canonical_order_def)
  have d: "distinct (ids_of ts)" using ok by (simp add: ids_ok_def)
  from assms(2,3) obtain e u v where e: "ev = Some (Inr e)"
    and v: "verify_repository_evidence h t e = Inr []" "validate_handoff h t c = Inr u"
      "check_base h t (integration_head_sha ctx) = Inr v" "status t = HANDOFF_READY" "ready_for_integration h"
    and b: "dependency_blocker t ctx = Inr None" "conflict_blocker t ctx = Inr None"
    by (rule ready_parts)
  note evidence = verify_evidence_none [OF v]
  from b(1) have "task_id t \<in> set (ids_of ts)" and un: "unsatisfied_dependencies \<lparr>tasks = ts\<rparr> (task_id t) = Inr []"
    by (auto simp: dependency_blocker_def ctx g rbind_Inr_iff index_of(1) [OF d] ids_of_def map_of_eq_None_iff
        split: if_splits)
  then obtain w where w: "w \<in> set ts" "task_id w = task_id t" by (auto elim: ids_ofE)
  from b(2) have "waiting_on (task_id w) p = []"
    by (auto simp: conflict_blocker_def ctx rbind_Inr_iff w(2) split: if_splits)
  note landed = waiting_on_none [OF p order(1) ok order(2) this _ w(1)]
  have "may_start c order \<lparr>tasks = ts\<rparr> w"
    using unsatisfied_none [OF d w(1)] un landed by (auto simp: may_start_def list_all_iff w(2))
  with e evidence order(1) w show ?thesis by (auto simp: ctx)
qed

text \<open>A done task, one that depends on it, and the delivery of the latter.\<close>

definition sample_delivery :: task_contract where
  "sample_delivery = (sample_task [66] [codes ''src/**''])
     \<lparr>dependencies := [[65]], base_sha := replicate 40 97, branch := Some (codes ''agent/B-x''),
      required_tests := [codes ''unit''], status := HANDOFF_READY\<rparr>"

definition sample_handoff :: handoff_contract where
  "sample_handoff =
     \<lparr>handoff_task_id = [66], handoff_agent = [], handoff_branch = codes ''agent/B-x'',
      handoff_base_sha = replicate 40 97, handoff_head_sha = replicate 40 98,
      handoff_commits = [codes ''bbb done''], changed_files = [codes ''src/a.py''],
      ownership_compliance = True,
      handoff_tests = [\<lparr>test_name = codes ''unit'', test_command = [], test_outcome = PASSED\<rparr>],
      lint = None, typecheck = None, ci_status = None, handoff_dependencies = [], known_issues = [],
      deferred_items = [], ready_for_integration = True, handoff_schema_version = 1\<rparr>"

definition sample_evidence :: repository_evidence where
  "sample_evidence =
     \<lparr>ev_branch = codes ''agent/B-x'', ev_base_sha = replicate 40 97, ev_head_sha = replicate 40 98,
      base_is_ancestor = True, clean = True, history_touched_paths = [codes ''src/a.py''],
      ev_commits = [replicate 40 98], base_on_integration_head = True, head_on_integration_head = False\<rparr>"

definition sample_task_set :: "task_contract list" where
  "sample_task_set = [sample_task [65] [codes ''src/*''] \<lparr>status := DONE\<rparr>, sample_delivery]"

theorem ready_verdict_is_proved_witness:
  "\<exists>ctx r order u. build_context sample_task_set sample_config (replicate 40 97) True = Inr ctx
    \<and> evaluate_integration sample_handoff sample_delivery sample_config ctx (Some (Inr sample_evidence)) = Inr r
    \<and> ready r \<and> history_owned sample_handoff sample_delivery sample_evidence
    \<and> u \<in> set sample_task_set \<and> task_id u = [66] \<and> may_start sample_config order \<lparr>tasks = sample_task_set\<rparr> u"
proof -
  have "(case build_context sample_task_set sample_config (replicate 40 97) True of Inl _ \<Rightarrow> False
      | Inr ctx \<Rightarrow> (case evaluate_integration sample_handoff sample_delivery sample_config ctx (Some (Inr sample_evidence)) of
          Inl _ \<Rightarrow> False | Inr r \<Rightarrow> ready r))" by code_simp
  then obtain ctx r where *: "build_context sample_task_set sample_config (replicate 40 97) True = Inr ctx"
    "evaluate_integration sample_handoff sample_delivery sample_config ctx (Some (Inr sample_evidence)) = Inr r" "ready r"
    by (auto split: sum.splits)
  have "task_id sample_delivery = [66]" by (simp add: sample_delivery_def sample_task_def)
  with ready_verdict_is_proved [OF *] * show ?thesis by auto
qed

end
