(* ===== verification/Ci_Gate.thy ===== *)
theory Ci_Gate
  imports Agent_Tasks Frames
begin

text \<open>
  The quality gate of the repository: which validation jobs a change needs
  (\<open>tools/ci/classify_changes.py\<close>) and whether the results of the jobs pass
  (\<open>tools/ci/evaluate_gate.py\<close>), with the environment the workflow connects them by
  (\<open>.github/workflows/ci.yml\<close>). Running \<open>git\<close> is a parameter.
\<close>

section \<open>Rule tables\<close>

definition CRITICAL_PATTERNS :: "pystr list" where
  "CRITICAL_PATTERNS = map codes
     [''.github/workflows/**'', ''tools/ci/**'', ''scripts/**'', ''runtime/canx/safety/**'',
      ''docs/architecture/**'', ''AGENTS.md'', ''PRD.md'', ''SPEC.md'', ''pyproject.toml'', ''package.json'',
      ''pnpm-lock.yaml'', ''pnpm-workspace.yaml'', ''apps/desktop/src-tauri/Cargo.toml'',
      ''apps/desktop/src-tauri/Cargo.lock'', ''.agent/config.json'', ''.agent/schemas/**'',
      ''docs/engineering/INTEGRATION_POLICY.md'', ''docs/engineering/MULTI_AGENT_PROTOCOL.md'']"

definition RUST_PATTERNS :: "pystr list" where
  "RUST_PATTERNS = map codes [''apps/desktop/src-tauri/**'']"

definition FRONTEND_PATTERNS :: "pystr list" where
  "FRONTEND_PATTERNS = map codes
     [''apps/desktop/src/**'', ''apps/desktop/index.html'', ''apps/desktop/package.json'',
      ''apps/desktop/vite.config.ts'', ''apps/desktop/tsconfig.json'', ''apps/desktop/eslint.config.js'']"

definition RUNTIME_PATTERNS :: "pystr list" where
  "RUNTIME_PATTERNS = map codes [''runtime/**'', ''tests/**'', ''tools/agent/**'', ''.agent/**'']"

definition SHARED_CONTRACT_PATTERNS :: "pystr list" where
  "SHARED_CONTRACT_PATTERNS = map codes
     [''runtime/canx/api/**'', ''runtime/canx/domain/**'', ''runtime/canx/transport/**'']"

definition DESKTOP_CONTROL_API_PATTERNS :: "pystr list" where
  "DESKTOP_CONTROL_API_PATTERNS = map codes [''runtime/canx/api/app.py'']"

definition TAURI_IPC_RUST_PATTERNS :: "pystr list" where
  "TAURI_IPC_RUST_PATTERNS = map codes [''apps/desktop/src-tauri/src/**'']"

definition TAURI_IPC_FRONTEND_PATTERNS :: "pystr list" where
  "TAURI_IPC_FRONTEND_PATTERNS = map codes
     [''apps/desktop/src/desktop/**'', ''apps/desktop/src/runtime/runtime-client.ts'', ''apps/desktop/src/smoke/**'']"

definition DOCS_PATTERNS :: "pystr list" where
  "DOCS_PATTERNS = map codes [''docs/**'', ''*.md'']"

text \<open>\<open>fnmatchcase\<close> of a pattern without character classes; no table has one.\<close>

fun fnmatchcase :: "pystr \<Rightarrow> pystr \<Rightarrow> bool" where
  "fnmatchcase [] s = (s = [])"
| "fnmatchcase (p # ps) s =
     (if p = star then fnmatchcase ps s \<or> (case s of [] \<Rightarrow> False | c # s' \<Rightarrow> fnmatchcase (p # ps) s')
      else (case s of [] \<Rightarrow> False | c # s' \<Rightarrow> (p = question \<or> p = c) \<and> fnmatchcase ps s'))"

definition ci_match :: "pystr \<Rightarrow> pystr \<Rightarrow> bool" where
  "ci_match path pattern =
     (if ends_with pattern (codes ''/**'') then
        let prefix = take (length pattern - 3) pattern in path = prefix \<or> starts_with path (prefix @ [slash])
      else if star \<in> set pattern then fnmatchcase pattern path
      else path = pattern)"

definition matches_any :: "pystr \<Rightarrow> pystr list \<Rightarrow> bool" where
  "matches_any path patterns \<longleftrightarrow> list_ex (ci_match path) patterns"

fun drop_dot_slash :: "pystr \<Rightarrow> pystr" where
  "drop_dot_slash (a # b # s) = (if a = 46 \<and> b = 47 then drop_dot_slash s else a # b # s)"
| "drop_dot_slash s = s"

definition ci_normalise :: "pystr \<Rightarrow> pystr" where
  "ci_normalise raw = drop_dot_slash (map (\<lambda>c. if c = 92 then slash else c) (py_strip raw))"

section \<open>Classification\<close>

record ci_classification =
  runtime_required :: bool
  frontend_required :: bool
  rust_required :: bool
  full_required :: bool
  classification :: pystr
  class_reason :: pystr
  class_paths :: "pystr list"
  class_unmatched :: "pystr list"

definition all_required :: "ci_classification \<Rightarrow> bool" where
  "all_required c \<longleftrightarrow> runtime_required c \<and> frontend_required c \<and> rust_required c"

definition FULL :: pystr where "FULL = codes ''full''"
definition DOCS_ONLY :: pystr where "DOCS_ONLY = codes ''docs_only''"
definition NO_CHANGES :: pystr where "NO_CHANGES = codes ''no_changes''"

definition ci_full :: "pystr \<Rightarrow> pystr list \<Rightarrow> ci_classification" where
  "ci_full reason paths =
     \<lparr>runtime_required = True, frontend_required = True, rust_required = True, full_required = True,
      classification = FULL, class_reason = reason, class_paths = paths, class_unmatched = []\<rparr>"

text \<open>The loop over the paths, with the three flags and the paths no table knows.\<close>

fun classify_loop :: "pystr list \<Rightarrow> bool \<times> bool \<times> bool \<Rightarrow> pystr list \<Rightarrow> (bool \<times> bool \<times> bool) \<times> pystr list" where
  "classify_loop [] found unmatched = (found, unmatched)"
| "classify_loop (p # ps) (runtime, frontend, rust) unmatched =
     (let in_rust = matches_any p RUST_PATTERNS;
          in_frontend = matches_any p FRONTEND_PATTERNS;
          in_runtime = matches_any p RUNTIME_PATTERNS;
          in_shared = matches_any p SHARED_CONTRACT_PATTERNS;
          in_control = matches_any p DESKTOP_CONTROL_API_PATTERNS;
          in_ipc = matches_any p TAURI_IPC_RUST_PATTERNS;
          in_ipc_front = matches_any p TAURI_IPC_FRONTEND_PATTERNS;
          known = in_rust \<or> in_frontend \<or> in_runtime \<or> in_shared \<or> in_control \<or> in_ipc \<or> in_ipc_front
            \<or> matches_any p DOCS_PATTERNS
      in classify_loop ps
           (runtime \<or> in_runtime \<or> in_shared \<or> in_control,
            frontend \<or> in_frontend \<or> in_shared \<or> in_control \<or> in_ipc \<or> in_ipc_front,
            rust \<or> in_rust \<or> in_control \<or> in_ipc \<or> in_ipc_front)
           (if known then unmatched else unmatched @ [p]))"

fun join_plus :: "pystr list \<Rightarrow> pystr" where
  "join_plus [] = []"
| "join_plus [s] = s"
| "join_plus (s # t # ts) = s @ codes ''+'' @ join_plus (t # ts)"

definition labels_of :: "bool \<Rightarrow> bool \<Rightarrow> bool \<Rightarrow> pystr list" where
  "labels_of runtime frontend rust = map fst (filter snd
     [(codes ''runtime'', runtime), (codes ''frontend'', frontend), (codes ''rust'', rust)])"

definition classify_paths :: "pystr list \<Rightarrow> ci_classification" where
  "classify_paths paths =
     (let considered = filter (\<lambda>p. p \<noteq> []) (map ci_normalise paths) in
      if considered = [] then
        \<lparr>runtime_required = False, frontend_required = False, rust_required = False, full_required = False,
         classification = NO_CHANGES, class_reason = codes ''no changed paths'', class_paths = [], class_unmatched = []\<rparr>
      else
        let critical = filter (\<lambda>p. matches_any p CRITICAL_PATTERNS) considered in
        if critical \<noteq> [] then ci_full (codes ''critical authority changed: '' @ join_comma critical) considered
        else case classify_loop considered (False, False, False) [] of
          ((runtime, frontend, rust), unmatched) \<Rightarrow>
            if unmatched \<noteq> [] then
              \<lparr>runtime_required = True, frontend_required = True, rust_required = True, full_required = True,
               classification = FULL,
               class_reason = codes ''unrecognised path escalated to FULL CI: '' @ join_comma unmatched,
               class_paths = considered, class_unmatched = unmatched\<rparr>
            else
              \<lparr>runtime_required = runtime, frontend_required = frontend, rust_required = rust, full_required = False,
               classification = (if labels_of runtime frontend rust \<noteq> []
                 then join_plus (labels_of runtime frontend rust) else DOCS_ONLY),
               class_reason = codes ''classified from '' @ codes (decimal_nat (length considered)) @ codes '' changed path(s)'',
               class_paths = considered, class_unmatched = []\<rparr>)"

section \<open>The change set\<close>

text \<open>
  An exception is the name of its class and its text. \<open>run\<close> is \<open>subprocess.run\<close> on a command:
  it raises, or returns the exit code, the output and the errors of the command.
\<close>

type_synonym raised = "pystr \<times> pystr"

type_synonym command_runner = "pystr list \<Rightarrow> raised + int \<times> pystr \<times> pystr"

definition ClassificationError :: "pystr \<Rightarrow> raised" where
  "ClassificationError text = (codes ''ClassificationError'', text)"

fun join_space :: "pystr list \<Rightarrow> pystr" where
  "join_space [] = []"
| "join_space [s] = s"
| "join_space (s # t # ts) = s @ codes '' '' @ join_space (t # ts)"

definition ci_git :: "command_runner \<Rightarrow> pystr \<Rightarrow> pystr list \<Rightarrow> raised + pystr" where
  "ci_git run repo args =
     rbind (run ([codes ''git'', codes ''-C'', repo] @ args)) (\<lambda>(returncode, out, err).
       if returncode \<noteq> 0
       then Inl (ClassificationError (codes ''git '' @ join_space args @ codes '' failed: '' @
              (if py_strip err = [] then codes ''no stderr'' else py_strip err)))
       else Inr out)"

definition require_commit :: "command_runner \<Rightarrow> pystr \<Rightarrow> pystr \<Rightarrow> pystr \<Rightarrow> raised + pystr" where
  "require_commit run repo sha label =
     (let candidate = py_strip sha in
      if candidate = [] \<or> set candidate = {48} then Inl (ClassificationError (label @ codes '' is absent or all-zero''))
      else rbind (ci_git run repo [codes ''cat-file'', codes ''-e'', candidate @ codes ''^{commit}'']) (\<lambda>_. Inr candidate))"

definition line_break :: "nat \<Rightarrow> bool" where
  "line_break c \<longleftrightarrow> (10 \<le> c \<and> c \<le> 13) \<or> (28 \<le> c \<and> c \<le> 30) \<or> c \<in> {0x85, 0x2028, 0x2029}"

fun splitlines :: "pystr \<Rightarrow> pystr \<Rightarrow> pystr list" where
  "splitlines cur [] = (if cur = [] then [] else [rev cur])"
| "splitlines cur [c] = (if line_break c then [rev cur] else [rev (c # cur)])"
| "splitlines cur (c # d # s) =
     (if c = 13 \<and> d = 10 then rev cur # splitlines [] s
      else if line_break c then rev cur # splitlines [] (d # s)
      else splitlines (c # cur) (d # s))"

definition changed_paths :: "command_runner \<Rightarrow> pystr \<Rightarrow> pystr \<Rightarrow> pystr \<Rightarrow> raised + pystr list" where
  "changed_paths run repo base head =
     rbind (ci_git run repo [codes ''diff'', codes ''--name-only'', codes ''--no-renames'', base, head]) (\<lambda>out.
       Inr (map py_strip (filter (\<lambda>l. py_strip l \<noteq> []) (splitlines [] out))))"

definition merge_base :: "command_runner \<Rightarrow> pystr \<Rightarrow> pystr \<Rightarrow> pystr \<Rightarrow> raised + pystr" where
  "merge_base run repo base head =
     rbind (ci_git run repo [codes ''merge-base'', base, head]) (\<lambda>out.
       if py_strip out = [] then Inl (ClassificationError (codes ''no merge base between base and head''))
       else Inr (py_strip out))"

definition classify_event_raw ::
    "(pystr \<Rightarrow> pystr) \<Rightarrow> command_runner \<Rightarrow> pystr \<Rightarrow> pystr \<Rightarrow> pystr \<Rightarrow> pystr \<Rightarrow> raised + ci_classification" where
  "classify_event_raw quoted run event repo base head =
     (if event = codes ''workflow_dispatch'' then Inr (ci_full (codes ''workflow_dispatch requests full validation'') [])
      else if event = codes ''pull_request'' then
        rbind (require_commit run repo base (codes ''pull_request base'')) (\<lambda>base_sha.
        rbind (require_commit run repo head (codes ''pull_request head'')) (\<lambda>head_sha.
        rbind (merge_base run repo base_sha head_sha) (\<lambda>root.
        rbind (changed_paths run repo root head_sha) (\<lambda>paths. Inr (classify_paths paths)))))
      else if event = codes ''push'' then
        rbind (require_commit run repo base (codes ''push before'')) (\<lambda>before.
        rbind (require_commit run repo head (codes ''push head'')) (\<lambda>after.
        rbind (changed_paths run repo before after) (\<lambda>paths. Inr (classify_paths paths))))
      else Inl (ClassificationError (codes ''unsupported event '' @ quoted event)))"

definition classify_event ::
    "(pystr \<Rightarrow> pystr) \<Rightarrow> command_runner \<Rightarrow> pystr \<Rightarrow> pystr \<Rightarrow> pystr \<Rightarrow> pystr \<Rightarrow> ci_classification" where
  "classify_event quoted run event repo base head =
     (case classify_event_raw quoted run event repo base head of
        Inr c \<Rightarrow> c
      | Inl (name, txt) \<Rightarrow> ci_full (codes ''classifier_error: '' @ name @ codes '': '' @ txt) [])"

section \<open>Between the jobs\<close>

text \<open>
  The outputs of the classifier's job and the text that writes them: a true flag is written
  in lower case, a false one as Python prints it.
\<close>

definition bool_text :: "bool \<Rightarrow> pystr" where
  "bool_text b = (if b then codes ''true'' else codes ''False'')"

definition output_values :: "ci_classification \<Rightarrow> (pystr \<times> pystr) list" where
  "output_values c =
     [(codes ''runtime_required'', bool_text (runtime_required c)),
      (codes ''frontend_required'', bool_text (frontend_required c)),
      (codes ''rust_required'', bool_text (rust_required c)),
      (codes ''full_required'', bool_text (full_required c)),
      (codes ''classification'', classification c)]"

fun join_lines :: "pystr list \<Rightarrow> pystr" where
  "join_lines [] = []"
| "join_lines [s] = s"
| "join_lines (s # t # ts) = s @ newline # join_lines (t # ts)"

definition written_outputs :: "ci_classification \<Rightarrow> pystr" where
  "written_outputs c = join_lines (map (\<lambda>(k, v). k @ codes ''='' @ v) (output_values c)) @ [newline]"

text \<open>The environment the workflow gives the gate: the outputs, and the results of the jobs.\<close>

type_synonym environment = "(pystr \<times> pystr) list"

definition workflow_env :: "ci_classification \<Rightarrow> pystr \<Rightarrow> pystr \<Rightarrow> pystr \<Rightarrow> pystr \<Rightarrow> environment" where
  "workflow_env c classifier runtime frontend rust =
     (let output = \<lambda>k. (case map_of (output_values c) (codes k) of Some v \<Rightarrow> v | None \<Rightarrow> []) in
      [(codes ''CANX_CI_CLASSIFIER_RESULT'', classifier),
       (codes ''CANX_CI_CLASSIFICATION'', output ''classification''),
       (codes ''CANX_CI_FULL_REQUIRED'', output ''full_required''),
       (codes ''CANX_CI_RUNTIME_REQUIRED'', output ''runtime_required''),
       (codes ''CANX_CI_FRONTEND_REQUIRED'', output ''frontend_required''),
       (codes ''CANX_CI_RUST_REQUIRED'', output ''rust_required''),
       (codes ''CANX_CI_RUNTIME_RESULT'', runtime),
       (codes ''CANX_CI_FRONTEND_RESULT'', frontend),
       (codes ''CANX_CI_RUST_RESULT'', rust)])"

section \<open>The gate\<close>

definition CLASSIFIER_JOB :: pystr where "CLASSIFIER_JOB = codes ''change-classifier''"
definition RUNTIME_JOB :: pystr where "RUNTIME_JOB = codes ''runtime-python''"
definition FRONTEND_JOB :: pystr where "FRONTEND_JOB = codes ''frontend-typescript''"
definition RUST_JOB :: pystr where "RUST_JOB = codes ''desktop-rust''"

definition JOB_FLAGS :: "(pystr \<times> pystr) list" where
  "JOB_FLAGS = [(RUNTIME_JOB, codes ''runtime_required''), (FRONTEND_JOB, codes ''frontend_required''),
     (RUST_JOB, codes ''rust_required'')]"

definition SUCCESS :: pystr where "SUCCESS = codes ''success''"
definition SKIPPED :: pystr where "SKIPPED = codes ''skipped''"

definition ACCEPTABLE_WHEN_NOT_REQUIRED :: "pystr list" where
  "ACCEPTABLE_WHEN_NOT_REQUIRED = [SUCCESS, SKIPPED]"

text \<open>The reasons of a decision, without their wording.\<close>

datatype gate_reason =
    Not_Readable
  | Classifier_Failed "pystr option"
  | Full_Unreadable
  | Flag_Unreadable pystr
  | Required_Job_Failed pystr "pystr option"
  | Unexpected_State pystr "pystr option"
  | Label_Unreadable pystr

record gate_decision =
  gate_ok :: bool
  gate_reasons :: "gate_reason list"
  gate_label :: pystr

text \<open>
  \<open>str.lower\<close> on ASCII letters. No other character has a letter of the two words compared as
  its lower case.
\<close>

definition lower_ascii :: "pystr \<Rightarrow> pystr" where
  "lower_ascii s = map (\<lambda>c. if 65 \<le> c \<and> c \<le> 90 then c + 32 else c) s"

definition gate_bool :: "pyval option \<Rightarrow> bool option" where
  "gate_bool raw =
     (case raw of
        Some (VBool b) \<Rightarrow> Some b
      | Some (VStr t) \<Rightarrow>
          let normalised = lower_ascii (py_strip t) in
          if normalised = codes ''true'' then Some True
          else if normalised = codes ''false'' then Some False else None
      | _ \<Rightarrow> None)"

definition recognised_labels :: "bool \<Rightarrow> (pystr \<Rightarrow> bool) \<Rightarrow> pystr list" where
  "recognised_labels full required =
     (if full then [FULL]
      else let names = map (\<lambda>(job, flag). take (length flag - 9) flag) (filter (\<lambda>(job, flag). required flag) JOB_FLAGS) in
        if names = [] then [DOCS_ONLY, NO_CHANGES] else [join_plus names])"

text \<open>One turn of the loop over the jobs: what it adds to the reasons.\<close>

definition job_reasons ::
    "bool option \<Rightarrow> (pystr \<Rightarrow> bool option) \<Rightarrow> (pystr \<times> pystr) list \<Rightarrow> pystr \<times> pystr \<Rightarrow> gate_reason list" where
  "job_reasons full declared results = (\<lambda>(job, flag).
     case declared flag of None \<Rightarrow> [Flag_Unreadable flag]
     | Some requirement \<Rightarrow>
         let required = (if full = Some True then True else requirement); outcome = map_of results job in
         if required then (if outcome \<noteq> Some SUCCESS then [Required_Job_Failed job outcome] else [])
         else if outcome \<notin> Some ` set ACCEPTABLE_WHEN_NOT_REQUIRED then [Unexpected_State job outcome] else [])"

definition evaluate_gate ::
    "(pyval \<Rightarrow> pystr) \<Rightarrow> (pystr \<times> pyval) list option \<Rightarrow> (pystr \<times> pystr) list \<Rightarrow> gate_decision" where
  "evaluate_gate str_of mapping results =
     (case mapping of None \<Rightarrow> \<lparr>gate_ok = False, gate_reasons = [Not_Readable], gate_label = []\<rparr>
      | Some cls \<Rightarrow>
        let label = (case map_of cls (codes ''classification'') of None \<Rightarrow> [] | Some (VStr t) \<Rightarrow> t | Some v \<Rightarrow> str_of v);
            classifier = map_of results CLASSIFIER_JOB;
            full = gate_bool (map_of cls (codes ''full_required''));
            declared = (\<lambda>flag. gate_bool (map_of cls flag));
            reasons =
              (if classifier \<noteq> Some SUCCESS then [Classifier_Failed classifier] else []) @
              (if full = None then [Full_Unreadable] else []) @
              concat (map (job_reasons full declared results) JOB_FLAGS) @
              (case full of None \<Rightarrow> []
               | Some f \<Rightarrow>
                 if list_all (\<lambda>(job, flag). declared flag \<noteq> None) JOB_FLAGS \<and>
                    label \<notin> set (recognised_labels f (\<lambda>flag. declared flag = Some True))
                 then [Label_Unreadable label] else [])
        in \<lparr>gate_ok = (reasons = []), gate_reasons = reasons, gate_label = label\<rparr>)"

definition getenv :: "environment \<Rightarrow> string \<Rightarrow> pystr" where
  "getenv env var = (case map_of env (codes var) of Some v \<Rightarrow> v | None \<Rightarrow> [])"

definition classification_from_env :: "environment \<Rightarrow> (pystr \<times> pyval) list" where
  "classification_from_env env =
     [(codes ''classification'', VStr (getenv env ''CANX_CI_CLASSIFICATION'')),
      (codes ''full_required'', VStr (getenv env ''CANX_CI_FULL_REQUIRED'')),
      (codes ''runtime_required'', VStr (getenv env ''CANX_CI_RUNTIME_REQUIRED'')),
      (codes ''frontend_required'', VStr (getenv env ''CANX_CI_FRONTEND_REQUIRED'')),
      (codes ''rust_required'', VStr (getenv env ''CANX_CI_RUST_REQUIRED''))]"

text \<open>The command: the exit code over the environment, when no classification is passed to it.\<close>

definition gate_results :: "environment \<Rightarrow> (pystr \<times> pystr) list" where
  "gate_results env =
     [(CLASSIFIER_JOB, getenv env ''CANX_CI_CLASSIFIER_RESULT''),
      (RUNTIME_JOB, getenv env ''CANX_CI_RUNTIME_RESULT''),
      (FRONTEND_JOB, getenv env ''CANX_CI_FRONTEND_RESULT''),
      (RUST_JOB, getenv env ''CANX_CI_RUST_RESULT'')]"

definition gate_exit :: "(pyval \<Rightarrow> pystr) \<Rightarrow> environment \<Rightarrow> nat" where
  "gate_exit str_of env =
     (if gate_ok (evaluate_gate str_of (Some (classification_from_env env)) (gate_results env)) then 0 else 1)"

section \<open>What a green gate means\<close>

text \<open>
  The change set of an event, when it can be established, and the jobs it needs: all three for
  a path that is critical or that no table knows, and otherwise the union of the tables.
\<close>

definition change_set :: "command_runner \<Rightarrow> pystr \<Rightarrow> pystr \<Rightarrow> pystr \<Rightarrow> pystr \<Rightarrow> pystr list option" where
  "change_set run event repo base head =
     (let found =
        (if event = codes ''pull_request'' then
           rbind (require_commit run repo base (codes ''pull_request base'')) (\<lambda>b.
           rbind (require_commit run repo head (codes ''pull_request head'')) (\<lambda>h.
           rbind (merge_base run repo b h) (\<lambda>root. changed_paths run repo root h)))
         else if event = codes ''push'' then
           rbind (require_commit run repo base (codes ''push before'')) (\<lambda>b.
           rbind (require_commit run repo head (codes ''push head'')) (\<lambda>h. changed_paths run repo b h))
         else Inl ([], []))
      in case found of Inl _ \<Rightarrow> None | Inr paths \<Rightarrow> Some (filter (\<lambda>p. p \<noteq> []) (map ci_normalise paths)))"

datatype ci_job = Runtime_Python | Frontend_Typescript | Desktop_Rust

fun job_tables :: "ci_job \<Rightarrow> pystr list" where
  "job_tables Runtime_Python = RUNTIME_PATTERNS @ SHARED_CONTRACT_PATTERNS @ DESKTOP_CONTROL_API_PATTERNS"
| "job_tables Frontend_Typescript = FRONTEND_PATTERNS @ SHARED_CONTRACT_PATTERNS @ DESKTOP_CONTROL_API_PATTERNS @
     TAURI_IPC_RUST_PATTERNS @ TAURI_IPC_FRONTEND_PATTERNS"
| "job_tables Desktop_Rust = RUST_PATTERNS @ DESKTOP_CONTROL_API_PATTERNS @ TAURI_IPC_RUST_PATTERNS @ TAURI_IPC_FRONTEND_PATTERNS"

definition known_path :: "pystr \<Rightarrow> bool" where
  "known_path p \<longleftrightarrow> matches_any p (job_tables Runtime_Python @ job_tables Frontend_Typescript @ job_tables Desktop_Rust @ DOCS_PATTERNS)"

definition path_needs :: "ci_job \<Rightarrow> pystr \<Rightarrow> bool" where
  "path_needs j p \<longleftrightarrow> matches_any p (CRITICAL_PATTERNS @ job_tables j) \<or> \<not> known_path p"

definition job_needed :: "command_runner \<Rightarrow> pystr \<Rightarrow> pystr \<Rightarrow> pystr \<Rightarrow> pystr \<Rightarrow> ci_job \<Rightarrow> bool" where
  "job_needed run event repo base head j =
     (case change_set run event repo base head of None \<Rightarrow> True | Some paths \<Rightarrow> list_ex (path_needs j) paths)"

fun job_flag :: "ci_classification \<Rightarrow> ci_job \<Rightarrow> bool" where
  "job_flag c Runtime_Python = runtime_required c"
| "job_flag c Frontend_Typescript = frontend_required c"
| "job_flag c Desktop_Rust = rust_required c"

text \<open>A classification the gate can read: its label is the one its flags describe.\<close>

definition coherent :: "ci_classification \<Rightarrow> bool" where
  "coherent c \<longleftrightarrow>
     (if full_required c then classification c = FULL \<and> all_required c
      else if all_required c \<or> runtime_required c \<or> frontend_required c \<or> rust_required c
      then classification c = join_plus (labels_of (runtime_required c) (frontend_required c) (rust_required c))
      else classification c \<in> {DOCS_ONLY, NO_CHANGES})"

lemma matches_any_append [simp]: "matches_any p (xs @ ys) \<longleftrightarrow> matches_any p xs \<or> matches_any p ys"
  by (simp add: matches_any_def)

lemma matches_any_Nil [simp]: "\<not> matches_any p []"
  by (simp add: matches_any_def)

lemma classify_loop_spec:
  "classify_loop ps (a, b, c) un =
     ((a \<or> list_ex (\<lambda>p. matches_any p (job_tables Runtime_Python)) ps,
       b \<or> list_ex (\<lambda>p. matches_any p (job_tables Frontend_Typescript)) ps,
       c \<or> list_ex (\<lambda>p. matches_any p (job_tables Desktop_Rust)) ps), un @ filter (\<lambda>p. \<not> known_path p) ps)"
  by (induction ps "(a, b, c)" un arbitrary: a b c rule: classify_loop.induct)
    (auto simp: Let_def known_path_def)

lemma classify_paths_flag:
  "job_flag (classify_paths paths) j \<longleftrightarrow> list_ex (path_needs j) (filter (\<lambda>p. p \<noteq> []) (map ci_normalise paths))"
  by (cases j) (auto simp: classify_paths_def Let_def classify_loop_spec ci_full_def path_needs_def list_ex_iff
      filter_empty_conv)

lemma classify_paths_coherent: "coherent (classify_paths paths)"
proof -
  have "labels_of a b c = [] \<longleftrightarrow> \<not> a \<and> \<not> b \<and> \<not> c" for a b c by (simp add: labels_of_def)
  then show ?thesis
    by (auto simp: classify_paths_def Let_def coherent_def ci_full_def all_required_def split: prod.splits)
qed

lemma classify_event_flag:
  "job_flag (classify_event quoted run event repo base head) j \<longleftrightarrow> job_needed run event repo base head j"
  "coherent (classify_event quoted run event repo base head)"
proof -
  have full: "job_flag (ci_full reason paths) j" "coherent (ci_full reason paths)" for reason paths
    by (cases j; simp add: ci_full_def coherent_def all_required_def)+
  have names: "codes ''pull_request'' \<noteq> codes ''workflow_dispatch''" "codes ''push'' \<noteq> codes ''workflow_dispatch''"
    "codes ''push'' \<noteq> codes ''pull_request''"
    by (simp_all add: codes_def)
  show "job_flag (classify_event quoted run event repo base head) j \<longleftrightarrow> job_needed run event repo base head j"
    using names by (simp add: classify_event_def classify_event_raw_def job_needed_def change_set_def full
        classify_paths_flag rbind_def split: sum.splits prod.splits)
  show "coherent (classify_event quoted run event repo base head)"
    by (simp add: classify_event_def classify_event_raw_def full classify_paths_coherent rbind_def split: sum.splits prod.splits)
qed

lemma workflow_getenv [simp]:
  "getenv (workflow_env c cr r f d) ''CANX_CI_CLASSIFIER_RESULT'' = cr"
  "getenv (workflow_env c cr r f d) ''CANX_CI_RUNTIME_RESULT'' = r"
  "getenv (workflow_env c cr r f d) ''CANX_CI_FRONTEND_RESULT'' = f"
  "getenv (workflow_env c cr r f d) ''CANX_CI_RUST_RESULT'' = d"
  "getenv (workflow_env c cr r f d) ''CANX_CI_CLASSIFICATION'' = classification c"
  "getenv (workflow_env c cr r f d) ''CANX_CI_FULL_REQUIRED'' = bool_text (full_required c)"
  "getenv (workflow_env c cr r f d) ''CANX_CI_RUNTIME_REQUIRED'' = bool_text (runtime_required c)"
  "getenv (workflow_env c cr r f d) ''CANX_CI_FRONTEND_REQUIRED'' = bool_text (frontend_required c)"
  "getenv (workflow_env c cr r f d) ''CANX_CI_RUST_REQUIRED'' = bool_text (rust_required c)"
  by (simp_all add: getenv_def workflow_env_def output_values_def codes_def Let_def)

lemma gate_bool_text [simp]: "gate_bool (Some (VStr (bool_text b))) = Some b"
  by (cases b) (simp_all add: gate_bool_def bool_text_def codes_def py_strip_def py_space_def lower_ascii_def)

definition read_flags :: "(pystr \<times> pyval) list \<Rightarrow> ci_classification \<Rightarrow> bool" where
  "read_flags cls c \<longleftrightarrow> map_of cls (codes ''classification'') = Some (VStr (classification c)) \<and>
     gate_bool (map_of cls (codes ''full_required'')) = Some (full_required c) \<and>
     gate_bool (map_of cls (codes ''runtime_required'')) = Some (runtime_required c) \<and>
     gate_bool (map_of cls (codes ''frontend_required'')) = Some (frontend_required c) \<and>
     gate_bool (map_of cls (codes ''rust_required'')) = Some (rust_required c)"

lemma read_flags_env: "read_flags (classification_from_env (workflow_env c cr r f d)) c"
proof -
  have "map_of (classification_from_env env) (codes ''classification'') = Some (VStr (getenv env ''CANX_CI_CLASSIFICATION''))"
    "map_of (classification_from_env env) (codes ''full_required'') = Some (VStr (getenv env ''CANX_CI_FULL_REQUIRED''))"
    "map_of (classification_from_env env) (codes ''runtime_required'') = Some (VStr (getenv env ''CANX_CI_RUNTIME_REQUIRED''))"
    "map_of (classification_from_env env) (codes ''frontend_required'') = Some (VStr (getenv env ''CANX_CI_FRONTEND_REQUIRED''))"
    "map_of (classification_from_env env) (codes ''rust_required'') = Some (VStr (getenv env ''CANX_CI_RUST_REQUIRED''))" for env
    by (simp_all add: classification_from_env_def codes_def)
  then show ?thesis by (simp add: read_flags_def)
qed

lemma coherent_label:
  assumes "coherent c"
  shows "classification c \<in> set (recognised_labels (full_required c) (\<lambda>flag.
    flag = codes ''runtime_required'' \<and> runtime_required c \<or>
    flag = codes ''frontend_required'' \<and> frontend_required c \<or>
    flag = codes ''rust_required'' \<and> rust_required c))"
  using assms
  by (cases "runtime_required c"; cases "frontend_required c"; cases "rust_required c"; cases "full_required c")
    (simp_all add: coherent_def all_required_def recognised_labels_def JOB_FLAGS_def labels_of_def codes_def)

definition acceptable :: "bool \<Rightarrow> pystr \<Rightarrow> bool" where
  "acceptable required outcome \<longleftrightarrow> (if required then outcome = SUCCESS else outcome \<in> {SUCCESS, SKIPPED})"

lemma job_reasons_ok:
  assumes "declared flag = Some b" "map_of results job = Some out"
  shows "job_reasons full declared results (job, flag) = [] \<longleftrightarrow> acceptable (full = Some True \<or> b) out"
  using assms by (auto simp: job_reasons_def acceptable_def ACCEPTABLE_WHEN_NOT_REQUIRED_def Let_def)

lemma gate_exit_coherent:
  assumes c: "coherent c"
  shows "gate_exit str_of (workflow_env c cr r f d) = 0 \<longleftrightarrow> cr = SUCCESS \<and>
    acceptable (runtime_required c) r \<and> acceptable (frontend_required c) f \<and> acceptable (rust_required c) d"
proof -
  let ?cls = "classification_from_env (workflow_env c cr r f d)" and ?res = "gate_results (workflow_env c cr r f d)"
  let ?declared = "\<lambda>flag. gate_bool (map_of ?cls flag)"
  have flags: "?declared (codes ''full_required'') = Some (full_required c)"
    "?declared (codes ''runtime_required'') = Some (runtime_required c)"
    "?declared (codes ''frontend_required'') = Some (frontend_required c)"
    "?declared (codes ''rust_required'') = Some (rust_required c)"
    and label: "map_of ?cls (codes ''classification'') = Some (VStr (classification c))"
    using read_flags_env [of c cr r f d] by (simp_all add: read_flags_def)
  have res: "map_of ?res CLASSIFIER_JOB = Some cr" "map_of ?res RUNTIME_JOB = Some r"
    "map_of ?res FRONTEND_JOB = Some f" "map_of ?res RUST_JOB = Some d"
    by (simp_all add: gate_results_def CLASSIFIER_JOB_def RUNTIME_JOB_def FRONTEND_JOB_def RUST_JOB_def codes_def)
  have lab: "classification c \<in> set (recognised_labels (full_required c) (\<lambda>flag. ?declared flag = Some True))"
  proof -
    have "recognised_labels (full_required c) (\<lambda>flag. ?declared flag = Some True) =
        recognised_labels (full_required c) (\<lambda>flag.
          flag = codes ''runtime_required'' \<and> runtime_required c \<or>
          flag = codes ''frontend_required'' \<and> frontend_required c \<or>
          flag = codes ''rust_required'' \<and> rust_required c)"
      unfolding recognised_labels_def JOB_FLAGS_def by (simp add: flags)
    with coherent_label [OF c] show ?thesis by simp
  qed
  have full: "full_required c \<or> b \<longleftrightarrow> b" if "b \<in> {runtime_required c, frontend_required c, rust_required c}" for b
    using c that by (auto simp: coherent_def all_required_def)
  show ?thesis
    using lab full
    by (simp add: gate_exit_def evaluate_gate_def Let_def flags label res JOB_FLAGS_def job_reasons_ok [of ?declared, OF flags(2) res(2)]
        job_reasons_ok [of ?declared, OF flags(3) res(3)] job_reasons_ok [of ?declared, OF flags(4) res(4)])
qed

text \<open>
  C29:
  A green gate ran every job the change needs. Over the environment the workflow hands on from
  the classifier, whatever \<open>git\<close> answers and the event is, the gate exits with 0 exactly if the
  classifier succeeded, every job the change needs succeeded and every other job succeeded or
  was skipped. A job is needed when the change set cannot be established, or when a changed
  path is critical, is known to no table, or is listed for the job; so nothing the classifier
  does not know is ever skipped, and no skip it authorises turns the gate red.
\<close>

theorem green_gate_ran_every_needed_job:
  "gate_exit str_of (workflow_env (classify_event quoted run event repo base head) classifier runtime frontend rust) = 0 \<longleftrightarrow>
     classifier = SUCCESS \<and>
     acceptable (job_needed run event repo base head Runtime_Python) runtime \<and>
     acceptable (job_needed run event repo base head Frontend_Typescript) frontend \<and>
     acceptable (job_needed run event repo base head Desktop_Rust) rust"
  unfolding gate_exit_coherent [OF classify_event_flag(2)] classify_event_flag(1) [of quoted, symmetric] by simp

end
