(* ===== verification/Data_Model.thy ===== *)
theory Data_Model
  imports Frames
begin

text \<open>
  What a data session stores: the sessions and segments of \<open>data/model.py\<close>, the paths of
  \<open>data/session.py\<close>, the Parquet layout of \<open>data/schema.py\<close> and the gates of
  \<open>data/parquet.py\<close>. A Parquet file is its footer metadata, its columns with their types and
  its rows; what PyArrow makes of the rows handed to it is an argument. Errors are the codes
  of their classes; instants are integers.
\<close>

section \<open>Errors\<close>

text \<open>Every code of the domain's exceptions starts alike, and no other exception has one.\<close>

definition data_error :: "exn \<Rightarrow> bool" where
  "data_error e \<longleftrightarrow> (case e of Foreign c \<Rightarrow> take 5 c = ''data.'' | _ \<Rightarrow> False)"

abbreviation ParquetWriteError :: exn where
  "ParquetWriteError \<equiv> Foreign ''data.parquet_write_failed''"
abbreviation ParquetReadError :: exn where
  "ParquetReadError \<equiv> Foreign ''data.parquet_read_failed''"
abbreviation MetadataMismatch :: exn where
  "MetadataMismatch \<equiv> Foreign ''data.integrity.metadata_mismatch''"
abbreviation SchemaMismatch :: exn where
  "SchemaMismatch \<equiv> Foreign ''data.integrity.parquet_schema_mismatch''"
abbreviation FrameInvalid :: exn where
  "FrameInvalid \<equiv> Foreign ''data.integrity.frame_invalid''"
abbreviation SessionNotActive :: exn where
  "SessionNotActive \<equiv> Foreign ''data.session.not_active''"

definition invalid_field :: "string \<Rightarrow> string \<Rightarrow> exn" where
  "invalid_field scope field = Foreign (''data.'' @ scope @ ''.invalid_'' @ field)"

section \<open>UUIDs\<close>

text \<open>
  \<open>int(text, base)\<close>: white space around, a sign, the prefix of base 16, digits with single
  underscores between them. Digits are the ASCII ones.
\<close>

definition digit_value :: "nat \<Rightarrow> nat \<Rightarrow> nat option" where
  "digit_value base c =
     (let v = (if 48 \<le> c \<and> c \<le> 57 then c - 48
               else if 97 \<le> c \<and> c \<le> 122 then c - 87
               else if 65 \<le> c \<and> c \<le> 90 then c - 55 else base)
      in if v < base then Some v else None)"

fun digit_run :: "nat \<Rightarrow> nat \<Rightarrow> pystr \<Rightarrow> nat option" where
  "digit_run base acc [] = Some acc"
| "digit_run base acc (c # s) =
     (if c = 95 then (if s = [] \<or> digit_value base (hd s) = None then None else digit_run base acc s)
      else case digit_value base c of None \<Rightarrow> None | Some v \<Rightarrow> digit_run base (base * acc + v) s)"

definition parse_int :: "nat \<Rightarrow> pystr \<Rightarrow> int option" where
  "parse_int base text =
     (let t = py_strip text;
          negative = starts_with t (codes ''-'');
          u = (if negative \<or> starts_with t (codes ''+'') then tl t else t);
          prefixed = base = 16 \<and> (starts_with u (codes ''0x'') \<or> starts_with u (codes ''0X''));
          v = (if prefixed then drop 2 u else u)
      in if v = [] \<or> (\<not> prefixed \<and> hd v = 95) then None
         else map_option (\<lambda>n. if negative then - int n else int n) (digit_run base 0 v))"

text \<open>\<open>str.replace(part, '')\<close>\<close>

function remove_text :: "pystr \<Rightarrow> pystr \<Rightarrow> pystr" where
  "remove_text part s =
     (if s = [] \<or> part = [] then s
      else if starts_with s part then remove_text part (drop (length part) s)
      else hd s # remove_text part (tl s))"
  by auto
termination by (relation "measure (\<lambda>(part, s). length s)") auto

declare remove_text.simps [simp del]

definition strip_braces :: "pystr \<Rightarrow> pystr" where
  "strip_braces s = rev (dropWhile (\<lambda>c. c = 123 \<or> c = 125) (rev (dropWhile (\<lambda>c. c = 123 \<or> c = 125) s)))"

text \<open>\<open>UUID(text)\<close>, and the canonical text of the number.\<close>

definition parse_uuid :: "pystr \<Rightarrow> nat option" where
  "parse_uuid s =
     (let h = remove_text (codes ''-'') (strip_braces (remove_text (codes ''uuid:'') (remove_text (codes ''urn:'') s)))
      in if length h \<noteq> 32 then None
         else case parse_int 16 h of None \<Rightarrow> None | Some i \<Rightarrow> if 0 \<le> i \<and> i < 2 ^ 128 then Some (nat i) else None)"

definition uuid_text :: "nat \<Rightarrow> pystr" where
  "uuid_text n =
     (let h = codes (hex_digits 32 n); dash = codes ''-'' in
      take 8 h @ dash @ take 4 (drop 8 h) @ dash @ take 4 (drop 12 h) @ dash @ take 4 (drop 16 h) @ dash @ drop 20 h)"

definition normalize_uuid :: "exn \<Rightarrow> pystr \<Rightarrow> exn + pystr" where
  "normalize_uuid e s =
     (if s = [] then Inl e else case parse_uuid s of None \<Rightarrow> Inl e | Some n \<Rightarrow> Inr (uuid_text n))"

section \<open>Sessions and segments\<close>

datatype session_state = ACTIVE | COMPLETED | INTERRUPTED | FAILED

record data_session =
  ses_id :: pystr
  ses_project :: pystr
  ses_stream :: pystr
  ses_state :: session_state
  started_at :: int
  ended_at :: "int option"
  ses_frame_count :: int
  ses_segment_count :: int
  ses_first_sequence :: "int option"
  ses_last_sequence :: "int option"
  ses_first_timestamp :: "pynum option"
  ses_last_timestamp :: "pynum option"
  ses_created_at :: int
  ses_updated_at :: int

text \<open>Numbers compare by value, integers and floats alike.\<close>

definition num_float :: "pynum \<Rightarrow> pyfloat" where
  "num_float t = (case t of IntNum i \<Rightarrow> Fin (of_int i) | FloatNum x \<Rightarrow> x)"

definition num_less :: "pynum \<Rightarrow> pynum \<Rightarrow> bool" where
  "num_less a b \<longleftrightarrow> pf_less (num_float a) (num_float b)"

definition require_count :: "string \<Rightarrow> string \<Rightarrow> int \<Rightarrow> exn + unit" where
  "require_count scope field n = guard (0 \<le> n) (invalid_field scope field)"

definition require_sequence :: "int \<Rightarrow> exn + unit" where
  "require_sequence n = guard (0 \<le> n) (Foreign ''data.segment.invalid_sequence'')"

definition require_timestamp :: "pynum \<Rightarrow> exn + unit" where
  "require_timestamp t =
     (case t of
        IntNum i \<Rightarrow> if float_of_int i = None then Inl (Foreign ''OverflowError'')
          else guard (0 \<le> i) (Foreign ''data.segment.invalid_timestamp'')
      | FloatNum x \<Rightarrow> guard (isfinite x \<and> \<not> pf_less x (Fin 0)) (Foreign ''data.segment.invalid_timestamp''))"

definition require_optional_sequence_bounds :: "int option \<Rightarrow> int option \<Rightarrow> exn + unit" where
  "require_optional_sequence_bounds first last' =
     (let e = Foreign ''data.session.invalid_sequence'' in
      if (first = None) \<noteq> (last' = None) then Inl e
      else case (first, last') of
        (Some a, Some b) \<Rightarrow> rbind (require_sequence a) (\<lambda>_. rbind (require_sequence b) (\<lambda>_. guard (\<not> b < a) e))
      | _ \<Rightarrow> Inr ())"

definition require_optional_timestamp_bounds :: "pynum option \<Rightarrow> pynum option \<Rightarrow> exn + unit" where
  "require_optional_timestamp_bounds first last' =
     (let e = Foreign ''data.session.invalid_timestamp'' in
      if (first = None) \<noteq> (last' = None) then Inl e
      else case (first, last') of
        (Some a, Some b) \<Rightarrow> rbind (require_timestamp a) (\<lambda>_. rbind (require_timestamp b) (\<lambda>_. guard (\<not> num_less b a) e))
      | _ \<Rightarrow> Inr ())"

definition data_session_post_init :: "data_session \<Rightarrow> exn + data_session" where
  "data_session_post_init s =
     rbind (normalize_uuid (invalid_field ''session'' ''session_id'') (ses_id s)) (\<lambda>i.
     rbind (normalize_uuid (invalid_field ''session'' ''project_id'') (ses_project s)) (\<lambda>p.
     rbind (guard (ses_stream s \<noteq> []) (Foreign ''data.session.invalid_stream_id'')) (\<lambda>_.
     rbind (guard (\<not> (ses_state s \<in> {COMPLETED, INTERRUPTED} \<and> ended_at s = None))
       (Foreign ''data.session.ended_at_required'')) (\<lambda>_.
     rbind (require_count ''session'' ''frame_count'' (ses_frame_count s)) (\<lambda>_.
     rbind (require_count ''session'' ''segment_count'' (ses_segment_count s)) (\<lambda>_.
     rbind (require_optional_sequence_bounds (ses_first_sequence s) (ses_last_sequence s)) (\<lambda>_.
     rbind (require_optional_timestamp_bounds (ses_first_timestamp s) (ses_last_timestamp s)) (\<lambda>_.
     rbind (guard (\<not> (0 < ses_frame_count s \<and> ses_first_sequence s = None)) (Foreign ''data.session.invalid_sequence'')) (\<lambda>_.
     rbind (guard (\<not> (\<not> 0 < ses_frame_count s \<and> ses_first_sequence s \<noteq> None)) (Foreign ''data.session.invalid_sequence'')) (\<lambda>_.
       Inr (s\<lparr>ses_id := i, ses_project := p\<rparr>)))))))))))"

record data_segment =
  seg_id :: pystr
  seg_session :: pystr
  seg_index :: int
  relative_path :: pystr
  seg_frame_count :: int
  seg_first_sequence :: int
  seg_last_sequence :: int
  seg_first_timestamp :: pynum
  seg_last_timestamp :: pynum
  byte_size :: int
  seg_created_at :: int

definition require_relative_path :: "pystr \<Rightarrow> exn + unit" where
  "require_relative_path p =
     guard (p \<noteq> [] \<and> 92 \<notin> set p \<and> hd p \<noteq> slash \<and> \<not> (3 \<le> length p \<and> p ! 1 = 58 \<and> p ! 2 = slash))
       (Foreign ''data.segment.invalid_relative_path'')"

definition data_segment_post_init :: "data_segment \<Rightarrow> exn + data_segment" where
  "data_segment_post_init g =
     rbind (normalize_uuid (invalid_field ''segment'' ''segment_id'') (seg_id g)) (\<lambda>i.
     rbind (normalize_uuid (invalid_field ''segment'' ''session_id'') (seg_session g)) (\<lambda>s.
     rbind (require_count ''segment'' ''segment_index'' (seg_index g)) (\<lambda>_.
     rbind (require_relative_path (relative_path g)) (\<lambda>_.
     rbind (guard (\<not> seg_frame_count g \<le> 0) (Foreign ''data.segment.invalid_frame_count'')) (\<lambda>_.
     rbind (require_sequence (seg_first_sequence g)) (\<lambda>_.
     rbind (require_sequence (seg_last_sequence g)) (\<lambda>_.
     rbind (guard (\<not> seg_last_sequence g < seg_first_sequence g) (Foreign ''data.segment.invalid_sequence'')) (\<lambda>_.
     rbind (require_timestamp (seg_first_timestamp g)) (\<lambda>_.
     rbind (require_timestamp (seg_last_timestamp g)) (\<lambda>_.
     rbind (guard (\<not> num_less (seg_last_timestamp g) (seg_first_timestamp g)) (Foreign ''data.segment.invalid_timestamp'')) (\<lambda>_.
     rbind (guard (\<not> byte_size g \<le> 0) (Foreign ''data.segment.invalid_byte_size'')) (\<lambda>_.
       Inr (g\<lparr>seg_id := i, seg_session := s\<rparr>)))))))))))))"

record segment_header =
  header_session :: pystr
  header_stream :: pystr
  header_index :: int
  header_version :: int
  row_count :: int

definition segment_header_post_init :: "segment_header \<Rightarrow> exn + segment_header" where
  "segment_header_post_init h =
     rbind (normalize_uuid (invalid_field ''header'' ''session_id'') (header_session h)) (\<lambda>i.
     rbind (guard (header_stream h \<noteq> []) (Foreign ''data.header.invalid_stream_id'')) (\<lambda>_.
     rbind (require_count ''header'' ''segment_index'' (header_index h)) (\<lambda>_.
     rbind (require_count ''header'' ''schema_version'' (header_version h)) (\<lambda>_.
     rbind (require_count ''header'' ''row_count'' (row_count h)) (\<lambda>_.
       Inr (h\<lparr>header_session := i\<rparr>))))))"

section \<open>Paths\<close>

definition six_digits :: "nat \<Rightarrow> string" where
  "six_digits n = (let d = decimal_nat n in replicate (6 - length d) CHR ''0'' @ d)"

definition segment_filename :: "int \<Rightarrow> exn + pystr" where
  "segment_filename i = (if i < 0 then Inl ParquetWriteError else Inr (codes (six_digits (nat i) @ ''.parquet'')))"

definition session_relative_directory :: "pystr \<Rightarrow> pystr" where
  "session_relative_directory s = codes ''data'' @ slash # codes ''sessions'' @ slash # s"

definition segment_relative_path :: "pystr \<Rightarrow> int \<Rightarrow> exn + pystr" where
  "segment_relative_path s i = rbind (segment_filename i) (\<lambda>n.
     Inr (session_relative_directory s @ slash # codes ''segments'' @ slash # n))"

text \<open>\<open>(base_dir / path).resolve()\<close> on a project without symbolic links; an absolute path replaces the base_dir.\<close>

fun walk :: "pystr list \<Rightarrow> pystr list \<Rightarrow> pystr list" where
  "walk stack [] = stack"
| "walk stack (s # ss) =
     walk (if s = [] \<or> s = dot then stack else if s = dotdot then butlast stack else stack @ [s]) ss"

definition resolve_within_root :: "pystr list \<Rightarrow> pystr \<Rightarrow> exn + pystr list" where
  "resolve_within_root base_dir p =
     (let c = walk (if starts_with p [slash] then [] else base_dir) (split_slash p) in
      if take (length base_dir) c = base_dir then Inr c else Inl (Foreign ''data.integrity.path_escape''))"

section \<open>The layout of a segment file\<close>

definition FRAME_PARQUET_SCHEMA_VERSION :: int where
  "FRAME_PARQUET_SCHEMA_VERSION = 1"

definition SEGMENT_FORMAT_MARKER :: pystr where
  "SEGMENT_FORMAT_MARKER = codes ''can-x-frame-segment''"

definition FRAME_ARROW_SCHEMA :: "(string \<times> string) list" where
  "FRAME_ARROW_SCHEMA =
     [(''sequence'', ''uint64''), (''channel_id'', ''string''), (''arbitration_id'', ''uint32''),
      (''is_extended'', ''bool''), (''is_fd'', ''bool''), (''bitrate_switch'', ''bool''),
      (''error_state_indicator'', ''bool''), (''dlc'', ''uint8''), (''data'', ''binary''),
      (''direction'', ''string''), (''hardware_timestamp'', ''double''), (''host_timestamp'', ''double''),
      (''normalized_timestamp'', ''double''), (''clock_domain'', ''string''),
      (''timestamp_quality'', ''string''), (''flags'', ''uint32'')]"

definition FRAME_COLUMNS :: "string list" where
  "FRAME_COLUMNS =
     [''sequence'', ''channel_id'', ''arbitration_id'', ''is_extended'', ''is_fd'', ''bitrate_switch'',
      ''error_state_indicator'', ''dlc'', ''data'', ''direction'', ''hardware_timestamp'', ''host_timestamp'',
      ''normalized_timestamp'', ''clock_domain'', ''timestamp_quality'', ''flags'']"

record parquet_table =
  metadata :: "(string \<times> pystr) list"
  columns :: "(string \<times> string) list"
  table_rows :: "pyval list list"

definition frame_segment_metadata :: "pystr \<Rightarrow> pystr \<Rightarrow> int \<Rightarrow> (string \<times> pystr) list" where
  "frame_segment_metadata session stream i =
     [(''canx.format'', SEGMENT_FORMAT_MARKER),
      (''canx.schema_version'', codes (decimal_int FRAME_PARQUET_SCHEMA_VERSION)),
      (''canx.session_id'', session), (''canx.stream_id'', stream), (''canx.segment_index'', codes (decimal_int i))]"

definition row_of :: "frame \<Rightarrow> pyval list" where
  "row_of f =
     [VInt (sequence f), VStr (channel_id f), VInt (arbitration_id f), VBool (is_extended f), VBool (is_fd f),
      VBool (bitrate_switch f), VBool (error_state_indicator f), VInt (dlc f), VBytes (data f),
      VStr (direction_value (direction f)),
      (case hardware_timestamp f of None \<Rightarrow> VNone | Some t \<Rightarrow> num_val t), num_val (host_timestamp f),
      num_val (normalized_timestamp f), VStr (clock_domain f),
      VStr (timestamp_quality_value (timestamp_quality f)), VInt (flags f)]"

definition frames_to_table ::
    "(pyval list list \<Rightarrow> exn + pyval list list) \<Rightarrow> frame list \<Rightarrow> pystr \<Rightarrow> pystr \<Rightarrow> int \<Rightarrow> exn + parquet_table" where
  "frames_to_table arrow fs session stream i =
     (if fs = [] then Inl (Foreign ''data.integrity.empty_segment'')
      else rbind (arrow (map row_of fs)) (\<lambda>rows.
        Inr \<lparr>metadata = frame_segment_metadata session stream i, columns = FRAME_ARROW_SCHEMA, table_rows = rows\<rparr>))"

text \<open>What PyArrow documents: the float columns of a table it built hold floats, the others what was given.\<close>

definition float_value :: "pyval \<Rightarrow> pyval" where
  "float_value v = (case v of VInt i \<Rightarrow> (case float_of_int i of None \<Rightarrow> v | Some x \<Rightarrow> VFloat x) | _ \<Rightarrow> v)"

definition float_columns :: "pyval list \<Rightarrow> pyval list" where
  "float_columns r = r[10 := float_value (r ! 10), 11 := float_value (r ! 11), 12 := float_value (r ! 12)]"

definition arrow_keeps :: "(pyval list list \<Rightarrow> exn + pyval list list) \<Rightarrow> bool" where
  "arrow_keeps arrow \<longleftrightarrow> (\<forall>rows kept. arrow rows = Inr kept \<longrightarrow> kept = map float_columns rows)"

section \<open>The gates\<close>

definition require_format_marker :: "(string \<times> pystr) list \<Rightarrow> exn + unit" where
  "require_format_marker md =
     guard (map_of md ''canx.format'' = Some SEGMENT_FORMAT_MARKER) (Foreign ''data.integrity.format_mismatch'')"

definition require_supported_version :: "(string \<times> pystr) list \<Rightarrow> exn + unit" where
  "require_supported_version md =
     (let version = (case map_of md ''canx.schema_version'' of None \<Rightarrow> - 1
        | Some raw \<Rightarrow> (case parse_int 10 raw of None \<Rightarrow> - 1 | Some v \<Rightarrow> v))
      in guard (version = FRAME_PARQUET_SCHEMA_VERSION) (Foreign ''data.integrity.schema_version_unsupported''))"

definition require_identity ::
    "(string \<times> pystr) list \<Rightarrow> pystr option \<Rightarrow> pystr option \<Rightarrow> int option \<Rightarrow> exn + unit" where
  "require_identity md session stream i =
     (let check = (\<lambda>key expected. case expected of None \<Rightarrow> Inr () | Some v \<Rightarrow> guard (map_of md key = Some v) MetadataMismatch) in
      rbind (check ''canx.session_id'' session) (\<lambda>_. rbind (check ''canx.stream_id'' stream) (\<lambda>_.
        check ''canx.segment_index'' (map_option (\<lambda>n. codes (decimal_int n)) i))))"

definition require_segment_metadata ::
    "(string \<times> pystr) list \<Rightarrow> pystr option \<Rightarrow> pystr option \<Rightarrow> int option \<Rightarrow> exn + unit" where
  "require_segment_metadata md session stream i =
     rbind (require_format_marker md) (\<lambda>_. rbind (require_supported_version md) (\<lambda>_.
       require_identity md session stream i))"

definition require_canonical_layout :: "(string \<times> string) list \<Rightarrow> exn + unit" where
  "require_canonical_layout cols =
     rbind (guard (map fst cols = FRAME_COLUMNS) SchemaMismatch) (\<lambda>_.
       guard (list_all (\<lambda>(name, ty). map_of FRAME_ARROW_SCHEMA name = Some ty) cols) SchemaMismatch)"

definition enum_of :: "(pystr \<Rightarrow> exn + 'a) \<Rightarrow> pyval \<Rightarrow> exn + 'a" where
  "enum_of member v = (case v of VStr s \<Rightarrow> member s | _ \<Rightarrow> Inl value_error)"

text \<open>\<open>_row_to_frame\<close>: a row has the canonical columns, in their order.\<close>

fun frame_of_row :: "pyval list \<Rightarrow> exn + frame" where
  "frame_of_row [sq, ch, aid, ext, fd, brs, esi, n, bs, dir, hw, host, nts, cd, q, fl] =
     rbind (enum_of direction_of dir) (\<lambda>d. rbind (enum_of timestamp_quality_of q) (\<lambda>t.
       frame_post_init \<lparr>arg_sequence = sq, arg_channel_id = ch, arg_arbitration_id = aid, arg_is_extended = ext,
         arg_is_fd = fd, arg_bitrate_switch = brs, arg_error_state_indicator = esi, arg_dlc = n, arg_data = bs,
         arg_direction = Inl d, arg_hardware_timestamp = hw, arg_host_timestamp = host,
         arg_normalized_timestamp = nts, arg_clock_domain = cd, arg_timestamp_quality = Inl t, arg_flags = fl\<rparr>))"
| "frame_of_row _ = Inl (Foreign ''KeyError'')"

definition invalid_rows :: "exn \<Rightarrow> exn + 'a \<Rightarrow> exn + 'a" where
  "invalid_rows e r =
     (case r of Inr a \<Rightarrow> Inr a
      | Inl x \<Rightarrow> if x \<in> {value_error, Foreign ''TypeError'', Foreign ''KeyError''} then Inl e else Inl x)"

definition reconstruct_frames :: "pyval list list \<Rightarrow> exn + frame list" where
  "reconstruct_frames rows = invalid_rows FrameInvalid (rmap frame_of_row rows)"

definition table_to_frames ::
    "parquet_table \<Rightarrow> pystr option \<Rightarrow> pystr option \<Rightarrow> int option \<Rightarrow> exn + frame list" where
  "table_to_frames t session stream i =
     rbind (require_segment_metadata (metadata t) session stream i) (\<lambda>_.
     rbind (require_canonical_layout (columns t)) (\<lambda>_. reconstruct_frames (table_rows t)))"

text \<open>A file on disk: a Parquet table, or bytes that PyArrow cannot read as one.\<close>

record disk_file =
  content :: "parquet_table option"
  size_on_disk :: int

definition read_segment_file ::
    "disk_file option \<Rightarrow> pystr option \<Rightarrow> pystr option \<Rightarrow> int option \<Rightarrow> exn + frame list" where
  "read_segment_file f session stream i =
     (case f of None \<Rightarrow> Inl ParquetReadError
      | Some d \<Rightarrow> (case content d of None \<Rightarrow> Inl ParquetReadError | Some t \<Rightarrow> table_to_frames t session stream i))"

definition require_metadata_value :: "(string \<times> pystr) list \<Rightarrow> string \<Rightarrow> exn + pystr" where
  "require_metadata_value md key =
     (case map_of md key of None \<Rightarrow> Inl MetadataMismatch | Some v \<Rightarrow> if v = [] then Inl MetadataMismatch else Inr v)"

definition require_metadata_integer :: "(string \<times> pystr) list \<Rightarrow> string \<Rightarrow> exn + int" where
  "require_metadata_integer md key =
     (case map_of md key of None \<Rightarrow> Inl MetadataMismatch
      | Some raw \<Rightarrow> (case parse_int 10 raw of None \<Rightarrow> Inl MetadataMismatch | Some i \<Rightarrow> Inr i))"

definition validate_segment_header ::
    "disk_file option \<Rightarrow> pystr option \<Rightarrow> pystr option \<Rightarrow> int option \<Rightarrow> exn + segment_header" where
  "validate_segment_header f session stream i =
     (case f of None \<Rightarrow> Inl ParquetReadError
      | Some d \<Rightarrow>
        (case content d of None \<Rightarrow> Inl ParquetReadError
         | Some t \<Rightarrow>
           rbind (require_segment_metadata (metadata t) session stream i) (\<lambda>_.
           rbind (require_canonical_layout (columns t)) (\<lambda>_.
           rbind (require_metadata_value (metadata t) ''canx.session_id'') (\<lambda>s.
           rbind (require_metadata_value (metadata t) ''canx.stream_id'') (\<lambda>st.
           rbind (require_metadata_integer (metadata t) ''canx.segment_index'') (\<lambda>n.
           rbind (require_metadata_integer (metadata t) ''canx.schema_version'') (\<lambda>v.
             segment_header_post_init \<lparr>header_session = s, header_stream = st, header_index = n,
               header_version = v, row_count = int (length (table_rows t))\<rparr>))))))))"

definition require_registered_segment :: "disk_file option \<Rightarrow> data_session \<Rightarrow> data_segment \<Rightarrow> exn + segment_header" where
  "require_registered_segment f s g =
     rbind (segment_relative_path (ses_id s) (seg_index g)) (\<lambda>canonical.
     rbind (guard (relative_path g = canonical) (Foreign ''data.integrity.registered_path_mismatch'')) (\<lambda>_.
     rbind (validate_segment_header f (Some (ses_id s)) (Some (ses_stream s)) (Some (seg_index g))) (\<lambda>h.
     rbind (guard (row_count h = seg_frame_count g) (Foreign ''data.integrity.frame_count_mismatch'')) (\<lambda>_.
     rbind (case f of None \<Rightarrow> Inl (Foreign ''FileNotFoundError'')
       | Some d \<Rightarrow> guard (size_on_disk d = byte_size g) (Foreign ''data.integrity.byte_size_mismatch'')) (\<lambda>_.
       Inr h)))))"

section \<open>Lemmas\<close>

subsection \<open>Numbers and identifiers as text\<close>

lemma length_codes [simp]: "length (codes s) = length s"
  by (simp add: codes_def)

lemma dropWhile_none: "(\<And>c. c \<in> set s \<Longrightarrow> \<not> P c) \<Longrightarrow> dropWhile P s = s"
  by (cases s) auto

lemma py_strip_none: "(\<And>c. c \<in> set s \<Longrightarrow> \<not> py_space c) \<Longrightarrow> py_strip s = s"
  using dropWhile_none [of s py_space] dropWhile_none [of "rev s" py_space] by (simp add: py_strip_def)

lemma starts_with_hd: "c \<notin> set s \<Longrightarrow> c \<in> set p \<Longrightarrow> \<not> starts_with s p"
  by (metis starts_with_def in_set_takeD)

lemma remove_text_absent: "c \<notin> set s \<Longrightarrow> c \<in> set part \<Longrightarrow> remove_text part s = s"
proof (induction s)
  case (Cons d s)
  then show ?case by (subst remove_text.simps) (auto simp: starts_with_hd)
qed (simp add: remove_text.simps)

lemma remove_text_char: "remove_text [c] s = filter (\<lambda>d. d \<noteq> c) s"
  by (induction s) (subst remove_text.simps; simp add: starts_with_def)+

lemma digit_run_append:
  "(\<And>c. c \<in> set xs \<Longrightarrow> c \<noteq> 95) \<Longrightarrow>
   digit_run base acc (xs @ ys) = (case digit_run base acc xs of None \<Rightarrow> None | Some n \<Rightarrow> digit_run base n ys)"
  by (induction xs arbitrary: acc) (auto split: option.splits)

lemma hex_char:
  "digit_value 16 (of_char (hex_digit n)) = Some (n mod 16)"
  "of_char (hex_digit n) \<in> {48..57 :: nat} \<union> {97..102}"
proof -
  have "m < 16 \<Longrightarrow> m \<in> {0, 1, 2, 3, 4, 5, 6, 7, 8, 9, 10, 11, 12, 13, 14, 15}" for m :: nat
    by (simp add: less_Suc_eq numeral_eq_Suc)
  from this [of "n mod 16"] show "digit_value 16 (of_char (hex_digit n)) = Some (n mod 16)"
    "of_char (hex_digit n) \<in> {48..57 :: nat} \<union> {97..102}"
    unfolding hex_digit_def by (auto simp: HEX_DIGITS_def digit_value_def)
qed

lemma hex_codes: "c \<in> set (codes (hex_digits k n)) \<Longrightarrow> c \<in> {48..57} \<union> {97..102}"
  by (induction k arbitrary: n) (use hex_char(2) in \<open>auto simp: codes_def\<close>)

lemma digit_run_hex: "digit_run 16 acc (codes (hex_digits k n)) = Some (acc * 16 ^ k + n mod 16 ^ k)"
proof (induction k arbitrary: n)
  case (Suc k)
  have "codes (hex_digits (Suc k) n) = codes (hex_digits k (n div 16)) @ [of_char (hex_digit n)]"
    by (simp add: codes_def)
  moreover have "of_char (hex_digit n) \<noteq> (95 :: nat)" using hex_char(2) [of n] by auto
  moreover have "c \<noteq> 95" if "c \<in> set (codes (hex_digits k (n div 16)))" for c
    using hex_codes [OF that] by auto
  moreover have "16 * (acc * 16 ^ k + n div 16 mod 16 ^ k) + n mod 16 = acc * 16 ^ Suc k + n mod 16 ^ Suc k"
    by (simp add: mod_mult2_eq algebra_simps)
  ultimately show ?case using Suc.IH [of "n div 16"] by (simp add: digit_run_append hex_char(1))
qed (simp add: codes_def)

lemma parse_uuid_text:
  assumes "n < 2 ^ 128"
  shows "parse_uuid (uuid_text n) = Some n"
proof -
  let ?h = "codes (hex_digits 32 n)"
  have hex: "c \<in> {48..57} \<union> {97..102}" if "c \<in> set ?h" for c using hex_codes that .
  have out: "c \<in> {48..57} \<union> {97..102} \<union> {45}" if "c \<in> set (uuid_text n)" for c
  proof -
    have "codes ''-'' = [45]" by (simp add: codes_def)
    with that have "c \<in> set ?h \<or> c = 45"
      unfolding uuid_text_def Let_def by (auto dest!: in_set_takeD dest: in_set_dropD)
    with hex show ?thesis by blast
  qed
  have u: "117 \<notin> set (uuid_text n)" using out [of 117] by auto
  have no_urn: "remove_text (codes ''urn:'') (uuid_text n) = uuid_text n"
    "remove_text (codes ''uuid:'') (uuid_text n) = uuid_text n"
    by (rule remove_text_absent [OF u], simp add: codes_def)+
  have no_brace: "strip_braces (uuid_text n) = uuid_text n"
    unfolding strip_braces_def by (subst dropWhile_none; (subst dropWhile_none)?) (use out in force)+
  have keep: "filter (\<lambda>d. d \<noteq> 45) s = s" if "set s \<subseteq> set ?h" for s
    using that hex by (intro filter_True) force
  have "remove_text (codes ''-'') (uuid_text n) =
      take 8 ?h @ take 4 (drop 8 ?h) @ take 4 (drop 12 ?h) @ take 4 (drop 16 ?h) @ drop 20 ?h"
  proof -
    have sub: "set (take a (drop b ?h)) \<subseteq> set ?h" "set (take a ?h) \<subseteq> set ?h" "set (drop b ?h) \<subseteq> set ?h" for a b
      by (auto dest: in_set_takeD in_set_dropD)
    have dash: "codes ''-'' = [45]" by (simp add: codes_def)
    show ?thesis unfolding uuid_text_def Let_def dash remove_text_char filter_append keep [OF sub(1)] keep [OF sub(2)] keep [OF sub(3)]
      by simp
  qed
  also have "\<dots> = ?h"
  proof -
    have "take 4 (drop b ?h) @ drop (b + 4) ?h = drop b ?h" for b
      by (metis append_take_drop_id drop_drop add.commute)
    from this [of 16] this [of 12] this [of 8] show ?thesis by simp
  qed
  finally have digits: "remove_text (codes ''-'') (uuid_text n) = ?h" .
  have strip: "py_strip ?h = ?h" by (rule py_strip_none) (use hex in \<open>force simp: py_space_def\<close>)
  have absent: "45 \<notin> set ?h" "43 \<notin> set ?h" "120 \<notin> set ?h" "88 \<notin> set ?h" "95 \<notin> set ?h"
    using hex by force+
  have sign: "\<not> starts_with ?h (codes ''-'')" "\<not> starts_with ?h (codes ''+'')"
    "\<not> starts_with ?h (codes ''0x'')" "\<not> starts_with ?h (codes ''0X'')"
    by (rule starts_with_hd [OF absent(1)] starts_with_hd [OF absent(2)] starts_with_hd [OF absent(3)]
        starts_with_hd [OF absent(4)], simp add: codes_def)+
  have ne: "?h \<noteq> []" by (simp add: codes_def flip: length_greater_0_conv)
  then have "hd ?h \<noteq> 95" using absent(5) by (metis hd_in_set)
  with ne sign have "parse_int 16 ?h = Some (int (n mod 16 ^ 32))"
    by (simp add: parse_int_def Let_def strip digit_run_hex)
  moreover have "n mod 16 ^ 32 = n" using assms by simp
  moreover have "length ?h = 32" by (simp add: codes_def)
  ultimately show ?thesis using assms by (simp add: parse_uuid_def Let_def no_urn no_brace digits)
qed

lemma uuid_text_ne [simp]: "uuid_text n \<noteq> []"
  by (simp add: uuid_text_def Let_def codes_def)

lemma normalize_uuid_text: "n < 2 ^ 128 \<Longrightarrow> normalize_uuid e (uuid_text n) = Inr (uuid_text n)"
  by (simp add: normalize_uuid_def parse_uuid_text)

text \<open>The canonical form of an identifier, and the identifiers in it.\<close>

definition is_uuid :: "pystr \<Rightarrow> bool" where
  "is_uuid s \<longleftrightarrow> parse_uuid s \<noteq> None \<and> uuid_text (the (parse_uuid s)) = s"

lemma parse_uuid_bound: "parse_uuid s = Some n \<Longrightarrow> n < 2 ^ 128"
  by (auto simp: parse_uuid_def Let_def nat_less_iff split: if_splits option.splits)

lemma is_uuid_text: "n < 2 ^ 128 \<Longrightarrow> is_uuid (uuid_text n)"
  by (simp add: is_uuid_def parse_uuid_text)

lemma normalize_uuid_Inr: "normalize_uuid e s = Inr t \<Longrightarrow> is_uuid t"
  by (auto simp: normalize_uuid_def split: if_splits option.splits dest!: parse_uuid_bound intro!: is_uuid_text)

lemma normalize_is_uuid [simp]: "is_uuid s \<Longrightarrow> normalize_uuid e s = Inr s"
  by (auto simp: is_uuid_def normalize_uuid_def split: option.splits)

lemma decimal_codes: "c \<in> set (codes (decimal_nat n)) \<Longrightarrow> c \<in> {48..57}"
proof (induction n rule: decimal_nat.induct)
  case (1 n)
  then show ?case by (subst (asm) decimal_nat.simps) (auto simp: codes_def split: if_splits)
qed

lemma digit_run_decimal: "digit_run 10 0 (codes (decimal_nat n)) = Some n"
proof (induction n rule: decimal_nat.induct)
  case (1 n)
  have d: "digit_value 10 (48 + m) = Some m" if "m < 10" for m using that by (simp add: digit_value_def)
  show ?case
  proof (cases "n < 10")
    case True
    then show ?thesis by (subst decimal_nat.simps) (simp add: codes_def d)
  next
    case False
    have "codes (decimal_nat n) = codes (decimal_nat (n div 10)) @ [48 + n mod 10]"
      using False by (subst decimal_nat.simps) (simp add: codes_def)
    moreover have "c \<noteq> 95" if "c \<in> set (codes (decimal_nat (n div 10)))" for c
      using decimal_codes [OF that] by auto
    ultimately show ?thesis using 1 False by (simp add: digit_run_append d)
  qed
qed

lemma decimal_ne: "codes (decimal_nat n) \<noteq> []"
  by (subst decimal_nat.simps) (simp add: codes_def)

lemma parse_decimal: "0 \<le> i \<Longrightarrow> parse_int 10 (codes (decimal_int i)) = Some i"
proof -
  assume i: "0 \<le> i"
  let ?h = "codes (decimal_nat (nat i))"
  have dec: "c \<in> {48..57}" if "c \<in> set ?h" for c using decimal_codes that .
  have strip: "py_strip ?h = ?h" by (rule py_strip_none) (use dec in \<open>force simp: py_space_def\<close>)
  have absent: "45 \<notin> set ?h" "43 \<notin> set ?h" "95 \<notin> set ?h" using dec by force+
  have sign: "\<not> starts_with ?h (codes ''-'')" "\<not> starts_with ?h (codes ''+'')"
    by (rule starts_with_hd [OF absent(1)] starts_with_hd [OF absent(2)], simp add: codes_def)+
  have "hd ?h \<noteq> 95" using absent(3) decimal_ne [of "nat i"] by (metis hd_in_set)
  with i sign show ?thesis
    by (simp add: parse_int_def Let_def decimal_int_def strip digit_run_decimal decimal_ne)
qed

subsection \<open>Paths\<close>

definition canonical_path :: "pystr \<Rightarrow> nat \<Rightarrow> pystr" where
  "canonical_path s n =
     session_relative_directory s @ slash # codes ''segments'' @ slash # codes (six_digits n @ ''.parquet'')"

definition canonical_location :: "pystr list \<Rightarrow> pystr \<Rightarrow> nat \<Rightarrow> pystr list" where
  "canonical_location base_dir s n =
     base_dir @ [codes ''data'', codes ''sessions'', s, codes ''segments'', codes (six_digits n @ ''.parquet'')]"

lemma segment_relative_path_eq [simp]:
  "segment_relative_path s (int n) = Inr (canonical_path s n)"
  by (simp add: segment_relative_path_def segment_filename_def canonical_path_def)

lemma uuid_codes:
  assumes "is_uuid s"
  shows "slash \<notin> set s" "length s = 36"
proof -
  from assms obtain n where s: "s = uuid_text n" by (metis is_uuid_def)
  have "c \<noteq> slash" if "c \<in> set (codes (hex_digits 32 n))" for c using hex_codes [OF that] by (auto simp: slash_def)
  then show "slash \<notin> set s"
    unfolding s uuid_text_def Let_def
    by (auto simp: codes_def [of "''-''"] slash_def dest!: in_set_takeD dest: in_set_dropD)
  show "length s = 36" by (simp add: s uuid_text_def Let_def codes_def)
qed

lemma six_digits_run: "digit_run 10 0 (codes (six_digits n)) = Some n"
proof -
  have zeros: "digit_run 10 0 (replicate k 48 @ xs) = digit_run 10 0 xs" for k xs
    by (induction k) (simp_all add: digit_value_def)
  have "codes (six_digits n) = replicate (6 - length (decimal_nat n)) 48 @ codes (decimal_nat n)"
    by (simp add: six_digits_def Let_def codes_def)
  then show ?thesis by (simp add: zeros digit_run_decimal)
qed

lemma six_digits_inj [simp]: "six_digits n = six_digits m \<longleftrightarrow> n = m"
  using six_digits_run by (metis option.inject)

lemma canonical_location_inj [simp]:
  "canonical_location base_dir s n = canonical_location base_dir t m \<longleftrightarrow> s = t \<and> n = m"
  by (auto simp: canonical_location_def)

lemma six_digits_codes: "c \<in> set (codes (six_digits n)) \<Longrightarrow> c \<in> {48..57}"
  using decimal_codes [of c n] by (auto simp: six_digits_def Let_def codes_def)

lemma split_canonical:
  assumes "is_uuid s"
  shows "split_slash (canonical_path s n) =
    [codes ''data'', codes ''sessions'', s, codes ''segments'', codes (six_digits n @ ''.parquet'')]"
proof -
  have "slash \<notin> set (codes (six_digits n @ ''.parquet''))"
    using six_digits_codes [of slash n] by (auto simp: codes_def slash_def)
  moreover have "slash \<notin> set (codes ''data'')" "slash \<notin> set (codes ''sessions'')" "slash \<notin> set (codes ''segments'')"
    by (simp_all add: codes_def slash_def)
  ultimately show ?thesis
    using uuid_codes(1) [OF assms]
    by (simp add: canonical_path_def session_relative_directory_def split_slash_append split_segment)
qed

lemma canonical_path_inj:
  assumes "is_uuid s" "is_uuid t"
  shows "canonical_path s n = canonical_path t m \<longleftrightarrow> s = t \<and> n = m"
proof
  assume "canonical_path s n = canonical_path t m"
  then have "split_slash (canonical_path s n) = split_slash (canonical_path t m)" by simp
  then show "s = t \<and> n = m" by (simp add: split_canonical assms)
qed simp

lemma walk_plain: "list_all (\<lambda>x. 3 \<le> length x) xs \<Longrightarrow> walk stack xs = stack @ xs"
proof (induction xs arbitrary: stack)
  case (Cons x xs)
  then have "x \<noteq> []" "x \<noteq> dot" "x \<noteq> dotdot" by (auto simp: dot_def dotdot_def codes_def)
  with Cons show ?case by simp
qed simp

lemma resolve_canonical:
  assumes "is_uuid s"
  shows "resolve_within_root base_dir (canonical_path s n) = Inr (canonical_location base_dir s n)"
proof -
  have "\<not> starts_with (canonical_path s n) [slash]"
    by (simp add: canonical_path_def session_relative_directory_def starts_with_def codes_def slash_def)
  moreover have "walk base_dir (split_slash (canonical_path s n)) = canonical_location base_dir s n"
    unfolding split_canonical [OF assms] canonical_location_def
    by (rule walk_plain) (simp only: list.pred_inject uuid_codes(2) [OF assms] length_codes length_append list.size, simp)
  ultimately show ?thesis
    by (simp only: resolve_within_root_def Let_def if_False) (simp add: canonical_location_def)
qed

lemma relative_canonical: "require_relative_path (canonical_path s n) = Inr ()" if "is_uuid s"
proof -
  have "92 \<notin> set s"
  proof -
    from that obtain k where s: "s = uuid_text k" by (metis is_uuid_def)
    have "c \<noteq> 92" if "c \<in> set (codes (hex_digits 32 k))" for c using hex_codes [OF that] by auto
    then show ?thesis
      unfolding s uuid_text_def Let_def
      by (auto simp: codes_def [of "''-''"] dest!: in_set_takeD dest: in_set_dropD)
  qed
  moreover have "92 \<notin> set (codes (six_digits n))" using six_digits_codes [of 92 n] by auto
  ultimately show ?thesis
    by (simp add: require_relative_path_def canonical_path_def session_relative_directory_def slash_def codes_def)
qed

subsection \<open>Rows\<close>

text \<open>What a frame is after it was stored: its time stamps are floats.\<close>

definition stored_frame :: "frame \<Rightarrow> frame" where
  "stored_frame f = f\<lparr>hardware_timestamp := map_option floated (hardware_timestamp f),
     host_timestamp := floated (host_timestamp f), normalized_timestamp := floated (normalized_timestamp f)\<rparr>"

lemma float_value_num:
  assumes "valid_number t"
  shows "float_value (num_val t) = num_val (floated t)" "valid_number (floated t)"
proof -
  from assms obtain x where x: "as_float t = Inr x" "floated t = FloatNum x" "valid_number (FloatNum x)"
    by (rule as_float_valid)
  then show "float_value (num_val t) = num_val (floated t)" "valid_number (floated t)"
    by (auto simp: float_value_def num_val_def as_float_def split: pynum.splits option.splits)
qed

lemma stored_frame_valid: "valid_frame f \<Longrightarrow> valid_frame (stored_frame f)"
  by (cases "hardware_timestamp f") (simp_all add: valid_frame_def stored_frame_def float_value_num)

lemma float_columns_row:
  assumes "valid_frame f"
  shows "float_columns (row_of f) = row_of (stored_frame f)"
proof -
  have "float_value (case hardware_timestamp f of None \<Rightarrow> VNone | Some t \<Rightarrow> num_val t) =
      (case map_option floated (hardware_timestamp f) of None \<Rightarrow> VNone | Some t \<Rightarrow> num_val t)"
  proof (cases "hardware_timestamp f")
    case None
    then show ?thesis by (simp add: float_value_def)
  next
    case (Some t)
    then show ?thesis using assms by (simp add: valid_frame_def float_value_num)
  qed
  then show ?thesis
    using assms by (simp add: float_columns_def row_of_def stored_frame_def float_value_num valid_frame_def
        eval_nat_numeral)
qed

lemma frame_of_row_of: "valid_frame f \<Longrightarrow> frame_of_row (row_of f) = Inr f"
  using frame_post_init_Inr [of "args_of f" f] by (simp add: row_of_def enum_of_def args_of_def)

lemma stored_row:
  assumes "valid_frame f"
  shows "frame_of_row (float_columns (row_of f)) = Inr (stored_frame f)"
  by (simp add: float_columns_row [OF assms] frame_of_row_of [OF stored_frame_valid [OF assms]])

text \<open>The file of a segment, and what the gates say of it.\<close>

definition segment_table :: "pystr \<Rightarrow> pystr \<Rightarrow> nat \<Rightarrow> frame list \<Rightarrow> parquet_table" where
  "segment_table s st n fs = \<lparr>metadata = frame_segment_metadata s st (int n), columns = FRAME_ARROW_SCHEMA,
     table_rows = map (\<lambda>f. float_columns (row_of f)) fs\<rparr>"

lemma frames_to_table_Inr:
  assumes "arrow_keeps arrow" "frames_to_table arrow fs s st (int n) = Inr t"
  shows "t = segment_table s st n fs" "fs \<noteq> []"
proof -
  from assms(2) obtain rows where r: "arrow (map row_of fs) = Inr rows" "fs \<noteq> []"
    "t = \<lparr>metadata = frame_segment_metadata s st (int n), columns = FRAME_ARROW_SCHEMA, table_rows = rows\<rparr>"
    by (auto simp: frames_to_table_def rbind_Inr_iff split: if_splits)
  with assms(1) have "rows = map float_columns (map row_of fs)" unfolding arrow_keeps_def by blast
  with r show "t = segment_table s st n fs" "fs \<noteq> []" by (simp_all add: segment_table_def comp_def)
qed

lemma segment_metadata_gate:
  "require_segment_metadata (frame_segment_metadata s st (int n)) (Some s) (Some st) (Some (int n)) = Inr ()"
  using parse_decimal [of 1]
  by (simp add: require_segment_metadata_def require_format_marker_def require_supported_version_def
      require_identity_def frame_segment_metadata_def FRAME_PARQUET_SCHEMA_VERSION_def)

lemma canonical_layout: "require_canonical_layout FRAME_ARROW_SCHEMA = Inr ()"
  by (simp add: require_canonical_layout_def FRAME_ARROW_SCHEMA_def FRAME_COLUMNS_def)

lemma read_segment_table:
  assumes "list_all valid_frame fs"
  shows "table_to_frames (segment_table s st n fs) (Some s) (Some st) (Some (int n)) = Inr (map stored_frame fs)"
proof -
  have "rmap frame_of_row (map (\<lambda>f. float_columns (row_of f)) fs) = Inr (map stored_frame fs)"
    using assms by (induction fs) (simp_all add: stored_row)
  then show ?thesis
    by (simp add: table_to_frames_def segment_table_def segment_metadata_gate canonical_layout reconstruct_frames_def
        invalid_rows_def)
qed

lemma segment_header_gate:
  assumes "is_uuid s" "st \<noteq> []" "content d = Some (segment_table s st n fs)"
  shows "validate_segment_header (Some d) (Some s) (Some st) (Some (int n)) =
    Inr \<lparr>header_session = s, header_stream = st, header_index = int n, header_version = 1, row_count = int (length fs)\<rparr>"
proof -
  have "s \<noteq> []" using uuid_codes(2) [OF assms(1)] by auto
  with assms parse_decimal [of 1] parse_decimal [of "int n"] segment_metadata_gate [of s st n] show ?thesis
    by (simp add: validate_segment_header_def segment_table_def canonical_layout
        require_metadata_value_def require_metadata_integer_def frame_segment_metadata_def
        FRAME_PARQUET_SCHEMA_VERSION_def segment_header_post_init_def require_count_def)
qed

end
