(* ===== verification/Data_Store.thy ===== *)
theory Data_Store
  imports Data_Model "HOL-Library.Product_Lexorder"
begin

text \<open>
  Where data sessions live: the rows of the project database (\<open>data/repository.py\<close>) and
  the atomic publication of segment files (\<open>write_segment\<close> of \<open>data/parquet.py\<close>).
  Whether a file operation or a transaction succeeds, the clock and the random bits come
  from the host, one reading after the other; an operation that fails has changed nothing,
  except that a clean-up may leave a file behind. What fails while a connection is opened,
  the tables are checked and the project's identity is read has one code.
\<close>

section \<open>The host and the store\<close>

record data_host =
  host_arrow :: "pyval list list \<Rightarrow> exn + pyval list list"
  host_write :: "nat \<Rightarrow> exn + int"
  host_mkdir :: "nat \<Rightarrow> exn option"
  host_litter :: "nat \<Rightarrow> bool"
  host_open :: "nat \<Rightarrow> string option"
  host_commit :: "nat \<Rightarrow> exn option"
  host_now :: "nat \<Rightarrow> int"
  host_uuid :: "nat \<Rightarrow> 128 word"

record store =
  base_dir :: "pystr list"
  project_id :: pystr
  session_rows :: "data_session list"
  segment_rows :: "data_segment list"
  files :: "(pystr list \<times> disk_file) list"
  directories :: "pystr list list"
  readings :: nat

definition reading :: "(nat \<Rightarrow> 'r) \<Rightarrow> ('a store_scheme, exn, 'r) exec" where
  "reading f = (\<lambda>s. (Inr (f (readings s)), s\<lparr>readings := Suc (readings s)\<rparr>))"

abbreviation sqlite_error :: exn where
  "sqlite_error \<equiv> Foreign ''sqlite3.Error''"
abbreviation os_error :: exn where
  "os_error \<equiv> Foreign ''OSError''"
abbreviation arrow_error :: exn where
  "arrow_error \<equiv> Foreign ''ArrowException''"

section \<open>The rows\<close>

text \<open>\<open>data_connection\<close>: the code of the storage error it may raise.\<close>

definition with_connection :: "data_host \<Rightarrow> ('a store_scheme, exn, 'r) exec \<Rightarrow> ('a store_scheme, exn, 'r) exec" where
  "with_connection h body = ebind (reading (host_open h)) (\<lambda>o'.
     case o' of None \<Rightarrow> body | Some c \<Rightarrow> throw (Foreign (''data.'' @ c)))"

text \<open>
  One transaction: what fails when it begins or commits, what the values of a statement
  cannot be bound to, and the constraints of the tables, which are SQLite errors.
\<close>

definition storage_errors :: "string \<Rightarrow> exn \<Rightarrow> exn" where
  "storage_errors code e = (if e = sqlite_error then Foreign code else e)"

definition transaction ::
    "data_host \<Rightarrow> string \<Rightarrow> ('a store_scheme \<Rightarrow> exn + unit) \<Rightarrow> ('a store_scheme \<Rightarrow> 'r) \<Rightarrow>
      ('a store_scheme \<Rightarrow> 'a store_scheme) \<Rightarrow> ('a store_scheme, exn, 'r) exec" where
  "transaction h code check result change =
     ebind (reading (host_commit h)) (\<lambda>fault.
       case fault of Some e \<Rightarrow> throw (storage_errors code e)
       | None \<Rightarrow> (\<lambda>s. case check s of Inl e \<Rightarrow> (Inl (storage_errors code e), s)
           | Inr _ \<Rightarrow> (Inr (result s), change s)))"

definition bind_text :: "pystr \<Rightarrow> exn + unit" where
  "bind_text t = guard (list_all (\<lambda>c. \<not> is_surrogate c) t) (Foreign ''UnicodeEncodeError'')"

definition bind_int :: "int \<Rightarrow> exn + unit" where
  "bind_int i = guard (- (2 ^ 63) \<le> i \<and> i < 2 ^ 63) (Foreign ''OverflowError'')"

definition bind_number :: "pynum \<Rightarrow> exn + unit" where
  "bind_number t = (case t of IntNum i \<Rightarrow> bind_int i | FloatNum _ \<Rightarrow> Inr ())"

definition bind_optional :: "('v \<Rightarrow> exn + unit) \<Rightarrow> 'v option \<Rightarrow> exn + unit" where
  "bind_optional f v = (case v of None \<Rightarrow> Inr () | Some a \<Rightarrow> f a)"

definition bind_session :: "data_session \<Rightarrow> exn + unit" where
  "bind_session s =
     rbind (bind_text (ses_id s)) (\<lambda>_. rbind (bind_text (ses_project s)) (\<lambda>_. rbind (bind_text (ses_stream s)) (\<lambda>_.
     rbind (bind_int (ses_frame_count s)) (\<lambda>_. rbind (bind_int (ses_segment_count s)) (\<lambda>_.
     rbind (bind_optional bind_int (ses_first_sequence s)) (\<lambda>_.
     rbind (bind_optional bind_int (ses_last_sequence s)) (\<lambda>_.
     rbind (bind_optional bind_number (ses_first_timestamp s)) (\<lambda>_.
     bind_optional bind_number (ses_last_timestamp s)))))))))"

definition bind_segment :: "data_segment \<Rightarrow> exn + unit" where
  "bind_segment g =
     rbind (bind_text (seg_id g)) (\<lambda>_. rbind (bind_text (seg_session g)) (\<lambda>_. rbind (bind_int (seg_index g)) (\<lambda>_.
     rbind (bind_text (relative_path g)) (\<lambda>_. rbind (bind_int (seg_frame_count g)) (\<lambda>_.
     rbind (bind_int (seg_first_sequence g)) (\<lambda>_. rbind (bind_int (seg_last_sequence g)) (\<lambda>_.
     rbind (bind_number (seg_first_timestamp g)) (\<lambda>_. rbind (bind_number (seg_last_timestamp g)) (\<lambda>_.
     bind_int (byte_size g))))))))))"

text \<open>A number in a \<open>REAL\<close> column is a float.\<close>

definition stored_session :: "data_session \<Rightarrow> data_session" where
  "stored_session s = s\<lparr>ses_first_timestamp := map_option floated (ses_first_timestamp s),
     ses_last_timestamp := map_option floated (ses_last_timestamp s)\<rparr>"

definition stored_segment :: "data_segment \<Rightarrow> data_segment" where
  "stored_segment g = g\<lparr>seg_first_timestamp := floated (seg_first_timestamp g),
     seg_last_timestamp := floated (seg_last_timestamp g)\<rparr>"

definition insert_session :: "data_host \<Rightarrow> data_session \<Rightarrow> ('a store_scheme, exn, unit) exec" where
  "insert_session h x = transaction h ''data.session.insert_failed''
     (\<lambda>s. rbind (bind_session x) (\<lambda>_. guard (ses_id x \<notin> set (map ses_id (session_rows s))) sqlite_error))
     (\<lambda>s. ()) (\<lambda>s. s\<lparr>session_rows := session_rows s @ [stored_session x]\<rparr>)"

definition rewrite_row :: "data_session \<Rightarrow> data_session list \<Rightarrow> data_session list" where
  "rewrite_row x rows = map (\<lambda>r. if ses_id r = ses_id x then stored_session x else r) rows"

definition update_session :: "data_host \<Rightarrow> data_session \<Rightarrow> ('a store_scheme, exn, unit) exec" where
  "update_session h x = transaction h ''data.session.update_failed'' (\<lambda>s. bind_session x) (\<lambda>s. ())
     (\<lambda>s. s\<lparr>session_rows := rewrite_row x (session_rows s)\<rparr>)"

text \<open>\<open>_SESSION_ADVANCE\<close>: the row of an active session moves; whether one did.\<close>

definition advance_row :: "pystr \<Rightarrow> session_state \<Rightarrow> int option \<Rightarrow> int \<Rightarrow> data_session \<Rightarrow> data_session" where
  "advance_row i target ended updated r =
     (if ses_id r = i \<and> ses_state r = ACTIVE
      then r\<lparr>ses_state := target, ended_at := ended, ses_updated_at := updated\<rparr> else r)"

definition has_active_row :: "pystr \<Rightarrow> 'a store_scheme \<Rightarrow> bool" where
  "has_active_row i s \<longleftrightarrow> length (filter (\<lambda>r. ses_id r = i \<and> ses_state r = ACTIVE) (session_rows s)) = 1"

definition advance :: "data_host \<Rightarrow> string \<Rightarrow> pystr \<Rightarrow> session_state \<Rightarrow> int option \<Rightarrow> int \<Rightarrow> ('a store_scheme, exn, bool) exec" where
  "advance h code i target ended updated = transaction h code (\<lambda>s. bind_text i) (has_active_row i)
     (\<lambda>s. s\<lparr>session_rows := map (advance_row i target ended updated) (session_rows s)\<rparr>)"

definition advance_session_state :: "data_host \<Rightarrow> data_session \<Rightarrow> ('a store_scheme, exn, bool) exec" where
  "advance_session_state h x =
     advance h ''data.session.update_failed'' (ses_id x) (ses_state x) (ended_at x) (ses_updated_at x)"

definition register_segment :: "data_host \<Rightarrow> data_segment \<Rightarrow> data_session \<Rightarrow> ('a store_scheme, exn, unit) exec" where
  "register_segment h g x = transaction h ''data.session.registration_failed''
     (\<lambda>s. rbind (bind_segment g) (\<lambda>_.
        rbind (guard (seg_id g \<notin> set (map seg_id (segment_rows s)) \<and>
            (seg_session g, seg_index g) \<notin> set (map (\<lambda>r. (seg_session r, seg_index r)) (segment_rows s)) \<and>
            relative_path g \<notin> set (map relative_path (segment_rows s)) \<and>
            seg_session g \<in> set (map ses_id (session_rows s))) sqlite_error) (\<lambda>_. bind_session x)))
     (\<lambda>s. ()) (\<lambda>s. s\<lparr>segment_rows := segment_rows s @ [stored_segment g], session_rows := rewrite_row x (session_rows s)\<rparr>)"

definition fail_active_row :: "data_host \<Rightarrow> pystr \<Rightarrow> int \<Rightarrow> ('a store_scheme, exn, bool) exec" where
  "fail_active_row h i now = advance h ''data.session.update_failed'' i FAILED None now"

definition mark_session_interrupted :: "data_host \<Rightarrow> pystr \<Rightarrow> int \<Rightarrow> ('a store_scheme, exn, unit) exec" where
  "mark_session_interrupted h i now =
     ebind (advance h ''data.session.recovery_failed'' i INTERRUPTED (Some now) now) (\<lambda>_. ret ())"

text \<open>Reading rows. A row whose values make no model is an integrity error.\<close>

definition session_from_row :: "data_session \<Rightarrow> exn + data_session" where
  "session_from_row r =
     (case data_session_post_init r of Inr s \<Rightarrow> Inr s
      | Inl e \<Rightarrow> if data_error e then Inl (Foreign ''data.integrity.session_row_invalid'') else Inl e)"

definition segment_from_row :: "data_segment \<Rightarrow> exn + data_segment" where
  "segment_from_row r =
     (case data_segment_post_init r of Inr g \<Rightarrow> Inr g
      | Inl e \<Rightarrow> if data_error e then Inl (Foreign ''data.integrity.segment_row_invalid'') else Inl e)"

definition read_session :: "pystr \<Rightarrow> ('a store_scheme, exn, data_session option) exec" where
  "read_session i = (\<lambda>s. (ropt session_from_row (find (\<lambda>r. ses_id r = i) (session_rows s)), s))"

definition by_start :: "data_session list \<Rightarrow> data_session list" where
  "by_start rows = sort_key (\<lambda>r. (started_at r, ses_id r)) rows"

definition list_sessions :: "('a store_scheme, exn, data_session list) exec" where
  "list_sessions = (\<lambda>s. (rmap session_from_row (by_start (session_rows s)), s))"

definition list_sessions_in_state :: "session_state \<Rightarrow> ('a store_scheme, exn, data_session list) exec" where
  "list_sessions_in_state x =
     (\<lambda>s. (rmap session_from_row (by_start (filter (\<lambda>r. ses_state r = x) (session_rows s))), s))"

definition list_segments :: "pystr \<Rightarrow> ('a store_scheme, exn, data_segment list) exec" where
  "list_segments i =
     (\<lambda>s. (rmap segment_from_row (sort_key seg_index (filter (\<lambda>g. seg_session g = i) (segment_rows s))), s))"

definition list_all_segments :: "('a store_scheme, exn, data_segment list) exec" where
  "list_all_segments =
     (\<lambda>s. (rmap segment_from_row (sort_key (\<lambda>g. (seg_session g, seg_index g)) (segment_rows s)), s))"

definition read_segment_row :: "pystr \<Rightarrow> int \<Rightarrow> ('a store_scheme, exn, data_segment option) exec" where
  "read_segment_row i n =
     (\<lambda>s. (ropt segment_from_row (find (\<lambda>g. seg_session g = i \<and> seg_index g = n) (segment_rows s)), s))"

definition require_registered_session :: "data_session option \<Rightarrow> exn + data_session" where
  "require_registered_session x = (case x of None \<Rightarrow> Inl (Foreign ''data.session.not_found'') | Some s \<Rightarrow> Inr s)"

section \<open>Segment files\<close>

definition temporary_location :: "pystr list \<Rightarrow> pystr list" where
  "temporary_location p = butlast p @ [last p @ codes ''.parquet.tmp'']"

definition remove_file :: "pystr list \<Rightarrow> 'a store_scheme \<Rightarrow> 'a store_scheme" where
  "remove_file p s = s\<lparr>files := AList.delete p (files s)\<rparr>"

text \<open>\<open>_remove_quietly\<close> of a file that may be there: it may stay.\<close>

definition remove_quietly :: "data_host \<Rightarrow> pystr list \<Rightarrow> ('a store_scheme, exn, unit) exec" where
  "remove_quietly h p = ebind (reading (host_litter h)) (\<lambda>stays. if stays then ret () else put (remove_file p))"

text \<open>
  \<open>write_segment\<close>: the temporary file is written and closed before it takes the final name.
  What a failed attempt leaves of it is removed if that succeeds.
\<close>

definition write_segment_file ::
    "data_host \<Rightarrow> pystr list \<Rightarrow> pystr \<Rightarrow> pystr \<Rightarrow> int \<Rightarrow> frame list \<Rightarrow> ('a store_scheme, exn, int) exec" where
  "write_segment_file h path session stream i fs =
     (if fs = [] then throw ParquetWriteError
      else let temporary = temporary_location path;
               fail = (\<lambda>e. if e \<in> {arrow_error, os_error}
                 then eseq (remove_quietly h temporary) (throw ParquetWriteError) else throw e) in
        case frames_to_table (host_arrow h) fs session stream i of
          Inl e \<Rightarrow> fail e
        | Inr t \<Rightarrow>
            ebind (reading (host_write h)) (\<lambda>w. case w of
              Inl e \<Rightarrow> eseq (put (\<lambda>s. s\<lparr>files := AList.update temporary \<lparr>content = None, size_on_disk = 0\<rparr> (files s)\<rparr>)) (fail e)
            | Inr n \<Rightarrow> eseq (put (\<lambda>s. (remove_file temporary s)
                \<lparr>files := AList.update path \<lparr>content = Some t, size_on_disk = n\<rparr> (files (remove_file temporary s))\<rparr>)) (ret n)))"

section \<open>Reasoning about computations that raise\<close>

text \<open>What holds after a computation: of its value and state, or of its exception and state.\<close>

definition wp :: "('s, 'e, 'a) exec \<Rightarrow> ('a \<Rightarrow> 's \<Rightarrow> bool) \<Rightarrow> ('e \<Rightarrow> 's \<Rightarrow> bool) \<Rightarrow> 's \<Rightarrow> bool" where
  "wp m Q E s = (case m s of (Inl e, t) \<Rightarrow> E e t | (Inr a, t) \<Rightarrow> Q a t)"

lemma wp_basic [simp]:
  "wp (ret a) Q E = Q a" "wp (throw e) Q E = E e" "wp (get f) Q E s = Q (f s) s"
  "wp (lift r) Q E s = (case r of Inl e \<Rightarrow> E e s | Inr a \<Rightarrow> Q a s)"
  by (simp_all add: wp_def exec_apply fun_eq_iff)

lemma wp_put [simp]: "wp (put g) Q E s = Q () (g s)"
  by (simp add: wp_def exec_apply)

lemma wp_pure: "wp (\<lambda>s. (f s, s)) Q E s = (case f s of Inl e \<Rightarrow> E e s | Inr a \<Rightarrow> Q a s)"
  by (simp add: wp_def)

lemma wp_ebind [simp]: "wp (ebind m f) Q E = wp m (\<lambda>a. wp (f a) Q E) E"
  by (simp add: wp_def ebind_apply fun_eq_iff split: prod.splits sum.splits)

lemma wp_eseq [simp]: "wp (eseq m n) Q E = wp m (\<lambda>_. wp n Q E) E"
  by (simp add: eseq_def)

lemma wp_etry [simp]: "wp (etry m k) Q E = wp m Q (\<lambda>e. wp (k e) Q E)"
  by (simp add: wp_def ebind_apply fun_eq_iff split: prod.splits sum.splits)

lemma wp_if [simp]: "wp (if b then m else n) Q E s = (if b then wp m Q E s else wp n Q E s)"
  by simp

lemma wp_option [simp]:
  "wp (case x of None \<Rightarrow> m | Some y \<Rightarrow> n y) Q E s = (case x of None \<Rightarrow> wp m Q E s | Some y \<Rightarrow> wp (n y) Q E s)"
  by (cases x) simp_all

lemma wp_sum [simp]:
  "wp (case x of Inl e \<Rightarrow> m e | Inr y \<Rightarrow> n y) Q E s = (case x of Inl e \<Rightarrow> wp (m e) Q E s | Inr y \<Rightarrow> wp (n y) Q E s)"
  by (cases x) simp_all

lemma wp_mono:
  "wp m Q E s \<Longrightarrow> (\<And>a t. Q a t \<Longrightarrow> Q' a t) \<Longrightarrow> (\<And>e t. E e t \<Longrightarrow> E' e t) \<Longrightarrow> wp m Q' E' s"
  by (auto simp: wp_def split: prod.splits sum.splits)

lemma wp_conj: "wp m Q E s \<Longrightarrow> wp m Q' E' s \<Longrightarrow> wp m (\<lambda>a t. Q a t \<and> Q' a t) (\<lambda>e t. E e t \<and> E' e t) s"
  by (auto simp: wp_def split: prod.splits sum.splits)

lemma wp_Inr: "wp m Q E s \<Longrightarrow> m s = (Inr a, t) \<Longrightarrow> Q a t"
  by (simp add: wp_def)

lemma wp_always: "wp m (\<lambda>_. P) (\<lambda>_. P) s \<longleftrightarrow> P (snd (m s))"
  by (auto simp: wp_def split: prod.splits sum.splits)

text \<open>The parts of the state that a computation leaves alone.\<close>

definition keeps :: "('s \<Rightarrow> 'p) \<Rightarrow> ('s, 'e, 'a) exec \<Rightarrow> bool" where
  "keeps f m \<longleftrightarrow> (\<forall>s. f (snd (m s)) = f s)"

named_theorems keeps_intros

lemma keepsD: "keeps f m \<Longrightarrow> m s = (r, t) \<Longrightarrow> f t = f s"
  by (metis keeps_def snd_conv)

lemma keeps_wp: "keeps f m \<Longrightarrow> wp m (\<lambda>_ t. f t = f s) (\<lambda>_ t. f t = f s) s"
  by (simp add: wp_always keeps_def)

lemma keeps_basic [keeps_intros]:
  "keeps f (ret a)" "keeps f (throw e)" "keeps f (lift r)" "keeps f (get g)" "keeps f (\<lambda>s. (k s, s))"
  by (simp_all add: keeps_def exec_apply)

lemma keeps_put [keeps_intros]: "(\<And>s. f (g s) = f s) \<Longrightarrow> keeps f (put g)"
  by (simp add: keeps_def exec_apply)

lemma keeps_ebind [keeps_intros]: "keeps f m \<Longrightarrow> (\<And>a. keeps f (n a)) \<Longrightarrow> keeps f (ebind m n)"
  and keeps_eseq [keeps_intros]: "keeps f m \<Longrightarrow> keeps f k \<Longrightarrow> keeps f (eseq m k)"
  and keeps_etry [keeps_intros]: "keeps f m \<Longrightarrow> (\<And>e. keeps f (c e)) \<Longrightarrow> keeps f (etry m c)"
  by (auto simp: keeps_def ebind_apply split: prod.splits sum.splits; metis snd_conv)+

lemma keeps_cases [keeps_intros]:
  "keeps f m \<Longrightarrow> keeps f k \<Longrightarrow> keeps f (if b then m else k)"
  "keeps f m \<Longrightarrow> (\<And>y. keeps f (n y)) \<Longrightarrow> keeps f (case x of None \<Rightarrow> m | Some y \<Rightarrow> n y)"
  "(\<And>e. keeps f (k' e)) \<Longrightarrow> (\<And>z. keeps f (n' z)) \<Longrightarrow> keeps f (case q of Inl e \<Rightarrow> k' e | Inr z \<Rightarrow> n' z)"
  "(\<And>a b. keeps f (c a b)) \<Longrightarrow> keeps f (case w of (a, b) \<Rightarrow> c a b)"
  by (cases x; cases q; cases w; simp)+

section \<open>Lemmas\<close>

lemma wp_reading [simp]:
  "wp (reading f) Q E s = Q (f (readings s)) (s\<lparr>readings := Suc (readings s)\<rparr>)"
  by (simp add: reading_def wp_def)

lemma wp_with_connection [simp]:
  "wp (with_connection h m) Q E s =
    (let t = s\<lparr>readings := Suc (readings s)\<rparr> in
     case host_open h (readings s) of None \<Rightarrow> wp m Q E t | Some c \<Rightarrow> E (Foreign (''data.'' @ c)) t)"
  by (simp add: with_connection_def Let_def split: option.splits)

lemma wp_transaction:
  "wp (transaction h code check result change) Q E s =
    (let t = s\<lparr>readings := Suc (readings s)\<rparr> in
     case host_commit h (readings s) of Some e \<Rightarrow> E (storage_errors code e) t
     | None \<Rightarrow> (case check t of Inl e \<Rightarrow> E (storage_errors code e) t | Inr _ \<Rightarrow> Q (result t) (change t)))"
  by (simp add: transaction_def Let_def wp_def exec_apply ebind_apply reading_def split: option.splits sum.splits)

lemma keeps_reading [keeps_intros]:
  "(\<And>s k. f (s\<lparr>readings := k\<rparr>) = f s) \<Longrightarrow> keeps f (reading g)"
  by (simp add: keeps_def reading_def)

lemma keeps_with_connection [keeps_intros]:
  "(\<And>s k. f (s\<lparr>readings := k\<rparr>) = f s) \<Longrightarrow> keeps f m \<Longrightarrow> keeps f (with_connection h m)"
  unfolding with_connection_def by (intro keeps_intros)

lemma keeps_transaction [keeps_intros]:
  "(\<And>s k. f (s\<lparr>readings := k\<rparr>) = f s) \<Longrightarrow> (\<And>s. f (change s) = f s) \<Longrightarrow> keeps f (transaction h code check result change)"
  by (auto simp: keeps_def transaction_def ebind_apply exec_apply reading_def split: option.splits sum.splits)

lemma keeps_write_segment_file [keeps_intros]:
  "(\<And>s k. f (s\<lparr>readings := k\<rparr>) = f s) \<Longrightarrow> (\<And>s k. f (s\<lparr>files := k\<rparr>) = f s) \<Longrightarrow>
    keeps f (write_segment_file h p i st n fs)"
  "(\<And>s k. f (s\<lparr>readings := k\<rparr>) = f s) \<Longrightarrow> (\<And>s k. f (s\<lparr>files := k\<rparr>) = f s) \<Longrightarrow> keeps f (remove_quietly h p)"
proof -
  assume f: "\<And>s k. f (s\<lparr>readings := k\<rparr>) = f s" "\<And>s k. f (s\<lparr>files := k\<rparr>) = f s"
  then show r: "keeps f (remove_quietly h p)" for p
    unfolding remove_quietly_def by (intro keeps_intros) (simp_all add: remove_file_def)
  show "keeps f (write_segment_file h p i st n fs)"
    unfolding write_segment_file_def Let_def by (intro keeps_intros r f) (simp_all add: remove_file_def f)
qed

section \<open>Valid rows\<close>

definition num_double :: "pynum \<Rightarrow> bool" where
  "num_double t \<longleftrightarrow> (case t of IntNum _ \<Rightarrow> True | FloatNum x \<Rightarrow> is_double x)"

lemma floated_round:
  assumes "valid_number t" "num_double t"
  obtains r where "0 \<le> r" "num_float t = Fin r" "num_float (floated t) = Fin (round_nonneg r)"
proof (cases t)
  case (IntNum i)
  then have i: "0 \<le> i" "float_of_int i \<noteq> None" using assms by (auto simp: valid_number_def)
  then have "float_of_int i = Some (Fin (round_nonneg (of_int i)))"
    by (auto simp: float_of_int_def round_double_nonneg split: if_splits)
  with IntNum i that [of "of_int i"] show ?thesis by (simp add: num_float_def floated_def as_float_def)
next
  case (FloatNum x)
  then obtain r where r: "x = Fin r" "0 \<le> r" using assms by (cases x) (auto simp: valid_number_def)
  with FloatNum assms that [of r] show ?thesis
    by (auto simp: num_float_def floated_def as_float_def num_double_def is_double_nonneg)
qed

lemma floated_ordered:
  assumes "valid_number a" "num_double a" "valid_number b" "num_double b" "\<not> num_less b a"
  shows "\<not> num_less (floated b) (floated a)"
proof -
  obtain r where r: "num_float a = Fin r" "num_float (floated a) = Fin (round_nonneg r)" using floated_round assms(1,2) .
  obtain q where q: "num_float b = Fin q" "num_float (floated b) = Fin (round_nonneg q)" using floated_round assms(3,4) .
  from assms(5) have "r \<le> q" by (simp add: num_less_def r(1) q(1))
  then show ?thesis using round_nonneg_mono [of r q] by (simp add: num_less_def r(2) q(2))
qed

lemma require_timestamp_iff [simp]: "require_timestamp t = Inr u \<longleftrightarrow> valid_number t"
  by (cases t) (auto simp: require_timestamp_def valid_number_def guard_def)

lemma floated_valid: "valid_number t \<Longrightarrow> valid_number (floated t)"
  by (metis as_float_valid)

text \<open>A session and a segment that the constructor leaves as they are.\<close>

definition session_wf :: "data_session \<Rightarrow> bool" where
  "session_wf x \<longleftrightarrow> data_session_post_init x = Inr x"

definition segment_wf :: "data_segment \<Rightarrow> bool" where
  "segment_wf g \<longleftrightarrow> data_segment_post_init g = Inr g"

lemma session_wf_iff:
  "session_wf x \<longleftrightarrow> is_uuid (ses_id x) \<and> is_uuid (ses_project x) \<and> ses_stream x \<noteq> [] \<and>
     \<not> (ses_state x \<in> {COMPLETED, INTERRUPTED} \<and> ended_at x = None) \<and> 0 \<le> ses_frame_count x \<and> 0 \<le> ses_segment_count x \<and>
     require_optional_sequence_bounds (ses_first_sequence x) (ses_last_sequence x) = Inr () \<and>
     require_optional_timestamp_bounds (ses_first_timestamp x) (ses_last_timestamp x) = Inr () \<and>
     (0 < ses_frame_count x \<longleftrightarrow> ses_first_sequence x \<noteq> None)"
proof -
  have self: "x\<lparr>ses_id := i, ses_project := p\<rparr> = x \<longleftrightarrow> i = ses_id x \<and> p = ses_project x" for i p by (cases x) auto
  have uuid: "normalize_uuid e a = Inr a \<longleftrightarrow> is_uuid a" for e a using normalize_uuid_Inr [of e a a] by auto
  show ?thesis by (auto simp: session_wf_def data_session_post_init_def rbind_Inr_iff self uuid require_count_def)
qed

lemma session_post_init:
  assumes "data_session_post_init s = Inr x"
  shows "session_wf x" "is_uuid (ses_id s) \<Longrightarrow> is_uuid (ses_project s) \<Longrightarrow> x = s"
  using assms by (auto simp: data_session_post_init_def session_wf_iff rbind_Inr_iff require_count_def dest: normalize_uuid_Inr)

lemma session_from_row_wf: "session_wf r \<Longrightarrow> session_from_row r = Inr r"
  by (simp add: session_wf_def session_from_row_def)

lemma stored_session_wf:
  assumes "session_wf x" "pred_option num_double (ses_first_timestamp x)" "pred_option num_double (ses_last_timestamp x)"
  shows "session_wf (stored_session x)"
proof -
  have "require_optional_timestamp_bounds (map_option floated a) (map_option floated b) = Inr ()"
    if "require_optional_timestamp_bounds a b = Inr ()" "pred_option num_double a" "pred_option num_double b" for a b
    using that by (cases a; cases b)
      (auto simp: require_optional_timestamp_bounds_def Let_def rbind_Inr_iff floated_valid floated_ordered)
  with assms show ?thesis by (simp add: session_wf_iff stored_session_def)
qed

lemma segment_wf_iff:
  "segment_wf g \<longleftrightarrow> is_uuid (seg_id g) \<and> is_uuid (seg_session g) \<and> 0 \<le> seg_index g \<and>
     require_relative_path (relative_path g) = Inr () \<and> 0 < seg_frame_count g \<and> 0 \<le> seg_first_sequence g \<and>
     seg_first_sequence g \<le> seg_last_sequence g \<and> valid_number (seg_first_timestamp g) \<and> valid_number (seg_last_timestamp g) \<and>
     \<not> num_less (seg_last_timestamp g) (seg_first_timestamp g) \<and> 0 < byte_size g"
proof -
  have self: "g\<lparr>seg_id := i, seg_session := p\<rparr> = g \<longleftrightarrow> i = seg_id g \<and> p = seg_session g" for i p by (cases g) auto
  have uuid: "normalize_uuid e a = Inr a \<longleftrightarrow> is_uuid a" for e a using normalize_uuid_Inr [of e a a] by auto
  show ?thesis
    by (auto simp: segment_wf_def data_segment_post_init_def rbind_Inr_iff self uuid require_count_def require_sequence_def)
qed

lemma segment_post_init:
  assumes "data_segment_post_init s = Inr g"
  shows "segment_wf g" "is_uuid (seg_id s) \<Longrightarrow> is_uuid (seg_session s) \<Longrightarrow> g = s"
  using assms
  by (auto simp: data_segment_post_init_def segment_wf_iff rbind_Inr_iff require_count_def require_sequence_def
      dest: normalize_uuid_Inr)

lemma segment_from_row_wf: "segment_wf g \<Longrightarrow> segment_from_row g = Inr g"
  by (simp add: segment_wf_def segment_from_row_def)

lemma stored_segment_wf:
  "segment_wf g \<Longrightarrow> num_double (seg_first_timestamp g) \<Longrightarrow> num_double (seg_last_timestamp g) \<Longrightarrow> segment_wf (stored_segment g)"
  by (simp add: segment_wf_iff stored_segment_def floated_valid floated_ordered)

end
