(* ===== verification/Data_Session.thy ===== *)
theory Data_Session
  imports Data_Store
begin

text \<open>
  The writer of one data session and the service that starts, reads, inspects and ends
  sessions (\<open>data/session.py\<close>). The state holds the writer beside the store.
\<close>

section \<open>The writer\<close>

record writer = store +
  w_session :: data_session
  max_frames_per_segment :: nat
  w_buffer :: "frame list"
  last_appended_sequence :: "int option"
  last_appended_timestamp :: "pynum option"

definition require_active :: "('a writer_scheme, exn, unit) exec" where
  "require_active = (\<lambda>s. (guard (ses_state (w_session s) = ACTIVE) SessionNotActive, s))"

text \<open>\<open>replace\<close> runs the constructor again.\<close>

definition mark_failed :: "data_host \<Rightarrow> ('a writer_scheme, exn, unit) exec" where
  "mark_failed h =
     ebind (reading (host_now h)) (\<lambda>now.
     ebind (\<lambda>s. (data_session_post_init ((w_session s)\<lparr>ses_state := FAILED, ses_updated_at := now\<rparr>), s)) (\<lambda>failed.
     eseq (put (\<lambda>s. s\<lparr>w_session := failed\<rparr>))
      (etry (with_connection h (ebind (advance_session_state h failed) (\<lambda>_. ret ())))
        (\<lambda>e. if data_error e \<or> e \<in> {sqlite_error, os_error} then ret () else throw e))))"

definition new_segment :: "data_session \<Rightarrow> pystr \<Rightarrow> frame list \<Rightarrow> int \<Rightarrow> int \<Rightarrow> 128 word \<Rightarrow> data_segment" where
  "new_segment session rel fs written created u =
     \<lparr>seg_id = uuid_text (unat u), seg_session = ses_id session, seg_index = ses_segment_count session, relative_path = rel,
      seg_frame_count = int (length fs), seg_first_sequence = sequence (hd fs), seg_last_sequence = sequence (last fs),
      seg_first_timestamp = normalized_timestamp (hd fs), seg_last_timestamp = normalized_timestamp (last fs),
      byte_size = written, seg_created_at = created\<rparr>"

definition after_segment :: "data_session \<Rightarrow> frame list \<Rightarrow> int \<Rightarrow> data_session" where
  "after_segment session fs now = session
     \<lparr>ses_frame_count := ses_frame_count session + int (length fs), ses_segment_count := ses_segment_count session + 1,
      ses_first_sequence := (case ses_first_sequence session of None \<Rightarrow> Some (sequence (hd fs)) | Some n \<Rightarrow> Some n),
      ses_last_sequence := Some (sequence (last fs)),
      ses_first_timestamp := (case ses_first_timestamp session of None \<Rightarrow> Some (normalized_timestamp (hd fs)) | Some t \<Rightarrow> Some t),
      ses_last_timestamp := Some (normalized_timestamp (last fs)), ses_updated_at := now\<rparr>"

text \<open>The second half of \<open>_commit_segment\<close>: the file is in place, its row is not.\<close>

definition register_written ::
    "data_host \<Rightarrow> data_session \<Rightarrow> pystr \<Rightarrow> pystr list \<Rightarrow> frame list \<Rightarrow> int \<Rightarrow> int \<Rightarrow> ('a writer_scheme, exn, unit) exec" where
  "register_written h session rel target fs created written =
     ebind (reading (host_uuid h)) (\<lambda>u.
     ebind (lift (data_segment_post_init (new_segment session rel fs written created u))) (\<lambda>segment.
     ebind (reading (host_now h)) (\<lambda>now.
     ebind (lift (data_session_post_init (after_segment session fs now))) (\<lambda>updated.
     eseq (etry (with_connection h (register_segment h segment updated))
       (\<lambda>e. if data_error e \<or> e \<in> {sqlite_error, os_error}
            then eseq (remove_quietly h target) (eseq (mark_failed h) (throw (Foreign ''data.session.registration_failed'')))
            else throw e))
      (put (\<lambda>s. s\<lparr>w_session := updated\<rparr>))))))"

definition commit_segment :: "data_host \<Rightarrow> frame list \<Rightarrow> ('a writer_scheme, exn, unit) exec" where
  "commit_segment h fs = ebind (get w_session) (\<lambda>session.
     let i = ses_segment_count session in
     ebind (lift (segment_relative_path (ses_id session) i)) (\<lambda>rel.
     ebind (\<lambda>s. (resolve_within_root (base_dir s) rel, s)) (\<lambda>target.
     if fs = [] then throw (Foreign ''IndexError'')
     else ebind (reading (host_now h)) (\<lambda>created.
     ebind (etry (write_segment_file h target (ses_id session) (ses_stream session) i fs)
       (\<lambda>e. if data_error e then eseq (mark_failed h) (throw e) else throw e))
      (register_written h session rel target fs created)))))"

definition require_contiguous_sequence :: "frame_batch \<Rightarrow> 'a writer_scheme \<Rightarrow> exn + unit" where
  "require_contiguous_sequence b s =
     (case last_appended_sequence s of None \<Rightarrow> Inr ()
      | Some n \<Rightarrow> guard (first_sequence b = n + 1) (Foreign ''data.integrity.sequence_regression''))"

fun descends :: "frame list \<Rightarrow> bool" where
  "descends (f # g # fs) =
     (num_less (normalized_timestamp g) (normalized_timestamp f) \<or> descends (g # fs))"
| "descends _ = False"

definition require_ordered_timestamps :: "frame_batch \<Rightarrow> 'a writer_scheme \<Rightarrow> exn + unit" where
  "require_ordered_timestamps b s =
     (let e = Foreign ''data.integrity.timestamp_regression'' in
      rbind (guard (\<not> descends (frames b)) e) (\<lambda>_.
      if frames b = [] then Inl (Foreign ''IndexError'')
      else case last_appended_timestamp s of None \<Rightarrow> Inr ()
        | Some t \<Rightarrow> guard (\<not> num_less (normalized_timestamp (hd (frames b))) t) e))"

definition append_checks :: "frame_batch \<Rightarrow> ('a writer_scheme, exn, unit) exec" where
  "append_checks b =
     eseq require_active
      (\<lambda>s. (rbind (guard (stream_id b = ses_stream (w_session s)) (Foreign ''data.session.stream_mismatch'')) (\<lambda>_.
            rbind (require_contiguous_sequence b s) (\<lambda>_. require_ordered_timestamps b s)), s))"

definition extend_buffer :: "frame_batch \<Rightarrow> 'a writer_scheme \<Rightarrow> 'a writer_scheme" where
  "extend_buffer b s = s\<lparr>w_buffer := w_buffer s @ frames b, last_appended_sequence := Some (last_sequence b),
     last_appended_timestamp := Some (normalized_timestamp (last (frames b)))\<rparr>"

text \<open>
  The loop ends: a segment that was committed was not empty, and it leaves the buffer alone,
  as it does the other parts of the writer that only \<open>append\<close> moves.
\<close>

definition untouched :: "'a writer_scheme \<Rightarrow> frame list \<times> nat \<times> int option \<times> pynum option \<times> pystr list \<times> pystr \<times> 'a" where
  "untouched s = (w_buffer s, max_frames_per_segment s, last_appended_sequence s, last_appended_timestamp s,
     base_dir s, project_id s, writer.more s)"

lemma untouched_updates [simp]:
  "untouched (s\<lparr>readings := k\<rparr>) = untouched s" "untouched (s\<lparr>files := fl\<rparr>) = untouched s"
  "untouched (s\<lparr>session_rows := rs\<rparr>) = untouched s" "untouched (s\<lparr>segment_rows := gs\<rparr>) = untouched s"
  "untouched (s\<lparr>w_session := x\<rparr>) = untouched s"
  by (simp_all add: untouched_def)

lemma untouched_mark_failed [keeps_intros]: "keeps untouched (mark_failed h)"
  unfolding mark_failed_def advance_session_state_def advance_def
  by (intro keeps_intros) simp_all

lemma untouched_commit [keeps_intros]: "keeps untouched (commit_segment h fs)"
  unfolding commit_segment_def register_written_def register_segment_def Let_def
  by (intro keeps_intros) simp_all

lemma commit_segment_nonempty: "wp (commit_segment h fs) (\<lambda>_ t. fs \<noteq> []) (\<lambda>_ t. True) s"
proof (cases "fs = []")
  case True
  then show ?thesis by (simp add: commit_segment_def Let_def wp_pure split: sum.splits)
qed (simp add: wp_always)

lemma commit_segment_buffer:
  assumes "commit_segment h fs s = (Inr (), t)"
  shows "w_buffer t = w_buffer s" "max_frames_per_segment t = max_frames_per_segment s" "fs \<noteq> []"
  using keepsD [OF untouched_commit assms] wp_Inr [OF commit_segment_nonempty assms] by (simp_all add: untouched_def)

function flush_full_segments :: "data_host \<Rightarrow> ('a writer_scheme, exn, unit) exec" where
  "flush_full_segments h s =
     (if length (w_buffer s) < max_frames_per_segment s then (Inr (), s)
      else case commit_segment h (take (max_frames_per_segment s) (w_buffer s)) s of
        (Inl e, t) \<Rightarrow> (Inl e, t)
      | (Inr _, t) \<Rightarrow>
          flush_full_segments h (t\<lparr>w_buffer := drop (max_frames_per_segment t) (w_buffer t)\<rparr>))"
  by auto
termination
  by (relation "measure (\<lambda>(h, s). length (w_buffer s))")
    (auto simp: commit_segment_buffer dest!: commit_segment_buffer(3) [OF sym])

declare flush_full_segments.simps [simp del]

definition append :: "data_host \<Rightarrow> frame_batch \<Rightarrow> ('a writer_scheme, exn, unit) exec" where
  "append h b = eseq (append_checks b) (eseq (put (extend_buffer b)) (flush_full_segments h))"

definition flush_pending :: "data_host \<Rightarrow> ('a writer_scheme, exn, unit) exec" where
  "flush_pending h = eseq require_active (ebind (get w_buffer) (\<lambda>buffer.
     if buffer = [] then ret ()
     else eseq (commit_segment h buffer) (put (\<lambda>s. s\<lparr>w_buffer := []\<rparr>))))"

definition commit_completed :: "data_host \<Rightarrow> ('a writer_scheme, exn, data_session) exec" where
  "commit_completed h = eseq require_active (ebind (reading (host_now h)) (\<lambda>now.
     ebind (\<lambda>s. (data_session_post_init ((w_session s)\<lparr>ses_state := COMPLETED, ended_at := Some now, ses_updated_at := now\<rparr>), s)) (\<lambda>completed.
     ebind (etry (with_connection h (advance_session_state h completed))
       (\<lambda>e. if data_error e \<or> e \<in> {sqlite_error, os_error}
            then eseq (mark_failed h) (throw (Foreign ''data.session.finalize_failed'')) else throw e)) (\<lambda>advanced.
     if \<not> advanced then eseq (mark_failed h) (throw (Foreign ''data.session.completion_refused''))
     else eseq (put (\<lambda>s. s\<lparr>w_session := completed\<rparr>)) (ret completed)))))"

definition finalize :: "data_host \<Rightarrow> ('a writer_scheme, exn, data_session) exec" where
  "finalize h = eseq (flush_pending h) (commit_completed h)"

definition close :: "data_host \<Rightarrow> ('a writer_scheme, exn, unit) exec" where
  "close h = ebind (get (ses_state \<circ> w_session)) (\<lambda>x. if x = ACTIVE then ebind (finalize h) (\<lambda>_. ret ()) else ret ())"

definition fail :: "data_host \<Rightarrow> ('a writer_scheme, exn, bool) exec" where
  "fail h = ebind (get (ses_state \<circ> w_session)) (\<lambda>x.
     if x \<noteq> ACTIVE then ret False
     else eseq (put (\<lambda>s. s\<lparr>w_buffer := []\<rparr>)) (eseq (mark_failed h) (ret True)))"

section \<open>The service\<close>

definition new_session :: "pystr \<Rightarrow> pystr \<Rightarrow> pystr \<Rightarrow> int \<Rightarrow> data_session" where
  "new_session i project stream now =
     \<lparr>ses_id = i, ses_project = project, ses_stream = stream, ses_state = ACTIVE, started_at = now, ended_at = None,
      ses_frame_count = 0, ses_segment_count = 0, ses_first_sequence = None, ses_last_sequence = None,
      ses_first_timestamp = None, ses_last_timestamp = None, ses_created_at = now, ses_updated_at = now\<rparr>"

definition segments_directory :: "pystr list \<Rightarrow> pystr \<Rightarrow> pystr list" where
  "segments_directory base i = base @ [codes ''data'', codes ''sessions'', i, codes ''segments'']"

definition create_session_directory :: "data_host \<Rightarrow> pystr \<Rightarrow> ('a store_scheme, exn, unit) exec" where
  "create_session_directory h i = ebind (reading (host_mkdir h)) (\<lambda>fault.
     case fault of Some e \<Rightarrow> throw e
     | None \<Rightarrow> ebind (get (\<lambda>s. segments_directory (base_dir s) i)) (\<lambda>d.
         ebind (get (\<lambda>s. d \<in> set (directories s))) (\<lambda>there.
         if there then throw os_error else put (\<lambda>s. s\<lparr>directories := directories s @ [d]\<rparr>))))"

definition remove_directory_quietly :: "data_host \<Rightarrow> pystr \<Rightarrow> ('a store_scheme, exn, unit) exec" where
  "remove_directory_quietly h i = ebind (reading (host_litter h)) (\<lambda>stays.
     if stays then ret ()
     else put (\<lambda>s. s\<lparr>directories := filter (\<lambda>d. d \<noteq> segments_directory (base_dir s) i) (directories s)\<rparr>))"

text \<open>\<open>start\<close> hands out a writer with an empty buffer; here it becomes the writer of the state.\<close>

definition start :: "data_host \<Rightarrow> pystr \<Rightarrow> ('a writer_scheme, exn, unit) exec" where
  "start h stream =
     (if py_strip stream = [] then throw (Foreign ''data.session.invalid_stream_id'')
      else ebind (reading (host_now h)) (\<lambda>now. ebind (reading (host_uuid h)) (\<lambda>u.
        let i = uuid_text (unat u) in
        eseq (etry (create_session_directory h i)
          (\<lambda>e. if e = os_error then throw (Foreign ''data.session.directory_create_failed'') else throw e))
       (ebind (etry (with_connection h (ebind (get project_id) (\<lambda>p.
            ebind (lift (data_session_post_init (new_session i p stream now))) (\<lambda>x.
            eseq (insert_session h x) (ret x)))))
          (\<lambda>e. if data_error e \<or> e \<in> {sqlite_error, os_error}
               then eseq (remove_directory_quietly h i)
                 (throw (if data_error e then e else Foreign ''data.session.start_failed'')) else throw e)) (\<lambda>x.
        put (\<lambda>s. s\<lparr>w_session := x, w_buffer := [], last_appended_sequence := None, last_appended_timestamp := None\<rparr>))))))"

abbreviation invalid_session_id :: exn where
  "invalid_session_id \<equiv> Foreign ''data.session.invalid_session_id''"

definition get_session :: "data_host \<Rightarrow> pystr \<Rightarrow> ('a store_scheme, exn, data_session) exec" where
  "get_session h i = ebind (lift (normalize_uuid invalid_session_id i)) (\<lambda>n.
     ebind (with_connection h (read_session n)) (\<lambda>x. lift (require_registered_session x)))"

definition sessions_of :: "data_host \<Rightarrow> ('a store_scheme, exn, data_session list) exec" where
  "sessions_of h = with_connection h list_sessions"

definition segments_of :: "data_host \<Rightarrow> pystr \<Rightarrow> ('a store_scheme, exn, data_segment list) exec" where
  "segments_of h i = ebind (lift (normalize_uuid invalid_session_id i)) (\<lambda>n.
     with_connection h (ebind (read_session n) (\<lambda>x.
       eseq (lift (require_registered_session x)) (list_segments n))))"

definition require_bounds :: "data_segment \<Rightarrow> frame list \<Rightarrow> exn + frame list" where
  "require_bounds g fs =
     rbind (guard (int (length fs) = seg_frame_count g) (Foreign ''data.integrity.frame_count_mismatch'')) (\<lambda>_.
     if fs = [] then Inl (Foreign ''IndexError'')
     else rbind (guard (sequence (hd fs) = seg_first_sequence g \<and> sequence (last fs) = seg_last_sequence g)
       (Foreign ''data.integrity.sequence_mismatch'')) (\<lambda>_. Inr fs))"

definition read_registered :: "'a store_scheme \<Rightarrow> data_session \<Rightarrow> data_segment \<Rightarrow> exn + frame list" where
  "read_registered s x g =
     rbind (resolve_within_root (base_dir s) (relative_path g)) (\<lambda>p.
     let f = map_of (files s) p in
     rbind (guard (f \<noteq> None) (Foreign ''data.integrity.segment_missing'')) (\<lambda>_.
     rbind (require_registered_segment f x g) (\<lambda>_.
     rbind (read_segment_file f (Some (ses_id x)) (Some (ses_stream x)) (Some (seg_index g))) (\<lambda>fs.
       require_bounds g fs))))"

definition read_segment :: "data_host \<Rightarrow> pystr \<Rightarrow> int \<Rightarrow> ('a store_scheme, exn, frame list) exec" where
  "read_segment h i n = ebind (lift (normalize_uuid invalid_session_id i)) (\<lambda>m.
     ebind (with_connection h (ebind (read_session m) (\<lambda>r.
       ebind (lift (require_registered_session r)) (\<lambda>x.
       ebind (read_segment_row m n) (\<lambda>g. ret (x, g)))))) (\<lambda>(x, g).
     case g of None \<Rightarrow> throw (Foreign ''data.integrity.segment_missing'')
     | Some g \<Rightarrow> (\<lambda>s. (read_registered s x g, s))))"

fun mark_all_interrupted :: "data_host \<Rightarrow> int \<Rightarrow> data_session list \<Rightarrow> ('a store_scheme, exn, unit) exec" where
  "mark_all_interrupted h now [] = ret ()"
| "mark_all_interrupted h now (x # xs) =
     eseq (mark_session_interrupted h (ses_id x) now) (mark_all_interrupted h now xs)"

text \<open>Without a given instant the clock is read; a given one has a time zone.\<close>

definition recover_incomplete_sessions :: "data_host \<Rightarrow> int option \<Rightarrow> ('a store_scheme, exn, pystr list) exec" where
  "recover_incomplete_sessions h given =
     ebind (case given of None \<Rightarrow> reading (host_now h) | Some t \<Rightarrow> ret t) (\<lambda>now.
     with_connection h (ebind (list_sessions_in_state ACTIVE) (\<lambda>xs.
       eseq (mark_all_interrupted h now xs) (ret (map ses_id xs)))))"

definition fail_active_session :: "data_host \<Rightarrow> pystr \<Rightarrow> ('a store_scheme, exn, bool) exec" where
  "fail_active_session h i = ebind (lift (normalize_uuid invalid_session_id i)) (\<lambda>n.
     with_connection h (ebind (reading (host_now h)) (fail_active_row h n)))"

subsection \<open>Inspection\<close>

record integrity_report =
  scanned_sessions :: nat
  temporary_files :: "pystr list"
  orphan_segments :: "pystr list"
  missing_segments :: "pystr list"
  metadata_mismatches :: "pystr list"

definition clean :: "integrity_report \<Rightarrow> bool" where
  "clean r \<longleftrightarrow> temporary_files r = [] \<and> orphan_segments r = [] \<and> missing_segments r = [] \<and> metadata_mismatches r = []"

text \<open>The files under the sessions' directory, in the order of their paths, relative to the root.\<close>

definition scanned_files :: "'a store_scheme \<Rightarrow> pystr list list" where
  "scanned_files s =
     (let top = base_dir s @ [codes ''data'', codes ''sessions''] in
      map (drop (length (base_dir s)))
        (sort (filter (\<lambda>p. length top < length p \<and> take (length top) p = top) (map fst (files s)))))"

definition is_temporary :: "pystr list \<Rightarrow> bool" where
  "is_temporary p \<longleftrightarrow> ends_with (last p) (codes ''.parquet.tmp'')"

definition is_parquet :: "pystr list \<Rightarrow> bool" where
  "is_parquet p \<longleftrightarrow> ends_with (last p) (codes ''.parquet'') \<and> length ''.parquet'' < length (last p)"

definition missing_file :: "'a store_scheme \<Rightarrow> data_segment \<Rightarrow> bool" where
  "missing_file s g \<longleftrightarrow>
     (case resolve_within_root (base_dir s) (relative_path g) of Inl _ \<Rightarrow> False | Inr p \<Rightarrow> map_of (files s) p = None)"

definition mismatched_file :: "'a store_scheme \<Rightarrow> data_segment \<Rightarrow> bool" where
  "mismatched_file s g \<longleftrightarrow>
     (case resolve_within_root (base_dir s) (relative_path g) of Inl _ \<Rightarrow> True
      | Inr p \<Rightarrow> (case map_of (files s) p of None \<Rightarrow> False | Some d \<Rightarrow> size_on_disk d \<noteq> byte_size g))"

definition report_of :: "'a store_scheme \<Rightarrow> nat \<Rightarrow> data_segment list \<Rightarrow> integrity_report" where
  "report_of s n gs =
     (let known = sort_key relative_path gs in
      \<lparr>scanned_sessions = n,
       temporary_files = map join_slash (filter is_temporary (scanned_files s)),
       orphan_segments = filter (\<lambda>p. p \<notin> set (map relative_path gs))
         (map join_slash (filter (\<lambda>p. \<not> is_temporary p \<and> is_parquet p) (scanned_files s))),
       missing_segments = map relative_path (filter (missing_file s) known),
       metadata_mismatches = map relative_path (filter (mismatched_file s) known)\<rparr>)"

definition inspect_integrity :: "data_host \<Rightarrow> ('a store_scheme, exn, integrity_report) exec" where
  "inspect_integrity h =
     ebind (with_connection h (ebind list_sessions (\<lambda>xs. ebind list_all_segments (\<lambda>gs. ret (length xs, gs)))))
       (\<lambda>(n, gs) s. (Inr (report_of s n gs), s))"

end
