(* ===== verification/Query_Model.thy ===== *)
theory Query_Model
  imports Data_Session
begin

unbundle bit_operations_syntax

text \<open>
  The arguments and results of trace queries (\<open>query/model.py\<close>): filters, page requests,
  pages, summaries, histogram rows and plans, each with its constructor. A filter takes
  arguments of any type; what the engine builds itself has the right types already.
\<close>

section \<open>Checks\<close>

definition query_error :: "string \<Rightarrow> exn" where
  "query_error c = Foreign (''query.'' @ c)"

definition DEFAULT_FRAME_QUERY_LIMIT :: int where
  "DEFAULT_FRAME_QUERY_LIMIT = 1000"

definition MAX_QUERY_ROWS :: int where
  "MAX_QUERY_ROWS = 10000"

definition DEFAULT_ARBITRATION_ID_TOP_N :: int where
  "DEFAULT_ARBITRATION_ID_TOP_N = 100"

definition MAX_ARBITRATION_ID_TOP_N :: int where
  "MAX_ARBITRATION_ID_TOP_N = 1000"

definition MAX_ARBITRATION_ID :: int where
  "MAX_ARBITRATION_ID = 0x1FFFFFFF"

definition normalize_session_id :: "pyval \<Rightarrow> exn + pystr" where
  "normalize_session_id v =
     (case v of VStr s \<Rightarrow> normalize_uuid (query_error ''invalid_session_id'') s
      | _ \<Rightarrow> Inl (query_error ''invalid_session_id''))"

definition require_optional_sequence :: "pyval \<Rightarrow> exn + int option" where
  "require_optional_sequence v =
     (case v of VNone \<Rightarrow> Inr None
      | VInt i \<Rightarrow> if i < 0 then Inl (query_error ''invalid_sequence'') else Inr (Some i)
      | _ \<Rightarrow> Inl (query_error ''invalid_sequence''))"

text \<open>\<open>isfinite\<close> raises for an integer beyond the doubles, before the sign is looked at.\<close>

definition require_optional_timestamp :: "pyval \<Rightarrow> exn + pynum option" where
  "require_optional_timestamp v =
     (case v of VNone \<Rightarrow> Inr None
      | VInt i \<Rightarrow> if float_of_int i = None then Inl (Foreign ''OverflowError'')
          else if i < 0 then Inl (query_error ''invalid_timestamp'') else Inr (Some (IntNum i))
      | VFloat x \<Rightarrow> if \<not> isfinite x \<or> pf_less x (Fin 0) then Inl (query_error ''invalid_timestamp'')
          else Inr (Some (FloatNum x))
      | _ \<Rightarrow> Inl (query_error ''invalid_timestamp''))"

definition require_optional_bool :: "pyval \<Rightarrow> exn + bool option" where
  "require_optional_bool v =
     (case v of VNone \<Rightarrow> Inr None | VBool b \<Rightarrow> Inr (Some b) | _ \<Rightarrow> Inl (query_error ''invalid_flag''))"

definition require_query_count :: "string \<Rightarrow> int \<Rightarrow> exn + unit" where
  "require_query_count scope n = guard (0 \<le> n) (query_error (''invalid_'' @ scope))"

text \<open>An optional tuple: none, a tuple of values, or anything else.\<close>

datatype 'a opt_tuple = NotGiven | TupleOf "'a list" | NotATuple

definition each_member :: "exn \<Rightarrow> ('a \<Rightarrow> exn + 'b) \<Rightarrow> 'a opt_tuple \<Rightarrow> exn + 'b list option" where
  "each_member e check v =
     (case v of NotGiven \<Rightarrow> Inr None | NotATuple \<Rightarrow> Inl e
      | TupleOf xs \<Rightarrow> if xs = [] then Inl e else rbind (rmap check xs) (\<lambda>ys. Inr (Some ys)))"

definition channel_member :: "pyval \<Rightarrow> exn + pystr" where
  "channel_member v =
     (case v of VStr s \<Rightarrow> if py_strip s = [] then Inl (query_error ''invalid_channel_id'') else Inr s
      | _ \<Rightarrow> Inl (query_error ''invalid_channel_id''))"

definition normalize_channel_ids :: "pyval opt_tuple \<Rightarrow> exn + pystr list option" where
  "normalize_channel_ids = each_member (query_error ''invalid_channel_id'') channel_member"

definition arbitration_member :: "pyval \<Rightarrow> exn + int" where
  "arbitration_member v =
     (case v of VInt i \<Rightarrow> if 0 \<le> i \<and> i \<le> MAX_ARBITRATION_ID then Inr i else Inl (query_error ''invalid_arbitration_id'')
      | _ \<Rightarrow> Inl (query_error ''invalid_arbitration_id''))"

definition normalize_arbitration_ids :: "pyval opt_tuple \<Rightarrow> exn + int list option" where
  "normalize_arbitration_ids = each_member (query_error ''invalid_arbitration_id'') arbitration_member"

definition require_optional_arbitration_id :: "pyval \<Rightarrow> exn + int option" where
  "require_optional_arbitration_id v =
     (if v = VNone then Inr None else rbind (arbitration_member v) (\<lambda>i. Inr (Some i)))"

definition direction_member :: "direction + pyval \<Rightarrow> exn + direction" where
  "direction_member v = (case v of Inl d \<Rightarrow> Inr d | Inr _ \<Rightarrow> Inl (query_error ''invalid_direction''))"

definition normalize_directions :: "(direction + pyval) opt_tuple \<Rightarrow> exn + direction list option" where
  "normalize_directions = each_member (query_error ''invalid_direction'') direction_member"

section \<open>Filters\<close>

record frame_filter =
  flt_session :: pystr
  sequence_start :: "int option"
  sequence_end :: "int option"
  timestamp_start :: "pynum option"
  timestamp_end :: "pynum option"
  channel_ids :: "pystr list option"
  arbitration_ids :: "int list option"
  directions :: "direction list option"
  flt_is_extended :: "bool option"
  flt_is_fd :: "bool option"
  id_start :: "int option"
  id_end :: "int option"
  id_mask :: "int option"
  id_mask_value :: "int option"

record filter_args =
  arg_flt_session :: pyval
  arg_sequence_start :: pyval
  arg_sequence_end :: pyval
  arg_timestamp_start :: pyval
  arg_timestamp_end :: pyval
  arg_channel_ids :: "pyval opt_tuple"
  arg_arbitration_ids :: "pyval opt_tuple"
  arg_directions :: "(direction + pyval) opt_tuple"
  arg_flt_is_extended :: pyval
  arg_flt_is_fd :: pyval
  arg_id_start :: pyval
  arg_id_end :: pyval
  arg_id_mask :: pyval
  arg_id_mask_value :: pyval

text \<open>Of two bounds that are both given the second must not be smaller.\<close>

definition in_order :: "('a \<Rightarrow> 'a \<Rightarrow> bool) \<Rightarrow> 'a option \<Rightarrow> 'a option \<Rightarrow> bool" where
  "in_order lt a b = (case (a, b) of (Some x, Some y) \<Rightarrow> \<not> lt y x | _ \<Rightarrow> True)"

definition frame_filter_post_init :: "filter_args \<Rightarrow> exn + frame_filter" where
  "frame_filter_post_init a =
     rbind (normalize_session_id (arg_flt_session a)) (\<lambda>i.
     rbind (require_optional_sequence (arg_sequence_start a)) (\<lambda>s0.
     rbind (require_optional_sequence (arg_sequence_end a)) (\<lambda>s1.
     rbind (guard (in_order (<) s0 s1) (query_error ''invalid_sequence_range'')) (\<lambda>_.
     rbind (require_optional_timestamp (arg_timestamp_start a)) (\<lambda>t0.
     rbind (require_optional_timestamp (arg_timestamp_end a)) (\<lambda>t1.
     rbind (guard (in_order num_less t0 t1) (query_error ''invalid_timestamp_range'')) (\<lambda>_.
     rbind (normalize_channel_ids (arg_channel_ids a)) (\<lambda>ch.
     rbind (normalize_arbitration_ids (arg_arbitration_ids a)) (\<lambda>ids.
     rbind (normalize_directions (arg_directions a)) (\<lambda>ds.
     rbind (require_optional_bool (arg_flt_is_extended a)) (\<lambda>ext.
     rbind (require_optional_bool (arg_flt_is_fd a)) (\<lambda>fd.
     rbind (require_optional_arbitration_id (arg_id_start a)) (\<lambda>a0.
     rbind (require_optional_arbitration_id (arg_id_end a)) (\<lambda>a1.
     rbind (guard (in_order (<) a0 a1) (query_error ''invalid_arbitration_id_range'')) (\<lambda>_.
     rbind (require_optional_arbitration_id (arg_id_mask a)) (\<lambda>m.
     rbind (require_optional_arbitration_id (arg_id_mask_value a)) (\<lambda>v.
     rbind (guard ((m = None) = (v = None)) (query_error ''invalid_arbitration_id_mask'')) (\<lambda>_.
     Inr \<lparr>flt_session = i, sequence_start = s0, sequence_end = s1, timestamp_start = t0, timestamp_end = t1,
       channel_ids = ch, arbitration_ids = ids, directions = ds, flt_is_extended = ext, flt_is_fd = fd,
       id_start = a0, id_end = a1, id_mask = m, id_mask_value = v\<rparr>))))))))))))))))))"

definition arbitration_id_mask_target :: "frame_filter \<Rightarrow> int option" where
  "arbitration_id_mask_target f =
     (case (id_mask f, id_mask_value f) of (Some m, Some v) \<Rightarrow> Some (v AND m) | _ \<Rightarrow> None)"

section \<open>Requests and results\<close>

record frame_query =
  query_filter :: frame_filter
  after_sequence :: "int option"
  query_limit :: int

definition frame_query_post_init :: "frame_filter option \<Rightarrow> pyval \<Rightarrow> pyval \<Rightarrow> exn + frame_query" where
  "frame_query_post_init flt after limit =
     (case flt of None \<Rightarrow> Inl (query_error ''invalid_filter'')
      | Some f \<Rightarrow>
        rbind (require_optional_sequence after) (\<lambda>n.
        case limit of
          VInt k \<Rightarrow> if k \<le> 0 then Inl (query_error ''invalid_limit'')
            else if k > MAX_QUERY_ROWS then Inl (query_error ''limit_exceeded'')
            else Inr \<lparr>query_filter = f, after_sequence = n, query_limit = k\<rparr>
        | _ \<Rightarrow> Inl (query_error ''invalid_limit'')))"

record frame_query_page =
  page_session :: pystr
  page_frames :: "frame list"
  has_more :: bool
  next_after_sequence :: "int option"

definition frame_query_page_post_init :: "frame_query_page \<Rightarrow> exn + frame_query_page" where
  "frame_query_page_post_init p =
     rbind (normalize_session_id (VStr (page_session p))) (\<lambda>i.
     rbind (guard (if has_more p
         then page_frames p \<noteq> [] \<and> next_after_sequence p = Some (sequence (last (page_frames p)))
         else next_after_sequence p = None) (query_error ''invalid_page'')) (\<lambda>_.
     Inr (p\<lparr>page_session := i\<rparr>)))"

record frame_query_summary =
  sum_session :: pystr
  matching_frame_count :: int
  sum_first_sequence :: "int option"
  sum_last_sequence :: "int option"
  sum_first_timestamp :: "pynum option"
  sum_last_timestamp :: "pynum option"

definition frame_query_summary_post_init :: "frame_query_summary \<Rightarrow> exn + frame_query_summary" where
  "frame_query_summary_post_init s =
     rbind (normalize_session_id (VStr (sum_session s))) (\<lambda>i.
     rbind (require_query_count ''summary'' (matching_frame_count s)) (\<lambda>_.
     let none = (sum_first_sequence s = None \<and> sum_last_sequence s = None \<and>
           sum_first_timestamp s = None \<and> sum_last_timestamp s = None);
         some = (sum_first_sequence s \<noteq> None \<and> sum_last_sequence s \<noteq> None \<and>
           sum_first_timestamp s \<noteq> None \<and> sum_last_timestamp s \<noteq> None)
     in rbind (guard (if matching_frame_count s = 0 then none
          else some \<and> in_order (<) (sum_first_sequence s) (sum_last_sequence s) \<and>
            in_order num_less (sum_first_timestamp s) (sum_last_timestamp s)) (query_error ''invalid_summary'')) (\<lambda>_.
        Inr (s\<lparr>sum_session := i\<rparr>))))"

record arbitration_id_count =
  count_id :: int
  count_extended :: bool
  count_frames :: int

definition arbitration_id_count_post_init :: "arbitration_id_count \<Rightarrow> exn + arbitration_id_count" where
  "arbitration_id_count_post_init c =
     rbind (guard (0 \<le> count_id c \<and> count_id c \<le> MAX_ARBITRATION_ID) (query_error ''invalid_arbitration_id'')) (\<lambda>_.
     rbind (guard (0 < count_frames c) (query_error ''invalid_arbitration_id_count'')) (\<lambda>_. Inr c))"

record query_plan =
  plan_session :: pystr
  registered_segment_count :: int
  candidate_segment_count :: int
  relative_paths :: "pystr list"

definition query_plan_post_init :: "query_plan \<Rightarrow> exn + query_plan" where
  "query_plan_post_init p =
     rbind (normalize_session_id (VStr (plan_session p))) (\<lambda>i.
     rbind (require_query_count ''plan'' (registered_segment_count p)) (\<lambda>_.
     rbind (require_query_count ''plan'' (candidate_segment_count p)) (\<lambda>_.
     rbind (guard (candidate_segment_count p \<le> registered_segment_count p) (query_error ''invalid_plan'')) (\<lambda>_.
     rbind (guard (int (length (relative_paths p)) = candidate_segment_count p) (query_error ''invalid_plan'')) (\<lambda>_.
       Inr (p\<lparr>plan_session := i\<rparr>))))))"

definition pruned_segment_count :: "query_plan \<Rightarrow> int" where
  "pruned_segment_count p = registered_segment_count p - candidate_segment_count p"

definition plan_empty :: "query_plan \<Rightarrow> bool" where
  "plan_empty p \<longleftrightarrow> candidate_segment_count p = 0"

section \<open>Lemmas\<close>

text \<open>The arguments that make a given filter, and the filters that exist.\<close>

definition opt_val :: "('a \<Rightarrow> pyval) \<Rightarrow> 'a option \<Rightarrow> pyval" where
  "opt_val f x = (case x of None \<Rightarrow> VNone | Some a \<Rightarrow> f a)"

definition tuple_val :: "('a \<Rightarrow> 'b) \<Rightarrow> 'a list option \<Rightarrow> 'b opt_tuple" where
  "tuple_val f x = (case x of None \<Rightarrow> NotGiven | Some xs \<Rightarrow> TupleOf (map f xs))"

definition filter_args_of :: "frame_filter \<Rightarrow> filter_args" where
  "filter_args_of f = \<lparr>arg_flt_session = VStr (flt_session f), arg_sequence_start = opt_val VInt (sequence_start f),
     arg_sequence_end = opt_val VInt (sequence_end f), arg_timestamp_start = opt_val num_val (timestamp_start f),
     arg_timestamp_end = opt_val num_val (timestamp_end f), arg_channel_ids = tuple_val VStr (channel_ids f),
     arg_arbitration_ids = tuple_val VInt (arbitration_ids f), arg_directions = tuple_val Inl (directions f),
     arg_flt_is_extended = opt_val VBool (flt_is_extended f), arg_flt_is_fd = opt_val VBool (flt_is_fd f),
     arg_id_start = opt_val VInt (id_start f), arg_id_end = opt_val VInt (id_end f), arg_id_mask = opt_val VInt (id_mask f),
     arg_id_mask_value = opt_val VInt (id_mask_value f)\<rparr>"

definition valid_id :: "int \<Rightarrow> bool" where
  "valid_id i \<longleftrightarrow> 0 \<le> i \<and> i < 2 ^ 29"

definition valid_members :: "('a \<Rightarrow> bool) \<Rightarrow> 'a list option \<Rightarrow> bool" where
  "valid_members P x \<longleftrightarrow> pred_option (\<lambda>xs. xs \<noteq> [] \<and> list_all P xs) x"

definition valid_filter :: "frame_filter \<Rightarrow> bool" where
  "valid_filter f \<longleftrightarrow>
     is_uuid (flt_session f) \<and> pred_option ((\<le>) 0) (sequence_start f) \<and> pred_option ((\<le>) 0) (sequence_end f) \<and>
     in_order (<) (sequence_start f) (sequence_end f) \<and>
     pred_option valid_number (timestamp_start f) \<and> pred_option valid_number (timestamp_end f) \<and>
     in_order num_less (timestamp_start f) (timestamp_end f) \<and>
     valid_members (\<lambda>s. py_strip s \<noteq> []) (channel_ids f) \<and> valid_members valid_id (arbitration_ids f) \<and>
     valid_members (\<lambda>_. True) (directions f) \<and> pred_option valid_id (id_start f) \<and> pred_option valid_id (id_end f) \<and>
     in_order (<) (id_start f) (id_end f) \<and> pred_option valid_id (id_mask f) \<and> pred_option valid_id (id_mask_value f) \<and>
     (id_mask f = None) = (id_mask_value f = None)"

lemma require_optional_sequence_Inr:
  "require_optional_sequence v = Inr x \<longleftrightarrow> v = opt_val VInt x \<and> pred_option ((\<le>) 0) x"
  by (cases v; cases x) (auto simp: require_optional_sequence_def opt_val_def)

lemma require_optional_timestamp_Inr:
  "require_optional_timestamp v = Inr x \<longleftrightarrow> v = opt_val num_val x \<and> pred_option valid_number x"
  by (cases v; cases x)
    (auto simp: require_optional_timestamp_def opt_val_def num_val_def valid_number_def split: pynum.splits if_splits)

lemma require_optional_bool_Inr: "require_optional_bool v = Inr x \<longleftrightarrow> v = opt_val VBool x"
  by (cases v; cases x) (auto simp: require_optional_bool_def opt_val_def)

lemma rmap_Inr_map:
  assumes "\<And>x y. check x = Inr y \<longleftrightarrow> x = val y \<and> P y"
  shows "rmap check xs = Inr ys \<longleftrightarrow> xs = map val ys \<and> list_all P ys"
proof (induction xs arbitrary: ys)
  case (Cons x xs)
  show ?case
  proof (cases ys)
    case (Cons y zs)
    then show ?thesis by (simp add: rbind_Inr_iff assms Cons.IH) blast
  qed (simp add: rbind_Inr_iff)
qed auto

lemma each_member_Inr:
  assumes "\<And>x y. check x = Inr y \<longleftrightarrow> x = val y \<and> P y"
  shows "each_member e check v = Inr r \<longleftrightarrow> v = tuple_val val r \<and> valid_members P r"
  by (cases v; cases r) (auto simp: each_member_def tuple_val_def valid_members_def rbind_Inr_iff rmap_Inr_map [OF assms])

lemma channel_member_Inr: "channel_member x = Inr y \<longleftrightarrow> x = VStr y \<and> py_strip y \<noteq> []"
  by (cases x) (auto simp: channel_member_def)

lemma arbitration_member_Inr: "arbitration_member x = Inr y \<longleftrightarrow> x = VInt y \<and> valid_id y"
  by (cases x) (auto simp: arbitration_member_def valid_id_def MAX_ARBITRATION_ID_def)

lemma direction_member_Inr: "direction_member x = Inr y \<longleftrightarrow> x = Inl y \<and> True"
  by (cases x) (auto simp: direction_member_def)

lemma require_optional_arbitration_id_Inr:
  "require_optional_arbitration_id v = Inr x \<longleftrightarrow> v = opt_val VInt x \<and> pred_option valid_id x"
  by (cases x) (auto simp: require_optional_arbitration_id_def opt_val_def rbind_Inr_iff arbitration_member_Inr)

lemma normalize_session_id_Inr:
  "normalize_session_id v = Inr i \<longleftrightarrow> (\<exists>s. v = VStr s \<and> normalize_uuid (query_error ''invalid_session_id'') s = Inr i)"
  by (cases v) (auto simp: normalize_session_id_def)

lemma normalize_session_uuid [simp]: "is_uuid i \<Longrightarrow> normalize_session_id (VStr i) = Inr i"
  by (simp add: normalize_session_id_def)

lemmas filter_checks = rbind_Inr_iff require_optional_sequence_Inr require_optional_timestamp_Inr
  require_optional_bool_Inr require_optional_arbitration_id_Inr normalize_channel_ids_def normalize_arbitration_ids_def
  normalize_directions_def each_member_Inr [OF channel_member_Inr] each_member_Inr [OF arbitration_member_Inr]
  each_member_Inr [OF direction_member_Inr] normalize_session_id_Inr

lemma opt_val_inject:
  "opt_val VInt x = opt_val VInt y \<longleftrightarrow> x = y" "opt_val VBool p = opt_val VBool q \<longleftrightarrow> p = q"
  "opt_val num_val s = opt_val num_val t \<longleftrightarrow> s = t"
  by (auto simp: opt_val_def num_val_def split: option.splits pynum.splits)

lemma tuple_val_inject:
  "tuple_val VInt x = tuple_val VInt y \<longleftrightarrow> x = y" "tuple_val VStr p = tuple_val VStr q \<longleftrightarrow> p = q"
  "tuple_val Inl ds = tuple_val Inl es \<longleftrightarrow> ds = es"
  by (auto simp: tuple_val_def inj_map_eq_map inj_def split: option.splits)

lemma frame_filter_post_init_Inr:
  "frame_filter_post_init a = Inr f \<longleftrightarrow> valid_filter f \<and>
     (\<exists>s. a = (filter_args_of f)\<lparr>arg_flt_session := VStr s\<rparr> \<and>
       normalize_uuid (query_error ''invalid_session_id'') s = Inr (flt_session f))"
  (is "?built \<longleftrightarrow> valid_filter f \<and> ?args")
proof
  assume ?built
  then show "valid_filter f \<and> ?args"
    unfolding frame_filter_post_init_def filter_checks guard_simps sum.inject
    apply (cases a)
    apply (elim exE conjE)
    apply (frule normalize_uuid_Inr)
    apply (hypsubst_thin, rule conjI)
     apply (unfold valid_filter_def frame_filter.simps)
     apply (intro conjI; assumption)
    apply (rule exI, rule conjI [rotated], assumption)
    apply (simp only: filter_args_of_def filter_args.simps frame_filter.simps)
    done
next
  assume "valid_filter f \<and> ?args"
  then obtain s where s: "valid_filter f" "a = (filter_args_of f)\<lparr>arg_flt_session := VStr s\<rparr>"
    "normalize_uuid (query_error ''invalid_session_id'') s = Inr (flt_session f)" by blast
  then show ?built
    unfolding frame_filter_post_init_def filter_checks guard_simps
    by (simp add: valid_filter_def filter_args_of_def opt_val_inject tuple_val_inject)
qed

lemma page_post_init:
  "is_uuid (page_session p) \<Longrightarrow> frame_query_page_post_init p =
     (if (if has_more p then page_frames p \<noteq> [] \<and> next_after_sequence p = Some (sequence (last (page_frames p)))
          else next_after_sequence p = None) then Inr p else Inl (query_error ''invalid_page''))"
  by (simp add: frame_query_page_post_init_def guard_def)

end
