(* ===== verification/Query.thy ===== *)
theory Query
  imports Query_Model
begin

text \<open>
  Trace queries: the pruning of segments (\<open>query/planning.py\<close>), the statements the engine
  hands to DuckDB and what it makes of the rows (\<open>query/engine.py\<close>), and the service that
  freezes a session's committed segments, checks their files and asks the engine
  (\<open>query/service.py\<close>). DuckDB is an argument: it gets the text of a statement, its values, the path patterns and the
  files, and returns rows or raises.
\<close>

section \<open>Planning\<close>

definition may_match :: "data_segment \<Rightarrow> frame_filter \<Rightarrow> int option \<Rightarrow> bool" where
  "may_match g f after \<longleftrightarrow>
     pred_option (\<lambda>n. \<not> seg_last_sequence g < n) (sequence_start f) \<and>
     pred_option (\<lambda>n. \<not> seg_first_sequence g > n) (sequence_end f) \<and>
     pred_option (\<lambda>n. seg_last_sequence g > n) after"

definition plan_segments :: "data_segment list \<Rightarrow> frame_filter \<Rightarrow> int option \<Rightarrow> exn + query_plan" where
  "plan_segments gs f after =
     rbind (guard (pred_option ((\<le>) 0) after) (query_error ''invalid_sequence'')) (\<lambda>_.
     rbind (guard (list_all (\<lambda>g. seg_session g = flt_session f) gs) (query_error ''session_mismatch'')) (\<lambda>_.
     let candidates = filter (\<lambda>g. may_match g f after) gs in
     query_plan_post_init \<lparr>plan_session = flt_session f, registered_segment_count = int (length gs),
       candidate_segment_count = int (length candidates), relative_paths = map relative_path candidates\<rparr>))"

section \<open>Statements\<close>

text \<open>A clause with the values bound to its placeholders; its text is fixed but for their number.\<close>

datatype clause =
    SequenceFrom int
  | SequenceTo int
  | SequenceAfter int
  | TimestampFrom pyfloat
  | TimestampTo pyfloat
  | ChannelIn "pystr list"
  | ArbitrationIn "int list"
  | ArbitrationFrom int
  | ArbitrationTo int
  | ArbitrationMasked int int
  | DirectionIn "pystr list"
  | ExtendedIs bool
  | FdIs bool

definition placeholders :: "nat \<Rightarrow> string" where
  "placeholders n = joined '', '' (replicate n ''?'')"

fun clause_text :: "clause \<Rightarrow> string" where
  "clause_text (SequenceFrom _) = ''sequence >= ?''"
| "clause_text (SequenceTo _) = ''sequence <= ?''"
| "clause_text (SequenceAfter _) = ''sequence > ?''"
| "clause_text (TimestampFrom _) = ''normalized_timestamp >= ?''"
| "clause_text (TimestampTo _) = ''normalized_timestamp <= ?''"
| "clause_text (ChannelIn cs) = ''channel_id IN ('' @ placeholders (length cs) @ '')''"
| "clause_text (ArbitrationIn is) = ''arbitration_id IN ('' @ placeholders (length is) @ '')''"
| "clause_text (ArbitrationFrom _) = ''arbitration_id >= ?''"
| "clause_text (ArbitrationTo _) = ''arbitration_id <= ?''"
| "clause_text (ArbitrationMasked _ _) = ''(arbitration_id & ?) = ?''"
| "clause_text (DirectionIn ds) = ''direction IN ('' @ placeholders (length ds) @ '')''"
| "clause_text (ExtendedIs _) = ''is_extended = ?''"
| "clause_text (FdIs _) = ''is_fd = ?''"

fun clause_parameters :: "clause \<Rightarrow> pyval list" where
  "clause_parameters (SequenceFrom n) = [VInt n]"
| "clause_parameters (SequenceTo n) = [VInt n]"
| "clause_parameters (SequenceAfter n) = [VInt n]"
| "clause_parameters (TimestampFrom t) = [VFloat t]"
| "clause_parameters (TimestampTo t) = [VFloat t]"
| "clause_parameters (ChannelIn cs) = map VStr cs"
| "clause_parameters (ArbitrationIn is) = map VInt is"
| "clause_parameters (ArbitrationFrom n) = [VInt n]"
| "clause_parameters (ArbitrationTo n) = [VInt n]"
| "clause_parameters (ArbitrationMasked m t) = [VInt m, VInt t]"
| "clause_parameters (DirectionIn ds) = map VStr ds"
| "clause_parameters (ExtendedIs b) = [VBool b]"
| "clause_parameters (FdIs b) = [VBool b]"

text \<open>The clause of a restriction that may be absent.\<close>

definition clause_of :: "('a \<Rightarrow> exn + clause) \<Rightarrow> 'a option \<Rightarrow> exn + clause list" where
  "clause_of f x = (case x of None \<Rightarrow> Inr [] | Some a \<Rightarrow> rbind (f a) (\<lambda>c. Inr [c]))"

definition frame_predicates :: "frame_filter \<Rightarrow> exn + clause list" where
  "frame_predicates f =
     rbind (clause_of (\<lambda>t. rbind (as_float t) (\<lambda>x. Inr (TimestampFrom x))) (timestamp_start f)) (\<lambda>t0.
     rbind (clause_of (\<lambda>t. rbind (as_float t) (\<lambda>x. Inr (TimestampTo x))) (timestamp_end f)) (\<lambda>t1.
     rbind (rmap id
      [clause_of (Inr \<circ> SequenceFrom) (sequence_start f), clause_of (Inr \<circ> SequenceTo) (sequence_end f), Inr t0, Inr t1,
       clause_of (Inr \<circ> ChannelIn) (channel_ids f), clause_of (Inr \<circ> ArbitrationIn) (arbitration_ids f),
       clause_of (Inr \<circ> ArbitrationFrom) (id_start f), clause_of (Inr \<circ> ArbitrationTo) (id_end f),
       (case (id_mask f, arbitration_id_mask_target f) of (Some m, Some t) \<Rightarrow> Inr [ArbitrationMasked m t] | _ \<Rightarrow> Inr []),
       clause_of (Inr \<circ> DirectionIn \<circ> map direction_value) (directions f),
       clause_of (Inr \<circ> ExtendedIs) (flt_is_extended f), clause_of (Inr \<circ> FdIs) (flt_is_fd f)])
      (\<lambda>css. Inr (concat css))))"

datatype statement =
    SelectFrames "clause list" int
  | Summarize "clause list"
  | CountIds "clause list" int

definition SELECTED_COLUMNS :: "string list" where
  "SELECTED_COLUMNS =
     [''sequence'', ''channel_id'', ''arbitration_id'', ''is_extended'', ''is_fd'', ''bitrate_switch'',
      ''error_state_indicator'', ''dlc'', ''data'', ''direction'', ''hardware_timestamp'', ''host_timestamp'',
      ''normalized_timestamp'', ''clock_domain'', ''timestamp_quality'', ''flags'']"

definition where_text :: "clause list \<Rightarrow> string" where
  "where_text cs = (if cs = [] then '''' else '' WHERE '' @ joined '' AND '' (map clause_text cs))"

fun statement_text :: "statement \<Rightarrow> string" where
  "statement_text (SelectFrames cs _) =
     ''SELECT '' @ joined '', '' SELECTED_COLUMNS @ '' FROM read_parquet(?)'' @ where_text cs @ '' ORDER BY sequence ASC LIMIT ?''"
| "statement_text (Summarize cs) =
     ''SELECT count(*), min(sequence), max(sequence), min(normalized_timestamp), max(normalized_timestamp)'' @
     '' FROM read_parquet(?)'' @ where_text cs"
| "statement_text (CountIds cs _) =
     ''SELECT arbitration_id, is_extended, count(*) AS frame_count FROM read_parquet(?)'' @ where_text cs @
     '' GROUP BY arbitration_id, is_extended ORDER BY frame_count DESC, arbitration_id ASC LIMIT ?''"

text \<open>The values bound, without the list of paths, which comes first.\<close>

fun statement_parameters :: "statement \<Rightarrow> pyval list" where
  "statement_parameters (SelectFrames cs n) = concat (map clause_parameters cs) @ [VInt n]"
| "statement_parameters (Summarize cs) = concat (map clause_parameters cs)"
| "statement_parameters (CountIds cs n) = concat (map clause_parameters cs) @ [VInt n]"

text \<open>DuckDB resolves a path as a glob pattern; every metacharacter becomes a class of its own.\<close>

fun glob_escape :: "pystr \<Rightarrow> pystr" where
  "glob_escape [] = []"
| "glob_escape (c # s) = (if c \<in> set (codes ''[*?'') then codes ''['' @ [c] @ codes '']'' else [c]) @ glob_escape s"

definition path_list :: "pystr list list \<Rightarrow> pystr list list" where
  "path_list paths = map (map glob_escape) paths"

section \<open>The engine\<close>

type_synonym store_files = "(pystr list \<times> disk_file) list"
type_synonym duck = "string \<Rightarrow> pyval list \<Rightarrow> pystr list list \<Rightarrow> store_files \<Rightarrow> exn + pyval list list"

definition run_statement :: "duck \<Rightarrow> statement \<Rightarrow> pystr list list \<Rightarrow> store_files \<Rightarrow> exn + pyval list list" where
  "run_statement db st paths fl =
     (case db (statement_text st) (statement_parameters st) (path_list paths) fl of
        Inl e \<Rightarrow> Inl (if e = Foreign ''duckdb.Error'' then query_error ''execution_failed'' else e)
      | Inr rows \<Rightarrow> Inr rows)"

text \<open>
  Python's conversions of a cell. A cell has the type of its column or is NULL; \<open>str\<close> and
  \<open>bool\<close> accept NULL.
\<close>

definition type_error :: exn where
  "type_error = Foreign ''TypeError''"

definition to_int :: "pyval \<Rightarrow> exn + pyval" where
  "to_int v = (case v of VInt i \<Rightarrow> Inr (VInt i) | _ \<Rightarrow> Inl type_error)"

definition to_str :: "pyval \<Rightarrow> exn + pyval" where
  "to_str v = (case v of VStr s \<Rightarrow> Inr (VStr s) | VNone \<Rightarrow> Inr (VStr (codes ''None'')) | _ \<Rightarrow> Inl type_error)"

definition to_bool :: "pyval \<Rightarrow> exn + pyval" where
  "to_bool v = (case v of VBool b \<Rightarrow> Inr (VBool b) | VNone \<Rightarrow> Inr (VBool False) | _ \<Rightarrow> Inl type_error)"

definition to_bytes :: "pyval \<Rightarrow> exn + pyval" where
  "to_bytes v = (case v of VBytes b \<Rightarrow> Inr (VBytes b) | _ \<Rightarrow> Inl type_error)"

definition to_float :: "pyval \<Rightarrow> exn + pyval" where
  "to_float v = (case v of VFloat x \<Rightarrow> Inr (VFloat x) | _ \<Rightarrow> Inl type_error)"

definition to_optional_float :: "pyval \<Rightarrow> exn + pyval" where
  "to_optional_float v = (if v = VNone then Inr VNone else to_float v)"

definition FRAME_CONVERSIONS :: "(pyval \<Rightarrow> exn + pyval) list" where
  "FRAME_CONVERSIONS = [to_int, to_str, to_int, to_bool, to_bool, to_bool, to_bool, to_int, to_bytes, to_str,
     to_optional_float, to_float, to_float, to_str, to_str, to_int]"

text \<open>A row of another length is refused before any conversion, with the error of \<open>zip\<close>.\<close>

definition row_to_frame :: "pyval list \<Rightarrow> exn + frame" where
  "row_to_frame row =
     rbind (guard (length row = length SELECTED_COLUMNS) value_error) (\<lambda>_.
     invalid_rows (query_error ''frame_invalid'')
      (rbind (rmap (\<lambda>(f, v). f v) (zip FRAME_CONVERSIONS row)) frame_of_row))"

definition empty_page :: "pystr \<Rightarrow> exn + frame_query_page" where
  "empty_page i = frame_query_page_post_init
     \<lparr>page_session = i, page_frames = [], has_more = False, next_after_sequence = None\<rparr>"

definition engine_query_frames ::
    "duck \<Rightarrow> store_files \<Rightarrow> pystr list list \<Rightarrow> frame_filter \<Rightarrow> int option \<Rightarrow> int \<Rightarrow> exn + frame_query_page" where
  "engine_query_frames db fl paths f after limit =
     (if paths = [] then empty_page (flt_session f)
      else rbind (frame_predicates f) (\<lambda>cs.
        let clauses = cs @ (case after of None \<Rightarrow> [] | Some n \<Rightarrow> [SequenceAfter n]) in
        rbind (run_statement db (SelectFrames clauses (limit + 1)) paths fl) (\<lambda>rows.
        let more = int (length rows) > limit; page_rows = (if more then take (nat limit) rows else rows) in
        rbind (rmap row_to_frame page_rows) (\<lambda>fs.
        frame_query_page_post_init \<lparr>page_session = flt_session f, page_frames = fs, has_more = more,
          next_after_sequence = (if more \<and> fs \<noteq> [] then Some (sequence (last fs)) else None)\<rparr>))))"

definition empty_summary :: "pystr \<Rightarrow> exn + frame_query_summary" where
  "empty_summary i = frame_query_summary_post_init \<lparr>sum_session = i, matching_frame_count = 0, sum_first_sequence = None,
     sum_last_sequence = None, sum_first_timestamp = None, sum_last_timestamp = None\<rparr>"

text \<open>The cells of an aggregate: an integer or a float that is not NULL, or the TypeError of its conversion.\<close>

definition int_cell :: "pyval \<Rightarrow> exn + int" where
  "int_cell v = (case v of VInt i \<Rightarrow> Inr i | _ \<Rightarrow> Inl type_error)"

definition float_cell :: "pyval \<Rightarrow> exn + pynum" where
  "float_cell v = (case v of VFloat x \<Rightarrow> Inr (FloatNum x) | _ \<Rightarrow> Inl type_error)"

definition engine_summarize :: "duck \<Rightarrow> store_files \<Rightarrow> pystr list list \<Rightarrow> frame_filter \<Rightarrow> exn + frame_query_summary" where
  "engine_summarize db fl paths f =
     (if paths = [] then empty_summary (flt_session f)
      else rbind (frame_predicates f) (\<lambda>cs.
        rbind (run_statement db (Summarize cs) paths fl) (\<lambda>rows.
        case rows of [] \<Rightarrow> empty_summary (flt_session f)
        | row # _ \<Rightarrow>
          (case row of
             [n, s0, s1, t0, t1] \<Rightarrow>
               rbind (int_cell n) (\<lambda>count.
               if count = 0 then empty_summary (flt_session f)
               else rbind (int_cell s0) (\<lambda>first. rbind (int_cell s1) (\<lambda>final.
                 rbind (float_cell t0) (\<lambda>start. rbind (float_cell t1) (\<lambda>stop.
                 frame_query_summary_post_init \<lparr>sum_session = flt_session f, matching_frame_count = count,
                   sum_first_sequence = Some first, sum_last_sequence = Some final,
                   sum_first_timestamp = Some start, sum_last_timestamp = Some stop\<rparr>)))))
           | _ \<Rightarrow> Inl value_error))))"

definition bool_cell :: "pyval \<Rightarrow> exn + bool" where
  "bool_cell v = (case v of VBool b \<Rightarrow> Inr b | VNone \<Rightarrow> Inr False | _ \<Rightarrow> Inl type_error)"

definition row_to_arbitration_count :: "pyval list \<Rightarrow> exn + arbitration_id_count" where
  "row_to_arbitration_count row =
     (case row of
        a # b # c # _ \<Rightarrow>
          rbind (invalid_rows (query_error ''frame_invalid'')
            (rbind (int_cell a) (\<lambda>i. rbind (bool_cell b) (\<lambda>ext. rbind (int_cell c) (\<lambda>n. Inr (i, ext, n))))))
          (\<lambda>(i, ext, n). arbitration_id_count_post_init \<lparr>count_id = i, count_extended = ext, count_frames = n\<rparr>)
      | _ \<Rightarrow> Inl (query_error ''frame_invalid''))"

definition engine_count_ids ::
    "duck \<Rightarrow> store_files \<Rightarrow> pystr list list \<Rightarrow> frame_filter \<Rightarrow> int \<Rightarrow> exn + arbitration_id_count list" where
  "engine_count_ids db fl paths f top_n =
     (if paths = [] then Inr []
      else rbind (frame_predicates f) (\<lambda>cs.
        rbind (run_statement db (CountIds cs top_n) paths fl) (rmap row_to_arbitration_count)))"

section \<open>The service\<close>

text \<open>\<open>_snapshot\<close>: the errors of the data store become those of a query.\<close>

definition snapshot_error :: "exn \<Rightarrow> exn" where
  "snapshot_error e =
     (if e = Foreign ''data.session.not_found'' then query_error ''session_not_found''
      else if data_error e then query_error ''project_unavailable'' else e)"

definition snapshot :: "data_host \<Rightarrow> pystr \<Rightarrow> ('a store_scheme, exn, data_session \<times> data_segment list) exec" where
  "snapshot h i =
     etry (with_connection h (ebind (read_session i) (\<lambda>r.
        ebind (lift (require_registered_session r)) (\<lambda>x.
        ebind (list_segments i) (\<lambda>gs. ret (x, gs))))))
      (\<lambda>e. throw (snapshot_error e))"

definition validate_candidate :: "store_files \<Rightarrow> data_session \<Rightarrow> data_segment \<Rightarrow> pystr list \<Rightarrow> exn + unit" where
  "validate_candidate fl x g p =
     rbind (guard (map_of fl p \<noteq> None) (query_error ''segment_missing'')) (\<lambda>_.
     case require_registered_segment (map_of fl p) x g of
       Inl e \<Rightarrow> Inl (if e = ParquetReadError then query_error ''segment_unreadable''
         else if data_error e then query_error ''segment_invalid'' else e)
     | Inr _ \<Rightarrow> Inr ())"

definition resolve_candidate :: "pystr list \<Rightarrow> data_segment \<Rightarrow> exn + pystr list" where
  "resolve_candidate base g =
     (case resolve_within_root base (relative_path g) of
        Inl e \<Rightarrow> Inl (if data_error e then query_error ''path_escape'' else e) | Inr p \<Rightarrow> Inr p)"

text \<open>\<open>by_path\<close> is a dictionary: of two segments with one path it holds the later.\<close>

definition candidate_paths ::
    "pystr list \<Rightarrow> store_files \<Rightarrow> data_session \<Rightarrow> data_segment list \<Rightarrow> query_plan \<Rightarrow> exn + pystr list list" where
  "candidate_paths base fl x gs plan = rmap (\<lambda>rel.
     case map_of (rev (map (\<lambda>g. (relative_path g, g)) gs)) rel of
       None \<Rightarrow> Inl (Foreign ''KeyError'')
     | Some g \<Rightarrow> rbind (resolve_candidate base g) (\<lambda>p. rbind (validate_candidate fl x g p) (\<lambda>_. Inr p)))
     (relative_paths plan)"

text \<open>A bounded query: the snapshot, the plan, the files, and then the engine's answer.\<close>

definition bounded_query ::
    "data_host \<Rightarrow> frame_filter \<Rightarrow> int option \<Rightarrow> (store_files \<Rightarrow> pystr list list \<Rightarrow> exn + 'r) \<Rightarrow> ('a store_scheme, exn, 'r) exec" where
  "bounded_query h f after ask = ebind (snapshot h (flt_session f)) (\<lambda>(x, gs) s.
     (rbind (plan_segments gs f after) (\<lambda>plan.
      rbind (candidate_paths (base_dir s) (files s) x gs plan) (ask (files s))), s))"

definition query_frames :: "data_host \<Rightarrow> duck \<Rightarrow> frame_query option \<Rightarrow> ('a store_scheme, exn, frame_query_page) exec" where
  "query_frames h db query =
     (case query of None \<Rightarrow> throw (query_error ''invalid_query'')
      | Some q \<Rightarrow> bounded_query h (query_filter q) (after_sequence q)
          (\<lambda>fl paths. engine_query_frames db fl paths (query_filter q) (after_sequence q) (query_limit q)))"

definition summarize_frames :: "data_host \<Rightarrow> duck \<Rightarrow> frame_filter option \<Rightarrow> ('a store_scheme, exn, frame_query_summary) exec" where
  "summarize_frames h db flt =
     (case flt of None \<Rightarrow> throw (query_error ''invalid_filter'')
      | Some f \<Rightarrow> bounded_query h f None (\<lambda>fl paths. engine_summarize db fl paths f))"

definition require_top_n :: "pyval \<Rightarrow> exn + int" where
  "require_top_n v =
     (case v of VInt n \<Rightarrow> if n \<le> 0 then Inl (query_error ''invalid_top_n'')
        else if n > MAX_ARBITRATION_ID_TOP_N then Inl (query_error ''top_n_exceeded'') else Inr n
      | _ \<Rightarrow> Inl (query_error ''invalid_top_n''))"

definition count_by_arbitration_id ::
    "data_host \<Rightarrow> duck \<Rightarrow> frame_filter option \<Rightarrow> pyval \<Rightarrow> ('a store_scheme, exn, arbitration_id_count list) exec" where
  "count_by_arbitration_id h db flt top_n =
     (case flt of None \<Rightarrow> throw (query_error ''invalid_filter'')
      | Some f \<Rightarrow> ebind (lift (require_top_n top_n)) (\<lambda>n.
          bounded_query h f None (\<lambda>fl paths. engine_count_ids db fl paths f n)))"

definition plan_frames :: "data_host \<Rightarrow> frame_filter option \<Rightarrow> int option \<Rightarrow> ('a store_scheme, exn, query_plan) exec" where
  "plan_frames h flt after =
     (case flt of None \<Rightarrow> throw (query_error ''invalid_filter'')
      | Some f \<Rightarrow> ebind (snapshot h (flt_session f)) (\<lambda>(_, gs). lift (plan_segments gs f after)))"

end
