(* ===== verification/Query_Sql.thy ===== *)
theory Query_Sql
  imports Query
begin

text \<open>
  What DuckDB documents of the part of SQL that the engine uses, read from the text of a
  statement and the values bound to it: one table that is read from Parquet files, conditions
  joined by \<open>AND\<close>, grouping, ordering by integers, a limit. The reading knows nothing of the
  clauses the engine writes; that their texts mean what they should is a lemma.
\<close>

section \<open>Tokens\<close>

fun sql_tokens :: "string \<Rightarrow> string \<Rightarrow> string list" where
  "sql_tokens acc [] = (if acc = [] then [] else [acc])"
| "sql_tokens acc (c # s) =
     (if c = CHR '' '' then (if acc = [] then [] else [acc]) @ sql_tokens [] s
      else if c \<in> set ''(),?*'' then (if acc = [] then [] else [acc]) @ [c] # sql_tokens [] s
      else sql_tokens (acc @ [c]) s)"

fun split_on :: "'a \<Rightarrow> 'a list \<Rightarrow> 'a list list" where
  "split_on s [] = [[]]"
| "split_on s (x # xs) =
     (if x = s then [] # split_on s xs else case split_on s xs of [] \<Rightarrow> [[x]] | ys # yss \<Rightarrow> (x # ys) # yss)"

definition SQL_KEYWORDS :: "string list" where
  "SQL_KEYWORDS = [''SELECT'', ''FROM'', ''WHERE'', ''GROUP'', ''ORDER'', ''LIMIT'']"

text \<open>The tokens behind a keyword, up to the next one, and what is left; none if it is absent.\<close>

definition part :: "string list \<Rightarrow> string list \<Rightarrow> string list \<times> string list" where
  "part kw ts =
     (if take (length kw) ts = kw
      then (takeWhile (\<lambda>t. t \<notin> set SQL_KEYWORDS) (drop (length kw) ts), dropWhile (\<lambda>t. t \<notin> set SQL_KEYWORDS) (drop (length kw) ts))
      else ([], ts))"

section \<open>Queries\<close>

datatype comparison = SQL_GE | SQL_LE | SQL_GT | SQL_EQ

datatype condition =
    Compares string comparison pyval
  | Is_In string "pyval list"
  | Masked_Equals string pyval pyval

datatype item = Column string | Count_Rows | Least string | Greatest string

record sql_query =
  q_items :: "(item \<times> string option) list"
  q_conditions :: "condition list"
  q_groups :: "string list"
  q_order :: "(string \<times> bool) list"
  q_limit :: "int option"

definition aggregate_of :: "string \<Rightarrow> string \<Rightarrow> item option" where
  "aggregate_of f c =
     (if f = ''count'' \<and> c = ''*'' then Some Count_Rows
      else if f = ''min'' then Some (Least c) else if f = ''max'' then Some (Greatest c) else None)"

definition item_of :: "string list \<Rightarrow> (item \<times> string option) option" where
  "item_of ts =
     (case ts of
        [c] \<Rightarrow> Some (Column c, None)
      | [f, l, c, r] \<Rightarrow> if l = ''('' \<and> r = '')'' then map_option (\<lambda>i. (i, None)) (aggregate_of f c) else None
      | [f, l, c, r, k, a] \<Rightarrow>
          if l = ''('' \<and> r = '')'' \<and> k = ''AS'' then map_option (\<lambda>i. (i, Some a)) (aggregate_of f c) else None
      | _ \<Rightarrow> None)"

definition comparison_of :: "string \<Rightarrow> comparison option" where
  "comparison_of t =
     (if t = ''>='' then Some SQL_GE else if t = ''<='' then Some SQL_LE
      else if t = ''>'' then Some SQL_GT else if t = ''='' then Some SQL_EQ else None)"

text \<open>A placeholder takes the next of the values.\<close>

fun bind_list :: "string list \<Rightarrow> pyval list \<Rightarrow> (pyval list \<times> pyval list) option" where
  "bind_list [q, r] (v # ps) = (if q = ''?'' \<and> r = '')'' then Some ([v], ps) else None)"
| "bind_list (q # c # ts) (v # ps) =
     (if q = ''?'' \<and> c = '','' then map_option (\<lambda>(vs, qs). (v # vs, qs)) (bind_list ts ps) else None)"
| "bind_list _ _ = None"

definition condition_of :: "string list \<Rightarrow> pyval list \<Rightarrow> (condition \<times> pyval list) option" where
  "condition_of ts ps =
     (case ts of
        a # b # c # rest \<Rightarrow>
          if b = ''IN'' \<and> c = ''('' then map_option (\<lambda>(vs, qs). (Is_In a vs, qs)) (bind_list rest ps)
          else if a = ''('' \<and> c = ''&'' then
            (case (rest, ps) of
               ([q, r, e, q'], m # t # qs) \<Rightarrow>
                 if q = ''?'' \<and> r = '')'' \<and> e = ''='' \<and> q' = ''?'' then Some (Masked_Equals b m t, qs) else None
             | _ \<Rightarrow> None)
          else if c = ''?'' \<and> rest = [] then
            (case (comparison_of b, ps) of (Some op, v # qs) \<Rightarrow> Some (Compares a op v, qs) | _ \<Rightarrow> None)
          else None
      | _ \<Rightarrow> None)"

fun conditions_of :: "string list list \<Rightarrow> pyval list \<Rightarrow> (condition list \<times> pyval list) option" where
  "conditions_of [] ps = Some ([], ps)"
| "conditions_of (ts # tss) ps =
     (case condition_of ts ps of None \<Rightarrow> None
      | Some (c, qs) \<Rightarrow> map_option (\<lambda>(cs, rs). (c # cs, rs)) (conditions_of tss qs))"

definition group_of :: "string list \<Rightarrow> string option" where
  "group_of ts = (case ts of [c] \<Rightarrow> Some c | _ \<Rightarrow> None)"

definition order_of :: "string list \<Rightarrow> (string \<times> bool) option" where
  "order_of ts =
     (case ts of
        [c, d] \<Rightarrow>
          if c \<notin> {''sequence'', ''arbitration_id'', ''frame_count''} then None
          else if d = ''ASC'' then Some (c, False) else if d = ''DESC'' then Some (c, True) else None
      | _ \<Rightarrow> None)"

definition parse_sql :: "string \<Rightarrow> pyval list \<Rightarrow> sql_query option" where
  "parse_sql text ps =
     (case part [''SELECT''] (sql_tokens [] text) of (cols, r1) \<Rightarrow>
      case part [''FROM''] r1 of (source, r2) \<Rightarrow>
      case part [''WHERE''] r2 of (wh, r3) \<Rightarrow>
      case part [''GROUP'', ''BY''] r3 of (gr, r4) \<Rightarrow>
      case part [''ORDER'', ''BY''] r4 of (od, r5) \<Rightarrow>
      case part [''LIMIT''] r5 of (bound, r6) \<Rightarrow>
      if source \<noteq> [''read_parquet'', ''('', ''?'', '')''] \<or> r6 \<noteq> [] then None
      else
       (case (those (map item_of (split_on '','' cols)), if wh = [] then Some ([], ps) else conditions_of (split_on ''AND'' wh) ps,
          if gr = [] then Some [] else those (map group_of (split_on '','' gr)),
          if od = [] then Some [] else those (map order_of (split_on '','' od))) of
          (Some is, Some (cs, qs), Some gs, Some os) \<Rightarrow>
            if bound = [] \<and> qs = [] then
              Some \<lparr>q_items = is, q_conditions = cs, q_groups = gs, q_order = os, q_limit = None\<rparr>
            else if bound = [''?''] then
              (case qs of [VInt n] \<Rightarrow>
                 Some \<lparr>q_items = is, q_conditions = cs, q_groups = gs, q_order = os, q_limit = Some n\<rparr>
               | _ \<Rightarrow> None)
            else None
        | _ \<Rightarrow> None))"

section \<open>What a query means\<close>

definition column :: "pyval list \<Rightarrow> string \<Rightarrow> pyval" where
  "column r c = (case map_of (zip FRAME_COLUMNS r) c of None \<Rightarrow> VNone | Some v \<Rightarrow> v)"

text \<open>A comparison with NULL is not true; the two sides of one have one type.\<close>

fun compares :: "comparison \<Rightarrow> pyval \<Rightarrow> pyval \<Rightarrow> bool" where
  "compares SQL_GE v w = (case (v, w) of (VInt i, VInt j) \<Rightarrow> j \<le> i | (VFloat x, VFloat y) \<Rightarrow> pf_le y x | _ \<Rightarrow> False)"
| "compares SQL_LE v w = (case (v, w) of (VInt i, VInt j) \<Rightarrow> i \<le> j | (VFloat x, VFloat y) \<Rightarrow> pf_le x y | _ \<Rightarrow> False)"
| "compares SQL_GT v w = (case (v, w) of (VInt i, VInt j) \<Rightarrow> j < i | (VFloat x, VFloat y) \<Rightarrow> pf_less y x | _ \<Rightarrow> False)"
| "compares SQL_EQ v w = (v \<noteq> VNone \<and> v = w)"

fun condition_holds :: "pyval list \<Rightarrow> condition \<Rightarrow> bool" where
  "condition_holds r (Compares c op v) = compares op (column r c) v"
| "condition_holds r (Is_In c vs) = (column r c \<noteq> VNone \<and> column r c \<in> set vs)"
| "condition_holds r (Masked_Equals c m t) =
     (case (column r c, m, t) of (VInt i, VInt a, VInt b) \<Rightarrow> i AND a = b | _ \<Rightarrow> False)"

definition value_less :: "pyval \<Rightarrow> pyval \<Rightarrow> bool" where
  "value_less v w = (case (v, w) of (VInt i, VInt j) \<Rightarrow> i < j | (VFloat x, VFloat y) \<Rightarrow> pf_less x y | _ \<Rightarrow> False)"

definition extreme :: "('a \<Rightarrow> 'a \<Rightarrow> bool) \<Rightarrow> 'a list \<Rightarrow> 'a \<Rightarrow> bool" where
  "extreme below xs x \<longleftrightarrow> x \<in> set xs \<and> (\<forall>y\<in>set xs. \<not> below y x)"

definition present :: "pyval list list \<Rightarrow> string \<Rightarrow> pyval list" where
  "present rows c = filter (\<lambda>v. v \<noteq> VNone) (map (\<lambda>r. column r c) rows)"

text \<open>The value of an item over a group of rows; a plain column is one that the group shares.\<close>

fun item_value :: "pyval list list \<Rightarrow> item \<Rightarrow> pyval \<Rightarrow> bool" where
  "item_value g (Column c) v = (g \<noteq> [] \<and> v = column (hd g) c)"
| "item_value g Count_Rows v = (v = VInt (int (length g)))"
| "item_value g (Least c) v = (if present g c = [] then v = VNone else extreme value_less (present g c) v)"
| "item_value g (Greatest c) v = (if present g c = [] then v = VNone else extreme (\<lambda>a b. value_less b a) (present g c) v)"

definition item_values :: "sql_query \<Rightarrow> pyval list list \<Rightarrow> pyval list \<Rightarrow> bool" where
  "item_values Q g row \<longleftrightarrow> list_all2 (\<lambda>i v. item_value g (fst i) v) (q_items Q) row"

definition item_name :: "item \<times> string option \<Rightarrow> string" where
  "item_name i = (case i of (_, Some a) \<Rightarrow> a | (Column c, None) \<Rightarrow> c | _ \<Rightarrow> '''')"

definition is_column :: "item \<times> string option \<Rightarrow> bool" where
  "is_column i \<longleftrightarrow> (case fst i of Column _ \<Rightarrow> True | _ \<Rightarrow> False)"

definition int_of :: "pyval \<Rightarrow> int" where
  "int_of v = (case v of VInt i \<Rightarrow> i | _ \<Rightarrow> 0)"

definition order_key :: "sql_query \<Rightarrow> pyval list \<Rightarrow> int list" where
  "order_key Q row = map (\<lambda>(c, descending).
     let k = (case map_of (zip (map item_name (q_items Q)) row) c of None \<Rightarrow> 0 | Some v \<Rightarrow> int_of v) in
     if descending then - k else k) (q_order Q)"

definition group_values :: "sql_query \<Rightarrow> pyval list \<Rightarrow> pyval list" where
  "group_values Q r = map (column r) (q_groups Q)"

definition chosen :: "sql_query \<Rightarrow> pyval list list \<Rightarrow> pyval list list" where
  "chosen Q rows = filter (\<lambda>r. list_all (condition_holds r) (q_conditions Q)) rows"

text \<open>Without a grouping, aggregates are over all rows that were chosen, columns of each.\<close>

definition result_rows :: "sql_query \<Rightarrow> pyval list list \<Rightarrow> pyval list list \<Rightarrow> bool" where
  "result_rows Q sel us \<longleftrightarrow>
     (if q_groups Q \<noteq> [] then
        \<exists>ks. distinct ks \<and> set ks = group_values Q ` set sel \<and>
          list_all2 (\<lambda>k row. item_values Q (filter (\<lambda>r. group_values Q r = k) sel) row) ks us
      else if list_all is_column (q_items Q) then
        \<exists>ys. mset ys = mset sel \<and> list_all2 (\<lambda>r row. item_values Q [r] row) ys us
      else \<exists>row. us = [row] \<and> item_values Q sel row)"

definition sql_answers :: "sql_query \<Rightarrow> pyval list list \<Rightarrow> pyval list list \<Rightarrow> bool" where
  "sql_answers Q rows out \<longleftrightarrow>
     (\<exists>us. result_rows Q (chosen Q rows) us \<and> sorted (map (order_key Q) us) \<and>
        out = (case q_limit Q of None \<Rightarrow> us | Some n \<Rightarrow> take (nat n) us))"

definition rows_at :: "store_files \<Rightarrow> pystr list \<Rightarrow> pyval list list" where
  "rows_at fl p = (case map_of fl p of None \<Rightarrow> [] | Some d \<Rightarrow> (case content d of None \<Rightarrow> [] | Some t \<Rightarrow> table_rows t))"

definition is_table :: "store_files \<Rightarrow> pystr list \<Rightarrow> bool" where
  "is_table fl p \<longleftrightarrow> (case map_of fl p of None \<Rightarrow> False | Some d \<Rightarrow> content d \<noteq> None)"

text \<open>
  What is typed: the values of a condition have the type of their column, only numbers are
  compared in size, summarised, or (integers) sorted by, a grouped query names grouping columns,
  and columns do not mix with ungrouped aggregates. The columns have the types of the Parquet
  layout, and no cell but a hardware time stamp is NULL.
\<close>

definition of_type :: "string \<Rightarrow> pyval \<Rightarrow> bool" where
  "of_type ty v \<longleftrightarrow> (case v of
     VBool _ \<Rightarrow> ty = ''bool'' | VInt _ \<Rightarrow> ty \<in> {''uint64'', ''uint32'', ''uint8''}
   | VFloat x \<Rightarrow> ty = ''double'' \<and> isfinite x | VStr _ \<Rightarrow> ty = ''string'' | VBytes _ \<Rightarrow> ty = ''binary'' | _ \<Rightarrow> False)"

definition column_type :: "string \<Rightarrow> string" where
  "column_type c = (case map_of FRAME_ARROW_SCHEMA c of None \<Rightarrow> [] | Some ty \<Rightarrow> ty)"

definition typed_cells :: "pyval list \<Rightarrow> bool" where
  "typed_cells r \<longleftrightarrow> list_all2 (\<lambda>(c, ty) v. of_type ty v \<or> v = VNone \<and> c = ''hardware_timestamp'') FRAME_ARROW_SCHEMA r"

definition integers :: "string \<Rightarrow> bool" where
  "integers c \<longleftrightarrow> column_type c \<in> {''uint64'', ''uint32'', ''uint8''}"

fun typed_condition :: "condition \<Rightarrow> bool" where
  "typed_condition (Compares c op v) =
     (of_type (column_type c) v \<and> (if op = SQL_EQ then column_type c \<noteq> ''double'' else integers c \<or> column_type c = ''double''))"
| "typed_condition (Is_In c vs) = (column_type c \<noteq> ''double'' \<and> list_all (of_type (column_type c)) vs)"
| "typed_condition (Masked_Equals c m t) = (integers c \<and> of_type (column_type c) m \<and> of_type (column_type c) t)"

fun typed_item :: "item \<Rightarrow> bool" where
  "typed_item (Column c) = (c \<in> set FRAME_COLUMNS)"
| "typed_item Count_Rows = True"
| "typed_item (Least c) = (integers c \<or> column_type c = ''double'')"
| "typed_item (Greatest c) = (integers c \<or> column_type c = ''double'')"

definition sorts_by :: "sql_query \<Rightarrow> string \<Rightarrow> bool" where
  "sorts_by Q c \<longleftrightarrow> (case filter (\<lambda>i. item_name i = c) (q_items Q) of
     [(Column d, _)] \<Rightarrow> integers d | [(Count_Rows, _)] \<Rightarrow> True | _ \<Rightarrow> False)"

definition names_its_groups :: "sql_query \<Rightarrow> bool" where
  "names_its_groups Q \<longleftrightarrow>
     (if q_groups Q \<noteq> [] then list_all (\<lambda>i. case fst i of Column c \<Rightarrow> c \<in> set (q_groups Q) | _ \<Rightarrow> True) (q_items Q)
      else list_all is_column (q_items Q) \<or> list_all (\<lambda>i. \<not> is_column i) (q_items Q))"

definition typed_query :: "sql_query \<Rightarrow> bool" where
  "typed_query Q \<longleftrightarrow> list_all typed_condition (q_conditions Q) \<and> list_all (typed_item \<circ> fst) (q_items Q) \<and>
     list_all (\<lambda>c. c \<in> set FRAME_COLUMNS) (q_groups Q) \<and> list_all (sorts_by Q \<circ> fst) (q_order Q) \<and>
     names_its_groups Q \<and> pred_option ((\<le>) 0) (q_limit Q)"

definition read_query :: "string \<Rightarrow> pyval list \<Rightarrow> sql_query option" where
  "read_query text ps = (case parse_sql text ps of None \<Rightarrow> None | Some Q \<Rightarrow> if typed_query Q then Some Q else None)"

text \<open>
  DuckDB answers a text of this part of SQL by what it means; a pattern whose metacharacters are
  escaped names the one file of that name.
\<close>

definition duckdb_answers :: "duck \<Rightarrow> bool" where
  "duckdb_answers db \<longleftrightarrow> (\<forall>text ps Q paths fl out. read_query text ps = Some Q \<longrightarrow> list_all (is_table fl) paths \<longrightarrow>
     list_all typed_cells (concat (map (rows_at fl) paths)) \<longrightarrow> db text ps (path_list paths) fl = Inr out \<longrightarrow>
     sql_answers Q (concat (map (rows_at fl) paths)) out)"

text \<open>DuckDB refused such a text over tables that are there: a resource of its own failed.\<close>

definition duck_raised :: "duck \<Rightarrow> store_files \<Rightarrow> bool" where
  "duck_raised db fl \<longleftrightarrow> (\<exists>text ps paths e. read_query text ps \<noteq> None \<and> paths \<noteq> [] \<and> list_all (is_table fl) paths \<and>
     db text ps (path_list paths) fl = Inl e)"

section \<open>The engine's texts\<close>

lemma lex_space: "sql_tokens acc (s @ CHR '' '' # t) = sql_tokens acc s @ sql_tokens [] t"
  by (induction acc s rule: sql_tokens.induct) auto

lemma lex_special: "c \<in> set ''(),?*'' \<Longrightarrow> sql_tokens acc (s @ c # t) = sql_tokens acc s @ [c] # sql_tokens [] t"
  by (induction acc s rule: sql_tokens.induct) auto

fun clause_tokens :: "clause \<Rightarrow> string list" where
  "clause_tokens (SequenceFrom _) = [''sequence'', ''>='', ''?'']"
| "clause_tokens (SequenceTo _) = [''sequence'', ''<='', ''?'']"
| "clause_tokens (SequenceAfter _) = [''sequence'', ''>'', ''?'']"
| "clause_tokens (TimestampFrom _) = [''normalized_timestamp'', ''>='', ''?'']"
| "clause_tokens (TimestampTo _) = [''normalized_timestamp'', ''<='', ''?'']"
| "clause_tokens (ChannelIn cs) = [''channel_id'', ''IN'', ''(''] @ sql_tokens [] (placeholders (length cs)) @ ['')'']"
| "clause_tokens (ArbitrationIn is) = [''arbitration_id'', ''IN'', ''(''] @ sql_tokens [] (placeholders (length is)) @ ['')'']"
| "clause_tokens (ArbitrationFrom _) = [''arbitration_id'', ''>='', ''?'']"
| "clause_tokens (ArbitrationTo _) = [''arbitration_id'', ''<='', ''?'']"
| "clause_tokens (ArbitrationMasked _ _) = [''('', ''arbitration_id'', ''&'', ''?'', '')'', ''='', ''?'']"
| "clause_tokens (DirectionIn ds) = [''direction'', ''IN'', ''(''] @ sql_tokens [] (placeholders (length ds)) @ ['')'']"
| "clause_tokens (ExtendedIs _) = [''is_extended'', ''='', ''?'']"
| "clause_tokens (FdIs _) = [''is_fd'', ''='', ''?'']"

lemma lex_in: "sql_tokens [] (s @ CHR ''('' # t @ '')'') = sql_tokens [] s @ ''('' # sql_tokens [] t @ ['')'']"
  using lex_special [of "CHR '')''" "[]" t "[]"] by (simp add: lex_special)

lemma lex_clause: "sql_tokens [] (clause_text c) = clause_tokens c"
proof (cases c)
  case (ChannelIn cs)
  then show ?thesis using lex_in [of "''channel_id IN ''" "placeholders (length cs)"] by simp
next
  case (ArbitrationIn ids)
  then show ?thesis using lex_in [of "''arbitration_id IN ''" "placeholders (length ids)"] by simp
next
  case (DirectionIn ds)
  then show ?thesis using lex_in [of "''direction IN ''" "placeholders (length ds)"] by simp
qed simp_all

fun joined_tokens :: "string list list \<Rightarrow> string list" where
  "joined_tokens [] = []"
| "joined_tokens [x] = x"
| "joined_tokens (x # xs) = x @ ''AND'' # joined_tokens xs"

definition where_tokens :: "clause list \<Rightarrow> string list" where
  "where_tokens cs = (if cs = [] then [] else ''WHERE'' # joined_tokens (map clause_tokens cs))"

lemma lex_joined: "sql_tokens [] (joined '' AND '' (map clause_text cs)) = joined_tokens (map clause_tokens cs)"
proof (induction cs rule: induct_list012)
  case (3 c d cs)
  have "sql_tokens [] (clause_text c @ CHR '' '' # (''AND'' @ CHR '' '' # joined '' AND '' (map clause_text (d # cs))))
      = clause_tokens c @ ''AND'' # joined_tokens (map clause_tokens (d # cs))"
    unfolding lex_space 3(2) lex_clause by simp
  then show ?case by simp
qed (simp_all add: lex_clause)

lemma lex_text:
  assumes "t = [] \<or> (\<exists>u. t = CHR '' '' # u)"
  shows "sql_tokens [] (h @ where_text cs @ t) = sql_tokens [] h @ where_tokens cs @ sql_tokens [] t"
proof -
  have final: "sql_tokens [] (s @ t) = sql_tokens [] s @ sql_tokens [] t" for s
    using assms lex_space [of "[]" s] by auto
  show ?thesis
  proof (cases "cs = []")
    case True
    then show ?thesis by (simp add: where_text_def where_tokens_def final)
  next
    case False
    have "sql_tokens [] (h @ CHR '' '' # (''WHERE'' @ CHR '' '' # (joined '' AND '' (map clause_text cs) @ t))) = sql_tokens [] h @ where_tokens cs @ sql_tokens [] t"
      unfolding lex_space final lex_joined using False by (simp add: where_tokens_def)
    then show ?thesis using False by (simp add: where_text_def)
  qed
qed

lemma lex_placeholders:
  "sql_tokens [] (placeholders 0) = []" "sql_tokens [] (placeholders (Suc 0)) = [''?'']"
  "sql_tokens [] (placeholders (Suc (Suc n))) = ''?'' # '','' # sql_tokens [] (placeholders (Suc n))"
  by (simp_all add: placeholders_def)

lemma placeholder_tokens: "set (sql_tokens [] (placeholders n)) \<subseteq> {''?'', '',''}"
  by (induction n rule: induct_nat_012) (simp_all add: lex_placeholders)

lemma clause_tokens_clean: "set (clause_tokens c) \<inter> set (''AND'' # SQL_KEYWORDS) = {}" "clause_tokens c \<noteq> []"
proof -
  have "set (sql_tokens [] (placeholders n)) \<inter> set (''AND'' # SQL_KEYWORDS) = {}" for n
    using placeholder_tokens [of n] by (auto simp: SQL_KEYWORDS_def)
  then show "set (clause_tokens c) \<inter> set (''AND'' # SQL_KEYWORDS) = {}"
    by (cases c) (simp_all add: SQL_KEYWORDS_def)
  show "clause_tokens c \<noteq> []" by (cases c) simp_all
qed

lemma split_clean: "s \<notin> set x \<Longrightarrow> split_on s x = [x]"
  by (induction x) auto

lemma split_first: "s \<notin> set x \<Longrightarrow> split_on s (x @ s # y) = x # split_on s y"
  by (induction x) auto

lemma split_joined: "cs \<noteq> [] \<Longrightarrow> split_on ''AND'' (joined_tokens (map clause_tokens cs)) = map clause_tokens cs"
proof (induction cs rule: induct_list012)
  case (2 c)
  then show ?case using clause_tokens_clean(1) [of c] by (simp add: split_clean)
next
  case (3 c d cs)
  then show ?case using clause_tokens_clean(1) [of c] by (simp add: split_first)
qed simp

lemma bind_next:
  "ts \<noteq> [] \<Longrightarrow> bind_list (''?'' # '','' # ts) (v # ps) = map_option (\<lambda>(vs, qs). (v # vs, qs)) (bind_list ts ps)"
  by (cases ts) simp_all

lemma bind_placeholders:
  "vs \<noteq> [] \<Longrightarrow> bind_list (sql_tokens [] (placeholders (length vs)) @ ['')'']) (vs @ ps) = Some (vs, ps)"
proof (induction vs rule: induct_list012)
  case (3 v w vs)
  then show ?case by (simp add: lex_placeholders bind_next)
qed (simp_all add: lex_placeholders)

fun clause_condition :: "clause \<Rightarrow> condition" where
  "clause_condition (SequenceFrom n) = Compares ''sequence'' SQL_GE (VInt n)"
| "clause_condition (SequenceTo n) = Compares ''sequence'' SQL_LE (VInt n)"
| "clause_condition (SequenceAfter n) = Compares ''sequence'' SQL_GT (VInt n)"
| "clause_condition (TimestampFrom t) = Compares ''normalized_timestamp'' SQL_GE (VFloat t)"
| "clause_condition (TimestampTo t) = Compares ''normalized_timestamp'' SQL_LE (VFloat t)"
| "clause_condition (ChannelIn cs) = Is_In ''channel_id'' (map VStr cs)"
| "clause_condition (ArbitrationIn is) = Is_In ''arbitration_id'' (map VInt is)"
| "clause_condition (ArbitrationFrom n) = Compares ''arbitration_id'' SQL_GE (VInt n)"
| "clause_condition (ArbitrationTo n) = Compares ''arbitration_id'' SQL_LE (VInt n)"
| "clause_condition (ArbitrationMasked m t) = Masked_Equals ''arbitration_id'' (VInt m) (VInt t)"
| "clause_condition (DirectionIn ds) = Is_In ''direction'' (map VStr ds)"
| "clause_condition (ExtendedIs b) = Compares ''is_extended'' SQL_EQ (VBool b)"
| "clause_condition (FdIs b) = Compares ''is_fd'' SQL_EQ (VBool b)"

text \<open>SQL has no empty list, and a valid filter none either.\<close>

fun lists_something :: "clause \<Rightarrow> bool" where
  "lists_something (ChannelIn cs) = (cs \<noteq> [])"
| "lists_something (ArbitrationIn is) = (is \<noteq> [])"
| "lists_something (DirectionIn ds) = (ds \<noteq> [])"
| "lists_something _ = True"

lemma condition_clause:
  "lists_something c \<Longrightarrow> condition_of (clause_tokens c) (clause_parameters c @ ps) = Some (clause_condition c, ps)"
proof (cases c)
  case (ChannelIn cs)
  then show "lists_something c \<Longrightarrow> ?thesis" using bind_placeholders [of "map VStr cs" ps] by (simp add: condition_of_def)
next
  case (ArbitrationIn ids)
  then show "lists_something c \<Longrightarrow> ?thesis" using bind_placeholders [of "map VInt ids" ps] by (simp add: condition_of_def)
next
  case (DirectionIn ds)
  then show "lists_something c \<Longrightarrow> ?thesis" using bind_placeholders [of "map VStr ds" ps] by (simp add: condition_of_def)
qed (simp_all add: condition_of_def comparison_of_def)

lemma conditions_clauses:
  "list_all lists_something cs \<Longrightarrow>
    conditions_of (map clause_tokens cs) (concat (map clause_parameters cs) @ ps) = Some (map clause_condition cs, ps)"
  by (induction cs arbitrary: ps) (simp_all add: condition_clause)

fun sql_of :: "statement \<Rightarrow> sql_query" where
  "sql_of (SelectFrames cs n) =
     \<lparr>q_items = map (\<lambda>c. (Column c, None)) SELECTED_COLUMNS, q_conditions = map clause_condition cs, q_groups = [],
      q_order = [(''sequence'', False)], q_limit = Some n\<rparr>"
| "sql_of (Summarize cs) =
     \<lparr>q_items = [(Count_Rows, None), (Least ''sequence'', None), (Greatest ''sequence'', None), (Least ''normalized_timestamp'', None),
        (Greatest ''normalized_timestamp'', None)],
      q_conditions = map clause_condition cs, q_groups = [], q_order = [], q_limit = None\<rparr>"
| "sql_of (CountIds cs n) =
     \<lparr>q_items = [(Column ''arbitration_id'', None), (Column ''is_extended'', None), (Count_Rows, Some ''frame_count'')],
      q_conditions = map clause_condition cs, q_groups = [''arbitration_id'', ''is_extended''],
      q_order = [(''frame_count'', True), (''arbitration_id'', False)], q_limit = Some n\<rparr>"

fun statement_clauses :: "statement \<Rightarrow> clause list" where
  "statement_clauses (SelectFrames cs _) = cs"
| "statement_clauses (Summarize cs) = cs"
| "statement_clauses (CountIds cs _) = cs"

lemma part_found:
  assumes "set xs \<inter> set SQL_KEYWORDS = {}" "rest = [] \<or> hd rest \<in> set SQL_KEYWORDS"
  shows "part kw (kw @ xs @ rest) = (xs, rest)"
proof -
  have "takeWhile (\<lambda>t. t \<notin> set SQL_KEYWORDS) (xs @ rest) = xs \<and> dropWhile (\<lambda>t. t \<notin> set SQL_KEYWORDS) (xs @ rest) = rest"
    using assms by (induction xs) (cases rest; simp)+
  then show ?thesis by (simp add: part_def)
qed

lemma part_absent: "take (length kw) ts \<noteq> kw \<Longrightarrow> part kw ts = ([], ts)"
  by (simp add: part_def)

lemma joined_clean: "set (joined_tokens (map clause_tokens cs)) \<inter> set SQL_KEYWORDS = {}"
proof (induction cs rule: induct_list012)
  case (2 c)
  then show ?case using clause_tokens_clean(1) [of c] by auto
next
  case (3 c d cs)
  then show ?case using clause_tokens_clean(1) [of c] by (auto simp: SQL_KEYWORDS_def)
qed simp

lemma joined_some: "cs \<noteq> [] \<Longrightarrow> joined_tokens (map clause_tokens cs) \<noteq> []"
  using clause_tokens_clean(2) by (cases cs rule: remdups_adj.cases) auto

text \<open>The conditions of a statement, in their place between the source and the rest.\<close>

lemma part_where:
  assumes "rest = [] \<or> hd rest \<in> set SQL_KEYWORDS - {''WHERE''}"
  shows "part [''WHERE''] (where_tokens cs @ rest) = (joined_tokens (map clause_tokens cs), rest)"
proof (cases "cs = []")
  case True
  then show ?thesis using assms by (cases rest) (auto simp: where_tokens_def part_def)
next
  case False
  then show ?thesis using part_found [OF joined_clean, of rest "[''WHERE'']" cs] assms by (auto simp: where_tokens_def)
qed

lemma bound_conditions:
  "list_all lists_something cs \<Longrightarrow>
    (if joined_tokens (map clause_tokens cs) = [] then Some ([], concat (map clause_parameters cs) @ ps)
      else conditions_of (split_on ''AND'' (joined_tokens (map clause_tokens cs))) (concat (map clause_parameters cs) @ ps))
      = Some (map clause_condition cs, ps)"
  using joined_some [of cs] conditions_clauses [of cs ps] by (cases "cs = []") (simp_all add: split_joined)

lemma statement_tokens:
  "sql_tokens [] (statement_text (SelectFrames cs n)) =
     sql_tokens [] (''SELECT '' @ joined '', '' SELECTED_COLUMNS @ '' FROM read_parquet(?)'') @ where_tokens cs @
     [''ORDER'', ''BY'', ''sequence'', ''ASC'', ''LIMIT'', ''?'']"
  "sql_tokens [] (statement_text (Summarize cs)) =
     sql_tokens [] (''SELECT count(*), min(sequence), max(sequence), min(normalized_timestamp), max(normalized_timestamp)'' @
       '' FROM read_parquet(?)'') @ where_tokens cs"
  "sql_tokens [] (statement_text (CountIds cs n)) =
     sql_tokens [] ''SELECT arbitration_id, is_extended, count(*) AS frame_count FROM read_parquet(?)'' @ where_tokens cs @
     [''GROUP'', ''BY'', ''arbitration_id'', '','', ''is_extended'', ''ORDER'', ''BY'', ''frame_count'', ''DESC'', '','', ''arbitration_id'',
      ''ASC'', ''LIMIT'', ''?'']"
proof -
  show "sql_tokens [] (statement_text (SelectFrames cs n)) =
     sql_tokens [] (''SELECT '' @ joined '', '' SELECTED_COLUMNS @ '' FROM read_parquet(?)'') @ where_tokens cs @
     [''ORDER'', ''BY'', ''sequence'', ''ASC'', ''LIMIT'', ''?'']"
    using lex_text [of "'' ORDER BY sequence ASC LIMIT ?''" "''SELECT '' @ joined '', '' SELECTED_COLUMNS @ '' FROM read_parquet(?)''" cs]
    by (simp add: append_assoc del: append_Cons)
  show "sql_tokens [] (statement_text (Summarize cs)) =
     sql_tokens [] (''SELECT count(*), min(sequence), max(sequence), min(normalized_timestamp), max(normalized_timestamp)'' @
       '' FROM read_parquet(?)'') @ where_tokens cs"
    using lex_text [of "[]" "''SELECT count(*), min(sequence), max(sequence), min(normalized_timestamp), max(normalized_timestamp)'' @
       '' FROM read_parquet(?)''" cs]
    by (simp add: append_assoc del: append_Cons)
  show "sql_tokens [] (statement_text (CountIds cs n)) =
     sql_tokens [] ''SELECT arbitration_id, is_extended, count(*) AS frame_count FROM read_parquet(?)'' @ where_tokens cs @
     [''GROUP'', ''BY'', ''arbitration_id'', '','', ''is_extended'', ''ORDER'', ''BY'', ''frame_count'', ''DESC'', '','', ''arbitration_id'',
      ''ASC'', ''LIMIT'', ''?'']"
    using lex_text [of "'' GROUP BY arbitration_id, is_extended ORDER BY frame_count DESC, arbitration_id ASC LIMIT ?''"
        "''SELECT arbitration_id, is_extended, count(*) AS frame_count FROM read_parquet(?)''" cs]
    by (simp add: append_assoc del: append_Cons)
qed

lemma parse_parts:
  assumes "sql_tokens [] text = [''SELECT''] @ cols @ [''FROM''] @ [''read_parquet'', ''('', ''?'', '')''] @ where_tokens cs @ grs @ ods @ bds"
    and "set cols \<inter> set SQL_KEYWORDS = {}" "part [''GROUP'', ''BY''] (grs @ ods @ bds) = (gr, ods @ bds)"
    "part [''ORDER'', ''BY''] (ods @ bds) = (od, bds)" "part [''LIMIT''] bds = (bound, [])"
    and "grs @ ods @ bds = [] \<or> hd (grs @ ods @ bds) \<in> {''GROUP'', ''ORDER'', ''LIMIT''}"
    and "those (map item_of (split_on '','' cols)) = Some is" "(if gr = [] then Some [] else those (map group_of (split_on '','' gr))) = Some gs"
    "(if od = [] then Some [] else those (map order_of (split_on '','' od))) = Some os" "list_all lists_something cs"
  shows "parse_sql text (concat (map clause_parameters cs) @ qs) =
    (let Q = \<lparr>q_items = is, q_conditions = map clause_condition cs, q_groups = gs, q_order = os, q_limit = None\<rparr> in
     if bound = [] \<and> qs = [] then Some Q
     else if bound = [''?''] then (case qs of [VInt n] \<Rightarrow> Some (Q\<lparr>q_limit := Some n\<rparr>) | _ \<Rightarrow> None) else None)"
proof -
  let ?rest = "where_tokens cs @ grs @ ods @ bds"
  have r: "?rest = [] \<or> hd ?rest \<in> set SQL_KEYWORDS"
    using assms(6) by (auto simp: where_tokens_def SQL_KEYWORDS_def)
  have select: "part [''SELECT''] ([''SELECT''] @ cols @ [''FROM''] @ [''read_parquet'', ''('', ''?'', '')''] @ ?rest)
      = (cols, [''FROM''] @ [''read_parquet'', ''('', ''?'', '')''] @ ?rest)"
    by (rule part_found [OF assms(2)]) (simp add: SQL_KEYWORDS_def)
  have source: "part [''FROM''] ([''FROM''] @ [''read_parquet'', ''('', ''?'', '')''] @ ?rest) = ([''read_parquet'', ''('', ''?'', '')''], ?rest)"
    by (rule part_found [OF _ r]) (simp add: SQL_KEYWORDS_def)
  have "part [''WHERE''] ?rest = (joined_tokens (map clause_tokens cs), grs @ ods @ bds)"
    by (rule part_where) (use assms(6) in \<open>auto simp: SQL_KEYWORDS_def\<close>)
  note parts = select source this assms(3-5)
  show ?thesis
    unfolding parse_sql_def assms(1) parts prod.case assms(7-9) bound_conditions [OF assms(10)]
    by (simp add: Let_def split: list.split pyval.split)
qed

lemma parse_statement:
  assumes "list_all lists_something (statement_clauses st)"
  shows "parse_sql (statement_text st) (statement_parameters st) = Some (sql_of st)"
proof (cases st)
  case (SelectFrames cs n)
  let ?cols = "[''sequence'', '','', ''channel_id'', '','', ''arbitration_id'', '','', ''is_extended'', '','', ''is_fd'', '','', ''bitrate_switch'', '','', ''error_state_indicator'', '','', ''dlc'', '','', ''data'', '','', ''direction'', '','', ''hardware_timestamp'', '','', ''host_timestamp'', '','', ''normalized_timestamp'', '','', ''clock_domain'', '','', ''timestamp_quality'', '','', ''flags'']"
  let ?od = "[''ORDER'', ''BY'', ''sequence'', ''ASC'']" and ?bd = "[''LIMIT'', ''?'']"
  have tokens: "sql_tokens [] (statement_text st) = [''SELECT''] @ ?cols @ [''FROM''] @ [''read_parquet'', ''('', ''?'', '')''] @ where_tokens cs @ [] @ ?od @ ?bd"
    unfolding SelectFrames statement_tokens(1) by (simp add: SELECTED_COLUMNS_def)
  have clean: "set ?cols \<inter> set SQL_KEYWORDS = {}" by (simp add: SQL_KEYWORDS_def)
  have parts: "part [''GROUP'', ''BY''] ([] @ ?od @ ?bd) = ([], ?od @ ?bd)" "part [''ORDER'', ''BY''] (?od @ ?bd) = ([''sequence'', ''ASC''], ?bd)"
    "part [''LIMIT''] ?bd = ([''?''], [])" "[] @ ?od @ ?bd = [] \<or> hd ([] @ ?od @ ?bd) \<in> {''GROUP'', ''ORDER'', ''LIMIT''}"
    by (simp_all add: part_def SQL_KEYWORDS_def)
  have items: "those (map item_of (split_on '','' ?cols)) = Some (map (\<lambda>c. (Column c, None)) SELECTED_COLUMNS)"
    by (simp add: item_of_def SELECTED_COLUMNS_def)
  have orders: "(if [''sequence'', ''ASC''] = [] then Some [] else those (map order_of (split_on '','' [''sequence'', ''ASC'']))) =
      Some [(''sequence'', False)]"
    by (simp add: order_of_def)
  have "parse_sql (statement_text st) (concat (map clause_parameters cs) @ [VInt n]) = Some (sql_of st)"
    by (subst parse_parts [OF tokens clean parts items if_P [OF refl] orders]) (use assms SelectFrames in \<open>simp_all add: Let_def\<close>)
  then show ?thesis by (simp add: SelectFrames)
next
  case (Summarize cs)
  let ?cols = "[''count'', ''('', ''*'', '')'', '','', ''min'', ''('', ''sequence'', '')'', '','', ''max'', ''('', ''sequence'', '')'', '','',
      ''min'', ''('', ''normalized_timestamp'', '')'', '','', ''max'', ''('', ''normalized_timestamp'', '')'']"
  have tokens: "sql_tokens [] (statement_text st) = [''SELECT''] @ ?cols @ [''FROM''] @ [''read_parquet'', ''('', ''?'', '')''] @ where_tokens cs @ [] @ [] @ []"
    unfolding Summarize statement_tokens(2) by simp
  have clean: "set ?cols \<inter> set SQL_KEYWORDS = {}" by (simp add: SQL_KEYWORDS_def)
  have parts: "part [''GROUP'', ''BY''] ([] @ [] @ []) = ([], [] @ [])" "part [''ORDER'', ''BY''] ([] @ []) = ([], [])"
    "part [''LIMIT''] [] = ([], [])" "[] @ [] @ [] = [] \<or> hd ([] @ [] @ []) \<in> {''GROUP'', ''ORDER'', ''LIMIT''}"
    by (simp_all add: part_def)
  have items: "those (map item_of (split_on '','' ?cols)) = Some (q_items (sql_of st))"
    by (simp add: item_of_def aggregate_of_def Summarize)
  have "parse_sql (statement_text st) (concat (map clause_parameters cs) @ []) = Some (sql_of st)"
    by (subst parse_parts [OF tokens clean parts items if_P [OF refl] if_P [OF refl]]) (use assms Summarize in \<open>simp_all add: Let_def\<close>)
  then show ?thesis by (simp add: Summarize)
next
  case (CountIds cs n)
  let ?cols = "[''arbitration_id'', '','', ''is_extended'', '','', ''count'', ''('', ''*'', '')'', ''AS'', ''frame_count'']"
  let ?gr = "[''GROUP'', ''BY'', ''arbitration_id'', '','', ''is_extended'']"
    and ?od = "[''ORDER'', ''BY'', ''frame_count'', ''DESC'', '','', ''arbitration_id'', ''ASC'']" and ?bd = "[''LIMIT'', ''?'']"
  have tokens: "sql_tokens [] (statement_text st) = [''SELECT''] @ ?cols @ [''FROM''] @ [''read_parquet'', ''('', ''?'', '')''] @ where_tokens cs @ ?gr @ ?od @ ?bd"
    unfolding CountIds statement_tokens(3) by simp
  have clean: "set ?cols \<inter> set SQL_KEYWORDS = {}" by (simp add: SQL_KEYWORDS_def)
  have parts: "part [''GROUP'', ''BY''] (?gr @ ?od @ ?bd) = ([''arbitration_id'', '','', ''is_extended''], ?od @ ?bd)"
    "part [''ORDER'', ''BY''] (?od @ ?bd) = ([''frame_count'', ''DESC'', '','', ''arbitration_id'', ''ASC''], ?bd)"
    "part [''LIMIT''] ?bd = ([''?''], [])" "?gr @ ?od @ ?bd = [] \<or> hd (?gr @ ?od @ ?bd) \<in> {''GROUP'', ''ORDER'', ''LIMIT''}"
    by (simp_all add: part_def SQL_KEYWORDS_def)
  have items: "those (map item_of (split_on '','' ?cols)) = Some (q_items (sql_of st))"
    by (simp add: item_of_def aggregate_of_def CountIds)
  have groups: "(if [''arbitration_id'', '','', ''is_extended''] = [] then Some [] else
      those (map group_of (split_on '','' [''arbitration_id'', '','', ''is_extended'']))) = Some (q_groups (sql_of st))"
    by (simp add: group_of_def CountIds)
  have orders: "(if [''frame_count'', ''DESC'', '','', ''arbitration_id'', ''ASC''] = [] then Some [] else
      those (map order_of (split_on '','' [''frame_count'', ''DESC'', '','', ''arbitration_id'', ''ASC'']))) = Some (q_order (sql_of st))"
    by (simp add: order_of_def CountIds)
  have "parse_sql (statement_text st) (concat (map clause_parameters cs) @ [VInt n]) = Some (sql_of st)"
    by (subst parse_parts [OF tokens clean parts items groups orders]) (use assms CountIds in \<open>simp_all add: Let_def\<close>)
  then show ?thesis by (simp add: CountIds)
qed

text \<open>The statements of valid requests are typed.\<close>

fun clause_typed :: "clause \<Rightarrow> bool" where
  "clause_typed (TimestampFrom x) = isfinite x"
| "clause_typed (TimestampTo x) = isfinite x"
| "clause_typed c = lists_something c"

fun statement_limit :: "statement \<Rightarrow> int" where
  "statement_limit (SelectFrames _ n) = n"
| "statement_limit (Summarize _) = 0"
| "statement_limit (CountIds _ n) = n"

definition statement_typed :: "statement \<Rightarrow> bool" where
  "statement_typed st \<longleftrightarrow> list_all clause_typed (statement_clauses st) \<and> 0 \<le> statement_limit st"

lemma clause_typed_lists: "clause_typed c \<Longrightarrow> lists_something c"
  by (cases c) simp_all

lemma column_types [simp]:
  "column_type ''sequence'' = ''uint64''" "column_type ''channel_id'' = ''string''" "column_type ''arbitration_id'' = ''uint32''"
  "column_type ''is_extended'' = ''bool''" "column_type ''is_fd'' = ''bool''" "column_type ''direction'' = ''string''"
  "column_type ''normalized_timestamp'' = ''double''"
  by (simp_all add: column_type_def FRAME_ARROW_SCHEMA_def)

lemma typed_clause: "clause_typed c \<Longrightarrow> typed_condition (clause_condition c)"
  by (cases c) (simp_all add: of_type_def integers_def list_all_iff)

lemma typed_statement: "statement_typed st \<Longrightarrow> typed_query (sql_of st)"
proof (cases st)
  case (SelectFrames cs n)
  assume "statement_typed st"
  with SelectFrames have "list_all typed_condition (map clause_condition cs)" "0 \<le> n"
    by (auto simp: statement_typed_def list_all_iff typed_clause)
  with SelectFrames show ?thesis
    by (simp add: typed_query_def sorts_by_def names_its_groups_def item_name_def is_column_def integers_def
        SELECTED_COLUMNS_def FRAME_COLUMNS_def)
next
  case (Summarize cs)
  assume "statement_typed st"
  with Summarize have "list_all typed_condition (map clause_condition cs)"
    by (auto simp: statement_typed_def list_all_iff typed_clause)
  with Summarize show ?thesis by (simp add: typed_query_def names_its_groups_def is_column_def integers_def)
next
  case (CountIds cs n)
  assume "statement_typed st"
  with CountIds have "list_all typed_condition (map clause_condition cs)" "0 \<le> n"
    by (auto simp: statement_typed_def list_all_iff typed_clause)
  with CountIds show ?thesis
    by (simp add: typed_query_def sorts_by_def names_its_groups_def item_name_def integers_def FRAME_COLUMNS_def)
qed

lemma read_statement:
  assumes "statement_typed st"
  shows "read_query (statement_text st) (statement_parameters st) = Some (sql_of st)"
proof -
  have "list_all lists_something (statement_clauses st)"
    using assms by (auto simp: statement_typed_def list_all_iff clause_typed_lists)
  then show ?thesis using parse_statement typed_statement [OF assms] by (simp add: read_query_def)
qed

end
