(* ===== verification/Data_Durability.thy ===== *)
theory Data_Durability
  imports Data_Session "HOL-Library.Sublist"
begin

text \<open>
  What a data session keeps. The invariant ties the writer's memory, the rows of the
  database and the files to the frames that the writer accepted; every operation of the
  writer and of the service keeps it, whatever of the host fails. From it: what is committed
  reads back, a finalised session is complete, and an inspection finds no damage.
\<close>

section \<open>The invariant\<close>

definition segment_stored ::
    "pystr list \<Rightarrow> (pystr list \<times> disk_file) list \<Rightarrow> data_session \<Rightarrow> nat \<times> frame list \<Rightarrow> data_segment \<Rightarrow> bool" where
  "segment_stored base fl x c g \<longleftrightarrow>
     snd c \<noteq> [] \<and> seg_index g = int (fst c) \<and> seg_frame_count g = int (length (snd c)) \<and>
     seg_first_sequence g = sequence (hd (snd c)) \<and> seg_last_sequence g = sequence (last (snd c)) \<and>
     map_option content (map_of fl (canonical_location base (ses_id x) (fst c))) =
       Some (Some (segment_table (ses_id x) (ses_stream x) (fst c) (snd c)))"

text \<open>Every registered segment is a valid row whose file is there, with the size of the row.\<close>

definition file_registered :: "pystr list \<Rightarrow> (pystr list \<times> disk_file) list \<Rightarrow> data_segment \<Rightarrow> bool" where
  "file_registered base fl g \<longleftrightarrow>
     segment_wf g \<and> relative_path g = canonical_path (seg_session g) (nat (seg_index g)) \<and>
     map_option size_on_disk (map_of fl (canonical_location base (seg_session g) (nat (seg_index g)))) = Some (byte_size g)"

definition store_ok ::
    "pystr list \<Rightarrow> data_session list \<Rightarrow> data_segment list \<Rightarrow> (pystr list \<times> disk_file) list \<Rightarrow> bool" where
  "store_ok base rows segs fl \<longleftrightarrow>
     distinct (map ses_id rows) \<and> list_all session_wf rows \<and>
     set (map seg_session segs) \<subseteq> set (map ses_id rows) \<and> list_all (file_registered base fl) segs"

definition committed ::
    "pystr list \<Rightarrow> data_segment list \<Rightarrow> (pystr list \<times> disk_file) list \<Rightarrow> data_session \<Rightarrow> frame list list \<Rightarrow> bool" where
  "committed base segs fl x cs \<longleftrightarrow>
     ses_segment_count x = int (length cs) \<and> ses_frame_count x = int (length (concat cs)) \<and>
     list_all2 (segment_stored base fl x) (enumerate 0 cs) (filter (\<lambda>g. seg_session g = ses_id x) segs)"

definition data_part :: "data_session \<Rightarrow> data_session" where
  "data_part x = x\<lparr>ses_state := ACTIVE, ended_at := None, ses_updated_at := 0\<rparr>"

text \<open>The row of a session: its data is the writer's, its state is completed only if the writer's is.\<close>

definition session_row :: "data_session \<Rightarrow> data_session \<Rightarrow> bool" where
  "session_row x r \<longleftrightarrow> data_part r = data_part (stored_session x) \<and> (ses_state r = COMPLETED \<longrightarrow> ses_state x = COMPLETED)"

definition frame_ok :: "frame \<Rightarrow> bool" where
  "frame_ok f \<longleftrightarrow> valid_frame f \<and> num_double (normalized_timestamp f)"

definition session_inv ::
    "frame list \<Rightarrow> frame list \<Rightarrow> pystr list \<Rightarrow> data_session list \<Rightarrow> data_segment list \<Rightarrow> (pystr list \<times> disk_file) list \<Rightarrow>
      data_session \<Rightarrow> bool" where
  "session_inv A pending base rows segs fl x \<longleftrightarrow>
     store_ok base rows segs fl \<and> session_wf x \<and> list_all frame_ok A \<and>
     pred_option num_double (ses_first_timestamp x) \<and> pred_option num_double (ses_last_timestamp x) \<and>
     list_ex (session_row x) rows \<and>
     (\<exists>cs. committed base segs fl x cs \<and> prefix (concat cs) A \<and> (ses_state x = ACTIVE \<longrightarrow> concat cs @ pending = A))"

lemma data_part_eq: "data_part a = data_part b \<longleftrightarrow>
    ses_id a = ses_id b \<and> ses_project a = ses_project b \<and> ses_stream a = ses_stream b \<and> started_at a = started_at b \<and>
    ses_frame_count a = ses_frame_count b \<and> ses_segment_count a = ses_segment_count b \<and>
    ses_first_sequence a = ses_first_sequence b \<and> ses_last_sequence a = ses_last_sequence b \<and>
    ses_first_timestamp a = ses_first_timestamp b \<and> ses_last_timestamp a = ses_last_timestamp b \<and>
    ses_created_at a = ses_created_at b"
  by (cases a; cases b) (auto simp: data_part_def)

lemma stored_session_fields [simp]:
  "ses_id (stored_session x) = ses_id x" "ses_state (stored_session x) = ses_state x"
  "ses_stream (stored_session x) = ses_stream x"
  by (simp_all add: stored_session_def)

lemma stored_segment_fields [simp]:
  "seg_session (stored_segment g) = seg_session g" "seg_index (stored_segment g) = seg_index g"
  "relative_path (stored_segment g) = relative_path g" "seg_frame_count (stored_segment g) = seg_frame_count g"
  "seg_first_sequence (stored_segment g) = seg_first_sequence g" "seg_last_sequence (stored_segment g) = seg_last_sequence g"
  "byte_size (stored_segment g) = byte_size g"
  by (simp_all add: stored_segment_def)

subsection \<open>Files\<close>

text \<open>Files that hold the same at the place of every segment but one.\<close>

definition touches :: "pystr list \<Rightarrow> pystr \<Rightarrow> nat \<Rightarrow> (pystr list \<times> disk_file) list \<Rightarrow> (pystr list \<times> disk_file) list \<Rightarrow> bool" where
  "touches base i n fl fl' \<longleftrightarrow>
     (\<forall>j m. (j, m) \<noteq> (i, n) \<longrightarrow> map_of fl' (canonical_location base j m) = map_of fl (canonical_location base j m))"

lemma touches_refl [simp]: "touches base i n fl fl"
  by (simp add: touches_def)

lemma touches_trans: "touches base i n fl fl' \<Longrightarrow> touches base i n fl' fl'' \<Longrightarrow> touches base i n fl fl''"
  by (simp add: touches_def)

lemma touches_update [simp]:
  "touches base i n fl (AList.update (canonical_location base i n) d fl)"
  "touches base i n fl (AList.delete (canonical_location base i n) fl)"
  by (auto simp: touches_def update_conv' delete_conv' fun_upd_def)

definition not_a_segment :: "pystr list \<Rightarrow> pystr list \<Rightarrow> bool" where
  "not_a_segment base p \<longleftrightarrow> (\<forall>j m. p \<noteq> canonical_location base j m)"

lemma touches_temporary:
  assumes "not_a_segment base p"
  shows "touches base i n fl (AList.update p d fl)" "touches base i n fl (AList.delete p fl)"
  using assms by (auto simp: touches_def update_conv' delete_conv' fun_upd_def not_a_segment_def)

lemma temporary_not_a_segment: "not_a_segment base (temporary_location (canonical_location base i n))"
proof -
  have "last (codes (six_digits n @ ''.parquet'') @ codes ''.parquet.tmp'') \<noteq> last (codes (six_digits m @ ''.parquet''))" for m
    by (simp add: codes_def)
  then have "codes (six_digits n @ ''.parquet'') @ codes ''.parquet.tmp'' \<noteq> codes (six_digits m @ ''.parquet'')" for m
    by metis
  then show ?thesis
    by (auto simp: not_a_segment_def temporary_location_def canonical_location_def butlast_append)
qed

lemma map_of_touched:
  assumes "touches base i n fl fl'" "(j, m) \<noteq> (i, n)"
  shows "map_of fl' (canonical_location base j m) = map_of fl (canonical_location base j m)"
  using assms unfolding touches_def by blast

definition rows_part :: "'a store_scheme \<Rightarrow> pystr list \<times> pystr \<times> data_session list \<times> data_segment list \<times> 'a" where
  "rows_part s = (base_dir s, project_id s, session_rows s, segment_rows s, store.more s)"

lemma rows_part_updates [simp]:
  "rows_part (s\<lparr>readings := k\<rparr>) = rows_part s" "rows_part (s\<lparr>files := fl\<rparr>) = rows_part s"
  by (simp_all add: rows_part_def)

lemma remove_quietly_wp:
  assumes "p = canonical_location base i n \<or> not_a_segment base p" "touches base i n fl (files s)" "rows_part s = R"
  shows "wp (remove_quietly h p) (\<lambda>_ t. touches base i n fl (files t) \<and> rows_part t = R) E s"
proof -
  have "touches base i n (files s) (AList.delete p (files s))" using assms(1) touches_temporary by auto
  with assms(2,3) show ?thesis
    by (simp add: remove_quietly_def remove_file_def) (blast intro: touches_trans)
qed

lemma write_segment_file_wp:
  assumes "arrow_keeps (host_arrow h)"
  shows "wp (write_segment_file h (canonical_location base i n) i st (int n) fs)
    (\<lambda>w t. touches base i n (files s) (files t) \<and> rows_part t = rows_part s \<and>
      map_of (files t) (canonical_location base i n) = Some \<lparr>content = Some (segment_table i st n fs), size_on_disk = w\<rparr>)
    (\<lambda>_ t. touches base i n (files s) (files t) \<and> rows_part t = rows_part s) s"
proof -
  let ?p = "canonical_location base i n"
  let ?tmp = "temporary_location ?p"
  let ?R = "\<lambda>_ t. touches base i n (files s) (files t) \<and> rows_part t = rows_part s"
  have quiet: "wp (remove_quietly h ?tmp) ?R ?R t" if "?R u t" for t u
    using that by (intro remove_quietly_wp [OF disjI2 [OF temporary_not_a_segment]]) simp_all
  note off = touches_temporary [OF temporary_not_a_segment [of base i n]]
  show ?thesis
  proof (cases "frames_to_table (host_arrow h) fs i st (int n)")
    case (Inl e)
    show ?thesis
      by (simp add: write_segment_file_def Let_def Inl quiet)
  next
    case (Inr t)
    have t: "t = segment_table i st n fs" by (rule frames_to_table_Inr [OF assms Inr])
    have new: "touches base i n (files s) (AList.update ?p d (AList.delete ?tmp (files s)))" for d
      by (rule touches_trans [OF off(2) touches_update(1)])
    show ?thesis
      by (auto simp: write_segment_file_def Let_def Inr t quiet off new remove_file_def update_conv'
          split: sum.splits)
  qed
qed

subsection \<open>Steps of the invariant\<close>

lemma committed_cong: "data_part x' = data_part x \<Longrightarrow> committed base segs fl x' = committed base segs fl x"
proof -
  assume "data_part x' = data_part x"
  then have x: "ses_id x' = ses_id x" "ses_stream x' = ses_stream x" "ses_frame_count x' = ses_frame_count x"
    "ses_segment_count x' = ses_segment_count x" by (simp_all add: data_part_eq)
  have "segment_stored base fl x' = segment_stored base fl x"
    unfolding segment_stored_def fun_eq_iff x by simp
  then show ?thesis by (intro ext) (simp only: committed_def x)
qed

lemma session_inv_lifecycle:
  assumes inv: "session_inv A p base rows segs fl x"
    and f: "\<And>r. session_wf r \<Longrightarrow> session_wf (f r)" "\<And>r. ses_id (f r) = ses_id r"
    and row: "\<And>r. session_row x r \<Longrightarrow> session_row x' (f r)"
    and x': "data_part x' = data_part x" "session_wf x'" "ses_state x' = ACTIVE \<Longrightarrow> ses_state x = ACTIVE \<and> q = p"
  shows "session_inv A q base (map f rows) segs fl x'"
proof -
  have "store_ok base (map f rows) segs fl"
    using inv f by (auto simp: session_inv_def store_ok_def list_all_iff comp_def)
  moreover have "list_ex (session_row x') (map f rows)"
    using inv row by (auto simp: session_inv_def list_ex_iff)
  moreover have "ses_first_timestamp x' = ses_first_timestamp x" "ses_last_timestamp x' = ses_last_timestamp x"
    using x'(1) by (simp_all add: data_part_eq)
  ultimately show ?thesis
    using inv x' unfolding session_inv_def committed_cong [OF x'(1)] by auto
qed

lemma advance_row_wf:
  "session_wf r \<Longrightarrow> (target \<in> {COMPLETED, INTERRUPTED} \<Longrightarrow> e \<noteq> None) \<Longrightarrow> session_wf (advance_row i target e u r)"
  by (auto simp: advance_row_def session_wf_iff)

lemma advance_row_fields [simp]:
  "ses_id (advance_row i target e u r) = ses_id r" "data_part (advance_row i target e u r) = data_part r"
  by (simp_all add: advance_row_def data_part_eq)

lemma session_inv_advance:
  assumes "session_inv A p base rows segs fl x" "target \<noteq> COMPLETED" "target = INTERRUPTED \<Longrightarrow> e \<noteq> None"
  shows "session_inv A p base (map (advance_row i target e u) rows) segs fl x"
proof (rule session_inv_lifecycle [OF assms(1)])
  show "session_row x (advance_row i target e u r)" if "session_row x r" for r
    using that assms(2) by (auto simp: session_row_def) (auto simp: advance_row_def split: if_splits)
qed (use assms in \<open>auto simp: session_inv_def intro: advance_row_wf\<close>)

lemma session_inv_failed:
  assumes "session_inv A p base rows segs fl x" "ses_state x = ACTIVE"
  shows "session_inv A q base rows segs fl (x\<lparr>ses_state := FAILED, ses_updated_at := u\<rparr>)"
proof -
  have "session_inv A q base (map id rows) segs fl (x\<lparr>ses_state := FAILED, ses_updated_at := u\<rparr>)"
    by (rule session_inv_lifecycle [OF assms(1)])
      (use assms in \<open>auto simp: session_row_def data_part_eq stored_session_def session_inv_def session_wf_iff\<close>)
  then show ?thesis by simp
qed

lemma session_inv_completed:
  assumes "session_inv A p base rows segs fl x" "ses_state x = ACTIVE"
  shows "session_inv A q base (map (advance_row i COMPLETED (Some e) u) rows) segs fl
    (x\<lparr>ses_state := COMPLETED, ended_at := Some e, ses_updated_at := u\<rparr>)"
proof (rule session_inv_lifecycle [OF assms(1)])
  show "session_wf (advance_row i COMPLETED (Some e) u r)" if "session_wf r" for r
    using that by (rule advance_row_wf) simp
qed (use assms in \<open>simp_all add: session_row_def data_part_eq stored_session_def session_inv_def session_wf_iff\<close>)

lemma session_inv_wf: "session_inv A p base rows segs fl x \<Longrightarrow> session_wf x"
  by (simp add: session_inv_def)

text \<open>A registered segment of a session has an index below the session's count.\<close>

lemma committed_index:
  assumes "committed base segs fl x cs" "g \<in> set segs" "seg_session g = ses_id x"
  shows "\<exists>m < length cs. seg_index g = int m"
proof -
  from assms(2,3) obtain k where k: "k < length (filter (\<lambda>g. seg_session g = ses_id x) segs)"
    "filter (\<lambda>g. seg_session g = ses_id x) segs ! k = g"
    by (metis (mono_tags, lifting) in_set_conv_nth mem_Collect_eq set_filter)
  with assms(1) have "k < length cs" "segment_stored base fl x (enumerate 0 cs ! k) g"
    by (auto simp: committed_def list_all2_conv_all_nth)
  then show ?thesis by (auto simp: segment_stored_def nth_enumerate_eq)
qed

lemma session_inv_files:
  assumes inv: "session_inv A p base rows segs fl x" and t: "touches base (ses_id x) n fl fl'" "int n = ses_segment_count x"
  shows "session_inv A p base rows segs fl' x"
proof -
  from inv obtain cs where cs: "committed base segs fl x cs" "prefix (concat cs) A" "ses_state x = ACTIVE \<longrightarrow> concat cs @ p = A"
    by (auto simp: session_inv_def)
  have n: "n = length cs" using cs(1) t(2) by (simp add: committed_def)
  have "file_registered base fl' g" if "g \<in> set segs" "file_registered base fl g" for g
  proof -
    have "(seg_session g, nat (seg_index g)) \<noteq> (ses_id x, n)"
      using committed_index [OF cs(1) that(1)] n by auto
    with that(2) show ?thesis by (simp add: file_registered_def map_of_touched [OF t(1)])
  qed
  moreover have "segment_stored base fl' x c g" if "c \<in> set (enumerate 0 cs)" "segment_stored base fl x c g" for c g
  proof -
    have "(ses_id x, fst c) \<noteq> (ses_id x, n)" using that(1) n by (auto simp: in_set_enumerate_eq)
    with that(2) show ?thesis by (simp add: segment_stored_def map_of_touched [OF t(1)])
  qed
  then have "committed base segs fl' x cs"
    using cs(1) unfolding committed_def by (auto elim!: list.rel_mono_strong)
  ultimately show ?thesis
    using inv cs(2,3) by (auto simp: session_inv_def store_ok_def list_all_iff)
qed

lemma frames_ok_ends: "list_all frame_ok fs \<Longrightarrow> fs \<noteq> [] \<Longrightarrow> frame_ok (hd fs) \<and> frame_ok (last fs)"
  by (simp add: list_all_iff)

lemma session_inv_register:
  assumes inv: "session_inv A (fs @ rest) base rows segs fl x" and x: "ses_state x = ACTIVE" "ses_segment_count x = int n"
    and fs: "fs \<noteq> []"
    and disk: "map_of fl (canonical_location base (ses_id x) n) =
      Some \<lparr>content = Some (segment_table (ses_id x) (ses_stream x) n fs), size_on_disk = byte_size g\<rparr>"
    and g: "segment_wf g" "seg_session g = ses_id x" "seg_index g = int n" "relative_path g = canonical_path (ses_id x) n"
      "seg_frame_count g = int (length fs)" "seg_first_sequence g = sequence (hd fs)" "seg_last_sequence g = sequence (last fs)"
      "seg_first_timestamp g = normalized_timestamp (hd fs)" "seg_last_timestamp g = normalized_timestamp (last fs)"
    and wf: "session_wf (after_segment x fs now)"
  shows "session_inv A rest base (rewrite_row (after_segment x fs now) rows) (segs @ [stored_segment g]) fl (after_segment x fs now)"
proof -
  let ?x = "after_segment x fs now"
  from inv x(1) obtain cs where cs: "committed base segs fl x cs" "concat cs @ fs @ rest = A"
    by (auto simp: session_inv_def)
  have ok: "frame_ok (hd fs)" "frame_ok (last fs)"
    using inv frames_ok_ends [OF _ fs] by (auto simp: session_inv_def simp flip: cs(2))
  from inv obtain r where r: "r \<in> set rows" "session_row x r" by (auto simp: session_inv_def list_ex_iff)
  then have rid: "ses_id r = ses_id x" by (simp add: session_row_def data_part_eq)
  have ids: "ses_id ?x = ses_id x" "ses_state ?x = ses_state x" "ses_stream ?x = ses_stream x" by (simp_all add: after_segment_def)
  have dbl: "pred_option num_double (ses_first_timestamp ?x)" "pred_option num_double (ses_last_timestamp ?x)"
    using inv ok by (auto simp: session_inv_def after_segment_def frame_ok_def split: option.splits)
  have rows: "map ses_id (rewrite_row ?x rows) = map ses_id rows"
    by (simp add: rewrite_row_def)
  have seg: "segment_wf (stored_segment g)"
    using g ok by (intro stored_segment_wf) (simp_all add: frame_ok_def)
  have n: "n = length cs" using cs(1) x(2) by (simp add: committed_def)
  have "store_ok base (rewrite_row ?x rows) (segs @ [stored_segment g]) fl"
  proof -
    have "list_all session_wf (rewrite_row ?x rows)"
      using inv stored_session_wf [OF wf dbl] by (auto simp: session_inv_def store_ok_def list_all_iff rewrite_row_def)
    moreover have "ses_id x \<in> set (map ses_id rows)"
      using r(1) rid by (metis imageI set_map)
    moreover have "file_registered base fl (stored_segment g)"
      using seg g disk by (simp add: file_registered_def)
    ultimately show ?thesis using inv g(2) unfolding store_ok_def rows by (auto simp: session_inv_def store_ok_def)
  qed
  moreover have "stored_session ?x \<in> set (rewrite_row ?x rows)"
    unfolding rewrite_row_def using r(1) rid ids(1) by force
  then have "list_ex (session_row ?x) (rewrite_row ?x rows)"
    using x(1) ids(2) by (auto simp: list_ex_iff session_row_def)
  moreover have "committed base (segs @ [stored_segment g]) fl ?x (cs @ [fs])"
  proof -
    have same: "segment_stored base fl ?x = segment_stored base fl x" unfolding segment_stored_def ids ..
    have "segment_stored base fl x (n, fs) (stored_segment g)"
      using g disk fs by (simp add: segment_stored_def)
    then show ?thesis
      using cs(1) g(2) n unfolding committed_def ids same
      by (auto simp: enumerate_append_eq after_segment_def intro!: list_all2_appendI)
  qed
  moreover have "concat (cs @ [fs]) @ rest = A" using cs(2) by simp
  ultimately show ?thesis
    using inv wf dbl unfolding session_inv_def by (metis prefixI)
qed

abbreviation winv :: "frame list \<Rightarrow> frame list \<Rightarrow> 'a writer_scheme \<Rightarrow> bool" where
  "winv A p s \<equiv> session_inv A p (base_dir s) (session_rows s) (segment_rows s) (files s) (w_session s)"

lemma advance_wp:
  assumes "winv A p s" "target \<noteq> COMPLETED" "target = INTERRUPTED \<Longrightarrow> e \<noteq> None" "w_session s = x"
  shows "wp (advance h code i target e u) (\<lambda>_ t. winv A p t \<and> w_session t = x) (\<lambda>_ t. winv A p t \<and> w_session t = x) s"
  using assms session_inv_advance [OF assms(1-3)]
  by (simp add: advance_def wp_transaction Let_def split: option.splits sum.splits)

lemma mark_failed_wp:
  fixes s :: "'a writer_scheme"
  assumes inv: "winv A p s" "ses_state (w_session s) = ACTIVE"
  shows "wp (mark_failed h) (\<lambda>_ t. winv A q t \<and> ses_state (w_session t) = FAILED)
    (\<lambda>_ t. winv A q t \<and> ses_state (w_session t) = FAILED) s"
proof -
  let ?F = "\<lambda>u. (w_session s)\<lparr>ses_state := FAILED, ses_updated_at := u\<rparr>"
  let ?R = "\<lambda>_ t. winv A q t \<and> ses_state (w_session t) = FAILED"
  note failed = session_inv_failed [OF inv]
  have adv: "wp (advance_session_state h (?F u)) Q E t"
    if "winv A q t" "w_session t = ?F u" "\<And>a t. ?R a t \<Longrightarrow> Q a t" "\<And>e t. ?R e t \<Longrightarrow> E e t"
    for u Q E and t :: "'a writer_scheme"
    unfolding advance_session_state_def
    by (rule wp_mono [OF advance_wp [OF that(1) _ _ that(2)]]) (use that(3,4) in auto)
  show ?thesis
    using failed session_inv_wf [OF failed]
    by (auto simp: mark_failed_def session_wf_def wp_pure Let_def split: option.splits intro!: adv)
qed

lemma session_inv_uuid:
  "session_inv A p base rows segs fl x \<Longrightarrow> is_uuid (ses_id x) \<and> (\<exists>n. ses_segment_count x = int n)"
  by (auto simp: session_inv_def session_wf_iff committed_def)

lemma register_wp:
  fixes s :: "'a writer_scheme"
  assumes inv: "winv A (fs @ rest) s" and x: "w_session s = x" "ses_state x = ACTIVE" "ses_segment_count x = int n"
    and fs: "fs \<noteq> []"
    and disk: "map_of (files s) (canonical_location (base_dir s) (ses_id x) n) =
      Some \<lparr>content = Some (segment_table (ses_id x) (ses_stream x) n fs), size_on_disk = byte_size g\<rparr>"
    and g: "segment_wf g" "seg_session g = ses_id x" "seg_index g = int n" "relative_path g = canonical_path (ses_id x) n"
      "seg_frame_count g = int (length fs)" "seg_first_sequence g = sequence (hd fs)" "seg_last_sequence g = sequence (last fs)"
      "seg_first_timestamp g = normalized_timestamp (hd fs)" "seg_last_timestamp g = normalized_timestamp (last fs)"
    and wf: "session_wf (after_segment x fs now)"
    and Q: "\<And>t. winv A rest (t\<lparr>w_session := after_segment x fs now\<rparr>) \<Longrightarrow>
        after_segment x fs now \<in> {y. list_ex (\<lambda>r. r = stored_session y) (session_rows t)} \<Longrightarrow> Q () t"
    and E: "\<And>e t. winv A (fs @ rest) t \<Longrightarrow> w_session t = x \<Longrightarrow> base_dir t = base_dir s \<Longrightarrow> E e t"
  shows "wp (with_connection h (register_segment h g (after_segment x fs now))) Q E s"
proof -
  note reg = session_inv_register [OF inv [unfolded x(1)] x(2,3) fs disk g wf]
  from inv obtain r where r: "r \<in> set (session_rows s)" "session_row x r" by (auto simp: session_inv_def list_ex_iff x)
  then have "ses_id r = ses_id (after_segment x fs now)" by (simp add: session_row_def data_part_eq after_segment_def)
  then have "list_ex (\<lambda>r. r = stored_session (after_segment x fs now)) (rewrite_row (after_segment x fs now) (session_rows s))"
    using r(1) by (force simp: list_ex_iff rewrite_row_def)
  then show ?thesis
    using inv x reg
    by (auto simp: register_segment_def wp_transaction Let_def split: option.splits sum.splits intro!: Q E)
qed

lemma mark_failed_inv:
  fixes s :: "'a writer_scheme"
  assumes "winv A p s" "ses_state (w_session s) = ACTIVE"
  shows "wp (mark_failed h) (\<lambda>_. winv A q) (\<lambda>_. winv A q) s"
  by (rule wp_mono [OF mark_failed_wp [OF assms, of h q]]) auto

lemma rows_partD:
  fixes s t :: "'a writer_scheme"
  assumes "rows_part t = rows_part s"
  shows "w_session t = w_session s \<and> base_dir t = base_dir s \<and> session_rows t = session_rows s \<and> segment_rows t = segment_rows s"
  using assms by (cases t; cases s) (simp add: rows_part_def)

lemma files_inv:
  fixes s t :: "'a writer_scheme"
  assumes "winv A p s" "ses_segment_count (w_session s) = int n"
    "touches (base_dir s) (ses_id (w_session s)) n (files s) (files t)" "rows_part t = rows_part s"
  shows "winv A p t \<and> w_session t = w_session s \<and> base_dir t = base_dir s"
  using session_inv_files [OF assms(1,3)] assms(2) rows_partD [OF assms(4)] by simp

lemma write_segment_inv:
  fixes s :: "'a writer_scheme"
  assumes h: "arrow_keeps (host_arrow h)" and inv: "winv A p s" and n: "ses_segment_count (w_session s) = int n"
    and x: "w_session s = x" "base_dir s = b"
    and Q: "\<And>w t. winv A p t \<Longrightarrow> w_session t = x \<Longrightarrow> base_dir t = b \<Longrightarrow>
      map_of (files t) (canonical_location b (ses_id x) n) =
        Some \<lparr>content = Some (segment_table (ses_id x) st n fs), size_on_disk = w\<rparr> \<Longrightarrow> Q w t"
    and E: "\<And>e t. winv A p t \<Longrightarrow> w_session t = x \<Longrightarrow> base_dir t = b \<Longrightarrow> E e t"
  shows "wp (write_segment_file h (canonical_location b (ses_id x) n) (ses_id x) st (int n) fs) Q E s"
proof (rule wp_mono [OF write_segment_file_wp [OF h]])
  note keep = files_inv [OF inv n, unfolded x]
  fix w t assume "touches b (ses_id x) n (files s) (files t) \<and> rows_part t = rows_part s \<and>
    map_of (files t) (canonical_location b (ses_id x) n) = Some \<lparr>content = Some (segment_table (ses_id x) st n fs), size_on_disk = w\<rparr>"
  then show "Q w t" using keep [of t] by (intro Q) auto
next
  note keep = files_inv [OF inv n, unfolded x]
  fix e t assume "touches b (ses_id x) n (files s) (files t) \<and> rows_part t = rows_part s"
  then show "E e t" using keep [of t] by (intro E) auto
qed

lemma new_segment_ok:
  assumes "data_segment_post_init (new_segment x rel fs written created u) = Inr g" "is_uuid (ses_id x)"
  shows "g = new_segment x rel fs written created u \<and> segment_wf g"
  using segment_post_init [OF assms(1)] assms(2) unsigned_less [of u, where ?'a = nat]
  by (simp_all add: new_segment_def is_uuid_text)

lemma after_segment_ok:
  assumes "data_session_post_init (after_segment x fs now) = Inr y" "session_wf x"
  shows "y = after_segment x fs now \<and> session_wf y"
  using session_post_init [OF assms(1)] assms(2) by (simp_all add: session_wf_iff after_segment_def)

lemma register_written_wp:
  fixes s :: "'a writer_scheme"
  assumes inv: "winv A (fs @ rest) s" and x: "w_session s = x" "ses_state x = ACTIVE" "ses_segment_count x = int n"
    and fs: "fs \<noteq> []" and b: "base_dir s = b"
    and disk: "map_of (files s) (canonical_location b (ses_id x) n) =
      Some \<lparr>content = Some (segment_table (ses_id x) (ses_stream x) n fs), size_on_disk = written\<rparr>"
  shows "wp (register_written h x (canonical_path (ses_id x) n) (canonical_location b (ses_id x) n) fs created written)
    (\<lambda>_ t. winv A rest t \<and> ses_state (w_session t) = ACTIVE \<and> ses_id (w_session t) = ses_id x \<and> list_ex (\<lambda>r. r = stored_session (w_session t)) (session_rows t))
    (\<lambda>_. winv A (fs @ rest)) s"
proof -
  let ?Q = "\<lambda>_ t. winv A rest t \<and> ses_state (w_session t) = ACTIVE \<and> ses_id (w_session t) = ses_id x \<and> list_ex (\<lambda>r. r = stored_session (w_session t)) (session_rows t)"
  let ?E = "\<lambda>_ :: exn. winv A (fs @ rest)"
  let ?g = "new_segment x (canonical_path (ses_id x) n) fs written created"
  have wf: "session_wf x" "is_uuid (ses_id x)" using inv x(1) by (auto simp: session_inv_def session_wf_iff)
  have undo: "wp (remove_quietly h (canonical_location b (ses_id x) n))
      (\<lambda>_. wp (mark_failed h) (\<lambda>_. winv A (fs @ rest)) ?E) ?E t"
    if t: "winv A (fs @ rest) t" "w_session t = x" "base_dir t = b" for t :: "'a writer_scheme"
  proof (rule wp_mono [OF remove_quietly_wp [OF disjI1 [OF refl] touches_refl refl]])
    fix u assume "touches b (ses_id x) n (files t) (files u) \<and> rows_part u = rows_part t"
    then show "wp (mark_failed h) (\<lambda>_. winv A (fs @ rest)) ?E u"
      using t x files_inv [OF t(1), of n u] by (intro mark_failed_inv) auto
  qed simp
  have undo': "wp (remove_quietly h (canonical_location (base_dir t) (ses_id (w_session t)) n))
      (\<lambda>_. wp (mark_failed h) (\<lambda>_. winv A (fs @ rest)) ?E) ?E t"
    if "winv A (fs @ rest) t" "x = w_session t" "b = base_dir t" for t :: "'a writer_scheme"
    using undo that by simp
  have "wp (with_connection h (register_segment h (?g u) (after_segment x fs now))) Q E t"
    if "segment_wf (?g u)" "session_wf (after_segment x fs now)" "winv A (fs @ rest) t" "w_session t = x" "base_dir t = b"
      "files t = files s"
      "\<And>t. winv A rest (t\<lparr>w_session := after_segment x fs now\<rparr>) \<Longrightarrow>
        list_ex (\<lambda>r. r = stored_session (after_segment x fs now)) (session_rows t) \<Longrightarrow> Q () t"
      "\<And>e t. winv A (fs @ rest) t \<Longrightarrow> w_session t = x \<Longrightarrow> base_dir t = b \<Longrightarrow> E e t"
    for u now Q E and t :: "'a writer_scheme"
    by (rule register_wp [OF that(3,4) x(2,3) fs _ that(1) _ _ _ _ _ _ _ _ that(2)])
      (use that disk x in \<open>simp_all add: new_segment_def\<close>)
  note reg = this
  have act: "ses_state (after_segment x fs now) = ACTIVE" "ses_id (after_segment x fs now) = ses_id x" for now
    using x(2) by (simp_all add: after_segment_def)
  show ?thesis
    by (auto simp: register_written_def x(1) b wf act inv [unfolded x(1) b] simp del: wp_with_connection
        dest!: new_segment_ok [OF _ wf(2)] after_segment_ok [OF _ wf(1)] intro!: reg undo' split: sum.splits)
qed

lemma commit_segment_wp:
  fixes s :: "'a writer_scheme"
  assumes h: "arrow_keeps (host_arrow h)" and inv: "winv A (fs @ rest) s" and x: "ses_state (w_session s) = ACTIVE" and fs: "fs \<noteq> []"
  shows "wp (commit_segment h fs)
    (\<lambda>_ t. winv A rest t \<and> ses_state (w_session t) = ACTIVE \<and> ses_id (w_session t) = ses_id (w_session s) \<and> list_ex (\<lambda>r. r = stored_session (w_session t)) (session_rows t))
    (\<lambda>_. winv A (fs @ rest)) s"
proof -
  obtain n where n: "is_uuid (ses_id (w_session s))" "ses_segment_count (w_session s) = int n"
    using session_inv_uuid [OF inv] by blast
  show ?thesis
    using inv x n fs
    by (auto simp: commit_segment_def Let_def wp_pure resolve_canonical
        intro!: write_segment_inv [OF h] register_written_wp mark_failed_inv)
qed

subsection \<open>The operations\<close>

abbreviation writer_inv :: "frame list \<Rightarrow> 'a writer_scheme \<Rightarrow> bool" where
  "writer_inv A s \<equiv> winv A (w_buffer s) s \<and> 0 < max_frames_per_segment s"

lemma untouchedD:
  assumes "untouched t = untouched s"
  shows "w_buffer t = w_buffer s \<and> max_frames_per_segment t = max_frames_per_segment s \<and> writer.more t = writer.more s"
  using assms by (simp add: untouched_def)

definition stays :: "frame list \<Rightarrow> 'a writer_scheme \<Rightarrow> 'a writer_scheme \<Rightarrow> bool" where
  "stays A s t \<longleftrightarrow> writer_inv A t \<and> writer.more t = writer.more s"

lemma stays_cong: "writer.more t = writer.more s \<Longrightarrow> stays A t = stays A s"
  by (simp add: stays_def fun_eq_iff)

lemma stays_refl: "writer_inv A s \<Longrightarrow> stays A s s" "writer_inv A s \<Longrightarrow> stays A s (s\<lparr>readings := k\<rparr>)"
  by (simp_all add: stays_def)

lemma session_inv_extend:
  "session_inv A p base rows segs fl x \<Longrightarrow> list_all frame_ok fs \<Longrightarrow> session_inv (A @ fs) (p @ fs) base rows segs fl x"
  by (auto simp: session_inv_def)

lemma session_inv_inactive:
  "session_inv A p base rows segs fl x \<Longrightarrow> ses_state x \<noteq> ACTIVE \<Longrightarrow> session_inv A q base rows segs fl x"
  by (auto simp: session_inv_def)

lemma active_row:
  "stored_session y \<in> set rows \<Longrightarrow> ses_state y = ACTIVE \<Longrightarrow> ses_id y = i \<Longrightarrow>
    \<exists>r\<in>set rows. ses_id r = i \<and> ses_state r = ACTIVE"
  by (rule bexI) simp_all

lemma commit_segment_buffered:
  fixes s :: "'a writer_scheme"
  assumes h: "arrow_keeps (host_arrow h)" and inv: "winv A (w_buffer s) s" and x: "ses_state (w_session s) = ACTIVE"
    and fs: "fs \<noteq> []" "w_buffer s = fs @ rest"
  shows "wp (commit_segment h fs) (\<lambda>_ t. winv A rest t \<and> ses_state (w_session t) = ACTIVE \<and> untouched t = untouched s \<and>
      list_ex (\<lambda>r. ses_id r = ses_id (w_session s) \<and> ses_state r = ACTIVE) (session_rows t))
    (\<lambda>_ t. winv A (w_buffer t) t \<and> untouched t = untouched s) s"
  by (rule wp_mono [OF wp_conj [OF commit_segment_wp [OF h inv [unfolded fs(2)] x fs(1)] keeps_wp [OF untouched_commit]]])
    (use fs(2) in \<open>auto simp: list_ex_iff dest: untouchedD intro: active_row\<close>)

lemma flush_full_wp:
  fixes s :: "'a writer_scheme"
  assumes "arrow_keeps (host_arrow h)" "writer_inv A s" "ses_state (w_session s) = ACTIVE"
  shows "wp (flush_full_segments h) (\<lambda>_ t. stays A s t \<and> ses_state (w_session t) = ACTIVE)
    (\<lambda>_. stays A s) s"
  using assms
proof (induction h s rule: flush_full_segments.induct)
  case (1 h s)
  let ?k = "max_frames_per_segment s"
  show ?case
  proof (cases "length (w_buffer s) < ?k")
    case True
    with "1.prems" show ?thesis by (subst wp_def) (simp add: flush_full_segments.simps stays_def)
  next
    case False
    let ?fs = "take ?k (w_buffer s)"
    have fs: "?fs \<noteq> []" "w_buffer s = ?fs @ drop ?k (w_buffer s)" using False "1.prems"(2) by auto
    from "1.prems" have w: "winv A (w_buffer s) s" "0 < ?k" by auto
    note commit = commit_segment_buffered [OF "1.prems"(1) w(1) "1.prems"(3) fs]
    obtain r t where rt: "commit_segment h ?fs s = (r, t)" by fastforce
    show ?thesis
    proof (cases r)
      case (Inl e)
      with rt commit have "winv A (w_buffer t) t" "untouched t = untouched s" by (auto simp: wp_def)
      with rt Inl False w show ?thesis
        by (subst wp_def) (auto simp: flush_full_segments.simps [of h s] stays_def dest: untouchedD)
    next
      case (Inr u)
      let ?t = "t\<lparr>w_buffer := drop (max_frames_per_segment t) (w_buffer t)\<rparr>"
      from rt commit Inr have t: "winv A (drop ?k (w_buffer s)) t" "ses_state (w_session t) = ACTIVE" "untouched t = untouched s"
        by (auto simp: wp_def)
      note u = untouchedD [OF t(3)]
      have st: "stays A ?t = stays A s" by (rule stays_cong) (simp add: u)
      have "wp (flush_full_segments h) (\<lambda>_ v. stays A s v \<and> ses_state (w_session v) = ACTIVE) (\<lambda>_. stays A s) ?t"
        unfolding st [symmetric] using "1.IH" [OF False rt [symmetric] Inr] "1.prems"(1) t u w by simp
      then show ?thesis
        using rt Inr False u by (simp add: wp_def flush_full_segments.simps [of h s])
    qed
  qed
qed

lemma append_checks_state: "append_checks b s = (fst (append_checks b s), s)"
  by (simp add: append_checks_def require_active_def ebind_apply guard_def)

lemma append_checks_active: "fst (append_checks b s) = Inr () \<Longrightarrow> ses_state (w_session s) = ACTIVE"
  by (auto simp: append_checks_def require_active_def ebind_apply guard_def split: if_splits)

definition accepts :: "frame_batch \<Rightarrow> 'a writer_scheme \<Rightarrow> frame list" where
  "accepts b s = (if fst (append_checks b s) = Inr () then frames b else [])"

lemma append_wp:
  fixes s :: "'a writer_scheme"
  assumes h: "arrow_keeps (host_arrow h)" and inv: "writer_inv A s" and b: "list_all frame_ok (frames b)"
  shows "wp (append h b) (\<lambda>_. stays (A @ accepts b s) s)
    (\<lambda>_. stays (A @ accepts b s) s) s"
proof (cases "fst (append_checks b s) = Inr ()")
  case True
  let ?t = "extend_buffer b s"
  have c: "wp (append_checks b) Q E s = Q () s" for Q E
    using append_checks_state [of b s] True by (simp add: wp_def)
  have act: "ses_state (w_session ?t) = ACTIVE" using append_checks_active [OF True] by (simp add: extend_buffer_def)
  have "writer_inv (A @ frames b) ?t" "writer.more ?t = writer.more s"
    using inv session_inv_extend [OF _ b] by (auto simp: extend_buffer_def)
  then have "wp (flush_full_segments h) (\<lambda>_. stays (A @ frames b) s) (\<lambda>_. stays (A @ frames b) s) ?t"
    using wp_mono [OF flush_full_wp [OF h _ act]] by (fastforce simp: stays_def)
  then show ?thesis using True by (simp add: append_def c accepts_def)
next
  case False
  then obtain e where "fst (append_checks b s) = Inl e" by (cases "fst (append_checks b s)") auto
  then have "wp (append_checks b) Q E s = E e s" for Q E
    using append_checks_state [of b s] by (simp add: wp_def)
  then show ?thesis using inv False by (simp add: append_def accepts_def stays_def)
qed

lemma flush_pending_wp:
  fixes s :: "'a writer_scheme"
  assumes h: "arrow_keeps (host_arrow h)" and inv: "writer_inv A s"
  shows "wp (flush_pending h) (\<lambda>_ t. stays A s t \<and> w_buffer t = [] \<and> ses_state (w_session t) = ACTIVE \<and>
      (w_buffer s \<noteq> [] \<longrightarrow> list_ex (\<lambda>r. ses_id r = ses_id (w_session s) \<and> ses_state r = ACTIVE) (session_rows t)))
    (\<lambda>_. stays A s) s"
proof -
  from inv have w: "winv A (w_buffer s) s" "0 < max_frames_per_segment s" by auto
  have commit: "wp (commit_segment h (w_buffer s)) Q E s"
    if "w_buffer s \<noteq> []" "ses_state (w_session s) = ACTIVE"
      "\<And>t. winv A [] t \<Longrightarrow> ses_state (w_session t) = ACTIVE \<Longrightarrow> untouched t = untouched s \<Longrightarrow>
        list_ex (\<lambda>r. ses_id r = ses_id (w_session s) \<and> ses_state r = ACTIVE) (session_rows t) \<Longrightarrow> Q () t"
      "\<And>e t. winv A (w_buffer t) t \<Longrightarrow> untouched t = untouched s \<Longrightarrow> E e t" for Q E
    by (rule wp_mono [OF commit_segment_buffered [OF h w(1) that(2,1)]]) (use that in auto)
  show ?thesis
    using w by (auto simp: flush_pending_def require_active_def wp_pure guard_def stays_def intro!: commit dest: untouchedD)
qed

lemma filter_unique:
  "distinct (map f xs) \<Longrightarrow> x \<in> set xs \<Longrightarrow> f x = i \<Longrightarrow> P x \<Longrightarrow> length (filter (\<lambda>r. f r = i \<and> P r) xs) = 1"
proof (induction xs)
  case (Cons y xs)
  show ?case
  proof (cases "f y = i")
    case True
    with Cons.prems have "x = y" "\<forall>z\<in>set xs. f z \<noteq> i" by (auto simp: image_iff)
    with Cons.prems show ?thesis by (simp add: filter_empty_conv)
  next
    case False
    with Cons show ?thesis by auto
  qed
qed simp

lemma advance_nothing:
  assumes "distinct (map ses_id rows)" "\<not> length (filter (\<lambda>r. ses_id r = i \<and> ses_state r = ACTIVE) rows) = 1"
  shows "map (advance_row i target e u) rows = rows"
proof -
  have "\<not> (ses_id r = i \<and> ses_state r = ACTIVE)" if "r \<in> set rows" for r
    using filter_unique [OF assms(1) that, of i "\<lambda>r. ses_state r = ACTIVE"] assms(2) by auto
  then show ?thesis by (intro map_idI) (auto simp: advance_row_def)
qed

lemma advance_something:
  assumes "length (filter (\<lambda>r. ses_id r = i \<and> ses_state r = ACTIVE) rows) = 1"
  shows "list_ex (\<lambda>r. ses_id r = i \<and> ses_state r = target) (map (advance_row i target e u) rows)"
proof -
  from assms obtain r where "r \<in> set (filter (\<lambda>r. ses_id r = i \<and> ses_state r = ACTIVE) rows)"
    by (metis length_0_conv list.set_intros(1) neq_Nil_conv zero_neq_one)
  then have r: "r \<in> set rows" "ses_id r = i" "ses_state r = ACTIVE" by auto
  from r(1) have "advance_row i target e u r \<in> set (map (advance_row i target e u) rows)" by simp
  moreover from r(2,3) have "ses_id (advance_row i target e u r) = i \<and> ses_state (advance_row i target e u r) = target"
    by (simp add: advance_row_def)
  ultimately show ?thesis unfolding list_ex_iff by blast
qed

lemma untouched_commit_completed [keeps_intros]: "keeps untouched (commit_completed h)"
  unfolding commit_completed_def advance_session_state_def advance_def require_active_def
  by (intro keeps_intros) simp_all

lemma commit_completed_inv:
  fixes s :: "'a writer_scheme"
  assumes inv: "winv A p s"
  shows "wp (commit_completed h)
    (\<lambda>x t. winv A p t \<and> w_session t = x \<and> ses_state x = COMPLETED \<and> ses_frame_count x = ses_frame_count (w_session s) \<and>
      ses_id x = ses_id (w_session s) \<and> list_ex (\<lambda>r. ses_id r = ses_id x \<and> ses_state r = COMPLETED) (session_rows t))
    (\<lambda>_. winv A p) s"
proof (cases "ses_state (w_session s) = ACTIVE")
  case True
  let ?x = "\<lambda>now. (w_session s)\<lparr>ses_state := COMPLETED, ended_at := Some now, ses_updated_at := now\<rparr>"
  note fin = session_inv_completed [OF inv True]
  have distinct: "distinct (map ses_id (session_rows s))" using inv by (simp add: session_inv_def store_ok_def)
  have post: "data_session_post_init (?x now) = Inr (?x now)" for now
    using session_inv_wf [OF fin] by (simp add: session_wf_def)
  show ?thesis
    using inv fin True
    by (auto simp: commit_completed_def require_active_def wp_pure post advance_session_state_def advance_def
        wp_transaction Let_def has_active_row_def advance_nothing [OF distinct] advance_something
        split: option.splits sum.splits intro!: mark_failed_inv)
next
  case False
  then show ?thesis using inv by (simp add: commit_completed_def require_active_def wp_pure guard_def)
qed

lemma commit_completed_wp:
  fixes s :: "'a writer_scheme"
  assumes "writer_inv A s"
  shows "wp (commit_completed h)
    (\<lambda>x t. stays A s t \<and> w_session t = x \<and> ses_state x = COMPLETED \<and>
      ses_frame_count x = ses_frame_count (w_session s) \<and> ses_id x = ses_id (w_session s) \<and>
      list_ex (\<lambda>r. ses_id r = ses_id x \<and> ses_state r = COMPLETED) (session_rows t))
    (\<lambda>_. stays A s) s"
  by (rule wp_mono [OF wp_conj [OF commit_completed_inv keeps_wp [OF untouched_commit_completed]]])
    (use assms in \<open>auto simp: stays_def dest: untouchedD\<close>)

text \<open>What is committed is counted, so a count of everything accepted means that nothing is missing.\<close>

lemma winv_count:
  "session_inv A p base rows segs fl x \<Longrightarrow> ses_state x = ACTIVE \<Longrightarrow> ses_frame_count x + int (length p) = int (length A)"
  by (auto simp: session_inv_def committed_def)

lemma finalize_wp:
  fixes s :: "'a writer_scheme"
  assumes "arrow_keeps (host_arrow h)" "writer_inv A s"
  shows "wp (finalize h)
    (\<lambda>x t. stays A s t \<and> w_session t = x \<and> ses_state x = COMPLETED \<and>
      ses_frame_count x = int (length A) \<and> list_ex (\<lambda>r. ses_id r = ses_id x \<and> ses_state r = COMPLETED) (session_rows t))
    (\<lambda>_. stays A s) s"
  unfolding finalize_def wp_eseq
proof (rule wp_mono [OF flush_pending_wp [OF assms]])
  fix t :: "'a writer_scheme" and u
  assume "stays A s t \<and> w_buffer t = [] \<and> ses_state (w_session t) = ACTIVE \<and>
    (w_buffer s \<noteq> [] \<longrightarrow> list_ex (\<lambda>r. ses_id r = ses_id (w_session s) \<and> ses_state r = ACTIVE) (session_rows t))"
  then have t: "stays A s t \<and> w_buffer t = [] \<and> ses_state (w_session t) = ACTIVE" by blast
  then have "writer_inv A t" "ses_frame_count (w_session t) = int (length A)" using winv_count [of A "[]"] by (auto simp: stays_def)
  with t show "wp (commit_completed h)
    (\<lambda>x t. stays A s t \<and> w_session t = x \<and> ses_state x = COMPLETED \<and>
      ses_frame_count x = int (length A) \<and> list_ex (\<lambda>r. ses_id r = ses_id x \<and> ses_state r = COMPLETED) (session_rows t))
    (\<lambda>_. stays A s) t"
    by (intro wp_mono [OF commit_completed_wp [of A t h]]) (auto simp: stays_def)
qed (auto simp: stays_def)

lemma close_wp:
  fixes s :: "'a writer_scheme"
  assumes "arrow_keeps (host_arrow h)" "writer_inv A s"
  shows "wp (close h) (\<lambda>_. stays A s)
    (\<lambda>_. stays A s) s"
  using wp_mono [OF finalize_wp [OF assms]] assms(2) by (simp add: close_def stays_def)

lemma fail_wp:
  fixes s :: "'a writer_scheme"
  assumes "writer_inv A s"
  shows "wp (fail h) (\<lambda>_. stays A s)
    (\<lambda>_. stays A s) s"
proof (cases "ses_state (w_session s) = ACTIVE")
  case True
  let ?t = "s\<lparr>w_buffer := []\<rparr>"
  have "winv A (w_buffer s) ?t" "ses_state (w_session ?t) = ACTIVE" using assms True by auto
  from wp_conj [OF mark_failed_wp [OF this, of h "[]"] keeps_wp [OF untouched_mark_failed]]
  have "wp (mark_failed h) (\<lambda>_. stays A s)
      (\<lambda>_. stays A s) ?t"
    by (rule wp_mono) (use assms in \<open>auto simp: stays_def dest!: untouchedD\<close>)
  with True show ?thesis by (simp add: fail_def)
qed (use assms in \<open>simp add: fail_def stays_def\<close>)

lemma advance_inv:
  fixes s :: "'a writer_scheme"
  assumes "writer_inv A s" "target \<noteq> COMPLETED" "target = INTERRUPTED \<Longrightarrow> e \<noteq> None"
  shows "wp (advance h code i target e u) (\<lambda>_. stays A s)
    (\<lambda>_. stays A s) s"
  using assms session_inv_advance [OF _ assms(2,3)]
  by (auto simp: advance_def stays_def wp_transaction Let_def split: option.splits sum.splits)

lemma fail_active_wp:
  fixes s :: "'a writer_scheme"
  assumes "writer_inv A s"
  shows "wp (fail_active_session h i) (\<lambda>_. stays A s)
    (\<lambda>_. stays A s) s"
proof -
  have adv: "wp (advance h code i FAILED None now) (\<lambda>_. stays A s) (\<lambda>_. stays A s) t"
    if "writer_inv A t" "writer.more t = writer.more s" for code i now and t :: "'a writer_scheme"
    using advance_inv [OF that(1), of FAILED None] stays_cong [OF that(2)] by simp
  show ?thesis
    using assms
    by (auto simp: fail_active_session_def fail_active_row_def Let_def intro!: adv stays_refl split: sum.splits option.splits)
qed

lemma mark_all_wp:
  fixes s :: "'a writer_scheme"
  assumes "writer_inv A s"
  shows "wp (mark_all_interrupted h now xs) (\<lambda>_. stays A s)
    (\<lambda>_. stays A s) s"
  using assms
proof (induction xs arbitrary: s)
  case (Cons x xs)
  show ?case
    unfolding mark_all_interrupted.simps mark_session_interrupted_def wp_eseq wp_ebind wp_basic
  proof (rule wp_mono [OF advance_inv [OF Cons.prems]])
    fix a and t :: "'a writer_scheme"
    assume "stays A s t"
    then show "wp (mark_all_interrupted h now xs) (\<lambda>_. stays A s)
        (\<lambda>_. stays A s) t"
      using Cons.IH [of t] stays_cong [of t s A] unfolding stays_def [of A s t] by simp
  qed auto
qed (simp add: stays_refl)

lemma recover_wp:
  fixes s :: "'a writer_scheme"
  assumes "writer_inv A s"
  shows "wp (recover_incomplete_sessions h given) (\<lambda>_. stays A s)
    (\<lambda>_. stays A s) s"
proof -
  have mark: "wp (mark_all_interrupted h now xs) (\<lambda>_. stays A s)
      (\<lambda>_. stays A s) t"
    if "writer_inv A t" "writer.more t = writer.more s" for now xs and t :: "'a writer_scheme"
    using mark_all_wp [OF that(1)] stays_cong [OF that(2)] by simp
  show ?thesis
    using assms
    by (auto simp: recover_incomplete_sessions_def list_sessions_in_state_def wp_pure Let_def intro!: mark stays_refl
        split: option.splits sum.splits)
qed

subsection \<open>Runs\<close>

datatype session_call =
    Append frame_batch
  | Flush_Pending
  | Commit_Completed
  | Finalize
  | Close
  | Fail
  | Fail_Active pystr
  | Recover "int option"

text \<open>A writer and the frames it accepted: those of the batches that passed its checks.\<close>

record traced_writer = writer +
  appended_frames :: "frame list"

fun session_step :: "data_host \<Rightarrow> session_call \<Rightarrow> traced_writer \<Rightarrow> traced_writer" where
  "session_step h (Append b) s = snd (append h b (s\<lparr>appended_frames := appended_frames s @ accepts b s\<rparr>))"
| "session_step h Flush_Pending s = snd (flush_pending h s)"
| "session_step h Commit_Completed s = snd (commit_completed h s)"
| "session_step h Finalize s = snd (finalize h s)"
| "session_step h Close s = snd (close h s)"
| "session_step h Fail s = snd (fail h s)"
| "session_step h (Fail_Active i) s = snd (fail_active_session h i s)"
| "session_step h (Recover now) s = snd (recover_incomplete_sessions h now s)"

definition call_ok :: "session_call \<Rightarrow> bool" where
  "call_ok c \<longleftrightarrow> (case c of Append b \<Rightarrow> list_all frame_ok (frames b) | _ \<Rightarrow> True)"

definition traced_inv :: "traced_writer \<Rightarrow> bool" where
  "traced_inv s \<longleftrightarrow> writer_inv (appended_frames s) s"

lemma traced_wp:
  fixes s :: traced_writer
  assumes "wp m (\<lambda>_. stays (appended_frames s) s) (\<lambda>_. stays (appended_frames s) s) s"
  shows "traced_inv (snd (m s))"
proof -
  from assms have "writer_inv (appended_frames s) (snd (m s))" "writer.more (snd (m s)) = writer.more s" by (simp_all add: wp_always stays_def)
  moreover from this(2) have "appended_frames (snd (m s)) = appended_frames s" by (cases "snd (m s)"; cases s) simp
  ultimately show ?thesis by (simp add: traced_inv_def)
qed

lemma session_step_inv:
  assumes h: "arrow_keeps (host_arrow h)" and inv: "traced_inv s" and c: "call_ok c"
  shows "traced_inv (session_step h c s)"
proof -
  from inv have w: "writer_inv (appended_frames s) s" by (simp add: traced_inv_def)
  show ?thesis
  proof (cases c)
    case (Append b)
    let ?s = "s\<lparr>appended_frames := appended_frames s @ accepts b s\<rparr>"
    have "fst (append_checks b (s\<lparr>appended_frames := k\<rparr>)) = fst (append_checks b s)" for k
      by (simp add: append_checks_def require_active_def require_contiguous_sequence_def
          require_ordered_timestamps_def ebind_apply Let_def cong: if_cong split: sum.splits)
    then have a: "accepts b ?s = accepts b s" by (simp add: accepts_def)
    have "writer_inv (appended_frames s) ?s" "list_all frame_ok (frames b)"
      using w c Append by (simp_all add: call_ok_def)
    from append_wp [OF h this] have "traced_inv (snd (append h b ?s))"
      by (intro traced_wp) (simp add: a)
    then show ?thesis using Append by simp
  next
    case Commit_Completed
    show ?thesis unfolding Commit_Completed session_step.simps
      by (rule traced_wp, rule wp_mono [OF commit_completed_wp [OF w]]) simp_all
  next
    case Finalize
    show ?thesis unfolding Finalize session_step.simps
      by (rule traced_wp, rule wp_mono [OF finalize_wp [OF h w]]) simp_all
  next
    case Flush_Pending
    show ?thesis unfolding Flush_Pending session_step.simps
      by (rule traced_wp, rule wp_mono [OF flush_pending_wp [OF h w]]) simp_all
  qed (use traced_wp [OF close_wp [OF h w]] traced_wp [OF fail_wp [OF w]] traced_wp [OF fail_active_wp [OF w]]
      traced_wp [OF recover_wp [OF w]] in simp_all)
qed

subsection \<open>Starting a session\<close>

lemma keeps_more_start [keeps_intros]: "keeps writer.more (start h stream)"
  unfolding start_def create_session_directory_def insert_session_def remove_directory_quietly_def Let_def
  by (intro keeps_intros) simp_all

lemma session_inv_new:
  assumes "store_ok base rows segs fl" "session_wf x" "ses_id x \<notin> set (map ses_id rows)"
    "ses_frame_count x = 0" "ses_segment_count x = 0" "ses_first_timestamp x = None" "ses_last_timestamp x = None"
    "ses_state x = ACTIVE"
  shows "session_inv [] [] base (rows @ [stored_session x]) segs fl x"
proof -
  have "filter (\<lambda>g. seg_session g = ses_id x) segs = []"
    using assms(1,3) unfolding store_ok_def filter_empty_conv by (metis imageI set_map subset_iff)
  moreover have "session_wf (stored_session x)" using assms by (intro stored_session_wf) simp_all
  ultimately show ?thesis
    using assms by (auto simp: session_inv_def store_ok_def committed_def session_row_def)
qed

lemma start_wp:
  fixes s :: "'a writer_scheme"
  assumes "store_ok (base_dir s) (session_rows s) (segment_rows s) (files s)" "0 < max_frames_per_segment s"
  shows "wp (start h stream) (\<lambda>_ t. writer_inv [] t \<and> ses_state (w_session t) = ACTIVE \<and> ses_stream (w_session t) = stream)
    (\<lambda>_ t. store_ok (base_dir t) (session_rows t) (segment_rows t) (files t)) s"
proof -
  have new: "y = (new_session (uuid_text (unat u)) p stream now)\<lparr>ses_project := ses_project y\<rparr> \<and> session_wf y"
    if "data_session_post_init (new_session (uuid_text (unat u)) p stream now) = Inr y" for u :: "128 word" and p now y
  proof -
    have "is_uuid (uuid_text (unat u))" using unsigned_less [of u, where ?'a = nat] by (simp add: is_uuid_text)
    then show ?thesis
      using that session_post_init(1) [OF that]
      by (auto simp: data_session_post_init_def rbind_Inr_iff new_session_def)
  qed
  have fields: "ses_frame_count y = 0" "ses_segment_count y = 0" "ses_first_timestamp y = None" "ses_last_timestamp y = None"
    "ses_state y = ACTIVE" "ses_stream y = stream"
    if "y = (new_session i p stream now)\<lparr>ses_project := q\<rparr>" for y i p now q
    using that by (simp_all add: new_session_def)
  show ?thesis
    using assms
    by (auto simp: start_def Let_def create_session_directory_def remove_directory_quietly_def insert_session_def
        wp_transaction rbind_Inr_iff dest!: new intro!: session_inv_new fields split: option.splits sum.splits)
qed

subsection \<open>Reading back\<close>

fun each :: "('a \<Rightarrow> ('s, 'e, 'b) exec) \<Rightarrow> 'a list \<Rightarrow> ('s, 'e, 'b list) exec" where
  "each f [] = ret []"
| "each f (x # xs) = ebind (f x) (\<lambda>y. ebind (each f xs) (\<lambda>ys. ret (y # ys)))"

text \<open>All frames of a session, as a client of the service reads them: segment by segment.\<close>

definition stored_frames :: "data_host \<Rightarrow> pystr \<Rightarrow> ('a store_scheme, exn, frame list) exec" where
  "stored_frames h i = ebind (segments_of h i) (\<lambda>gs.
     ebind (each (\<lambda>g. read_segment h i (seg_index g)) gs) (\<lambda>fss. ret (concat fss)))"

lemma find_unique: "distinct (map f xs) \<Longrightarrow> x \<in> set xs \<Longrightarrow> find (\<lambda>y. f y = f x) xs = Some x"
  by (induction xs) auto

lemma rmap_same: "(\<And>x. x \<in> set xs \<Longrightarrow> f x = Inr x) \<Longrightarrow> rmap f xs = Inr xs"
  by (induction xs) simp_all

lemma stored_frame_sequence [simp]: "sequence (stored_frame f) = sequence f"
  by (simp add: stored_frame_def)

lemma read_registered_ok:
  assumes g: "file_registered (base_dir s) (files s) g" "segment_stored (base_dir s) (files s) x (n, fs) g" "seg_session g = ses_id x"
    and r: "ses_id r = ses_id x" "ses_stream r = ses_stream x" "ses_stream x \<noteq> []"
    and fs: "list_all valid_frame fs"
  shows "read_registered s r g = Inr (map stored_frame fs)"
proof -
  have u: "is_uuid (ses_id x)" using g(1,3) by (simp add: file_registered_def segment_wf_iff)
  let ?p = "canonical_location (base_dir s) (ses_id x) n"
  from g obtain d where d: "map_of (files s) ?p = Some d" "content d = Some (segment_table (ses_id x) (ses_stream x) n fs)"
    "size_on_disk d = byte_size g"
    by (auto simp: file_registered_def segment_stored_def)
  have path: "relative_path g = canonical_path (ses_id x) n" using g by (simp add: file_registered_def segment_stored_def)
  have header: "require_registered_segment (Some d) r g =
      Inr \<lparr>header_session = ses_id x, header_stream = ses_stream x, header_index = int n, header_version = 1, row_count = int (length fs)\<rparr>"
    using g(2) r d path segment_header_gate [OF u r(3) d(2)]
    by (simp add: require_registered_segment_def segment_stored_def)
  have "read_segment_file (Some d) (Some (ses_id r)) (Some (ses_stream r)) (Some (seg_index g)) = Inr (map stored_frame fs)"
    using g(2) r read_segment_table [OF fs] d by (simp add: read_segment_file_def segment_stored_def)
  then show ?thesis
    using g(2) by (simp add: read_registered_def path resolve_canonical [OF u] d(1) header require_bounds_def
        segment_stored_def hd_map last_map)
qed

definition same_store :: "'a store_scheme \<Rightarrow> 'a store_scheme \<Rightarrow> bool" where
  "same_store s t \<longleftrightarrow> base_dir t = base_dir s \<and> session_rows t = session_rows s \<and> segment_rows t = segment_rows s \<and> files t = files s"

lemma session_inv_row:
  assumes "session_inv A p base rows segs fl x"
  obtains r where "find (\<lambda>r. ses_id r = ses_id x) rows = Some r" "session_wf r" "session_row x r" "r \<in> set rows"
proof -
  from assms obtain r where r: "r \<in> set rows" "session_row x r" by (auto simp: session_inv_def list_ex_iff)
  then have i: "ses_id r = ses_id x" by (simp add: session_row_def data_part_eq)
  have "session_wf r" "distinct (map ses_id rows)" using assms r(1) by (auto simp: session_inv_def store_ok_def list_all_iff)
  with that r find_unique [of ses_id rows r] i show ?thesis by simp
qed

lemma list_all2_map_eq: "list_all2 P xs ys \<Longrightarrow> (\<And>x y. P x y \<Longrightarrow> f y = g x) \<Longrightarrow> map f ys = map g xs"
  by (induction rule: list_all2_induct) auto

lemma committed_sorted:
  assumes "committed base segs fl x cs"
  shows "sort_key seg_index (filter (\<lambda>g. seg_session g = ses_id x) segs) = filter (\<lambda>g. seg_session g = ses_id x) segs"
    "map seg_index (filter (\<lambda>g. seg_session g = ses_id x) segs) = map int [0..<length cs]"
proof -
  let ?G = "filter (\<lambda>g. seg_session g = ses_id x) segs"
  from assms show m: "map seg_index ?G = map int [0..<length cs]"
  proof -
    have "map seg_index ?G = map (\<lambda>c. int (fst c)) (enumerate 0 cs)"
      using assms unfolding committed_def by (intro list_all2_map_eq [where P = "segment_stored base fl x"]) (auto simp: segment_stored_def)
    also have "\<dots> = map int (map fst (enumerate 0 cs))" by (simp only: map_map comp_def)
    finally show ?thesis by (simp only: map_fst_enumerate add_0)
  qed
  have "sorted (map int [0..<length cs])" by (simp add: sorted_iff_nth_mono)
  then have "sorted (map seg_index ?G)" by (simp only: m)
  then show "sort_key seg_index ?G = ?G" by (rule sort_key_id_if_sorted)
qed

lemma find_conj: "find (\<lambda>y. P y \<and> Q y) xs = find Q (filter P xs)"
  by (induction xs) auto

lemma read_segment_wp:
  fixes h :: data_host
  assumes inv: "session_inv A p (base_dir s) (session_rows s) (segment_rows s) (files s) x"
    and cs: "committed (base_dir s) (segment_rows s) (files s) x cs" "prefix (concat cs) A" and h: "host_open h = (\<lambda>_. None)"
    and g: "g \<in> set (segment_rows s)" "seg_session g = ses_id x" "segment_stored (base_dir s) (files s) x (n, fs) g" "fs \<in> set cs"
  shows "wp (read_segment h (ses_id x) (seg_index g)) (\<lambda>a t. a = map stored_frame fs \<and> same_store s t) (\<lambda>_ _. False) s"
proof -
  obtain r where r: "find (\<lambda>r. ses_id r = ses_id x) (session_rows s) = Some r" "session_wf r" "session_row x r"
    using session_inv_row [OF inv] by blast
  have stream: "ses_id r = ses_id x" "ses_stream r = ses_stream x" "ses_stream x \<noteq> []"
    using r(3) inv by (auto simp: session_row_def data_part_eq session_inv_def session_wf_iff)
  have u: "is_uuid (ses_id x)" using inv by (simp add: session_inv_def session_wf_iff)
  have reg: "file_registered (base_dir s) (files s) g" using inv g(1) by (auto simp: session_inv_def store_ok_def list_all_iff)
  have "distinct (map seg_index (filter (\<lambda>g. seg_session g = ses_id x) (segment_rows s)))"
    unfolding committed_sorted(2) [OF cs(1)] by (simp add: distinct_map)
  from find_unique [OF this, of g] g(1,2)
  have "find (\<lambda>y. seg_session y = ses_id x \<and> seg_index y = seg_index g) (segment_rows s) = Some g"
    by (simp add: find_conj)
  moreover have "segment_from_row g = Inr g" using reg by (simp add: file_registered_def segment_from_row_wf)
  moreover have "set fs \<subseteq> set A" using g(4) set_mono_prefix [OF cs(2)] by auto
  then have "list_all valid_frame fs"
    using inv by (auto simp: session_inv_def frame_ok_def list_all_iff)
  then have "read_registered t r g = Inr (map stored_frame fs)" if "same_store s t" for t
    using that by (intro read_registered_ok [OF _ _ g(2) stream, where n = n]) (simp_all add: same_store_def reg g(3))
  ultimately show ?thesis
    using u h session_from_row_wf [OF r(2)] r(1)
    by (simp add: read_segment_def wp_pure read_session_def require_registered_session_def read_segment_row_def
        same_store_def Let_def)
qed

lemma same_store_trans: "same_store s t \<Longrightarrow> same_store t u \<Longrightarrow> same_store s u"
  by (simp add: same_store_def)

lemma read_each_wp:
  fixes h :: data_host and s :: "'a store_scheme"
  assumes inv: "session_inv A p (base_dir s) (session_rows s) (segment_rows s) (files s) x"
    and cs: "committed (base_dir s) (segment_rows s) (files s) x cs" "prefix (concat cs) A" and h: "host_open h = (\<lambda>_. None)"
    and l: "list_all2 (segment_stored (base_dir s) (files s) x) ds gs" "set gs \<subseteq> set (segment_rows s)"
      "list_all (\<lambda>g. seg_session g = ses_id x) gs" "snd ` set ds \<subseteq> set cs"
    and t: "same_store s t"
  shows "wp (each (\<lambda>g. read_segment h (ses_id x) (seg_index g)) gs) (\<lambda>a u. a = map (map stored_frame \<circ> snd) ds) (\<lambda>_ _. False) t"
  using l t
proof (induction arbitrary: t rule: list_all2_induct)
  case (Cons d ds g gs)
  have store: "base_dir t = base_dir s" "session_rows t = session_rows s" "segment_rows t = segment_rows s" "files t = files s"
    using Cons.prems(4) by (simp_all add: same_store_def)
  have "wp (read_segment h (ses_id x) (seg_index g)) (\<lambda>a u. a = map stored_frame (snd d) \<and> same_store t u) (\<lambda>_ _. False) t"
    by (rule read_segment_wp [where n = "fst d"]) (use inv cs h Cons store in \<open>auto\<close>)
  then show ?case
    unfolding each.simps wp_ebind
  proof (rule wp_mono)
    fix a u assume "a = map stored_frame (snd d) \<and> same_store t u"
    with Cons.IH [of u] Cons.prems same_store_trans [of s t u]
    show "wp (each (\<lambda>g. read_segment h (ses_id x) (seg_index g)) gs)
        (\<lambda>ys. wp (ret (a # ys)) (\<lambda>a u. a = map (map stored_frame \<circ> snd) (d # ds)) (\<lambda>_ _. False)) (\<lambda>_ _. False) u"
      by (auto elim!: wp_mono)
  qed
qed simp

lemma stored_frames_wp:
  fixes h :: data_host and s :: "'a store_scheme"
  assumes inv: "session_inv A p (base_dir s) (session_rows s) (segment_rows s) (files s) x" and h: "host_open h = (\<lambda>_. None)"
  shows "wp (stored_frames h (ses_id x)) (\<lambda>a _. a = map stored_frame (take (nat (ses_frame_count x)) A)) (\<lambda>_ _. False) s"
proof -
  from inv obtain cs where cs: "committed (base_dir s) (segment_rows s) (files s) x cs" "prefix (concat cs) A"
    by (auto simp: session_inv_def)
  let ?G = "filter (\<lambda>g. seg_session g = ses_id x) (segment_rows s)"
  have count: "take (nat (ses_frame_count x)) A = concat cs"
    using cs by (auto simp: committed_def prefix_def)
  obtain r where r: "find (\<lambda>r. ses_id r = ses_id x) (session_rows s) = Some r" "session_wf r"
    using session_inv_row [OF inv] by blast
  have rows: "rmap segment_from_row ?G = Inr ?G"
    using inv by (intro rmap_same segment_from_row_wf) (auto simp: session_inv_def store_ok_def list_all_iff file_registered_def)
  have u: "is_uuid (ses_id x)" using inv by (simp add: session_inv_def session_wf_iff)
  have l: "list_all2 (segment_stored (base_dir s) (files s) x) (enumerate 0 cs) ?G" using cs(1) by (simp add: committed_def)
  have snds: "map snd (enumerate 0 cs) = cs" by (rule map_snd_enumerate)
  then have sub: "snd ` set (enumerate 0 cs) \<subseteq> set cs" by (metis list.set_map order_refl)
  have all: "list_all (\<lambda>g. seg_session g = ses_id x) ?G" by (simp add: list_all_iff)
  have "map (map stored_frame \<circ> snd) (enumerate 0 cs) = map (map stored_frame) cs"
    by (simp only: map_map [symmetric] snds)
  then have whole: "concat (map (map stored_frame \<circ> snd) (enumerate 0 cs)) = map stored_frame (concat cs)"
    by (simp only: map_concat)
  have reads: "wp (each (\<lambda>g. read_segment h (ses_id x) (seg_index g)) ?G)
      (\<lambda>a u. a = map (map stored_frame \<circ> snd) (enumerate 0 cs)) (\<lambda>_ _. False) (s\<lparr>readings := k\<rparr>)" for k
    by (rule read_each_wp [OF inv cs h l _ all sub]) (simp_all add: same_store_def)
  have "wp (each (\<lambda>g. read_segment h (ses_id x) (seg_index g)) ?G)
      (\<lambda>fss u. concat fss = map stored_frame (concat cs)) (\<lambda>_ _. False) (s\<lparr>readings := k\<rparr>)" for k
    by (rule wp_mono [OF reads]) (simp_all add: whole)
  then show ?thesis
    using u h r session_from_row_wf [OF r(2)]
    by (simp add: stored_frames_def segments_of_def read_session_def wp_pure list_segments_def
        require_registered_session_def committed_sorted(1) [OF cs(1)] rows count Let_def)
qed

lemma wp_result: "wp m (\<lambda>a _. a = v) (\<lambda>_ _. False) s \<Longrightarrow> fst (m s) = Inr v"
  by (auto simp: wp_def split: prod.splits sum.splits)

subsection \<open>Runs from a fresh session\<close>

lemma traced_preserved: "arrow_keeps (host_arrow h) \<Longrightarrow> preserved (session_step h) traced_inv call_ok"
  by unfold_locales (rule session_step_inv)

definition ready_store :: "traced_writer \<Rightarrow> bool" where
  "ready_store s \<longleftrightarrow> store_ok (base_dir s) (session_rows s) (segment_rows s) (files s) \<and>
     0 < max_frames_per_segment s \<and> appended_frames s = []"

lemma started_run_inv:
  assumes h: "arrow_keeps (host_arrow h)" and s: "ready_store s0" "start h stream s0 = (Inr (), s1)"
    and calls: "list_all call_ok calls"
  shows "traced_inv (run_calls (session_step h) calls s1)"
proof -
  have inv: "writer_inv [] s1"
    using wp_Inr [OF start_wp s(2)] s(1) by (simp add: ready_store_def)
  have "writer.more s1 = writer.more s0" using s(2) by (rule keepsD [OF keeps_more_start])
  then have "appended_frames s1 = []" using s(1) by (cases s0; cases s1) (simp add: ready_store_def)
  with inv have "traced_inv s1" by (simp add: traced_inv_def)
  with calls show ?thesis
    by (intro preserved.run_inv [OF traced_preserved [OF h]]) (auto simp: list_all_iff)
qed

lemma inspect_wp:
  fixes h :: data_host and s :: "'a store_scheme"
  assumes inv: "store_ok (base_dir s) (session_rows s) (segment_rows s) (files s)" and h: "host_open h = (\<lambda>_. None)"
  shows "wp (inspect_integrity h) (\<lambda>r _. missing_segments r = [] \<and> metadata_mismatches r = [] \<and>
    scanned_sessions r = length (session_rows s)) (\<lambda>_ _. False) s"
proof -
  have "rmap session_from_row (by_start (session_rows s)) = Inr (by_start (session_rows s))"
    using inv by (intro rmap_same session_from_row_wf) (auto simp: store_ok_def list_all_iff by_start_def)
  moreover have "rmap segment_from_row (sort_key (\<lambda>g. (seg_session g, seg_index g)) (segment_rows s))
      = Inr (sort_key (\<lambda>g. (seg_session g, seg_index g)) (segment_rows s))"
    using inv by (intro rmap_same segment_from_row_wf) (auto simp: store_ok_def list_all_iff file_registered_def)
  moreover have "\<not> missing_file t g \<and> \<not> mismatched_file t g" if "g \<in> set (segment_rows s)" "same_store s t" for g t
  proof -
    have g: "file_registered (base_dir s) (files s) g" using inv that(1) by (simp add: store_ok_def list_all_iff)
    then have "is_uuid (seg_session g)" by (simp add: file_registered_def segment_wf_iff)
    with g that(2) show ?thesis
      by (auto simp: missing_file_def mismatched_file_def file_registered_def resolve_canonical same_store_def)
  qed
  ultimately show ?thesis
    using h by (auto simp: inspect_integrity_def list_sessions_def list_all_segments_def wp_pure report_of_def Let_def
        filter_empty_conv same_store_def by_start_def)
qed

lemma no_active_row:
  "target \<noteq> ACTIVE \<Longrightarrow> filter (\<lambda>r. ses_id r = i \<and> ses_state r = ACTIVE) (map (advance_row i target e u) rows) = []"
  by (induction rows) (auto simp: advance_row_def)

lemma refused_wp:
  fixes s :: "'a writer_scheme"
  assumes "w_buffer s = []" "filter (\<lambda>r. ses_id r = ses_id (w_session s) \<and> ses_state r = ACTIVE) (session_rows s) = []"
    "session_wf (w_session s)"
  shows "wp (finalize h) (\<lambda>_ _. False) (\<lambda>_ _. True) s"
proof -
  have keep: "wp (mark_failed h) (\<lambda>_ _. True) (\<lambda>_ _. True) t" for t :: "'a writer_scheme" by (simp add: wp_always)
  have x: "ses_id y = ses_id (w_session s)"
    if "data_session_post_init ((w_session s)\<lparr>ses_state := st, ended_at := e, ses_updated_at := u\<rparr>) = Inr y" for y st e u
    using session_post_init(2) [OF that] assms(3) by (auto simp: session_wf_iff)
  show ?thesis
    using assms(1,2)
    by (auto simp: finalize_def flush_pending_def commit_completed_def require_active_def wp_pure guard_def
        advance_session_state_def advance_def wp_transaction has_active_row_def Let_def keep x
        split: option.splits sum.splits)
qed

lemma fail_active_failed:
  assumes "fail_active_session h i t = (Inr True, u)" "normalize_uuid invalid_session_id i = Inr n"
  shows "filter (\<lambda>r. ses_id r = n \<and> ses_state r = ACTIVE) (session_rows u) = []"
    "list_ex (\<lambda>r. ses_id r = n \<and> ses_state r = FAILED) (session_rows u)"
proof -
  have "wp (fail_active_session h i) (\<lambda>b v. b \<longrightarrow>
      filter (\<lambda>r. ses_id r = n \<and> ses_state r = ACTIVE) (session_rows v) = [] \<and>
      list_ex (\<lambda>r. ses_id r = n \<and> ses_state r = FAILED) (session_rows v)) (\<lambda>_ _. True) t"
    using assms(2)
    by (auto simp: fail_active_session_def fail_active_row_def advance_def wp_transaction has_active_row_def Let_def
        no_active_row advance_something split: option.splits sum.splits)
  from wp_Inr [OF this assms(1)] show "filter (\<lambda>r. ses_id r = n \<and> ses_state r = ACTIVE) (session_rows u) = []"
    "list_ex (\<lambda>r. ses_id r = n \<and> ses_state r = FAILED) (session_rows u)" by auto
qed

lemma keeps_session_fail_active:
  "keeps w_session (fail_active_session h i)" "keeps w_buffer (fail_active_session h i)"
  unfolding fail_active_session_def fail_active_row_def advance_def by (intro keeps_intros; simp)+

definition demo_host :: data_host where
  "demo_host = \<lparr>host_arrow = (\<lambda>rows. Inr (map float_columns rows)), host_write = (\<lambda>_. Inr 100), host_mkdir = (\<lambda>_. None),
     host_litter = (\<lambda>_. False), host_open = (\<lambda>_. None), host_commit = (\<lambda>_. None), host_now = (\<lambda>_. 0), host_uuid = (\<lambda>_. 3)\<rparr>"

definition demo_stream :: pystr where
  "demo_stream = codes ''s''"

definition demo_store :: traced_writer where
  "demo_store = \<lparr>base_dir = [codes ''p''], project_id = uuid_text 5, session_rows = [], segment_rows = [], files = [],
     directories = [], readings = 0, w_session = new_session [] [] [] 0, max_frames_per_segment = 5, w_buffer = [],
     last_appended_sequence = None, last_appended_timestamp = None, appended_frames = []\<rparr>"

definition demo_batch :: "int \<Rightarrow> frame_batch" where
  "demo_batch n = \<lparr>schema_version = CURRENT_SCHEMA_VERSION, stream_id = demo_stream, first_sequence = n,
     last_sequence = n + 2, frame_count = 3, frames = [sample_frame n, sample_frame (n + 1), sample_frame (n + 2)]\<rparr>"

definition demo_session :: data_session where
  "demo_session = new_session (uuid_text 3) (uuid_text 5) demo_stream 0"

definition demo_started :: traced_writer where
  "demo_started = demo_store\<lparr>session_rows := [demo_session], w_session := demo_session, readings := 5,
     directories := [segments_directory [codes ''p''] (uuid_text 3)]\<rparr>"

lemma demo_uuid: "is_uuid (uuid_text 3)" "is_uuid (uuid_text 5)"
  by (simp_all add: is_uuid_text)

lemma demo_stream: "demo_stream \<noteq> []" "py_strip demo_stream \<noteq> []" "bind_text demo_stream = Inr ()"
proof -
  show "demo_stream \<noteq> []" "bind_text demo_stream = Inr ()"
    by (simp_all add: demo_stream_def codes_def bind_text_def is_surrogate_def)
  show "py_strip demo_stream \<noteq> []" by code_simp
qed

lemma demo_session_init: "data_session_post_init demo_session = Inr demo_session"
  by (simp add: session_wf_def [symmetric] session_wf_iff demo_session_def new_session_def demo_uuid demo_stream
      require_optional_sequence_bounds_def require_optional_timestamp_bounds_def)

lemma bind_uuid: "bind_text (uuid_text n) = Inr ()"
proof -
  have "codes ''-'' = [45]" by (simp add: codes_def)
  then have "c \<in> set (codes (hex_digits 32 n)) \<or> c = 45" if "c \<in> set (uuid_text n)" for c
    using that unfolding uuid_text_def Let_def by (auto dest!: in_set_takeD dest: in_set_dropD)
  then have "c \<le> 102" if "c \<in> set (uuid_text n)" for c
    using that hex_codes [of c 32 n] by fastforce
  then have "\<not> is_surrogate c" if "c \<in> set (uuid_text n)" for c
    using that by (fastforce simp: is_surrogate_def)
  then show ?thesis by (simp add: bind_text_def list_all_iff)
qed

lemma demo_starts: "start demo_host demo_stream demo_store = (Inr (), demo_started)"
  using demo_session_init
  by (simp add: start_def demo_stream Let_def ebind_apply exec_apply reading_def demo_host_def demo_store_def
      create_session_directory_def with_connection_def demo_session_def insert_session_def transaction_def
      bind_session_def bind_uuid demo_started_def stored_session_def new_session_def bind_int_def bind_optional_def)

section \<open>A session that runs\<close>

definition demo_buffered :: traced_writer where
  "demo_buffered = demo_started\<lparr>w_buffer := frames (demo_batch 0), last_appended_sequence := Some 2,
     last_appended_timestamp := Some (FloatNum (Fin 0)), appended_frames := frames (demo_batch 0)\<rparr>"

lemma demo_appends: "run_calls (session_step demo_host) [Append (demo_batch 0)] demo_started = demo_buffered"
proof -
  have checks: "append_checks (demo_batch 0) (demo_started\<lparr>appended_frames := k\<rparr>) = (Inr (), demo_started\<lparr>appended_frames := k\<rparr>)" for k
    by (simp add: append_checks_def require_active_def ebind_apply demo_started_def demo_session_def new_session_def
        demo_batch_def sample_frame_def require_contiguous_sequence_def require_ordered_timestamps_def demo_store_def
        num_less_def num_float_def guard_def)
  from checks [of "appended_frames demo_started"] have "append_checks (demo_batch 0) demo_started = (Inr (), demo_started)" by simp
  then have "accepts (demo_batch 0) demo_started = frames (demo_batch 0)" by (simp add: accepts_def)
  then show ?thesis
    by (simp add: append_def ebind_apply checks exec_apply flush_full_segments.simps)
      (simp add: extend_buffer_def demo_batch_def demo_started_def demo_store_def sample_frame_def demo_buffered_def)
qed

definition demo_fs :: "frame list" where
  "demo_fs = frames (demo_batch 0)"

lemma demo_arrow: "arrow_keeps (host_arrow demo_host)"
  by (simp add: arrow_keeps_def demo_host_def)

definition demo_segment :: data_segment where
  "demo_segment = \<lparr>seg_id = uuid_text 3, seg_session = uuid_text 3, seg_index = 0, relative_path = canonical_path (uuid_text 3) 0,
     seg_frame_count = 3, seg_first_sequence = 0, seg_last_sequence = 2, seg_first_timestamp = FloatNum (Fin 0),
     seg_last_timestamp = FloatNum (Fin 0), byte_size = 100, seg_created_at = 0\<rparr>"

definition demo_committed :: data_session where
  "demo_committed = after_segment demo_session demo_fs 0"

lemma demo_rows_valid:
  "data_segment_post_init demo_segment = Inr demo_segment"
  "data_session_post_init demo_committed = Inr demo_committed"
  "bind_segment demo_segment = Inr ()"
  "bind_session demo_committed = Inr ()"
  "new_segment demo_session (canonical_path (uuid_text 3) 0) demo_fs 100 0 3 = demo_segment"
  "after_segment demo_session demo_fs 0 = demo_committed"
proof -
  note demo = demo_segment_def demo_committed_def after_segment_def demo_session_def new_session_def demo_fs_def
    demo_batch_def sample_frame_def
  have "segment_wf demo_segment"
    by (simp add: segment_wf_iff demo_uuid relative_canonical demo_segment_def valid_number_def num_less_def num_float_def)
  then show "data_segment_post_init demo_segment = Inr demo_segment"
    by (simp add: segment_wf_def)
  have "session_wf demo_committed"
    by (simp add: session_wf_iff demo_uuid demo_stream demo require_optional_sequence_bounds_def
        require_optional_timestamp_bounds_def require_sequence_def require_timestamp_def num_less_def num_float_def)
  then show "data_session_post_init demo_committed = Inr demo_committed"
    by (simp add: session_wf_def)
  have "\<not> is_surrogate c" if "c \<in> set (codes (six_digits 0))" for c
    using six_digits_codes [OF that] by (auto simp: is_surrogate_def)
  then have "list_all (\<lambda>c. \<not> is_surrogate c) (codes (six_digits 0 @ ''.parquet''))"
    by (simp add: list_all_iff codes_def is_surrogate_def)
  then have "bind_text (canonical_path (uuid_text 3) 0) = Inr ()"
    using bind_uuid [of 3]
    by (simp add: bind_text_def canonical_path_def session_relative_directory_def slash_def)
      (simp add: codes_def is_surrogate_def)
  then show "bind_segment demo_segment = Inr ()"
    by (simp add: bind_segment_def demo_segment_def bind_uuid bind_int_def bind_number_def)
  show "bind_session demo_committed = Inr ()"
    by (simp add: bind_session_def demo bind_uuid demo_stream bind_int_def bind_number_def bind_optional_def)
  show "new_segment demo_session (canonical_path (uuid_text 3) 0) demo_fs 100 0 3 = demo_segment"
    "after_segment demo_session demo_fs 0 = demo_committed"
    by (simp_all add: new_segment_def demo)
qed

lemma demo_table: "frames_to_table (host_arrow demo_host) demo_fs i st 0 = Inr (segment_table i st 0 demo_fs)"
  by (simp add: frames_to_table_def demo_fs_def demo_batch_def demo_host_def segment_table_def)

definition demo_file :: "(pystr list \<times> disk_file) list" where
  "demo_file = [(canonical_location [codes ''p''] (uuid_text 3) 0,
     \<lparr>content = Some (segment_table (uuid_text 3) demo_stream 0 demo_fs), size_on_disk = 100\<rparr>)]"

lemma demo_writes:
  assumes "files s = []"
  shows "write_segment_file demo_host (canonical_location [codes ''p''] (uuid_text 3) 0) (uuid_text 3) demo_stream 0 demo_fs s =
    (Inr 100, s\<lparr>readings := Suc (readings s), files := demo_file\<rparr>)"
  using assms
  by (simp add: write_segment_file_def Let_def demo_table exec_apply ebind_apply reading_def)
   (simp add: demo_fs_def demo_batch_def demo_host_def demo_file_def remove_file_def ebind_apply exec_apply)

lemma demo_commits:
  assumes "base_dir s = [codes ''p'']" "w_session s = demo_session" "files s = []" "segment_rows s = []"
    "session_rows s = [r]" "ses_id r = uuid_text 3"
  shows "commit_segment demo_host demo_fs s = (Inr (), s\<lparr>readings := Suc (Suc (Suc (Suc (Suc (Suc (readings s)))))),
    files := demo_file, segment_rows := [demo_segment], session_rows := [demo_committed], w_session := demo_committed\<rparr>)"
proof -
  have "demo_fs \<noteq> []" by (simp add: demo_fs_def demo_batch_def)
  have ids: "ses_id demo_session = uuid_text 3" "ses_stream demo_session = demo_stream" "ses_segment_count demo_session = 0"
    by (simp_all add: demo_session_def new_session_def)
  have host: "host_open demo_host = (\<lambda>_. None)" "host_commit demo_host = (\<lambda>_. None)" "host_uuid demo_host = (\<lambda>_. 3)"
    "host_now demo_host = (\<lambda>_. 0)"
    by (simp_all add: demo_host_def)
  have stored: "stored_segment demo_segment = demo_segment"
     "stored_session demo_committed = demo_committed"
    by (simp_all add: stored_segment_def stored_session_def demo_segment_def demo_committed_def after_segment_def demo_session_def
        new_session_def demo_fs_def demo_batch_def sample_frame_def floated_def as_float_def)
  have ids': "ses_id demo_committed = uuid_text 3"
    by (simp add: demo_committed_def after_segment_def ids)
  have path: "segment_relative_path (uuid_text 3) 0 = Inr (canonical_path (uuid_text 3) 0)"
    using segment_relative_path_eq [of "uuid_text 3" 0] by simp
  have seg: "seg_session demo_segment = uuid_text 3" by (simp add: demo_segment_def)
  show ?thesis
    using assms \<open>demo_fs \<noteq> []\<close>
    by (simp add: commit_segment_def ebind_apply exec_apply Let_def ids path resolve_canonical demo_uuid reading_def demo_writes
      register_written_def host demo_rows_valid with_connection_def register_segment_def transaction_def stored
      rewrite_row_def ids' seg)
qed

definition demo_completed :: data_session where
  "demo_completed = demo_committed\<lparr>ses_state := COMPLETED, ended_at := Some 0\<rparr>"

definition demo_final :: "nat \<Rightarrow> traced_writer" where
  "demo_final k = demo_buffered\<lparr>readings := k, files := demo_file, segment_rows := [demo_segment],
     session_rows := [demo_completed], w_session := demo_completed, w_buffer := []\<rparr>"

lemma demo_finalizes:
  assumes "r = demo_session \<or> r = demo_session\<lparr>ses_state := FAILED, ended_at := None, ses_updated_at := 0\<rparr>"
  shows "\<exists>k. finalize demo_host (demo_buffered\<lparr>session_rows := [r], readings := j\<rparr>) = (Inr demo_completed, demo_final k)"
proof -
  let ?s = "demo_buffered\<lparr>session_rows := [r], readings := j\<rparr>"
  have s: "base_dir ?s = [codes ''p'']" "w_session ?s = demo_session" "files ?s = []" "segment_rows ?s = []"
    "session_rows ?s = [r]" "w_buffer ?s = demo_fs" "demo_fs \<noteq> []"
    by (simp_all add: demo_buffered_def demo_started_def demo_store_def demo_fs_def demo_batch_def)
  have r: "ses_id r = uuid_text 3" using assms by (auto simp: demo_session_def new_session_def)
  have act: "ses_state demo_session = ACTIVE" "ses_state demo_committed = ACTIVE" "ses_id demo_committed = uuid_text 3"
    by (simp_all add: demo_committed_def after_segment_def demo_session_def new_session_def)
  have wf: "session_wf demo_committed" using demo_rows_valid(2) by (simp add: session_wf_def)
  have up: "ses_updated_at demo_committed = 0" by (simp add: demo_committed_def after_segment_def)
  have post: "data_session_post_init (demo_committed\<lparr>ses_state := COMPLETED, ended_at := Some 0, ses_updated_at := 0\<rparr>)
      = Inr demo_completed"
  proof -
    have "demo_committed\<lparr>ses_state := COMPLETED, ended_at := Some 0, ses_updated_at := 0\<rparr> = demo_completed"
      using up by (cases demo_committed) (simp add: demo_completed_def)
    moreover have "session_wf demo_completed" using wf by (simp add: session_wf_iff demo_completed_def)
    ultimately show ?thesis by (simp add: session_wf_def)
  qed
  have fin: "ses_id demo_completed = uuid_text 3" "ses_state demo_completed = COMPLETED" "ended_at demo_completed = Some 0"
    "ses_updated_at demo_completed = 0"
    using act up by (simp_all add: demo_completed_def)
  have row: "advance_row (uuid_text 3) COMPLETED (Some 0) 0 demo_committed = demo_completed"
    using act up by (cases demo_committed) (simp add: advance_row_def demo_completed_def)
  have host: "host_open demo_host = (\<lambda>_. None)" "host_commit demo_host = (\<lambda>_. None)" "host_now demo_host = (\<lambda>_. 0)"
    by (simp_all add: demo_host_def)
  note flush = demo_commits [OF s(1-5) r]
  show ?thesis
    using s flush
    by (intro exI [of _ "Suc (Suc (Suc (Suc (Suc (Suc (Suc (Suc (Suc j))))))))"])
      (simp add: finalize_def flush_pending_def require_active_def ebind_apply exec_apply act commit_completed_def reading_def
        with_connection_def advance_session_state_def advance_def transaction_def host post fin bind_uuid row
        has_active_row_def demo_final_def)
qed

lemma demo_fails:
  "fail_active_session demo_host (ses_id (w_session demo_buffered)) demo_buffered =
    (Inr True, demo_buffered\<lparr>session_rows := [demo_session\<lparr>ses_state := FAILED, ended_at := None, ses_updated_at := 0\<rparr>],
      readings := 8\<rparr>)"
  by (simp add: fail_active_session_def fail_active_row_def advance_def transaction_def ebind_apply exec_apply reading_def
      with_connection_def demo_host_def demo_buffered_def demo_started_def demo_session_def new_session_def demo_uuid
      bind_uuid has_active_row_def advance_row_def demo_store_def)

lemma demo_ready: "ready_store demo_store"
  by (simp add: ready_store_def demo_store_def store_ok_def)

lemma demo_calls: "list_all call_ok [Append (demo_batch 0)]"
proof -
  have "frame_ok (sample_frame n)" if "n \<in> {0, 1, 2}" for n
    using that by (auto simp: frame_ok_def valid_frame_def sample_frame_def valid_number_def num_double_def codes_def CLASSIC_DLC_def)
  then show ?thesis by (simp add: call_ok_def demo_batch_def)
qed

lemma demo_reader: "host_open demo_host = (\<lambda>_. None)"
  by (simp add: demo_host_def)

lemmas demo_run = demo_arrow demo_ready demo_starts

lemma demo_whole_run:
  obtains k where "finalize demo_host (run_calls (session_step demo_host) [Append (demo_batch 0)] demo_started) = (Inr demo_completed, demo_final k)"
    "run_calls (session_step demo_host) [Append (demo_batch 0), Finalize] demo_started = demo_final k"
proof -
  have "demo_buffered\<lparr>session_rows := [demo_session], readings := 5\<rparr> = demo_buffered"
    by (simp add: demo_buffered_def demo_started_def)
  with demo_finalizes [of demo_session 5] obtain k where k: "finalize demo_host demo_buffered = (Inr demo_completed, demo_final k)"
    by auto
  have step: "run_calls (session_step demo_host) [Append (demo_batch 0), Finalize] demo_started
      = session_step demo_host Finalize (run_calls (session_step demo_host) [Append (demo_batch 0)] demo_started)"
    by simp
  show ?thesis
    by (rule that [of k]) (simp_all only: step demo_appends session_step.simps k snd_conv)
qed

lemma demo_completed_fields:
  "ses_frame_count demo_completed = 3" "ses_id demo_completed = uuid_text 3" "ses_state demo_completed = COMPLETED"
  by (simp_all add: demo_completed_def demo_committed_def after_segment_def demo_session_def new_session_def demo_fs_def demo_batch_def)

lemma demo_final_fields:
  "w_session (demo_final k) = demo_completed" "appended_frames (demo_final k) = demo_fs" "session_rows (demo_final k) = [demo_completed]"
  by (simp_all add: demo_final_def demo_buffered_def demo_fs_def)

section \<open>Properties\<close>

text \<open>
  C31: what a session committed can be read back, and nothing that was accepted is lost while
  the session is active. A session is started on a sound store; whatever batches, flushes,
  finalisations and failures follow, whatever of the host fails on the way, and whoever else
  fails or recovers the session's row, every registered segment passes the gates of the
  reader, and the segments hold, in order and without a gap, exactly as many of the first
  accepted frames as the session counts; an active writer still holds all the others.
\<close>

theorem committed_frames_read_back:
  assumes "arrow_keeps (host_arrow h)" "ready_store s0" "start h stream s0 = (Inr (), s1)" "list_all call_ok calls"
    and "t = run_calls (session_step h) calls s1" "host_open reader = (\<lambda>_. None)"
  shows "fst (stored_frames reader (ses_id (w_session t)) t)
      = Inr (map stored_frame (take (nat (ses_frame_count (w_session t))) (appended_frames t))) \<and>
    (if ses_state (w_session t) = ACTIVE
     then ses_frame_count (w_session t) + int (length (w_buffer t)) = int (length (appended_frames t))
     else ses_frame_count (w_session t) \<le> int (length (appended_frames t)))"
proof -
  have "traced_inv t" using started_run_inv [OF assms(1-4)] assms(5) by simp
  then have inv: "winv (appended_frames t) (w_buffer t) t" by (simp add: traced_inv_def)
  from inv have "ses_frame_count (w_session t) \<le> int (length (appended_frames t))"
    by (auto simp: session_inv_def committed_def dest: prefix_length_le)
  with wp_result [OF stored_frames_wp [OF inv assms(6)]] winv_count [OF inv] show ?thesis by simp
qed

theorem committed_frames_read_back_witness:
  "fst (stored_frames demo_host (uuid_text 3) (run_calls (session_step demo_host) [Append (demo_batch 0), Finalize] demo_started))
    = Inr (map stored_frame demo_fs)"
proof -
  obtain k where k: "run_calls (session_step demo_host) [Append (demo_batch 0), Finalize] demo_started = demo_final k"
    using demo_whole_run by blast
  have "list_all call_ok [Append (demo_batch 0), Finalize]" using demo_calls by (simp add: call_ok_def)
  from committed_frames_read_back [OF demo_run this refl demo_reader, THEN conjunct1]
  have "fst (stored_frames demo_host (uuid_text 3) (demo_final k)) = Inr (map stored_frame (take (nat 3) demo_fs))"
    by (simp only: k demo_final_fields demo_completed_fields)
  moreover have "take (nat 3) demo_fs = demo_fs" by (simp add: demo_fs_def demo_batch_def)
  ultimately show ?thesis by (simp only: k)
qed

text \<open>
  A session that was finalised is complete. When \<open>finalize\<close> returns, the row of the session
  is \<open>COMPLETED\<close>, and reading its segments back gives every frame the writer ever accepted.
\<close>

theorem finalised_session_is_complete:
  assumes "arrow_keeps (host_arrow h)" "ready_store s0" "start h stream s0 = (Inr (), s1)" "list_all call_ok calls"
    and "finalize h (run_calls (session_step h) calls s1) = (Inr x, t)" "host_open reader = (\<lambda>_. None)"
  shows "fst (stored_frames reader (ses_id x) t) = Inr (map stored_frame (appended_frames t)) \<and>
    list_ex (\<lambda>r. ses_id r = ses_id x \<and> ses_state r = COMPLETED) (session_rows t)"
proof -
  let ?s = "run_calls (session_step h) calls s1"
  have inv: "writer_inv (appended_frames ?s) ?s" using started_run_inv [OF assms(1-4)] by (simp add: traced_inv_def)
  note fin = wp_Inr [OF finalize_wp [OF assms(1) inv] assms(5)]
  then have more: "writer.more t = writer.more ?s" by (simp add: stays_def)
  have acc: "appended_frames t = appended_frames ?s" using more by (cases t; cases ?s) simp
  from fin have x: "w_session t = x" "ses_frame_count x = int (length (appended_frames t))" "winv (appended_frames t) (w_buffer t) t"
    by (auto simp: stays_def acc)
  from wp_result [OF stored_frames_wp [OF x(3) assms(6)]] x(1,2) fin show ?thesis by simp
qed

theorem finalised_session_is_complete_witness:
  "case finalize demo_host (run_calls (session_step demo_host) [Append (demo_batch 0)] demo_started) of (Inl _, _) \<Rightarrow> False
   | (Inr x, t) \<Rightarrow> fst (stored_frames demo_host (ses_id x) t) = Inr (map stored_frame demo_fs)"
proof -
  obtain k where k: "finalize demo_host (run_calls (session_step demo_host) [Append (demo_batch 0)] demo_started)
      = (Inr demo_completed, demo_final k)"
    using demo_whole_run by blast
  from finalised_session_is_complete [OF demo_run demo_calls k demo_reader] show ?thesis
    by (simp only: k prod.case sum.case demo_final_fields)
qed

text \<open>
  An integrity inspection never finds damage that the code itself has done. After any run
  every registered segment has its file, with the registered size; what a failed clean-up
  left behind can only be a temporary file or an orphan.
\<close>

theorem inspection_finds_no_damage:
  assumes "arrow_keeps (host_arrow h)" "ready_store s0" "start h stream s0 = (Inr (), s1)" "list_all call_ok calls"
    and "t = run_calls (session_step h) calls s1" "host_open reader = (\<lambda>_. None)"
  shows "case fst (inspect_integrity reader t) of Inl _ \<Rightarrow> False
    | Inr r \<Rightarrow> missing_segments r = [] \<and> metadata_mismatches r = [] \<and> scanned_sessions r = length (session_rows t)"
proof -
  have "traced_inv t" using started_run_inv [OF assms(1-4)] assms(5) by simp
  then have "store_ok (base_dir t) (session_rows t) (segment_rows t) (files t)" by (simp add: traced_inv_def session_inv_def)
  from inspect_wp [OF this assms(6)] show ?thesis by (simp add: wp_def split: prod.splits sum.splits)
qed

theorem inspection_finds_no_damage_witness:
  "case fst (inspect_integrity demo_host (run_calls (session_step demo_host) [Append (demo_batch 0), Finalize] demo_started)) of
     Inl _ \<Rightarrow> False
   | Inr r \<Rightarrow> missing_segments r = [] \<and> metadata_mismatches r = [] \<and> scanned_sessions r = 1"
proof -
  obtain k where k: "run_calls (session_step demo_host) [Append (demo_batch 0), Finalize] demo_started = demo_final k"
    using demo_whole_run by blast
  have "list_all call_ok [Append (demo_batch 0), Finalize]" using demo_calls by (simp add: call_ok_def)
  from inspection_finds_no_damage [OF demo_run this refl demo_reader] show ?thesis
    by (simp only: k demo_final_fields list.size add_0 One_nat_def)
qed

text \<open>
  C32: who wins when a session is failed from outside. \<open>fail_active_session\<close> that reports success
  has made the row \<open>FAILED\<close>. If the writer has nothing buffered, it can no longer complete the
  session, as documented. If it has, the registration of its last segment rewrites the whole
  row and makes it \<open>ACTIVE\<close> again, so the completion that should be refused goes through.
\<close>

theorem a_registration_revives_a_failed_session:
  assumes "arrow_keeps (host_arrow h)" "ready_store s0" "start h stream s0 = (Inr (), s1)" "list_all call_ok calls"
    and "t = run_calls (session_step h) calls s1" "fail_active_session h (ses_id (w_session t)) t = (Inr True, u)"
  shows "list_ex (\<lambda>r. ses_id r = ses_id (w_session t) \<and> ses_state r = FAILED) (session_rows u) \<and>
    (if w_buffer t = [] then case fst (finalize h u) of Inl _ \<Rightarrow> True | Inr _ \<Rightarrow> False
     else case flush_pending h u of (Inl _, _) \<Rightarrow> True
       | (Inr _, v) \<Rightarrow> list_ex (\<lambda>r. ses_id r = ses_id (w_session t) \<and> ses_state r = ACTIVE) (session_rows v))"
proof -
  have "traced_inv t" using started_run_inv [OF assms(1-4)] assms(5) by simp
  then have inv: "writer_inv (appended_frames t) t" by (simp add: traced_inv_def)
  then have wf: "session_wf (w_session t)" by (simp add: session_inv_def)
  then have "normalize_uuid invalid_session_id (ses_id (w_session t)) = Inr (ses_id (w_session t))"
    by (simp add: session_wf_iff)
  note failed = fail_active_failed [OF assms(6) this]
  have same: "w_session u = w_session t" "w_buffer u = w_buffer t"
    using keepsD [OF keeps_session_fail_active(1) assms(6)] keepsD [OF keeps_session_fail_active(2) assms(6)] by simp_all
  show ?thesis
  proof (cases "w_buffer t = []")
    case True
    have "wp (finalize h) (\<lambda>_ _. False) (\<lambda>_ _. True) u"
      by (rule refused_wp) (use True failed wf same in simp_all)
    then show ?thesis using True failed by (auto simp: wp_def split: prod.splits sum.splits)
  next
    case False
    have u: "writer_inv (appended_frames t) u"
      using wp_Inr [OF fail_active_wp [OF inv] assms(6)] by (simp add: stays_def)
    from flush_pending_wp [OF assms(1) u] show ?thesis
      using False failed same by (auto simp: wp_def split: prod.splits sum.splits)
  qed
qed

theorem a_registration_revives_a_failed_session_witness:
  "case fail_active_session demo_host (uuid_text 3) demo_buffered of (Inl _, _) \<Rightarrow> False
   | (Inr won, u) \<Rightarrow> won \<and> list_ex (\<lambda>r. ses_id r = uuid_text 3 \<and> ses_state r = FAILED) (session_rows u) \<and>
      (case finalize demo_host u of (Inl _, _) \<Rightarrow> False | (Inr x, t) \<Rightarrow> ses_state x = COMPLETED \<and> session_rows t = [x])"
proof -
  let ?r = "demo_session\<lparr>ses_state := FAILED, ended_at := None, ses_updated_at := 0\<rparr>"
  have i: "ses_id (w_session demo_buffered) = uuid_text 3"
    by (simp add: demo_buffered_def demo_started_def demo_session_def new_session_def)
  obtain k where k: "finalize demo_host (demo_buffered\<lparr>session_rows := [?r], readings := 8\<rparr>) = (Inr demo_completed, demo_final k)"
    using demo_finalizes [of ?r 8] by blast
  from a_registration_revives_a_failed_session [OF demo_run demo_calls demo_appends [symmetric] demo_fails]
  show ?thesis
    by (simp only: i demo_fails [unfolded i] k prod.case sum.case demo_completed_fields demo_final_fields simp_thms)
qed

end
