(* ===== verification/Query_Results.thy ===== *)
theory Query_Results
  imports Query_Sql Data_Durability
begin

text \<open>
  What a query returns. The meaning of a filter on frames and of the statements on rows come
  first; then the segments that are left out hold no match, and a page, a summary and a
  histogram are those of all frames the session committed.
\<close>

section \<open>What the clauses mean\<close>

definition int_is :: "(int \<Rightarrow> bool) \<Rightarrow> pyval \<Rightarrow> bool" where
  "int_is P v = (case v of VInt i \<Rightarrow> P i | _ \<Rightarrow> False)"

definition float_is :: "(pyfloat \<Rightarrow> bool) \<Rightarrow> pyval \<Rightarrow> bool" where
  "float_is P v = (case v of VFloat x \<Rightarrow> P x | _ \<Rightarrow> False)"

definition str_is :: "(pystr \<Rightarrow> bool) \<Rightarrow> pyval \<Rightarrow> bool" where
  "str_is P v = (case v of VStr s \<Rightarrow> P s | _ \<Rightarrow> False)"

text \<open>A row is kept when a clause is true of it; a comparison with NULL is not.\<close>

fun clause_holds :: "pyval list \<Rightarrow> clause \<Rightarrow> bool" where
  "clause_holds r (SequenceFrom n) = int_is (\<lambda>i. n \<le> i) (column r ''sequence'')"
| "clause_holds r (SequenceTo n) = int_is (\<lambda>i. i \<le> n) (column r ''sequence'')"
| "clause_holds r (SequenceAfter n) = int_is (\<lambda>i. n < i) (column r ''sequence'')"
| "clause_holds r (TimestampFrom t) = float_is (pf_le t) (column r ''normalized_timestamp'')"
| "clause_holds r (TimestampTo t) = float_is (\<lambda>x. pf_le x t) (column r ''normalized_timestamp'')"
| "clause_holds r (ChannelIn cs) = str_is (\<lambda>s. s \<in> set cs) (column r ''channel_id'')"
| "clause_holds r (ArbitrationIn is) = int_is (\<lambda>i. i \<in> set is) (column r ''arbitration_id'')"
| "clause_holds r (ArbitrationFrom n) = int_is (\<lambda>i. n \<le> i) (column r ''arbitration_id'')"
| "clause_holds r (ArbitrationTo n) = int_is (\<lambda>i. i \<le> n) (column r ''arbitration_id'')"
| "clause_holds r (ArbitrationMasked m t) = int_is (\<lambda>i. i AND m = t) (column r ''arbitration_id'')"
| "clause_holds r (DirectionIn ds) = str_is (\<lambda>s. s \<in> set ds) (column r ''direction'')"
| "clause_holds r (ExtendedIs b) = (column r ''is_extended'' = VBool b)"
| "clause_holds r (FdIs b) = (column r ''is_fd'' = VBool b)"

definition selected :: "clause list \<Rightarrow> pyval list list \<Rightarrow> pyval list list" where
  "selected cs rows = filter (\<lambda>r. list_all (clause_holds r) cs) rows"

definition sequence_key :: "pyval list \<Rightarrow> int" where
  "sequence_key r = (case column r ''sequence'' of VInt i \<Rightarrow> i | _ \<Rightarrow> 0)"

definition timestamp_key :: "pyval list \<Rightarrow> pyfloat" where
  "timestamp_key r = (case column r ''normalized_timestamp'' of VFloat x \<Rightarrow> x | _ \<Rightarrow> NaN)"

definition group_key :: "pyval list \<Rightarrow> pyval \<times> pyval" where
  "group_key r = (column r ''arbitration_id'', column r ''is_extended'')"

text \<open>
  The answer to a statement over the rows of the files: the selected rows in ascending
  sequence, cut at the limit; the number of selected rows with the least and greatest
  sequence and time stamp; the groups by descending count, ties by ascending identifier.
\<close>

definition select_answer :: "clause list \<Rightarrow> int \<Rightarrow> pyval list list \<Rightarrow> pyval list list \<Rightarrow> bool" where
  "select_answer cs n rows out \<longleftrightarrow>
     (\<exists>ys. mset ys = mset (selected cs rows) \<and> sorted (map sequence_key ys) \<and> out = take (nat n) ys)"

definition summary_answer :: "clause list \<Rightarrow> pyval list list \<Rightarrow> pyval list list \<Rightarrow> bool" where
  "summary_answer cs rows out \<longleftrightarrow>
     (let sel = selected cs rows; sqs = map sequence_key sel; ts = map timestamp_key sel in
      if sel = [] then out = [[VInt 0, VNone, VNone, VNone, VNone]]
      else \<exists>s0 s1 t0 t1. out = [[VInt (int (length sel)), VInt s0, VInt s1, VFloat t0, VFloat t1]] \<and>
        extreme (<) sqs s0 \<and> extreme (>) sqs s1 \<and> extreme pf_less ts t0 \<and> extreme (\<lambda>a b. pf_less b a) ts t1)"

definition count_row :: "pyval list list \<Rightarrow> pyval \<times> pyval \<Rightarrow> pyval list" where
  "count_row sel k = [fst k, snd k, VInt (int (length (filter (\<lambda>r. group_key r = k) sel)))]"

definition count_before :: "pyval list \<Rightarrow> pyval list \<Rightarrow> bool" where
  "count_before a b \<longleftrightarrow> int_of (a ! 2) > int_of (b ! 2) \<or> int_of (a ! 2) = int_of (b ! 2) \<and> int_of (a ! 0) \<le> int_of (b ! 0)"

definition count_answer :: "clause list \<Rightarrow> int \<Rightarrow> pyval list list \<Rightarrow> pyval list list \<Rightarrow> bool" where
  "count_answer cs n rows out \<longleftrightarrow>
     (let sel = selected cs rows in \<exists>ks. distinct ks \<and> set ks = group_key ` set sel \<and>
        sorted_wrt count_before (map (count_row sel) ks) \<and> out = take (nat n) (map (count_row sel) ks))"

fun answers :: "statement \<Rightarrow> pyval list list \<Rightarrow> pyval list list \<Rightarrow> bool" where
  "answers (SelectFrames cs n) rows out = select_answer cs n rows out"
| "answers (Summarize cs) rows out = summary_answer cs rows out"
| "answers (CountIds cs n) rows out = count_answer cs n rows out"

section \<open>What a filter means\<close>

definition frame_matches :: "frame_filter \<Rightarrow> frame \<Rightarrow> bool" where
  "frame_matches q f \<longleftrightarrow>
     pred_option (\<lambda>n. n \<le> sequence f) (sequence_start q) \<and> pred_option (\<lambda>n. sequence f \<le> n) (sequence_end q) \<and>
     pred_option (\<lambda>t. \<not> num_less (normalized_timestamp f) (floated t)) (timestamp_start q) \<and>
     pred_option (\<lambda>t. \<not> num_less (floated t) (normalized_timestamp f)) (timestamp_end q) \<and>
     pred_option (\<lambda>cs. channel_id f \<in> set cs) (channel_ids q) \<and>
     pred_option (\<lambda>is. arbitration_id f \<in> set is) (arbitration_ids q) \<and>
     pred_option (\<lambda>n. n \<le> arbitration_id f) (id_start q) \<and> pred_option (\<lambda>n. arbitration_id f \<le> n) (id_end q) \<and>
     (case (id_mask q, id_mask_value q) of (Some m, Some v) \<Rightarrow> arbitration_id f AND m = v AND m | _ \<Rightarrow> True) \<and>
     pred_option (\<lambda>ds. direction f \<in> set ds) (directions q) \<and>
     pred_option (\<lambda>b. is_extended f = b) (flt_is_extended q) \<and> pred_option (\<lambda>b. is_fd f = b) (flt_is_fd q)"

definition matching :: "frame_filter \<Rightarrow> int option \<Rightarrow> frame list \<Rightarrow> frame list" where
  "matching q after fs = filter (\<lambda>f. frame_matches q f \<and> pred_option (\<lambda>n. n < sequence f) after) fs"

definition reference_page :: "frame_query \<Rightarrow> frame list \<Rightarrow> frame_query_page" where
  "reference_page q fs =
     (let K = matching (query_filter q) (after_sequence q) fs; n = nat (query_limit q) in
      \<lparr>page_session = flt_session (query_filter q), page_frames = take n K, has_more = n < length K,
       next_after_sequence = (if n < length K then Some (sequence (last (take n K))) else None)\<rparr>)"

section \<open>Clauses\<close>

definition opt_list :: "'a option \<Rightarrow> 'a list" where
  "opt_list x = (case x of None \<Rightarrow> [] | Some a \<Rightarrow> [a])"

lemma list_all_opt_list [simp]: "list_all P (map f (opt_list x)) \<longleftrightarrow> pred_option (\<lambda>a. P (f a)) x"
  by (cases x) (simp_all add: opt_list_def)

lemma clause_of_pure [simp]: "clause_of (Inr \<circ> c) x = Inr (map c (opt_list x))"
  by (cases x) (simp_all add: clause_of_def opt_list_def)

lemma clause_of_float:
  assumes "pred_option valid_number x"
  shows "clause_of (\<lambda>t. rbind (as_float t) (\<lambda>x. Inr (c x))) x = Inr (map (\<lambda>t. c (num_float (floated t))) (opt_list x))"
proof (cases x)
  case (Some t)
  with assms obtain y where "as_float t = Inr y" "floated t = FloatNum y" by (auto elim: as_float_valid)
  with Some show ?thesis by (simp add: clause_of_def opt_list_def num_float_def)
qed (simp add: clause_of_def opt_list_def)

definition filter_clauses :: "frame_filter \<Rightarrow> clause list" where
  "filter_clauses f = concat
     [map SequenceFrom (opt_list (sequence_start f)), map SequenceTo (opt_list (sequence_end f)),
      map (\<lambda>t. TimestampFrom (num_float (floated t))) (opt_list (timestamp_start f)),
      map (\<lambda>t. TimestampTo (num_float (floated t))) (opt_list (timestamp_end f)),
      map ChannelIn (opt_list (channel_ids f)), map ArbitrationIn (opt_list (arbitration_ids f)),
      map ArbitrationFrom (opt_list (id_start f)), map ArbitrationTo (opt_list (id_end f)),
      (case (id_mask f, arbitration_id_mask_target f) of (Some m, Some t) \<Rightarrow> [ArbitrationMasked m t] | _ \<Rightarrow> []),
      map (DirectionIn \<circ> map direction_value) (opt_list (directions f)),
      map ExtendedIs (opt_list (flt_is_extended f)), map FdIs (opt_list (flt_is_fd f))]"

lemma frame_predicates_valid: "valid_filter f \<Longrightarrow> frame_predicates f = Inr (filter_clauses f)"
proof -
  assume "valid_filter f"
  then have t: "pred_option valid_number (timestamp_start f)" "pred_option valid_number (timestamp_end f)"
    by (simp_all add: valid_filter_def)
  have mask: "(case (id_mask f, arbitration_id_mask_target f) of (Some m, Some t) \<Rightarrow> Inr [ArbitrationMasked m t] | _ \<Rightarrow> Inr [])
      = Inr (case (id_mask f, arbitration_id_mask_target f) of (Some m, Some t) \<Rightarrow> [ArbitrationMasked m t] | _ \<Rightarrow> [])"
    by (simp split: option.split)
  show ?thesis
    unfolding frame_predicates_def clause_of_float [OF t(1)] clause_of_float [OF t(2)] mask
    by (simp add: filter_clauses_def comp_assoc)
qed

lemma column_row [simp]:
  "column (row_of f) ''sequence'' = VInt (sequence f)" "column (row_of f) ''channel_id'' = VStr (channel_id f)"
  "column (row_of f) ''arbitration_id'' = VInt (arbitration_id f)" "column (row_of f) ''is_extended'' = VBool (is_extended f)"
  "column (row_of f) ''is_fd'' = VBool (is_fd f)" "column (row_of f) ''direction'' = VStr (direction_value (direction f))"
  "column (row_of f) ''normalized_timestamp'' = num_val (normalized_timestamp f)"
  by (simp_all add: column_def FRAME_COLUMNS_def row_of_def)

lemma value_is [simp]:
  "int_is P (VInt i) = P i" "str_is Q (VStr s) = Q s" "float_is R (VFloat x) = R x"
  by (simp_all add: int_is_def str_is_def float_is_def)

section \<open>The answers to the statements\<close>

lemma condition_clause_holds: "condition_holds r (clause_condition c) = clause_holds r c"
  by (cases c) (auto simp: int_is_def float_is_def str_is_def split: pyval.splits)

lemma chosen_selected: "q_conditions Q = map clause_condition cs \<Longrightarrow> chosen Q rows = selected cs rows"
  by (simp add: chosen_def selected_def list_all_iff condition_clause_holds)

text \<open>A row of the canonical columns; only the types that the statements need.\<close>

definition typed_row :: "pyval list \<Rightarrow> bool" where
  "typed_row r \<longleftrightarrow> map (column r) SELECTED_COLUMNS = r \<and> column r ''sequence'' = VInt (sequence_key r) \<and>
     column r ''normalized_timestamp'' = VFloat (timestamp_key r) \<and> (\<exists>i. column r ''arbitration_id'' = VInt i)"

lemma typed_selected: "list_all typed_row rows \<Longrightarrow> r \<in> set (selected cs rows) \<Longrightarrow> typed_row r"
  by (auto simp: selected_def list_all_iff)

lemma list_all2_is_map: "list_all2 (\<lambda>x y. y = f x) xs ys \<longleftrightarrow> ys = map f xs"
  by (induction xs arbitrary: ys) (auto simp: list_all2_Cons1)

lemma singleton_le [simp]: "[a] \<le> [b] \<longleftrightarrow> (a :: int) \<le> b"
  by auto

lemma sql_select:
  assumes rows: "list_all typed_row rows" and a: "sql_answers (sql_of (SelectFrames cs n)) rows out"
  shows "select_answer cs n rows out"
proof -
  let ?Q = "sql_of (SelectFrames cs n)" and ?sel = "selected cs rows"
  have sel: "chosen ?Q rows = ?sel" by (rule chosen_selected) simp
  have each: "item_values ?Q [r] row \<longleftrightarrow> row = map (column r) SELECTED_COLUMNS" for r row
    by (simp add: item_values_def list_all2_map1 list_all2_is_map)
  have "list_all is_column (q_items ?Q)" by (simp add: list_all_iff is_column_def)
  then obtain ys us where ys: "mset ys = mset ?sel" "list_all2 (\<lambda>r row. row = map (column r) SELECTED_COLUMNS) ys us"
    "sorted (map (order_key ?Q) us)" "out = take (nat n) us"
    using a unfolding sql_answers_def sel result_rows_def each by auto
  have typed: "typed_row r" if "r \<in> set ys" for r
    using typed_selected [OF rows] that mset_eq_setD [OF ys(1)] by simp
  have "us = map (\<lambda>r. map (column r) SELECTED_COLUMNS) ys" using ys(2) by (simp add: list_all2_is_map)
  also have "\<dots> = ys" using typed by (simp add: typed_row_def map_idI)
  finally have us: "us = ys" .
  have names: "map item_name (q_items ?Q) = FRAME_COLUMNS"
    by (simp add: item_name_def comp_def SELECTED_COLUMNS_def FRAME_COLUMNS_def)
  have key: "order_key ?Q r = [sequence_key r]" if "r \<in> set ys" for r
    using typed [OF that] unfolding order_key_def names
    by (auto simp: typed_row_def column_def int_of_def split: option.splits)
  have "sorted (map (\<lambda>r. [sequence_key r]) ys)" using ys(3) key unfolding us by (simp cong: map_cong)
  then have "sorted (map sequence_key ys)" by (auto simp: sorted_map elim!: sorted_wrt_mono_rel [rotated])
  then show ?thesis using ys(1,4) us by (auto simp: select_answer_def)
qed

lemma extreme_map:
  assumes "inj c" "\<And>x y. below (c x) (c y) = lower x y"
  shows "extreme below (map c xs) v \<longleftrightarrow> (\<exists>x. v = c x \<and> extreme lower xs x)"
  using assms by (auto simp: extreme_def inj_eq)

lemma sql_summary:
  assumes rows: "list_all typed_row rows" and a: "sql_answers (sql_of (Summarize cs)) rows out"
  shows "summary_answer cs rows out"
proof -
  let ?Q = "sql_of (Summarize cs)" and ?sel = "selected cs rows"
  have sel: "chosen ?Q rows = ?sel" by (rule chosen_selected) simp
  obtain row where row: "out = [row]" "item_values ?Q ?sel row"
    using a unfolding sql_answers_def sel by (auto simp: result_rows_def is_column_def)
  have cols: "map (\<lambda>r. column r ''sequence'') ?sel = map VInt (map sequence_key ?sel)"
    "map (\<lambda>r. column r ''normalized_timestamp'') ?sel = map VFloat (map timestamp_key ?sel)"
    using typed_selected [OF rows] by (simp_all add: typed_row_def)
  have present: "present ?sel ''sequence'' = map VInt (map sequence_key ?sel)"
    "present ?sel ''normalized_timestamp'' = map VFloat (map timestamp_key ?sel)"
    unfolding present_def cols by (simp_all add: filter_map comp_def)
  have none [simp]: "present [] c = []" for c by (simp add: present_def)
  have ints: "extreme value_less (map VInt xs) v \<longleftrightarrow> (\<exists>x. v = VInt x \<and> extreme (<) xs x)"
    "extreme (\<lambda>a b. value_less b a) (map VInt xs) v \<longleftrightarrow> (\<exists>x. v = VInt x \<and> extreme (>) xs x)" for xs v
    using extreme_map [where c = VInt and below = value_less and lower = "(<)"]
      extreme_map [where c = VInt and below = "\<lambda>a b. value_less b a" and lower = "(>)"]
    by (simp_all add: value_less_def inj_def)
  have floats: "extreme value_less (map VFloat xs) v \<longleftrightarrow> (\<exists>x. v = VFloat x \<and> extreme pf_less xs x)"
    "extreme (\<lambda>a b. value_less b a) (map VFloat xs) v \<longleftrightarrow> (\<exists>x. v = VFloat x \<and> extreme (\<lambda>a b. pf_less b a) xs x)" for xs v
    by (rule extreme_map; simp add: value_less_def inj_def)+
  show ?thesis
    using row(2) unfolding summary_answer_def Let_def row(1)
    by (cases "?sel = []") (auto simp: item_values_def list_all2_Cons1 present ints floats simp del: map_map)
qed

lemma sql_counts:
  assumes rows: "list_all typed_row rows" and a: "sql_answers (sql_of (CountIds cs n)) rows out"
  shows "count_answer cs n rows out"
proof -
  let ?Q = "sql_of (CountIds cs n)" and ?sel = "selected cs rows"
  have sel: "chosen ?Q rows = ?sel" by (rule chosen_selected) simp
  let ?g = "\<lambda>k. filter (\<lambda>r. group_values ?Q r = k) ?sel"
  from a obtain ks us where ks: "distinct ks" "set ks = group_values ?Q ` set ?sel"
    "list_all2 (\<lambda>k row. item_values ?Q (?g k) row) ks us" "sorted (map (order_key ?Q) us)" "out = take (nat n) us"
    unfolding sql_answers_def sel by (auto simp: result_rows_def)
  define pair where "pair k = (hd k, hd (tl k))" for k :: "pyval list"
  have gv: "group_values ?Q r = [column r ''arbitration_id'', column r ''is_extended'']" for r
    by (simp add: group_values_def)
  have pairs: "\<exists>a b. k = [a, b]" if "k \<in> set ks" for k
    using that ks(2) by (auto simp: gv simp del: sql_of.simps)
  have row: "row = count_row ?sel (pair k)" if k: "k \<in> set ks" and v: "item_values ?Q (?g k) row" for k row
  proof -
    obtain a b where ab: "k = [a, b]" using pairs [OF k] by blast
    have same: "column r ''arbitration_id'' = a \<and> column r ''is_extended'' = b" if "r \<in> set (?g k)" for r
      using that by (simp add: ab gv del: sql_of.simps)
    have "?g k \<noteq> []" using k ks(2) by (auto simp: filter_empty_conv)
    then have "hd (?g k) \<in> set (?g k)" by (rule hd_in_set)
    from same [OF this] v \<open>?g k \<noteq> []\<close> have "row = [a, b, VInt (int (length (?g k)))]"
      by (auto simp: item_values_def list_all2_Cons1)
    moreover have "?g k = filter (\<lambda>r. group_key r = pair k) ?sel"
      by (rule filter_cong) (auto simp: ab gv group_key_def pair_def simp del: sql_of.simps)
    ultimately show ?thesis by (simp add: count_row_def ab pair_def)
  qed
  have "list_all2 (\<lambda>k row. row = count_row ?sel (pair k)) ks us"
    using ks(3) by (rule list.rel_mono_strong) (use row in blast)
  then have us: "us = map (count_row ?sel) (map pair ks)" by (simp add: list_all2_is_map comp_def)
  have "inj_on pair (set ks)"
  proof (rule inj_onI)
    fix j k
    assume "j \<in> set ks" "k \<in> set ks" "pair j = pair k"
    then show "j = k" using pairs [of j] pairs [of k] by (auto simp: pair_def)
  qed
  then have d: "distinct (map pair ks)" using ks(1) by (simp add: distinct_map)
  have s: "set (map pair ks) = group_key ` set ?sel"
    by (simp add: ks(2) image_image gv pair_def group_key_def del: sql_of.simps)
  have key: "order_key ?Q (count_row ?sel p) = [- int_of (count_row ?sel p ! 2), int_of (count_row ?sel p ! 0)]" for p
    by (simp add: order_key_def item_name_def count_row_def)
  have "sorted_wrt count_before (map (count_row ?sel) (map pair ks))"
    using ks(4) unfolding us
    by (auto simp: sorted_map sorted_wrt_map key count_before_def simp del: sql_of.simps elim!: sorted_wrt_mono_rel [rotated])
  then show ?thesis using d s ks(5) us unfolding count_answer_def Let_def by blast
qed

lemma duck_answers:
  assumes "duckdb_answers db" "statement_typed st" "list_all (is_table fl) paths"
    "list_all typed_cells (concat (map (rows_at fl) paths))" "list_all typed_row (concat (map (rows_at fl) paths))"
    "db (statement_text st) (statement_parameters st) (path_list paths) fl = Inr out"
  shows "answers st (concat (map (rows_at fl) paths)) out"
proof -
  have "sql_answers (sql_of st) (concat (map (rows_at fl) paths)) out"
    using assms(1,3,4,6) read_statement [OF assms(2)] unfolding duckdb_answers_def by blast
  then show ?thesis
    using sql_select [OF assms(5)] sql_summary [OF assms(5)] sql_counts [OF assms(5)] by (cases st) (simp_all del: sql_of.simps)
qed

section \<open>Frames in files\<close>

text \<open>The frames that a file can hold: valid, with a float as the normalised time stamp.\<close>

definition file_frame :: "frame \<Rightarrow> bool" where
  "file_frame f \<longleftrightarrow> valid_frame f \<and> (\<exists>r. normalized_timestamp f = FloatNum (Fin r) \<and> 0 \<le> r)"

lemma valid_floated:
  assumes "valid_number t"
  obtains r where "floated t = FloatNum (Fin r)" "0 \<le> r"
proof -
  from assms obtain x where x: "floated t = FloatNum x" "valid_number (FloatNum x)" by (rule as_float_valid)
  then obtain r where "x = Fin r" by (auto simp: valid_number_def isfinite_iff)
  with x that show ?thesis by (simp add: valid_number_def)
qed

lemma file_frame_stored: "valid_frame f \<Longrightarrow> file_frame (stored_frame f)"
proof -
  assume f: "valid_frame f"
  then have "valid_number (normalized_timestamp f)" by (simp add: valid_frame_def)
  then obtain r where "floated (normalized_timestamp f) = FloatNum (Fin r)" "0 \<le> r" by (rule valid_floated)
  with stored_frame_valid [OF f] show ?thesis by (simp add: file_frame_def stored_frame_def)
qed

lemma direction_value_inj [simp]: "direction_value d = direction_value e \<longleftrightarrow> d = e"
  by (cases d; cases e) simp_all

lemma pf_le_Fin: "pf_le (Fin a) (Fin b) \<longleftrightarrow> \<not> pf_less (Fin b) (Fin a)"
  by auto

lemma filter_clauses_hold:
  assumes q: "valid_filter q" and f: "file_frame f"
  shows "list_all (clause_holds (row_of f)) (filter_clauses q) \<longleftrightarrow> frame_matches q f"
proof -
  obtain r where r: "normalized_timestamp f = FloatNum (Fin r)" using f by (auto simp: file_frame_def)
  have stamps: "pred_option (\<lambda>t. float_is (pf_le (num_float (floated t))) (num_val (normalized_timestamp f))) (timestamp_start q) \<longleftrightarrow>
      pred_option (\<lambda>t. \<not> num_less (normalized_timestamp f) (floated t)) (timestamp_start q)"
    "pred_option (\<lambda>t. float_is (\<lambda>x. pf_le x (num_float (floated t))) (num_val (normalized_timestamp f))) (timestamp_end q) \<longleftrightarrow>
      pred_option (\<lambda>t. \<not> num_less (floated t) (normalized_timestamp f)) (timestamp_end q)"
    using q r by (auto simp: valid_filter_def num_val_def num_less_def num_float_def option.pred_set elim!: valid_floated)
  have mask: "list_all (clause_holds (row_of f))
      (case (id_mask q, arbitration_id_mask_target q) of (Some m, Some t) \<Rightarrow> [ArbitrationMasked m t] | _ \<Rightarrow> []) \<longleftrightarrow>
      (case (id_mask q, id_mask_value q) of (Some m, Some v) \<Rightarrow> arbitration_id f AND m = v AND m | _ \<Rightarrow> True)"
    by (simp add: arbitration_id_mask_target_def split: option.splits)
  have dirs: "pred_option (\<lambda>ds. direction_value (direction f) \<in> direction_value ` set ds) (directions q) \<longleftrightarrow>
      pred_option (\<lambda>ds. direction f \<in> set ds) (directions q)"
    by (auto simp: option.pred_set)
  show ?thesis
    unfolding filter_clauses_def frame_matches_def
    by (simp add: mask [simplified] stamps dirs)
qed

section \<open>Pruning\<close>

definition ascending :: "frame list \<Rightarrow> bool" where
  "ascending fs \<longleftrightarrow> sorted_wrt (\<lambda>f g. sequence f < sequence g) fs"

lemma contiguous_ascending: "contiguous fs \<Longrightarrow> ascending fs"
proof (cases fs)
  case (Cons f gs)
  assume "contiguous fs"
  then have "map sequence fs = [sequence f .. sequence f + int (length gs)]"
    using contiguous_upto [of f gs] by (simp add: Cons)
  then have "sorted_wrt (<) (map sequence fs)" by (simp only: sorted_wrt_upto)
  then show ?thesis by (simp add: ascending_def sorted_wrt_map)
qed (simp add: ascending_def)

lemma ascending_append: "ascending (fs @ gs) \<longleftrightarrow> ascending fs \<and> ascending gs \<and> (\<forall>f\<in>set fs. \<forall>g\<in>set gs. sequence f < sequence g)"
  by (simp add: ascending_def sorted_wrt_append)

lemma ascending_concat: "ascending (concat cs) \<Longrightarrow> fs \<in> set cs \<Longrightarrow> ascending fs"
  by (induction cs) (auto simp: ascending_append)

lemma ascending_bounds:
  assumes "ascending fs" "f \<in> set fs"
  shows "sequence (hd fs) \<le> sequence f" "sequence f \<le> sequence (last fs)"
proof -
  obtain g gs where fs: "fs = g # gs" using assms(2) by (cases fs) auto
  show "sequence (hd fs) \<le> sequence f" using assms by (auto simp: fs ascending_def)
  have "fs = butlast fs @ [last fs]" using fs by simp
  then have "ascending (butlast fs @ [last fs])" "f \<in> set (butlast fs @ [last fs])" using assms by simp_all
  then show "sequence f \<le> sequence (last fs)" by (auto simp: ascending_append)
qed

text \<open>What the row of a segment says of the frames in it.\<close>

definition chunk_may_match :: "frame_filter \<Rightarrow> int option \<Rightarrow> frame list \<Rightarrow> bool" where
  "chunk_may_match q after fs \<longleftrightarrow>
     pred_option (\<lambda>n. \<not> sequence (last fs) < n) (sequence_start q) \<and>
     pred_option (\<lambda>n. \<not> sequence (hd fs) > n) (sequence_end q) \<and>
     pred_option (\<lambda>n. sequence (last fs) > n) after"

lemma matching_append [simp]: "matching q after (fs @ gs) = matching q after fs @ matching q after gs"
  by (simp add: matching_def)

lemma matching_Nil [simp]: "matching q after [] = []"
  by (simp add: matching_def)

lemma skipped_chunk:
  assumes "ascending fs" "\<not> chunk_may_match q after fs"
  shows "matching q after fs = []"
proof -
  have "\<not> (frame_matches q f \<and> pred_option (\<lambda>n. n < sequence f) after)" if "f \<in> set fs" for f
    using assms(2) ascending_bounds [OF assms(1) that]
    by (force simp: chunk_may_match_def frame_matches_def option.pred_set)
  then show ?thesis by (simp add: matching_def filter_empty_conv)
qed

lemma pruning_keeps_matches:
  assumes "\<And>fs. fs \<in> set cs \<Longrightarrow> ascending fs"
  shows "matching q after (concat (filter (chunk_may_match q after) cs)) = matching q after (concat cs)"
  using assms by (induction cs) (simp_all add: skipped_chunk)

lemma stored_matching_bounds:
  "chunk_may_match q after (map stored_frame fs) \<longleftrightarrow> chunk_may_match q after fs" if "fs \<noteq> []"
  unfolding chunk_may_match_def hd_map [OF that] last_map [OF that] stored_frame_sequence ..

lemma stored_ascending [simp]: "ascending (map stored_frame fs) = ascending fs"
  by (simp add: ascending_def sorted_wrt_map)

section \<open>The engine on the rows of frames\<close>

lemma rmap_map_inverse: "(\<And>x. x \<in> set xs \<Longrightarrow> f (g x) = Inr x) \<Longrightarrow> rmap f (map g xs) = Inr xs"
  by (induction xs) simp_all

lemma selected_rows:
  assumes "valid_filter q" "list_all file_frame fs"
  shows "selected (filter_clauses q @ (case after of None \<Rightarrow> [] | Some n \<Rightarrow> [SequenceAfter n])) (map row_of fs)
    = map row_of (matching q after fs)"
proof -
  have "list_all (clause_holds (row_of f)) (filter_clauses q @ (case after of None \<Rightarrow> [] | Some n \<Rightarrow> [SequenceAfter n])) \<longleftrightarrow>
      frame_matches q f \<and> pred_option (\<lambda>n. n < sequence f) after" if "f \<in> set fs" for f
  proof -
    have "file_frame f" using assms(2) that by (simp add: list_all_iff)
    from filter_clauses_hold [OF assms(1) this] show ?thesis by (cases after) auto
  qed
  then show ?thesis
    unfolding selected_def matching_def filter_map comp_def by (intro arg_cong [where f = "map row_of"] filter_cong) auto
qed

lemma sequence_key_row [simp]: "sequence_key (row_of f) = sequence f"
  by (simp add: sequence_key_def)

lemma sorted_rows_unique:
  assumes "mset ys = mset (map row_of fs)" "sorted (map sequence_key ys)" "ascending fs"
  shows "ys = map row_of fs"
proof -
  have keys: "sorted (map sequence_key (map row_of fs))" "distinct (map sequence_key (map row_of fs))"
    using assms(3) strict_sorted_iff [of "map sequence fs"] by (simp_all add: ascending_def sorted_wrt_map comp_def)
  have set: "set ys = set (map row_of fs)" using assms(1) by (rule mset_eq_setD)
  have "mset (map sequence_key ys) = mset (map sequence_key (map row_of fs))" by (simp only: mset_map assms(1))
  then have "distinct (map sequence_key ys)" using keys(2) by (metis mset_eq_imp_distinct_iff)
  moreover have "inj_on sequence_key (set ys \<union> set (map row_of fs))"
    using keys(2) unfolding set by (simp only: Un_absorb distinct_map)
  ultimately show ?thesis
    using keys assms(2) set by (intro map_sorted_distinct_set_unique [where f = sequence_key])
qed

lemma frame_row_converts:
  assumes "valid_frame f" "hardware_timestamp f = None \<or> (\<exists>x. hardware_timestamp f = Some (FloatNum x))"
    "host_timestamp f = FloatNum y" "normalized_timestamp f = FloatNum z"
  shows "row_to_frame (row_of f) = Inr f"
proof -
  have "rmap (\<lambda>(f, v). f v) (zip FRAME_CONVERSIONS (row_of f)) = Inr (row_of f)"
    using assms(2-) by (auto simp: FRAME_CONVERSIONS_def row_of_def num_val_def to_int_def to_str_def to_bool_def
        to_bytes_def to_float_def to_optional_float_def)
  moreover have "length (row_of f) = length SELECTED_COLUMNS" by (simp add: row_of_def SELECTED_COLUMNS_def)
  ultimately show ?thesis
    using frame_of_row_of [OF assms(1)] by (simp add: row_to_frame_def invalid_rows_def)
qed

lemma stored_row_to_frame:
  assumes "valid_frame f"
  shows "row_to_frame (row_of (stored_frame f)) = Inr (stored_frame f)"
proof -
  have f: "\<exists>x. floated t = FloatNum x" if "valid_number t" for t
    using that by (auto elim: as_float_valid)
  from assms f have "\<exists>y. host_timestamp (stored_frame f) = FloatNum y" "\<exists>z. normalized_timestamp (stored_frame f) = FloatNum z"
    "hardware_timestamp (stored_frame f) = None \<or> (\<exists>x. hardware_timestamp (stored_frame f) = Some (FloatNum x))"
    by (cases "hardware_timestamp f"; simp add: valid_frame_def stored_frame_def)+
  with frame_row_converts [OF stored_frame_valid [OF assms]] show ?thesis by blast
qed

text \<open>What DuckDB answers over the files of some stored frames.\<close>

lemma finite_floated: "valid_number t \<Longrightarrow> isfinite (num_float (floated t))"
  by (auto elim!: valid_floated simp: num_float_def)

lemma filter_clauses_typed: "valid_filter q \<Longrightarrow> list_all clause_typed (filter_clauses q)"
proof -
  assume q: "valid_filter q"
  have "pred_option (\<lambda>cs. cs \<noteq> []) (channel_ids q)" "pred_option (\<lambda>is. is \<noteq> []) (arbitration_ids q)"
    "pred_option (\<lambda>ds. ds \<noteq> []) (directions q)"
    using q by (auto simp: valid_filter_def valid_members_def elim: option.pred_mono_strong)
  moreover have "pred_option (\<lambda>t. isfinite (num_float (floated t))) (timestamp_start q)"
    "pred_option (\<lambda>t. isfinite (num_float (floated t))) (timestamp_end q)"
    using q by (auto simp: valid_filter_def elim!: option.pred_mono_strong intro: finite_floated)
  ultimately show ?thesis by (auto simp: filter_clauses_def list_all_append comp_def option.pred_True split: option.split)
qed

lemma typed_file_row: "file_frame f \<Longrightarrow> typed_row (row_of f)"
proof -
  assume "file_frame f"
  then obtain r where r: "normalized_timestamp f = FloatNum (Fin r)" by (auto simp: file_frame_def)
  have "map (column (row_of f)) SELECTED_COLUMNS = row_of f"
    by (simp add: SELECTED_COLUMNS_def column_def FRAME_COLUMNS_def row_of_def)
  with r show ?thesis by (simp add: typed_row_def sequence_key_def timestamp_key_def num_val_def)
qed

lemma stored_cells:
  assumes "valid_frame f"
  shows "typed_cells (row_of (stored_frame f))"
proof -
  have float: "of_type ''double'' (num_val (floated t))" if "valid_number t" for t
    by (rule valid_floated [OF that]) (simp add: of_type_def num_val_def)
  have others: "of_type ''uint64'' (VInt i)" "of_type ''uint32'' (VInt i)" "of_type ''uint8'' (VInt i)" "of_type ''bool'' (VBool b)"
    "of_type ''string'' (VStr s)" "of_type ''binary'' (VBytes bs)" for i b s bs
    by (simp_all add: of_type_def)
  have "\<forall>t. hardware_timestamp f = Some t \<longrightarrow> of_type ''double'' (num_val (floated t))"
    "of_type ''double'' (num_val (floated (host_timestamp f)))" "of_type ''double'' (num_val (floated (normalized_timestamp f)))"
    using assms float by (auto simp: valid_frame_def)
  then show ?thesis
    by (cases "hardware_timestamp f") (simp_all add: typed_cells_def FRAME_ARROW_SCHEMA_def row_of_def stored_frame_def others)
qed

lemma duck_on_frames:
  assumes "duckdb_answers db" "statement_typed st" "list_all (is_table fl) paths"
    and rows: "concat (map (rows_at fl) paths) = map row_of (map stored_frame gs)" and gs: "list_all valid_frame gs"
    and "db (statement_text st) (statement_parameters st) (path_list paths) fl = Inr out"
  shows "answers st (map row_of (map stored_frame gs)) out"
proof -
  have "list_all typed_cells (map row_of (map stored_frame gs))" "list_all typed_row (map row_of (map stored_frame gs))"
    using gs by (auto simp: list_all_iff stored_cells intro!: typed_file_row file_frame_stored)
  with duck_answers [OF assms(1-3) _ _ assms(6)] show ?thesis by (simp only: rows)
qed

lemma duck_raised_statement:
  assumes "statement_typed st" "paths \<noteq> []" "list_all (is_table fl) paths"
    "db (statement_text st) (statement_parameters st) (path_list paths) fl = Inl e"
  shows "duck_raised db fl"
  using assms(2-) read_statement [OF assms(1)] unfolding duck_raised_def by blast

text \<open>A page over the files of some stored frames, of which none of the others match.\<close>

lemma engine_page:
  assumes db: "duckdb_answers db" and q: "valid_filter (query_filter q)" "0 < query_limit q"
    and files: "list_all (is_table fl) paths" "concat (map (rows_at fl) paths) = map row_of (map stored_frame gs)"
    and gs: "list_all valid_frame gs" "ascending gs" "paths = [] \<longleftrightarrow> gs = []"
  shows "case engine_query_frames db fl paths (query_filter q) (after_sequence q) (query_limit q) of
      Inl e \<Rightarrow> duck_raised db fl
    | Inr p \<Rightarrow> p = reference_page q (map stored_frame gs)"
proof (cases "paths = []")
  case True
  have "is_uuid (flt_session (query_filter q))" using q(1) by (simp add: valid_filter_def)
  with True gs(3) q(2) show ?thesis
    by (simp add: engine_query_frames_def empty_page_def page_post_init reference_page_def matching_def)
next
  case False
  let ?f = "query_filter q" and ?after = "after_sequence q" and ?n = "nat (query_limit q)"
  let ?cs = "filter_clauses ?f @ (case ?after of None \<Rightarrow> [] | Some n \<Rightarrow> [SequenceAfter n])"
  let ?st = "SelectFrames ?cs (query_limit q + 1)"
  let ?K = "matching ?f ?after (map stored_frame gs)"
  have uuid: "is_uuid (flt_session ?f)" using q(1) by (simp add: valid_filter_def)
  have stored: "list_all file_frame (map stored_frame gs)" using gs(1) by (simp add: list_all_iff file_frame_stored)
  note pred = frame_predicates_valid [OF q(1)]
  have typed: "statement_typed ?st"
    using filter_clauses_typed [OF q(1)] q(2) by (simp add: statement_typed_def split: option.split)
  show ?thesis
  proof (cases "db (statement_text ?st) (statement_parameters ?st) (path_list paths) fl")
    case (Inl e)
    from duck_raised_statement [where db = db and fl = fl and st = ?st, OF typed False files(1) Inl] show ?thesis
      using False Inl by (simp add: engine_query_frames_def pred run_statement_def del: statement_text.simps statement_parameters.simps)
  next
    case (Inr out)
    from duck_on_frames [where db = db and fl = fl and st = ?st, OF db typed files gs(1) Inr]
    obtain ys where ys: "mset ys = mset (map row_of ?K)" "sorted (map sequence_key ys)" "out = take (nat (query_limit q + 1)) ys"
      by (auto simp: select_answer_def selected_rows [OF q(1) stored] simp del: map_map)
    have "ascending ?K" using gs(2) by (simp add: matching_def ascending_def sorted_wrt_filter sorted_wrt_map)
    with ys have out: "out = map row_of (take (Suc ?n) ?K)"
      using q(2) sorted_rows_unique by (metis take_map Suc_nat_eq_nat_zadd1 add.commute less_imp_le)
    have more: "int (length out) > query_limit q \<longleftrightarrow> ?n < length ?K" using q(2) by (auto simp: out)
    have rows: "(if int (length out) > query_limit q then take ?n out else out) = map row_of (take ?n ?K)"
      unfolding more by (simp add: out take_map min_def)
    have "set (take ?n ?K) \<subseteq> stored_frame ` set gs" by (auto simp: matching_def dest!: in_set_takeD)
    then have frames: "rmap row_to_frame (map row_of (take ?n ?K)) = Inr (take ?n ?K)"
      using gs(1) by (intro rmap_map_inverse) (auto simp: list_all_iff stored_row_to_frame)
    have "length (take ?n ?K) = ?n" if "?n < length ?K" using that by simp
    then have "take ?n ?K \<noteq> []" if "?n < length ?K" using that q(2) by (cases "take ?n ?K = []") auto
    then show ?thesis
      using False uuid
      by (simp add: engine_query_frames_def pred run_statement_def Inr rows [unfolded more] more frames reference_page_def
          page_post_init Let_def del: statement_text.simps statement_parameters.simps)
  qed
qed

section \<open>The service on a session's store\<close>

lemma list_all2_filter:
  "list_all2 P xs ys \<Longrightarrow> (\<And>x y. P x y \<Longrightarrow> p x = q y) \<Longrightarrow> list_all2 P (filter p xs) (filter q ys)"
  by (induction rule: list_all2_induct) auto

lemma rmap_list_all2:
  "list_all2 P xs ys \<Longrightarrow> (\<And>x y. x \<in> set xs \<Longrightarrow> y \<in> set ys \<Longrightarrow> P x y \<Longrightarrow> f y = Inr (g x)) \<Longrightarrow> rmap f ys = Inr (map g xs)"
proof (induction rule: list_all2_induct)
  case (Cons x xs y ys)
  then have "f y = Inr (g x)" by simp
  with Cons.IH Cons.prems show ?case by simp
qed simp

lemma list_all2_partner: "list_all2 P xs ys \<Longrightarrow> x \<in> set xs \<Longrightarrow> \<exists>y\<in>set ys. P x y"
  by (induction rule: list_all2_induct) auto

lemma snapshot_wp:
  fixes s :: "'a store_scheme"
  assumes inv: "session_inv A p (base_dir s) (session_rows s) (segment_rows s) (files s) x"
    and cs: "committed (base_dir s) (segment_rows s) (files s) x cs" and h: "host_open h = (\<lambda>_. None)"
  shows "wp (snapshot h (ses_id x)) (\<lambda>(r, gs) t. session_wf r \<and> session_row x r \<and>
    gs = filter (\<lambda>g. seg_session g = ses_id x) (segment_rows s) \<and> same_store s t) (\<lambda>_ _. False) s"
proof -
  let ?G = "filter (\<lambda>g. seg_session g = ses_id x) (segment_rows s)"
  obtain r where r: "find (\<lambda>r. ses_id r = ses_id x) (session_rows s) = Some r" "session_wf r" "session_row x r"
    using session_inv_row [OF inv] by blast
  have rows: "rmap segment_from_row ?G = Inr ?G"
    using inv by (intro rmap_same segment_from_row_wf) (auto simp: session_inv_def store_ok_def list_all_iff file_registered_def)
  show ?thesis
    using h r session_from_row_wf [OF r(2)]
    by (simp add: snapshot_def read_session_def wp_pure list_segments_def require_registered_session_def
        committed_sorted(1) [OF cs] rows same_store_def)
qed

text \<open>A candidate that the writer registered passes, and its rows are those of its frames.\<close>

lemma candidate_passes:
  assumes g: "file_registered (base_dir s) (files s) g" "segment_stored (base_dir s) (files s) x (n, fs) g" "seg_session g = ses_id x"
    and r: "ses_id r = ses_id x" "ses_stream r = ses_stream x" "ses_stream x \<noteq> []" and fs: "list_all valid_frame fs"
  defines "p \<equiv> canonical_location (base_dir s) (ses_id x) n"
  shows "resolve_candidate (base_dir s) g = Inr p" "validate_candidate (files s) r g p = Inr ()"
    "is_table (files s) p" "rows_at (files s) p = map row_of (map stored_frame fs)"
proof -
  have u: "is_uuid (ses_id x)" using g(1,3) by (simp add: file_registered_def segment_wf_iff)
  have path: "relative_path g = canonical_path (ses_id x) n" using g by (simp add: file_registered_def segment_stored_def)
  have resolve: "resolve_within_root (base_dir s) (relative_path g) = Inr p" by (simp add: path resolve_canonical [OF u] p_def)
  then show "resolve_candidate (base_dir s) g = Inr p" by (simp add: resolve_candidate_def)
  from read_registered_ok [OF g r fs]
  show "validate_candidate (files s) r g p = Inr ()"
    by (auto simp: read_registered_def resolve rbind_Inr_iff validate_candidate_def Let_def)
  from g(2) obtain d where d: "map_of (files s) p = Some d" "content d = Some (segment_table (ses_id x) (ses_stream x) n fs)"
    by (auto simp: segment_stored_def p_def)
  then show "is_table (files s) p" by (simp add: is_table_def)
  show "rows_at (files s) p = map row_of (map stored_frame fs)"
    using d fs by (auto simp: rows_at_def segment_table_def list_all_iff float_columns_row)
qed

lemma session_paths_distinct:
  assumes inv: "session_inv A p base rows segs fl x" and cs: "committed base segs fl x cs"
  shows "distinct (map relative_path (filter (\<lambda>g. seg_session g = ses_id x) segs))"
proof -
  let ?G = "filter (\<lambda>g. seg_session g = ses_id x) segs"
  have u: "is_uuid (ses_id x)" using inv by (simp add: session_inv_def session_wf_iff)
  have "map relative_path ?G = map (\<lambda>g. canonical_path (ses_id x) (nat (seg_index g))) ?G"
    using inv by (auto simp: session_inv_def store_ok_def list_all_iff file_registered_def)
  also have "\<dots> = map (canonical_path (ses_id x) \<circ> nat) (map seg_index ?G)" by simp
  also have "\<dots> = map (canonical_path (ses_id x)) [0..<length cs]"
    by (simp only: committed_sorted(2) [OF cs] map_map) simp
  finally show ?thesis using u by (simp add: distinct_map inj_on_def canonical_path_inj)
qed

lemma map_of_paths:
  assumes "distinct (map key gs)" "g \<in> set gs"
  shows "map_of (rev (map (\<lambda>g. (key g, g)) gs)) (key g) = Some g"
proof -
  have "distinct (map fst (map (\<lambda>g. (key g, g)) gs))" using assms(1) by (simp add: comp_def)
  from map_of_rev_distinct [OF this] this assms(2) show ?thesis by simp
qed

lemma plan_segments_ok:
  assumes "list_all (\<lambda>g. seg_session g = flt_session f) gs" "is_uuid (flt_session f)" "pred_option ((\<le>) 0) after"
  shows "plan_segments gs f after = Inr \<lparr>plan_session = flt_session f, registered_segment_count = int (length gs),
    candidate_segment_count = int (length (filter (\<lambda>g. may_match g f after) gs)),
    relative_paths = map relative_path (filter (\<lambda>g. may_match g f after) gs)\<rparr>"
  using assms by (simp add: plan_segments_def query_plan_post_init_def require_query_count_def Let_def)

text \<open>What the engine is asked: over the files of the segments that may hold a match.\<close>

lemma bounded_query_wp:
  fixes s :: "'a store_scheme"
  assumes inv: "session_inv A p (base_dir s) (session_rows s) (segment_rows s) (files s) x"
    and cs: "committed (base_dir s) (segment_rows s) (files s) x cs" "prefix (concat cs) A" and h: "host_open h = (\<lambda>_. None)"
    and f: "flt_session f = ses_id x" "pred_option ((\<le>) 0) after"
  obtains paths where "fst (bounded_query h f after ask s) = ask (files s) paths"
    "list_all (is_table (files s)) paths" "paths = [] \<longleftrightarrow> filter (chunk_may_match f after) cs = []"
    "concat (map (rows_at (files s)) paths) = map row_of (map stored_frame (concat (filter (chunk_may_match f after) cs)))"
proof -
  let ?G = "filter (\<lambda>g. seg_session g = ses_id x) (segment_rows s)"
  let ?may = "\<lambda>g. may_match g f after"
  let ?ds = "filter (chunk_may_match f after \<circ> snd) (enumerate 0 cs)"
  let ?loc = "\<lambda>c. canonical_location (base_dir s) (ses_id x) (fst c)"
  let ?paths = "map ?loc ?ds"
  have u: "is_uuid (ses_id x)" "ses_stream x \<noteq> []" using inv by (simp_all add: session_inv_def session_wf_iff)
  have two: "list_all2 (segment_stored (base_dir s) (files s) x) (enumerate 0 cs) ?G" using cs(1) by (simp add: committed_def)
  have may: "list_all2 (segment_stored (base_dir s) (files s) x) ?ds (filter ?may ?G)"
    by (rule list_all2_filter [OF two]) (simp add: segment_stored_def chunk_may_match_def may_match_def)
  have all: "list_all (\<lambda>g. seg_session g = flt_session f) ?G" using f(1) by (simp add: list_all_iff)
  note plan = plan_segments_ok [OF all _ f(2)]
  have snds: "map snd ?ds = filter (chunk_may_match f after) cs"
    by (simp only: filter_map [symmetric] map_snd_enumerate)
  have valid: "list_all valid_frame (snd c)" if "c \<in> set ?ds" for c
  proof -
    have "snd c \<in> set (map snd ?ds)" using that by simp
    then have "snd c \<in> set cs" unfolding snds by simp
    then have "set (snd c) \<subseteq> set A" using set_mono_prefix [OF cs(2)] by auto
    then show ?thesis using inv by (auto simp: session_inv_def frame_ok_def list_all_iff)
  qed
  have reg: "file_registered (base_dir s) (files s) g" if "g \<in> set ?G" for g
    using inv that by (auto simp: session_inv_def store_ok_def list_all_iff)
  have passes: "rmap (\<lambda>g. rbind (resolve_candidate (base_dir s) g) (\<lambda>p. rbind (validate_candidate (files s) r g p) (\<lambda>_. Inr p)))
      (filter ?may ?G) = Inr ?paths" if "session_row x r" for r
    using may
  proof (rule rmap_list_all2)
    fix c g assume c: "c \<in> set ?ds" "g \<in> set (filter ?may ?G)" "segment_stored (base_dir s) (files s) x c g"
    have "segment_stored (base_dir s) (files s) x (fst c, snd c) g" using c(3) by simp
    from candidate_passes [OF reg this _ _ _ u(2) valid [OF c(1)], of r] c(2) that
    show "rbind (resolve_candidate (base_dir s) g) (\<lambda>p. rbind (validate_candidate (files s) r g p) (\<lambda>_. Inr p)) = Inr (?loc c)"
      by (simp add: session_row_def data_part_eq)
  qed
  have paths: "candidate_paths (base_dir s) (files s) r ?G plan = Inr ?paths"
    if "session_row x r" "relative_paths plan = map relative_path (filter ?may ?G)" for r plan
  proof -
    have "rmap (\<lambda>rel. case map_of (rev (map (\<lambda>g. (relative_path g, g)) ?G)) rel of None \<Rightarrow> Inl (Foreign ''KeyError'')
        | Some g \<Rightarrow> rbind (resolve_candidate (base_dir s) g) (\<lambda>p. rbind (validate_candidate (files s) r g p) (\<lambda>_. Inr p)))
        (map relative_path gs) =
      rmap (\<lambda>g. rbind (resolve_candidate (base_dir s) g) (\<lambda>p. rbind (validate_candidate (files s) r g p) (\<lambda>_. Inr p))) gs"
      if "set gs \<subseteq> set ?G" for gs
      using that by (induction gs) (simp_all add: map_of_paths [OF session_paths_distinct [OF inv cs(1)]])
    from this [OF filter_is_subset] show ?thesis
      by (simp only: candidate_paths_def that(2) passes [OF that(1)])
  qed
  have asked: "fst (bounded_query h f after ask s) = ask (files s) ?paths"
  proof -
    have "wp (bounded_query h f after ask) (\<lambda>a _. ask (files s) ?paths = Inr a) (\<lambda>e _. ask (files s) ?paths = Inl e) s"
      unfolding bounded_query_def wp_ebind f(1)
    proof (rule wp_mono [OF snapshot_wp [OF inv cs(1) h]], goal_cases)
      case (1 a t)
      obtain r where a: "a = (r, ?G)" "session_row x r" "same_store s t" using 1 by auto
      then show ?case
        using plan u(1) f(1) paths [OF a(2)]
        by (simp add: wp_def same_store_def split: sum.splits)
    qed simp
    then show ?thesis by (auto simp: wp_def split: prod.splits sum.splits)
  qed
  have rows: "is_table (files s) (?loc c) \<and> rows_at (files s) (?loc c) = map row_of (map stored_frame (snd c))"
    if c: "c \<in> set ?ds" for c
  proof -
    obtain g where g: "g \<in> set (filter ?may ?G)" "segment_stored (base_dir s) (files s) x (fst c, snd c) g"
      using list_all2_partner [OF may c] by auto
    from candidate_passes [OF reg g(2) _ refl refl u(2) valid [OF c]] g(1) show ?thesis by simp
  qed
  have "concat (map (rows_at (files s)) ?paths) = concat (map (\<lambda>c. map row_of (map stored_frame (snd c))) ?ds)"
    unfolding map_map comp_def using rows by (intro arg_cong [where f = concat] map_cong) simp_all
  also have "\<dots> = map row_of (map stored_frame (concat (map snd ?ds)))"
    by (simp add: map_concat comp_def)
  finally have "concat (map (rows_at (files s)) ?paths) = map row_of (map stored_frame (concat (map snd ?ds)))" .
  then have "concat (map (rows_at (files s)) ?paths)
      = map row_of (map stored_frame (concat (filter (chunk_may_match f after) cs)))" by (simp only: snds)
  moreover have "?paths = [] \<longleftrightarrow> filter (chunk_may_match f after) cs = []" by (simp only: snds [symmetric] map_is_Nil_conv)
  moreover have "list_all (is_table (files s)) ?paths"
    unfolding list_all_iff set_map using rows by blast
  ultimately show ?thesis using asked by (intro that [of ?paths])
qed

text \<open>Seen as frames: some of the committed ones, among them every match.\<close>

lemma bounded_query_frames:
  fixes s :: "'a store_scheme"
  assumes inv: "session_inv A p (base_dir s) (session_rows s) (segment_rows s) (files s) x" and A: "ascending A"
    and h: "host_open h = (\<lambda>_. None)" and f: "flt_session f = ses_id x" "pred_option ((\<le>) 0) after"
  obtains paths gs where "fst (bounded_query h f after ask s) = ask (files s) paths"
    "list_all (is_table (files s)) paths" "concat (map (rows_at (files s)) paths) = map row_of (map stored_frame gs)"
    "list_all valid_frame gs" "ascending gs" "paths = [] \<longleftrightarrow> gs = []"
    "matching f after (map stored_frame gs) = matching f after (map stored_frame (take (nat (ses_frame_count x)) A))"
proof -
  from inv obtain cs where cs: "committed (base_dir s) (segment_rows s) (files s) x cs" "prefix (concat cs) A"
    by (auto simp: session_inv_def)
  let ?may = "chunk_may_match f after"
  let ?gs = "concat (filter ?may cs)"
  have all: "take (nat (ses_frame_count x)) A = concat cs"
    using cs by (auto simp: committed_def prefix_def)
  have up: "ascending (concat cs)" using A cs(2) by (auto simp: prefix_def ascending_append)
  have ne: "fs \<noteq> []" if "fs \<in> set cs" for fs
  proof -
    from that obtain n where "n < length cs" "cs ! n = fs" by (auto simp: in_set_conv_nth)
    then have "(n, fs) \<in> set (enumerate 0 cs)" by (subst in_set_enumerate_eq) simp
    moreover have "list_all2 (segment_stored (base_dir s) (files s) x) (enumerate 0 cs)
        (filter (\<lambda>g. seg_session g = ses_id x) (segment_rows s))" using cs(1) by (simp add: committed_def)
    ultimately show ?thesis using list_all2_partner by (fastforce simp: segment_stored_def)
  qed
  obtain paths where paths: "fst (bounded_query h f after ask s) = ask (files s) paths"
    "list_all (is_table (files s)) paths" "paths = [] \<longleftrightarrow> filter ?may cs = []"
    "concat (map (rows_at (files s)) paths) = map row_of (map stored_frame ?gs)"
    by (rule bounded_query_wp [OF inv cs h f])
  have valid: "list_all valid_frame ?gs"
    using inv set_mono_prefix [OF cs(2)] by (auto simp: session_inv_def frame_ok_def list_all_iff)
  have up': "ascending ?gs" using up by (induction cs) (auto simp: ascending_append)
  have empty: "paths = [] \<longleftrightarrow> ?gs = []" using paths(3) ne by (auto simp: filter_empty_conv concat_eq_Nil_conv)
  have gs: "map stored_frame ?gs = concat (filter ?may (map (map stored_frame) cs))"
    using ne by (induction cs) (simp_all add: stored_matching_bounds)
  have "ascending fs" if "fs \<in> set (map (map stored_frame) cs)" for fs
    using that ascending_concat [OF up] by auto
  then have "matching f after (map stored_frame ?gs) = matching f after (map stored_frame (concat cs))"
    unfolding gs map_concat [of stored_frame cs] by (rule pruning_keeps_matches)
  with that [OF paths(1,2,4) valid up' empty] all show ?thesis by simp
qed

lemma query_frames_page:
  fixes s :: "'a store_scheme"
  assumes inv: "session_inv A p (base_dir s) (session_rows s) (segment_rows s) (files s) x" and A: "ascending A"
    and h: "host_open h = (\<lambda>_. None)" and db: "duckdb_answers db"
    and q: "valid_filter (query_filter q)" "flt_session (query_filter q) = ses_id x" "pred_option ((\<le>) 0) (after_sequence q)"
      "0 < query_limit q"
  shows "case fst (query_frames h db (Some q) s) of Inl e \<Rightarrow> duck_raised db (files s)
    | Inr r \<Rightarrow> r = reference_page q (map stored_frame (take (nat (ses_frame_count x)) A))"
proof -
  obtain paths gs where b: "fst (bounded_query h (query_filter q) (after_sequence q)
      (\<lambda>fl paths. engine_query_frames db fl paths (query_filter q) (after_sequence q) (query_limit q)) s)
      = engine_query_frames db (files s) paths (query_filter q) (after_sequence q) (query_limit q)"
    "list_all (is_table (files s)) paths" "concat (map (rows_at (files s)) paths) = map row_of (map stored_frame gs)"
    "list_all valid_frame gs" "ascending gs" "paths = [] \<longleftrightarrow> gs = []"
    "matching (query_filter q) (after_sequence q) (map stored_frame gs)
      = matching (query_filter q) (after_sequence q) (map stored_frame (take (nat (ses_frame_count x)) A))"
    by (rule bounded_query_frames [OF inv A h q(2,3)])
  from b(7) have "reference_page q (map stored_frame gs) = reference_page q (map stored_frame (take (nat (ses_frame_count x)) A))"
    by (simp only: reference_page_def)
  with engine_page [OF db q(1,4) b(2-6)] show ?thesis
    by (simp add: query_frames_def b(1) split: sum.splits)
qed

section \<open>Sequences along a run\<close>

text \<open>What \<open>append\<close> alone moves beside the buffer.\<close>

definition cursor :: "traced_writer \<Rightarrow> int option \<times> frame list" where
  "cursor s = (last_appended_sequence s, appended_frames s)"

lemma cursor_updates [simp]:
  "cursor (s\<lparr>readings := k\<rparr>) = cursor s" "cursor (s\<lparr>files := fl\<rparr>) = cursor s"
  "cursor (s\<lparr>session_rows := rs\<rparr>) = cursor s" "cursor (s\<lparr>segment_rows := gs\<rparr>) = cursor s"
  "cursor (s\<lparr>w_session := x\<rparr>) = cursor s" "cursor (s\<lparr>w_buffer := fs\<rparr>) = cursor s"
  by (simp_all add: cursor_def)

lemma cursor_mark_failed [keeps_intros]: "keeps cursor (mark_failed h)"
  unfolding mark_failed_def advance_session_state_def advance_def
  by (intro keeps_intros) simp_all

lemma cursor_commit [keeps_intros]: "keeps cursor (commit_segment h fs)"
  unfolding commit_segment_def register_written_def register_segment_def Let_def
  by (intro keeps_intros) simp_all

lemma cursor_flush_pending [keeps_intros]: "keeps cursor (flush_pending h)"
  unfolding flush_pending_def require_active_def
  by (intro keeps_intros) simp_all

lemma cursor_commit_completed [keeps_intros]: "keeps cursor (commit_completed h)"
  unfolding commit_completed_def require_active_def advance_session_state_def advance_def
  by (intro keeps_intros) simp_all

lemma cursor_finalize [keeps_intros]: "keeps cursor (finalize h)"
  unfolding finalize_def by (intro keeps_intros)

lemma cursor_others: "keeps cursor (close h)" "keeps cursor (fail h)" "keeps cursor (fail_active_session h i)"
  unfolding close_def fail_def fail_active_session_def fail_active_row_def advance_def
  by (intro keeps_intros; simp)+

lemma cursor_mark_all [keeps_intros]: "keeps cursor (mark_all_interrupted h now xs)"
  unfolding mark_session_interrupted_def advance_def
proof (induction xs)
  case (Cons x xs)
  then show ?case
    unfolding mark_all_interrupted.simps mark_session_interrupted_def advance_def by (intro keeps_intros) simp_all
qed (simp add: keeps_intros)

lemma cursor_recover: "keeps cursor (recover_incomplete_sessions h now)"
  unfolding recover_incomplete_sessions_def list_sessions_in_state_def
  by (intro keeps_intros) simp_all

lemma cursor_flush_full: "cursor (snd (flush_full_segments h s)) = cursor s"
proof (induction h s rule: flush_full_segments.induct)
  case (1 h s)
  have c: "cursor (snd (commit_segment h fs s)) = cursor s" for fs using cursor_commit [of h fs] by (simp add: keeps_def)
  show ?case
    using 1 c [of "take (max_frames_per_segment s) (w_buffer s)"]
    by (subst flush_full_segments.simps) (auto split: prod.splits sum.splits)
qed

lemma ebind_Inr_iff: "ebind m f s = (Inr a, t) \<longleftrightarrow> (\<exists>x u. m s = (Inr x, u) \<and> f x u = (Inr a, t))"
  by (auto simp: ebind_apply split: prod.splits sum.splits)

definition in_sequence :: "traced_writer \<Rightarrow> bool" where
  "in_sequence s \<longleftrightarrow> contiguous (appended_frames s) \<and>
     last_appended_sequence s = (if appended_frames s = [] then None else Some (sequence (last (appended_frames s))))"

lemma in_sequence_cursor: "cursor t = cursor s \<Longrightarrow> in_sequence t = in_sequence s"
  by (simp add: cursor_def in_sequence_def)

lemma keeps_in_sequence: "keeps cursor m \<Longrightarrow> in_sequence (snd (m s)) = in_sequence s"
  by (rule in_sequence_cursor) (simp add: keeps_def)

lemma contiguous_append:
  "contiguous fs \<Longrightarrow> contiguous gs \<Longrightarrow> (fs = [] \<or> gs = [] \<or> sequence (hd gs) = sequence (last fs) + 1) \<Longrightarrow> contiguous (fs @ gs)"
proof (induction fs rule: induct_list012)
  case (2 f)
  then show ?case by (cases gs) auto
qed auto

definition call_valid :: "session_call \<Rightarrow> bool" where
  "call_valid c \<longleftrightarrow> call_ok c \<and> (case c of Append b \<Rightarrow> valid_batch b | _ \<Rightarrow> True)"

lemma append_in_sequence:
  assumes s: "in_sequence s" and b: "valid_batch b"
  shows "in_sequence (snd (append h b (s\<lparr>appended_frames := appended_frames s @ accepts b s\<rparr>)))"
proof -
  let ?s = "s\<lparr>appended_frames := appended_frames s @ accepts b s\<rparr>"
  have same: "fst (append_checks b ?s) = fst (append_checks b s)"
    by (simp add: append_checks_def require_active_def require_contiguous_sequence_def
        require_ordered_timestamps_def ebind_apply Let_def cong: if_cong split: sum.splits)
  show ?thesis
  proof (cases "fst (append_checks b s) = Inr ()")
    case True
    have check: "append_checks b ?s = (Inr (), ?s)" using append_checks_state [of b ?s] same True by simp
    have "require_contiguous_sequence b s = Inr ()"
      using True by (auto simp: append_checks_def require_active_def ebind_apply rbind_Inr_iff guard_def split: if_splits)
    with s b have "in_sequence (extend_buffer b ?s)"
      using True by (auto simp: in_sequence_def extend_buffer_def accepts_def valid_batch_def require_contiguous_sequence_def
          intro!: contiguous_append split: if_splits)
    then show ?thesis
      using in_sequence_cursor [OF cursor_flush_full] by (simp add: append_def check ebind_apply exec_apply)
  next
    case False
    then obtain e where e: "fst (append_checks b ?s) = Inl e" using same by (cases "fst (append_checks b s)") simp_all
    have "append_checks b ?s = (Inl e, ?s)" using append_checks_state [of b ?s] e by simp
    then show ?thesis using s False by (simp add: append_def accepts_def in_sequence_def ebind_apply exec_apply)
  qed
qed

lemma session_step_in_sequence: "in_sequence s \<Longrightarrow> call_valid c \<Longrightarrow> in_sequence (session_step h c s)"
proof (cases c)
  case (Append b)
  assume "in_sequence s" "call_valid c"
  with Append append_in_sequence show ?thesis by (simp add: call_valid_def)
qed (simp_all add: keeps_in_sequence cursor_flush_pending cursor_commit_completed cursor_finalize cursor_others cursor_recover)

lemma in_sequence_preserved: "preserved (session_step h) in_sequence call_valid"
  by unfold_locales (rule session_step_in_sequence)

lemma start_in_sequence:
  assumes "ready_store s0" "start h stream s0 = (Inr (), s1)"
  shows "in_sequence s1"
proof -
  have "writer.more s1 = writer.more s0" using assms(2) by (rule keepsD [OF keeps_more_start])
  then have "appended_frames s1 = []" using assms(1) by (cases s0; cases s1) (simp add: ready_store_def)
  moreover have "last_appended_sequence s1 = None"
    using assms(2) by (auto simp: start_def Let_def eseq_def ebind_Inr_iff exec_apply split: if_splits)
  ultimately show ?thesis by (simp add: in_sequence_def)
qed

lemma run_ascending:
  assumes "ready_store s0" "start h stream s0 = (Inr (), s1)" "list_all call_valid calls"
  shows "ascending (appended_frames (run_calls (session_step h) calls s1))"
proof -
  have "in_sequence (run_calls (session_step h) calls s1)"
    by (rule preserved.run_inv [OF in_sequence_preserved]) (use start_in_sequence [OF assms(1,2)] assms(3) in \<open>auto simp: list_all_iff\<close>)
  then show ?thesis by (simp add: in_sequence_def contiguous_ascending)
qed

end
