(* ===== verification/Query_Paging.thy ===== *)
theory Query_Paging
  imports Query_Results
begin

text \<open>
  The promises of trace queries: a page is the next part of what the session committed, the
  cursor leads through every match, the aggregates are those of the matches, and no text of
  a caller becomes part of a statement. A reference answerer shows that what is assumed of
  DuckDB can hold.
\<close>

section \<open>A reference answerer\<close>

definition least_of :: "('a \<Rightarrow> 'a \<Rightarrow> bool) \<Rightarrow> 'a list \<Rightarrow> 'a" where
  "least_of below xs = foldl (\<lambda>x y. if below y x then y else x) (hd xs) (tl xs)"

definition rows_named :: "store_files \<Rightarrow> pystr list \<Rightarrow> pyval list list" where
  "rows_named fl pat =
     (case find (\<lambda>p. map glob_escape p = pat) (map fst fl) of None \<Rightarrow> [] | Some p \<Rightarrow> rows_at fl p)"

fun reference_item :: "pyval list list \<Rightarrow> item \<Rightarrow> pyval" where
  "reference_item g (Column c) = column (hd g) c"
| "reference_item g Count_Rows = VInt (int (length g))"
| "reference_item g (Least c) = (if present g c = [] then VNone else least_of value_less (present g c))"
| "reference_item g (Greatest c) =
     (if present g c = [] then VNone else least_of (\<lambda>a b. value_less b a) (present g c))"

definition reference_row :: "sql_query \<Rightarrow> pyval list list \<Rightarrow> pyval list" where
  "reference_row Q g = map (\<lambda>i. reference_item g (fst i)) (q_items Q)"

definition reference_rows :: "sql_query \<Rightarrow> pyval list list \<Rightarrow> pyval list list" where
  "reference_rows Q sel =
     (let grouped = (\<lambda>k. reference_row Q (filter (\<lambda>r. group_values Q r = k) sel)) in
      if q_groups Q \<noteq> [] then map grouped (sort_key (order_key Q \<circ> grouped) (remdups (map (group_values Q) sel)))
      else if list_all is_column (q_items Q) then
        map (\<lambda>r. reference_row Q [r]) (sort_key (\<lambda>r. order_key Q (reference_row Q [r])) sel)
      else [reference_row Q sel])"

definition reference_duck :: duck where
  "reference_duck text ps pats fl =
     (case read_query text ps of None \<Rightarrow> Inl (Foreign ''duckdb.Error'')
      | Some Q \<Rightarrow>
        let us = reference_rows Q (chosen Q (concat (map (rows_named fl) pats))) in
        Inr (case q_limit Q of None \<Rightarrow> us | Some n \<Rightarrow> take (nat n) us))"

lemma glob_escape_inj: "glob_escape s = glob_escape t \<Longrightarrow> s = t"
proof (induction s arbitrary: t)
  case Nil
  then show ?case by (cases t) (auto split: if_splits)
next
  case (Cons c s)
  then obtain d t' where t: "t = d # t'" by (cases t) (auto split: if_splits)
  with Cons show ?case by (auto simp: codes_def split: if_splits)
qed

lemma find_only: "(\<And>q. P q \<Longrightarrow> q = p) \<Longrightarrow> P p \<Longrightarrow> p \<in> set xs \<Longrightarrow> find P xs = Some p"
proof (induction xs)
  case (Cons x xs)
  show ?case
  proof (cases "P x")
    case True
    then have "x = p" by (rule Cons.prems(1))
    then show ?thesis using Cons.prems(2) by simp
  next
    case False
    then have "p \<in> set xs" using Cons.prems(2,3) by auto
    then show ?thesis using False Cons.IH [OF Cons.prems(1,2)] by simp
  qed
next
  case Nil
  from Nil(3) show ?case by (simp only: list.set empty_iff)
qed

lemma rows_named_escaped: "is_table fl p \<Longrightarrow> rows_named fl (map glob_escape p) = rows_at fl p"
proof -
  assume "is_table fl p"
  then have "p \<in> set (map fst fl)" by (auto simp: is_table_def rev_image_eqI dest: map_of_SomeD split: option.splits)
  moreover have "map glob_escape q = map glob_escape p \<Longrightarrow> q = p" for q
    using glob_escape_inj by (metis inj_map_eq_map injI)
  ultimately have "find (\<lambda>q. map glob_escape q = map glob_escape p) (map fst fl) = Some p"
    by (intro find_only) simp_all
  then show ?thesis by (simp add: rows_named_def)
qed

lemma least_of_extreme:
  assumes "\<And>x y z. below x y \<Longrightarrow> below y z \<Longrightarrow> below x z" "\<And>x. \<not> below x x" "xs \<noteq> []"
  shows "extreme below xs (least_of below xs)"
proof -
  have "extreme below (ys @ zs) (foldl (\<lambda>x y. if below y x then y else x) x zs)" if "extreme below ys x" for x ys zs
    using that
  proof (induction zs arbitrary: x ys)
    case (Cons z zs)
    have "extreme below (ys @ [z]) (if below z x then z else x)"
      using Cons.prems assms(1,2) unfolding extreme_def by auto
    from Cons.IH [OF this] show ?case by simp
  qed simp
  from this [of "[hd xs]" "hd xs" "tl xs"] assms(2,3) show ?thesis
    by (simp add: least_of_def extreme_def)
qed

lemma value_less_order: "value_less x y \<Longrightarrow> value_less y z \<Longrightarrow> value_less x z" "\<not> value_less x x"
  by (auto simp: value_less_def split: pyval.splits intro: pf_less_trans)

lemma reference_item_value: "g \<noteq> [] \<or> \<not> is_column i \<Longrightarrow> item_value g (fst i) (reference_item g (fst i))"
  by (cases "fst i") (auto simp: is_column_def intro!: least_of_extreme intro: value_less_order simp: value_less_order(2))

lemma reference_row_values: "g \<noteq> [] \<or> list_all (\<lambda>i. \<not> is_column i) (q_items Q) \<Longrightarrow> item_values Q g (reference_row Q g)"
  by (auto simp: item_values_def reference_row_def list_all2_map2 list_all2_same list_all_iff intro!: reference_item_value)

lemma reference_result:
  assumes "names_its_groups Q"
  shows "result_rows Q sel (reference_rows Q sel)"
proof (cases "q_groups Q = []")
  case True
  show ?thesis
  proof (cases "list_all is_column (q_items Q)")
    case all: True
    let ?ys = "sort_key (\<lambda>r. order_key Q (reference_row Q [r])) sel"
    have "mset ?ys = mset sel" by simp
    moreover have "list_all2 (\<lambda>r row. item_values Q [r] row) ?ys (map (\<lambda>r. reference_row Q [r]) ?ys)"
      by (simp add: list_all2_map2 list_all2_same reference_row_values)
    ultimately have "\<exists>ys. mset ys = mset sel \<and>
        list_all2 (\<lambda>r row. item_values Q [r] row) ys (map (\<lambda>r. reference_row Q [r]) ?ys)" by blast
    then show ?thesis using True all by (simp add: result_rows_def reference_rows_def)
  next
    case False
    then show ?thesis
      using True assms by (auto simp: result_rows_def reference_rows_def names_its_groups_def intro!: reference_row_values)
  qed
next
  case False
  let ?g = "\<lambda>k. filter (\<lambda>r. group_values Q r = k) sel"
  let ?ks = "sort_key (order_key Q \<circ> (\<lambda>k. reference_row Q (?g k))) (remdups (map (group_values Q) sel))"
  have keys: "distinct ?ks" "set ?ks = group_values Q ` set sel" by simp_all
  have "item_values Q (?g k) (reference_row Q (?g k))" if "k \<in> set ?ks" for k
    using that by (intro reference_row_values) (auto simp: filter_empty_conv)
  then have "list_all2 (\<lambda>k row. item_values Q (?g k) row) ?ks (map (\<lambda>k. reference_row Q (?g k)) ?ks)"
    by (auto simp: list_all2_map2 list_all2_same)
  with keys have "\<exists>ks. distinct ks \<and> set ks = group_values Q ` set sel \<and>
      list_all2 (\<lambda>k row. item_values Q (?g k) row) ks (map (\<lambda>k. reference_row Q (?g k)) ?ks)" by blast
  then show ?thesis using False unfolding result_rows_def reference_rows_def Let_def by (simp only: if_True not_False_eq_True simp_thms)
qed

lemma sorted_keyed: "(\<And>x. f (g x) = h x) \<Longrightarrow> sorted (map f (map g (sort_key h xs)))"
  by (simp add: comp_def)

lemma reference_sorted: "sorted (map (order_key Q) (reference_rows Q sel))"
  unfolding reference_rows_def Let_def by (auto simp del: map_map intro!: sorted_keyed)

lemma reference_duck_answers: "duckdb_answers reference_duck"
proof -
  have rows: "concat (map (rows_named fl) (path_list paths)) = concat (map (rows_at fl) paths)"
    if "list_all (is_table fl) paths" for fl paths
    using that by (induction paths) (simp_all add: path_list_def rows_named_escaped)
  have "sql_answers Q rows (case q_limit Q of None \<Rightarrow> reference_rows Q (chosen Q rows)
      | Some n \<Rightarrow> take (nat n) (reference_rows Q (chosen Q rows)))" if "read_query t ps = Some Q" for t ps Q rows
  proof -
    from that have "names_its_groups Q" by (auto simp: read_query_def typed_query_def split: option.splits if_splits)
    then show ?thesis unfolding sql_answers_def using reference_result reference_sorted by blast
  qed
  then show ?thesis by (auto simp: duckdb_answers_def reference_duck_def rows Let_def)
qed

section \<open>Following the cursor\<close>

text \<open>A client that asks for page after page; the fuel bounds the number of pages.\<close>

fun follow_pages :: "nat \<Rightarrow> (int option \<Rightarrow> exn + frame_query_page) \<Rightarrow> int option \<Rightarrow> (exn + frame list) option" where
  "follow_pages 0 ask after = None"
| "follow_pages (Suc n) ask after =
     (case ask after of Inl e \<Rightarrow> Some (Inl e)
      | Inr p \<Rightarrow> if \<not> has_more p then Some (Inr (page_frames p))
          else map_option (\<lambda>r. rbind r (\<lambda>fs. Inr (page_frames p @ fs))) (follow_pages n ask (next_after_sequence p)))"

lemma matching_after_page:
  assumes F: "ascending F" and n: "0 < n" "n < length (matching q after F)"
  shows "matching q (Some (sequence (last (take n (matching q after F))))) F = drop n (matching q after F)"
proof -
  let ?M = "matching q after F"
  let ?c = "sequence (last (take n ?M))"
  have M: "ascending ?M" using F by (simp add: matching_def ascending_def sorted_wrt_filter)
  have ne: "take n ?M \<noteq> []" using n by auto
  then have "last (take n ?M) \<in> set ?M" using last_in_set in_set_takeD by metis
  then have bound: "pred_option (\<lambda>k. k < ?c) after" by (simp add: matching_def)
  then have "pred_option (\<lambda>k. k < sequence f) after" if "?c < sequence f" for f
    using that by (cases after) auto
  then have "matching q (Some ?c) F = filter (\<lambda>f. ?c < sequence f) ?M"
    by (auto simp: matching_def intro!: filter_cong)
  also have "\<dots> = filter (\<lambda>f. ?c < sequence f) (take n ?M @ drop n ?M)" by simp
  also have "\<dots> = drop n ?M"
  proof -
    have split: "ascending (take n ?M)" "\<forall>f\<in>set (take n ?M). \<forall>g\<in>set (drop n ?M). sequence f < sequence g"
      using M ascending_append [of "take n ?M" "drop n ?M"] by simp_all
    have "filter (\<lambda>f. ?c < sequence f) (take n ?M) = []"
      using ascending_bounds(2) [OF split(1)] by (auto simp: filter_empty_conv not_less)
    moreover have "filter (\<lambda>f. ?c < sequence f) (drop n ?M) = drop n ?M"
      using split(2) last_in_set [OF ne] by (intro filter_True) blast
    ultimately show ?thesis by (simp only: filter_append append_Nil)
  qed
  finally show ?thesis .
qed

lemma follow_reference_pages:
  assumes F: "ascending F" and limit: "0 < query_limit q"
    and ask: "\<And>after. pred_option ((\<le>) 0) after \<Longrightarrow> ask after = Inr (reference_page (q\<lparr>after_sequence := after\<rparr>) F)"
    and pos: "\<And>f. f \<in> set F \<Longrightarrow> 0 \<le> sequence f"
  shows "pred_option ((\<le>) 0) after \<Longrightarrow> length (matching (query_filter q) after F) < m \<Longrightarrow>
    follow_pages m ask after = Some (Inr (matching (query_filter q) after F))"
proof (induction m arbitrary: after)
  case (Suc m)
  let ?n = "nat (query_limit q)" and ?M = "matching (query_filter q) after F"
  have page: "ask after = Inr \<lparr>page_session = flt_session (query_filter q), page_frames = take ?n ?M, has_more = ?n < length ?M,
      next_after_sequence = (if ?n < length ?M then Some (sequence (last (take ?n ?M))) else None)\<rparr>"
    using ask [OF Suc.prems(1)] by (simp add: reference_page_def Let_def)
  show ?case
  proof (cases "?n < length ?M")
    case True
    have n: "0 < ?n" using limit by simp
    note rest = matching_after_page [OF F n True]
    have "take ?n ?M \<noteq> []" using n True by auto
    then have "last (take ?n ?M) \<in> set (take ?n ?M)" by (rule last_in_set)
    then have "last (take ?n ?M) \<in> set F" by (auto simp: matching_def dest!: in_set_takeD)
    then have "0 \<le> sequence (last (take ?n ?M))" by (rule pos)
    moreover have "length (drop ?n ?M) < m" using Suc.prems(2) n True by simp
    ultimately have "follow_pages m ask (Some (sequence (last (take ?n ?M)))) = Some (Inr (drop ?n ?M))"
      using Suc.IH [of "Some (sequence (last (take ?n ?M)))"] rest by simp
    then show ?thesis using page True by simp
  qed (simp add: page)
qed simp

section \<open>Aggregates\<close>

definition summary_is :: "frame_filter \<Rightarrow> frame list \<Rightarrow> frame_query_summary \<Rightarrow> bool" where
  "summary_is f M r \<longleftrightarrow> sum_session r = flt_session f \<and> matching_frame_count r = int (length M) \<and>
     (if M = [] then sum_first_sequence r = None \<and> sum_last_sequence r = None \<and>
        sum_first_timestamp r = None \<and> sum_last_timestamp r = None
      else sum_first_sequence r = Some (sequence (hd M)) \<and> sum_last_sequence r = Some (sequence (last M)) \<and>
        pred_option (extreme num_less (map normalized_timestamp M)) (sum_first_timestamp r) \<and>
        pred_option (extreme (\<lambda>a b. num_less b a) (map normalized_timestamp M)) (sum_last_timestamp r))"

definition group_size :: "frame list \<Rightarrow> int \<Rightarrow> bool \<Rightarrow> int" where
  "group_size M i ext = int (length (filter (\<lambda>f. arbitration_id f = i \<and> is_extended f = ext) M))"

text \<open>
  The rows of a histogram are the sizes of different groups, the largest first, and at most
  so many; a group that is left out is not larger than any that is returned.
\<close>

definition histogram_is :: "frame list \<Rightarrow> int \<Rightarrow> arbitration_id_count list \<Rightarrow> bool" where
  "histogram_is M n cs \<longleftrightarrow> int (length cs) \<le> n \<and> distinct (map (\<lambda>c. (count_id c, count_extended c)) cs) \<and>
     list_all (\<lambda>c. 0 < count_frames c \<and> count_frames c = group_size M (count_id c) (count_extended c)) cs \<and>
     sorted_wrt (\<lambda>a b. count_frames b < count_frames a \<or> count_frames a = count_frames b \<and> count_id a \<le> count_id b) cs \<and>
     (\<forall>f\<in>set M. (arbitration_id f, is_extended f) \<in> set (map (\<lambda>c. (count_id c, count_extended c)) cs) \<or>
        int (length cs) = n \<and> list_all (\<lambda>c. group_size M (arbitration_id f) (is_extended f) \<le> count_frames c) cs)"

lemma extreme_first: "ascending M \<Longrightarrow> extreme (<) (map sequence M) s \<Longrightarrow> s = sequence (hd M)"
  by (cases M) (auto simp: extreme_def ascending_def)

lemma extreme_last: "ascending M \<Longrightarrow> extreme (>) (map sequence M) s \<Longrightarrow> s = sequence (last M)"
  by (cases M rule: rev_cases) (auto simp: extreme_def ascending_append)

lemma matching_file_frames: "list_all file_frame fs \<Longrightarrow> list_all file_frame (matching q after fs)"
  by (auto simp: matching_def list_all_iff)

lemma timestamp_key_row: "file_frame f \<Longrightarrow> FloatNum (timestamp_key (row_of f)) = normalized_timestamp f"
  by (auto simp: file_frame_def timestamp_key_def num_val_def)

lemma extreme_timestamps:
  assumes "list_all file_frame M"
  shows "extreme pf_less (map timestamp_key (map row_of M)) t \<Longrightarrow> extreme num_less (map normalized_timestamp M) (FloatNum t)"
    "extreme (\<lambda>a b. pf_less b a) (map timestamp_key (map row_of M)) t \<Longrightarrow>
      extreme (\<lambda>a b. num_less b a) (map normalized_timestamp M) (FloatNum t)"
proof -
  have eq: "map normalized_timestamp M = map FloatNum (map timestamp_key (map row_of M))"
    using assms by (auto simp: list_all_iff timestamp_key_row)
  show "extreme pf_less (map timestamp_key (map row_of M)) t \<Longrightarrow> extreme num_less (map normalized_timestamp M) (FloatNum t)"
    "extreme (\<lambda>a b. pf_less b a) (map timestamp_key (map row_of M)) t \<Longrightarrow>
      extreme (\<lambda>a b. num_less b a) (map normalized_timestamp M) (FloatNum t)"
    unfolding eq by (auto simp: extreme_def num_less_def num_float_def)
qed

lemma empty_summary_is: "is_uuid (flt_session f) \<Longrightarrow> \<exists>r. empty_summary (flt_session f) = Inr r \<and> summary_is f [] r"
  by (simp add: empty_summary_def frame_query_summary_post_init_def require_query_count_def summary_is_def)

lemma engine_summary:
  assumes db: "duckdb_answers db" and f: "valid_filter f"
    and files: "list_all (is_table fl) paths" "concat (map (rows_at fl) paths) = map row_of (map stored_frame gs)"
    and gs: "list_all valid_frame gs" "ascending gs" "paths = [] \<longleftrightarrow> gs = []"
  shows "case engine_summarize db fl paths f of
      Inl e \<Rightarrow> duck_raised db fl
    | Inr r \<Rightarrow> summary_is f (matching f None (map stored_frame gs)) r"
proof (cases "paths = []")
  case True
  have "is_uuid (flt_session f)" using f by (simp add: valid_filter_def)
  from empty_summary_is [OF this] True gs(3) show ?thesis by (auto simp: engine_summarize_def)
next
  case False
  let ?cs = "filter_clauses f" and ?st = "Summarize (filter_clauses f)" and ?M = "matching f None (map stored_frame gs)"
  have uuid: "is_uuid (flt_session f)" using f by (simp add: valid_filter_def)
  have stored: "list_all file_frame (map stored_frame gs)" using gs(1) by (simp add: list_all_iff file_frame_stored)
  note pred = frame_predicates_valid [OF f]
  have typed: "statement_typed ?st" using filter_clauses_typed [OF f] by (simp add: statement_typed_def)
  have sel: "selected ?cs (map row_of (map stored_frame gs)) = map row_of ?M"
    using selected_rows [OF f stored, of None] by simp
  have keys: "map sequence_key (map row_of ?M) = map sequence ?M" by simp
  have M: "ascending ?M" using gs(2) by (simp add: matching_def ascending_def sorted_wrt_filter sorted_wrt_map)
  show ?thesis
  proof (cases "db (statement_text ?st) (statement_parameters ?st) (path_list paths) fl")
    case (Inl e)
    from duck_raised_statement [where db = db and fl = fl and st = ?st, OF typed False files(1) Inl] show ?thesis
      using False Inl by (simp add: engine_summarize_def pred run_statement_def del: statement_text.simps statement_parameters.simps)
  next
    case (Inr out)
    have out: "if ?M = [] then out = [[VInt 0, VNone, VNone, VNone, VNone]]
      else \<exists>s0 s1 t0 t1. out = [[VInt (int (length ?M)), VInt s0, VInt s1, VFloat t0, VFloat t1]] \<and>
        extreme (<) (map sequence ?M) s0 \<and> extreme (>) (map sequence ?M) s1 \<and>
        extreme pf_less (map timestamp_key (map row_of ?M)) t0 \<and> extreme (\<lambda>a b. pf_less b a) (map timestamp_key (map row_of ?M)) t1"
      using duck_on_frames [where db = db and fl = fl and st = ?st, OF db typed files gs(1) Inr]
      by (simp only: answers.simps summary_answer_def sel Let_def keys length_map map_is_Nil_conv)
    show ?thesis
    proof (cases "?M = []")
      case True
      with out empty_summary_is [OF uuid] show ?thesis
        using False by (auto simp: engine_summarize_def pred run_statement_def Inr int_cell_def
            simp del: statement_text.simps statement_parameters.simps)
    next
      case ne: False
      with out obtain s0 s1 t0 t1 where o: "out = [[VInt (int (length ?M)), VInt s0, VInt s1, VFloat t0, VFloat t1]]"
        "extreme (<) (map sequence ?M) s0" "extreme (>) (map sequence ?M) s1"
        "extreme pf_less (map timestamp_key (map row_of ?M)) t0" "extreme (\<lambda>a b. pf_less b a) (map timestamp_key (map row_of ?M)) t1"
        by auto
      note t = extreme_timestamps [OF matching_file_frames [OF stored], of f None]
      have s: "s0 = sequence (hd ?M)" "s1 = sequence (last ?M)" using M o(2,3) extreme_first extreme_last by blast+
      have "s0 \<le> s1" using o(2,3) by (force simp: extreme_def)
      moreover have "\<not> num_less (FloatNum t1) (FloatNum t0)" using t(1) [OF o(4)] t(2) [OF o(5)] unfolding extreme_def by blast
      ultimately show ?thesis
        using False ne uuid s t(1) [OF o(4)] t(2) [OF o(5)]
        by (simp add: engine_summarize_def pred run_statement_def Inr o(1) int_cell_def float_cell_def
            frame_query_summary_post_init_def require_query_count_def in_order_def summary_is_def
            del: statement_text.simps statement_parameters.simps)
    qed
  qed
qed

definition frame_key :: "frame \<Rightarrow> pyval \<times> pyval" where
  "frame_key f = (VInt (arbitration_id f), VBool (is_extended f))"

lemma frame_key_eq [simp]:
  "frame_key f = frame_key g \<longleftrightarrow> arbitration_id f = arbitration_id g \<and> is_extended f = is_extended g"
  by (simp add: frame_key_def)

lemma group_key_row [simp]: "group_key (row_of f) = frame_key f"
  by (simp add: group_key_def frame_key_def)

text \<open>The count that a row of the histogram becomes.\<close>

definition count_of :: "frame list \<Rightarrow> pyval \<times> pyval \<Rightarrow> arbitration_id_count" where
  "count_of M k = \<lparr>count_id = int_of (fst k), count_extended = (snd k = VBool True),
     count_frames = group_size M (int_of (fst k)) (snd k = VBool True)\<rparr>"

lemma count_of_key [simp]:
  "count_of M (frame_key f) = \<lparr>count_id = arbitration_id f, count_extended = is_extended f,
     count_frames = group_size M (arbitration_id f) (is_extended f)\<rparr>"
  by (simp add: count_of_def frame_key_def int_of_def)

lemma count_row_key:
  "count_row (map row_of M) (frame_key f) =
     [VInt (arbitration_id f), VBool (is_extended f), VInt (group_size M (arbitration_id f) (is_extended f))]"
proof -
  have "filter (\<lambda>r. group_key r = frame_key f) (map row_of M) =
      map row_of (filter (\<lambda>g. arbitration_id g = arbitration_id f \<and> is_extended g = is_extended f) M)"
    by (simp add: filter_map comp_def)
  then show ?thesis by (simp add: count_row_def frame_key_def group_size_def)
qed

lemma group_size_pos: "f \<in> set M \<Longrightarrow> 0 < group_size M (arbitration_id f) (is_extended f)"
  by (auto simp: group_size_def filter_empty_conv)

lemma count_row_converts:
  assumes "f \<in> set M" "valid_frame f"
  shows "row_to_arbitration_count (count_row (map row_of M) (frame_key f)) = Inr (count_of M (frame_key f))"
proof -
  have "0 \<le> arbitration_id f" "arbitration_id f \<le> MAX_ARBITRATION_ID"
    using assms(2) by (auto simp: valid_frame_def MAX_ARBITRATION_ID_def split: if_splits)
  then show ?thesis
    using group_size_pos [OF assms(1)]
    by (simp add: row_to_arbitration_count_def count_row_key int_cell_def bool_cell_def invalid_rows_def
        arbitration_id_count_post_init_def)
qed

lemma histogram_of_rows:
  assumes ks: "distinct ks" "set ks = frame_key ` set M" "sorted_wrt count_before (map (count_row (map row_of M)) ks)"
    and M: "list_all valid_frame M" and n: "0 \<le> n"
  obtains cs where "rmap row_to_arbitration_count (take (nat n) (map (count_row (map row_of M)) ks)) = Inr cs" "histogram_is M n cs"
proof -
  let ?ks = "take (nat n) ks" and ?pair = "\<lambda>c. (count_id c, count_extended c)"
  have key: "\<exists>f\<in>set M. k = frame_key f" if "k \<in> set ks" for k using that ks(2) by auto
  have conv: "row_to_arbitration_count (count_row (map row_of M) k) = Inr (count_of M k)" if "k \<in> set ks" for k
    using key [OF that] M count_row_converts by (auto simp: list_all_iff)
  have rows: "rmap row_to_arbitration_count (take (nat n) (map (count_row (map row_of M)) ks)) = Inr (map (count_of M) ?ks)"
  proof -
    have "rmap row_to_arbitration_count (map (count_row (map row_of M)) xs) = Inr (map (count_of M) xs)" if "set xs \<subseteq> set ks" for xs
      using that conv by (induction xs) auto
    from this [of ?ks] show ?thesis by (simp add: take_map set_take_subset)
  qed
  have pair: "?pair (count_of M (frame_key f)) = (arbitration_id f, is_extended f)" for f by simp
  have inj: "inj_on (?pair \<circ> count_of M) (set ks)"
    unfolding ks(2) by (auto simp: inj_on_def)
  have dist: "distinct (map ?pair (map (count_of M) ?ks))"
    using ks(1) inj by (auto simp: distinct_map intro: inj_on_subset [OF _ set_take_subset])
  have before: "sorted_wrt (\<lambda>j k. count_before (count_row (map row_of M) j) (count_row (map row_of M) k)) ks"
    using ks(3) by (simp add: sorted_wrt_map)
  have order: "count_frames (count_of M k) < count_frames (count_of M j) \<or>
      count_frames (count_of M j) = count_frames (count_of M k) \<and> count_id (count_of M j) \<le> count_id (count_of M k)"
    if "count_before (count_row (map row_of M) j) (count_row (map row_of M) k)" "j \<in> set ks" "k \<in> set ks" for j k
    using that(1) key [OF that(2)] key [OF that(3)] by (auto simp: count_row_key count_before_def int_of_def)
  have sorted: "sorted_wrt (\<lambda>a b. count_frames b < count_frames a \<or> count_frames a = count_frames b \<and> count_id a \<le> count_id b)
      (map (count_of M) ?ks)"
    unfolding sorted_wrt_map
    by (rule sorted_wrt_mono_rel [OF _ sorted_wrt_take [OF before]]) (intro order; blast dest: in_set_takeD)
  have left: "?pair (count_of M (frame_key f)) \<in> set (map ?pair (map (count_of M) ?ks)) \<or>
      int (length ?ks) = n \<and> list_all (\<lambda>c. group_size M (arbitration_id f) (is_extended f) \<le> count_frames c) (map (count_of M) ?ks)"
    if "f \<in> set M" for f
  proof (cases "frame_key f \<in> set ?ks")
    case False
    have "frame_key f \<in> set ks" using that ks(2) by simp
    with False have drop: "frame_key f \<in> set (drop (nat n) ks)" by (metis append_take_drop_id Un_iff set_append)
    then have "nat n < length ks" by (cases "nat n < length ks") auto
    then have "int (length ?ks) = n" using n by simp
    moreover have "sorted_wrt (\<lambda>j k. count_before (count_row (map row_of M) j) (count_row (map row_of M) k)) (?ks @ drop (nat n) ks)"
      using before by simp
    then have "count_before (count_row (map row_of M) k) (count_row (map row_of M) (frame_key f))" if "k \<in> set ?ks" for k
      using that drop unfolding sorted_wrt_append by blast
    then have "group_size M (arbitration_id f) (is_extended f) \<le> count_frames (count_of M k)" if "k \<in> set ?ks" for k
      using order [of k "frame_key f"] that \<open>frame_key f \<in> set ks\<close> in_set_takeD [OF that] by fastforce
    ultimately show ?thesis by (simp add: list_all_iff)
  qed force
  have "histogram_is M n (map (count_of M) ?ks)"
    unfolding histogram_is_def
  proof (intro conjI dist sorted ballI)
    show "list_all (\<lambda>c. 0 < count_frames c \<and> count_frames c = group_size M (count_id c) (count_extended c)) (map (count_of M) ?ks)"
      using key group_size_pos by (fastforce simp: list_all_iff dest!: in_set_takeD)
  qed (use n left in auto)
  with rows that show ?thesis by blast
qed

lemma engine_histogram:
  assumes db: "duckdb_answers db" and f: "valid_filter f" and n: "0 \<le> n"
    and files: "list_all (is_table fl) paths" "concat (map (rows_at fl) paths) = map row_of (map stored_frame gs)"
    and gs: "list_all valid_frame gs" "paths = [] \<longleftrightarrow> gs = []"
  shows "case engine_count_ids db fl paths f n of
      Inl e \<Rightarrow> duck_raised db fl
    | Inr cs \<Rightarrow> histogram_is (matching f None (map stored_frame gs)) n cs"
proof (cases "paths = []")
  case True
  then show ?thesis using gs(2) n by (simp add: engine_count_ids_def histogram_is_def)
next
  case False
  let ?cs = "filter_clauses f" and ?st = "CountIds (filter_clauses f) n" and ?M = "matching f None (map stored_frame gs)"
  have stored: "list_all file_frame (map stored_frame gs)" using gs(1) by (simp add: list_all_iff file_frame_stored)
  note pred = frame_predicates_valid [OF f]
  have typed: "statement_typed ?st" using filter_clauses_typed [OF f] n by (simp add: statement_typed_def)
  have sel: "selected ?cs (map row_of (map stored_frame gs)) = map row_of ?M"
    using selected_rows [OF f stored, of None] by simp
  have M: "list_all valid_frame ?M" using matching_file_frames [OF stored, of f None] by (simp add: list_all_iff file_frame_def)
  show ?thesis
  proof (cases "db (statement_text ?st) (statement_parameters ?st) (path_list paths) fl")
    case (Inl e)
    from duck_raised_statement [where db = db and fl = fl and st = ?st, OF typed False files(1) Inl] show ?thesis
      using False Inl by (simp add: engine_count_ids_def pred run_statement_def del: statement_text.simps statement_parameters.simps)
  next
    case (Inr out)
    from duck_on_frames [where db = db and fl = fl and st = ?st, OF db typed files gs(1) Inr]
    obtain ks where ks: "distinct ks" "set ks = group_key ` set (map row_of ?M)"
      "sorted_wrt count_before (map (count_row (map row_of ?M)) ks)" "out = take (nat n) (map (count_row (map row_of ?M)) ks)"
      unfolding answers.simps count_answer_def sel Let_def by blast
    have "set ks = frame_key ` set ?M" using ks(2) by (simp add: image_image)
    from histogram_of_rows [OF ks(1) this ks(3) M n] obtain cs
      where "rmap row_to_arbitration_count out = Inr cs" "histogram_is ?M n cs" unfolding ks(4) by blast
    then show ?thesis using False by (simp add: engine_count_ids_def pred run_statement_def Inr del: statement_text.simps statement_parameters.simps)
  qed
qed

lemma aggregates_of_session:
  fixes s :: "'a store_scheme"
  assumes inv: "session_inv A p (base_dir s) (session_rows s) (segment_rows s) (files s) x" and A: "ascending A"
    and h: "host_open h = (\<lambda>_. None)" and db: "duckdb_answers db"
    and f: "valid_filter f" "flt_session f = ses_id x" and n: "0 < n" "n \<le> MAX_ARBITRATION_ID_TOP_N"
  defines "M \<equiv> matching f None (map stored_frame (take (nat (ses_frame_count x)) A))"
  shows "case fst (summarize_frames h db (Some f) s) of Inl e \<Rightarrow> duck_raised db (files s) | Inr r \<Rightarrow> summary_is f M r"
    "case fst (count_by_arbitration_id h db (Some f) (VInt n) s) of Inl e \<Rightarrow> duck_raised db (files s)
      | Inr cs \<Rightarrow> histogram_is M n cs"
proof -
  have none: "pred_option ((\<le>) 0) (None :: int option)" by simp
  obtain paths gs where b: "fst (bounded_query h f None (\<lambda>fl paths. engine_summarize db fl paths f) s) = engine_summarize db (files s) paths f"
    "list_all (is_table (files s)) paths" "concat (map (rows_at (files s)) paths) = map row_of (map stored_frame gs)"
    "list_all valid_frame gs" "ascending gs" "paths = [] \<longleftrightarrow> gs = []" "matching f None (map stored_frame gs) = M"
    unfolding M_def by (rule bounded_query_frames [OF inv A h f(2) none])
  from engine_summary [OF db f(1) b(2-6)] b(7)
  show "case fst (summarize_frames h db (Some f) s) of Inl e \<Rightarrow> duck_raised db (files s) | Inr r \<Rightarrow> summary_is f M r"
    by (simp add: summarize_frames_def b(1) split: sum.splits)
  obtain paths gs where b: "fst (bounded_query h f None (\<lambda>fl paths. engine_count_ids db fl paths f n) s) = engine_count_ids db (files s) paths f n"
    "list_all (is_table (files s)) paths" "concat (map (rows_at (files s)) paths) = map row_of (map stored_frame gs)"
    "list_all valid_frame gs" "ascending gs" "paths = [] \<longleftrightarrow> gs = []" "matching f None (map stored_frame gs) = M"
    unfolding M_def by (rule bounded_query_frames [OF inv A h f(2) none])
  from engine_histogram [OF db f(1) _ b(2-4,6), of n] n b(7)
  show "case fst (count_by_arbitration_id h db (Some f) (VInt n) s) of Inl e \<Rightarrow> duck_raised db (files s)
      | Inr cs \<Rightarrow> histogram_is M n cs"
    by (simp add: count_by_arbitration_id_def require_top_n_def b(1) exec_apply ebind_apply split: sum.splits)
qed

section \<open>Statements\<close>

text \<open>The shape of a statement: its clauses with every value replaced by a fixed one.\<close>

fun clause_shape :: "clause \<Rightarrow> clause" where
  "clause_shape (SequenceFrom _) = SequenceFrom 0"
| "clause_shape (SequenceTo _) = SequenceTo 0"
| "clause_shape (SequenceAfter _) = SequenceAfter 0"
| "clause_shape (TimestampFrom _) = TimestampFrom NaN"
| "clause_shape (TimestampTo _) = TimestampTo NaN"
| "clause_shape (ChannelIn cs) = ChannelIn (map (\<lambda>_. []) cs)"
| "clause_shape (ArbitrationIn is) = ArbitrationIn (map (\<lambda>_. 0) is)"
| "clause_shape (ArbitrationFrom _) = ArbitrationFrom 0"
| "clause_shape (ArbitrationTo _) = ArbitrationTo 0"
| "clause_shape (ArbitrationMasked _ _) = ArbitrationMasked 0 0"
| "clause_shape (DirectionIn ds) = DirectionIn (map (\<lambda>_. []) ds)"
| "clause_shape (ExtendedIs _) = ExtendedIs False"
| "clause_shape (FdIs _) = FdIs False"

fun statement_shape :: "statement \<Rightarrow> statement" where
  "statement_shape (SelectFrames cs _) = SelectFrames (map clause_shape cs) 0"
| "statement_shape (Summarize cs) = Summarize (map clause_shape cs)"
| "statement_shape (CountIds cs _) = CountIds (map clause_shape cs) 0"

lemma clause_text_shape: "clause_text (clause_shape c) = clause_text c"
  by (cases c) simp_all

lemma statement_text_shape: "statement_text (statement_shape st) = statement_text st"
  by (cases st) (simp_all add: where_text_def comp_def clause_text_shape)

definition marks :: "string \<Rightarrow> nat" where
  "marks s = count_list s CHR ''?''"

lemma marks_simps [simp]:
  "marks [] = 0" "marks (c # s) = (if c = CHR ''?'' then Suc (marks s) else marks s)" "marks (s @ t) = marks s + marks t"
  by (simp_all add: marks_def)

lemma marks_joined: "marks sep = 0 \<Longrightarrow> marks (joined sep xs) = sum_list (map marks xs)"
  by (induction sep xs rule: joined.induct) simp_all

lemma marks_placeholders [simp]: "marks (placeholders n) = n"
  by (simp add: placeholders_def marks_joined sum_list_replicate)

lemma marks_clause [simp]: "marks (clause_text c) = length (clause_parameters c)"
  by (cases c) simp_all

lemma marks_where [simp]: "marks (where_text cs) = length (concat (map clause_parameters cs))"
  by (simp add: where_text_def marks_joined comp_def length_concat)

lemma marks_statement: "marks (statement_text st) = Suc (length (statement_parameters st))"
proof -
  have "marks (joined '', '' SELECTED_COLUMNS) = 0" by (simp add: SELECTED_COLUMNS_def)
  then show ?thesis by (cases st) simp_all
qed

section \<open>A tie of the histogram\<close>

text \<open>
  A standard and an extended frame may have one identifier. With equal counts nothing orders
  them: of the two groups a histogram of one row may show either.
\<close>

definition tied_rows :: "pyval list list" where
  "tied_rows = [row_of (sample_frame 0), row_of ((sample_frame 1)\<lparr>is_extended := True\<rparr>)]"

lemma histogram_tie_is_open:
  "count_answer [] 1 tied_rows [[VInt 0x123, VBool False, VInt 1]]"
  "count_answer [] 1 tied_rows [[VInt 0x123, VBool True, VInt 1]]"
proof -
  let ?a = "(VInt 0x123, VBool False)" and ?b = "(VInt 0x123, VBool True)"
  have sel: "selected [] tied_rows = tied_rows" by (simp add: selected_def)
  have keys: "group_key ` set tied_rows = {?a, ?b}"
    by (auto simp: tied_rows_def frame_key_def sample_frame_def)
  have one: "count_row tied_rows ?a = [VInt 0x123, VBool False, VInt 1]" "count_row tied_rows ?b = [VInt 0x123, VBool True, VInt 1]"
    by (simp_all add: count_row_def tied_rows_def frame_key_def sample_frame_def)
  show "count_answer [] 1 tied_rows [[VInt 0x123, VBool False, VInt 1]]"
    unfolding count_answer_def sel Let_def keys by (rule exI [of _ "[?a, ?b]"]) (auto simp: one count_before_def int_of_def)
  show "count_answer [] 1 tied_rows [[VInt 0x123, VBool True, VInt 1]]"
    unfolding count_answer_def sel Let_def keys by (rule exI [of _ "[?b, ?a]"]) (auto simp: one count_before_def int_of_def)
qed

section \<open>A demonstration\<close>

definition demo_filter :: frame_filter where
  "demo_filter = \<lparr>flt_session = uuid_text 3, sequence_start = None, sequence_end = None, timestamp_start = None,
     timestamp_end = None, channel_ids = None, arbitration_ids = None, directions = None, flt_is_extended = None,
     flt_is_fd = None, id_start = None, id_end = None, id_mask = None, id_mask_value = None\<rparr>"

definition demo_query :: frame_query where
  "demo_query = \<lparr>query_filter = demo_filter, after_sequence = None, query_limit = 2\<rparr>"

lemma demo_filter_valid: "valid_filter demo_filter"
  by (simp add: valid_filter_def demo_filter_def demo_uuid in_order_def valid_members_def)

lemma demo_matching: "matching demo_filter None fs = fs"
  by (simp add: matching_def frame_matches_def demo_filter_def)

lemma demo_calls_valid: "list_all call_valid [Append (demo_batch 0), Finalize]"
  using demo_calls by (simp add: call_valid_def call_ok_def valid_batch_def demo_batch_def demo_stream sample_frame_def)

lemma demo_committed_frames: "map stored_frame (take (nat 3) demo_fs) = map stored_frame demo_fs" "length demo_fs = 3"
  by (simp_all add: demo_fs_def demo_batch_def)

lemma reference_duck_raises: "\<not> duck_raised reference_duck fl"
  by (auto simp: duck_raised_def reference_duck_def Let_def split: option.splits)

section \<open>Properties\<close>

text \<open>
  C33: a page is the next part of what was committed. After any run of a session's writer a
  valid request is answered with exactly the first matching frames behind the cursor, taken
  from all the frames the session has committed, at most as many as asked for; more frames
  are announced, with the last sequence as the cursor, exactly when there are any. The
  segments that planning left out made no difference. An error means that DuckDB raised on a
  well-formed statement over files that are there.
\<close>

theorem page_is_the_next_matches:
  assumes "arrow_keeps (host_arrow h)" "ready_store s0" "start h stream s0 = (Inr (), s1)" "list_all call_valid calls"
    and "t = run_calls (session_step h) calls s1" "host_open reader = (\<lambda>_. None)" "duckdb_answers db"
    and "valid_filter (query_filter q)" "flt_session (query_filter q) = ses_id (w_session t)"
    and "pred_option ((\<le>) 0) (after_sequence q)" "0 < query_limit q"
  shows "case fst (query_frames reader db (Some q) t) of Inl _ \<Rightarrow> duck_raised db (files t)
    | Inr page \<Rightarrow> page = reference_page q (map stored_frame (take (nat (ses_frame_count (w_session t))) (appended_frames t)))"
proof -
  have "list_all call_ok calls" using assms(4) by (auto simp: list_all_iff call_valid_def)
  from started_run_inv [OF assms(1-3) this] have "traced_inv t" using assms(5) by simp
  moreover have "ascending (appended_frames t)" using run_ascending [OF assms(2-4)] assms(5) by simp
  ultimately show ?thesis
    unfolding traced_inv_def using query_frames_page [OF _ _ assms(6-11)] by blast
qed

theorem page_is_the_next_matches_witness:
  "fst (query_frames demo_host reference_duck (Some demo_query) (run_calls (session_step demo_host) [Append (demo_batch 0), Finalize] demo_started))
    = Inr (reference_page demo_query (map stored_frame demo_fs))"
proof -
  obtain k where k: "run_calls (session_step demo_host) [Append (demo_batch 0), Finalize] demo_started = demo_final k"
    using demo_whole_run by blast
  have q: "valid_filter (query_filter demo_query)" "flt_session (query_filter demo_query) = ses_id (w_session (demo_final k))"
    "pred_option ((\<le>) 0) (after_sequence demo_query)" "0 < query_limit demo_query"
    by (simp_all add: demo_query_def demo_filter_valid) (simp add: demo_filter_def demo_final_fields demo_completed_fields)
  from page_is_the_next_matches [OF demo_run demo_calls_valid k [symmetric] demo_reader reference_duck_answers q]
  show ?thesis
    by (simp only: k demo_final_fields demo_completed_fields demo_committed_frames) (simp add: reference_duck_raises split: sum.splits)
qed

text \<open>
  C34: following the cursor visits every match once. While DuckDB refuses no well-formed
  statement, a client that asks for page after page, each time with the cursor of the page before, ends after at most one
  page more than there are matches, and has then got exactly the matching committed frames,
  in their order, whatever the page size.
\<close>

theorem following_the_cursor_visits_every_match:
  assumes "arrow_keeps (host_arrow h)" "ready_store s0" "start h stream s0 = (Inr (), s1)" "list_all call_valid calls"
    and "t = run_calls (session_step h) calls s1" "host_open reader = (\<lambda>_. None)" "duckdb_answers db"
    and "\<not> duck_raised db (files t)"
    and "valid_filter f" "flt_session f = ses_id (w_session t)" "0 < limit"
    and "M = matching f None (map stored_frame (take (nat (ses_frame_count (w_session t))) (appended_frames t)))"
  shows "follow_pages (Suc (length M)) (\<lambda>after. fst (query_frames reader db
      (Some \<lparr>query_filter = f, after_sequence = after, query_limit = limit\<rparr>) t)) None = Some (Inr M)"
proof -
  let ?q = "\<lparr>query_filter = f, after_sequence = None, query_limit = limit\<rparr>"
  let ?F = "map stored_frame (take (nat (ses_frame_count (w_session t))) (appended_frames t))"
  have "list_all call_ok calls" using assms(4) by (auto simp: list_all_iff call_valid_def)
  from started_run_inv [OF assms(1-3) this] have "traced_inv t" using assms(5) by simp
  then have inv: "winv (appended_frames t) (w_buffer t) t" by (simp add: traced_inv_def)
  have up: "ascending (appended_frames t)" using run_ascending [OF assms(2-4)] assms(5) by simp
  then have "ascending (take n (appended_frames t))" for n
    by (metis append_take_drop_id ascending_append)
  then have F: "ascending ?F" by simp
  have pos: "0 \<le> sequence g" if "g \<in> set ?F" for g
    using that inv by (auto simp: session_inv_def list_all_iff frame_ok_def valid_frame_def dest!: in_set_takeD)
  have ask: "fst (query_frames reader db (Some (?q\<lparr>after_sequence := after\<rparr>)) t) = Inr (reference_page (?q\<lparr>after_sequence := after\<rparr>) ?F)"
    if "pred_option ((\<le>) 0) after" for after
    using query_frames_page [OF inv up assms(6,7), of "?q\<lparr>after_sequence := after\<rparr>"] that assms(8-11)
    by (auto split: sum.splits)
  have "follow_pages (Suc (length M)) (\<lambda>after. fst (query_frames reader db (Some (?q\<lparr>after_sequence := after\<rparr>)) t)) None
      = Some (Inr (matching (query_filter ?q) None ?F))"
    by (rule follow_reference_pages [OF F _ ask pos]) (use assms(11,12) in simp_all)
  then show ?thesis using assms(12) by simp
qed

theorem following_the_cursor_visits_every_match_witness:
  "follow_pages 4 (\<lambda>after. fst (query_frames demo_host reference_duck
      (Some \<lparr>query_filter = demo_filter, after_sequence = after, query_limit = 2\<rparr>)
      (run_calls (session_step demo_host) [Append (demo_batch 0), Finalize] demo_started))) None
    = Some (Inr (map stored_frame demo_fs))"
proof -
  obtain k where k: "run_calls (session_step demo_host) [Append (demo_batch 0), Finalize] demo_started = demo_final k"
    using demo_whole_run by blast
  have f: "flt_session demo_filter = ses_id (w_session (demo_final k))"
    by (simp add: demo_filter_def demo_final_fields demo_completed_fields)
  from following_the_cursor_visits_every_match [OF demo_run demo_calls_valid k [symmetric] demo_reader reference_duck_answers
      reference_duck_raises demo_filter_valid f, of 2, OF _ refl]
  show ?thesis
    by (simp only: k demo_final_fields demo_completed_fields demo_matching demo_committed_frames length_map) (simp add: numeral_eq_Suc)
qed

text \<open>
  C35: the aggregates are those of the matches. The summary of a valid filter counts the
  matching committed frames and gives the sequences of the first and the last and the least
  and greatest time stamps, or no bounds if nothing matches. The histogram gives the sizes of
  the groups of equal identifier and format, the largest first and at most as many as asked
  for, and leaves out only groups that are no larger than those it gives.
\<close>

theorem aggregates_are_those_of_the_matches:
  assumes "arrow_keeps (host_arrow h)" "ready_store s0" "start h stream s0 = (Inr (), s1)" "list_all call_valid calls"
    and "t = run_calls (session_step h) calls s1" "host_open reader = (\<lambda>_. None)" "duckdb_answers db"
    and "valid_filter f" "flt_session f = ses_id (w_session t)" "0 < n" "n \<le> MAX_ARBITRATION_ID_TOP_N"
    and "M = matching f None (map stored_frame (take (nat (ses_frame_count (w_session t))) (appended_frames t)))"
  shows "(case fst (summarize_frames reader db (Some f) t) of Inl _ \<Rightarrow> duck_raised db (files t)
      | Inr r \<Rightarrow> summary_is f M r) \<and>
    (case fst (count_by_arbitration_id reader db (Some f) (VInt n) t) of Inl _ \<Rightarrow> duck_raised db (files t)
      | Inr cs \<Rightarrow> histogram_is M n cs)"
proof -
  have "list_all call_ok calls" using assms(4) by (auto simp: list_all_iff call_valid_def)
  from started_run_inv [OF assms(1-3) this] have "writer_inv (appended_frames t) t" using assms(5) by (simp add: traced_inv_def)
  moreover have "ascending (appended_frames t)" using run_ascending [OF assms(2-4)] assms(5) by simp
  ultimately show ?thesis
    unfolding assms(12) using aggregates_of_session [OF _ _ assms(6-11)] by blast
qed

theorem aggregates_are_those_of_the_matches_witness:
  "case fst (summarize_frames demo_host reference_duck (Some demo_filter)
      (run_calls (session_step demo_host) [Append (demo_batch 0), Finalize] demo_started)) of
    Inl _ \<Rightarrow> False | Inr r \<Rightarrow> matching_frame_count r = 3 \<and> sum_last_sequence r = Some 2"
proof -
  obtain k where k: "run_calls (session_step demo_host) [Append (demo_batch 0), Finalize] demo_started = demo_final k"
    using demo_whole_run by blast
  have f: "flt_session demo_filter = ses_id (w_session (demo_final k))"
    by (simp add: demo_filter_def demo_final_fields demo_completed_fields)
  have n: "0 < (1 :: int)" "1 \<le> MAX_ARBITRATION_ID_TOP_N" by (simp_all add: MAX_ARBITRATION_ID_TOP_N_def)
  have ends: "map stored_frame demo_fs \<noteq> []" "sequence (last (map stored_frame demo_fs)) = 2"
    by (simp_all add: demo_fs_def demo_batch_def sample_frame_def)
  from aggregates_are_those_of_the_matches [OF demo_run demo_calls_valid k [symmetric] demo_reader reference_duck_answers
      demo_filter_valid f n refl, THEN conjunct1]
  have "case fst (summarize_frames demo_host reference_duck (Some demo_filter) (demo_final k)) of
      Inl _ \<Rightarrow> False | Inr r \<Rightarrow> summary_is demo_filter (map stored_frame demo_fs) r"
    by (simp only: k demo_final_fields demo_completed_fields demo_matching demo_committed_frames)
      (simp add: reference_duck_raises split: sum.splits)
  then show ?thesis
    unfolding k using ends demo_committed_frames(2) by (auto simp: summary_is_def simp del: map_is_Nil_conv split: sum.splits)
qed

text \<open>
  No text of a caller becomes part of a statement. The text depends on which clauses there
  are and on how many values they list, never on the values, and it has one placeholder for
  every value bound to it, the list of paths included.
\<close>

theorem statements_carry_no_caller_text:
  "statement_text st = statement_text (statement_shape st) \<and>
   marks (statement_text st) = Suc (length (statement_parameters st))"
  by (simp add: statement_text_shape marks_statement)

end
