(* ===== verification/Msgpack_Recorder.thy ===== *)
theory Msgpack_Recorder
  imports Transport "HOL-Library.Sublist"
begin

text \<open>
  The append-only recorder of batches in one file and the reader of its recordings
  (\<open>recorder/msgpack_recorder.py\<close>). The file is the bytes that were written to it; when the
  operating system refuses, how much of a write it had taken is the host's choice. The package
  \<open>msgpack\<close> is the same pair of parameters as in the transport.
\<close>

section \<open>The recorder's states\<close>

datatype recorder_state = REC_IDLE | REC_RECORDING | REC_STOPPED | REC_FAILED

text \<open>The messages and contexts of a failure are left out.\<close>

record recorder_failure =
  failure_code :: string
  failure_recoverable :: bool

section \<open>The file format\<close>

type_synonym byte_string = "8 word list"

definition MAGIC :: byte_string where
  "MAGIC = map (\<lambda>c. word_of_nat (of_char c)) ''CANXMSG1''"

text \<open>\<open>struct\<close>: a 32 bit integer, big endian.\<close>

definition pack_length :: "nat \<Rightarrow> exn + byte_string" where
  "pack_length n =
     (if n < 2 ^ 32 then Inr (map (\<lambda>k. word_of_nat (n div 256 ^ k mod 256)) [3, 2, 1, 0]) else Inl (Foreign ''struct.error''))"

definition unpack_length :: "byte_string \<Rightarrow> nat" where
  "unpack_length bs = foldl (\<lambda>n b. n * 256 + unat b) 0 bs"

definition chunk_of :: "(pyval \<Rightarrow> exn + byte_string) \<Rightarrow> frame_batch \<Rightarrow> exn + byte_string" where
  "chunk_of pack b = rbind (encode_batch pack b) (\<lambda>payload. rbind (pack_length (length payload)) (\<lambda>p. Inr (p @ payload)))"

function read_chunks :: "(byte_string \<Rightarrow> exn + pyval) \<Rightarrow> byte_string \<Rightarrow> exn + frame_batch list" where
  "read_chunks unpack bs =
     (if bs = [] then Inr []
      else if length bs < 4 then Inl value_error
      else let payload = take (unpack_length (take 4 bs)) (drop 4 bs) in
        if length payload \<noteq> unpack_length (take 4 bs) then Inl value_error
        else rbind (decode_batch unpack payload) (\<lambda>b.
          rbind (read_chunks unpack (drop (4 + unpack_length (take 4 bs)) bs)) (\<lambda>rest. Inr (b # rest))))"
  by auto
termination
  by (relation "measure (\<lambda>(u, bs). length bs)") auto

declare read_chunks.simps [simp del]

definition read_recording :: "(byte_string \<Rightarrow> exn + pyval) \<Rightarrow> byte_string \<Rightarrow> exn + frame_batch list" where
  "read_recording unpack bs =
     (if take (length MAGIC) bs \<noteq> MAGIC then Inl value_error else read_chunks unpack (drop (length MAGIC) bs))"

section \<open>The recorder\<close>

text \<open>
  The task that writes a chunk: its bytes, its batch, and the result once its thread has run.
  The ghost \<open>stored\<close> holds the batches whose chunks were written whole.
\<close>

record write_task =
  task_chunk :: byte_string
  task_batch :: frame_batch
  task_result :: "(exn + unit) option"

record file_recorder =
  mp_state :: recorder_state
  mp_recorded_frames :: int
  mp_failure :: "recorder_failure option"
  mp_stream_id :: "pystr option"
  mp_open :: bool
  mp_task :: "write_task option"
  mp_file :: "byte_string option"
  mp_stored :: "frame_batch list"

definition new_file_recorder :: file_recorder where
  "new_file_recorder = \<lparr>mp_state = REC_IDLE, mp_recorded_frames = 0, mp_failure = None, mp_stream_id = None, mp_open = False,
     mp_task = None, mp_file = None, mp_stored = []\<rparr>"

definition mp_fail :: "string \<Rightarrow> file_recorder \<Rightarrow> file_recorder" where
  "mp_fail c r = r\<lparr>mp_failure := (case mp_failure r of None \<Rightarrow> Some \<lparr>failure_code = c, failure_recoverable = False\<rparr> | Some f \<Rightarrow> Some f),
     mp_state := REC_FAILED\<rparr>"

definition mp_reset_session :: "file_recorder \<Rightarrow> exn + file_recorder" where
  "mp_reset_session r =
     (if mp_state r = REC_RECORDING then Inl (Foreign ''RuntimeError'')
      else Inr (r\<lparr>mp_state := REC_IDLE, mp_recorded_frames := 0, mp_failure := None, mp_stream_id := None\<rparr>))"

text \<open>
  What the operating system takes of a write: all of it, or so many bytes before it raises; and
  whether the exclusive opening, the flush and the closing succeed.
\<close>

record file_host =
  host_create :: bool
  host_magic :: "nat option"
  host_flush :: "nat option"
  host_close :: "nat option"

abbreviation file_error :: exn where
  "file_error \<equiv> Foreign ''OSError''"

definition mp_start :: "file_host \<Rightarrow> pystr \<Rightarrow> file_recorder \<Rightarrow> (exn + unit) \<times> file_recorder" where
  "mp_start h stream r =
     (if mp_state r = REC_RECORDING then (Inl (Foreign ''RuntimeError''), r)
      else if \<not> host_create h \<or> mp_file r \<noteq> None then (Inl file_error, mp_fail ''recorder.open_failed'' r)
      else case host_magic h of
        Some n \<Rightarrow> (Inl file_error, (mp_fail ''recorder.open_failed'' r)\<lparr>mp_file := Some (take n MAGIC)\<rparr>)
      | None \<Rightarrow> (Inr (), r\<lparr>mp_file := Some MAGIC, mp_open := True, mp_stream_id := Some stream, mp_recorded_frames := 0,
          mp_failure := None, mp_state := REC_RECORDING\<rparr>))"

text \<open>\<open>append\<close> up to its await, its thread, and what follows the await.\<close>

definition mp_append :: "(pyval \<Rightarrow> exn + byte_string) \<Rightarrow> frame_batch \<Rightarrow> file_recorder \<Rightarrow> (exn + unit) \<times> file_recorder" where
  "mp_append pack b r =
     (if \<not> mp_open r \<or> mp_state r \<noteq> REC_RECORDING then (Inl (Foreign ''RuntimeError''), r)
      else if Some (stream_id b) \<noteq> mp_stream_id r then (Inl value_error, r)
      else case chunk_of pack b of
        Inl e \<Rightarrow> (Inl e, r)
      | Inr c \<Rightarrow> (Inr (), r\<lparr>mp_task := Some \<lparr>task_chunk = c, task_batch = b, task_result = None\<rparr>\<rparr>))"

definition mp_write_chunk :: "nat option \<Rightarrow> file_recorder \<Rightarrow> file_recorder" where
  "mp_write_chunk taken r =
     (case (mp_task r, mp_file r) of
        (Some t, Some bytes) \<Rightarrow>
          (if task_result t \<noteq> None then r
           else case taken of
             None \<Rightarrow> r\<lparr>mp_file := Some (bytes @ task_chunk t), mp_task := Some (t\<lparr>task_result := Some (Inr ())\<rparr>),
               mp_stored := mp_stored r @ [task_batch t]\<rparr>
           | Some n \<Rightarrow> (mp_fail ''recorder.write_failed'' r)\<lparr>mp_file := Some (bytes @ take n (task_chunk t)),
               mp_task := Some (t\<lparr>task_result := Some (Inl file_error)\<rparr>)\<rparr>)
      | _ \<Rightarrow> r)"

definition mp_append_ends :: "file_recorder \<Rightarrow> (exn + unit) \<times> file_recorder" where
  "mp_append_ends r =
     (case mp_task r of
        None \<Rightarrow> (Inr (), r)
      | Some t \<Rightarrow> (case task_result t of
            None \<Rightarrow> (Inr (), r)
          | Some (Inl e) \<Rightarrow> (Inl e, r\<lparr>mp_task := None\<rparr>)
          | Some (Inr _) \<Rightarrow> (Inr (), r\<lparr>mp_task := None, mp_recorded_frames := mp_recorded_frames r + frame_count (task_batch t)\<rparr>)))"

text \<open>A cancelled \<open>append\<close> forgets a task that is done; one that is not is left for \<open>stop\<close> to join.\<close>

definition mp_append_cancelled :: "file_recorder \<Rightarrow> file_recorder" where
  "mp_append_cancelled r =
     (case mp_task r of
        None \<Rightarrow> r
      | Some t \<Rightarrow> if task_result t = None then r else r\<lparr>mp_task := None\<rparr>)"

text \<open>
  \<open>stop\<close>: the task is joined, with the thread taking what \<open>taken\<close> says; a flush or a close that
  fails loses what was still buffered, and is raised after the handle is gone.
\<close>

definition mp_stop :: "file_host \<Rightarrow> nat option \<Rightarrow> file_recorder \<Rightarrow> (exn + unit) \<times> file_recorder" where
  "mp_stop h taken r =
     (if \<not> mp_open r then (Inr (), r)
      else let joined = (mp_write_chunk taken r)\<lparr>mp_task := None\<rparr>;
               was_failed = mp_state joined = REC_FAILED;
               fault = (\<lambda>n s. (mp_fail ''recorder.flush_failed'' s)\<lparr>mp_file := map_option (take n) (mp_file s)\<rparr>);
               flushed = (case host_flush h of None \<Rightarrow> joined | Some n \<Rightarrow> fault n joined);
               closed = (case host_close h of None \<Rightarrow> flushed | Some n \<Rightarrow> fault n flushed)\<lparr>mp_open := False\<rparr>
        in if host_flush h \<noteq> None \<or> host_close h \<noteq> None then (Inl file_error, closed)
           else (Inr (), closed\<lparr>mp_state := if was_failed then REC_FAILED else REC_STOPPED\<rparr>))"

section \<open>Reading back\<close>

lemma unpack_pack_length:
  assumes "pack_length n = Inr p"
  shows "length p = 4" "unpack_length p = n" "n < 2 ^ 32"
proof -
  have p: "p = map (\<lambda>k. word_of_nat (n div 256 ^ k mod 256)) [3, 2, 1, 0]" and n: "n < 2 ^ 32"
    using assms by (simp_all add: pack_length_def split: if_splits)
  then show "length p = 4" "n < 2 ^ 32" by simp_all
  have byte: "unat (word_of_nat (k mod 256) :: 8 word) = k mod 256" for k
    by (simp add: unat_of_nat)
  have "n div 16777216 < 256" using n by (simp add: less_mult_imp_div_less)
  then have m: "n div 16777216 mod 256 = n div 16777216" by (rule mod_less)
  have 1: "unat (word_of_nat (n div 16777216) :: 8 word) = n div 16777216" using byte [of "n div 16777216"] unfolding m .
  have 2: "n div 65536 = 256 * (n div 16777216) + n div 65536 mod 256"
    using mult_div_mod_eq [of 256 "n div 65536"] by (simp add: div_mult2_eq [symmetric])
  have 3: "n div 256 = 256 * (n div 65536) + n div 256 mod 256"
    using mult_div_mod_eq [of 256 "n div 256"] by (simp add: div_mult2_eq [symmetric])
  have 4: "n = 256 * (n div 256) + n mod 256" by simp
  have "unpack_length p = ((n div 16777216 * 256 + n div 65536 mod 256) * 256 + n div 256 mod 256) * 256 + n mod 256"
    unfolding p unpack_length_def by (simp add: byte 1 m)
  also have "n div 16777216 * 256 + n div 65536 mod 256 = n div 65536" using 2 by (simp add: mult.commute)
  also have "n div 65536 * 256 + n div 256 mod 256 = n div 256" using 3 by (simp add: mult.commute)
  also have "n div 256 * 256 + n mod 256 = n" using 4 by (simp add: mult.commute)
  finally show "unpack_length p = n" .
qed

text \<open>
  What the codec relies on, for one well-formed batch: if it has a payload at all, the payload
  unpacks again. A batch with an integer hardware time stamp has one, but does not decode.
\<close>

definition recordable :: "(pyval \<Rightarrow> exn + byte_string) \<Rightarrow> (byte_string \<Rightarrow> exn + pyval) \<Rightarrow> frame_batch \<Rightarrow> bool" where
  "recordable pack unpack b \<longleftrightarrow>
     (case encode_batch pack b of Inl _ \<Rightarrow> True | Inr w \<Rightarrow> unpack w = Inr (batch_payload b)) \<and>
     valid_batch b \<and> list_all valid_frame (frames b)"

definition decodable :: "frame_batch \<Rightarrow> bool" where
  "decodable b \<longleftrightarrow> list_all hardware_float (frames b)"

lemma recordable_chunk:
  assumes "recordable pack unpack b" "chunk_of pack b = Inr c"
  obtains p w where "c = p @ w" "length p = 4" "unpack_length p = length w"
    "decode_batch unpack w = (if decodable b then Inr (floated_batch b) else Inl value_error)"
proof -
  from assms obtain w p where w: "encode_batch pack b = Inr w" "unpack w = Inr (batch_payload b)" and p: "pack_length (length w) = Inr p" "c = p @ w"
    by (auto simp: recordable_def chunk_of_def rbind_Inr_iff split: sum.splits)
  from unpack_pack_length [OF p(1)] that [OF p(2)] w assms(1) show ?thesis
    by (simp add: decode_batch_def decode_batch_payload recordable_def decodable_def)
qed

lemma read_chunk:
  assumes "recordable pack unpack b" "chunk_of pack b = Inr c"
  shows "read_chunks unpack (c @ rest) =
    (if decodable b then rbind (read_chunks unpack rest) (\<lambda>bs. Inr (floated_batch b # bs)) else Inl value_error)"
proof -
  obtain p w where c: "c = p @ w" "length p = 4" "unpack_length p = length w"
    "decode_batch unpack w = (if decodable b then Inr (floated_batch b) else Inl value_error)"
    by (rule recordable_chunk [OF assms])
  then show ?thesis by (subst read_chunks.simps) (auto simp: Let_def)
qed

lemma read_short_chunk:
  assumes "recordable pack unpack b" "chunk_of pack b = Inr c" "0 < n" "n < length c"
  shows "read_chunks unpack (take n c) = Inl value_error"
proof -
  obtain p w where c: "c = p @ w" "length p = 4" "unpack_length p = length w" by (rule recordable_chunk [OF assms(1,2)])
  with assms(3,4) show ?thesis
    by (subst read_chunks.simps) (auto simp: Let_def min_def)
qed

lemma read_all_chunks:
  assumes "list_all2 (\<lambda>b c. chunk_of pack b = Inr c) bs cs" "list_all (recordable pack unpack) bs"
  shows "read_chunks unpack (concat cs) = (if list_all decodable bs then Inr (map floated_batch bs) else Inl value_error)"
  using assms
proof (induction rule: list_all2_induct)
  case Nil
  then show ?case by (simp add: read_chunks.simps)
next
  case (Cons b bs c cs)
  then show ?case using read_chunk [of pack unpack b c "concat cs"] by simp
qed

lemma read_truncated_chunks:
  assumes "list_all2 (\<lambda>b c. chunk_of pack b = Inr c) bs cs" "list_all (recordable pack unpack) bs"
  shows "case read_chunks unpack (take n (concat cs)) of Inl e \<Rightarrow> e = value_error | Inr xs \<Rightarrow> prefix xs (map floated_batch bs)"
  using assms
proof (induction arbitrary: n rule: list_all2_induct)
  case Nil
  then show ?case by (simp add: read_chunks.simps)
next
  case (Cons b bs c cs)
  consider "n = 0" | "0 < n" "n < length c" | "length c \<le> n" by linarith
  then show ?case
  proof cases
    case 1
    then show ?thesis by (simp add: read_chunks.simps)
  next
    case 2
    then show ?thesis using read_short_chunk [of pack unpack b c n] Cons by simp
  next
    case 3
    then have "take n (concat (c # cs)) = c @ take (n - length c) (concat cs)" by simp
    with Cons.IH [of "n - length c"] Cons.prems Cons.hyps(1) read_chunk [of pack unpack b c "take (n - length c) (concat cs)"]
    show ?thesis by (auto split: sum.splits)
  qed
qed

section \<open>Runs\<close>

datatype file_event = MP_Append frame_batch | MP_Write "nat option" | MP_End | MP_Cancel | MP_Fail string

text \<open>The archive's consumer awaits one append after the other.\<close>

fun mp_step :: "(pyval \<Rightarrow> exn + byte_string) \<Rightarrow> file_event \<Rightarrow> file_recorder \<Rightarrow> file_recorder" where
  "mp_step pack (MP_Append b) r = (if mp_task r = None then snd (mp_append pack b r) else r)"
| "mp_step pack (MP_Write taken) r = mp_write_chunk taken r"
| "mp_step pack MP_End r = snd (mp_append_ends r)"
| "mp_step pack MP_Cancel r = mp_append_cancelled r"
| "mp_step pack (MP_Fail c) r = mp_fail c r"

definition awaits_append :: "file_event \<Rightarrow> bool" where
  "awaits_append e \<longleftrightarrow> e \<noteq> MP_Cancel"

definition event_recordable ::
    "(pyval \<Rightarrow> exn + byte_string) \<Rightarrow> (byte_string \<Rightarrow> exn + pyval) \<Rightarrow> file_event \<Rightarrow> bool" where
  "event_recordable pack unpack e \<longleftrightarrow> (case e of MP_Append b \<Rightarrow> recordable pack unpack b | _ \<Rightarrow> True)"

text \<open>The frames of a task that was written but whose append has not been counted yet.\<close>

definition uncounted :: "file_recorder \<Rightarrow> int" where
  "uncounted r = (case mp_task r of Some t \<Rightarrow> if task_result t = Some (Inr ()) then frame_count (task_batch t) else 0 | None \<Rightarrow> 0)"

definition frames_stored :: "file_recorder \<Rightarrow> int" where
  "frames_stored r = sum_list (map frame_count (mp_stored r))"

definition file_inv :: "(pyval \<Rightarrow> exn + byte_string) \<Rightarrow> (byte_string \<Rightarrow> exn + pyval) \<Rightarrow> file_recorder \<Rightarrow> bool" where
  "file_inv pack unpack r \<longleftrightarrow>
     (\<exists>cs tail. list_all2 (\<lambda>b c. chunk_of pack b = Inr c) (mp_stored r) cs \<and> mp_file r = Some (MAGIC @ concat cs @ tail) \<and>
        (tail \<noteq> [] \<longrightarrow> mp_failure r \<noteq> None \<and> pred_option (\<lambda>t. task_result t \<noteq> None) (mp_task r))) \<and>
     list_all (recordable pack unpack) (mp_stored r) \<and>
     pred_option (\<lambda>t. recordable pack unpack (task_batch t) \<and> chunk_of pack (task_batch t) = Inr (task_chunk t)) (mp_task r) \<and>
     (mp_failure r \<noteq> None \<longleftrightarrow> mp_state r = REC_FAILED) \<and>
     mp_recorded_frames r + uncounted r \<le> frames_stored r"

lemma write_chunk_inv:
  assumes "file_inv pack unpack r"
  shows "file_inv pack unpack (mp_write_chunk taken r)"
proof (cases "mp_task r")
  case (Some t)
  from assms obtain cs tail where f: "list_all2 (\<lambda>b c. chunk_of pack b = Inr c) (mp_stored r) cs"
    "mp_file r = Some (MAGIC @ concat cs @ tail)" "tail \<noteq> [] \<longrightarrow> mp_failure r \<noteq> None \<and> task_result t \<noteq> None"
    using Some by (auto simp: file_inv_def)
  show ?thesis
  proof (cases "task_result t")
    case None
    then have tail: "tail = []" using f(3) by auto
    show ?thesis
    proof (cases taken)
      case None
      have "list_all2 (\<lambda>b c. chunk_of pack b = Inr c) (mp_stored r @ [task_batch t]) (cs @ [task_chunk t])"
        using f(1) assms Some by (simp add: list_all2_appendI file_inv_def)
      moreover have "MAGIC @ concat cs @ task_chunk t = MAGIC @ concat (cs @ [task_chunk t]) @ []" by simp
      ultimately show ?thesis
        using assms f Some \<open>task_result t = None\<close> None tail
        unfolding file_inv_def mp_write_chunk_def uncounted_def frames_stored_def
        by (auto intro!: exI [of _ "cs @ [task_chunk t]"])
    next
      case (Some n)
      then show ?thesis
        using assms f \<open>mp_task r = Some t\<close> \<open>task_result t = None\<close> tail
        unfolding file_inv_def mp_write_chunk_def mp_fail_def uncounted_def frames_stored_def
        by (auto split: option.splits intro!: exI [of _ cs])
    qed
  next
    case (Some q)
    then show ?thesis using assms \<open>mp_task r = Some t\<close> f(2) by (simp add: mp_write_chunk_def)
  qed
next
  case None
  then show ?thesis using assms by (simp add: mp_write_chunk_def)
qed

lemma mp_step_inv:
  assumes "file_inv pack unpack r" "event_recordable pack unpack e"
  shows "file_inv pack unpack (mp_step pack e r)"
proof (cases e)
  case (MP_Append b)
  then show ?thesis
    using assms by (auto simp: file_inv_def mp_append_def event_recordable_def uncounted_def frames_stored_def split: sum.splits)
next
  case MP_End
  then show ?thesis
    using assms by (auto simp: file_inv_def mp_append_ends_def uncounted_def frames_stored_def split: option.splits sum.splits)
next
  case MP_Cancel
  have "0 \<le> frame_count (task_batch t)" if "mp_task r = Some t" for t
    using assms that by (auto simp: file_inv_def recordable_def valid_batch_def)
  then show ?thesis
    using assms MP_Cancel
    by (auto simp: file_inv_def mp_append_cancelled_def uncounted_def frames_stored_def split: option.splits if_splits)
next
  case (MP_Fail c)
  then show ?thesis
    using assms by (auto simp: file_inv_def mp_fail_def uncounted_def frames_stored_def split: option.splits)
qed (use assms write_chunk_inv in simp)

interpretation file_runs: preserved "mp_step pack" "file_inv pack unpack" "event_recordable pack unpack"
  by unfold_locales (rule mp_step_inv)

lemma started_file_inv:
  assumes "mp_start h stream new_file_recorder = (Inr (), r)"
  shows "file_inv pack unpack r"
  using assms
  by (auto simp: mp_start_def new_file_recorder_def file_inv_def uncounted_def frames_stored_def split: if_splits option.splits)

lemma stop_joins:
  assumes "file_inv pack unpack r" "mp_open r"
  shows "file_inv pack unpack ((mp_write_chunk taken r)\<lparr>mp_task := None\<rparr>)"
proof -
  let ?j = "mp_write_chunk taken r"
  have inv: "file_inv pack unpack ?j" by (rule write_chunk_inv [OF assms(1)])
  then have "0 \<le> uncounted ?j"
    by (auto simp: file_inv_def uncounted_def recordable_def valid_batch_def split: option.splits)
  then show ?thesis using inv by (auto simp: file_inv_def uncounted_def frames_stored_def)
qed

text \<open>Without a cancelled append the count is exact.\<close>

definition counted :: "file_recorder \<Rightarrow> bool" where
  "counted r \<longleftrightarrow> mp_recorded_frames r + uncounted r = frames_stored r"

lemma counted_step: "counted r \<Longrightarrow> awaits_append e \<Longrightarrow> counted (mp_step pack e r)"
  by (cases e; cases "mp_task r")
    (auto simp: counted_def awaits_append_def mp_append_def mp_write_chunk_def mp_append_ends_def mp_fail_def uncounted_def
      frames_stored_def split: option.splits sum.splits)

interpretation counting: preserved "mp_step pack" counted awaits_append
  by unfold_locales (rule counted_step)

lemma started_counted: "mp_start h stream new_file_recorder = (Inr (), r) \<Longrightarrow> counted r"
  by (auto simp: mp_start_def new_file_recorder_def counted_def uncounted_def frames_stored_def split: if_splits option.splits)

section \<open>Properties\<close>

text \<open>
  C40: a recording reads back. A recorder is started on a new file; any batches of well-formed
  frames are appended, some of the appends are cancelled, the owner may stop it at any
  moment. If \<open>stop\<close> leaves no failure behind, the reader finds exactly the batches that were
  written, in order, with float time stamps, unless a frame has an integer hardware time
  stamp: then the whole recording is refused. The recorder never counts more frames than
  there are, and exactly these if no append was cancelled or left to \<open>stop\<close>. Cut off anywhere,
  the file is refused or reads as the first of the batches.
\<close>

theorem recording_reads_back:
  assumes "mp_start h stream new_file_recorder = (Inr (), r1)" "\<forall>e\<in>set es. event_recordable pack unpack e"
    and "r = run_calls (mp_step pack) es r1" "mp_stop h' taken r = (Inr (), r2)" "mp_failure r2 = None" "mp_open r"
  shows "\<exists>bytes. mp_file r2 = Some bytes \<and>
    read_recording unpack bytes =
      (if list_all decodable (mp_stored r2) then Inr (map floated_batch (mp_stored r2)) else Inl value_error) \<and>
    mp_recorded_frames r2 \<le> sum_list (map frame_count (mp_stored r2)) \<and>
    ((\<forall>e\<in>set es. awaits_append e) \<and> mp_task r = None \<longrightarrow>
      mp_recorded_frames r2 = sum_list (map frame_count (mp_stored r2))) \<and>
    (\<forall>n. case read_recording unpack (take n bytes) of
        Inl e \<Rightarrow> e = value_error | Inr xs \<Rightarrow> prefix xs (map floated_batch (mp_stored r2)))"
proof -
  let ?j = "(mp_write_chunk taken r)\<lparr>mp_task := None\<rparr>"
  have inv: "file_inv pack unpack r"
    unfolding assms(3) by (rule file_runs.run_inv [OF started_file_inv [OF assms(1)]]) (use assms(2) in auto)
  have r2: "mp_file r2 = mp_file ?j" "mp_stored r2 = mp_stored ?j" "mp_failure ?j = None" "mp_recorded_frames r2 = mp_recorded_frames ?j"
    using assms(4-6) by (auto simp: mp_stop_def Let_def split: option.splits if_splits)
  have j: "file_inv pack unpack ?j" by (rule stop_joins [OF inv assms(6)])
  then obtain cs where cs: "list_all2 (\<lambda>b c. chunk_of pack b = Inr c) (mp_stored r2) cs" "mp_file r2 = Some (MAGIC @ concat cs)"
    "list_all (recordable pack unpack) (mp_stored r2)"
    using r2 by (auto simp: file_inv_def)
  have full: "read_recording unpack (MAGIC @ concat cs) =
      (if list_all decodable (mp_stored r2) then Inr (map floated_batch (mp_stored r2)) else Inl value_error)"
    using read_all_chunks [OF cs(1,3)] by (simp add: read_recording_def)
  have cut: "case read_recording unpack (take n (MAGIC @ concat cs)) of
      Inl e \<Rightarrow> e = value_error | Inr xs \<Rightarrow> prefix xs (map floated_batch (mp_stored r2))" for n
  proof (cases "length MAGIC \<le> n")
    case True
    then show ?thesis
      using read_truncated_chunks [OF cs(1,3), of "n - length MAGIC"] by (simp add: read_recording_def)
  next
    case False
    then have "take (length MAGIC) (take n (MAGIC @ concat cs)) \<noteq> MAGIC"
      by (metis length_take min.cobounded1 min.coboundedI2 min_def take_take)
    then show ?thesis unfolding read_recording_def by simp
  qed
  have "mp_recorded_frames r2 = frames_stored ?j" if "\<forall>e\<in>set es. awaits_append e" "mp_task r = None"
  proof -
    have "counted r" unfolding assms(3) by (rule counting.run_inv [OF started_counted [OF assms(1)]]) (use that in auto)
    then show ?thesis using that r2(4) by (simp add: mp_write_chunk_def counted_def uncounted_def frames_stored_def)
  qed
  moreover have "mp_recorded_frames r2 \<le> frames_stored ?j" using j r2(4) by (simp add: file_inv_def uncounted_def)
  moreover have "frames_stored ?j = sum_list (map frame_count (mp_stored r2))" by (simp add: frames_stored_def r2(2))
  ultimately show ?thesis using cs(2) full cut by auto
qed

definition demo_pack :: "pyval \<Rightarrow> exn + byte_string" where
  "demo_pack v = (if v = batch_payload sample_batch then Inr [7] else Inl value_error)"

definition demo_unpack :: "byte_string \<Rightarrow> exn + pyval" where
  "demo_unpack w = (if w = [7] then Inr (batch_payload sample_batch) else Inl value_error)"

definition sound_files :: file_host where
  "sound_files = \<lparr>host_create = True, host_magic = None, host_flush = None, host_close = None\<rparr>"

theorem recording_reads_back_witness:
  "let r = run_calls (mp_step demo_pack) [MP_Append sample_batch, MP_Write None, MP_End]
        (snd (mp_start sound_files (codes ''s'') new_file_recorder));
      r2 = snd (mp_stop sound_files None r) in
    \<exists>bytes. mp_file r2 = Some bytes \<and> read_recording demo_unpack bytes = Inr [floated_batch sample_batch] \<and> mp_recorded_frames r2 = 1"
proof -
  let ?es = "[MP_Append sample_batch, MP_Write None, MP_End]"
  let ?r1 = "snd (mp_start sound_files (codes ''s'') new_file_recorder)"
  let ?r = "run_calls (mp_step demo_pack) ?es ?r1"
  let ?r2 = "snd (mp_stop sound_files None ?r)"
  have start: "mp_start sound_files (codes ''s'') new_file_recorder = (Inr (), ?r1)"
    by (simp add: mp_start_def sound_files_def new_file_recorder_def)
  have "recordable demo_pack demo_unpack sample_batch"
    by (simp add: recordable_def encode_batch_def demo_pack_def demo_unpack_def sample_batch_def sample_frame_def valid_frame_def
        valid_number_def codes_def CLASSIC_DLC_def valid_batch_def CURRENT_SCHEMA_VERSION_def hardware_float_def)
  then have ok: "\<forall>e\<in>set ?es. event_recordable demo_pack demo_unpack e" by (simp add: event_recordable_def)
  have chunk: "chunk_of demo_pack sample_batch = Inr [0, 0, 0, 1, 7]"
    by (simp add: chunk_of_def encode_batch_def demo_pack_def pack_length_def)
  have stream: "stream_id sample_batch = codes ''s''" "frame_count sample_batch = 1" by (simp_all add: sample_batch_def)
  have r: "mp_open ?r" "mp_task ?r = None" "mp_stored ?r = [sample_batch]" "mp_failure ?r = None"
    by (simp_all add: mp_start_def sound_files_def new_file_recorder_def mp_append_def chunk stream mp_write_chunk_def mp_append_ends_def)
  have stop: "mp_stop sound_files None ?r = (Inr (), ?r2)" "mp_failure ?r2 = None" "mp_stored ?r2 = [sample_batch]"
    using r by (simp_all add: mp_stop_def sound_files_def mp_write_chunk_def Let_def)
  have "decodable sample_batch" by (simp add: decodable_def sample_batch_def sample_frame_def hardware_float_def)
  moreover have "\<forall>e\<in>set ?es. awaits_append e" by (simp add: awaits_append_def)
  ultimately show ?thesis
    using recording_reads_back [OF start ok refl stop(1,2) r(1)] r(2) stop(3) stream(2)
    unfolding Let_def by auto
qed

end
