(* ===== verification/Recorder.thy ===== *)
theory Recorder
  imports Data_Durability Msgpack_Recorder
begin

text \<open>
  The project recorder (\<open>recorder/project_recorder.py\<close>): the seam between the capture's event
  loop and the writer of a data session. The event loop, the thread of an append, the thread
  that finalises the session and the thread that settles a missed deadline interleave; a step
  is what one of them does while it holds a lock, or between two awaits. The messages and
  contexts of a failure are left out, its code and whether it is recoverable are kept.
\<close>

section \<open>The recorder\<close>

datatype finalization_outcome = FINALIZED_COMPLETED | FINALIZED_FAILED | FINALIZATION_PENDING

record project_recorder =
  rec_state :: recorder_state
  recorded_frames :: int
  rec_failure :: "recorder_failure option"
  has_writer :: bool
  rec_last_sequence :: "int option"
  project_session :: "pystr option"
  stop_deadline :: "pyfloat option"
  rec_completed :: bool
  finalization_in_flight :: bool
  finalization_started :: bool
  finalization_settled :: bool

definition new_project_recorder :: project_recorder where
  "new_project_recorder =
     \<lparr>rec_state = REC_IDLE, recorded_frames = 0, rec_failure = None, has_writer = False, rec_last_sequence = None,
      project_session = None, stop_deadline = None, rec_completed = False, finalization_in_flight = False,
      finalization_started = False, finalization_settled = True\<rparr>"

definition finalization_pending :: "project_recorder \<Rightarrow> bool" where
  "finalization_pending r \<longleftrightarrow> finalization_in_flight r \<and> \<not> finalization_settled r"

definition finalization_outcome_of :: "project_recorder \<Rightarrow> finalization_outcome" where
  "finalization_outcome_of r =
     (if finalization_in_flight r \<or> \<not> finalization_started r then FINALIZATION_PENDING
      else if rec_completed r then FINALIZED_COMPLETED else FINALIZED_FAILED)"

text \<open>The first diagnostic is kept.\<close>

definition recorder_fail :: "string \<Rightarrow> bool \<Rightarrow> project_recorder \<Rightarrow> project_recorder" where
  "recorder_fail c again r =
     r\<lparr>rec_failure := (case rec_failure r of None \<Rightarrow> Some \<lparr>failure_code = c, failure_recoverable = again\<rparr> | Some f \<Rightarrow> Some f),
       rec_state := REC_FAILED\<rparr>"

definition reset_project_recorder :: "project_recorder \<Rightarrow> exn + project_recorder" where
  "reset_project_recorder r =
     (if rec_state r = REC_RECORDING then Inl (Foreign ''RuntimeError'')
      else Inr (r\<lparr>rec_state := REC_IDLE, recorded_frames := 0, rec_failure := None, has_writer := False,
        rec_last_sequence := None, stop_deadline := None, rec_completed := False, finalization_in_flight := False,
        finalization_started := False, finalization_settled := True\<rparr>))"

text \<open>\<open>arm_stop_deadline\<close>, with what the monotonic clock reads.\<close>

definition arm_stop_deadline :: "pyfloat \<Rightarrow> pyfloat \<Rightarrow> project_recorder \<Rightarrow> exn + project_recorder" where
  "arm_stop_deadline now seconds r =
     (if \<not> isfinite seconds \<or> pf_le seconds (Fin 0) then Inl (Foreign ''ValueError'')
      else Inr (r\<lparr>stop_deadline := Some (float_add now seconds)\<rparr>))"

definition close_gate :: "project_recorder \<Rightarrow> project_recorder" where
  "close_gate r = r\<lparr>stop_deadline := Some (Fin 0)\<rparr>"

definition TERMINAL_GRACE_SECONDS :: pyfloat where
  "TERMINAL_GRACE_SECONDS = Fin (1 / 4)"

abbreviation sequence_gap :: exn where
  "sequence_gap \<equiv> Foreign ''recorder.sequence_gap''"

definition require_contiguous_batch :: "frame_batch \<Rightarrow> project_recorder \<Rightarrow> (exn + unit) \<times> project_recorder" where
  "require_contiguous_batch b r =
     (if case rec_last_sequence r of None \<Rightarrow> True | Some n \<Rightarrow> first_sequence b = n + 1 then (Inr (), r)
      else (Inl sequence_gap, recorder_fail ''recorder.sequence_gap'' False r))"

section \<open>The threads\<close>

text \<open>
  An append that was handed to its thread: its batch, what the writer answered, and whether
  the event loop still waits for it. A coroutine can be cancelled, its thread cannot.
\<close>

record append_job =
  job_batch :: frame_batch
  job_result :: "(exn + unit) option"
  job_awaited :: bool

text \<open>
  The worker of \<open>_finish_serially\<close>. It holds the terminal lock while it commits or refuses;
  which of the two, the gate has then decided.
\<close>

datatype worker_phase = NO_WORKER | FLUSHING | DECIDING | COMMITTING | REFUSING | EXITED

text \<open>The thread of \<open>_settle_durable_state\<close>, and the state it reports.\<close>

datatype settling = UNSETTLED | TO_FAIL | TO_READ | SETTLED "session_state option"

text \<open>
  Two fields only observe: the frames of every batch that the archive consumer handed to
  \<open>append\<close>, and whether that consumer was cancelled while an append was under way.
\<close>

record recording = traced_writer +
  rec :: project_recorder
  job :: "append_job option"
  worker :: worker_phase
  worker_error :: "exn option"
  settler :: settling
  owner_waits :: bool
  verdicts :: "finalization_outcome list"
  handed_frames :: "frame list"
  append_abandoned :: bool

abbreviation on_recorder :: "(project_recorder \<Rightarrow> project_recorder) \<Rightarrow> recording \<Rightarrow> recording" where
  "on_recorder f s \<equiv> s\<lparr>rec := f (rec s)\<rparr>"

subsection \<open>Starting and appending\<close>

definition recorder_start :: "data_host \<Rightarrow> pystr \<Rightarrow> (recording, exn, unit) exec" where
  "recorder_start h stream s =
     (if rec_state (rec s) = REC_RECORDING then (Inl (Foreign ''RuntimeError''), s)
      else case start h stream s of
        (Inl e, t) \<Rightarrow> (Inl e, t)
      | (Inr _, t) \<Rightarrow> (Inr (), t\<lparr>rec := (rec t)\<lparr>has_writer := True, project_session := Some (ses_id (w_session t)),
          rec_last_sequence := None, recorded_frames := 0, rec_failure := None, stop_deadline := None,
          rec_completed := False, finalization_in_flight := False, finalization_started := False,
          finalization_settled := True, rec_state := REC_RECORDING\<rparr>\<rparr>))"

text \<open>\<open>append\<close> up to its await, its thread, and what the event loop does with the answer.\<close>

definition append_begins :: "frame_batch \<Rightarrow> (recording, exn, unit) exec" where
  "append_begins b s =
     (if \<not> has_writer (rec s) \<or> rec_state (rec s) \<noteq> REC_RECORDING then (Inl (Foreign ''RuntimeError''), s)
      else case require_contiguous_batch b (rec s) of
        (Inl e, r) \<Rightarrow> (Inl e, s\<lparr>rec := r\<rparr>)
      | (Inr _, r) \<Rightarrow> (Inr (), s\<lparr>rec := r, job := Some \<lparr>job_batch = b, job_result = None, job_awaited = True\<rparr>\<rparr>))"

definition append_serially :: "data_host \<Rightarrow> recording \<Rightarrow> recording" where
  "append_serially h s =
     (case job s of
        Some j \<Rightarrow> (if job_result j \<noteq> None then s
          else let (r, t) = append h (job_batch j) (s\<lparr>appended_frames := appended_frames s @ accepts (job_batch j) s\<rparr>)
               in t\<lparr>job := Some (j\<lparr>job_result := Some r\<rparr>)\<rparr>)
      | None \<Rightarrow> s)"

definition append_ends :: "(recording, exn, unit) exec" where
  "append_ends s =
     (case job s of
        Some j \<Rightarrow> (if \<not> job_awaited j then (Inr (), s)
          else case job_result j of
            None \<Rightarrow> (Inr (), s)
          | Some (Inl e) \<Rightarrow> (Inl e, s\<lparr>job := None\<rparr>)
          | Some (Inr _) \<Rightarrow> (Inr (), s\<lparr>job := None, rec := (rec s)\<lparr>rec_last_sequence := Some (last_sequence (job_batch j)),
              recorded_frames := recorded_frames (rec s) + frame_count (job_batch j)\<rparr>\<rparr>))
      | None \<Rightarrow> (Inr (), s))"

definition append_cancelled :: "recording \<Rightarrow> recording" where
  "append_cancelled s = s\<lparr>job := map_option (\<lambda>j. j\<lparr>job_awaited := False\<rparr>) (job s)\<rparr>"

subsection \<open>Stopping\<close>

text \<open>\<open>stop\<close> up to its await, and its \<open>finally\<close>, which runs whether the await returns or is cancelled.\<close>

definition stop_begins :: "recording \<Rightarrow> recording" where
  "stop_begins s =
     (if \<not> has_writer (rec s) then s
      else s\<lparr>worker := FLUSHING,
        rec := (rec s)\<lparr>finalization_started := True, finalization_in_flight := True, finalization_settled := False\<rparr>\<rparr>)"

definition stop_ends :: "recording \<Rightarrow> recording" where
  "stop_ends = on_recorder (\<lambda>r. r\<lparr>has_writer := False, rec_last_sequence := None\<rparr>)"

definition diagnose_finalize_failure :: "project_recorder \<Rightarrow> project_recorder" where
  "diagnose_finalize_failure = recorder_fail ''recorder.finalize_failed'' False"

text \<open>
  \<open>_finish_serially\<close>: an exception of the flush that is not a \<open>DataError\<close> passes through the
  terminal decision, and leaves the worker after it.
\<close>

definition finish_serially :: "data_host \<Rightarrow> recording \<Rightarrow> recording" where
  "finish_serially h s =
     (if rec_failure (rec s) \<noteq> None then s\<lparr>worker := DECIDING\<rparr>
      else case flush_pending h s of
        (Inr _, t) \<Rightarrow> t\<lparr>worker := DECIDING\<rparr>
      | (Inl e, t) \<Rightarrow>
          if data_error e then t\<lparr>worker := DECIDING, rec := diagnose_finalize_failure (rec t)\<rparr>
          else t\<lparr>worker := DECIDING, worker_error := Some e\<rparr>)"

definition gate_open :: "(nat \<Rightarrow> pyfloat) \<Rightarrow> (recording, exn, bool) exec" where
  "gate_open monotonic =
     ebind (get rec) (\<lambda>r.
     if rec_failure r \<noteq> None then ret False
     else case stop_deadline r of
       None \<Rightarrow> ret True
     | Some d \<Rightarrow> ebind (reading monotonic) (\<lambda>now. ret (pf_le (float_add now TERMINAL_GRACE_SECONDS) d)))"

text \<open>
  \<open>_decide_terminally\<close>: the lock is taken and the gate is asked; then the session is completed,
  or it is refused. The last thing is that the finalisation settles.
\<close>

definition decide_enters :: "(nat \<Rightarrow> pyfloat) \<Rightarrow> recording \<Rightarrow> recording" where
  "decide_enters monotonic s =
     (case gate_open monotonic s of
        (Inl e, t) \<Rightarrow> t
      | (Inr opened, t) \<Rightarrow> t\<lparr>worker := if opened then COMMITTING else REFUSING\<rparr>)"

definition worker_exits :: "recording \<Rightarrow> recording" where
  "worker_exits s = s\<lparr>worker := EXITED, rec := (rec s)\<lparr>finalization_in_flight := False, finalization_settled := True\<rparr>\<rparr>"

definition decide_commits :: "data_host \<Rightarrow> recording \<Rightarrow> recording" where
  "decide_commits h s =
     (case commit_completed h s of
        (Inr _, t) \<Rightarrow> worker_exits (on_recorder (\<lambda>r. r\<lparr>rec_completed := True, rec_state := REC_STOPPED\<rparr>) t)
      | (Inl e, t) \<Rightarrow>
          if data_error e then t\<lparr>worker := REFUSING, rec := diagnose_finalize_failure (rec t)\<rparr>
          else worker_exits (t\<lparr>worker_error := Some e\<rparr>))"

definition decide_refuses :: "data_host \<Rightarrow> recording \<Rightarrow> recording" where
  "decide_refuses h s =
     (if rec_completed (rec s) then worker_exits (on_recorder (\<lambda>r. r\<lparr>rec_state := REC_STOPPED\<rparr>) s)
      else let refuse = (\<lambda>r. (if rec_failure r = None then recorder_fail ''recorder.stop_deadline_exceeded'' False r else r)
                 \<lparr>rec_state := REC_FAILED\<rparr>)
        in case fail h (on_recorder refuse s) of
          (Inr _, t) \<Rightarrow> worker_exits t
        | (Inl e, t) \<Rightarrow> worker_exits (t\<lparr>worker_error := Some e\<rparr>))"

text \<open>One step of the worker.\<close>

definition worker_step :: "data_host \<Rightarrow> (nat \<Rightarrow> pyfloat) \<Rightarrow> recording \<Rightarrow> recording" where
  "worker_step h monotonic s =
     (case worker s of
        FLUSHING \<Rightarrow> finish_serially h s
      | DECIDING \<Rightarrow> decide_enters monotonic s
      | COMMITTING \<Rightarrow> decide_commits h s
      | REFUSING \<Rightarrow> decide_refuses h s
      | _ \<Rightarrow> s)"

subsection \<open>The owner's deadline\<close>

text \<open>
  \<open>close_finalization_gate\<close>: the terminal lock could not be taken within the grace, or it was;
  then a thread settles the row. The event loop waits for it, but not for long, and reads
  what it has reported by then.
\<close>

definition holds_terminal_lock :: "worker_phase \<Rightarrow> bool" where
  "holds_terminal_lock w \<longleftrightarrow> w = COMMITTING \<or> w = REFUSING"

definition gate_closes :: "recording \<Rightarrow> recording" where
  "gate_closes s =
     (if holds_terminal_lock (worker s) then s\<lparr>verdicts := verdicts s @ [FINALIZATION_PENDING]\<rparr>
      else if rec_completed (rec s) then s\<lparr>verdicts := verdicts s @ [FINALIZED_COMPLETED]\<rparr>
      else s\<lparr>rec := close_gate (rec s), owner_waits := True,
        settler := if project_session (rec s) = None then SETTLED None else TO_FAIL\<rparr>)"

definition settle_step :: "data_host \<Rightarrow> recording \<Rightarrow> recording" where
  "settle_step h s =
     (case (settler s, project_session (rec s)) of
        (TO_FAIL, Some i) \<Rightarrow> (case fail_active_session h i s of
            (Inr _, t) \<Rightarrow> t\<lparr>settler := TO_READ\<rparr> | (Inl _, t) \<Rightarrow> t\<lparr>settler := SETTLED None\<rparr>)
      | (TO_READ, Some i) \<Rightarrow> (case get_session h i s of
            (Inr x, t) \<Rightarrow> t\<lparr>settler := SETTLED (Some (ses_state x))\<rparr> | (Inl _, t) \<Rightarrow> t\<lparr>settler := SETTLED None\<rparr>)
      | _ \<Rightarrow> s)"

definition gate_answers :: "string \<Rightarrow> bool \<Rightarrow> recording \<Rightarrow> recording" where
  "gate_answers c again s =
     (if \<not> owner_waits s then s
      else if settler s = SETTLED (Some COMPLETED) then s\<lparr>owner_waits := False, verdicts := verdicts s @ [FINALIZED_COMPLETED]\<rparr>
      else s\<lparr>owner_waits := False, rec := recorder_fail c again (rec s), verdicts := verdicts s @ [FINALIZED_FAILED]\<rparr>)"

section \<open>The interleaving\<close>

text \<open>
  The archive consumer, \<open>_run_consumer\<close> of the runtime's service: it calls \<open>append\<close> with one
  batch at a time, and an exception of the call becomes a failure of the recorder before
  anything else runs on the event loop.
\<close>

definition consumer_catches :: "(exn + unit) \<times> recording \<Rightarrow> recording" where
  "consumer_catches p =
     (case p of (Inl e, t) \<Rightarrow> on_recorder (recorder_fail ''recorder.write_failed'' False) t | (Inr _, t) \<Rightarrow> t)"

definition consumer_cancelled :: "recording \<Rightarrow> recording" where
  "consumer_cancelled s = append_cancelled (s\<lparr>append_abandoned := append_abandoned s \<or> pred_option job_awaited (job s) \<and> job s \<noteq> None\<rparr>)"

datatype recording_event =
    Append_Begins frame_batch
  | Append_Runs
  | Append_Ends
  | Append_Cancelled
  | Deadline_Armed pyfloat
  | Stop_Begins
  | Stop_Ends
  | Worker_Runs
  | Gate_Closes
  | Settler_Runs
  | Gate_Answers string bool
  | Owner_Fails string bool
  | Service_Call session_call

fun recording_step :: "data_host \<Rightarrow> (nat \<Rightarrow> pyfloat) \<Rightarrow> recording_event \<Rightarrow> recording \<Rightarrow> recording" where
  "recording_step h monotonic (Append_Begins b) s =
     consumer_catches (append_begins b (s\<lparr>handed_frames := handed_frames s @ frames b\<rparr>))"
| "recording_step h monotonic Append_Runs s = append_serially h s"
| "recording_step h monotonic Append_Ends s = consumer_catches (append_ends s)"
| "recording_step h monotonic Append_Cancelled s = consumer_cancelled s"
| "recording_step h monotonic (Deadline_Armed seconds) s =
     (case arm_stop_deadline (monotonic (readings s)) seconds (rec s) of
        Inl _ \<Rightarrow> s | Inr r \<Rightarrow> s\<lparr>readings := Suc (readings s), rec := r\<rparr>)"
| "recording_step h monotonic Stop_Begins s = stop_begins s"
| "recording_step h monotonic Stop_Ends s = stop_ends s"
| "recording_step h monotonic Worker_Runs s = worker_step h monotonic s"
| "recording_step h monotonic Gate_Closes s = gate_closes s"
| "recording_step h monotonic Settler_Runs s = settle_step h s"
| "recording_step h monotonic (Gate_Answers c again) s = gate_answers c again s"
| "recording_step h monotonic (Owner_Fails c again) s = on_recorder (recorder_fail c again) s"
| "recording_step h monotonic (Service_Call c) s =
     (case c of
        Fail_Active i \<Rightarrow> snd (fail_active_session h i s)
      | Recover now \<Rightarrow> snd (recover_incomplete_sessions h now s)
      | _ \<Rightarrow> s)"

text \<open>
  What the owner, the runtime's service, does when. It appends one batch at a time and cancels
  the consumer at any time: after a failure, when the archive does not drain before its cleanup
  deadline, where the failure is recorded after the cancellation, or when \<open>stop_capture\<close> is
  itself cancelled, where none is. It arms the deadline, then stops once, when the consumer
  of the archive is gone; it closes the gate only after the stop has timed out and not again
  once it has; and its event loop does nothing while it waits for the settling thread. The
  threads run whenever they can; a call of the writer is one step.
\<close>

definition owner_may :: "recording_event \<Rightarrow> recording \<Rightarrow> bool" where
  "owner_may e s \<longleftrightarrow>
     (case e of
        Append_Begins b \<Rightarrow> \<not> owner_waits s \<and> job s = None \<and> \<not> finalization_started (rec s) \<and> list_all frame_ok (frames b)
      | Append_Ends \<Rightarrow> \<not> owner_waits s
      | Append_Cancelled \<Rightarrow> \<not> owner_waits s
      | Deadline_Armed _ \<Rightarrow> \<not> owner_waits s \<and> \<not> finalization_started (rec s)
      | Stop_Begins \<Rightarrow> \<not> owner_waits s \<and> \<not> finalization_started (rec s) \<and> pred_option (\<lambda>j. \<not> job_awaited j) (job s)
      | Stop_Ends \<Rightarrow> \<not> owner_waits s \<and> finalization_started (rec s)
      | Gate_Closes \<Rightarrow> \<not> owner_waits s \<and> finalization_started (rec s) \<and> settler s = UNSETTLED
      | Gate_Answers _ _ \<Rightarrow> owner_waits s
      | Owner_Fails _ _ \<Rightarrow> \<not> owner_waits s
      | _ \<Rightarrow> True)"

inductive reaches :: "data_host \<Rightarrow> (nat \<Rightarrow> pyfloat) \<Rightarrow> recording \<Rightarrow> recording \<Rightarrow> bool"
  for h monotonic s where
  reaches_here: "reaches h monotonic s s"
| reaches_step: "reaches h monotonic s t \<Longrightarrow> owner_may e t \<Longrightarrow> reaches h monotonic s (recording_step h monotonic e t)"

end
