(* ===== verification/Recorder_Invariant.thy ===== *)
theory Recorder_Invariant
  imports Recorder
begin

text \<open>
  What every interleaving of a recording keeps: the session's own invariant, what the phase of
  the worker says of the recorder's flags, what a closed gate rules out, and that nothing that
  was accepted is left behind when the session is completed.
\<close>

section \<open>The writer before it completes\<close>

text \<open>A writer that has not completed its session, which is the session \<open>i\<close>.\<close>

definition unfinished :: "pystr \<Rightarrow> 'a writer_scheme \<Rightarrow> bool" where
  "unfinished i s \<longleftrightarrow> session_wf (w_session s) \<and> ses_id (w_session s) = i \<and> ses_state (w_session s) \<noteq> COMPLETED"

lemma unfinished_updates [simp]:
  "unfinished i (s\<lparr>readings := k\<rparr>) = unfinished i s" "unfinished i (s\<lparr>w_buffer := b\<rparr>) = unfinished i s"
  "unfinished i (s\<lparr>session_rows := rs\<rparr>) = unfinished i s" "unfinished i (s\<lparr>segment_rows := gs\<rparr>) = unfinished i s"
  "unfinished i (extend_buffer fb s) = unfinished i s"
  by (simp_all add: unfinished_def extend_buffer_def)

lemma unfinished_post_init:
  assumes "data_session_post_init y' = Inr y" "is_uuid (ses_id y')" "is_uuid (ses_project y')"
  shows "session_wf y \<and> y = y'"
  using session_post_init [OF assms(1)] assms(2,3) by blast

lemma unfinished_keeps:
  fixes m :: "('a writer_scheme, 'e, 'b) exec"
  shows "keeps w_session m \<Longrightarrow> unfinished i s \<Longrightarrow> wp m (\<lambda>_. unfinished i) (\<lambda>_. unfinished i) s"
  by (simp add: wp_always keeps_def unfinished_def)

lemma keeps_session_writes [keeps_intros]:
  "keeps w_session (advance h code i target e u)" "keeps w_session (register_segment h g x)"
  "keeps w_session (recover_incomplete_sessions h given)"
proof -
  show adv: "keeps w_session (advance h code i target e u)" for code i target e u
    unfolding advance_def by (intro keeps_intros; simp)
  show "keeps w_session (register_segment h g x)"
    unfolding register_segment_def Let_def by (intro keeps_intros; simp)
  have "keeps w_session (mark_all_interrupted h now xs)" for now xs
    by (induction xs) (auto simp: mark_session_interrupted_def intro!: keeps_intros adv)
  then show "keeps w_session (recover_incomplete_sessions h given)"
    unfolding recover_incomplete_sessions_def list_sessions_in_state_def by (auto intro!: keeps_intros)
qed

lemma unfinished_mark_failed:
  fixes s :: "'a writer_scheme"
  assumes "unfinished i s"
  shows "wp (mark_failed h) (\<lambda>_. unfinished i) (\<lambda>_. unfinished i) s"
proof -
  let ?F = "\<lambda>u. (w_session s)\<lparr>ses_state := FAILED, ses_updated_at := u\<rparr>"
  from assms have wf: "session_wf (?F u)" "unfinished i (t\<lparr>w_session := ?F u\<rparr>)" for u and t :: "'a writer_scheme"
    by (auto simp: unfinished_def session_wf_iff)
  then have post: "data_session_post_init (?F u) = Inr (?F u)" for u by (simp add: session_wf_def)
  have adv: "wp (advance_session_state h (?F u)) Q E t"
    if "unfinished i t" "\<And>a t. unfinished i t \<Longrightarrow> Q a t" "\<And>e t. unfinished i t \<Longrightarrow> E e t"
    for u Q E and t :: "'a writer_scheme"
    unfolding advance_session_state_def
    by (rule wp_mono [OF unfinished_keeps [OF keeps_session_writes(1) that(1)]]) (fact that)+
  show ?thesis
    using assms wf by (auto simp: mark_failed_def wp_pure post Let_def split: option.splits intro!: adv)
qed

lemma after_segment_session [simp]:
  "ses_id (after_segment x fs now) = ses_id x" "ses_state (after_segment x fs now) = ses_state x"
  "ses_project (after_segment x fs now) = ses_project x"
  by (simp_all add: after_segment_def)

lemma unfinished_commit_segment:
  fixes s :: "'a writer_scheme"
  assumes "unfinished i s"
  shows "wp (commit_segment h fs) (\<lambda>_. unfinished i) (\<lambda>_. unfinished i) s"
proof -
  note mf = wp_mono [OF unfinished_mark_failed]
  have written: "wp (write_segment_file h p j st n fs) Q E t"
    if "unfinished i t" "w_session t = x" "\<And>a u. unfinished i u \<Longrightarrow> w_session u = x \<Longrightarrow> Q a u" "\<And>e u. unfinished i u \<Longrightarrow> E e u"
    for p j st n Q E x and t :: "'a writer_scheme"
    by (rule wp_mono [OF keeps_wp [of w_session, OF keeps_write_segment_file(1)]])
      (use that in \<open>simp_all add: unfinished_def\<close>)
  have reg: "wp (register_segment h g y) Q E t"
    if "unfinished i t" "\<And>a u. unfinished i u \<Longrightarrow> Q a u" "\<And>e u. unfinished i u \<Longrightarrow> E e u"
    for g y Q E and t :: "'a writer_scheme"
    by (rule wp_mono [OF unfinished_keeps [OF keeps_session_writes(2) that(1)]]) (fact that)+
  have quiet: "wp (remove_quietly h p) Q E t"
    if "unfinished i t" "\<And>a u. unfinished i u \<Longrightarrow> Q a u" "\<And>e u. unfinished i u \<Longrightarrow> E e u"
    for p Q E and t :: "'a writer_scheme"
    by (rule wp_mono [OF unfinished_keeps [OF keeps_write_segment_file(2) that(1)]]) (use that in simp_all)
  have new: "unfinished i (t\<lparr>w_session := y\<rparr>)"
    if "data_session_post_init (after_segment (w_session s) fs now) = Inr y" for now y and t :: "'a writer_scheme"
  proof -
    have "is_uuid (ses_id (w_session s))" "is_uuid (ses_project (w_session s))"
      using assms by (auto simp: unfinished_def session_wf_iff)
    then have "session_wf y" "y = after_segment (w_session s) fs now" using unfinished_post_init [OF that] by auto
    then show ?thesis using assms unfolding unfinished_def by simp
  qed
  show ?thesis
    using assms
    by (auto simp: commit_segment_def register_written_def wp_pure Let_def split: option.splits sum.splits
        intro!: written reg quiet mf new)
qed

lemma unfinished_flush_full:
  fixes s :: "'a writer_scheme"
  assumes "unfinished i s"
  shows "wp (flush_full_segments h) (\<lambda>_. unfinished i) (\<lambda>_. unfinished i) s"
  using assms
proof (induction h s rule: flush_full_segments.induct)
  case (1 h s)
  note commit = unfinished_commit_segment [OF "1.prems", of h "take (max_frames_per_segment s) (w_buffer s)"]
  show ?case
    using commit "1.IH" "1.prems"
    by (subst (1) wp_def, subst flush_full_segments.simps)
      (auto simp: wp_def split: prod.splits sum.splits)
qed

lemma unfinished_append:
  fixes s :: "'a writer_scheme"
  assumes "unfinished i s"
  shows "wp (append h b) (\<lambda>_. unfinished i) (\<lambda>_. unfinished i) s"
proof -
  have "wp (append_checks b) Q E s"
    if "Q () s" "\<And>e. E e s" for Q E
  proof -
    obtain r where "append_checks b s = (r, s)" using append_checks_state by blast
    then show ?thesis using that by (simp add: wp_def split: sum.splits)
  qed
  then show ?thesis
    using assms unfinished_flush_full [of i "extend_buffer b s"] by (auto simp: append_def)
qed

lemma unfinished_flush_pending:
  fixes s :: "'a writer_scheme"
  assumes "unfinished i s"
  shows "wp (flush_pending h) (\<lambda>_. unfinished i) (\<lambda>_. unfinished i) s"
  using assms
  by (auto simp: flush_pending_def require_active_def wp_pure guard_def intro!: wp_mono [OF unfinished_commit_segment])

lemma unfinished_fail:
  fixes s :: "'a writer_scheme"
  assumes "unfinished i s"
  shows "wp (fail h) (\<lambda>_. unfinished i) (\<lambda>_. unfinished i) s"
  using assms by (auto simp: fail_def intro!: wp_mono [OF unfinished_mark_failed])

lemma unfinished_service:
  fixes s :: "'a writer_scheme"
  assumes "unfinished i s"
  shows "wp (fail_active_session h j) (\<lambda>_. unfinished i) (\<lambda>_. unfinished i) s"
    "wp (recover_incomplete_sessions h now) (\<lambda>_. unfinished i) (\<lambda>_. unfinished i) s"
  by (intro unfinished_keeps keeps_session_fail_active keeps_session_writes assms)+

lemma unfinished_commit_completed:
  fixes s :: "'a writer_scheme"
  assumes "unfinished i s"
  shows "wp (commit_completed h) (\<lambda>_ _. True) (\<lambda>_. unfinished i) s"
proof -
  note mf = wp_mono [OF unfinished_mark_failed]
  have adv: "wp (advance_session_state h y) Q E t"
    if "unfinished i t" "\<And>a u. unfinished i u \<Longrightarrow> Q a u" "\<And>e u. unfinished i u \<Longrightarrow> E e u"
    for y Q E and t :: "'a writer_scheme"
    unfolding advance_session_state_def
    by (rule wp_mono [OF unfinished_keeps [OF keeps_session_writes(1) that(1)]]) (fact that)+
  show ?thesis
    using assms
    by (auto simp: commit_completed_def require_active_def wp_pure guard_def Let_def split: option.splits sum.splits
        intro!: adv mf)
qed

section \<open>What a recording keeps\<close>

definition row_completed :: "pystr \<Rightarrow> 'a store_scheme \<Rightarrow> bool" where
  "row_completed i s \<longleftrightarrow> list_ex (\<lambda>r. ses_id r = i \<and> ses_state r = COMPLETED) (session_rows s)"

definition steady :: "pystr \<Rightarrow> recording \<Rightarrow> recording \<Rightarrow> bool" where
  "steady i s t \<longleftrightarrow> stays (appended_frames s) s t \<and> unfinished i t"

lemma more_fields:
  fixes s t :: recording
  assumes "writer.more t = writer.more s"
  shows "appended_frames t = appended_frames s" "rec t = rec s" "job t = job s" "worker t = worker s" "worker_error t = worker_error s"
    "settler t = settler s" "owner_waits t = owner_waits s" "verdicts t = verdicts s" "handed_frames t = handed_frames s"
    "append_abandoned t = append_abandoned s"
  using assms by (cases t; cases s; simp)+

lemma steadyD:
  assumes "steady i s t"
  shows "unfinished i t" "writer_inv (appended_frames t) t" "appended_frames t = appended_frames s" "rec t = rec s" "job t = job s"
    "worker t = worker s" "worker_error t = worker_error s" "settler t = settler s" "owner_waits t = owner_waits s" "verdicts t = verdicts s" "handed_frames t = handed_frames s"
    "append_abandoned t = append_abandoned s"
  using assms more_fields [of t s] by (simp_all add: steady_def stays_def)

lemma steady_wp:
  assumes "wp m (\<lambda>_. stays (appended_frames s) s) (\<lambda>_. stays (appended_frames s) s) s"
    "wp m (\<lambda>_. unfinished i) (\<lambda>_. unfinished i) s"
  shows "wp m (\<lambda>_. steady i s) (\<lambda>_. steady i s) s"
  using wp_conj [OF assms] by (rule wp_mono) (simp_all add: steady_def)

lemma steady_ops:
  assumes h: "arrow_keeps (host_arrow h)" and s: "writer_inv (appended_frames s) s" "unfinished i s"
  shows "wp (flush_pending h) (\<lambda>_. steady i s) (\<lambda>_. steady i s) s"
    "wp (fail h) (\<lambda>_. steady i s) (\<lambda>_. steady i s) s"
    "wp (fail_active_session h j) (\<lambda>_. steady i s) (\<lambda>_. steady i s) s"
    "wp (recover_incomplete_sessions h now) (\<lambda>_. steady i s) (\<lambda>_. steady i s) s"
  by (rule steady_wp, rule wp_mono [OF flush_pending_wp [OF h s(1)]];
      use unfinished_flush_pending [OF s(2)] in simp)
    (rule steady_wp, rule fail_wp [OF s(1)] fail_active_wp [OF s(1)] recover_wp [OF s(1)],
      rule unfinished_fail [OF s(2)] unfinished_service [OF s(2)])+

text \<open>A session that is complete stays complete.\<close>

definition finished :: "pystr \<Rightarrow> 'a writer_scheme \<Rightarrow> bool" where
  "finished i s \<longleftrightarrow> session_wf (w_session s) \<and> ses_id (w_session s) = i \<and> ses_state (w_session s) = COMPLETED \<and> row_completed i s"

lemma row_completed_advance:
  "row_completed i s \<Longrightarrow> list_ex (\<lambda>r. ses_id r = i \<and> ses_state r = COMPLETED) (map (advance_row j target e u) (session_rows s))"
  by (force simp: row_completed_def list_ex_iff advance_row_def)

lemma row_completed_keeps:
  fixes s :: "'a store_scheme"
  assumes "row_completed i s"
  shows "row_completed i (snd (advance h code j target e u s))"
    "row_completed i (snd (fail_active_session h j s))" "row_completed i (snd (recover_incomplete_sessions h now s))"
proof -
  have adv: "wp (advance h code j target e u) (\<lambda>_. row_completed i) (\<lambda>_. row_completed i) t"
    if "row_completed i t" for t :: "'a store_scheme" and code j target e u
    using that row_completed_advance [OF that]
    by (auto simp: advance_def wp_transaction Let_def row_completed_def split: option.splits sum.splits)
  from adv [OF assms] show "row_completed i (snd (advance h code j target e u s))" by (simp add: wp_always)
  have r: "row_completed i (t\<lparr>readings := k\<rparr>) = row_completed i t" for k and t :: "'a store_scheme"
    by (simp add: row_completed_def)
  have "wp (fail_active_session h j) (\<lambda>_. row_completed i) (\<lambda>_. row_completed i) s"
    using assms by (auto simp: fail_active_session_def fail_active_row_def Let_def r intro!: adv split: sum.splits option.splits)
  then show "row_completed i (snd (fail_active_session h j s))" by (simp add: wp_always)
  have mark: "wp (mark_all_interrupted h now xs) (\<lambda>_. row_completed i) (\<lambda>_. row_completed i) t"
    if "row_completed i t" for now xs and t :: "'a store_scheme"
    using that
    by (induction xs arbitrary: t) (auto simp: mark_session_interrupted_def intro!: wp_mono [OF adv])
  have "wp (recover_incomplete_sessions h now) (\<lambda>_. row_completed i) (\<lambda>_. row_completed i) s"
    using assms
    by (auto simp: recover_incomplete_sessions_def list_sessions_in_state_def wp_pure Let_def r intro!: mark
        split: option.splits sum.splits)
  then show "row_completed i (snd (recover_incomplete_sessions h now s))" by (simp add: wp_always)
qed

lemma finished_append:
  assumes "finished i s"
  shows "append h b s = (Inl SessionNotActive, s)" "accepts b s = []"
  using assms by (simp_all add: finished_def append_def accepts_def append_checks_def require_active_def ebind_apply guard_def)

text \<open>What a reader of the row sees while the writer has not completed the session.\<close>

lemma unfinished_get_session:
  assumes "writer_inv A s" "unfinished i s"
  shows "wp (get_session h i) (\<lambda>x t. ses_state x \<noteq> COMPLETED \<and> (\<exists>k. t = s\<lparr>readings := k\<rparr>)) (\<lambda>_ t. \<exists>k. t = s\<lparr>readings := k\<rparr>) s"
proof -
  have i: "ses_id (w_session s) = i" "is_uuid i" using assms(2) by (auto simp: unfinished_def session_wf_iff)
  obtain r where r: "find (\<lambda>r. ses_id r = i) (session_rows s) = Some r" "session_wf r" "ses_state r \<noteq> COMPLETED"
    using session_inv_row [OF assms(1) [THEN conjunct1]] assms(2) i(1) by (auto simp: session_row_def unfinished_def)
  then show ?thesis
    using i(2) session_from_row_wf [OF r(2)]
    by (auto simp: get_session_def read_session_def wp_pure require_registered_session_def Let_def split: option.splits)
qed

definition clock_past_zero :: "(nat \<Rightarrow> pyfloat) \<Rightarrow> bool" where
  "clock_past_zero monotonic \<longleftrightarrow> (\<forall>n. \<not> pf_le (float_add (monotonic n) TERMINAL_GRACE_SECONDS) (Fin 0))"

definition session_kept :: "pystr \<Rightarrow> recording \<Rightarrow> bool" where
  "session_kept i s \<longleftrightarrow>
     writer_inv (appended_frames s) s \<and> project_session (rec s) = Some i \<and>
     (if rec_completed (rec s) then finished i s else unfinished i s)"

definition worker_ok :: "recording \<Rightarrow> bool" where
  "worker_ok s \<longleftrightarrow>
     (worker s = NO_WORKER \<longleftrightarrow> \<not> finalization_started (rec s)) \<and>
     (finalization_in_flight (rec s) \<longleftrightarrow> worker s \<noteq> NO_WORKER \<and> worker s \<noteq> EXITED) \<and>
     (rec_completed (rec s) \<longrightarrow> worker s = EXITED)"

definition gate_ok :: "recording \<Rightarrow> bool" where
  "gate_ok s \<longleftrightarrow>
     (settler s \<noteq> UNSETTLED \<longrightarrow> stop_deadline (rec s) = Some (Fin 0) \<and> worker s \<noteq> COMMITTING \<and> worker s \<noteq> NO_WORKER \<and>
        \<not> rec_completed (rec s)) \<and>
     settler s \<noteq> SETTLED (Some COMPLETED) \<and> (owner_waits s \<longrightarrow> settler s \<noteq> UNSETTLED) \<and>
     (FINALIZED_COMPLETED \<in> set (verdicts s) \<longrightarrow> rec_completed (rec s)) \<and>
     (FINALIZED_FAILED \<in> set (verdicts s) \<longrightarrow> settler s \<noteq> UNSETTLED)"

definition verdict_inv :: "pystr \<Rightarrow> recording \<Rightarrow> bool" where
  "verdict_inv i s \<longleftrightarrow> session_kept i s \<and> worker_ok s \<and> gate_ok s"

lemmas verdict_defs = verdict_inv_def session_kept_def worker_ok_def gate_ok_def

lemma session_parts [simp]:
  "unfinished i (s\<lparr>rec := r\<rparr>) = unfinished i s" "unfinished i (s\<lparr>job := j\<rparr>) = unfinished i s"
  "unfinished i (s\<lparr>worker := w\<rparr>) = unfinished i s" "unfinished i (s\<lparr>worker_error := e\<rparr>) = unfinished i s"
  "unfinished i (s\<lparr>settler := u\<rparr>) = unfinished i s" "unfinished i (s\<lparr>owner_waits := b\<rparr>) = unfinished i s"
  "unfinished i (s\<lparr>verdicts := vs\<rparr>) = unfinished i s" "unfinished i (s'\<lparr>appended_frames := fs\<rparr>) = unfinished i s'"
  "finished i (s\<lparr>rec := r\<rparr>) = finished i s" "finished i (s\<lparr>job := j\<rparr>) = finished i s"
  "finished i (s\<lparr>worker := w\<rparr>) = finished i s" "finished i (s\<lparr>worker_error := e\<rparr>) = finished i s"
  "finished i (s\<lparr>settler := u\<rparr>) = finished i s" "finished i (s\<lparr>owner_waits := b\<rparr>) = finished i s"
  "unfinished i (s\<lparr>handed_frames := fs\<rparr>) = unfinished i s" "unfinished i (s\<lparr>append_abandoned := b\<rparr>) = unfinished i s"
  "finished i (s\<lparr>handed_frames := fs\<rparr>) = finished i s" "finished i (s\<lparr>append_abandoned := b\<rparr>) = finished i s"
  "finished i (s\<lparr>verdicts := vs\<rparr>) = finished i s" "finished i (s\<lparr>readings := k\<rparr>) = finished i s"
  by (simp_all add: unfinished_def finished_def row_completed_def)

text \<open>The steps that do not touch the store.\<close>

lemma control_frame:
  assumes "verdict_inv i s" "w_session t = w_session s" "base_dir t = base_dir s" "session_rows t = session_rows s"
    "segment_rows t = segment_rows s" "files t = files s" "w_buffer t = w_buffer s"
    "max_frames_per_segment t = max_frames_per_segment s" "appended_frames t = appended_frames s"
    "project_session (rec t) = project_session (rec s)" "rec_completed (rec t) = rec_completed (rec s)"
    "worker_ok t" "gate_ok t"
  shows "verdict_inv i t"
  using assms by (auto simp: verdict_inv_def session_kept_def unfinished_def finished_def row_completed_def split: if_splits)

lemma append_begins_inv:
  assumes "verdict_inv i s"
  shows "verdict_inv i (snd (append_begins b s))"
  by (rule control_frame [OF assms]; use assms in \<open>auto simp: append_begins_def require_contiguous_batch_def recorder_fail_def
      verdict_inv_def worker_ok_def gate_ok_def split: option.splits\<close>)

lemma append_ends_inv:
  assumes "verdict_inv i s"
  shows "verdict_inv i (snd (append_ends s))"
  by (rule control_frame [OF assms]; use assms in \<open>auto simp: append_ends_def verdict_inv_def worker_ok_def gate_ok_def
      split: option.splits sum.splits\<close>)

lemma owner_inv:
  assumes "verdict_inv i s"
  shows "verdict_inv i (append_cancelled s)" "verdict_inv i (stop_ends s)" "verdict_inv i (on_recorder (recorder_fail c again) s)"
  by ((rule control_frame [OF assms]; use assms in \<open>auto simp: append_cancelled_def stop_ends_def recorder_fail_def
      verdict_inv_def worker_ok_def gate_ok_def\<close>)+)

lemma ghosts_inv:
  assumes "verdict_inv i s"
  shows "verdict_inv i (s\<lparr>handed_frames := fs\<rparr>)" "verdict_inv i (s\<lparr>append_abandoned := b\<rparr>)"
  by ((rule control_frame [OF assms]; use assms in \<open>auto simp: verdict_inv_def worker_ok_def gate_ok_def\<close>)+)

lemma consumer_inv:
  assumes "verdict_inv i s"
  shows "verdict_inv i (recording_step h monotonic (Append_Begins b) s)" "verdict_inv i (recording_step h monotonic Append_Ends s)"
    "verdict_inv i (recording_step h monotonic Append_Cancelled s)"
proof -
  have caught: "verdict_inv i (consumer_catches p)" if "verdict_inv i (snd p)" for p
    using owner_inv(3) [of i "snd p"] that by (cases p; cases "fst p") (auto simp: consumer_catches_def)
  show "verdict_inv i (recording_step h monotonic (Append_Begins b) s)" "verdict_inv i (recording_step h monotonic Append_Ends s)"
    "verdict_inv i (recording_step h monotonic Append_Cancelled s)"
    using assms by (simp_all add: caught append_begins_inv append_ends_inv ghosts_inv owner_inv consumer_cancelled_def)
qed

lemma armed_inv:
  assumes "verdict_inv i s" "\<not> finalization_started (rec s)"
  shows "verdict_inv i (recording_step h monotonic (Deadline_Armed d) s)"
  by (rule control_frame [OF assms(1)]; use assms in \<open>auto simp: arm_stop_deadline_def verdict_inv_def worker_ok_def gate_ok_def\<close>)

lemma stop_begins_inv:
  assumes "verdict_inv i s" "\<not> finalization_started (rec s)"
  shows "verdict_inv i (stop_begins s)"
  by (rule control_frame [OF assms(1)]; use assms in \<open>auto simp: stop_begins_def verdict_inv_def worker_ok_def gate_ok_def\<close>)

lemma gate_closes_inv:
  assumes "verdict_inv i s" "finalization_started (rec s)" "settler s = UNSETTLED"
  shows "verdict_inv i (gate_closes s)"
  by (rule control_frame [OF assms(1)];
    use assms in \<open>auto simp: gate_closes_def close_gate_def holds_terminal_lock_def verdict_inv_def worker_ok_def gate_ok_def\<close>)

lemma gate_answers_inv:
  assumes "verdict_inv i s"
  shows "verdict_inv i (gate_answers c again s)"
  by (rule control_frame [OF assms];
    use assms in \<open>auto simp: gate_answers_def recorder_fail_def verdict_inv_def worker_ok_def gate_ok_def\<close>)

text \<open>The steps of the threads.\<close>

lemma wp_elim:
  assumes "wp m Q E s"
  obtains e t where "m s = (Inl e, t)" "E e t" | a t where "m s = (Inr a, t)" "Q a t"
  using assms by (auto simp: wp_def split: prod.splits sum.splits)

lemma steady_inv:
  assumes "verdict_inv i s" "\<not> rec_completed (rec s)" "steady i s t"
  shows "verdict_inv i t"
  using assms steadyD [OF assms(3)] by (auto simp: verdict_inv_def session_kept_def worker_ok_def gate_ok_def)

lemma append_serially_inv:
  assumes h: "arrow_keeps (host_arrow h)" and inv: "verdict_inv i s" and ok: "pred_option (\<lambda>j. list_all frame_ok (frames (job_batch j))) (job s)"
  shows "verdict_inv i (append_serially h s)"
proof (cases "\<exists>j. job s = Some j \<and> job_result j = None")
  case True
  then obtain j where j: "job s = Some j" "job_result j = None" by blast
  let ?b = "job_batch j"
  let ?s = "s\<lparr>appended_frames := appended_frames s @ accepts ?b s\<rparr>"
  have a: "accepts ?b ?s = accepts ?b s"
    by (simp add: accepts_def append_checks_def require_active_def require_contiguous_sequence_def
        require_ordered_timestamps_def ebind_apply Let_def cong: if_cong split: sum.splits)
  show ?thesis
  proof (cases "rec_completed (rec s)")
    case True
    then have fin: "finished i s" using inv by (simp add: verdict_inv_def session_kept_def)
    have "finished i ?s" using fin by (simp add: finished_def row_completed_def)
    from finished_append [OF this] finished_append(2) [OF fin] have "append_serially h s = s\<lparr>job := Some (j\<lparr>job_result := Some (Inl SessionNotActive)\<rparr>)\<rparr>"
      using j by (simp add: append_serially_def Let_def)
    then show ?thesis
      by (simp, intro control_frame [OF inv]; use inv in \<open>auto simp: verdict_inv_def worker_ok_def gate_ok_def\<close>)
  next
    case False
    then have w: "writer_inv (appended_frames s) ?s" "unfinished i ?s" using inv by (simp_all add: verdict_inv_def session_kept_def)
    have "list_all frame_ok (frames ?b)" using ok j by simp
    from append_wp [OF h w(1) this] unfinished_append [OF w(2)]
    have "wp (append h ?b) (\<lambda>_. steady i ?s) (\<lambda>_. steady i ?s) ?s" by (intro steady_wp) (simp_all add: a)
    then obtain r t where t: "append h ?b ?s = (r, t)" "steady i ?s t" by (cases rule: wp_elim) auto
    then have "append_serially h s = t\<lparr>job := Some (j\<lparr>job_result := Some r\<rparr>)\<rparr>"
      using j by (simp add: append_serially_def Let_def)
    then show ?thesis
      using inv False steadyD [OF t(2)] by (auto simp: verdict_inv_def session_kept_def worker_ok_def gate_ok_def)
  qed
next
  case False
  then have "append_serially h s = s" by (auto simp: append_serially_def split: option.splits)
  then show ?thesis using inv by simp
qed

lemma finish_serially_inv:
  assumes h: "arrow_keeps (host_arrow h)" and inv: "verdict_inv i s" and w: "worker s = FLUSHING"
  shows "verdict_inv i (finish_serially h s)"
proof -
  have nc: "\<not> rec_completed (rec s)" using inv w by (simp add: verdict_inv_def worker_ok_def)
  then have s: "writer_inv (appended_frames s) s" "unfinished i s" using inv by (simp_all add: verdict_inv_def session_kept_def)
  from steady_ops(1) [OF h s] obtain r t where t: "flush_pending h s = (r, t)" "steady i s t" by (cases rule: wp_elim) auto
  have to: "verdict_inv i (u\<lparr>worker := DECIDING\<rparr>)" if "verdict_inv i u" "worker u = FLUSHING" for u
    by (rule control_frame [OF that(1)]; use that in \<open>auto simp: verdict_inv_def worker_ok_def gate_ok_def\<close>)
  have err: "verdict_inv i (u\<lparr>worker_error := e\<rparr>)" if "verdict_inv i u" for u e
    by (rule control_frame [OF that]; use that in \<open>auto simp: verdict_inv_def worker_ok_def gate_ok_def\<close>)
  have "verdict_inv i t" "worker t = FLUSHING" using steady_inv [OF inv nc t(2)] steadyD [OF t(2)] w by simp_all
  then have deciding: "verdict_inv i (t\<lparr>worker := DECIDING\<rparr>)" by (rule to)
  have diagnosed: "verdict_inv i (t\<lparr>worker := DECIDING, rec := recorder_fail ''recorder.finalize_failed'' False (rec t)\<rparr>)"
    using owner_inv(3) [OF deciding, of "''recorder.finalize_failed''" False] by simp
  have erred: "verdict_inv i (t\<lparr>worker := DECIDING, worker_error := e\<rparr>)" for e
    by (rule err [OF deciding])
  show ?thesis
  proof (cases r)
    case (Inl e)
    show ?thesis
      unfolding finish_serially_def t(1) Inl prod.case sum.case diagnose_finalize_failure_def
      using to [OF inv w] diagnosed erred by (simp split del: if_split) (simp split: if_split)
  next
    case (Inr u)
    then show ?thesis
      unfolding finish_serially_def t(1) Inr prod.case sum.case using to [OF inv w] deciding by (rule_tac if_splits(1) [THEN iffD2]) simp
  qed
qed

lemma gate_open_apply:
  "gate_open monotonic s =
    (if rec_failure (rec s) \<noteq> None then (Inr False, s)
     else case stop_deadline (rec s) of None \<Rightarrow> (Inr True, s)
       | Some d \<Rightarrow> (Inr (pf_le (float_add (monotonic (readings s)) TERMINAL_GRACE_SECONDS) d), s\<lparr>readings := Suc (readings s)\<rparr>))"
  by (simp add: gate_open_def ebind_apply exec_apply reading_def split: option.splits)

lemma decide_enters_inv:
  assumes "clock_past_zero monotonic" and inv: "verdict_inv i s" and w: "worker s = DECIDING"
  shows "verdict_inv i (decide_enters monotonic s)"
proof -
  have "worker_ok (decide_enters monotonic s)"
    using inv w by (auto simp: decide_enters_def gate_open_apply verdict_inv_def worker_ok_def split: option.splits)
  moreover have "gate_ok (decide_enters monotonic s)"
    using assms by (auto simp: decide_enters_def gate_open_apply verdict_inv_def gate_ok_def clock_past_zero_def split: option.splits)
  ultimately show ?thesis
    by (rule_tac control_frame [OF inv]) (auto simp: decide_enters_def gate_open_apply split: option.splits)
qed

lemma worker_exits_inv:
  assumes "verdict_inv i s" "worker s \<noteq> NO_WORKER"
  shows "verdict_inv i (worker_exits s)"
  by (rule control_frame [OF assms(1)]; use assms in \<open>auto simp: worker_exits_def verdict_inv_def worker_ok_def gate_ok_def\<close>)

lemma worker_error_inv:
  assumes "verdict_inv i s"
  shows "verdict_inv i (s\<lparr>worker_error := e\<rparr>)"
  by (rule control_frame [OF assms]; use assms in \<open>auto simp: verdict_inv_def worker_ok_def gate_ok_def\<close>)

lemma commit_outcomes:
  assumes inv: "verdict_inv i s" and w: "worker s = COMMITTING"
  shows "wp (commit_completed h)
    (\<lambda>_ t. stays (appended_frames s) s t \<and> finished i t \<and> ses_frame_count (w_session t) = ses_frame_count (w_session s))
    (\<lambda>_. steady i s) s"
proof -
  have nc: "\<not> rec_completed (rec s)" using inv w by (simp add: verdict_inv_def worker_ok_def)
  then have s: "writer_inv (appended_frames s) s" "unfinished i s" using inv by (simp_all add: verdict_inv_def session_kept_def)
  have "ses_id (w_session s) = i" using s(2) by (simp add: unfinished_def)
  then show ?thesis
    by (intro wp_mono [OF wp_conj [OF commit_completed_wp [OF s(1)] unfinished_commit_completed [OF s(2)]]])
      (auto simp: stays_def finished_def row_completed_def steady_def session_inv_def)
qed

lemma decide_commits_inv:
  assumes inv: "verdict_inv i s" and w: "worker s = COMMITTING"
  shows "verdict_inv i (decide_commits h s)"
proof -
  have nc: "\<not> rec_completed (rec s)" "settler s = UNSETTLED" using inv w by (auto simp: verdict_inv_def worker_ok_def gate_ok_def)
  from commit_outcomes [OF inv w] show ?thesis
  proof (rule wp_elim)
    fix e t
    assume 1: "commit_completed h s = (Inl e, t)" "steady i s t"
    have t: "verdict_inv i t" "worker t = COMMITTING" using steady_inv [OF inv nc(1) 1(2)] steadyD [OF 1(2)] w by simp_all
    have "verdict_inv i (t\<lparr>worker := REFUSING\<rparr>)"
      by (rule control_frame [OF t(1)]; use t in \<open>auto simp: verdict_inv_def worker_ok_def gate_ok_def\<close>)
    then have "verdict_inv i (t\<lparr>worker := REFUSING, rec := recorder_fail ''recorder.finalize_failed'' False (rec t)\<rparr>)"
      using owner_inv(3) [of i "t\<lparr>worker := REFUSING\<rparr>"] by simp
    moreover have "verdict_inv i (worker_exits (t\<lparr>worker_error := Some e\<rparr>))"
      using t by (simp add: worker_exits_inv worker_error_inv)
    ultimately show ?thesis by (simp add: decide_commits_def diagnose_finalize_failure_def 1(1))
  next
    fix a t
    assume 2: "commit_completed h s = (Inr a, t)" "stays (appended_frames s) s t \<and> finished i t \<and>
      ses_frame_count (w_session t) = ses_frame_count (w_session s)"
    note f = more_fields [of t s]
    have "writer.more t = writer.more s" using 2(2) by (simp add: stays_def)
    then show ?thesis
      using inv nc w 2 f
      by (auto simp: decide_commits_def worker_exits_def verdict_inv_def session_kept_def worker_ok_def gate_ok_def stays_def)
  qed
qed

lemma decide_refuses_inv:
  assumes h: "arrow_keeps (host_arrow h)" and inv: "verdict_inv i s" and w: "worker s = REFUSING"
  shows "verdict_inv i (decide_refuses h s)"
proof -
  have nc: "\<not> rec_completed (rec s)" using inv w by (auto simp: verdict_inv_def worker_ok_def)
  define u where "u = on_recorder (\<lambda>r. (if rec_failure r = None then recorder_fail ''recorder.stop_deadline_exceeded'' False r else r)
    \<lparr>rec_state := REC_FAILED\<rparr>) s"
  have same: "worker_ok u" "gate_ok u" using inv by (auto simp: u_def recorder_fail_def verdict_inv_def worker_ok_def gate_ok_def)
  have u: "verdict_inv i u" "\<not> rec_completed (rec u)" "worker u = REFUSING"
    using w nc control_frame [OF inv _ _ _ _ _ _ _ _ _ _ same] by (simp_all add: u_def recorder_fail_def)
  then have "writer_inv (appended_frames u) u" "unfinished i u" by (simp_all add: verdict_inv_def session_kept_def)
  from steady_ops(2) [OF h this] obtain r t where t: "fail h u = (r, t)" "steady i u t" by (cases rule: wp_elim) auto
  have "verdict_inv i t" "worker t \<noteq> NO_WORKER" using steady_inv [OF u(1,2) t(2)] steadyD [OF t(2)] u(3) by simp_all
  then have "verdict_inv i (worker_exits t)" "verdict_inv i (worker_exits (t\<lparr>worker_error := e\<rparr>))" for e
    by (auto intro: worker_exits_inv worker_error_inv)
  then show ?thesis
    using nc t(1) by (simp add: decide_refuses_def Let_def u_def [symmetric] split: sum.splits)
qed

lemma settle_step_inv:
  assumes h: "arrow_keeps (host_arrow h)" and inv: "verdict_inv i s"
  shows "verdict_inv i (settle_step h s)"
proof (cases "settler s = TO_FAIL \<or> settler s = TO_READ")
  case True
  then have nc: "\<not> rec_completed (rec s)" using inv by (auto simp: verdict_inv_def gate_ok_def)
  then have s: "writer_inv (appended_frames s) s" "unfinished i s" "project_session (rec s) = Some i"
    using inv by (simp_all add: verdict_inv_def session_kept_def)
  have settled: "verdict_inv i (u\<lparr>settler := v\<rparr>)" if "verdict_inv i u" "v \<noteq> SETTLED (Some COMPLETED)" "v \<noteq> UNSETTLED" "settler u \<noteq> UNSETTLED" for u v
    by (rule control_frame [OF that(1)]; use that in \<open>auto simp: verdict_inv_def worker_ok_def gate_ok_def\<close>)
  from True show ?thesis
  proof
    assume a: "settler s = TO_FAIL"
    from steady_ops(3) [OF h s(1,2)] obtain r t where t: "fail_active_session h i s = (r, t)" "steady i s t" by (cases rule: wp_elim) auto
    have "verdict_inv i t" "settler t = TO_FAIL" using steady_inv [OF inv nc t(2)] steadyD [OF t(2)] a by simp_all
    then show ?thesis using a s(3) t(1) settled by (cases r) (simp_all add: settle_step_def)
  next
    assume a: "settler s = TO_READ"
    have k: "verdict_inv i (s\<lparr>readings := k\<rparr>)" for k
      by (rule control_frame [OF inv]; use inv in \<open>auto simp: verdict_inv_def worker_ok_def gate_ok_def\<close>)
    from unfinished_get_session [OF s(1,2), of h] show ?thesis
      by (cases rule: wp_elim) (use a s(3) settled [OF k] in \<open>auto simp: settle_step_def\<close>)
  qed
next
  case False
  then have "settle_step h s = s" by (auto simp: settle_step_def split: settling.splits option.splits)
  then show ?thesis using inv by simp
qed

text \<open>The operations of the writer leave the recorder and its threads alone.\<close>

lemma untouched_more: "keeps untouched m \<Longrightarrow> keeps writer.more m"
  by (simp add: keeps_def untouched_def)

lemma keeps_more [keeps_intros]:
  "keeps writer.more (flush_pending h)" "keeps writer.more (fail h)" "keeps writer.more (commit_completed h)"
  "keeps writer.more (fail_active_session h j)" "keeps writer.more (recover_incomplete_sessions h now)" "keeps writer.more (get_session h j)"
proof -
  note own = untouched_more [OF untouched_commit] untouched_more [OF untouched_mark_failed]
  show "keeps writer.more (flush_pending h)"
    unfolding flush_pending_def require_active_def by (intro keeps_intros own) simp_all
  show "keeps writer.more (fail h)" unfolding fail_def by (intro keeps_intros own) simp_all
  show "keeps writer.more (commit_completed h)" by (rule untouched_more [OF untouched_commit_completed])
  have adv: "keeps writer.more (advance h c i target e u)" for c i target e u
    unfolding advance_def by (intro keeps_intros) simp_all
  show "keeps writer.more (fail_active_session h j)"
    unfolding fail_active_session_def fail_active_row_def by (intro keeps_intros adv) simp_all
  have mark: "keeps writer.more (mark_all_interrupted h now xs)" for now xs
    by (induction xs) (auto simp: mark_session_interrupted_def intro!: keeps_intros adv)
  show "keeps writer.more (recover_incomplete_sessions h now)"
    unfolding recover_incomplete_sessions_def list_sessions_in_state_def by (auto intro!: keeps_intros mark)
  show "keeps writer.more (get_session h j)"
    unfolding get_session_def read_session_def by (intro keeps_intros) simp_all
qed

lemma job_kept:
  fixes s t :: recording
  shows "keeps writer.more m \<Longrightarrow> m s = (r, t) \<Longrightarrow> job t = job s"
  by (rule more_fields(3), erule (1) keepsD)

lemma more_kept:
  fixes m :: "(recording, exn, 'z) exec"
  assumes "keeps writer.more m"
  shows "job (snd (m s)) = job s" "rec (snd (m s)) = rec s" "worker (snd (m s)) = worker s" "worker_error (snd (m s)) = worker_error s"
    "appended_frames (snd (m s)) = appended_frames s" "handed_frames (snd (m s)) = handed_frames s" "append_abandoned (snd (m s)) = append_abandoned s"
  using assms more_fields [of "snd (m s)" s] by (simp_all add: keeps_def)

lemma job_unchanged:
  "job (worker_step h monotonic s) = job s" "job (settle_step h s) = job s"
  by (auto simp: worker_step_def finish_serially_def decide_enters_def gate_open_apply decide_commits_def decide_refuses_def
      worker_exits_def Let_def settle_step_def split: worker_phase.splits prod.splits sum.splits option.splits settling.splits
      dest!: job_kept [OF keeps_more(1)] job_kept [OF keeps_more(2)] job_kept [OF keeps_more(3)] job_kept [OF keeps_more(4)]
        job_kept [OF keeps_more(6)])

lemma service_kept:
  fixes m :: "(recording, exn, 'z) exec"
  assumes inv: "verdict_inv i s" and m: "wp m (\<lambda>_. stays (appended_frames s) s) (\<lambda>_. stays (appended_frames s) s) s"
    "keeps w_session m" "row_completed i s \<Longrightarrow> row_completed i (snd (m s))"
  shows "verdict_inv i (snd (m s))"
proof -
  have t: "stays (appended_frames s) s (snd (m s))" "w_session (snd (m s)) = w_session s" using m(1,2) by (simp_all add: wp_always keeps_def)
  note f = more_fields [of "snd (m s)" s]
  show ?thesis
    using inv t f m(3) by (auto simp: verdict_inv_def session_kept_def worker_ok_def gate_ok_def stays_def finished_def unfinished_def)
qed

lemma service_inv:
  assumes "verdict_inv i s"
  shows "verdict_inv i (snd (fail_active_session h j s))" "verdict_inv i (snd (recover_incomplete_sessions h now s))"
proof -
  have "writer_inv (appended_frames s) s" using assms by (simp add: verdict_inv_def session_kept_def)
  then show "verdict_inv i (snd (fail_active_session h j s))" "verdict_inv i (snd (recover_incomplete_sessions h now s))"
    by (auto intro!: service_kept assms fail_active_wp recover_wp keeps_session_fail_active keeps_session_writes row_completed_keeps)
qed

text \<open>Every batch that is handed to the thread consists of well-formed frames.\<close>

definition job_ok :: "recording \<Rightarrow> bool" where
  "job_ok s \<longleftrightarrow> pred_option (\<lambda>j. list_all frame_ok (frames (job_batch j))) (job s)"

lemma recording_step_inv:
  assumes h: "arrow_keeps (host_arrow h)" and clock: "clock_past_zero monotonic"
    and inv: "verdict_inv i s" "job_ok s" and may: "owner_may e s"
  shows "verdict_inv i (recording_step h monotonic e s) \<and> job_ok (recording_step h monotonic e s)"
proof
  show "job_ok (recording_step h monotonic e s)"
    using inv(2) may
    by (cases e) (auto simp: job_ok_def job_unchanged owner_may_def append_begins_def require_contiguous_batch_def append_serially_def consumer_catches_def
        consumer_cancelled_def append_ends_def append_cancelled_def stop_begins_def stop_ends_def gate_closes_def gate_answers_def Let_def
        more_kept keeps_more option.pred_map comp_def
        split: option.splits sum.splits prod.splits session_call.splits if_splits)
  show "verdict_inv i (recording_step h monotonic e s)"
  proof (cases e)
    case Append_Runs
    then show ?thesis using append_serially_inv [OF h inv(1)] inv(2) by (simp add: job_ok_def)
  next
    case Worker_Runs
    then show ?thesis
      using inv(1) finish_serially_inv [OF h inv(1)] decide_enters_inv [OF clock inv(1)] decide_commits_inv [OF inv(1)]
        decide_refuses_inv [OF h inv(1)]
      by (simp add: worker_step_def split: worker_phase.splits)
  next
    case (Service_Call c)
    have "verdict_inv i (snd (fail_active_session h j s)) \<and> verdict_inv i (snd (recover_incomplete_sessions h now s))" for j now
      using service_inv [OF inv(1)] by simp
    then show ?thesis using Service_Call inv(1) by (simp split: session_call.splits)
  qed (use inv may consumer_inv owner_inv armed_inv stop_begins_inv gate_closes_inv gate_answers_inv settle_step_inv [OF h]
      in \<open>simp_all add: owner_may_def del: recording_step.simps(1,3,4)\<close>)
qed

text \<open>
  Nothing that the consumer handed over is left behind, unless it was cancelled while an append
  was under way: a finalisation finds no append, without a failure every batch handed over was
  accepted, and the worker enters the decision with an empty buffer, unless the flush raised
  what it does not handle.
\<close>

definition hand_over_ok :: "append_job option \<Rightarrow> frame list \<Rightarrow> frame list \<Rightarrow> bool" where
  "hand_over_ok jb handed accepted \<longleftrightarrow>
     (case jb of
        None \<Rightarrow> handed = accepted
      | Some j \<Rightarrow> (case job_result j of
            None \<Rightarrow> handed = accepted @ frames (job_batch j)
          | Some (Inl _) \<Rightarrow> True
          | Some (Inr _) \<Rightarrow> handed = accepted))"

definition passing :: "recording \<Rightarrow> bool" where
  "passing s \<longleftrightarrow> rec_failure (rec s) = None \<or> worker s = COMMITTING \<or> rec_completed (rec s)"

definition drained :: "recording \<Rightarrow> bool" where
  "drained s \<longleftrightarrow> \<not> append_abandoned s \<longrightarrow>
     pred_option job_awaited (job s) \<and> (finalization_started (rec s) \<longrightarrow> job s = None) \<and>
     (passing s \<longrightarrow> hand_over_ok (job s) (handed_frames s) (appended_frames s)) \<and>
     (worker s = DECIDING \<and> rec_failure (rec s) = None \<and> worker_error s = None \<longrightarrow> w_buffer s = []) \<and>
     (worker s = COMMITTING \<and> worker_error s = None \<longrightarrow> w_buffer s = []) \<and>
     (rec_completed (rec s) \<and> worker_error s = None \<longrightarrow>
        ses_frame_count (w_session s) = int (length (appended_frames s)))"

lemmas drained_defs = drained_def passing_def

lemma keeps_buffer:
  "keeps w_buffer (get_session h i)" "keeps w_buffer (recover_incomplete_sessions h now)"
proof -
  show "keeps w_buffer (get_session h i)" unfolding get_session_def read_session_def by (intro keeps_intros; simp)
  have "keeps w_buffer (mark_all_interrupted h now xs)" for now xs
    by (induction xs) (auto simp: mark_session_interrupted_def advance_def intro!: keeps_intros)
  then show "keeps w_buffer (recover_incomplete_sessions h now)"
    unfolding recover_incomplete_sessions_def list_sessions_in_state_def by (auto intro!: keeps_intros)
qed

lemma keeps_session_get: "keeps w_session (get_session h i)"
  unfolding get_session_def read_session_def by (intro keeps_intros; simp)

lemma drained_same:
  fixes m :: "(recording, exn, 'z) exec"
  assumes "drained s" "keeps writer.more m" "keeps w_session m" "keeps w_buffer m"
  shows "drained (snd (m s))"
  using assms more_kept [OF assms(2), of s] by (simp add: drained_defs keeps_def)

lemma drained_fails: "drained s \<Longrightarrow> drained (on_recorder (recorder_fail c again) s)"
  by (cases "job s") (auto simp: drained_defs recorder_fail_def split: option.splits)

lemma drained_begins:
  assumes "drained s" "worker_ok s" "\<not> finalization_started (rec s)"
  shows "job s = None \<Longrightarrow> drained (recording_step h monotonic (Append_Begins b) s)"
    "drained (recording_step h monotonic (Deadline_Armed d) s)"
    "pred_option (\<lambda>j. \<not> job_awaited j) (job s) \<Longrightarrow> drained (stop_begins s)"
proof -
  have idle: "worker s = NO_WORKER" "\<not> rec_completed (rec s)" using assms(2,3) by (auto simp: worker_ok_def)
  show "job s = None \<Longrightarrow> drained (recording_step h monotonic (Append_Begins b) s)"
    using assms idle
    by (auto simp: drained_defs hand_over_ok_def consumer_catches_def append_begins_def require_contiguous_batch_def recorder_fail_def split: option.splits)
  show "drained (recording_step h monotonic (Deadline_Armed d) s)"
    using assms idle by (cases "job s"; cases "isfinite d") (auto simp: drained_defs hand_over_ok_def arm_stop_deadline_def split: option.splits sum.splits)
  show "pred_option (\<lambda>j. \<not> job_awaited j) (job s) \<Longrightarrow> drained (stop_begins s)"
    using assms idle by (cases "job s") (auto simp: drained_defs hand_over_ok_def stop_begins_def)
qed

lemma drained_ends:
  assumes "drained s" "worker_ok s"
  shows "drained (recording_step h monotonic Append_Ends s)"
proof (cases "append_abandoned s \<or> job s = None")
  case True
  then show ?thesis
    using assms
    by (auto simp: drained_defs hand_over_ok_def consumer_catches_def append_ends_def recorder_fail_def split: option.splits sum.splits)
next
  case False
  then obtain j where j: "job s = Some j" by blast
  have "\<not> finalization_started (rec s)" "job_awaited j" using assms(1) False j by (auto simp: drained_def)
  moreover have "worker s = NO_WORKER" "\<not> rec_completed (rec s)" using assms(2) calculation by (auto simp: worker_ok_def)
  ultimately show ?thesis
    using assms(1) False j
    by (auto simp: drained_defs hand_over_ok_def consumer_catches_def append_ends_def recorder_fail_def split: option.splits sum.splits)
qed

lemma drained_cancelled: "drained s \<Longrightarrow> drained (recording_step h monotonic Append_Cancelled s)"
  by (cases "job s") (auto simp: drained_defs hand_over_ok_def consumer_cancelled_def append_cancelled_def)

lemma append_accepts:
  assumes "append h b s = (Inr x, t)"
  shows "accepts b s = frames b"
proof -
  obtain r where "append_checks b s = (r, s)" using append_checks_state by blast
  with assms show ?thesis by (cases r) (simp_all add: append_def ebind_apply accepts_def)
qed

lemma drained_stop_ends: "drained s \<Longrightarrow> drained (stop_ends s)"
  by (simp add: drained_defs stop_ends_def)

lemma drained_gate: "drained s \<Longrightarrow> drained (gate_closes s)"
  by (simp add: drained_defs gate_closes_def close_gate_def)

lemma drained_answers: "drained s \<Longrightarrow> drained (gate_answers c again s)"
  using drained_fails [of s c again] unfolding gate_answers_def by (simp add: drained_defs)

lemma drained_enters:
  assumes "drained s" "worker_ok s" "worker s = DECIDING"
  shows "drained (decide_enters monotonic s)"
  using assms by (auto simp: drained_defs hand_over_ok_def worker_ok_def decide_enters_def gate_open_apply split: option.splits)


lemma drained_exits: "drained s \<Longrightarrow> worker s \<noteq> NO_WORKER \<Longrightarrow> drained (worker_exits s)"
  by (simp add: drained_defs worker_exits_def)

lemma drained_error: "drained s \<Longrightarrow> drained (s\<lparr>worker_error := Some e\<rparr>)"
  by (simp add: drained_defs)

lemma drained_append:
  assumes h: "arrow_keeps (host_arrow h)" and inv: "drained s" "verdict_inv i s" "job_ok s"
  shows "drained (append_serially h s)"
proof (cases "\<exists>j. job s = Some j \<and> job_result j = None")
  case True
  then obtain j where j: "job s = Some j" "job_result j = None" by blast
  let ?b = "job_batch j"
  define u where "u = s\<lparr>appended_frames := appended_frames s @ accepts ?b s\<rparr>"
  obtain r t where t: "append h ?b u = (r, t)" by fastforce
  then have step: "append_serially h s = t\<lparr>job := Some (j\<lparr>job_result := Some r\<rparr>)\<rparr>"
    using j by (simp add: append_serially_def u_def)
  have "writer_inv (appended_frames s) u" using inv(2) by (simp add: u_def verdict_inv_def session_kept_def)
  then have "wp (append h ?b) (\<lambda>_ t. writer.more t = writer.more u) (\<lambda>_ t. writer.more t = writer.more u) u"
    using inv(3) j by (intro wp_mono [OF append_wp [OF h]]) (auto simp: job_ok_def stays_def)
  then have "writer.more t = writer.more u" using t by (simp add: wp_always)
  note f = more_fields [OF this]
  have idle: "worker s = NO_WORKER" "\<not> rec_completed (rec s)" if "\<not> append_abandoned s"
    using inv that j by (auto simp: drained_def verdict_inv_def worker_ok_def)
  have a: "accepts ?b u = accepts ?b s"
    by (simp add: u_def accepts_def append_checks_def require_active_def require_contiguous_sequence_def
        require_ordered_timestamps_def ebind_apply Let_def cong: if_cong split: sum.splits)
  have "accepts ?b s = frames ?b" if "r = Inr x" for x using append_accepts [of h ?b u x t] t that a by simp
  then show ?thesis
    using inv(1) idle f j unfolding step by (cases r) (auto simp: drained_defs hand_over_ok_def u_def)
next
  case False
  then have "append_serially h s = s" by (auto simp: append_serially_def split: option.splits)
  then show ?thesis using inv(1) by simp
qed

lemma drained_flush:
  assumes h: "arrow_keeps (host_arrow h)" and inv: "drained s" "verdict_inv i s" "worker s = FLUSHING"
  shows "drained (finish_serially h s)"
proof -
  have nc: "\<not> rec_completed (rec s)" "worker_ok s" using inv by (simp_all add: verdict_inv_def worker_ok_def)
  have w: "writer_inv (appended_frames s) s" using inv(2) by (simp add: verdict_inv_def session_kept_def)
  obtain r t where t: "flush_pending h s = (r, t)" "r = Inr () \<longrightarrow> w_buffer t = []" "writer.more t = writer.more s"
    by (rule wp_elim [OF flush_pending_wp [OF h w]]) (auto simp: stays_def)
  note f = more_fields [OF t(3)]
  show ?thesis
    using inv nc f t(2)
    by (cases r; cases "job s") (auto simp: finish_serially_def t(1) drained_defs diagnose_finalize_failure_def recorder_fail_def)
qed

lemma commit_active:
  fixes s :: "'a writer_scheme"
  shows "commit_completed h s = (Inr x, t) \<Longrightarrow> ses_state (w_session s) = ACTIVE"
  by (auto simp: commit_completed_def require_active_def ebind_apply eseq_def guard_def split: if_splits)

lemma drained_commits:
  assumes "drained s" "verdict_inv i s" "worker s = COMMITTING"
  shows "drained (decide_commits h s)"
proof -
  have nc: "\<not> rec_completed (rec s)" using assms by (simp add: verdict_inv_def worker_ok_def)
  from commit_outcomes [OF assms(2,3)] show ?thesis
  proof (rule wp_elim)
    fix e t
    assume 1: "commit_completed h s = (Inl e, t)" "steady i s t"
    then show ?thesis
      using nc assms steadyD [OF 1(2)]
      by (cases "job s") (auto simp: decide_commits_def worker_exits_def drained_defs diagnose_finalize_failure_def recorder_fail_def)
  next
    fix a t
    assume 2: "commit_completed h s = (Inr a, t)" "stays (appended_frames s) s t \<and> finished i t \<and>
      ses_frame_count (w_session t) = ses_frame_count (w_session s)"
    then have f: "writer.more t = writer.more s" by (simp add: stays_def)
    have "\<not> append_abandoned s \<Longrightarrow> worker_error s = None \<Longrightarrow> ses_frame_count (w_session s) = int (length (appended_frames s))"
      using winv_count [OF _ commit_active [OF 2(1)], of "appended_frames s" "[]" "base_dir s" "session_rows s" "segment_rows s" "files s"]
        assms by (simp add: drained_def verdict_inv_def session_kept_def)
    then show ?thesis
      using 2 assms nc more_fields [OF f]
      by (auto simp: decide_commits_def worker_exits_def drained_defs)
  qed
qed

lemma drained_refuses:
  assumes "drained s" "\<not> rec_completed (rec s)" "worker s = REFUSING"
  shows "drained (decide_refuses h s)"
proof -
  define u where "u = on_recorder (\<lambda>r. (if rec_failure r = None then recorder_fail ''recorder.stop_deadline_exceeded'' False r else r)
    \<lparr>rec_state := REC_FAILED\<rparr>) s"
  obtain r t where t: "fail h u = (r, t)" by fastforce
  have "writer.more t = writer.more u" by (rule keepsD [OF keeps_more(2) t])
  note f = more_fields [OF this]
  have "drained u" "\<not> rec_completed (rec u)" "worker u = REFUSING" using assms by (auto simp: u_def drained_defs recorder_fail_def pred_option_def)
  then show ?thesis
    using assms(2) f by (cases r) (simp_all add: decide_refuses_def Let_def u_def [symmetric] t drained_defs worker_exits_def)
qed

definition recording_inv :: "pystr \<Rightarrow> recording \<Rightarrow> bool" where
  "recording_inv i s \<longleftrightarrow> verdict_inv i s \<and> job_ok s \<and> drained s"

lemma drained_settles: "drained s \<Longrightarrow> drained (settle_step h s)"
proof -
  assume d: "drained s"
  have set: "drained (u\<lparr>settler := v\<rparr>) = drained u" for u v by (simp add: drained_defs)
  have "drained (snd (fail_active_session h j s))" "drained (snd (get_session h j s))" for j
    using d by (auto intro!: drained_same keeps_more keeps_session_fail_active keeps_session_get keeps_buffer)
  note k = this
  show ?thesis
    using d k(1) [of "the (project_session (rec s))"] k(2) [of "the (project_session (rec s))"]
    by (auto simp: settle_step_def set split: settling.splits option.splits prod.splits sum.splits)
qed

lemma recording_inv_step:
  assumes h: "arrow_keeps (host_arrow h)" and clock: "clock_past_zero monotonic"
    and inv: "recording_inv i s" and may: "owner_may e s"
  shows "recording_inv i (recording_step h monotonic e s)"
proof -
  have d: "drained s" and v: "verdict_inv i s" and j: "job_ok s" and w: "worker_ok s"
    using inv by (simp_all add: recording_inv_def verdict_inv_def)
  have "drained (recording_step h monotonic e s)"
  proof (cases e)
    case Worker_Runs
    have "worker s = REFUSING \<Longrightarrow> \<not> rec_completed (rec s)" using w by (auto simp: worker_ok_def)
    then show ?thesis
      using Worker_Runs d drained_flush [OF h d v] drained_enters [OF d w] drained_commits [OF d v] drained_refuses [OF d]
      by (simp add: worker_step_def split: worker_phase.splits)
  next
    case (Service_Call c)
    have "drained (snd (fail_active_session h j s))" "drained (snd (recover_incomplete_sessions h now s))" for j now
      using d by (auto intro!: drained_same keeps_more keeps_session_fail_active keeps_session_writes keeps_buffer)
    then show ?thesis using Service_Call d by (simp split: session_call.splits)
  qed (use d may drained_begins [OF d w] drained_append [OF h d v j] drained_ends [OF d w] drained_cancelled [OF d] drained_stop_ends drained_fails
      drained_gate drained_answers drained_settles in \<open>simp_all add: owner_may_def del: recording_step.simps(1,3,4,5)\<close>)
  with recording_step_inv [OF h clock v j may] show ?thesis by (simp add: recording_inv_def)
qed

lemma reaches_inv:
  assumes h: "arrow_keeps (host_arrow h)" "clock_past_zero monotonic" and inv: "recording_inv i s"
    and r: "reaches h monotonic s t"
  shows "recording_inv i t"
  using r by induction (auto intro: inv recording_inv_step [OF h])

text \<open>A recorder that was just made, on a sound store.\<close>

definition ready_recording :: "recording \<Rightarrow> bool" where
  "ready_recording s \<longleftrightarrow> store_ok (base_dir s) (session_rows s) (segment_rows s) (files s) \<and> 0 < max_frames_per_segment s \<and>
     appended_frames s = [] \<and> handed_frames s = [] \<and> \<not> append_abandoned s \<and> rec s = new_project_recorder \<and> job s = None \<and> worker s = NO_WORKER \<and> worker_error s = None \<and>
     settler s = UNSETTLED \<and> \<not> owner_waits s \<and> verdicts s = []"

lemma started_inv:
  assumes "ready_recording s0" "recorder_start h stream s0 = (Inr (), s1)"
  shows "recording_inv (ses_id (w_session s1)) s1"
proof -
  obtain t where t: "start h stream s0 = (Inr (), t)"
    using assms by (auto simp: recorder_start_def ready_recording_def new_project_recorder_def split: prod.splits sum.splits)
  have more: "writer.more t = writer.more s0" using t by (rule keepsD [OF keeps_more_start])
  note f = more_fields [OF more]
  have w: "writer_inv [] t" "ses_state (w_session t) = ACTIVE"
    using wp_Inr [OF start_wp t] assms(1) by (simp_all add: ready_recording_def)
  then have "session_wf (w_session t)" by (simp add: session_inv_def)
  with w f t assms show ?thesis
    by (auto simp: recorder_start_def ready_recording_def new_project_recorder_def recording_inv_def verdict_inv_def session_kept_def
        unfinished_def worker_ok_def gate_ok_def job_ok_def drained_defs hand_over_ok_def)
qed

end
