(* ===== verification/Recorder_Verdicts.thy ===== *)
theory Recorder_Verdicts
  imports Recorder_Invariant
begin

text \<open>
  What the verdicts of a project recorder mean: they agree with the row of the session, a
  recording that completed is whole, and a finalisation that began settles.
\<close>

fun permitted :: "data_host \<Rightarrow> (nat \<Rightarrow> pyfloat) \<Rightarrow> recording_event list \<Rightarrow> recording \<Rightarrow> bool" where
  "permitted h monotonic [] s = True"
| "permitted h monotonic (e # es) s = (owner_may e s \<and> permitted h monotonic es (recording_step h monotonic e s))"

lemma reaches_permitted:
  "reaches h monotonic s t \<Longrightarrow> permitted h monotonic es t \<Longrightarrow>
    reaches h monotonic s (run_calls (recording_step h monotonic) es t)"
  by (induction es arbitrary: t) (auto intro: reaches_step)

section \<open>A recording that runs\<close>

definition demo_recording :: recording where
  "demo_recording = \<lparr>base_dir = [codes ''p''], project_id = uuid_text 5, session_rows = [], segment_rows = [], files = [],
     directories = [], readings = 0, w_session = new_session [] [] [] 0, max_frames_per_segment = 5, w_buffer = [],
     last_appended_sequence = None, last_appended_timestamp = None, appended_frames = [],
     rec = new_project_recorder, job = None, worker = NO_WORKER, worker_error = None, settler = UNSETTLED,
     owner_waits = False, verdicts = [], handed_frames = [], append_abandoned = False\<rparr>"

definition demo_clock :: "nat \<Rightarrow> pyfloat" where
  "demo_clock = (\<lambda>_. Fin 1)"

definition demo_opened :: recording where
  "demo_opened = demo_recording\<lparr>session_rows := [demo_session], w_session := demo_session, readings := 5,
     directories := [segments_directory [codes ''p''] (uuid_text 3)],
     rec := new_project_recorder\<lparr>has_writer := True, project_session := Some (uuid_text 3), rec_state := REC_RECORDING\<rparr>\<rparr>"

lemma demo_recording_starts: "recorder_start demo_host demo_stream demo_recording = (Inr (), demo_opened)"
proof -
  have "start demo_host demo_stream demo_recording = (Inr (), demo_recording\<lparr>session_rows := [demo_session], w_session := demo_session,
    readings := 5, directories := [segments_directory [codes ''p''] (uuid_text 3)]\<rparr>)"
    using demo_session_init
    by (simp add: start_def demo_stream Let_def ebind_apply exec_apply reading_def demo_host_def demo_recording_def
      create_session_directory_def with_connection_def demo_session_def insert_session_def transaction_def
      bind_session_def bind_uuid stored_session_def new_session_def bind_int_def bind_optional_def)
  then show ?thesis
    by (simp add: recorder_start_def demo_recording_def demo_opened_def new_project_recorder_def demo_session_def new_session_def)
qed

lemma demo_recording_ready: "ready_recording demo_recording" "clock_past_zero demo_clock"
proof -
  show "ready_recording demo_recording" by (simp add: ready_recording_def demo_recording_def store_ok_def)
  have "\<not> pf_le (float_add (Fin 1) TERMINAL_GRACE_SECONDS) (Fin 0)" by code_simp
  then show "clock_past_zero demo_clock" by (simp add: clock_past_zero_def demo_clock_def)
qed

lemma demo_append_step:
  fixes s :: "'a writer_scheme"
  assumes "w_session s = demo_session" "last_appended_sequence s = None" "last_appended_timestamp s = None" "w_buffer s = []"
    "max_frames_per_segment s = 5"
  shows "append demo_host (demo_batch 0) s = (Inr (), s\<lparr>w_buffer := demo_fs, last_appended_sequence := Some 2,
     last_appended_timestamp := Some (FloatNum (Fin 0))\<rparr>)" "accepts (demo_batch 0) s = demo_fs"
proof -
  have checks: "append_checks (demo_batch 0) s = (Inr (), s)"
    using assms
    by (simp add: append_checks_def require_active_def ebind_apply demo_session_def new_session_def
        demo_batch_def sample_frame_def require_contiguous_sequence_def require_ordered_timestamps_def
        num_less_def num_float_def guard_def)
  then show "accepts (demo_batch 0) s = demo_fs" by (simp add: accepts_def demo_fs_def)
  show "append demo_host (demo_batch 0) s = (Inr (), s\<lparr>w_buffer := demo_fs, last_appended_sequence := Some 2,
     last_appended_timestamp := Some (FloatNum (Fin 0))\<rparr>)"
    using assms
    by (simp add: append_def ebind_apply checks exec_apply flush_full_segments.simps)
      (simp add: extend_buffer_def demo_batch_def sample_frame_def demo_fs_def)
qed

lemma demo_flushes:
  assumes "base_dir s = [codes ''p'']" "w_session s = demo_session" "files s = []" "segment_rows s = []"
    "session_rows s = [demo_session]" "w_buffer s = demo_fs"
  shows "flush_pending demo_host s = (Inr (), s\<lparr>readings := Suc (Suc (Suc (Suc (Suc (Suc (readings s)))))),
    files := demo_file, segment_rows := [demo_segment], session_rows := [demo_committed], w_session := demo_committed, w_buffer := []\<rparr>)"
proof -
  have "ses_id demo_session = uuid_text 3" "demo_fs \<noteq> []" "ses_state demo_session = ACTIVE"
    by (simp_all add: demo_session_def new_session_def demo_fs_def demo_batch_def)
  with demo_commits [OF assms(1-5)] assms show ?thesis
    by (simp add: flush_pending_def require_active_def ebind_apply exec_apply)
qed

lemma demo_completes:
  assumes "w_session s = demo_committed" "session_rows s = [demo_committed]"
  shows "commit_completed demo_host s = (Inr demo_completed, s\<lparr>readings := Suc (Suc (Suc (readings s))),
    session_rows := [demo_completed], w_session := demo_completed\<rparr>)"
proof -
  have act: "ses_state demo_committed = ACTIVE" "ses_id demo_committed = uuid_text 3" "ses_updated_at demo_committed = 0"
    by (simp_all add: demo_committed_def after_segment_def demo_session_def new_session_def)
  have same: "demo_committed\<lparr>ses_state := COMPLETED, ended_at := Some 0, ses_updated_at := 0\<rparr> = demo_completed"
    using act by (cases demo_committed) (simp add: demo_completed_def)
  have "session_wf demo_completed"
    using demo_rows_valid(2) by (simp add: session_wf_def [symmetric] session_wf_iff demo_completed_def)
  then have post: "data_session_post_init demo_completed = Inr demo_completed" by (simp add: session_wf_def)
  have host: "host_open demo_host = (\<lambda>_. None)" "host_commit demo_host = (\<lambda>_. None)" "host_now demo_host = (\<lambda>_. 0)"
    by (simp_all add: demo_host_def)
  have fin: "ses_id demo_completed = uuid_text 3" "ses_state demo_completed = COMPLETED" "ended_at demo_completed = Some 0"
    "ses_updated_at demo_completed = 0"
    using act by (simp_all add: demo_completed_def)
  have row: "advance_row (uuid_text 3) COMPLETED (Some 0) 0 demo_committed = demo_completed"
    using act same by (simp add: advance_row_def)
  show ?thesis
    using assms
    by (simp add: commit_completed_def require_active_def ebind_apply exec_apply act reading_def host same post
        with_connection_def advance_session_state_def advance_def transaction_def fin bind_uuid row has_active_row_def)
qed

lemma demo_frames_ok: "list_all frame_ok (frames (demo_batch 0))"
  using demo_calls by (simp add: call_ok_def)

definition demo_events :: "recording_event list" where
  "demo_events = [Append_Begins (demo_batch 0), Append_Runs, Append_Ends, Stop_Begins, Worker_Runs, Worker_Runs, Worker_Runs]"

lemma demo_recording_runs:
  "permitted demo_host demo_clock demo_events demo_opened"
  "let t = run_calls (recording_step demo_host demo_clock) demo_events demo_opened in
    finalization_outcome_of (rec t) = FINALIZED_COMPLETED \<and> worker_error t = None \<and> \<not> append_abandoned t \<and> handed_frames t = demo_fs"
proof -
  define a where "a = demo_opened\<lparr>job := Some \<lparr>job_batch = demo_batch 0, job_result = Some (Inr ()), job_awaited = True\<rparr>,
    w_buffer := demo_fs, last_appended_sequence := Some 2, last_appended_timestamp := Some (FloatNum (Fin 0)), appended_frames := demo_fs,
    handed_frames := demo_fs\<rparr>"
  note run = demo_opened_def demo_recording_def new_project_recorder_def
  have a: "append_serially demo_host (consumer_catches (append_begins (demo_batch 0)
      (demo_opened\<lparr>handed_frames := handed_frames demo_opened @ frames (demo_batch 0)\<rparr>))) = a"
    by (simp add: append_serially_def append_begins_def require_contiguous_batch_def consumer_catches_def demo_append_step a_def run
        Let_def demo_fs_def [symmetric])
  have e: "consumer_catches (append_ends a) = snd (append_ends a)" by (simp add: append_ends_def a_def consumer_catches_def)
  define b where "b = stop_begins (snd (append_ends a))"
  have "job b = None" "worker b = FLUSHING" "rec_failure (rec b) = None" "stop_deadline (rec b) = None" "\<not> owner_waits b"
    "rec_completed (rec b) = False" "finalization_started (rec b)" "worker_error b = None" "\<not> append_abandoned b" "handed_frames b = demo_fs"
    "base_dir b = [codes ''p'']" "w_session b = demo_session" "files b = []" "segment_rows b = []" "session_rows b = [demo_session]"
    "w_buffer b = demo_fs"
    by (simp_all add: b_def a_def stop_begins_def append_ends_def run)
  note b = this
  have "worker_step demo_host demo_clock b = b\<lparr>readings := Suc (Suc (Suc (Suc (Suc (Suc (readings b)))))),
    files := demo_file, segment_rows := [demo_segment], session_rows := [demo_committed], w_session := demo_committed, w_buffer := [],
    worker := DECIDING\<rparr>" (is "_ = ?c")
    using b by (simp add: worker_step_def finish_serially_def demo_flushes)
  moreover have "worker_step demo_host demo_clock ?c = ?c\<lparr>worker := COMMITTING\<rparr>"
    using b by (simp add: worker_step_def decide_enters_def gate_open_apply)
  ultimately have three: "worker_step demo_host demo_clock (worker_step demo_host demo_clock (worker_step demo_host demo_clock b))
      = decide_commits demo_host (?c\<lparr>worker := COMMITTING\<rparr>)"
    by (simp add: worker_step_def)
  have run: "run_calls (recording_step demo_host demo_clock) demo_events demo_opened = decide_commits demo_host (?c\<lparr>worker := COMMITTING\<rparr>)"
    using three by (simp add: demo_events_def a e b_def)
  show "let t = run_calls (recording_step demo_host demo_clock) demo_events demo_opened in
    finalization_outcome_of (rec t) = FINALIZED_COMPLETED \<and> worker_error t = None \<and> \<not> append_abandoned t \<and> handed_frames t = demo_fs"
    using b unfolding run
    by (simp add: decide_commits_def demo_completes worker_exits_def finalization_outcome_of_def)
  have "\<not> owner_waits demo_opened" "job demo_opened = None" "\<not> finalization_started (rec demo_opened)"
    "\<not> owner_waits a" "\<not> finalization_started (rec (snd (append_ends a)))" "job (snd (append_ends a)) = None"
    "\<not> owner_waits (snd (append_ends a))"
    by (simp_all add: run a_def append_ends_def demo_opened_def demo_recording_def new_project_recorder_def)
  then show "permitted demo_host demo_clock demo_events demo_opened"
    using demo_frames_ok by (simp add: demo_events_def owner_may_def a e)
qed

section \<open>Verdicts\<close>

lemma run_worker: "run_calls (recording_step h monotonic) (replicate n Worker_Runs) s = (worker_step h monotonic ^^ n) s"
  by (induction n arbitrary: s) (simp_all add: funpow_swap1)

lemma permitted_worker: "permitted h monotonic (replicate n Worker_Runs) s"
  by (induction n arbitrary: s) (simp_all add: owner_may_def)

lemma row_of_unfinished:
  assumes "writer_inv A s" "unfinished i s"
  shows "\<not> row_completed i s"
proof
  assume "row_completed i s"
  then obtain r where r: "r \<in> set (session_rows s)" "ses_id r = i" "ses_state r = COMPLETED"
    by (auto simp: row_completed_def list_ex_iff)
  have x: "ses_id (w_session s) = i" "ses_state (w_session s) \<noteq> COMPLETED" using assms(2) by (simp_all add: unfinished_def)
  obtain q where q: "find (\<lambda>r. ses_id r = ses_id (w_session s)) (session_rows s) = Some q" "session_row (w_session s) q"
    using session_inv_row assms(1) by blast
  have "distinct (map ses_id (session_rows s))" using assms(1) by (simp add: session_inv_def store_ok_def)
  then have "find (\<lambda>y. ses_id y = ses_id r) (session_rows s) = Some r" using r(1) by (rule find_unique)
  then have "q = r" using q(1) r(2) x(1) by simp
  then show False using q(2) r(3) x(2) by (simp add: session_row_def)
qed

lemma completed_iff_row:
  assumes "recording_inv i s"
  shows "row_completed i s \<longleftrightarrow> rec_completed (rec s)"
  using assms row_of_unfinished [of "appended_frames s" s i]
  by (auto simp: recording_inv_def verdict_inv_def session_kept_def finished_def split: if_splits)

lemma reached_inv:
  assumes "arrow_keeps (host_arrow h)" "clock_past_zero monotonic" "ready_recording s0"
    "recorder_start h stream s0 = (Inr (), s1)" "reaches h monotonic s1 s"
  shows "recording_inv (ses_id (w_session s1)) s"
  using reaches_inv [OF assms(1,2) started_inv [OF assms(3,4)] assms(5)] .

text \<open>A recording that is lost: it will not be completed any more.\<close>

definition lost :: "recording \<Rightarrow> bool" where
  "lost s \<longleftrightarrow> \<not> rec_completed (rec s) \<and> finalization_started (rec s) \<and> (settler s \<noteq> UNSETTLED \<or> worker s = EXITED)"

lemma more_settler:
  fixes m :: "(recording, exn, 'z) exec"
  shows "keeps writer.more m \<Longrightarrow> settler (snd (m s)) = settler s"
  using more_fields(6) [of "snd (m s)" s] by (simp add: keeps_def)

definition control_step :: "recording \<Rightarrow> recording \<Rightarrow> bool" where
  "control_step s t \<longleftrightarrow> finalization_started (rec t) = finalization_started (rec s) \<and> settler t = settler s \<and>
     (worker s \<noteq> COMMITTING \<longrightarrow> rec_completed (rec t) = rec_completed (rec s))"

lemma finish_control:
  "control_step s (finish_serially h s) \<and> worker (finish_serially h s) = DECIDING" if "worker s = FLUSHING"
proof -
  obtain r t where t: "flush_pending h s = (r, t)" by fastforce
  note f = more_fields [OF keepsD [OF keeps_more(1) t]]
  show ?thesis
    by (cases r) (simp_all add: finish_serially_def t f control_step_def diagnose_finalize_failure_def recorder_fail_def)
qed

lemma enters_control:
  "control_step s (decide_enters monotonic s) \<and> worker (decide_enters monotonic s) \<in> {COMMITTING, REFUSING}"
  by (simp add: decide_enters_def gate_open_apply control_step_def split: option.splits)

lemma commits_control:
  "control_step s (decide_commits h s) \<and> worker (decide_commits h s) \<in> {REFUSING, EXITED}" if "worker s = COMMITTING"
proof -
  obtain r t where t: "commit_completed h s = (r, t)" by fastforce
  note f = more_fields [OF keepsD [OF keeps_more(3) t]]
  show ?thesis
    using that
    by (cases r) (simp_all add: decide_commits_def t f control_step_def worker_exits_def diagnose_finalize_failure_def recorder_fail_def)
qed

lemma refuses_control: "control_step s (decide_refuses h s) \<and> worker (decide_refuses h s) = EXITED"
proof -
  define u where "u = on_recorder (\<lambda>r. (if rec_failure r = None then recorder_fail ''recorder.stop_deadline_exceeded'' False r else r)
    \<lparr>rec_state := REC_FAILED\<rparr>) s"
  obtain r t where t: "fail h u = (r, t)" by fastforce
  note f = more_fields [OF keepsD [OF keeps_more(2) t]]
  have u: "control_step s u" by (simp add: u_def control_step_def recorder_fail_def)
  show ?thesis
    using u by (cases r) (simp_all add: decide_refuses_def Let_def u_def [symmetric] t f control_step_def worker_exits_def)
qed

primrec worker_rank :: "worker_phase \<Rightarrow> nat" where
  "worker_rank NO_WORKER = 0"
| "worker_rank FLUSHING = 4"
| "worker_rank DECIDING = 3"
| "worker_rank COMMITTING = 2"
| "worker_rank REFUSING = 1"
| "worker_rank EXITED = 0"

lemma worker_step_control:
  "control_step s (worker_step h monotonic s)"
  "worker s \<noteq> NO_WORKER \<Longrightarrow> worker (worker_step h monotonic s) \<noteq> NO_WORKER \<and>
    worker_rank (worker (worker_step h monotonic s)) \<le> worker_rank (worker s) - 1"
  using finish_control [of s h] enters_control [of s monotonic] commits_control [of s h] refuses_control [of s h]
  by (cases "worker s"; auto simp: worker_step_def control_step_def)+

lemma worker_steps:
  "worker s \<noteq> NO_WORKER \<Longrightarrow> worker ((worker_step h monotonic ^^ n) s) \<noteq> NO_WORKER \<and>
    worker_rank (worker ((worker_step h monotonic ^^ n) s)) \<le> worker_rank (worker s) - n"
proof (induction n)
  case (Suc n)
  let ?t = "(worker_step h monotonic ^^ n) s"
  from Suc have "worker ?t \<noteq> NO_WORKER" "worker_rank (worker ?t) \<le> worker_rank (worker s) - n" by simp_all
  with worker_step_control(2) [of ?t h monotonic] show ?case by auto
qed simp

lemma four_steps: "worker s \<noteq> NO_WORKER \<Longrightarrow> worker ((worker_step h monotonic ^^ 4) s) = EXITED"
proof -
  assume "worker s \<noteq> NO_WORKER"
  from worker_steps [OF this, of 4 h monotonic]
  have "worker ((worker_step h monotonic ^^ 4) s) \<noteq> NO_WORKER" "worker_rank (worker ((worker_step h monotonic ^^ 4) s)) = 0"
    by (cases "worker s"; simp)+
  then show ?thesis by (cases "worker ((worker_step h monotonic ^^ 4) s)") simp_all
qed


lemma more_flush_full: "writer.more (snd (flush_full_segments h s)) = writer.more s"
proof (induction h s rule: flush_full_segments.induct)
  case (1 h s)
  obtain r t where t: "commit_segment h (take (max_frames_per_segment s) (w_buffer s)) s = (r, t)" by fastforce
  have "writer.more t = writer.more s" by (rule keepsD [OF untouched_more [OF untouched_commit] t])
  with "1.IH" t show ?case by (subst flush_full_segments.simps) (auto split: sum.splits)
qed

lemma more_append: "keeps writer.more (append h b)"
proof -
  have "keeps writer.more (append_checks b)"
    unfolding append_checks_def require_active_def by (intro keeps_intros)
  moreover have "keeps writer.more (flush_full_segments h)" by (simp add: keeps_def more_flush_full)
  ultimately show ?thesis
    unfolding append_def by (intro keeps_intros) (simp_all add: extend_buffer_def)
qed

lemma lost_append:
  assumes "lost s"
  shows "lost (append_serially h s)"
proof (cases "job s")
  case (Some j)
  obtain r t where t: "append h (job_batch j) (s\<lparr>appended_frames := appended_frames s @ accepts (job_batch j) s\<rparr>) = (r, t)"
    by fastforce
  note f = more_fields [OF keepsD [OF more_append t]]
  show ?thesis using assms Some by (simp add: lost_def append_serially_def t f)
qed (use assms in \<open>simp add: append_serially_def\<close>)

lemma lost_settles: "lost s \<Longrightarrow> lost (settle_step h s)"
proof -
  assume l: "lost s"
  obtain r t where t: "fail_active_session h (the (project_session (rec s))) s = (r, t)" by fastforce
  obtain q u where u: "get_session h (the (project_session (rec s))) s = (q, u)" by fastforce
  note f = more_fields [OF keepsD [OF keeps_more(4) t]] more_fields [OF keepsD [OF keeps_more(6) u]]
  show ?thesis
    using l t u f by (cases r; cases q) (auto simp: lost_def settle_step_def split: settling.splits option.splits)
qed

lemma lost_step:
  assumes inv: "recording_inv i s" and l: "lost s" and may: "owner_may e s"
  shows "lost (recording_step h monotonic e s)"
proof (cases e)
  case Worker_Runs
  have "worker s \<noteq> NO_WORKER" "worker s \<noteq> COMMITTING"
    using inv l by (auto simp: recording_inv_def verdict_inv_def worker_ok_def gate_ok_def lost_def)
  then show ?thesis
    using l Worker_Runs worker_step_control [of s h monotonic] by (auto simp: lost_def control_step_def worker_step_def)
next
  case Append_Runs
  then show ?thesis using lost_append [OF l] by simp
next
  case (Service_Call c)
  then show ?thesis
    using l by (auto simp: lost_def more_kept more_settler keeps_more split: session_call.splits)
next
  case Settler_Runs
  then show ?thesis using lost_settles [OF l] by simp
qed (use l may in \<open>auto simp: lost_def owner_may_def append_begins_def require_contiguous_batch_def recorder_fail_def append_ends_def
      consumer_catches_def consumer_cancelled_def append_cancelled_def stop_ends_def gate_closes_def gate_answers_def close_gate_def split: option.splits sum.splits\<close>)


lemma lost_reaches:
  assumes h: "arrow_keeps (host_arrow h)" "clock_past_zero monotonic" and inv: "recording_inv i s" "lost s"
    and r: "reaches h monotonic s t"
  shows "\<not> row_completed i t"
proof -
  have "recording_inv i t \<and> lost t"
    using r by induction (use inv in \<open>auto intro: recording_inv_step [OF h] lost_step\<close>)
  then show ?thesis using completed_iff_row by (auto simp: lost_def)
qed

text \<open>
  A batch that the writer refuses leaves the session active, although the docstring of the
  recorder's \<open>append\<close> has it failed by then.
\<close>

lemma refused_batch_leaves_the_session:
  assumes "fst (append_checks b s) = Inl e"
  shows "append h b s = (Inl e, s)"
proof -
  obtain r where "append_checks b s = (r, s)" using append_checks_state by blast
  with assms show ?thesis by (simp add: append_def ebind_apply)
qed

text \<open>
  A flush that raises an exception of another domain does not keep the worker from completing
  the session, with the frames it could not flush left out.
\<close>

lemma untyped_flush_error_completes:
  assumes s: "worker s = FLUSHING" "rec_failure (rec s) = None" "stop_deadline (rec s) = None"
    and flush: "flush_pending h s = (Inl e, t)" "\<not> data_error e"
    and commit: "commit_completed h (t\<lparr>worker := COMMITTING, worker_error := Some e\<rparr>) = (Inr x, u)"
    and started: "finalization_started (rec s)"
  shows "finalization_outcome_of (rec ((worker_step h monotonic ^^ 3) s)) = FINALIZED_COMPLETED"
proof -
  have t: "rec t = rec s" by (rule more_fields(2) [OF keepsD [OF keeps_more(1) flush(1)]])
  have u: "rec u = rec t" using more_fields(2) [OF keepsD [OF keeps_more(3) commit]] by simp
  have "worker_step h monotonic s = t\<lparr>worker := DECIDING, worker_error := Some e\<rparr>"
    using s flush by (simp add: worker_step_def finish_serially_def)
  moreover have "worker_step h monotonic (t\<lparr>worker := DECIDING, worker_error := Some e\<rparr>) = t\<lparr>worker := COMMITTING, worker_error := Some e\<rparr>"
    using s t by (simp add: worker_step_def decide_enters_def gate_open_apply)
  ultimately show ?thesis
    using commit started t u
    by (simp add: eval_nat_numeral worker_step_def decide_commits_def worker_exits_def finalization_outcome_of_def)
qed

text \<open>
  A consumer that is cancelled without a failure, as by a cancelled \<open>stop_capture\<close>, leaves its
  batch behind: if its thread runs late, the next stop completes the session without it.
\<close>

lemma abandoned_append_is_left_out:
  assumes s: "job s = Some j" "job_awaited j" "job_result j = None" "has_writer (rec s)" "rec_failure (rec s) = None"
    "stop_deadline (rec s) = None"
    and flush: "flush_pending h (stop_begins (consumer_cancelled s)) = (Inr x, t)"
    and commit: "commit_completed h (t\<lparr>worker := COMMITTING\<rparr>) = (Inr y, u)"
  shows "let e = (worker_step h monotonic ^^ 3) (stop_begins (consumer_cancelled s)) in
    finalization_outcome_of (rec e) = FINALIZED_COMPLETED \<and> append_abandoned e \<and>
    handed_frames e = handed_frames s \<and> appended_frames e = appended_frames s"
proof -
  let ?s = "stop_begins (consumer_cancelled s)"
  have s1: "worker ?s = FLUSHING" "rec_failure (rec ?s) = None" "stop_deadline (rec ?s) = None" "finalization_started (rec ?s)"
    "append_abandoned ?s" "handed_frames ?s = handed_frames s" "appended_frames ?s = appended_frames s"
    using s by (simp_all add: stop_begins_def consumer_cancelled_def append_cancelled_def)
  note t = more_fields [OF keepsD [OF keeps_more(1) flush]]
  note u = more_fields [OF keepsD [OF keeps_more(3) commit]]
  have "worker_step h monotonic ?s = t\<lparr>worker := DECIDING\<rparr>"
    using s1 flush by (simp add: worker_step_def finish_serially_def)
  moreover have "worker_step h monotonic (t\<lparr>worker := DECIDING\<rparr>) = t\<lparr>worker := COMMITTING\<rparr>"
    using s1 t by (simp add: worker_step_def decide_enters_def gate_open_apply)
  ultimately show ?thesis
    using commit s1 t u
    by (simp add: eval_nat_numeral Let_def worker_step_def decide_commits_def worker_exits_def finalization_outcome_of_def)
qed

section \<open>Properties\<close>

text \<open>
  C37: no verdict without a durable fact. However the event loop, the threads of the appends, the
  worker that finalises and the thread that settles a missed deadline interleave, and whatever
  of the host fails, a recorder that has reported \<open>COMPLETED\<close>, to the owner that closed its gate
  or as its outcome, has a session whose row is \<open>COMPLETED\<close>; one that has reported \<open>FAILED\<close> has
  none, and will not have one: an abandoned worker that resumes later cannot complete it.
\<close>

theorem verdict_matches_the_row:
  assumes "arrow_keeps (host_arrow h)" "clock_past_zero monotonic" "ready_recording s0"
    and "recorder_start h stream s0 = (Inr (), s1)" "reaches h monotonic s1 s" "i = ses_id (w_session s1)"
  shows "(FINALIZED_COMPLETED \<in> set (verdicts s) \<or> finalization_outcome_of (rec s) = FINALIZED_COMPLETED \<longrightarrow> row_completed i s) \<and>
    (FINALIZED_FAILED \<in> set (verdicts s) \<or> finalization_outcome_of (rec s) = FINALIZED_FAILED \<longrightarrow>
      (\<forall>t. reaches h monotonic s t \<longrightarrow> \<not> row_completed i t))"
proof -
  have inv: "recording_inv i s" using reached_inv [OF assms(1-5)] assms(6) by simp
  have "lost s" if "FINALIZED_FAILED \<in> set (verdicts s) \<or> finalization_outcome_of (rec s) = FINALIZED_FAILED"
    using inv that
    by (auto simp: recording_inv_def verdict_inv_def worker_ok_def gate_ok_def lost_def finalization_outcome_of_def split: if_splits)
  then show ?thesis
    using completed_iff_row [OF inv] inv lost_reaches [OF assms(1,2) inv]
    by (auto simp: recording_inv_def verdict_inv_def gate_ok_def finalization_outcome_of_def split: if_splits)
qed

theorem verdict_matches_the_row_witness:
  "let t = run_calls (recording_step demo_host demo_clock)
      [Stop_Begins, Stop_Ends, Gate_Closes, Gate_Answers ''recorder.cleanup_timeout'' False] demo_opened in
   verdicts t = [FINALIZED_FAILED] \<and> finalization_pending (rec t) \<and> \<not> row_completed (uuid_text 3) t"
proof -
  let ?es = "[Stop_Begins, Stop_Ends, Gate_Closes, Gate_Answers ''recorder.cleanup_timeout'' False]"
  let ?t = "run_calls (recording_step demo_host demo_clock) ?es demo_opened"
  have "permitted demo_host demo_clock ?es demo_opened" and v: "verdicts ?t = [FINALIZED_FAILED]" "finalization_pending (rec ?t)"
    by (simp_all add: owner_may_def demo_opened_def demo_recording_def new_project_recorder_def stop_begins_def stop_ends_def
        gate_closes_def holds_terminal_lock_def gate_answers_def close_gate_def recorder_fail_def finalization_pending_def)
  then have r: "reaches demo_host demo_clock demo_opened ?t" by (intro reaches_permitted reaches_here)
  have i: "uuid_text 3 = ses_id (w_session demo_opened)" by (simp add: demo_opened_def demo_session_def new_session_def)
  from verdict_matches_the_row [OF demo_arrow demo_recording_ready(2,1) demo_recording_starts r i] v reaches_here
  show ?thesis by (simp add: Let_def)
qed

text \<open>
  C38: a recording that completed is whole: its segments hold the frames of every batch that the
  archive consumer handed to the recorder, in order, so that no batch was refused or lost; unless
  the consumer was cancelled while an append was under way, or the flush raised an exception of
  another domain.
\<close>

theorem completed_recording_is_whole:
  assumes "arrow_keeps (host_arrow h)" "clock_past_zero monotonic" "ready_recording s0"
    and "recorder_start h stream s0 = (Inr (), s1)" "reaches h monotonic s1 s"
    and "finalization_outcome_of (rec s) = FINALIZED_COMPLETED" "worker_error s = None" "\<not> append_abandoned s"
    and "host_open reader = (\<lambda>_. None)"
  shows "fst (stored_frames reader (ses_id (w_session s1)) s) = Inr (map stored_frame (handed_frames s))"
proof -
  have inv: "recording_inv (ses_id (w_session s1)) s" by (rule reached_inv [OF assms(1-5)])
  have c: "rec_completed (rec s)" "finalization_started (rec s)" using assms(6) by (simp_all add: finalization_outcome_of_def split: if_splits)
  with inv assms(7,8) have x: "ses_frame_count (w_session s) = int (length (appended_frames s))" "ses_id (w_session s) = ses_id (w_session s1)"
    "winv (appended_frames s) (w_buffer s) s" "handed_frames s = appended_frames s"
    by (auto simp: recording_inv_def drained_defs hand_over_ok_def verdict_inv_def session_kept_def finished_def)
  from wp_result [OF stored_frames_wp [OF x(3) assms(9)]] x show ?thesis by simp
qed

theorem completed_recording_is_whole_witness:
  "fst (stored_frames demo_host (uuid_text 3) (run_calls (recording_step demo_host demo_clock) demo_events demo_opened))
    = Inr (map stored_frame demo_fs)"
proof -
  let ?t = "run_calls (recording_step demo_host demo_clock) demo_events demo_opened"
  have r: "reaches demo_host demo_clock demo_opened ?t" by (intro reaches_permitted reaches_here demo_recording_runs)
  have i: "ses_id (w_session demo_opened) = uuid_text 3" by (simp add: demo_opened_def demo_session_def new_session_def)
  have t: "finalization_outcome_of (rec ?t) = FINALIZED_COMPLETED" "worker_error ?t = None" "\<not> append_abandoned ?t" "handed_frames ?t = demo_fs"
    using demo_recording_runs(2) by (simp_all add: Let_def)
  from completed_recording_is_whole [OF demo_arrow demo_recording_ready(2,1) demo_recording_starts r t(1-3) demo_reader]
  show ?thesis by (simp only: i t(4))
qed

text \<open>
  C39: a finalisation that began settles: after four steps of its worker, whoever still waits for
  it, nothing is pending, and the outcome is \<open>COMPLETED\<close> exactly when the row is.
\<close>

theorem finalisation_settles:
  assumes "arrow_keeps (host_arrow h)" "clock_past_zero monotonic" "ready_recording s0"
    and "recorder_start h stream s0 = (Inr (), s1)" "reaches h monotonic s1 s" "finalization_started (rec s)"
  shows "let t = (worker_step h monotonic ^^ 4) s; r = rec t in
    \<not> finalization_pending r \<and> finalization_outcome_of r \<noteq> FINALIZATION_PENDING \<and>
    (finalization_outcome_of r = FINALIZED_COMPLETED \<longleftrightarrow> row_completed (ses_id (w_session s1)) t)"
proof -
  define t where "t = (worker_step h monotonic ^^ 4) s"
  have "reaches h monotonic s1 t"
    using reaches_permitted [OF assms(5) permitted_worker [of h monotonic 4 s]] by (simp add: run_worker t_def)
  then have inv: "recording_inv (ses_id (w_session s1)) t" by (rule reached_inv [OF assms(1-4)])
  have "recording_inv (ses_id (w_session s1)) s" by (rule reached_inv [OF assms(1-5)])
  then have "worker s \<noteq> NO_WORKER" using assms(6) by (auto simp: recording_inv_def verdict_inv_def worker_ok_def)
  then have "worker t = EXITED" unfolding t_def by (rule four_steps)
  with inv completed_iff_row [OF inv] show ?thesis
    by (auto simp: t_def [symmetric] recording_inv_def verdict_inv_def worker_ok_def finalization_pending_def
        finalization_outcome_of_def)
qed

theorem finalisation_settles_witness:
  "let r = rec ((worker_step demo_host demo_clock ^^ 4) (stop_begins demo_opened)) in
    \<not> finalization_pending r \<and> finalization_outcome_of r \<noteq> FINALIZATION_PENDING"
proof -
  have "permitted demo_host demo_clock [Stop_Begins] demo_opened" "finalization_started (rec (stop_begins demo_opened))"
    by (simp_all add: owner_may_def demo_opened_def demo_recording_def new_project_recorder_def stop_begins_def)
  moreover from this have "reaches demo_host demo_clock demo_opened (stop_begins demo_opened)"
    using reaches_permitted [OF reaches_here, of demo_host demo_clock "[Stop_Begins]" demo_opened] by simp
  ultimately show ?thesis
    using finalisation_settles [OF demo_arrow demo_recording_ready(2,1) demo_recording_starts] by (simp add: Let_def)
qed

end
