(* ===== verification/Project_Storage.thy ===== *)
theory Project_Storage
  imports Data_Store
begin

text \<open>
  The files of a project and its database (\<open>project/model.py\<close>, \<open>project/manifest.py\<close>,
  \<open>project/storage.py\<close>). A file is what reading it gives: the manifest the JSON value that its text
  denotes, the database its schema version, its tables with their columns and the row of the
  project. SQLite keeps what a transaction changes apart until it commits. The host decides
  which calls raise; errors are the codes of their classes, instants are integers.
\<close>

section \<open>The files\<close>

text \<open>A stored time is one with an offset, one without, or no time at all.\<close>

datatype stored_time = Instant int | Naive_Time | No_Time

record metadata_row =
  row_project :: pystr
  row_name :: pystr
  row_created :: stored_time
  row_updated :: stored_time

record project_db =
  user_version :: int
  db_tables :: "(string \<times> string list) list"
  metadata_at_1 :: "metadata_row option"

datatype database_file = Not_A_Database | Sqlite_File project_db

datatype manifest_file = Unreadable_File | Undecodable_Text | Malformed_Json | Json_Text pyval

record project_files =
  subdirectories :: "string list"
  manifest_at :: "manifest_file option"
  database_at :: "database_file option"

datatype root_state = Absent | Not_A_Directory | Root project_files

record project_host =
  fails_sql :: "nat \<Rightarrow> bool"
  fails_connect :: "nat \<Rightarrow> bool"
  fails_close :: "nat \<Rightarrow> bool"
  fails_mkdir :: "nat \<Rightarrow> bool"
  fails_write :: "nat \<Rightarrow> bool"
  leaves_litter :: "nat \<Rightarrow> project_files option"
  clock_now :: "nat \<Rightarrow> int"
  fresh_uuid :: "nat \<Rightarrow> 128 word"

text \<open>
  The working copy of an open transaction is \<open>pending\<close>; \<open>connections\<close> counts the connections
  that were opened and not closed.
\<close>

record project_world =
  proot :: root_state
  pending :: "project_db option"
  connections :: nat
  asked :: nat

definition ask :: "(nat \<Rightarrow> 'r) \<Rightarrow> (project_world, exn, 'r) exec" where
  "ask f = (\<lambda>s. (Inr (f (asked s)), s\<lparr>asked := Suc (asked s)\<rparr>))"

definition project_error :: "exn \<Rightarrow> bool" where
  "project_error e \<longleftrightarrow> (case e of Foreign c \<Rightarrow> take 8 c = ''project.'' | _ \<Rightarrow> False)"

section \<open>The manifest\<close>

definition MANIFEST_FORMAT :: string where
  "MANIFEST_FORMAT = ''can-x-project''"

definition MANIFEST_SCHEMA_VERSION :: int where
  "MANIFEST_SCHEMA_VERSION = 1"

record project_manifest =
  mf_format :: pystr
  mf_schema_version :: int
  mf_project_id :: pystr

record project_metadata =
  md_project_id :: pystr
  md_display_name :: pystr
  md_created_at :: int
  md_updated_at :: int

definition normalize_project_id :: "pystr \<Rightarrow> exn + pystr" where
  "normalize_project_id s = normalize_uuid value_error s"

definition manifest_value :: "project_manifest \<Rightarrow> pyval" where
  "manifest_value m = VDict [(VStr (codes ''format''), VStr (mf_format m)), (VStr (codes ''project_id''), VStr (mf_project_id m)),
     (VStr (codes ''schema_version''), VInt (mf_schema_version m))]"

definition update_files :: "(project_files \<Rightarrow> project_files) \<Rightarrow> project_world \<Rightarrow> project_world" where
  "update_files f s = (case proot s of Root d \<Rightarrow> s\<lparr>proot := Root (f d)\<rparr> | _ \<Rightarrow> s)"

definition write_manifest :: "project_host \<Rightarrow> project_manifest \<Rightarrow> (project_world, exn, unit) exec" where
  "write_manifest h m = ebind (ask (fails_write h)) (\<lambda>fails.
     if fails then throw (Foreign ''project.manifest_write_failed'')
     else put (update_files (\<lambda>d. d\<lparr>manifest_at := Some (Json_Text (manifest_value m))\<rparr>)))"

definition load_object :: "manifest_file \<Rightarrow> exn + (pyval \<times> pyval) list" where
  "load_object f =
     (case f of
        Unreadable_File \<Rightarrow> Inl (Foreign ''project.manifest_unreadable'')
      | Undecodable_Text \<Rightarrow> Inl (Foreign ''UnicodeDecodeError'')
      | Malformed_Json \<Rightarrow> Inl (Foreign ''project.manifest_malformed'')
      | Json_Text v \<Rightarrow> (case v of VDict d \<Rightarrow> Inr d | _ \<Rightarrow> Inl (Foreign ''project.manifest_malformed'')))"

definition read_manifest :: "manifest_file \<Rightarrow> exn + project_manifest" where
  "read_manifest f = rbind (load_object f) (\<lambda>d.
     if dict_get d ''format'' \<noteq> VStr (codes MANIFEST_FORMAT) then Inl (Foreign ''project.unsupported_format'')
     else case dict_get d ''schema_version'' of
       VInt n \<Rightarrow>
         if n \<noteq> MANIFEST_SCHEMA_VERSION then Inl (Foreign ''project.unsupported_schema_version'')
         else (case dict_get d ''project_id'' of
             VStr raw \<Rightarrow> (case normalize_project_id raw of
                 Inl _ \<Rightarrow> Inl (Foreign ''project.manifest_malformed'')
               | Inr i \<Rightarrow> Inr \<lparr>mf_format = codes MANIFEST_FORMAT, mf_schema_version = n, mf_project_id = i\<rparr>)
           | _ \<Rightarrow> Inl (Foreign ''project.manifest_malformed''))
     | _ \<Rightarrow> Inl (Foreign ''project.manifest_malformed''))"

section \<open>The schema\<close>

definition DATABASE_SCHEMA_VERSION :: int where
  "DATABASE_SCHEMA_VERSION = 3"

definition LEGACY_DATABASE_SCHEMA_VERSION :: int where
  "LEGACY_DATABASE_SCHEMA_VERSION = 1"

definition METADATA_TABLE :: string where
  "METADATA_TABLE = ''project_metadata''"

definition METADATA_COLUMNS :: "string list" where
  "METADATA_COLUMNS = [''project_id'', ''display_name'', ''created_at'', ''updated_at'']"

definition DATA_SESSIONS_COLUMNS :: "string list" where
  "DATA_SESSIONS_COLUMNS = [''session_id'', ''project_id'', ''stream_id'', ''state'', ''started_at'', ''ended_at'', ''frame_count'',
     ''segment_count'', ''first_sequence'', ''last_sequence'', ''first_timestamp'', ''last_timestamp'', ''created_at'', ''updated_at'']"

definition DATA_SEGMENTS_COLUMNS :: "string list" where
  "DATA_SEGMENTS_COLUMNS = [''segment_id'', ''session_id'', ''segment_index'', ''relative_path'', ''frame_count'', ''first_sequence'',
     ''last_sequence'', ''first_timestamp'', ''last_timestamp'', ''byte_size'', ''created_at'']"

definition DBC_ASSETS_COLUMNS :: "string list" where
  "DBC_ASSETS_COLUMNS = [''asset_id'', ''project_id'', ''source_name'', ''relative_path'', ''sha256'', ''size_bytes'', ''encoding'',
     ''imported_at'']"

definition SCHEMA_TABLES :: "(string \<times> string list) list" where
  "SCHEMA_TABLES = [(''data_sessions'', DATA_SESSIONS_COLUMNS), (''data_segments'', DATA_SEGMENTS_COLUMNS),
     (''dbc_assets'', DBC_ASSETS_COLUMNS)]"

text \<open>The statements: a \<open>CREATE TABLE\<close> is the name of its table and its columns as the text lists them.\<close>

datatype schema_statement =
    Begin_Immediate
  | Create_Table string "string list"
  | Insert_Metadata metadata_row
  | Set_User_Version int
  | Commit_Work
  | Rollback_Work

definition CREATE_METADATA_TABLE :: schema_statement where
  "CREATE_METADATA_TABLE = Create_Table METADATA_TABLE [''id'', ''project_id'', ''display_name'', ''created_at'', ''updated_at'']"

definition CREATE_DATA_SESSIONS_TABLE :: schema_statement where
  "CREATE_DATA_SESSIONS_TABLE = Create_Table ''data_sessions''
     [''session_id'', ''project_id'', ''stream_id'', ''state'', ''started_at'', ''ended_at'', ''frame_count'', ''segment_count'',
      ''first_sequence'', ''last_sequence'', ''first_timestamp'', ''last_timestamp'', ''created_at'', ''updated_at'']"

definition CREATE_DATA_SEGMENTS_TABLE :: schema_statement where
  "CREATE_DATA_SEGMENTS_TABLE = Create_Table ''data_segments''
     [''segment_id'', ''session_id'', ''segment_index'', ''relative_path'', ''frame_count'', ''first_sequence'', ''last_sequence'',
      ''first_timestamp'', ''last_timestamp'', ''byte_size'', ''created_at'']"

definition CREATE_DBC_ASSETS_TABLE :: schema_statement where
  "CREATE_DBC_ASSETS_TABLE = Create_Table ''dbc_assets''
     [''asset_id'', ''project_id'', ''source_name'', ''relative_path'', ''sha256'', ''size_bytes'', ''encoding'', ''imported_at'']"

definition v2_ddl_statements :: "schema_statement list" where
  "v2_ddl_statements = [CREATE_DATA_SESSIONS_TABLE, CREATE_DATA_SEGMENTS_TABLE]"

definition v3_ddl_statements :: "schema_statement list" where
  "v3_ddl_statements = [CREATE_DBC_ASSETS_TABLE]"

definition migration_steps :: "(int \<times> schema_statement list) list" where
  "migration_steps = [(1, v2_ddl_statements), (2, v3_ddl_statements)]"

definition migration_statements :: "int \<Rightarrow> schema_statement list" where
  "migration_statements source = concat (map snd (filter (\<lambda>(v, _). v \<ge> source) migration_steps))"

definition current_schema_statements :: "schema_statement list" where
  "current_schema_statements = migration_statements LEGACY_DATABASE_SCHEMA_VERSION"

section \<open>SQLite\<close>

definition sqlite_guard :: "bool \<Rightarrow> exn + unit" where
  "sqlite_guard b = guard b sqlite_error"

text \<open>What a connection sees: its own transaction, otherwise what is committed.\<close>

definition seen_db :: "project_world \<Rightarrow> exn + project_db" where
  "seen_db s =
     (case pending s of Some db \<Rightarrow> Inr db
      | None \<Rightarrow> (case proot s of Root d \<Rightarrow> (case database_at d of Some (Sqlite_File db) \<Rightarrow> Inr db | _ \<Rightarrow> Inl sqlite_error)
          | _ \<Rightarrow> Inl sqlite_error))"

definition save_db :: "project_db \<Rightarrow> project_world \<Rightarrow> project_world" where
  "save_db db = update_files (\<lambda>d. d\<lparr>database_at := Some (Sqlite_File db)\<rparr>)"

definition change_db :: "project_db \<Rightarrow> project_world \<Rightarrow> project_world" where
  "change_db db s = (if pending s = None then save_db db s else s\<lparr>pending := Some db\<rparr>)"

fun apply_statement :: "schema_statement \<Rightarrow> project_db \<Rightarrow> project_world \<Rightarrow> exn + project_world" where
  "apply_statement Begin_Immediate db s = (if pending s = None then Inr (s\<lparr>pending := Some db\<rparr>) else Inl sqlite_error)"
| "apply_statement (Create_Table t cs) db s =
     (if t \<in> set (map fst (db_tables db)) then Inl sqlite_error else Inr (change_db (db\<lparr>db_tables := db_tables db @ [(t, cs)]\<rparr>) s))"
| "apply_statement (Insert_Metadata r) db s =
     (if METADATA_TABLE \<notin> set (map fst (db_tables db)) \<or> metadata_at_1 db \<noteq> None then Inl sqlite_error
      else rbind (bind_text (row_project r)) (\<lambda>_. rbind (bind_text (row_name r)) (\<lambda>_. Inr (change_db (db\<lparr>metadata_at_1 := Some r\<rparr>) s))))"
| "apply_statement (Set_User_Version n) db s = Inr (change_db (db\<lparr>user_version := n\<rparr>) s)"
| "apply_statement Commit_Work db s = (if pending s = None then Inl sqlite_error else Inr (save_db db (s\<lparr>pending := None\<rparr>)))"
| "apply_statement Rollback_Work db s = (if pending s = None then Inl sqlite_error else Inr (s\<lparr>pending := None\<rparr>))"

definition execute :: "project_host \<Rightarrow> schema_statement \<Rightarrow> (project_world, exn, unit) exec" where
  "execute h c = ebind (ask (fails_sql h)) (\<lambda>fails.
     if fails then throw sqlite_error
     else (\<lambda>s. case rbind (seen_db s) (\<lambda>db. apply_statement c db s) of Inl e \<Rightarrow> (Inl e, s) | Inr t \<Rightarrow> (Inr (), t)))"

fun execute_all :: "project_host \<Rightarrow> schema_statement list \<Rightarrow> (project_world, exn, unit) exec" where
  "execute_all h [] = ret ()"
| "execute_all h (c # cs) = eseq (execute h c) (execute_all h cs)"

definition query_db :: "project_host \<Rightarrow> (project_db \<Rightarrow> exn + 'r) \<Rightarrow> (project_world, exn, 'r) exec" where
  "query_db h f = ebind (ask (fails_sql h)) (\<lambda>fails.
     if fails then throw sqlite_error else (\<lambda>s. (rbind (seen_db s) f, s)))"

text \<open>Errors of SQLite become the project's.\<close>

definition typed :: "string \<Rightarrow> (project_world, exn, 'r) exec \<Rightarrow> (project_world, exn, 'r) exec" where
  "typed c m = etry m (\<lambda>e. throw (if e = sqlite_error then Foreign c else e))"

text \<open>\<open>_connect\<close> creates an empty database where there is no file; the pragma is its first statement.\<close>

definition empty_db :: project_db where
  "empty_db = \<lparr>user_version = 0, db_tables = [], metadata_at_1 = None\<rparr>"

definition connect :: "project_host \<Rightarrow> (project_world, exn, unit) exec" where
  "connect h = ebind (ask (fails_connect h)) (\<lambda>fails.
     if fails then throw sqlite_error
     else eseq (put (\<lambda>s. (update_files (\<lambda>d. d\<lparr>database_at := (case database_at d of None \<Rightarrow> Some (Sqlite_File empty_db) | f \<Rightarrow> f)\<rparr>) s)
         \<lparr>connections := Suc (connections s)\<rparr>))
       (ebind (ask (fails_sql h)) (\<lambda>pragma. if pragma then throw sqlite_error else ret ())))"

definition close_connection :: "project_host \<Rightarrow> (project_world, exn, unit) exec" where
  "close_connection h = ebind (ask (fails_close h)) (\<lambda>fails.
     if fails then throw sqlite_error else put (\<lambda>s. s\<lparr>connections := connections s - 1, pending := None\<rparr>))"

definition suppress_sqlite :: "(project_world, exn, unit) exec \<Rightarrow> (project_world, exn, unit) exec" where
  "suppress_sqlite m = etry m (\<lambda>e. if e = sqlite_error then ret () else throw e)"

definition close_quietly :: "project_host \<Rightarrow> (project_world, exn, unit) exec" where
  "close_quietly h = suppress_sqlite (close_connection h)"

definition rollback_quietly :: "project_host \<Rightarrow> (project_world, exn, unit) exec" where
  "rollback_quietly h = suppress_sqlite (execute h Rollback_Work)"

definition read_schema_version :: "project_host \<Rightarrow> (project_world, exn, int) exec" where
  "read_schema_version h = typed ''project.database_unreadable'' (query_db h (\<lambda>db. Inr (user_version db)))"

definition columns_of :: "string \<Rightarrow> project_db \<Rightarrow> string list" where
  "columns_of t db = (case map_of (db_tables db) t of None \<Rightarrow> [] | Some cs \<Rightarrow> cs)"

definition verify_metadata_columns :: "project_host \<Rightarrow> (project_world, exn, unit) exec" where
  "verify_metadata_columns h =
     ebind (typed ''project.database_unreadable'' (query_db h (\<lambda>db. Inr (columns_of METADATA_TABLE db)))) (\<lambda>cs.
     lift (guard (set METADATA_COLUMNS \<subseteq> set cs) (Foreign ''project.database_schema_invalid'')))"

fun verify_columns :: "project_host \<Rightarrow> (string \<times> string list) list \<Rightarrow> (project_world, exn, unit) exec" where
  "verify_columns h [] = ret ()"
| "verify_columns h ((t, required) # ts) =
     ebind (typed ''project.database_unreadable'' (query_db h (\<lambda>db. Inr (columns_of t db)))) (\<lambda>cs.
     eseq (lift (guard (set required \<subseteq> set cs) (Foreign ''project.database_schema_invalid''))) (verify_columns h ts))"

definition verify_schema_tables :: "project_host \<Rightarrow> (project_world, exn, unit) exec" where
  "verify_schema_tables h =
     ebind (typed ''project.database_unreadable'' (query_db h (\<lambda>db. Inr (map fst (db_tables db))))) (\<lambda>present.
     eseq (lift (guard (set (map fst SCHEMA_TABLES) \<subseteq> set present) (Foreign ''project.database_schema_invalid'')))
      (verify_columns h SCHEMA_TABLES))"

section \<open>Creating, migrating and opening a database\<close>

definition stored_row_of :: "project_metadata \<Rightarrow> metadata_row" where
  "stored_row_of m = \<lparr>row_project = md_project_id m, row_name = md_display_name m, row_created = Instant (md_created_at m),
     row_updated = Instant (md_updated_at m)\<rparr>"

definition creation_statements :: "project_metadata \<Rightarrow> schema_statement list" where
  "creation_statements m = [Begin_Immediate, CREATE_METADATA_TABLE] @ current_schema_statements @
     [Insert_Metadata (stored_row_of m), Set_User_Version DATABASE_SCHEMA_VERSION, Commit_Work]"

definition create_database :: "project_host \<Rightarrow> project_metadata \<Rightarrow> (project_world, exn, unit) exec" where
  "create_database h m =
     eseq (typed ''project.database_init_failed'' (connect h))
      (etry (eseq (execute_all h (creation_statements m)) (eseq (verify_metadata_columns h) (verify_schema_tables h)))
        (\<lambda>e. if e = sqlite_error
             then eseq (rollback_quietly h) (eseq (close_quietly h) (throw (Foreign ''project.database_init_failed'')))
             else eseq (close_quietly h) (throw e)))"

definition migrate_database :: "project_host \<Rightarrow> (project_world, exn, unit) exec" where
  "migrate_database h = ebind (read_schema_version h) (\<lambda>source.
     if source = DATABASE_SCHEMA_VERSION then ret ()
     else etry (execute_all h ([Begin_Immediate] @ migration_statements source @ [Set_User_Version DATABASE_SCHEMA_VERSION, Commit_Work]))
       (\<lambda>e. if e = sqlite_error then eseq (rollback_quietly h) (throw (Foreign ''project.database_migration_failed'')) else throw e))"

definition open_database :: "project_host \<Rightarrow> (project_world, exn, unit) exec" where
  "open_database h =
     eseq (connect h)
      (etry (ebind (read_schema_version h) (\<lambda>version.
          if version > DATABASE_SCHEMA_VERSION then throw (Foreign ''project.unsupported_schema_version'')
          else if version < LEGACY_DATABASE_SCHEMA_VERSION then throw (Foreign ''project.database_schema_invalid'')
          else eseq (if version < DATABASE_SCHEMA_VERSION then eseq (verify_metadata_columns h) (migrate_database h) else ret ())
            (eseq (verify_metadata_columns h) (verify_schema_tables h))))
        (\<lambda>e. eseq (close_quietly h) (throw e)))"

fun parse_timestamp :: "stored_time \<Rightarrow> exn + int" where
  "parse_timestamp (Instant t) = Inr t"
| "parse_timestamp Naive_Time = Inl (Foreign ''project.metadata_invalid'')"
| "parse_timestamp No_Time = Inl (Foreign ''project.metadata_invalid'')"

definition select_metadata :: "project_db \<Rightarrow> exn + metadata_row option" where
  "select_metadata db = rbind (guard (set METADATA_COLUMNS \<subseteq> set (columns_of METADATA_TABLE db) \<and> ''id'' \<in> set (columns_of METADATA_TABLE db))
     sqlite_error) (\<lambda>_. Inr (metadata_at_1 db))"

definition metadata_of_row :: "metadata_row \<Rightarrow> exn + project_metadata" where
  "metadata_of_row r =
     rbind (case normalize_project_id (row_project r) of Inl _ \<Rightarrow> Inl (Foreign ''project.metadata_invalid'') | Inr i \<Rightarrow> Inr i) (\<lambda>i.
     rbind (parse_timestamp (row_created r)) (\<lambda>c.
     rbind (parse_timestamp (row_updated r)) (\<lambda>u.
     Inr \<lparr>md_project_id = i, md_display_name = row_name r, md_created_at = c, md_updated_at = u\<rparr>)))"

definition read_metadata :: "project_host \<Rightarrow> (project_world, exn, project_metadata) exec" where
  "read_metadata h =
     ebind (typed ''project.database_unreadable'' (query_db h select_metadata)) (\<lambda>found.
     case found of None \<Rightarrow> throw (Foreign ''project.metadata_missing'') | Some r \<Rightarrow> lift (metadata_of_row r))"

end
