(* ===== verification/Project.thy ===== *)
theory Project
  imports Project_Storage
begin

text \<open>
  The life of a project: creating, opening and closing it (\<open>project/service.py\<close>), over the
  files and the database of \<open>Project_Storage\<close>.
\<close>

section \<open>The service\<close>

definition PROJECT_DIRECTORY_NAMES :: "string list" where
  "PROJECT_DIRECTORY_NAMES = [''dbc'', ''data'', ''logs'', ''scripts'', ''agent'', ''exports'', ''cache'']"

record project_handle =
  hd_manifest :: project_manifest
  hd_metadata :: project_metadata
  hd_open :: bool

fun make_directories :: "project_host \<Rightarrow> string list \<Rightarrow> (project_world, exn, unit) exec" where
  "make_directories h [] = ret ()"
| "make_directories h (n # ns) = ebind (ask (fails_mkdir h)) (\<lambda>fails.
     if fails then throw os_error
     else eseq (put (update_files (\<lambda>d. d\<lparr>subdirectories := subdirectories d @ [n]\<rparr>))) (make_directories h ns))"

definition remove_tree :: "project_host \<Rightarrow> (project_world, exn, unit) exec" where
  "remove_tree h = ebind (ask (leaves_litter h)) (\<lambda>left.
     put (\<lambda>s. s\<lparr>proot := case left of None \<Rightarrow> Absent | Some d \<Rightarrow> Root d\<rparr>))"

definition roll_back_creation :: "project_host \<Rightarrow> exn \<Rightarrow> (project_world, exn, 'r) exec" where
  "roll_back_creation h e = eseq (remove_tree h)
     (throw (if e = os_error then Foreign ''project.create_failed'' else e))"

definition create_project :: "project_host \<Rightarrow> pystr \<Rightarrow> (project_world, exn, project_handle) exec" where
  "create_project h display_name =
     (if py_strip display_name = [] then throw (Foreign ''project.invalid_display_name'')
      else ebind (get proot) (\<lambda>there.
        if there \<noteq> Absent then throw (Foreign ''project.already_exists'')
        else ebind (ask (fails_mkdir h)) (\<lambda>fails.
          if fails then throw (Foreign ''project.create_failed'')
          else eseq (put (\<lambda>s. s\<lparr>proot := Root \<lparr>subdirectories = [], manifest_at = None, database_at = None\<rparr>\<rparr>))
           (ebind (ask (fresh_uuid h)) (\<lambda>u. ebind (ask (clock_now h)) (\<lambda>now.
            let manifest = \<lparr>mf_format = codes MANIFEST_FORMAT, mf_schema_version = MANIFEST_SCHEMA_VERSION,
                  mf_project_id = uuid_text (unat u)\<rparr>;
                metadata = \<lparr>md_project_id = uuid_text (unat u), md_display_name = display_name, md_created_at = now, md_updated_at = now\<rparr>
            in eseq (etry (eseq (make_directories h PROJECT_DIRECTORY_NAMES) (create_database h metadata)) (roll_back_creation h))
              (eseq (etry (write_manifest h manifest) (\<lambda>e. eseq (close_quietly h) (roll_back_creation h e)))
                (ret \<lparr>hd_manifest = manifest, hd_metadata = metadata, hd_open = True\<rparr>))))))))"

definition open_project :: "project_host \<Rightarrow> (project_world, exn, project_handle) exec" where
  "open_project h = ebind (get proot) (\<lambda>there.
     case there of
       Absent \<Rightarrow> throw (Foreign ''project.not_found'')
     | Not_A_Directory \<Rightarrow> throw (Foreign ''project.not_a_directory'')
     | Root d \<Rightarrow> (case manifest_at d of
           None \<Rightarrow> throw (Foreign ''project.manifest_missing'')
         | Some f \<Rightarrow> ebind (lift (read_manifest f)) (\<lambda>manifest.
             if database_at d = None then throw (Foreign ''project.database_missing'')
             else eseq (open_database h)
              (etry (ebind (read_metadata h) (\<lambda>metadata.
                  if md_project_id metadata \<noteq> mf_project_id manifest then throw (Foreign ''project.identity_mismatch'')
                  else ret \<lparr>hd_manifest = manifest, hd_metadata = metadata, hd_open = True\<rparr>))
                (\<lambda>e. eseq (close_quietly h) (throw e))))))"

abbreviation project_closed :: exn where
  "project_closed \<equiv> Foreign ''project.closed''"

definition handle_read_metadata :: "project_host \<Rightarrow> project_handle \<Rightarrow> (project_world, exn, project_metadata) exec" where
  "handle_read_metadata h p = (if hd_open p then read_metadata h else throw project_closed)"

definition handle_enter :: "project_handle \<Rightarrow> (project_world, exn, project_handle) exec" where
  "handle_enter p = (if hd_open p then ret p else throw project_closed)"

text \<open>A close that fails raises, and the handle the caller has stays open.\<close>

definition handle_close :: "project_host \<Rightarrow> project_handle \<Rightarrow> (project_world, exn, project_handle) exec" where
  "handle_close h p =
     (if \<not> hd_open p then ret p
      else eseq (typed ''project.close_failed'' (close_connection h)) (ret (p\<lparr>hd_open := False\<rparr>)))"

section \<open>Lemmas\<close>

lemma wp_ask [simp]: "wp (ask f) Q E s = Q (f (asked s)) (s\<lparr>asked := Suc (asked s)\<rparr>)"
  by (simp add: ask_def wp_def)

lemma wp_typed [simp]: "wp (typed c m) Q E s = wp m Q (\<lambda>e. E (if e = sqlite_error then Foreign c else e)) s"
  by (simp add: typed_def)

lemma seen_asked [simp]: "seen_db (s\<lparr>asked := k\<rparr>) = seen_db s"
  by (simp add: seen_db_def cong: option.case_cong root_state.case_cong)

lemma seen_db_error: "seen_db s = Inl e \<Longrightarrow> e = sqlite_error"
  by (auto simp: seen_db_def split: option.splits root_state.splits database_file.splits)

lemma wp_query_db [simp]:
  "wp (query_db h f) Q E s = (let t = s\<lparr>asked := Suc (asked s)\<rparr> in
     if fails_sql h (asked s) then E sqlite_error t
     else case rbind (seen_db s) f of Inl e \<Rightarrow> E e t | Inr a \<Rightarrow> Q a t)"
  by (simp add: query_db_def wp_pure Let_def)

lemma wp_execute:
  "wp (execute h c) Q E s = (let t = s\<lparr>asked := Suc (asked s)\<rparr> in
     if fails_sql h (asked s) then E sqlite_error t
     else case rbind (seen_db t) (\<lambda>db. apply_statement c db t) of Inl e \<Rightarrow> E e t | Inr u \<Rightarrow> Q () u)"
  by (simp add: execute_def wp_def ebind_apply exec_apply ask_def Let_def split: sum.splits)

text \<open>What a statement that changes the schema or the rows makes of the working copy.\<close>

fun working :: "schema_statement \<Rightarrow> project_db \<Rightarrow> project_db option" where
  "working (Create_Table t cs) db =
     (if t \<in> set (map fst (db_tables db)) then None else Some (db\<lparr>db_tables := db_tables db @ [(t, cs)]\<rparr>))"
| "working (Insert_Metadata r) db =
     (if METADATA_TABLE \<notin> set (map fst (db_tables db)) \<or> metadata_at_1 db \<noteq> None then None else Some (db\<lparr>metadata_at_1 := Some r\<rparr>))"
| "working (Set_User_Version n) db = Some (db\<lparr>user_version := n\<rparr>)"
| "working _ db = None"

fun working_all :: "schema_statement list \<Rightarrow> project_db \<Rightarrow> project_db option" where
  "working_all [] db = Some db"
| "working_all (c # cs) db = (case working c db of None \<Rightarrow> None | Some db' \<Rightarrow> working_all cs db')"

definition of_transaction :: "schema_statement \<Rightarrow> bool" where
  "of_transaction c \<longleftrightarrow> c \<notin> {Begin_Immediate, Commit_Work, Rollback_Work}"

definition same_files :: "project_world \<Rightarrow> project_world \<Rightarrow> bool" where
  "same_files s t \<longleftrightarrow> proot t = proot s \<and> connections t = connections s"

lemma same_files_refl [simp]: "same_files s s" "same_files s (t\<lparr>asked := k\<rparr>) = same_files s t" "same_files s (t\<lparr>pending := p\<rparr>) = same_files s t"
  by (simp_all add: same_files_def)

lemma statement_wp:
  assumes "pending s = Some db" "of_transaction c"
  shows "wp (execute h c) (\<lambda>_ t. same_files s t \<and> (\<exists>db'. working c db = Some db' \<and> pending t = Some db'))
    (\<lambda>e t. same_files s t \<and> pending t = Some db \<and> (e = sqlite_error \<or> (\<exists>r. c = Insert_Metadata r))) s"
  using assms
  by (cases c) (auto simp: wp_execute Let_def seen_db_def of_transaction_def change_db_def same_files_def rbind_Inr_iff split: sum.splits)

lemma transaction_wp:
  assumes "pending s = Some db" "list_all of_transaction cs"
  shows "wp (execute_all h cs) (\<lambda>_ t. same_files s t \<and> (\<exists>db'. working_all cs db = Some db' \<and> pending t = Some db'))
    (\<lambda>e t. same_files s t \<and> (e = sqlite_error \<or> (\<exists>r. Insert_Metadata r \<in> set cs))) s"
  using assms
proof (induction cs arbitrary: s db)
  case (Cons c cs)
  show ?case
    unfolding execute_all.simps wp_eseq
  proof (rule wp_mono [OF statement_wp])
    show "pending s = Some db" "of_transaction c" using Cons.prems by simp_all
    fix a t
    assume t: "same_files s t \<and> (\<exists>db'. working c db = Some db' \<and> pending t = Some db')"
    then obtain db' where db': "pending t = Some db'" "working c db = Some db'" by blast
    have cs: "list_all of_transaction cs" using Cons.prems(2) by simp
    show "wp (execute_all h cs) (\<lambda>_ t. same_files s t \<and> (\<exists>db'. working_all (c # cs) db = Some db' \<and> pending t = Some db'))
        (\<lambda>e t. same_files s t \<and> (e = sqlite_error \<or> (\<exists>r. Insert_Metadata r \<in> set (c # cs)))) t"
      by (rule wp_mono [OF Cons.IH [OF db'(1) cs]]) (use t db'(2) in \<open>auto simp: same_files_def\<close>)
  qed auto
qed simp

lemma execute_all_append: "wp (execute_all h (cs @ ds)) Q E = wp (execute_all h cs) (\<lambda>_. wp (execute_all h ds) Q E) E"
  by (induction cs) simp_all

text \<open>The committed database, and the whole project with another one.\<close>

definition committed_db :: "project_world \<Rightarrow> project_db option" where
  "committed_db s = (case proot s of Root d \<Rightarrow> (case database_at d of Some (Sqlite_File db) \<Rightarrow> Some db | _ \<Rightarrow> None) | _ \<Rightarrow> None)"

definition with_db :: "project_db \<Rightarrow> root_state \<Rightarrow> root_state" where
  "with_db db r = (case r of Root d \<Rightarrow> Root (d\<lparr>database_at := Some (Sqlite_File db)\<rparr>) | _ \<Rightarrow> r)"

lemma committed_seen: "pending s = None \<Longrightarrow> committed_db s = Some db \<Longrightarrow> seen_db s = Inr db"
  by (auto simp: committed_db_def seen_db_def split: root_state.splits option.splits database_file.splits)

lemma save_db_root [simp]:
  "proot (save_db db s) = with_db db (proot s)" "pending (save_db db s) = pending s" "connections (save_db db s) = connections s"
  by (auto simp: save_db_def update_files_def with_db_def split: root_state.splits)

lemma with_db_committed: "committed_db s = Some db \<Longrightarrow> with_db db (proot s) = proot s"
  by (auto simp: committed_db_def with_db_def split: root_state.splits option.splits database_file.splits)

lemma committed_with_db: "committed_db s = Some db \<Longrightarrow> proot t = with_db db' (proot s) \<Longrightarrow> committed_db t = Some db'"
  by (auto simp: committed_db_def with_db_def split: root_state.splits option.splits)

lemma work_wp:
  assumes s: "pending s = None" "committed_db s = Some db" and cs: "list_all of_transaction cs"
  shows "wp (execute_all h ([Begin_Immediate] @ cs @ [Commit_Work]))
    (\<lambda>_ t. pending t = None \<and> connections t = connections s \<and> (\<exists>db'. working_all cs db = Some db' \<and> proot t = with_db db' (proot s)))
    (\<lambda>e t. same_files s t \<and> (e = sqlite_error \<or> (\<exists>r. Insert_Metadata r \<in> set cs))) s"
proof -
  have rest: "wp (execute_all h (cs @ [Commit_Work]))
    (\<lambda>_ t. pending t = None \<and> connections t = connections s \<and> (\<exists>db'. working_all cs db = Some db' \<and> proot t = with_db db' (proot s)))
    (\<lambda>e t. same_files s t \<and> (e = sqlite_error \<or> (\<exists>r. Insert_Metadata r \<in> set cs))) u"
    if u: "pending u = Some db" "same_files s u" for u
    unfolding execute_all_append
    by (rule wp_mono [OF transaction_wp [OF u(1) cs]])
      (use u(2) in \<open>auto simp: wp_execute Let_def seen_db_def same_files_def\<close>)
  show ?thesis
    using s committed_seen [OF s] rest
    by (auto simp: wp_execute Let_def same_files_def)
qed

text \<open>What an upgrade makes of a database.\<close>

definition upgraded :: "project_db \<Rightarrow> project_db option" where
  "upgraded db =
     (if user_version db = DATABASE_SCHEMA_VERSION then Some db
      else if user_version db < LEGACY_DATABASE_SCHEMA_VERSION \<or> user_version db > DATABASE_SCHEMA_VERSION then None
      else working_all (migration_statements (user_version db) @ [Set_User_Version DATABASE_SCHEMA_VERSION]) db)"

lemma migrate_wp:
  assumes s: "pending s = None" "committed_db s = Some db" "LEGACY_DATABASE_SCHEMA_VERSION \<le> user_version db" "user_version db \<le> DATABASE_SCHEMA_VERSION"
  shows "wp (migrate_database h)
    (\<lambda>_ t. pending t = None \<and> connections t = connections s \<and> (\<exists>db'. upgraded db = Some db' \<and> proot t = with_db db' (proot s)))
    (\<lambda>e t. same_files s t \<and> project_error e) s"
proof -
  let ?cs = "migration_statements (user_version db) @ [Set_User_Version DATABASE_SCHEMA_VERSION]"
  have cs: "list_all of_transaction ?cs" "Insert_Metadata r \<notin> set ?cs" for r
    by (auto simp: migration_statements_def migration_steps_def v2_ddl_statements_def v3_ddl_statements_def of_transaction_def
        CREATE_DATA_SESSIONS_TABLE_def CREATE_DATA_SEGMENTS_TABLE_def CREATE_DBC_ASSETS_TABLE_def)
  have same: "upgraded db = working_all ?cs db" if "user_version db \<noteq> DATABASE_SCHEMA_VERSION"
    using that s by (simp add: upgraded_def)
  have "wp (rollback_quietly h) (\<lambda>_. same_files s) (\<lambda>_ _. False) t" if "same_files s t" for t
    using that seen_db_error [of t]
    by (cases "seen_db t") (auto simp: rollback_quietly_def suppress_sqlite_def wp_execute Let_def same_files_def)
  note roll = wp_mono [OF this]
  have body: "wp (execute_all h (Begin_Immediate # migration_statements (user_version db) @ [Set_User_Version DATABASE_SCHEMA_VERSION, Commit_Work])) Q E u"
    if "pending u = None" "committed_db u = Some db" "same_files s u"
      "\<And>t db'. pending t = None \<Longrightarrow> connections t = connections s \<Longrightarrow> working_all ?cs db = Some db' \<Longrightarrow> proot t = with_db db' (proot s) \<Longrightarrow> Q () t"
      "\<And>t. same_files s t \<Longrightarrow> E sqlite_error t" for u Q E
    using wp_mono [OF work_wp [OF that(1,2) cs(1), of h], of Q E] cs(2) that(3-5)
    by (auto simp: same_files_def simp del: execute_all.simps)
  show ?thesis
    using s committed_seen [OF s(1,2)] with_db_committed [OF s(2)] same
    by (auto simp: migrate_database_def read_schema_version_def Let_def upgraded_def project_error_def committed_db_def
        simp del: execute_all.simps intro!: body roll)
qed

text \<open>What the verification asks of a database.\<close>

definition metadata_ok :: "project_db \<Rightarrow> bool" where
  "metadata_ok db \<longleftrightarrow> set METADATA_COLUMNS \<subseteq> set (columns_of METADATA_TABLE db)"

definition schema_ok :: "project_db \<Rightarrow> bool" where
  "schema_ok db \<longleftrightarrow> set (map fst SCHEMA_TABLES) \<subseteq> set (map fst (db_tables db)) \<and>
     list_all (\<lambda>(t, cs). set cs \<subseteq> set (columns_of t db)) SCHEMA_TABLES"

lemma same_files_trans: "same_files s t \<Longrightarrow> same_files t u \<Longrightarrow> same_files s u"
  by (simp add: same_files_def)

definition kept_world :: "project_world \<Rightarrow> project_world \<Rightarrow> bool" where
  "kept_world s t \<longleftrightarrow> same_files s t \<and> pending t = pending s"

lemma kept_world_simps [simp]: "kept_world s s" "kept_world s (t\<lparr>asked := k\<rparr>) = kept_world s t"
  by (simp_all add: kept_world_def)

lemma kept_seen: "kept_world s t \<Longrightarrow> seen_db t = seen_db s"
  by (simp add: kept_world_def same_files_def seen_db_def cong: option.case_cong root_state.case_cong)

lemma project_codes [simp]: "project_error (Foreign c) \<longleftrightarrow> take 8 c = ''project.''"
  by (simp add: project_error_def)

lemma verify_metadata_wp:
  assumes "kept_world s t" "seen_db s = Inr db"
  shows "wp (verify_metadata_columns h) (\<lambda>_ u. kept_world s u \<and> metadata_ok db) (\<lambda>e u. kept_world s u \<and> project_error e) t"
  using assms kept_seen [OF assms(1)]
  by (auto simp: verify_metadata_columns_def Let_def metadata_ok_def guard_def split: sum.splits)

lemma verify_columns_wp:
  assumes "kept_world s t" "seen_db s = Inr db"
  shows "wp (verify_columns h ts) (\<lambda>_ u. kept_world s u \<and> list_all (\<lambda>(t, cs). set cs \<subseteq> set (columns_of t db)) ts)
    (\<lambda>e u. kept_world s u \<and> project_error e) t"
  using assms(1)
proof (induction ts arbitrary: t)
  case (Cons c ts)
  obtain n cs where c: "c = (n, cs)" by fastforce
  have k: "kept_world s (t\<lparr>asked := Suc (asked t)\<rparr>)" using Cons.prems by simp
  show ?case
    using Cons.prems kept_seen [OF Cons.prems] assms(2)
    by (auto simp: c Let_def guard_def intro!: wp_mono [OF Cons.IH [OF k]])
qed simp

lemma verify_schema_wp:
  assumes "kept_world s t" "seen_db s = Inr db"
  shows "wp (verify_schema_tables h) (\<lambda>_ u. kept_world s u \<and> schema_ok db) (\<lambda>e u. kept_world s u \<and> project_error e) t"
proof -
  have k: "kept_world s (t\<lparr>asked := Suc (asked t)\<rparr>)" using assms(1) by simp
  show ?thesis
    using assms kept_seen [OF assms(1)]
    by (auto simp: verify_schema_tables_def Let_def guard_def schema_ok_def image_subset_iff intro!: wp_mono [OF verify_columns_wp [OF k assms(2)]])
qed

lemma close_quietly_wp: "wp (close_quietly h) (\<lambda>_ t. proot t = proot s) (\<lambda>_ _. False) s"
  by (simp add: close_quietly_def suppress_sqlite_def close_connection_def)

lemma connect_wp:
  assumes "committed_db s = Some db" "pending s = None"
  shows "wp (connect h) (\<lambda>_ t. proot t = proot s \<and> pending t = None \<and> connections t = Suc (connections s))
    (\<lambda>e t. proot t = proot s \<and> e = sqlite_error) s"
  using assms
  by (auto simp: connect_def committed_db_def update_files_def split: root_state.splits option.splits database_file.splits)

lemma open_database_wp:
  assumes s: "pending s = None" "committed_db s = Some db"
  shows "wp (open_database h)
    (\<lambda>_ t. pending t = None \<and> connections t = Suc (connections s) \<and>
      (\<exists>db'. upgraded db = Some db' \<and> proot t = with_db db' (proot s) \<and> metadata_ok db' \<and> schema_ok db'))
    (\<lambda>e t. (project_error e \<or> e = sqlite_error) \<and>
      (proot t = proot s \<or> (\<exists>db'. upgraded db = Some db' \<and> proot t = with_db db' (proot s)))) s"
  (is "wp _ ?Q ?E s")
proof -
  have fin: "wp (eseq (verify_metadata_columns h) (verify_schema_tables h)) ?Q (\<lambda>e t. project_error e \<and> ?E e t) t"
    if t: "pending t = None" "connections t = Suc (connections s)" "upgraded db = Some db'" "proot t = with_db db' (proot s)"
    for db' and t :: project_world
  proof -
    have "seen_db t = Inr db'" using committed_seen [OF t(1) committed_with_db [OF s(2) t(4)]] .
    note v = verify_metadata_wp [OF _ this] verify_schema_wp [OF _ this]
    show ?thesis
      unfolding wp_eseq
      by (rule wp_mono [OF v(1)], simp, rule wp_mono [OF v(2)]) (use t in \<open>auto simp: kept_world_def same_files_def\<close>)
  qed
  define body where "body = (\<lambda>version. if version > DATABASE_SCHEMA_VERSION then throw (Foreign ''project.unsupported_schema_version'')
      else if version < LEGACY_DATABASE_SCHEMA_VERSION then throw (Foreign ''project.database_schema_invalid'')
      else eseq (if version < DATABASE_SCHEMA_VERSION then eseq (verify_metadata_columns h) (migrate_database h) else ret ())
        (eseq (verify_metadata_columns h) (verify_schema_tables h)))"
  have opened: "wp (body (user_version db)) ?Q (\<lambda>e t. project_error e \<and> ?E e t) t"
    if t: "pending t = None" "connections t = Suc (connections s)" "proot t = proot s" for t
  proof -
    have db: "committed_db t = Some db" using s(2) t(3) by (simp add: committed_db_def)
    have "with_db db (proot s) = proot s" by (rule with_db_committed [OF s(2)])
    note same = this
    note seen = committed_seen [OF t(1) db]
    consider "user_version db > DATABASE_SCHEMA_VERSION \<or> user_version db < LEGACY_DATABASE_SCHEMA_VERSION"
      | "user_version db = DATABASE_SCHEMA_VERSION"
      | "LEGACY_DATABASE_SCHEMA_VERSION \<le> user_version db" "user_version db < DATABASE_SCHEMA_VERSION" by linarith
    then show ?thesis
    proof cases
      case 1
      then show ?thesis using t by (auto simp: body_def)
    next
      case 2
      then have "upgraded db = Some db" by (simp add: upgraded_def)
      from fin [OF t(1,2) this] t(3) same 2 show ?thesis
        by (simp add: body_def DATABASE_SCHEMA_VERSION_def LEGACY_DATABASE_SCHEMA_VERSION_def)
    next
      case 3
      have rest: "wp (migrate_database h) (\<lambda>_. wp (eseq (verify_metadata_columns h) (verify_schema_tables h)) ?Q (\<lambda>e t. project_error e \<and> ?E e t))
          (\<lambda>e t. project_error e \<and> ?E e t) u" if u: "kept_world t u" for u
      proof -
        have d: "pending u = None" "committed_db u = Some db" "connections u = Suc (connections s)" "proot u = proot s"
          using u t db by (simp_all add: kept_world_def same_files_def committed_db_def)
        have le: "user_version db \<le> DATABASE_SCHEMA_VERSION" using 3 by simp
        show ?thesis
          by (rule wp_mono [OF migrate_wp [OF d(1,2) 3(1) le]])
            (use d fin in \<open>auto simp: same_files_def\<close>)
      qed
      have "wp (verify_metadata_columns h) (\<lambda>_. wp (migrate_database h)
            (\<lambda>_. wp (eseq (verify_metadata_columns h) (verify_schema_tables h)) ?Q (\<lambda>e t. project_error e \<and> ?E e t))
            (\<lambda>e t. project_error e \<and> ?E e t)) (\<lambda>e t. project_error e \<and> ?E e t) t"
        by (rule wp_mono [OF verify_metadata_wp [OF kept_world_simps(1) seen]])
          (use rest t in \<open>auto simp: kept_world_def same_files_def\<close>)
      then show ?thesis using 3 by (simp add: body_def)
    qed
  qed
  show ?thesis
    unfolding open_database_def body_def [symmetric] wp_eseq
  proof (rule wp_mono [OF connect_wp [OF s(2,1), of h]])
    fix a and t :: project_world
    assume t: "proot t = proot s \<and> pending t = None \<and> connections t = Suc (connections s)"
    have t': "proot (t\<lparr>asked := k\<rparr>) = proot s" "pending (t\<lparr>asked := k\<rparr>) = None" "connections (t\<lparr>asked := k\<rparr>) = Suc (connections s)" for k
      using t by simp_all
    have seen: "seen_db t = Inr db"
      using committed_seen [of t db] t s(2) by (simp add: committed_db_def)
    have closed: "wp (close_quietly h) (\<lambda>_ v. wp (throw e) ?Q ?E v) ?E u" if "project_error e \<and> ?E e u" for e u
      by (rule wp_mono [OF close_quietly_wp]) (use that in auto)
    have "wp (ebind (read_schema_version h) body) ?Q (\<lambda>e t. project_error e \<and> ?E e t) t"
      using opened [OF t'(2,3,1)] t by (auto simp: read_schema_version_def Let_def seen)
    then show "wp (etry (ebind (read_schema_version h) body) (\<lambda>e. eseq (close_quietly h) (throw e))) ?Q ?E t"
      unfolding wp_etry wp_eseq by (rule wp_mono) (use closed in auto)
  qed auto
qed

lemma working_all_keeps:
  assumes "working_all cs d = Some d'" "\<And>r. Insert_Metadata r \<notin> set cs"
  shows "metadata_at_1 d' = metadata_at_1 d \<and> (\<exists>new. db_tables d' = db_tables d @ new)"
  using assms
proof (induction cs arbitrary: d)
  case (Cons c cs)
  from Cons.prems(1) obtain m where m: "working c d = Some m" "working_all cs m = Some d'"
    by (auto split: option.splits)
  have "Insert_Metadata r \<notin> set cs" for r using Cons.prems(2) [of r] by simp
  note rest = Cons.IH [OF m(2) this]
  have "metadata_at_1 m = metadata_at_1 d \<and> (\<exists>new. db_tables m = db_tables d @ new)"
    using m(1) Cons.prems(2) by (cases c) (auto split: if_splits)
  then show ?case using rest by auto
qed simp

lemma working_all_version: "working_all (cs @ [Set_User_Version n]) d = Some d' \<Longrightarrow> user_version d' = n"
  by (induction cs arbitrary: d) (auto split: option.splits)

lemma upgrade_inserts_nothing: "Insert_Metadata r \<notin> set (migration_statements v @ [Set_User_Version n])"
  by (auto simp: migration_statements_def migration_steps_def v2_ddl_statements_def v3_ddl_statements_def
      CREATE_DATA_SESSIONS_TABLE_def CREATE_DATA_SEGMENTS_TABLE_def CREATE_DBC_ASSETS_TABLE_def)

lemma upgraded_keeps:
  assumes "upgraded db = Some db'"
  shows "metadata_at_1 db' = metadata_at_1 db" "user_version db' = DATABASE_SCHEMA_VERSION"
    "\<exists>new. db_tables db' = db_tables db @ new"
proof (atomize (full), cases "user_version db = DATABASE_SCHEMA_VERSION")
  case True
  then have "db' = db" using assms by (simp add: upgraded_def)
  then show "metadata_at_1 db' = metadata_at_1 db \<and> user_version db' = DATABASE_SCHEMA_VERSION \<and> (\<exists>new. db_tables db' = db_tables db @ new)"
    using True by simp
next
  case False
  then have w: "working_all (migration_statements (user_version db) @ [Set_User_Version DATABASE_SCHEMA_VERSION]) db = Some db'"
    using assms by (simp add: upgraded_def split: if_splits)
  show "metadata_at_1 db' = metadata_at_1 db \<and> user_version db' = DATABASE_SCHEMA_VERSION \<and> (\<exists>new. db_tables db' = db_tables db @ new)"
    using working_all_keeps [OF w upgrade_inserts_nothing] working_all_version [OF w] by simp
qed

lemma read_metadata_wp:
  assumes "seen_db s = Inr db"
  shows "wp (read_metadata h) (\<lambda>m t. proot t = proot s \<and> (\<exists>r. metadata_at_1 db = Some r \<and> metadata_of_row r = Inr m))
    (\<lambda>e t. proot t = proot s \<and> project_error e) s"
proof -
  have "project_error e" if "metadata_of_row r = Inl e" for r e
    using that
    by (cases "row_created r"; cases "row_updated r") (auto simp: metadata_of_row_def rbind_Inl_iff split: sum.splits)
  then show ?thesis
    using assms by (auto simp: read_metadata_def Let_def select_metadata_def guard_def split: sum.splits option.splits)
qed

lemma load_object_errors: "load_object f = Inl e \<Longrightarrow> project_error e \<or> e = Foreign ''UnicodeDecodeError''"
  by (cases f) (auto simp: load_object_def split: pyval.splits)

lemma read_manifest_errors:
  assumes "read_manifest f = Inl e"
  shows "project_error e \<or> e = Foreign ''UnicodeDecodeError''"
proof (cases "load_object f")
  case (Inr d)
  show ?thesis
  proof (cases "dict_get d ''format'' = VStr (codes MANIFEST_FORMAT)")
    case True
    show ?thesis
    proof (cases "dict_get d ''schema_version''")
      case (VInt n)
      then show ?thesis
        using assms by (auto simp: read_manifest_def Inr True split: if_split_asm pyval.split_asm sum.split_asm)
    qed (use assms in \<open>auto simp: read_manifest_def Inr True\<close>)
  qed (use assms in \<open>auto simp: read_manifest_def Inr\<close>)
qed (use assms load_object_errors [of f e] in \<open>simp add: read_manifest_def\<close>)

text \<open>The database that a creation commits.\<close>

definition created_db :: "project_metadata \<Rightarrow> project_db" where
  "created_db m = \<lparr>user_version = DATABASE_SCHEMA_VERSION,
     db_tables = [(METADATA_TABLE, [''id'', ''project_id'', ''display_name'', ''created_at'', ''updated_at'']),
       (''data_sessions'', DATA_SESSIONS_COLUMNS), (''data_segments'', DATA_SEGMENTS_COLUMNS), (''dbc_assets'', DBC_ASSETS_COLUMNS)],
     metadata_at_1 = Some (stored_row_of m)\<rparr>"

lemmas schema_defs = METADATA_TABLE_def METADATA_COLUMNS_def SCHEMA_TABLES_def DATA_SESSIONS_COLUMNS_def DATA_SEGMENTS_COLUMNS_def
  DBC_ASSETS_COLUMNS_def CREATE_METADATA_TABLE_def CREATE_DATA_SESSIONS_TABLE_def CREATE_DATA_SEGMENTS_TABLE_def
  CREATE_DBC_ASSETS_TABLE_def current_schema_statements_def migration_statements_def migration_steps_def v2_ddl_statements_def
  v3_ddl_statements_def LEGACY_DATABASE_SCHEMA_VERSION_def DATABASE_SCHEMA_VERSION_def

lemma creation_makes:
  "working_all (CREATE_METADATA_TABLE # current_schema_statements @ [Insert_Metadata (stored_row_of m), Set_User_Version DATABASE_SCHEMA_VERSION]) empty_db =
     Some (created_db m)"
  by (simp add: schema_defs empty_db_def created_db_def)

lemma created_db_ok: "metadata_ok (created_db m)" "schema_ok (created_db m)"
  by (simp_all add: metadata_ok_def schema_ok_def columns_of_def created_db_def schema_defs)

lemma bad_insert: "bind_text s = Inl e \<Longrightarrow> e = Foreign ''UnicodeEncodeError''"
  by (simp add: bind_text_def guard_def split: if_splits)

definition creation_error :: "exn \<Rightarrow> bool" where
  "creation_error e \<longleftrightarrow> project_error e \<or> e = Foreign ''UnicodeEncodeError''"

lemma execute_errors: "wp (execute h c) (\<lambda>_ _. True) (\<lambda>e _. e = sqlite_error \<or> e = Foreign ''UnicodeEncodeError'') s"
  using seen_db_error
  by (cases c) (auto simp: wp_execute Let_def rbind_Inl_iff dest: bad_insert split: sum.splits)

lemma execute_all_errors: "wp (execute_all h cs) (\<lambda>_ _. True) (\<lambda>e _. e = sqlite_error \<or> e = Foreign ''UnicodeEncodeError'') s"
proof (induction cs arbitrary: s)
  case (Cons c cs)
  show ?case
    unfolding execute_all.simps wp_eseq by (rule wp_mono [OF execute_errors]) (use Cons.IH in auto)
qed simp

lemma wp_both: "wp m Q E s \<Longrightarrow> wp m Q' E' s \<Longrightarrow> wp m (\<lambda>a t. Q a t \<and> Q' a t) (\<lambda>e t. E e t \<and> E' e t) s"
  by (auto simp: wp_def split: prod.splits sum.splits)

lemma create_database_wp:
  assumes s: "pending s = None" "proot s = Root d" "database_at d = None"
  shows "wp (create_database h m)
    (\<lambda>_ t. pending t = None \<and> connections t = Suc (connections s) \<and> proot t = Root (d\<lparr>database_at := Some (Sqlite_File (created_db m))\<rparr>))
    (\<lambda>e _. creation_error e) s"
  (is "wp _ ?Q ?E s")
proof -
  let ?cs = "CREATE_METADATA_TABLE # current_schema_statements @ [Insert_Metadata (stored_row_of m), Set_User_Version DATABASE_SCHEMA_VERSION]"
  let ?bad = "\<lambda>e t. e = sqlite_error \<or> creation_error e"
  define body where "body = eseq (execute_all h (creation_statements m)) (eseq (verify_metadata_columns h) (verify_schema_tables h))"
  have split: "creation_statements m = [Begin_Immediate] @ ?cs @ [Commit_Work]"
    by (simp add: creation_statements_def)
  have cs: "list_all of_transaction ?cs"
    by (simp add: schema_defs of_transaction_def)
  have opened: "wp (connect h) (\<lambda>_ t. pending t = None \<and> connections t = Suc (connections s) \<and>
      proot t = Root (d\<lparr>database_at := Some (Sqlite_File empty_db)\<rparr>)) (\<lambda>e _. e = sqlite_error) s"
    using s by (simp add: connect_def update_files_def)
  have body: "wp body ?Q ?bad t"
    if t: "pending t = None" "connections t = Suc (connections s)" "proot t = Root (d\<lparr>database_at := Some (Sqlite_File empty_db)\<rparr>)" for t
  proof -
    have db: "committed_db t = Some empty_db" using t by (simp add: committed_db_def)
    show ?thesis
      unfolding body_def wp_eseq split
    proof (rule wp_mono [OF wp_both [OF work_wp [OF t(1) db cs] execute_all_errors]])
      fix u :: project_world and a
      assume "(pending u = None \<and> connections u = connections t \<and>
        (\<exists>db'. working_all ?cs empty_db = Some db' \<and> proot u = with_db db' (proot t))) \<and> True"
      then have u: "pending u = None" "connections u = Suc (connections s)" "proot u = Root (d\<lparr>database_at := Some (Sqlite_File (created_db m))\<rparr>)"
        using t creation_makes [of m] by (simp_all add: with_db_def)
      have seen: "seen_db u = Inr (created_db m)" using u by (simp add: seen_db_def)
      note v = verify_metadata_wp [OF _ seen] verify_schema_wp [OF _ seen]
      show "wp (verify_metadata_columns h) (\<lambda>_. wp (verify_schema_tables h) ?Q ?bad) ?bad u"
        by (rule wp_mono [OF v(1)], simp, rule wp_mono [OF v(2)])
          (use u in \<open>auto simp: kept_world_def same_files_def creation_error_def\<close>)
    qed (auto simp: creation_error_def)
  qed
  have quiet: "wp (rollback_quietly h) (\<lambda>_ _. True) (\<lambda>_ _. False) t" "wp (close_quietly h) (\<lambda>_ _. True) (\<lambda>_ _. False) t" for t
    using seen_db_error [of t]
    by (cases "seen_db t"; auto simp: rollback_quietly_def suppress_sqlite_def close_quietly_def close_connection_def wp_execute Let_def)+
  have closed: "wp (close_quietly h) (\<lambda>_. wp (throw e) ?Q ?E) ?E t" if "creation_error e" for e t
    by (rule wp_mono [OF quiet(2)]) (use that in auto)
  have undone: "wp (rollback_quietly h) (\<lambda>_. wp (close_quietly h) (\<lambda>_. wp (throw e) ?Q ?E) ?E) ?E t" if "creation_error e" for e t
    by (rule wp_mono [OF quiet(1)]) (use closed [OF that] in auto)
  have failed: "creation_error (Foreign ''project.database_init_failed'')" by (simp add: creation_error_def)
  show ?thesis
    unfolding create_database_def body_def [symmetric] wp_eseq wp_typed
  proof (rule wp_mono [OF opened])
    fix a and t :: project_world
    assume "pending t = None \<and> connections t = Suc (connections s) \<and> proot t = Root (d\<lparr>database_at := Some (Sqlite_File empty_db)\<rparr>)"
    then have "wp body ?Q ?bad t" using body by blast
    then show "wp (etry body (\<lambda>e. if e = sqlite_error
          then eseq (rollback_quietly h) (eseq (close_quietly h) (throw (Foreign ''project.database_init_failed'')))
          else eseq (close_quietly h) (throw e))) ?Q ?E t"
      unfolding wp_etry by (rule wp_mono) (use closed undone failed in auto)
  qed (use failed in auto)
qed

lemma make_directories_wp:
  assumes "proot s = Root d"
  shows "wp (make_directories h ns)
    (\<lambda>_ t. proot t = Root (d\<lparr>subdirectories := subdirectories d @ ns\<rparr>) \<and> pending t = pending s \<and> connections t = connections s)
    (\<lambda>e _. e = os_error) s"
  using assms
proof (induction ns arbitrary: s d)
  case (Cons n ns)
  have "proot (s\<lparr>asked := Suc (asked s), proot := Root (d\<lparr>subdirectories := subdirectories d @ [n]\<rparr>)\<rparr>) =
      Root (d\<lparr>subdirectories := subdirectories d @ [n]\<rparr>)" by simp
  note step = Cons.IH [OF this]
  show ?case
    using wp_mono [OF step] Cons.prems by (auto simp: update_files_def)
qed simp

lemma roll_back_wp:
  assumes "\<And>n. leaves_litter h n = None"
  shows "wp (roll_back_creation h e) Q (\<lambda>e' t. proot t = Absent \<and> e' = (if e = os_error then Foreign ''project.create_failed'' else e)) s"
  using assms by (simp add: roll_back_creation_def remove_tree_def)

lemma written_manifest_reads:
  "i < 2 ^ 128 \<Longrightarrow> read_manifest (Json_Text (manifest_value \<lparr>mf_format = codes MANIFEST_FORMAT, mf_schema_version = MANIFEST_SCHEMA_VERSION,
     mf_project_id = uuid_text i\<rparr>)) =
   Inr \<lparr>mf_format = codes MANIFEST_FORMAT, mf_schema_version = MANIFEST_SCHEMA_VERSION, mf_project_id = uuid_text i\<rparr>"
  by (simp add: read_manifest_def load_object_def manifest_value_def normalize_project_id_def normalize_uuid_text)

lemma written_row_reads: "i < 2 ^ 128 \<Longrightarrow> md_project_id m = uuid_text i \<Longrightarrow> metadata_of_row (stored_row_of m) = Inr m"
  by (simp add: metadata_of_row_def stored_row_of_def normalize_project_id_def normalize_uuid_text)

definition created :: "project_world \<Rightarrow> pystr \<Rightarrow> project_handle \<Rightarrow> project_world \<Rightarrow> bool" where
  "created s name p t \<longleftrightarrow> proot s = Absent \<and> py_strip name \<noteq> [] \<and> hd_open p \<and> connections t = Suc (connections s) \<and>
      proot t = Root \<lparr>subdirectories = PROJECT_DIRECTORY_NAMES, manifest_at = Some (Json_Text (manifest_value (hd_manifest p))),
        database_at = Some (Sqlite_File (created_db (hd_metadata p)))\<rparr> \<and>
      md_display_name (hd_metadata p) = name \<and> md_project_id (hd_metadata p) = mf_project_id (hd_manifest p) \<and>
      read_manifest (Json_Text (manifest_value (hd_manifest p))) = Inr (hd_manifest p) \<and>
      metadata_of_row (stored_row_of (hd_metadata p)) = Inr (hd_metadata p)"

lemma create_project_wp:
  assumes "pending s = None" "\<And>n. leaves_litter h n = None"
  shows "wp (create_project h name) (created s name) (\<lambda>e t. proot t = proot s \<and> creation_error e) s"
proof -
  let ?Q = "created s name"
  let ?E = "\<lambda>e t. proot t = proot s \<and> creation_error e"
  show ?thesis
  proof (cases "py_strip name = [] \<or> proot s \<noteq> Absent \<or> fails_mkdir h (asked s)")
    case True
    then show ?thesis by (auto simp: create_project_def creation_error_def)
  next
    case False
    define u and now and s1 :: project_world where "u = fresh_uuid h (Suc (asked s))" and "now = clock_now h (Suc (Suc (asked s)))"
      and "s1 = s\<lparr>proot := Root \<lparr>subdirectories = [], manifest_at = None, database_at = None\<rparr>, asked := Suc (Suc (Suc (asked s)))\<rparr>"
    define m where "m = \<lparr>mf_format = codes MANIFEST_FORMAT, mf_schema_version = MANIFEST_SCHEMA_VERSION, mf_project_id = uuid_text (unat u)\<rparr>"
    define md where "md = \<lparr>md_project_id = uuid_text (unat u), md_display_name = name, md_created_at = now, md_updated_at = now\<rparr>"
    have u: "unat u < 2 ^ 128" using unsigned_less [of u, where ?'a = nat] by simp
    have s1: "proot s1 = Root \<lparr>subdirectories = [], manifest_at = None, database_at = None\<rparr>" "pending s1 = None" "connections s1 = connections s"
      using assms(1) by (simp_all add: s1_def)
    have fields: "mf_project_id m = md_project_id md" "md_display_name md = name"
      "read_manifest (Json_Text (manifest_value m)) = Inr m" "metadata_of_row (stored_row_of md) = Inr md"
      using written_manifest_reads [OF u] written_row_reads [OF u, of md] by (simp_all add: m_def md_def)
    have roll: "wp (roll_back_creation h e) P ?E t" if "e = os_error \<or> creation_error e" for e t and P :: "unit \<Rightarrow> project_world \<Rightarrow> bool"
      by (rule wp_mono [OF roll_back_wp [OF assms(2)]]) (use that False in \<open>auto simp: creation_error_def\<close>)
    let ?built = "\<lambda>t. pending t = None \<and> connections t = Suc (connections s) \<and> proot t = Root \<lparr>subdirectories = PROJECT_DIRECTORY_NAMES,
        manifest_at = None, database_at = Some (Sqlite_File (created_db md))\<rparr>"
    have "wp (eseq (make_directories h PROJECT_DIRECTORY_NAMES) (create_database h md)) (\<lambda>_. ?built)
        (\<lambda>e _. e = os_error \<or> creation_error e) s1"
      unfolding wp_eseq
    proof (rule wp_mono [OF make_directories_wp [OF s1(1)]])
      fix a and t :: project_world
      let ?d = "\<lparr>subdirectories = PROJECT_DIRECTORY_NAMES, manifest_at = None, database_at = None\<rparr>"
      assume "proot t = Root (\<lparr>subdirectories = [], manifest_at = None, database_at = None\<rparr>\<lparr>subdirectories :=
          subdirectories \<lparr>subdirectories = [], manifest_at = None, database_at = None\<rparr> @ PROJECT_DIRECTORY_NAMES\<rparr>) \<and>
        pending t = pending s1 \<and> connections t = connections s1"
      then have t: "pending t = None" "proot t = Root ?d" "connections t = connections s" using s1 by simp_all
      have "database_at ?d = None" by simp
      from create_database_wp [OF t(1,2) this]
      show "wp (create_database h md) (\<lambda>_. ?built) (\<lambda>e _. e = os_error \<or> creation_error e) t"
        by (rule wp_mono) (use t in auto)
    qed simp
    then have built: "wp (etry (eseq (make_directories h PROJECT_DIRECTORY_NAMES) (create_database h md)) (roll_back_creation h))
        (\<lambda>_. ?built) ?E s1"
      unfolding wp_etry by (rule wp_mono) (use roll in blast)+
    have lost: "creation_error (Foreign ''project.manifest_write_failed'')" by (simp add: creation_error_def)
    have closed: "wp (close_quietly h) (\<lambda>_. wp (roll_back_creation h (Foreign ''project.manifest_write_failed'')) P ?E) ?E t"
      for t and P :: "unit \<Rightarrow> project_world \<Rightarrow> bool"
      by (rule wp_mono [OF close_quietly_wp]) (use roll lost in blast)+
    have written: "wp (etry (write_manifest h m) (\<lambda>e. eseq (close_quietly h) (roll_back_creation h e)))
        (\<lambda>_ v. connections v = Suc (connections s) \<and> proot v = Root \<lparr>subdirectories = PROJECT_DIRECTORY_NAMES,
          manifest_at = Some (Json_Text (manifest_value m)), database_at = Some (Sqlite_File (created_db md))\<rparr>) ?E t" if "?built t" for t
      using that closed by (auto simp: write_manifest_def update_files_def)
    have "wp (eseq (etry (eseq (make_directories h PROJECT_DIRECTORY_NAMES) (create_database h md)) (roll_back_creation h))
       (eseq (etry (write_manifest h m) (\<lambda>e. eseq (close_quietly h) (roll_back_creation h e)))
         (ret \<lparr>hd_manifest = m, hd_metadata = md, hd_open = True\<rparr>))) ?Q ?E s1"
      unfolding wp_eseq
    proof (rule wp_mono [OF built])
      fix a and t :: project_world
      assume "?built t"
      from written [OF this]
      show "wp (etry (write_manifest h m) (\<lambda>e. eseq (close_quietly h) (roll_back_creation h e)))
          (\<lambda>_. wp (ret \<lparr>hd_manifest = m, hd_metadata = md, hd_open = True\<rparr>) ?Q ?E) ?E t"
        by (rule wp_mono) (use False fields in \<open>auto simp: created_def\<close>)
    qed
    then show ?thesis
      using False by (simp add: create_project_def Let_def u_def now_def s1_def m_def md_def)
  qed
qed

section \<open>Creation\<close>

text \<open>
  A project is created whole or not at all. When the directory can be removed, a creation
  that fails leaves nothing at its path and raises an error of the project, or the encoding error
  of a name SQLite cannot store. One that succeeds leaves every directory, a manifest that reads
  back, and a database of the current version with every table and the row that reads back, all
  of one fresh identity; nothing is created over what is there, and nothing under a blank name.
\<close>

lemma creation_is_whole_or_nothing:
  assumes "pending s = None" "\<And>n. leaves_litter h n = None"
  shows "case create_project h name s of
    (Inr p, t) \<Rightarrow> proot s = Absent \<and> py_strip name \<noteq> [] \<and> hd_open p \<and> connections t = Suc (connections s) \<and>
      proot t = Root \<lparr>subdirectories = PROJECT_DIRECTORY_NAMES, manifest_at = Some (Json_Text (manifest_value (hd_manifest p))),
        database_at = Some (Sqlite_File (created_db (hd_metadata p)))\<rparr> \<and>
      metadata_ok (created_db (hd_metadata p)) \<and> schema_ok (created_db (hd_metadata p)) \<and>
      md_display_name (hd_metadata p) = name \<and> md_project_id (hd_metadata p) = mf_project_id (hd_manifest p) \<and>
      read_manifest (Json_Text (manifest_value (hd_manifest p))) = Inr (hd_manifest p) \<and>
      metadata_of_row (stored_row_of (hd_metadata p)) = Inr (hd_metadata p)
  | (Inl e, t) \<Rightarrow> proot t = proot s \<and> creation_error e"
proof -
  have "wp (create_project h name) (created s name) (\<lambda>e t. proot t = proot s \<and> creation_error e) s"
    by (rule create_project_wp [OF assms])
  then show ?thesis
    using created_db_ok by (cases "create_project h name s") (simp add: wp_def created_def split: sum.splits)
qed

text \<open>
  A project that was created opens again. When no call fails, opening what a creation left
  gives the same manifest and the same metadata, and leaves the files as they are.
\<close>

lemma created_project_opens:
  assumes "create_project h name s = (Inr p, t)" "pending s = None" "\<And>n. leaves_litter h n = None"
    and "proot u = proot t" "pending u = None"
    and "\<And>n. \<not> fails_sql h' n" "\<And>n. \<not> fails_connect h' n"
  shows "\<exists>v. open_project h' u = (Inr p, v) \<and> proot v = proot t"
proof -
  have "created s name p t"
    using create_project_wp [OF assms(2,3), of name] assms(1) by (simp add: wp_def)
  note c = this [unfolded created_def]
  have p: "\<lparr>hd_manifest = hd_manifest p, hd_metadata = hd_metadata p, hd_open = True\<rparr> = p" using c by simp
  have "wp (open_project h') (\<lambda>q v. q = p \<and> proot v = proot t) (\<lambda>_ _. False) u"
    using c assms(4-7)
    by (simp add: p open_project_def open_database_def connect_def update_files_def read_schema_version_def seen_db_def
        verify_metadata_columns_def verify_schema_tables_def read_metadata_def select_metadata_def columns_of_def guard_def
        created_db_def schema_defs)
  then show ?thesis by (cases "open_project h' u") (simp add: wp_def split: sum.splits)
qed

section \<open>A demonstration\<close>

definition legacy_db :: project_db where
  "legacy_db = \<lparr>user_version = 1, db_tables = [(METADATA_TABLE, [''id'', ''project_id'', ''display_name'', ''created_at'', ''updated_at''])],
     metadata_at_1 = Some \<lparr>row_project = uuid_text 5, row_name = codes ''rig'', row_created = Instant 10, row_updated = Instant 10\<rparr>\<rparr>"

definition legacy_files :: project_files where
  "legacy_files = \<lparr>subdirectories = [], manifest_at = Some (Json_Text (manifest_value
     \<lparr>mf_format = codes MANIFEST_FORMAT, mf_schema_version = 1, mf_project_id = uuid_text 5\<rparr>)), database_at = Some (Sqlite_File legacy_db)\<rparr>"

definition sound_host :: project_host where
  "sound_host = \<lparr>fails_sql = (\<lambda>_. False), fails_connect = (\<lambda>_. False), fails_close = (\<lambda>_. False), fails_mkdir = (\<lambda>_. False),
     fails_write = (\<lambda>_. False), leaves_litter = (\<lambda>_. None), clock_now = (\<lambda>n. int n), fresh_uuid = (\<lambda>n. of_nat n)\<rparr>"

definition legacy_world :: project_world where
  "legacy_world = \<lparr>proot = Root legacy_files, pending = None, connections = 0, asked = 0\<rparr>"

lemma legacy_opens: "case open_project sound_host legacy_world of (Inr p, _) \<Rightarrow> mf_project_id (hd_manifest p) = uuid_text 5 | (Inl _, _) \<Rightarrow> False"
  by code_simp

section \<open>Properties\<close>



end
