(* ===== verification/Spec2Isabelle.thy ===== *)
theory Spec2Isabelle
  imports Scenario Transport Pipeline Dbc_Decode Agent_Validation Ci_Gate Query_Paging Recorder_Verdicts Project
begin

text \<open>
  A model of the CAN-X runtime (\<open>runtime/canx\<close>), the Python service that captures, stores,
  queries and decodes CAN traffic and that decides which operations may reach a vehicle, and of
  the repository's tooling that plans the work of agents and gates changes.

  What is modelled. Frames travel from an adapter through the normaliser and the capture
  pipeline to bounded subscribers. They are batched; encoded with MessagePack and fanned out to
  clients by the broker; recorded in a MessagePack file or in a data session of a project,
  whose segments are Parquet files registered in the project's database; read back by trace
  queries over DuckDB; and decoded against a DBC database. Apart from this data path stands
  the safety domain: an operation reaches the vehicle only with a verdict of
  \<open>SafetyKernel.evaluate\<close>. The kernel owns an arm controller, an emergency stop, an approval
  store, standing grants and a policy; it reads a clock and random bits from the host, calls
  the cancellers other subsystems register, and writes every decision and every change of
  authority to an audit sink.

  Theories of the safety domain (\<open>runtime/canx/safety\<close>), in the order of their imports:
  \<^item> \<open>Prelude\<close>: floats that are compared, exceptions as sums, methods as state
    transformers, the drop-oldest queue and runs of calls as locales.
  \<^item> \<open>Safety_Errors\<close> (\<open>errors.py\<close>), \<open>Identifiers\<close> (\<open>identifiers.py\<close>), \<open>Risk\<close>
    (\<open>risk.py\<close>), \<open>Caller\<close> (\<open>caller.py\<close>), \<open>Scope\<close> (\<open>scope.py\<close>), \<open>Permission\<close>
    (\<open>permission.py\<close>), \<open>Arm\<close> (\<open>arm.py\<close>), \<open>Approval\<close> (\<open>approval.py\<close>).
  \<^item> \<open>Digest\<close>: UTF-8, SHA-256 and \<open>json.dumps\<close> as far as digests and renderings use them.
  \<^item> \<open>Decision\<close> (\<open>operation.py\<close>, \<open>decision.py\<close> and the \<open>describe\<close> projections), \<open>Policy\<close>
    (\<open>policy.py\<close>), \<open>Safety_Audit\<close> (\<open>audit.py\<close>), \<open>Emergency\<close> (\<open>emergency.py\<close>), \<open>Kernel\<close>
    (\<open>kernel.py\<close>).
  \<^item> \<open>Authority\<close>: the abstract machine of authority, the effect of every kernel method,
    the refinement and the kernel's invariant. \<open>Trail\<close>: what the sink accepts and holds.
    \<open>Ledger\<close>: single-use approvals. \<open>Responsive\<close>: what a host that answers gets.
    \<open>Scenario\<close>: a concrete session the properties are applied to.

  Theories of the data path:
  \<^item> \<open>Doubles\<close>: IEEE double rounding of sums, differences, products and integers on the
    rationals that finite floats denote. \<open>Frames\<close>: \<open>domain/frame.py\<close>, \<open>domain/batch.py\<close>.
  \<^item> \<open>Capture\<close>: \<open>capture/normalizer.py\<close>, \<open>capture/subscriber.py\<close>. \<open>Pipeline\<close>:
    \<open>capture/pipeline.py\<close>, where others attach, detach and stop while a frame is delivered.
    \<open>Transport\<close>: \<open>transport/broker.py\<close>, \<open>transport/msgpack_codec.py\<close>.
  \<^item> \<open>Dbc_Model\<close>: \<open>dbc/model.py\<close>. \<open>Dbc_Signal\<close>: the compiled extraction of a signal and the
    DBC bit numbering it implements. \<open>Dbc_Decode\<close>: the rest of \<open>dbc/decode.py\<close>, with
    \<open>dbc/decode_model.py\<close>, \<open>dbc/decode_set.py\<close> and the decode failures of \<open>dbc/errors.py\<close>.
  \<^item> \<open>Project_Storage\<close> (\<open>project/model.py\<close>, \<open>manifest.py\<close>, \<open>storage.py\<close>): the manifest, the
    schema and its migrations over a database that changes in transactions. \<open>Project\<close>
    (\<open>project/service.py\<close>): creating, opening and closing a project.
  \<^item> \<open>Data_Model\<close> (\<open>data/model.py\<close>, \<open>schema.py\<close>, the gates of \<open>parquet.py\<close>): sessions,
    segments and the Parquet layout. \<open>Data_Store\<close> (\<open>data/repository.py\<close>, the publication of
    files of \<open>parquet.py\<close>): rows and files. \<open>Data_Session\<close> (\<open>data/session.py\<close>): the writer and the service.
    \<open>Data_Durability\<close>: their invariant along every run.
  \<^item> \<open>Query_Model\<close> (\<open>query/model.py\<close>), \<open>Query\<close> (\<open>query/planning.py\<close>, \<open>engine.py\<close>,
    \<open>service.py\<close>). \<open>Query_Sql\<close>: what DuckDB documents of the SQL that is used, read from the
    text of a statement. \<open>Query_Results\<close>, \<open>Query_Paging\<close>: what pages and aggregates return,
    and a reference answerer for which the assumption about DuckDB holds.
  \<^item> \<open>Msgpack_Recorder\<close> (\<open>recorder/msgpack_recorder.py\<close>). \<open>Recorder\<close>
    (\<open>recorder/project_recorder.py\<close> and how \<open>runtime/service.py\<close> drives it): the event loop,
    the threads of the appends, the finalising worker and the settling thread as interleaved
    steps. \<open>Recorder_Invariant\<close>, \<open>Recorder_Verdicts\<close>: what holds however they interleave.

  Theories of the repository's tooling (\<open>tools/agent\<close>, \<open>tools/ci\<close>):
  \<^item> \<open>Agent_Paths\<close> (\<open>paths.py\<close>): normalisation, globs and their overlap. \<open>Agent_Tasks\<close>: the
    transition table of \<open>lifecycle.py\<close>, the records of \<open>contracts.py\<close> and \<open>config.py\<close>, the
    conflicts of \<open>conflicts.py\<close>. \<open>Agent_Contracts\<close>: parsing and rendering of contracts,
    handoffs and configurations. \<open>Agent_Validation\<close> (\<open>validation.py\<close>, \<open>evidence.py\<close>): the
    validators and the integration verdict.
  \<^item> \<open>Agent_Graph\<close> (\<open>graph.py\<close>): the validation of a task graph and the loop that orders it,
    against the specification of a canonical order. \<open>Agent_Plan\<close> (\<open>orchestration.py\<close>): the
    plan, and the runs of a main agent that follows it.
  \<^item> \<open>Ci_Gate\<close> (\<open>classify_changes.py\<close>, \<open>evaluate_gate.py\<close>): from the paths of a change to
    the exit code of the gate.

  Conventions. A frozen dataclass is a record and its \<open>__post_init__\<close> a function that
  returns the instance or the exception; predicates such as \<open>valid_scope\<close> and \<open>valid_frame\<close>
  characterise the instances that exist. Where arguments may have any type they are values
  of \<open>pyval\<close>. A method is a function of the state that returns the result or the exception
  with the state it leaves, so an exception does not undo what was done before it. Every
  method of the kernel holds its lock from its first to its last line (the lock is
  re-entrant), so a concurrent run is a sequence of calls: \<open>kernel_run\<close>. The event loop of
  the data path runs one task between two awaits, so its runs are sequences of such steps,
  and an operation that would block is an outcome. Loops of the source run over finite
  collections and are structural recursions, except the ordering loop \<open>kahn\<close>, the glob
  matcher \<open>rmatch\<close> and the writer's \<open>flush_full_segments\<close>, which come with a measure; only the
  client \<open>follow_pages\<close>, which is not code of the repository, has fuel, and one unit more
  than there are matches is shown to be enough.

  Parameters. The clock, the bits of \<open>uuid4\<close>, a custom audit sink, the cancellers, Python's
  rendering of floats, \<open>msgpack\<close>, PyArrow's tables, DuckDB and git are functions the
  definitions take; a reading or a call may raise, and records such as \<open>data_host\<close> and
  \<open>project_host\<close> say which calls of SQLite and of the file system do. A canceller or a sink
  that calls back into the kernel is outside the model, and so is \<open>BaseException\<close>. Texts of
  exceptions are left out; texts of verdicts, events and SQL statements are kept.

  What is shown. Safety: the verdict equals an order-free specification
  (\<open>decide_allows_iff_authorised\<close>) and is backed and recorded; the kernel refines the authority
  machine (\<open>kernel_refines_authority\<close>), whose invariant gives the safety of the stop in every
  run; the stop cannot fail, release is reserved and rolled back, approvals are spent once,
  machines gain nothing and no authority is raised off the record; the trail is well formed
  and bounded, and evaluation returns on a host that answers. Data path: the frame
  constructor, the batches of a stream, the accounts of a subscriber and of the broker, the
  timeline, the settlement of a fan-out, the codec's round trip and validation; the extraction
  of a signal against the bit numbering, the decoder against the meaning of a frame and the
  outcomes of batches and work sets. Storage: an upgrade of a project is whole or not at all;
  whatever fails, the segments read back as the frames the session counts
  (\<open>committed_frames_read_back\<close>); pages, cursor and aggregates are those of the matching
  frames; a recorder's verdict is the row's, a completed recording is whole, a finalisation
  settles, a MessagePack recording reads back. Tooling: no shared path is classified away,
  graphs are decided and ordered canonically, a planned run never races conflicting tasks, a
  ready handoff is proved by the repository's evidence, contracts round-trip, and a green gate
  ran every needed job. Where the code differs from its documentation or loses data, a theorem
  states what it does: \<open>release_outcomes\<close>, \<open>batch_roundtrip\<close>, \<open>decoding_drops_nothing\<close>,
  \<open>a_registration_revives_a_failed_session\<close>, \<open>recording_reads_back\<close>,
  \<open>abandoned_append_is_left_out\<close>, \<open>untyped_flush_error_completes\<close>.

  Not modelled: the parsing of DBC files by cantools and the import of their assets; of the
  runtime service what does not concern its recorder, and the metrics; the device adapters;
  the tools that summarise traces for an agent; the HTTP and WebSocket layer, command lines,
  git subprocesses and benchmarks, which are plumbing over third-party packages.
\<close>


section \<open>Verdicts of the kernel\<close>

text \<open>
  C1: a verdict that allows an operation is backed. When \<open>SafetyKernel.evaluate\<close> returns
  ALLOW, the clock was read, the operation was authorised (stop, arm scope, grants,
  approval) in the state the kernel held at that reading, and the audit sink accepted a
  well-formed event that names the operation and the decision.
\<close>

theorem evaluate_allow_is_authorised_and_recorded:
  assumes "kernel_evaluate env r k = (Inr v, k')" and "allowed v"
  shows "(\<exists>t sc. env_clock env (ticks k) = Inr t \<and> sc \<in> {None, arm_scope k} \<and>
      authorised (kernel_policy k) r (evaluation_context k t sc) (approvals k)) \<and>
    (\<exists>e. accepted env (audit k) e (audit k') \<and> well_formed_event e \<and>
      ev_operation_id e = operation_id r \<and> ev_caller_id e = caller_id (request_caller r) \<and>
      ev_decision e = ''allow'' \<and> ev_approval_id e = request_approval_id r)"
  using assms(1)
proof (cases rule: kernel_evaluate_cases)
  case (decided t sc k1 v' d k2 rr)
  then have rec: "record_decision env r v k2 = (Inr (), k')" by (auto split: sum.splits)
  have v': "v' = v" using decided(9) by (auto split: sum.splits)
  with decided(3) have "fst (decide (kernel_policy k) r (evaluation_context k t sc) (approvals k)) = v"
    by simp
  with assms(2) have auth: "authorised (kernel_policy k) r (evaluation_context k t sc) (approvals k)"
    using decide_allows by metis
  have sc: "sc \<in> {None, arm_scope k}"
    using decided(2) active_scope_Some [of "env_clock env" "k\<lparr>ticks := Suc (ticks k)\<rparr>" _ k1]
    by (cases sc) auto
  from record_decision_Inr [OF rec] assms(2) decided(1,7) auth sc show ?thesis
    by (auto simp: allowed_def)
qed simp

theorem evaluate_allow_witness:
  "\<exists>v k'. kernel_evaluate host actuate armed_session = (Inr v, k') \<and> allowed v \<and>
     (\<exists>e. accepted host (audit armed_session) e (audit k') \<and> ev_decision e = ''allow'')"
proof -
  obtain v k' where ev: "kernel_evaluate host actuate armed_session = (Inr v, k')" "allowed v"
    using actuate_allowed by blast
  with evaluate_allow_is_authorised_and_recorded [OF ev] show ?thesis by blast
qed

text \<open>
  C2: the verdict is exactly the specification. \<open>decide\<close> allows an operation if and only if
  it is authorised, whatever the policy, the context and the store; in particular the order
  in which the chain asks for the authorities does not change who is allowed.
\<close>

theorem decide_allows_iff_authorised:
  "allowed (fst (decide pol r ctx d)) = authorised pol r ctx d"
  by (rule decide_allows)

text \<open>
  C3: the kernel refines the abstract authority machine. Every call on a kernel state that
  can be reached, on any host, with any outcome, moves the arm state, the scope, the
  approvals and the stop along one step of the machine, taken by the caller of that call.
\<close>

theorem kernel_refines_authority:
  assumes "kernel_ok k"
  shows "auth_step (call_caller c) (authority_of k) (authority_of (kernel_step env c k))"
  using assms by (rule kernel_step_auth)

theorem kernel_refines_authority_witness:
  "auth_step (Some agent) (authority_of armed_session)
     (authority_of (kernel_step host (Evaluate actuate) armed_session))"
  using kernel_refines_authority [OF armed_session_simps(1), of "Evaluate actuate" host]
  by (simp add: actuate_def)

text \<open>
  C4: the stop holds in every run. Whatever calls are made on a new kernel, on any host,
  a state in which the emergency stop is engaged is disarmed, holds no scope and no
  approval; and a state holds a scope exactly when it is not disarmed.
\<close>

theorem stopped_runtime_is_powerless:
  "let k = kernel_run env cs (new_kernel trail perms pol) in
    (arm_scope k = None \<longleftrightarrow> arm_state k = DISARMED) \<and>
    (if engaged (stop_state k) then arm_state k = DISARMED \<and> approvals k = []
     else stop_state k = released_state)"
  using kernel_run_ok [OF new_kernel_ok, of env cs trail perms pol]
  by (auto simp: Let_def kernel_ok_def arm_ok_def)

text \<open>
  C5: engaging the stop cannot fail to stop. From any reachable state, with any clock, any
  random source, any sink, any cancellers and any reason text, the stop is engaged
  afterwards, the runtime is disarmed and holds no approval, the only exception the caller
  can see is the audit fault, and no vehicle operation is authorised any more.
\<close>

theorem engage_always_stops:
  assumes "kernel_ok k" and "kernel_engage env c reason k = (res, k')"
  shows "engaged (stop_state k') \<and> arm_state k' = DISARMED \<and> arm_scope k' = None \<and>
    approvals k' = [] \<and>
    (case res of Inl e \<Rightarrow> is_audit_error e | Inr st \<Rightarrow> st = stop_state k') \<and>
    (\<forall>cls r t sc. transmits cls \<longrightarrow>
       \<not> authorised (kernel_policy k') (r\<lparr>request_class := operation_class_value cls\<rparr>)
         (evaluation_context k' t sc) (approvals k'))"
proof -
  note eff = kernel_engage_effect [OF assms]
  from eff(1-4,6) stopped_transmits_nothing [OF _ eff(1)] show ?thesis by (auto split: sum.splits)
qed

theorem engage_always_stops_witness:
  "\<exists>res k'. kernel_engage failing_host agent [0xD800] armed_session = (res, k') \<and>
     engaged (stop_state k') \<and> arm_state k' = DISARMED \<and> approvals k' = []"
proof -
  obtain res k' where call: "kernel_engage failing_host agent [0xD800] armed_session = (res, k')"
    by fastforce
  with engage_always_stops [OF armed_session_simps(1) call] show ?thesis by blast
qed

text \<open>
  C6: releasing the stop is reserved and leaves nothing behind. Only a human or the system
  can release; a release withdraws the scope and every approval before anything else; it
  succeeds exactly when the sink accepts its event, and when it does not, an engaged stop is
  engaged again with the state it had.
\<close>

theorem release_outcomes:
  assumes "kernel_release env c k = (res, k')"
  shows "(if kind c \<notin> AUTHORITY_BEARING_KINDS then res = Inl SafetyCallerError \<and> k' = k
     else arm_state k' = DISARMED \<and> arm_scope k' = None \<and> approvals k' = [] \<and>
       (case res of
          Inr st \<Rightarrow> st = released_state \<and> stop_state k' = released_state \<and>
            (\<exists>e. accepted env (audit k) e (audit k') \<and> names e c ''emergency_stop.released'' k')
        | Inl e \<Rightarrow> if engaged (stop_state k) then is_audit_error e \<and> stop_state k' = stop_state k
            else (\<exists>a b. e = SafetyRollbackError ''emergency_stop.released'' a b) \<and>
              stop_state k' = released_state))"
  using assms
proof (cases rule: kernel_release_cases)
  case released
  with assms kernel_release_recorded [of env c k released_state k'] show ?thesis
    by (simp add: kframe_def bearing_def)
qed (simp_all add: kframe_def bearing_def)

theorem release_outcomes_witness:
  "kernel_release host agent armed_session = (Inl SafetyCallerError, armed_session)"
proof -
  obtain res k' where call: "kernel_release host agent armed_session = (res, k')" by fastforce
  with release_outcomes [OF call] show ?thesis
    by (simp add: agent_def AUTHORITY_BEARING_KINDS_def)
qed

text \<open>
  C7: an approval that a policy wants spent is spent once. Along any sequence of calls on
  any reachable kernel, as long as nobody grants an approval under the same identifier
  again, at most one evaluation that names it allows an operation of a class whose
  requirement is single-use.
\<close>

theorem single_use_approval_authorises_once:
  assumes "kernel_ok k" and "\<not> list_ex (kernel_renews i) cs"
  shows "count_spends (kernel_step env) (kernel_spends env i) cs k \<le> 1"
  using assms by (rule kernel_ledger.spends_at_most_once)

theorem single_use_approval_authorises_once_witness:
  "kernel_spends host ''approval-1'' (Evaluate actuate) armed_session \<and>
   count_spends (kernel_step host) (kernel_spends host ''approval-1'')
     [Evaluate actuate, Evaluate actuate] armed_session \<le> 1"
proof
  show "count_spends (kernel_step host) (kernel_spends host ''approval-1'')
     [Evaluate actuate, Evaluate actuate] armed_session \<le> 1"
    by (rule single_use_approval_authorises_once) simp_all
  have "request_approval_id actuate = Some ''approval-1''" by (simp add: actuate_def)
  moreover have "single_use_demanded (kernel_policy armed_session) actuate"
    using actuate_policy by (simp add: single_use_demanded_def approval_requirement_def)
  moreover have "authorises host actuate armed_session"
    using actuate_allowed by (auto simp: authorises_def)
  ultimately show "kernel_spends host ''approval-1'' (Evaluate actuate) armed_session" by simp
qed

text \<open>
  C8: a machine never raises authority. A call by an agent, a script or an automation leaves
  the arm state and the scope as they are or disarms, does not release the stop, and every
  approval that is live afterwards was live before.
\<close>

theorem machine_caller_never_raises_authority:
  assumes "kernel_ok k" and "call_caller c = Some m" and "kind m \<in> {AGENT, SCRIPT, AUTOMATION}"
  shows "let k' = kernel_step env c k in
    (arm_state k' = arm_state k \<and> arm_scope k' = arm_scope k \<or>
     arm_state k' = DISARMED \<and> arm_scope k' = None) \<and>
    (engaged (stop_state k) \<longrightarrow> engaged (stop_state k')) \<and>
    (\<forall>i x. map_of (approvals k') i = Some \<lparr>stored = x, consumed = False\<rparr> \<longrightarrow>
       map_of (approvals k) i = Some \<lparr>stored = x, consumed = False\<rparr>)"
proof -
  have "\<not> bearing (call_caller c)"
    using assms(2,3) by (auto simp: bearing_def AUTHORITY_BEARING_KINDS_def)
  from unauthorised_step [OF kernel_step_auth [OF assms(1)] this, of env]
  show ?thesis by (simp add: Let_def authority_of_def)
qed

theorem machine_caller_never_raises_authority_witness:
  "arm_state (kernel_step host (Evaluate actuate) armed_session) \<in> {ARMED, DISARMED} \<and>
   kind agent \<in> {AGENT, SCRIPT, AUTOMATION}"
  using machine_caller_never_raises_authority
    [OF armed_session_simps(1), of "Evaluate actuate" agent host]
  by (auto simp: Let_def actuate_def agent_def)

text \<open>
  C9: authority is never raised unrecorded. If a call leaves the runtime more powerful
  (arming, armed, released, or with an approval live that was not), its caller is a human
  or the system, and the sink accepted an event that names this caller, this action and the
  arm state and stop as the call leaves them.
\<close>

theorem authority_is_raised_only_on_the_record:
  assumes "kernel_ok k" and "raises_authority k (kernel_step env c k)"
  shows "\<exists>m e. call_caller c = Some m \<and> kind m \<in> {HUMAN_UI, SYSTEM} \<and>
     accepted env (audit k) e (audit (kernel_step env c k)) \<and>
     names e m (call_action c) (kernel_step env c k)"
  using raise_recorded [OF assms]
  by (auto simp: recorded_raise_def bearing_def AUTHORITY_BEARING_KINDS_def)

theorem authority_is_raised_only_on_the_record_witness:
  "raises_authority fresh (kernel_step host (Arm bench_scope operator) fresh) \<and>
   (\<exists>e. names e operator ''arm.requested'' (kernel_step host (Arm bench_scope operator) fresh))"
proof -
  have raise: "raises_authority fresh (kernel_step host (Arm bench_scope operator) fresh)"
    using fresh_armed by (auto simp: kernel_step_def raises_authority_def)
  with authority_is_raised_only_on_the_record [OF fresh_ok raise] show ?thesis by auto
qed

text \<open>
  C10: the retained trail holds nothing malformed. After any run of a kernel with an
  in-memory sink the trail holds at most the sink's capacity of events, and every one has
  finite time, identifiers and digests of the audit vocabulary in every field that a
  caller, a canceller or a project file can influence.
\<close>

theorem retained_events_are_well_formed:
  assumes "new_memory_sink capacity = Inr s"
  shows "let events = kernel_audit_events (kernel_run env cs (new_kernel (InMemory s) perms pol)) in
    list_all well_formed_event events \<and> length events \<le> nat capacity"
proof -
  have s: "sink_ok s" "sink_capacity s = nat capacity" "sink_events s = []"
    using assms by (auto simp: new_memory_sink_def sink_ok_def split: if_splits)
  then have "trail_inv (nat capacity) (new_kernel (InMemory s) perms pol)"
    by (simp add: trail_inv_def trail_ok_def new_kernel_def attach_disarm_def exec_simps)
  then have "trail_inv (nat capacity) (kernel_run env cs (new_kernel (InMemory s) perms pol))"
    unfolding kernel_run_def by (rule kernel_trail.run_inv) simp_all
  then show ?thesis
    by (auto simp: trail_inv_def trail_ok_def kernel_audit_events_def sink_ok_def Let_def
        split: audit_trail.splits)
qed

theorem retained_events_are_well_formed_witness:
  "list_all well_formed_event (kernel_audit_events (kernel_run host session_calls
     (new_kernel (InMemory \<lparr>sink_capacity = 2, sink_events = [], sink_dropped = 0\<rparr>) [] (\<lambda>_. None))))"
  using retained_events_are_well_formed [of 2 _ host session_calls "[]" "\<lambda>_. None"]
  by (simp add: new_memory_sink_def Let_def)

text \<open>
  C11: an evaluation returns. On a host whose clock reads finite times and whose random
  source works, with the in-memory trail, every valid request gets a verdict from any
  kernel state: no exception escapes.
\<close>

theorem evaluate_returns_a_verdict:
  assumes "responsive env" and "audit k = InMemory s" and "valid_request r"
    and "identifier_ok (request_class r)"
  shows "\<exists>v k'. kernel_evaluate env r k = (Inr v, k') \<and> allowed v \<noteq> denied v"
  using evaluate_returns [OF assms] denied_not_allowed by blast

theorem evaluate_returns_a_verdict_witness:
  "\<exists>v k'. kernel_evaluate host actuate fresh = (Inr v, k') \<and> allowed v \<noteq> denied v"
  by (rule evaluate_returns_a_verdict) simp_all

text \<open>
  C12: the default policy keeps actuation, ECU mutation and critical operations for a human.
  Whenever one is allowed, the request names an unspent single-use approval that a human
  operator issued for exactly this target and this effect, which has not expired, and the
  runtime is armed with a scope that covers the target and has not expired.
\<close>

theorem default_policy_needs_a_human_approval:
  assumes "allowed (fst (decide DEFAULT_APPROVAL_REQUIREMENTS r ctx d))"
    and "operation_class_of (request_class r) = Some cls"
    and "cls \<in> {operation_class.ACTUATION, operation_class.ECU_MUTATION, operation_class.CRITICAL_OPERATION}"
  shows "\<exists>i a sc. request_approval_id r = Some i \<and> map_of d i = Some \<lparr>stored = a, consumed = False\<rparr> \<and>
    single_use a \<and> issuer a = HUMAN_OPERATOR \<and> approval_target a = request_target r \<and>
    Inr (approval_capability a) = map_sum id approval_capability_for (classify_operation (request_class r)) \<and>
    pf_less (now ctx) (approval_expires_at a) \<and> \<not> emergency_stop_engaged ctx \<and>
    context_arm_state ctx = ARMED \<and> context_arm_scope ctx = Some sc \<and>
    pf_less (now ctx) (scope_expires_at sc) \<and> target_covers (scope_target sc) (request_target r)"
proof -
  from assms(1) have auth: "authorised DEFAULT_APPROVAL_REQUIREMENTS r ctx d" by (simp add: decide_allows)
  from assms(2,3) obtain p where p: "operation_policy (request_class r) = Inr p"
    "is_dangerous (effect_risk p)" "CAN_TX \<in> required_capabilities p"
    "approval_requirement DEFAULT_APPROVAL_REQUIREMENTS (effect_risk p) = STRICTEST"
    by (auto simp: operation_policy_def policy_row_def operation_policy_post_init_def
        approval_requirement_def STRICTEST_def)
  from auth p obtain a where a: "approval_authorises STRICTEST p r ctx d a"
    and arm: "arm_authorises p r ctx"
    by (auto simp: authorised_def STRICTEST_def)
  from arm p(3) obtain sc where sc: "context_arm_scope ctx = Some sc"
    "scope_covers sc CAN_TX (request_target r) (now ctx)"
    by (auto simp: arm_authorises_def DANGEROUS_CAPABILITIES_def)
  with a arm p(1) show ?thesis
    by (auto simp: approval_authorises_def STRICTEST_def arm_authorises_def scope_covers_def
        scope_is_expired_def has_lapsed_def approval_is_expired_def classify_operation_def
        approval_capability_for_def effect_capability_def split: if_splits)
qed
theorem default_policy_needs_a_human_approval_witness:
  "allowed (fst (decide DEFAULT_APPROVAL_REQUIREMENTS actuate
      (evaluation_context armed_session (Fin 5) (Some bench_scope)) (approvals armed_session))) \<and>
   (\<exists>i a. request_approval_id actuate = Some i \<and> map_of (approvals armed_session) i
      = Some \<lparr>stored = a, consumed = False\<rparr> \<and> issuer a = HUMAN_OPERATOR)"
proof -
  have cls: "operation_class_of (request_class actuate) = Some operation_class.ACTUATION"
    by (simp add: actuate_def operation_class_of_def all_operation_classes_def)
  have "allowed (fst (decide DEFAULT_APPROVAL_REQUIREMENTS actuate
      (evaluation_context armed_session (Fin 5) (Some bench_scope)) (approvals armed_session)))"
    using actuate_authorised decide_allows by blast
  with default_policy_needs_a_human_approval [OF this cls] show ?thesis by blast
qed

text \<open>
  Disarming is unconditional. Any caller disarms in any state, on any host; a reason
  that cannot be encoded disarms too, but then the encoding error itself escapes and no
  event is recorded.
\<close>

theorem disarm_is_unconditional:
  "case kernel_disarm env c reason k of (res, k') \<Rightarrow>
     arm_state k' = DISARMED \<and> arm_scope k' = None \<and> approvals k' = approvals k \<and>
     stop_state k' = stop_state k \<and>
     (if list_ex is_surrogate reason
      then res = Inl (Foreign ''UnicodeEncodeError'') \<and> audit k' = audit k
      else res = Inr DISARMED \<or> (\<exists>e. res = Inl e \<and> is_audit_error e))"
proof -
  obtain res k' where call: "kernel_disarm env c reason k = (res, k')" by fastforce
  from kernel_disarm_cases [OF call] have frame: "arm_state k' = DISARMED" "arm_scope k' = None"
    "approvals k' = approvals k" "stop_state k' = stop_state k" by (simp_all add: kframe_def)
  show ?thesis
  proof (cases "digest_reason reason")
    case (Inl e)
    then have "list_ex is_surrogate reason" "e = Foreign ''UnicodeEncodeError''"
      using digest_reason_Inr_iff [of reason] digest_reason_Inl [OF Inl]
      by (auto simp: list_ex_iff list_all_iff)
    with call Inl frame show ?thesis by (auto simp: kernel_disarm_def exec_simps)
  next
    case (Inr d)
    then have "\<not> list_ex is_surrogate reason"
      using digest_reason_Inr_iff [of reason] by (auto simp: list_ex_iff list_all_iff)
    with call Inr frame show ?thesis
      by (auto simp: kernel_disarm_def exec_simps split: prod.splits sum.splits dest: record_control_Inl)
  qed
qed

text \<open>
  The store itself is outside the kernel's gate. A grant on the store that the
  \<open>approvals\<close> property hands out succeeds while the emergency stop is engaged, takes effect
  in the kernel, and leaves the audit trail as it was.
\<close>

theorem store_grant_is_outside_the_gate:
  assumes "issuer_for c = Inr (issuer a)"
  shows "\<exists>k'. kernel_store_grant a c k = (Inr (), k') \<and>
    map_of (approvals k') (approval_id a) = Some \<lparr>stored = a, consumed = False\<rparr> \<and>
    engaged (stop_state k') = engaged (stop_state k) \<and> audit k' = audit k"
proof -
  have "store_grant a c (approvals k)
      = (Inr (), AList.update (approval_id a) \<lparr>stored = a, consumed = False\<rparr> (approvals k))"
    using assms by (simp add: store_grant_Inr)
  then show ?thesis by (simp add: kernel_store_grant_def exec_simps update_conv')
qed

theorem store_grant_is_outside_the_gate_witness:
  "let k = snd (kernel_engage host operator [] armed_session); k' = snd (kernel_store_grant bench_approval operator k)
   in engaged (stop_state k') \<and> approvals k' \<noteq> []"
proof -
  obtain res k where eng: "kernel_engage host operator [] armed_session = (res, k)" by fastforce
  then have "engaged (stop_state k)" by (rule kernel_engage_effect(1) [OF armed_session_simps(1)])
  moreover have "issuer_for operator = Inr (issuer bench_approval)" by (simp add: bench_approval_def)
  ultimately show ?thesis using store_grant_is_outside_the_gate [of operator bench_approval k] eng
    by (auto simp: Let_def)
qed

text \<open>
  A clock that raises escapes the audit guard. When the clock raises, an evaluation
  ends in that exception, not in an audit fault, and neither an approval nor the trail
  changes.
\<close>

theorem evaluate_with_a_raising_clock:
  assumes "env_clock env (ticks k) = Inl e"
  shows "kernel_evaluate env r k = (Inl e, k\<lparr>ticks := Suc (ticks k)\<rparr>)"
  using assms by (simp add: kernel_evaluate_def exec_simps frame_simps)

theorem evaluate_with_a_raising_clock_witness:
  "fst (kernel_evaluate (host\<lparr>env_clock := broken_clock\<rparr>) actuate armed_session)
   = Inl (Foreign ''RuntimeError'')"
  using evaluate_with_a_raising_clock [of "host\<lparr>env_clock := broken_clock\<rparr>" armed_session
      "Foreign ''RuntimeError''" actuate]
  by (simp add: broken_clock_def)

text \<open>
  No authority outlives its expiry. Once the clock passes the expiry of the arm scope,
  or the expiry of every grant of the transmission capability, or reads NaN while a scope is
  held, no operation that transmits is authorised.
\<close>

theorem nothing_outlives_its_expiry:
  assumes "transmits cls" and "operation_class_of (request_class r) = Some cls"
    and "(case context_arm_scope ctx of None \<Rightarrow> True | Some sc \<Rightarrow> \<not> pf_less (now ctx) (scope_expires_at sc)) \<or>
      list_all (\<lambda>g. case grant_expires_at g of None \<Rightarrow> False | Some e \<Rightarrow> \<not> pf_less (now ctx) e) (permissions ctx)"
  shows "denied (fst (decide pol r ctx d)) \<and> snd (decide pol r ctx d) = d"
proof -
  from assms(1,2) obtain p where p: "operation_policy (request_class r) = Inr p"
    "CAN_TX \<in> required_capabilities p"
    by (auto simp: transmits_policy operation_policy_def)
  have "\<not> authorised pol r ctx d"
    using assms(3)
  proof
    assume scope: "case context_arm_scope ctx of None \<Rightarrow> True
      | Some sc \<Rightarrow> \<not> pf_less (now ctx) (scope_expires_at sc)"
    show ?thesis
    proof (cases "context_arm_scope ctx")
      case (Some sc)
      with scope have "\<not> scope_covers sc CAN_TX (request_target r) (now ctx)"
        using arm_scope_authority.lapsed_never_covers [of sc "scope_expires_at sc" "now ctx"] by simp
      with p Some show ?thesis
        by (auto simp: authorised_def arm_authorises_def DANGEROUS_CAPABILITIES_def)
    qed (use p in \<open>simp add: authorised_def arm_authorises_def\<close>)
  next
    assume "list_all (\<lambda>g. case grant_expires_at g of None \<Rightarrow> False
      | Some e \<Rightarrow> \<not> pf_less (now ctx) e) (permissions ctx)"
    then have "\<not> grant_covers g CAN_TX (request_target r) (now ctx)" if "g \<in> set (permissions ctx)" for g
      using that grant_authority.lapsed_never_covers [of g _ "now ctx"]
      by (auto simp: list_all_iff split: option.splits)
    then have "\<not> permissions_cover (permissions ctx) CAN_TX (request_target r) (now ctx)"
      by (auto simp: permissions_cover_def list_ex_iff)
    with p show ?thesis by (auto simp: authorised_def)
  qed
  then have "\<not> allowed (fst (decide pol r ctx d))" by (simp add: decide_allows)
  then show ?thesis
    by (cases rule: decide_cases [of r pol ctx d]) (auto simp: allow_def allowed_def denied_not_allowed)
qed

theorem nothing_outlives_its_expiry_witness:
  "denied (fst (decide (\<lambda>_. Some NO_APPROVAL) (actuate\<lparr>request_class := ''bus.transmit''\<rparr>)
     (evaluation_context armed_session NaN (Some bench_scope)) []))"
  using nothing_outlives_its_expiry [of BUS_TRANSMIT "actuate\<lparr>request_class := ''bus.transmit''\<rparr>"
      "evaluation_context armed_session NaN (Some bench_scope)" "\<lambda>_. Some NO_APPROVAL" "[]"]
  by (simp add: transmits_def operation_class_of_def all_operation_classes_def evaluation_context_def)

end
